(* ===== verification/Relay_Prelude.thy ===== *)
theory Relay_Prelude
  imports Main "HOL-Library.Word" "HOL-Library.Multiset"
begin

section \<open>Prelude: Go values, results and byte strings\<close>

text \<open>
  What every component theory of the development shares:
  \<^item> the names of the Go types the sources use (\<open>byte\<close>, \<open>bytes\<close>, \<open>go_error\<close>, \<open>res\<close>);
  \<^item> the result type: an operation that returns a Go \<open>error\<close> or panics has a value of type
    \<open>go_error + 'a\<close>, \<open>Inl (Err msg)\<close> for a returned error, \<open>Inl (Panic k)\<close> for a run-time panic;
  \<^item> big-endian numbers, the meaning of \<open>big.Int.SetBytes\<close> and \<open>big.Int.Bytes\<close>;
  \<^item> lower-case hexadecimal text as \<open>encoding/hex\<close> writes and reads it;
  \<^item> the order in which \<open>range\<close> visits a Go map, as a list of keys.
  The collection \<open>go_simps\<close> holds the rewrite rules the component proofs share.
\<close>

named_theorems go_simps

type_synonym byte = "8 word"
type_synonym bytes = "byte list"

subsection \<open>Results\<close>

datatype go_panic = NilDeref | DivByZero | IndexOutOfRange | BadTypeAssertion | Fatal string

datatype go_error = Panic go_panic | Err string

type_synonym 'a res = "go_error + 'a"

fun rbind :: "'a res \<Rightarrow> ('a \<Rightarrow> 'b res) \<Rightarrow> 'b res" where
  "rbind (Inl e) f = Inl e"
| "rbind (Inr x) f = f x"

lemma rbind_Inr_iff [simp]: "rbind m f = Inr y \<longleftrightarrow> (\<exists>x. m = Inr x \<and> f x = Inr y)"
  by (cases m) auto

lemma rbind_Inl_iff: "rbind m f = Inl e \<longleftrightarrow> m = Inl e \<or> (\<exists>x. m = Inr x \<and> f x = Inl e)"
  by (cases m) auto

lemma rbind_assoc: "rbind (rbind m f) g = rbind m (\<lambda>x. rbind (f x) g)"
  by (cases m) auto

lemma rbind_cong [fundef_cong]:
  "m = m' \<Longrightarrow> (\<And>x. m' = Inr x \<Longrightarrow> f x = f' x) \<Longrightarrow> rbind m f = rbind m' f'"
  by (cases m') auto

text \<open>A loop body run over a slice, left to right, stopping at the first error.\<close>

fun rmap :: "('a \<Rightarrow> 'b res) \<Rightarrow> 'a list \<Rightarrow> 'b list res" where
  "rmap f [] = Inr []"
| "rmap f (x # xs) = rbind (f x) (\<lambda>y. rbind (rmap f xs) (\<lambda>ys. Inr (y # ys)))"

lemma rmap_length: "rmap f xs = Inr ys \<Longrightarrow> length ys = length xs"
  by (induction xs arbitrary: ys) auto

lemma rmap_Inr: "(\<And>x. x \<in> set xs \<Longrightarrow> f x = Inr (g x)) \<Longrightarrow> rmap f xs = Inr (map g xs)"
  by (induction xs) auto

lemma rmap_cong [fundef_cong]:
  "xs = ys \<Longrightarrow> (\<And>x. x \<in> set ys \<Longrightarrow> f x = g x) \<Longrightarrow> rmap f xs = rmap g ys"
proof (induction xs arbitrary: ys)
  case (Cons x xs)
  then show ?case by (cases ys) auto
qed simp

text \<open>A computation that does not panic, and whose result satisfies a property.\<close>

definition yields :: "('a \<Rightarrow> bool) \<Rightarrow> 'a res \<Rightarrow> bool" where
  "yields P r = (case r of Inl (Panic p) \<Rightarrow> False | Inl (Err e) \<Rightarrow> True | Inr v \<Rightarrow> P v)"

lemma yields_simps [simp]: "yields P (Inr v) = P v" "yields P (Inl (Err e))" "\<not> yields P (Inl (Panic p))"
  by (simp_all add: yields_def)

lemma yields_rbind: "yields Q m \<Longrightarrow> (\<And>x. m = Inr x \<Longrightarrow> Q x \<Longrightarrow> yields P (f x)) \<Longrightarrow> yields P (rbind m f)"
  by (auto simp: yields_def split: sum.splits go_error.splits)

lemma yields_rmap: "(\<And>x. x \<in> set xs \<Longrightarrow> yields P (f x)) \<Longrightarrow> yields (\<lambda>ys. length ys = length xs \<and> list_all P ys) (rmap f xs)"
  by (induction xs) (auto intro!: yields_rbind)

text \<open>A pointer that may be nil is an option; following it panics on nil.\<close>

definition deref :: "'a option \<Rightarrow> 'a res" where
  "deref p = (case p of None \<Rightarrow> Inl (Panic NilDeref) | Some x \<Rightarrow> Inr x)"

lemma deref_simps [simp]: "deref None = Inl (Panic NilDeref)" "deref (Some x) = Inr x"
  by (simp_all add: deref_def)

lemma deref_Inr_iff [simp]: "deref p = Inr x \<longleftrightarrow> p = Some x"
  by (cases p) auto

text \<open>Reading a slice or an array out of range panics.\<close>

definition nth_res :: "'a list \<Rightarrow> nat \<Rightarrow> 'a res" where
  "nth_res xs i = (if i < length xs then Inr (xs ! i) else Inl (Panic IndexOutOfRange))"

lemma nth_res_simps [simp]:
  "i < length xs \<Longrightarrow> nth_res xs i = Inr (xs ! i)"
  "length xs \<le> i \<Longrightarrow> nth_res xs i = Inl (Panic IndexOutOfRange)"
  by (simp_all add: nth_res_def)

subsection \<open>Big-endian numbers\<close>

text \<open>\<open>new(big.Int).SetBytes(bs)\<close>: the unsigned number a byte slice spells, most significant first.\<close>

definition be_val :: "bytes \<Rightarrow> nat" where
  "be_val bs = foldl (\<lambda>a b. a * 256 + unat b) 0 bs"

text \<open>\<open>x.Bytes()\<close> of a non-negative number: no leading zero byte, empty for 0.\<close>

fun be_bytes :: "nat \<Rightarrow> bytes" where
  "be_bytes n = (if n = 0 then [] else be_bytes (n div 256) @ [word_of_nat (n mod 256)])"

declare be_bytes.simps [simp del]

lemma be_val_Nil [simp]: "be_val [] = 0"
  by (simp add: be_val_def)

lemma be_val_snoc [simp]: "be_val (bs @ [b]) = be_val bs * 256 + unat b"
  by (simp add: be_val_def)

lemma be_val_append: "be_val (xs @ ys) = be_val xs * 256 ^ length ys + be_val ys"
  by (induction ys rule: rev_induct)
    (simp_all add: append_assoc [symmetric] algebra_simps del: append_assoc)

lemma be_val_Cons: "be_val (b # bs) = unat b * 256 ^ length bs + be_val bs"
  using be_val_append [of "[b]" bs] by (simp add: be_val_def)

lemma be_val_zeros [simp]: "be_val (replicate k 0 @ bs) = be_val bs"
  by (induction k) (simp_all add: be_val_Cons)

lemma be_val_replicate0 [simp]: "be_val (replicate k 0) = 0"
  using be_val_zeros [of k "[]"] by simp

lemma unat_byte_less: "unat (b :: byte) < 256"
  using unsigned_less [of b] by simp

lemma be_val_less: "be_val bs < 256 ^ length bs"
proof (induction bs rule: rev_induct)
  case (snoc b bs)
  have "be_val bs * 256 + unat b < (be_val bs + 1) * 256" using unat_byte_less [of b] by simp
  also have "\<dots> \<le> 256 ^ length bs * 256" using snoc by simp
  finally show ?case by simp
qed simp

lemma be_bytes_0 [simp]: "be_bytes 0 = []"
  by (simp add: be_bytes.simps)

lemma be_bytes_pos:
  "0 < n \<Longrightarrow> be_bytes n = be_bytes (n div 256) @ [word_of_nat (n mod 256)]"
  by (simp add: be_bytes.simps [of n])

lemma be_val_be_bytes [simp]: "be_val (be_bytes n) = n"
proof (induction n rule: be_bytes.induct)
  case (1 n)
  then show ?case
    by (cases "n = 0") (simp_all add: be_bytes_pos unat_of_nat)
qed

lemma length_be_bytes: "length (be_bytes n) \<le> k \<longleftrightarrow> n < 256 ^ k"
proof
  assume "length (be_bytes n) \<le> k"
  moreover have "n < 256 ^ length (be_bytes n)" using be_val_less [of "be_bytes n"] by simp
  ultimately show "n < 256 ^ k"
    by (meson dual_order.strict_trans1 one_le_numeral power_increasing)
next
  show "n < 256 ^ k \<Longrightarrow> length (be_bytes n) \<le> k"
  proof (induction k arbitrary: n)
    case (Suc k)
    show ?case
    proof (cases "n = 0")
      case False
      have "n div 256 < 256 ^ k" using Suc.prems by (simp add: less_mult_imp_div_less mult.commute)
      then show ?thesis using False Suc.IH [of "n div 256"] by (simp add: be_bytes_pos)
    qed simp
  qed simp
qed

lemma be_bytes_div_mod:
  "word_of_nat ((v * 256 + unat (b :: byte)) mod 256) = b"
  "(v * 256 + unat (b :: byte)) div 256 = v"
  using unat_byte_less [of b] by simp_all

text \<open>A byte string is its number's bytes behind as many zero bytes as its length needs.\<close>

lemma pad_be_bytes_be_val:
  "replicate (length bs - length (be_bytes (be_val bs))) 0 @ be_bytes (be_val bs) = bs"
proof (induction bs rule: rev_induct)
  case (snoc b bs)
  show ?case
  proof (cases "be_val (bs @ [b]) = 0")
    case True
    then have "be_val bs = 0" "b = 0" by (simp_all add: unat_eq_zero)
    moreover from this have "bs = replicate (length bs) 0" using snoc by simp
    ultimately show ?thesis by (metis append_Nil2 be_bytes_0 diff_zero length_append_singleton
          list.size(3) be_val_snoc mult_zero_left replicate_Suc replicate_append_same
          unsigned_0 add_0)
  next
    case False
    then have "be_bytes (be_val (bs @ [b])) = be_bytes (be_val bs) @ [b]"
      by (simp only: be_val_snoc be_bytes_pos be_bytes_div_mod neq0_conv)
    then show ?thesis using snoc by simp
  qed
qed simp

lemma be_val_inj: "length xs = length ys \<Longrightarrow> be_val xs = be_val ys \<Longrightarrow> xs = ys"
  by (metis pad_be_bytes_be_val)

subsection \<open>Hexadecimal text\<close>

text \<open>
  \<open>encoding/hex\<close>: two lower-case digits per byte; the decoder takes both cases and returns the
  bytes it decoded before the first malformed pair.
\<close>

definition hexdig :: "nat \<Rightarrow> char" where
  "hexdig n = char_of (if n < 10 then 48 + n else 87 + n)"

definition fromHexChar :: "char \<Rightarrow> nat option" where
  "fromHexChar c = (let k = of_char c :: nat in
     if 48 \<le> k \<and> k \<le> 57 then Some (k - 48)
     else if 97 \<le> k \<and> k \<le> 102 then Some (k - 87)
     else if 65 \<le> k \<and> k \<le> 70 then Some (k - 55)
     else None)"

definition hex_encode :: "bytes \<Rightarrow> string" where
  "hex_encode bs = concat (map (\<lambda>b. [hexdig (unat b div 16), hexdig (unat b mod 16)]) bs)"

fun hex_decode :: "string \<Rightarrow> bytes" where
  "hex_decode (a # b # s) = (case (fromHexChar a, fromHexChar b) of
     (Some x, Some y) \<Rightarrow> word_of_nat (16 * x + y) # hex_decode s
   | _ \<Rightarrow> [])"
| "hex_decode _ = []"

lemma of_char_hexdig: "n < 16 \<Longrightarrow> of_char (hexdig n) = (if n < 10 then 48 + n else 87 + n :: nat)"
  by (simp add: hexdig_def)

lemma fromHexChar_hexdig [simp]: "n < 16 \<Longrightarrow> fromHexChar (hexdig n) = Some n"
  by (auto simp: fromHexChar_def of_char_hexdig Let_def)

lemma fromHexChar_less: "fromHexChar c = Some n \<Longrightarrow> n < 16"
  by (auto simp: fromHexChar_def Let_def split: if_splits)

lemma hex_encode_simps [simp]:
  "hex_encode [] = []"
  "hex_encode (b # bs) = hexdig (unat b div 16) # hexdig (unat b mod 16) # hex_encode bs"
  by (simp_all add: hex_encode_def)

lemma length_hex_encode [simp]: "length (hex_encode bs) = 2 * length bs"
  by (induction bs) simp_all

lemma byte_div16 [simp]: "unat (b :: byte) div 16 < 16"
  using unat_byte_less [of b] by simp

lemma hex_decode_encode [simp]: "hex_decode (hex_encode bs) = bs"
  by (induction bs) simp_all

lemma hex_encode_digits: "\<forall>c \<in> set (hex_encode bs). fromHexChar c \<noteq> None"
  by (induction bs) auto

text \<open>The digits of a number in base 16, as \<open>fmt\<close> prints them, and the number a digit string spells.\<close>

fun hex_of_nat :: "nat \<Rightarrow> string" where
  "hex_of_nat n = (if n < 16 then [hexdig n] else hex_of_nat (n div 16) @ [hexdig (n mod 16)])"

declare hex_of_nat.simps [simp del]

definition hex_val :: "string \<Rightarrow> nat" where
  "hex_val s = foldl (\<lambda>a c. a * 16 + the (fromHexChar c)) 0 s"

lemma hex_val_snoc [simp]: "hex_val (s @ [c]) = hex_val s * 16 + the (fromHexChar c)"
  by (simp add: hex_val_def)

lemma hex_val_Nil [simp]: "hex_val [] = 0"
  by (simp add: hex_val_def)

lemma hex_val_append: "hex_val (s @ t) = hex_val s * 16 ^ length t + hex_val t"
  by (induction t rule: rev_induct)
    (simp_all add: append_assoc [symmetric] algebra_simps del: append_assoc)

lemma hex_val_of_nat [simp]: "hex_val (hex_of_nat n) = n"
proof (induction n rule: hex_of_nat.induct)
  case (1 n)
  then show ?case
    using hex_val_snoc [of "[]" "hexdig n"]
    by (cases "n < 16") (simp_all add: hex_of_nat.simps [of n])
qed

lemma hex_of_nat_digits: "\<forall>c \<in> set (hex_of_nat n). fromHexChar c \<noteq> None"
proof (induction n rule: hex_of_nat.induct)
  case (1 n)
  then show ?case by (cases "n < 16") (auto simp: hex_of_nat.simps [of n])
qed

lemma hex_of_nat_nonempty [simp]: "hex_of_nat n \<noteq> []"
  by (subst hex_of_nat.simps) simp

lemma be_val_hex_decode:
  assumes "even (length s)" and "\<forall>c \<in> set s. fromHexChar c \<noteq> None"
  shows "be_val (hex_decode s) = hex_val s \<and> length (hex_decode s) = length s div 2"
  using assms
proof (induction s rule: hex_decode.induct)
  case (1 a b s)
  then obtain x y where xy: "fromHexChar a = Some x" "fromHexChar b = Some y" by auto
  have "16 * x + y < 256" using fromHexChar_less [OF xy(1)] fromHexChar_less [OF xy(2)] by simp
  then have "unat (word_of_nat (16 * x + y) :: byte) = 16 * x + y"
    by (simp only: unat_of_nat) simp
  moreover have "256 ^ (length s div 2) = (16 :: nat) ^ length s"
  proof -
    have "(16 :: nat) ^ (2 * (length s div 2)) = 256 ^ (length s div 2)" by (simp add: power_mult)
    then show ?thesis using "1.prems"(1) by (simp add: dvd_mult_div_cancel)
  qed
  moreover have "hex_val (a # b # s) = (16 * x + y) * 16 ^ length s + hex_val s"
    using hex_val_append [of "[a, b]" s] xy by (simp add: hex_val_def)
  ultimately show ?case using 1 xy by (simp add: be_val_Cons)
qed auto

subsection \<open>Decimal text\<close>

text \<open>\<open>big.Int.String\<close> and \<open>big.Int.SetString\<close> in base 10: an optional sign and at least one digit; \<open>None\<close> is
  the failure, after which Go leaves the number undefined.\<close>

definition decdig :: "nat \<Rightarrow> char" where
  "decdig n = char_of (48 + n)"

definition digit_of :: "char \<Rightarrow> nat option" where
  "digit_of c = (let n = of_char c in if 48 \<le> n \<and> n \<le> 57 then Some (n - 48) else None)"

fun dec_of_nat :: "nat \<Rightarrow> string" where
  "dec_of_nat n = (if n < 10 then [decdig n] else dec_of_nat (n div 10) @ [decdig (n mod 10)])"

declare dec_of_nat.simps [simp del]

definition dec_val :: "string \<Rightarrow> nat" where
  "dec_val s = foldl (\<lambda>a c. a * 10 + the (digit_of c)) 0 s"

definition big_String :: "int \<Rightarrow> string" where
  "big_String x = (if x < 0 then ''-'' else []) @ dec_of_nat (nat \<bar>x\<bar>)"

definition big_SetString10 :: "string \<Rightarrow> int option" where
  "big_SetString10 s =
     (let neg = (s \<noteq> [] \<and> hd s = CHR ''-'');
          ds = (if s \<noteq> [] \<and> (hd s = CHR ''-'' \<or> hd s = CHR ''+'') then tl s else s)
      in if ds = [] \<or> (\<exists>c \<in> set ds. digit_of c = None) then None
         else Some (if neg then - int (dec_val ds) else int (dec_val ds)))"

lemma digit_of_decdig [simp]: "n < 10 \<Longrightarrow> digit_of (decdig n) = Some n"
  by (simp add: digit_of_def decdig_def Let_def)

lemma dec_val_snoc [simp]: "dec_val (s @ [c]) = dec_val s * 10 + the (digit_of c)"
  by (simp add: dec_val_def)

lemma dec_val_of_nat [simp]: "dec_val (dec_of_nat n) = n"
proof (induction n rule: dec_of_nat.induct)
  case (1 n)
  show ?case
  proof (cases "n < 10")
    case True
    then show ?thesis by (subst dec_of_nat.simps) (simp add: dec_val_def)
  next
    case False
    then show ?thesis using 1 by (subst dec_of_nat.simps) simp
  qed
qed

lemma dec_of_nat_digits: "c \<in> set (dec_of_nat n) \<Longrightarrow> digit_of c \<noteq> None"
proof (induction n rule: dec_of_nat.induct)
  case (1 n)
  then show ?case by (subst (asm) (2) dec_of_nat.simps) (auto split: if_splits)
qed

lemma dec_of_nat_nonempty [simp]: "dec_of_nat n \<noteq> []"
  by (subst dec_of_nat.simps) simp

lemma digit_of_sign [simp]: "digit_of CHR ''-'' = None" "digit_of CHR ''+'' = None"
  by (simp_all add: digit_of_def)

lemma big_SetString10_String [simp]: "big_SetString10 (big_String x) = Some x"
proof -
  let ?d = "dec_of_nat (nat \<bar>x\<bar>)"
  have "hd ?d \<in> set ?d" by simp
  then have "hd ?d \<noteq> CHR ''-'' \<and> hd ?d \<noteq> CHR ''+''" using dec_of_nat_digits digit_of_sign by metis
  moreover have "\<not> (\<exists>c \<in> set ?d. digit_of c = None)" using dec_of_nat_digits by blast
  ultimately show ?thesis by (auto simp: big_SetString10_def big_String_def Let_def)
qed

text \<open>\<open>SetString\<close> with base 0: the prefix of the text says the base, decimal without one; a number of more
  than one digit that begins with 0 is octal.\<close>

definition base_val :: "nat \<Rightarrow> string \<Rightarrow> nat" where
  "base_val b s = foldl (\<lambda>a c. a * b + the (fromHexChar c)) 0 s"

definition base_digits :: "nat \<Rightarrow> string \<Rightarrow> bool" where
  "base_digits b s \<longleftrightarrow> s \<noteq> [] \<and> (\<forall>c \<in> set s. case fromHexChar c of None \<Rightarrow> False | Some d \<Rightarrow> d < b)"

definition big_SetString0 :: "string \<Rightarrow> int option" where
  "big_SetString0 s =
     (let neg = (s \<noteq> [] \<and> hd s = CHR ''-'');
          ds = (if s \<noteq> [] \<and> (hd s = CHR ''-'' \<or> hd s = CHR ''+'') then tl s else s);
          (b, ds) = (if take 2 ds = ''0x'' \<or> take 2 ds = ''0X'' then (16, drop 2 ds)
                     else if take 2 ds = ''0b'' \<or> take 2 ds = ''0B'' then (2, drop 2 ds)
                     else if length ds > 1 \<and> hd ds = CHR ''0'' then (8, tl ds)
                     else (10, ds))
      in if \<not> base_digits b ds then None
         else Some (if neg then - int (base_val b ds) else int (base_val b ds)))"

lemma fromHexChar_decdig [simp]: "n < 10 \<Longrightarrow> fromHexChar (decdig n) = Some n"
  by (simp add: fromHexChar_def decdig_def Let_def)

lemma dec_of_nat_base: "base_digits 10 (dec_of_nat n) \<and> base_val 10 (dec_of_nat n) = n"
proof (induction n rule: dec_of_nat.induct)
  case (1 n)
  show ?case
  proof (cases "n < 10")
    case True
    then show ?thesis by (subst (1 2) dec_of_nat.simps) (simp add: base_digits_def base_val_def)
  next
    case False
    then have "base_digits 10 (dec_of_nat (n div 10)) \<and> base_val 10 (dec_of_nat (n div 10)) = n div 10" using 1 by simp
    then show ?thesis
      using False by (subst (1 2) dec_of_nat.simps) (auto simp: base_digits_def base_val_def)
  qed
qed

lemma decdig_0: "decdig 0 = CHR ''0''"
  by code_simp

lemma decdig_eq_0 [simp]: "n < 10 \<Longrightarrow> decdig n = CHR ''0'' \<longleftrightarrow> n = 0"
proof -
  assume "n < 10"
  then have "digit_of (decdig n) = Some n" by simp
  moreover have "digit_of CHR ''0'' = Some 0" by (simp add: digit_of_def)
  moreover have "decdig 0 = CHR ''0''" by (simp add: decdig_0)
  ultimately show ?thesis by (metis option.inject)
qed

lemma hd_dec_of_nat: "0 < n \<Longrightarrow> hd (dec_of_nat n) \<noteq> CHR ''0''"
proof (induction n rule: dec_of_nat.induct)
  case (1 n)
  then show ?case by (subst dec_of_nat.simps) (auto simp: not_less div_greater_zero_iff)
qed

lemma big_SetString0_String [simp]: "big_SetString0 (big_String x) = Some x"
proof -
  let ?d = "dec_of_nat (nat \<bar>x\<bar>)"
  have "hd ?d \<in> set ?d" by simp
  then have s: "hd ?d \<noteq> CHR ''-'' \<and> hd ?d \<noteq> CHR ''+''" using dec_of_nat_digits digit_of_sign by metis
  have z: "?d = ''0'' \<or> hd ?d \<noteq> CHR ''0''"
    using hd_dec_of_nat [of "nat \<bar>x\<bar>"] by (cases "x = 0") (simp_all add: dec_of_nat.simps [of 0] decdig_0)
  have p: "take 2 ?d \<noteq> ''0x'' \<and> take 2 ?d \<noteq> ''0X'' \<and> take 2 ?d \<noteq> ''0b'' \<and> take 2 ?d \<noteq> ''0B''
      \<and> \<not> (length ?d > 1 \<and> hd ?d = CHR ''0'')"
    using z by (cases ?d) auto
  have b: "base_digits 10 ?d" "int (base_val 10 ?d) = \<bar>x\<bar>" using dec_of_nat_base [of "nat \<bar>x\<bar>"] by simp_all
  have "big_SetString0 (s0 @ ?d) = Some (if s0 = ''-'' then - \<bar>x\<bar> else \<bar>x\<bar>)" if "s0 = ''-'' \<or> s0 = []" for s0
    using that s p b by (elim disjE; simp add: big_SetString0_def Let_def; blast)
  then show ?thesis by (simp add: big_String_def)
qed

subsection \<open>Text\<close>

text \<open>\<open>[]byte(s)\<close> and \<open>string(b)\<close>: a Go string is its bytes.\<close>

definition bytes_of :: "string \<Rightarrow> bytes" where
  "bytes_of s = map (\<lambda>c. word_of_nat (of_char c)) s"

definition string_of :: "bytes \<Rightarrow> string" where
  "string_of bs = map (\<lambda>b. char_of (unat b)) bs"

lemma string_of_bytes_of [simp]: "string_of (bytes_of s) = s"
proof -
  have "char_of (unat (word_of_nat (of_char c) :: byte)) = c" for c
    by (simp add: unat_of_nat)
  then show ?thesis by (induction s) (simp_all add: string_of_def bytes_of_def)
qed

lemma length_bytes_of [simp]: "length (bytes_of s) = length s"
  by (simp add: bytes_of_def)

text \<open>\<open>strings.ToUpper\<close> on ASCII text.\<close>

definition upper_char :: "char \<Rightarrow> char" where
  "upper_char c = (let k = of_char c :: nat in if 97 \<le> k \<and> k \<le> 122 then char_of (k - 32) else c)"

definition ToUpper :: "string \<Rightarrow> string" where
  "ToUpper s = map upper_char s"

lemma upper_char_idem [simp]: "upper_char (upper_char c) = upper_char c"
  by (auto simp: upper_char_def Let_def)

lemma ToUpper_idem [simp]: "ToUpper (ToUpper s) = ToUpper s"
  by (simp add: ToUpper_def)

lemma ToUpper_append: "ToUpper (s @ t) = ToUpper s @ ToUpper t"
  by (simp add: ToUpper_def)

lemma dom_if_Some [simp]: "dom (\<lambda>a. if a = k then Some v else m a) = insert k (dom m)"
  by auto

subsection \<open>Ranging over a Go map\<close>

text \<open>
  Go visits the keys of a map in an order the program cannot choose. An operation that ranges over
  a map takes that order as an argument, a list of keys; \<open>range_order\<close> says that the list is one of
  the orders Go may choose, and theorems hold for each of them.
\<close>

definition range_order :: "('k \<rightharpoonup> 'v) \<Rightarrow> 'k list \<Rightarrow> bool" where
  "range_order m ks \<longleftrightarrow> distinct ks \<and> set ks = dom m"

lemma range_orderD: "range_order m ks \<Longrightarrow> distinct ks" "range_order m ks \<Longrightarrow> set ks = dom m"
  by (simp_all add: range_order_def)

lemma range_order_SomeI: "range_order m ks \<Longrightarrow> k \<in> set ks \<Longrightarrow> \<exists>v. m k = Some v"
  by (auto simp: range_order_def)

subsection \<open>Transition systems\<close>

text \<open>A property that holds at the start and that every step keeps holds in every reachable state.\<close>

locale transition_system =
  fixes start :: "'s \<Rightarrow> bool"
    and step :: "'s \<Rightarrow> 's \<Rightarrow> bool"
    and inv :: "'s \<Rightarrow> bool"
  assumes start_inv: "start s \<Longrightarrow> inv s"
    and step_inv: "inv s \<Longrightarrow> step s s' \<Longrightarrow> inv s'"
begin

lemma reachable_inv: "step\<^sup>*\<^sup>* s s' \<Longrightarrow> start s \<Longrightarrow> inv s'"
  by (induction rule: rtranclp_induct) (auto intro: start_inv step_inv)

end

end
