(* ===== verification/Go_Common.thy ===== *)
theory Go_Common
  imports Relay_Prelude
begin

section \<open>Byte slices, hashes and addresses (go-ethereum \<open>common\<close>)\<close>

text \<open>
  The parts of the vendored \<open>go-ethereum/common\<close> the library calls on every page: padding, hex
  conversion, the fixed arrays \<open>Hash\<close> and \<open>Address\<close>, the hex text form of a fixed array, the
  256-bit two's complement encoding of \<open>common/math\<close>, and the conversions of \<open>math/big\<close>.
  A \<open>[n]byte\<close> array is a byte list of length \<open>n\<close>; every constructor below is shown to produce
  that length.
\<close>

type_synonym hash = bytes
type_synonym address = bytes

subsection \<open>Padding\<close>

definition RightPadBytes :: "bytes \<Rightarrow> nat \<Rightarrow> bytes" where
  "RightPadBytes bs l =
     (if l \<le> length bs then bs else bs @ replicate (l - length bs) 0)"

definition LeftPadBytes :: "bytes \<Rightarrow> nat \<Rightarrow> bytes" where
  "LeftPadBytes bs l =
     (if l \<le> length bs then bs else replicate (l - length bs) 0 @ bs)"

lemma length_LeftPadBytes [simp]: "length (LeftPadBytes s l) = max l (length s)"
  by (simp add: LeftPadBytes_def)

lemma length_RightPadBytes [simp]: "length (RightPadBytes s l) = max l (length s)"
  by (simp add: RightPadBytes_def)

lemma be_val_LeftPad [simp]: "be_val (LeftPadBytes s l) = be_val s"
  by (simp add: LeftPadBytes_def)

lemma LeftPadBytes_id: "length s = l \<Longrightarrow> LeftPadBytes s l = s"
  by (simp add: LeftPadBytes_def)

lemma RightPadBytes_id: "length s = l \<Longrightarrow> RightPadBytes s l = s"
  by (simp add: RightPadBytes_def)

lemma LeftPad_be_bytes: "LeftPadBytes (be_bytes (be_val bs)) (length bs) = bs"
proof -
  have "length (be_bytes (be_val bs)) \<le> length bs"
    using be_val_less [of bs] by (simp add: length_be_bytes)
  then show ?thesis
    using pad_be_bytes_be_val [of bs] by (auto simp: LeftPadBytes_def)
qed

lemma take_RightPad: "take (length s) (RightPadBytes s l) = s"
  by (simp add: RightPadBytes_def)

subsection \<open>Hex conversion\<close>

definition Bytes2Hex :: "bytes \<Rightarrow> string" where
  "Bytes2Hex d = hex_encode d"

definition Hex2Bytes :: "string \<Rightarrow> bytes" where
  "Hex2Bytes str = hex_decode str"

definition ToHex :: "bytes \<Rightarrow> string" where
  "ToHex b = (let hex = Bytes2Hex b; hex = (if length hex = 0 then ''0'' else hex) in ''0x'' @ hex)"

definition FromHex :: "string \<Rightarrow> bytes" where
  "FromHex s =
     (let s = (if 1 < length s \<and> (take 2 s = ''0x'' \<or> take 2 s = ''0X'') then drop 2 s else s);
          s = (if odd (length s) then ''0'' @ s else s)
      in Hex2Bytes s)"

lemma FromHex_ToHex: "bs \<noteq> [] \<Longrightarrow> FromHex (ToHex bs) = bs"
  by (cases bs) (simp_all add: FromHex_def ToHex_def Bytes2Hex_def Hex2Bytes_def Let_def)

lemma FromHex_0x [simp]: "FromHex ''0x'' = []"
  by (simp add: FromHex_def Hex2Bytes_def Let_def)

lemma be_val_FromHex_hex_of_nat: "be_val (FromHex (''0x'' @ hex_of_nat n)) = n"
proof -
  let ?d = "hex_of_nat n"
  let ?s = "if odd (length ?d) then ''0'' @ ?d else ?d"
  have zero: "fromHexChar CHR ''0'' = Some 0" by (simp add: fromHexChar_def)
  have "even (length ?s)" by simp
  moreover have "\<forall>c \<in> set ?s. fromHexChar c \<noteq> None" using hex_of_nat_digits zero by auto
  moreover have "hex_val ?s = n"
  proof (cases "odd (length ?d)")
    case True
    then have "hex_val ?s = hex_val [CHR ''0''] * 16 ^ length ?d + hex_val ?d"
      using hex_val_append [of "''0''" ?d] by simp
    moreover have "hex_val [CHR ''0''] = 0" using hex_val_snoc [of "[]" "CHR ''0''"] zero by simp
    ultimately show ?thesis by simp
  qed simp
  ultimately have "be_val (hex_decode ?s) = n" using be_val_hex_decode [of ?s] by metis
  moreover have "FromHex (''0x'' @ ?d) = hex_decode ?s"
    by (simp add: FromHex_def Hex2Bytes_def Let_def)
  ultimately show ?thesis by simp
qed

subsection \<open>Fixed arrays\<close>

text \<open>
  \<open>h.SetBytes(b)\<close> on a zeroed \<open>[n]byte\<close>: too long an input is cropped from the left, a shorter one
  is copied to the end of the array.
\<close>

definition setBytes :: "nat \<Rightarrow> bytes \<Rightarrow> bytes" where
  "setBytes n b = (let b = (if n < length b then drop (length b - n) b else b)
     in replicate (n - length b) 0 @ b)"

lemma length_setBytes [simp]: "length (setBytes n b) = n"
  by (simp add: setBytes_def Let_def)

lemma setBytes_id [simp]: "length b = n \<Longrightarrow> setBytes n b = b"
  by (simp add: setBytes_def)

lemma setBytes_eq_LeftPad: "length b \<le> n \<Longrightarrow> setBytes n b = LeftPadBytes b n"
  by (simp add: setBytes_def LeftPadBytes_def)

lemma be_val_setBytes: "be_val (setBytes n b) = be_val b mod 256 ^ n"
proof (cases "n < length b")
  case True
  let ?k = "length b - n"
  have "be_val b = be_val (take ?k b) * 256 ^ n + be_val (drop ?k b)"
    using be_val_append [of "take ?k b" "drop ?k b"] True by simp
  moreover have "be_val (drop ?k b) < 256 ^ n" using be_val_less [of "drop ?k b"] True by simp
  ultimately show ?thesis using True by (simp add: setBytes_def)
next
  case False
  then have "be_val b < 256 ^ n"
    using be_val_less [of b] by (meson not_less one_le_numeral order_less_le_trans power_increasing)
  then show ?thesis using False by (simp add: setBytes_def)
qed

definition BytesToHash :: "bytes \<Rightarrow> hash" where
  "BytesToHash b = setBytes 32 b"

definition HexToHash :: "string \<Rightarrow> hash" where
  "HexToHash s = BytesToHash (FromHex s)"

definition BytesToAddress :: "bytes \<Rightarrow> address" where
  "BytesToAddress b = setBytes 20 b"

definition HexToAddress :: "string \<Rightarrow> address" where
  "HexToAddress s = BytesToAddress (FromHex s)"

lemma length_hash_addr [simp]:
  "length (BytesToHash b) = 32" "length (HexToHash s) = 32"
  "length (BytesToAddress b) = 20" "length (HexToAddress s) = 20"
  by (simp_all add: BytesToHash_def HexToHash_def BytesToAddress_def HexToAddress_def)

text \<open>The 20 bytes of an address come back from the 32-byte word it is stored in.\<close>

lemma BytesToAddress_LeftPad: "length a = 20 \<Longrightarrow> BytesToAddress (LeftPadBytes a 32) = a"
  by (simp add: BytesToAddress_def setBytes_def LeftPadBytes_def)

text \<open>
  \<open>Address.Hex\<close>: the letters of the hex digits are upper case where the hash \<open>K\<close> of the digits says so.
\<close>

definition Address_Hex :: "(bytes \<Rightarrow> bytes) \<Rightarrow> address \<Rightarrow> string" where
  "Address_Hex K a =
    (let unchecksummed = hex_encode a; hash = K (bytes_of unchecksummed) in
     ''0x'' @ map (\<lambda>i. let c = unchecksummed ! i; hashByte = unat (hash ! (i div 2));
                hashByte = (if i mod 2 = 0 then hashByte div 16 else hashByte mod 16)
            in if of_char c > (57 :: nat) \<and> hashByte > 7 then char_of (of_char c - 32 :: nat) else c) [0 ..< length unchecksummed])"

lemma hex_decode_fromHexChar: "map fromHexChar s = map fromHexChar t \<Longrightarrow> hex_decode s = hex_decode t"
proof (induction s arbitrary: t rule: hex_decode.induct)
  case (1 a b s)
  then obtain a' b' t' where "t = a' # b' # t'" "fromHexChar a = fromHexChar a'" "fromHexChar b = fromHexChar b'"
      "map fromHexChar s = map fromHexChar t'" by (auto simp: Cons_eq_map_conv)
  then show ?case using "1.IH" by (auto split: option.splits)
qed (auto simp: Cons_eq_map_conv)

lemma fromHexChar_upper:
  "fromHexChar c = Some n \<Longrightarrow> of_char c < (97 :: nat) \<longrightarrow> of_char c \<le> (57 :: nat) \<Longrightarrow> of_char c > (57 :: nat) \<Longrightarrow>
   fromHexChar (char_of (of_char c - 32 :: nat)) = Some n"
  by (auto simp: fromHexChar_def Let_def split: if_splits)

lemma hex_encode_lower: "c \<in> set (hex_encode bs) \<Longrightarrow> of_char c \<le> (57 :: nat) \<or> 97 \<le> (of_char c :: nat)"
  by (induction bs) (auto simp: of_char_hexdig split: if_splits)

lemma HexToAddress_Hex:
  assumes "length a = 20"
  shows "HexToAddress (Address_Hex K a) = a"
proof -
  let ?s = "drop 2 (Address_Hex K a)"
  have s: "Address_Hex K a = ''0x'' @ ?s" "length ?s = 40" using assms by (simp_all add: Address_Hex_def Let_def)
  have "fromHexChar (?s ! i) = fromHexChar (hex_encode a ! i)" if "i < 40" for i
  proof -
    have "hex_encode a ! i \<in> set (hex_encode a)" using that assms by simp
    then obtain n where "fromHexChar (hex_encode a ! i) = Some n"
        "of_char (hex_encode a ! i) \<le> (57 :: nat) \<or> 97 \<le> (of_char (hex_encode a ! i) :: nat)"
      using hex_encode_digits [of a] hex_encode_lower [of "hex_encode a ! i" a] by auto
    then show ?thesis using that assms by (auto simp: Address_Hex_def Let_def intro!: fromHexChar_upper)
  qed
  then have "map fromHexChar ?s = map fromHexChar (hex_encode a)"
    using s(2) assms by (intro nth_equalityI) simp_all
  then have "hex_decode ?s = a" using hex_decode_fromHexChar [of ?s "hex_encode a"] by simp
  then have "FromHex (''0x'' @ ?s) = a" using s(2) by (simp add: FromHex_def Hex2Bytes_def Let_def)
  then have "FromHex (Address_Hex K a) = a" using s(1) by simp
  then show ?thesis using assms by (simp add: HexToAddress_def BytesToAddress_def)
qed

subsection \<open>Hex text of a fixed array (\<open>hexutil\<close>)\<close>

definition hexutil_Encode :: "bytes \<Rightarrow> string" where
  "hexutil_Encode b = ''0x'' @ hex_encode b"

definition bytesHave0xPrefix :: "string \<Rightarrow> bool" where
  "bytesHave0xPrefix input \<longleftrightarrow>
     2 \<le> length input \<and> input ! 0 = CHR ''0'' \<and> (input ! 1 = CHR ''x'' \<or> input ! 1 = CHR ''X'')"

definition checkText :: "string \<Rightarrow> bool \<Rightarrow> string res" where
  "checkText input wantPrefix =
     (if length input = 0 then Inr []
      else if \<not> bytesHave0xPrefix input \<and> wantPrefix then Inl (Err ''hex string without 0x prefix'')
      else (let input = (if bytesHave0xPrefix input then drop 2 input else input)
        in if odd (length input) then Inl (Err ''hex string of odd length'') else Inr input))"

text \<open>\<open>decodeNibble\<close> accepts exactly the digits \<open>fromHexChar\<close> does; \<open>None\<close> is its \<open>badNibble\<close>.\<close>

definition UnmarshalFixedText :: "nat \<Rightarrow> string \<Rightarrow> bytes res" where
  "UnmarshalFixedText n input = rbind (checkText input True) (\<lambda>raw.
     if length raw div 2 \<noteq> n then Inl (Err ''hex string has wrong length'')
     else if list_ex (\<lambda>b. fromHexChar b = None) raw then Inl (Err ''invalid hex string'')
     else Inr (hex_decode raw))"

lemma UnmarshalFixedText_Encode:
  "length b = n \<Longrightarrow> UnmarshalFixedText n (hexutil_Encode b) = Inr b"
  using hex_encode_digits [of b]
  by (auto simp: UnmarshalFixedText_def hexutil_Encode_def checkText_def bytesHave0xPrefix_def
      list_ex_iff)

lemma UnmarshalFixedText_length:
  "UnmarshalFixedText n s = Inr b \<Longrightarrow> length b = n"
proof -
  assume a: "UnmarshalFixedText n s = Inr b"
  then obtain raw where r: "checkText s True = Inr raw" "length raw div 2 = n"
      "\<forall>c \<in> set raw. fromHexChar c \<noteq> None" "b = hex_decode raw"
    by (auto simp: UnmarshalFixedText_def list_ex_iff split: if_splits)
  have "even (length raw)" using r(1) by (auto simp: checkText_def Let_def split: if_splits)
  then show ?thesis using be_val_hex_decode [of raw] r by simp
qed

subsection \<open>Big integers\<close>

text \<open>
  \<open>x.Bytes()\<close> is the magnitude of \<open>x\<close>. \<open>x.Int64()\<close> and \<open>x.Uint64()\<close> keep the low 64 bits:
  \<open>Int64\<close> of the signed value, \<open>Uint64\<close> of the magnitude.
\<close>

definition big_Bytes :: "int \<Rightarrow> bytes" where
  "big_Bytes x = be_bytes (nat \<bar>x\<bar>)"

definition big_SetBytes :: "bytes \<Rightarrow> int" where
  "big_SetBytes bs = int (be_val bs)"

definition big_Int64 :: "int \<Rightarrow> int" where
  "big_Int64 x = sint (word_of_int x :: 64 word)"

definition big_Uint64 :: "int \<Rightarrow> int" where
  "big_Uint64 x = \<bar>x\<bar> mod 2 ^ 64"

lemma big_Int64_id: "- (2 ^ 63) \<le> x \<Longrightarrow> x < 2 ^ 63 \<Longrightarrow> big_Int64 x = x"
  by (simp add: big_Int64_def signed_take_bit_int_eq_self signed_of_int)

lemma big_SetBytes_Bytes: "0 \<le> x \<Longrightarrow> big_SetBytes (big_Bytes x) = x"
  by (simp add: big_SetBytes_def big_Bytes_def)

lemma length_LeftPad_big: "0 \<le> x \<Longrightarrow> x < 2 ^ 256 \<Longrightarrow> length (LeftPadBytes (big_Bytes x) 32) = 32"
proof -
  assume "0 \<le> x" "x < 2 ^ 256"
  then have "nat \<bar>x\<bar> < 256 ^ 32" by (simp add: nat_less_iff)
  then have "length (big_Bytes x) \<le> 32" by (simp only: big_Bytes_def length_be_bytes)
  then show ?thesis by simp
qed

text \<open>
  \<open>math.U256(x)\<close> masks with \<open>2^256 - 1\<close>; on a big integer that is the remainder modulo \<open>2^256\<close>, for
  negative numbers too. \<open>PaddedBigBytes(x, n)\<close> writes a non-negative number in \<open>n\<close> bytes.
\<close>

definition math_U256 :: "int \<Rightarrow> int" where
  "math_U256 x = x mod 2 ^ 256"

definition PaddedBigBytes :: "int \<Rightarrow> nat \<Rightarrow> bytes" where
  "PaddedBigBytes x n = LeftPadBytes (big_Bytes x) n"

lemma length_PaddedBigBytes_U256 [simp]: "length (PaddedBigBytes (math_U256 x) 32) = 32"
  unfolding PaddedBigBytes_def by (rule length_LeftPad_big) (simp_all add: math_U256_def)

lemma big_SetBytes_PaddedBigBytes:
  "big_SetBytes (PaddedBigBytes (math_U256 x) 32) = x mod 2 ^ 256"
  by (simp add: PaddedBigBytes_def big_SetBytes_def big_Bytes_def math_U256_def)

end
