(* ===== verification/Types_Basic.thy ===== *)
theory Types_Basic
  imports Go_Common
begin

unbundle bit_operations_syntax

section \<open>Basic value types (\<open>types/types.go\<close>, \<open>types/numbers.go\<close>, \<open>types/bytes.go\<close>)\<close>

text \<open>
  The 32-byte word \<open>Bytes32\<close>, the JSON integer \<open>Big\<close>, the zero tests, \<open>Xor\<close> of byte slices and the
  transaction status names. The text forms of \<open>Big\<close>, \<open>Bytes32\<close>, \<open>Hash\<close> and \<open>Address\<close> are instances
  of one interface, the locale \<open>text_codec\<close>.
\<close>

subsection \<open>Bytes32\<close>

type_synonym bytes32 = bytes

text \<open>\<open>s.SetBytes(b)\<close> copies \<open>b\<close> (cropped from the left) to the end of the array and keeps the rest.\<close>

definition Bytes32_SetBytes :: "bytes32 \<Rightarrow> bytes \<Rightarrow> bytes32" where
  "Bytes32_SetBytes s b =
     (let b = (if length s < length b then drop (length b - 32) b else b)
      in take (32 - length b) s @ b)"

definition BytesToBytes32 :: "bytes \<Rightarrow> bytes32" where
  "BytesToBytes32 b = Bytes32_SetBytes (replicate 32 0) b"

definition BitToBytes32 :: "int \<Rightarrow> bytes32" where
  "BitToBytes32 b = BytesToBytes32 (big_Bytes b)"

definition HexToBytes32 :: "string \<Rightarrow> bytes32" where
  "HexToBytes32 s = BytesToBytes32 (FromHex s)"

definition Bytes32_Big :: "bytes32 \<Rightarrow> int" where
  "Bytes32_Big s = big_SetBytes s"

definition Bytes32_Hex :: "bytes32 \<Rightarrow> string" where
  "Bytes32_Hex s = ToHex s"

definition Bytes32_MarshalText :: "bytes32 \<Rightarrow> string" where
  "Bytes32_MarshalText a = Bytes32_Hex a"

definition Bytes32_UnmarshalText :: "bytes32 \<Rightarrow> string \<Rightarrow> bytes32" where
  "Bytes32_UnmarshalText a input = Bytes32_SetBytes a (HexToBytes32 input)"

lemma BytesToBytes32_eq: "BytesToBytes32 b = setBytes 32 b"
  by (auto simp: BytesToBytes32_def Bytes32_SetBytes_def setBytes_def Let_def min_def)

lemma length_Bytes32 [simp]: "length (BytesToBytes32 b) = 32" "length (HexToBytes32 s) = 32"
  by (simp_all add: BytesToBytes32_eq HexToBytes32_def)

lemma Bytes32_SetBytes_full [simp]:
  "length s = 32 \<Longrightarrow> length b = 32 \<Longrightarrow> Bytes32_SetBytes s b = b"
  by (simp add: Bytes32_SetBytes_def)

lemma Bytes32_text_roundtrip:
  "length a = 32 \<Longrightarrow> length b = 32 \<Longrightarrow> Bytes32_UnmarshalText b (Bytes32_MarshalText a) = a"
  using FromHex_ToHex [of a]
  by (cases "a = []") (simp_all add: Bytes32_UnmarshalText_def Bytes32_MarshalText_def
      Bytes32_Hex_def HexToBytes32_def BytesToBytes32_eq)

subsection \<open>Zero tests\<close>

definition NilHash :: hash where
  "NilHash = HexToHash ''0x''"

definition NilAddress :: address where
  "NilAddress = HexToAddress ''0x''"

definition IsZeroHash :: "hash \<Rightarrow> bool" where
  "IsZeroHash h \<longleftrightarrow> h = HexToHash ''0x''"

definition IsZeroAddress :: "address \<Rightarrow> bool" where
  "IsZeroAddress addr \<longleftrightarrow> addr = HexToAddress ''0x''"

lemma IsZeroHash_iff: "IsZeroHash h \<longleftrightarrow> h = replicate 32 0"
  by (simp add: IsZeroHash_def HexToHash_def BytesToHash_def setBytes_def)

lemma IsZeroAddress_iff: "IsZeroAddress a \<longleftrightarrow> a = replicate 20 0"
  by (simp add: IsZeroAddress_def HexToAddress_def BytesToAddress_def setBytes_def)

subsection \<open>Big\<close>

text \<open>\<open>fmt.Sprintf("%#x", b)\<close>: sign, \<open>0x\<close>, the digits of the magnitude.\<close>

definition BigintToHex :: "int option \<Rightarrow> string" where
  "BigintToHex b =
     (let b = (case b of None \<Rightarrow> 0 | Some x \<Rightarrow> x)
      in (if b < 0 then ''-'' else []) @ ''0x'' @ hex_of_nat (nat \<bar>b\<bar>))"

definition HexToBigint :: "string \<Rightarrow> int" where
  "HexToBigint h = big_SetBytes (FromHex h)"

definition Big_MarshalText :: "int \<Rightarrow> string" where
  "Big_MarshalText h = BigintToHex (Some h)"

definition Big_UnmarshalText :: "string \<Rightarrow> int" where
  "Big_UnmarshalText input = HexToBigint input"

definition Big_Int :: "int \<Rightarrow> int" where
  "Big_Int h = big_Int64 h"

definition Big_Int64 :: "int \<Rightarrow> int" where
  "Big_Int64 h = big_Int64 h"

definition Big_Uint :: "int \<Rightarrow> int" where
  "Big_Uint h = big_Uint64 h"

definition Big_Uint64 :: "int \<Rightarrow> int" where
  "Big_Uint64 h = big_Uint64 h"

definition NewBigPtr :: "int \<Rightarrow> int" where
  "NewBigPtr v = v"

definition NewBigWithInt :: "int \<Rightarrow> int" where
  "NewBigWithInt v = NewBigPtr v"

definition maxUint256 :: int where
  "maxUint256 = big_SetBytes (map (\<lambda>_. 255) [0 ..< 32 :: nat])"

lemma be_val_ones: "be_val (map (\<lambda>_. 255) [0 ..< n]) = 256 ^ n - 1"
proof (induction n)
  case (Suc n)
  have "1 \<le> (256 :: nat) ^ n" and u: "unat (255 :: byte) = 255" by simp_all
  then have "(256 ^ n - 1) * 256 + unat (255 :: byte) = 256 ^ Suc n - (1 :: nat)"
    unfolding u by (simp add: diff_mult_distrib)
  then show ?case using Suc by (simp only: upt_Suc_append le0 map_append list.map be_val_snoc)
qed simp

lemma maxUint256_eq: "maxUint256 = 2 ^ 256 - 1"
  unfolding maxUint256_def big_SetBytes_def be_val_ones by simp

lemma FromHex_neg: "FromHex (''-0x'' @ s) = []"
  by (auto simp: FromHex_def Hex2Bytes_def fromHexChar_def Let_def)

lemma Big_text: "Big_UnmarshalText (Big_MarshalText x) = max x 0"
proof (cases "x < 0")
  case True
  then show ?thesis
    using FromHex_neg [of "hex_of_nat (nat \<bar>x\<bar>)"]
    by (simp add: Big_UnmarshalText_def Big_MarshalText_def HexToBigint_def BigintToHex_def
        big_SetBytes_def)
next
  case False
  then show ?thesis
    using be_val_FromHex_hex_of_nat [of "nat x"]
    by (simp add: Big_UnmarshalText_def Big_MarshalText_def HexToBigint_def BigintToHex_def
        big_SetBytes_def)
qed

subsection \<open>Text codecs\<close>

text \<open>
  What the JSON code of the library relies on for a field with a text form: unmarshalling what was
  marshalled gives the value back, for the values that are valid for the field's type.
\<close>

locale text_codec =
  fixes valid :: "'a \<Rightarrow> bool"
    and marshal :: "'a \<Rightarrow> string"
    and unmarshal :: "string \<Rightarrow> 'a res"
  assumes roundtrip: "valid x \<Longrightarrow> unmarshal (marshal x) = Inr x"
begin

lemma marshal_inj: "valid x \<Longrightarrow> valid y \<Longrightarrow> marshal x = marshal y \<Longrightarrow> x = y"
  by (metis roundtrip sum.inject(2))

lemma roundtrip_list: "\<forall>x \<in> set xs. valid x \<Longrightarrow> rmap unmarshal (map marshal xs) = Inr xs"
  by (induction xs) (auto simp: roundtrip)

end

interpretation big: text_codec "\<lambda>x. 0 \<le> x" Big_MarshalText "\<lambda>s. Inr (Big_UnmarshalText s)"
  by unfold_locales (simp add: Big_text)

interpretation b32: text_codec "\<lambda>b. length b = 32" Bytes32_MarshalText
  "\<lambda>s. Inr (Bytes32_UnmarshalText (replicate 32 0) s)"
  by unfold_locales (simp add: Bytes32_text_roundtrip)

interpretation hash: text_codec "\<lambda>h. length h = 32" hexutil_Encode "UnmarshalFixedText 32"
  by unfold_locales (simp add: UnmarshalFixedText_Encode)

interpretation addr: text_codec "\<lambda>a. length a = 20" hexutil_Encode "UnmarshalFixedText 20"
  by unfold_locales (simp add: UnmarshalFixedText_Encode)

subsection \<open>Xor\<close>

text \<open>
  The loop indexes both slices at every position of the longer one: after padding they have the same
  length, so no index is out of range.
\<close>

definition Xor :: "bytes \<Rightarrow> bytes \<Rightarrow> bytes res" where
  "Xor bytes1 bytes2 =
     (let n1 = length bytes1; n2 = length bytes2;
          bytes2' = (if n1 > n2 then LeftPadBytes bytes2 n1 else bytes2);
          bytes1' = (if \<not> n1 > n2 \<and> n1 < n2 then LeftPadBytes bytes1 n2 else bytes1);
          n = (if \<not> n1 > n2 \<and> n1 < n2 then n2 else n1)
      in rmap (\<lambda>idx. rbind (nth_res bytes1' idx) (\<lambda>x. rbind (nth_res bytes2' idx) (\<lambda>y.
           Inr (x XOR y)))) [0 ..< n])"

definition xor_bytes :: "bytes \<Rightarrow> bytes \<Rightarrow> bytes" where
  "xor_bytes xs ys = map2 (XOR) xs ys"

lemma xor_bytes_nth: "length xs = length ys \<Longrightarrow>
    map (\<lambda>i. xs ! i XOR ys ! i) [0 ..< length xs] = xor_bytes xs ys"
  by (rule nth_equalityI) (simp_all add: xor_bytes_def)

lemma rmap_xor:
  assumes "length xs = n" "length ys = n"
  shows "rmap (\<lambda>i. rbind (nth_res xs i) (\<lambda>x. rbind (nth_res ys i) (\<lambda>y. Inr (x XOR y)))) [0 ..< n]
    = Inr (xor_bytes xs ys)"
  using rmap_Inr [of "[0 ..< n]" _ "\<lambda>i. xs ! i XOR ys ! i"] xor_bytes_nth [of xs ys] assms by simp

lemma Xor_eq:
  "Xor b1 b2 = Inr (xor_bytes (LeftPadBytes b1 (max (length b1) (length b2)))
                              (LeftPadBytes b2 (max (length b1) (length b2))))"
proof (cases "length b1" "length b2" rule: linorder_cases)
  case less
  then show ?thesis by (simp add: Xor_def rmap_xor max_def LeftPadBytes_id)
next
  case equal
  then show ?thesis by (simp add: Xor_def rmap_xor LeftPadBytes_id)
next
  case greater
  then show ?thesis by (simp add: Xor_def rmap_xor max_def LeftPadBytes_id)
qed

lemma Xor_same_length: "length b1 = length b2 \<Longrightarrow> Xor b1 b2 = Inr (xor_bytes b1 b2)"
  by (simp add: Xor_eq LeftPadBytes_id)

lemma length_xor_bytes [simp]: "length (xor_bytes a b) = min (length a) (length b)"
  by (simp add: xor_bytes_def)

lemma xor_bytes_comm: "length a = length b \<Longrightarrow> xor_bytes a b = xor_bytes b a"
  by (auto simp: xor_bytes_def intro!: nth_equalityI simp: xor.commute)

lemma xor_bytes_assoc:
  "length a = length b \<Longrightarrow> length b = length c \<Longrightarrow>
   xor_bytes (xor_bytes a b) c = xor_bytes a (xor_bytes b c)"
  by (auto simp: xor_bytes_def intro!: nth_equalityI simp: xor.assoc)

lemma xor_bytes_self: "xor_bytes a a = replicate (length a) 0"
  by (auto simp: xor_bytes_def intro!: nth_equalityI)

lemma xor_bytes_zero [simp]: "xor_bytes a (replicate (length a) 0) = a"
  by (auto simp: xor_bytes_def intro!: nth_equalityI)

subsection \<open>Transaction status\<close>

type_synonym tx_status = byte

abbreviation (input) "TX_STATUS_UNKNOWN \<equiv> 0 :: tx_status"
abbreviation (input) "TX_STATUS_PENDING \<equiv> 1 :: tx_status"
abbreviation (input) "TX_STATUS_SUCCESS \<equiv> 2 :: tx_status"
abbreviation (input) "TX_STATUS_FAILED \<equiv> 3 :: tx_status"

definition StatusStr :: "tx_status \<Rightarrow> string" where
  "StatusStr status =
     (if status = TX_STATUS_PENDING then ''pending''
      else if status = TX_STATUS_SUCCESS then ''success''
      else if status = TX_STATUS_FAILED then ''failed''
      else ''unknown'')"

definition StrToTxStatus :: "string \<Rightarrow> tx_status" where
  "StrToTxStatus txType =
     (if txType = ''pending'' then TX_STATUS_PENDING
      else if txType = ''success'' then TX_STATUS_SUCCESS
      else if txType = ''failed'' then TX_STATUS_FAILED
      else TX_STATUS_UNKNOWN)"

lemma StrToTxStatus_StatusStr:
  "StrToTxStatus (StatusStr st) = (if st \<le> TX_STATUS_FAILED then st else TX_STATUS_UNKNOWN)"
proof -
  have "st \<le> 3 \<longleftrightarrow> st \<in> {0, 1, 2, 3}"
  proof
    assume "st \<le> 3"
    then have "unat st \<le> 3" by (simp add: word_le_nat_alt)
    then have "unat st = 0 \<or> unat st = 1 \<or> unat st = 2 \<or> unat st = 3" by linarith
    then show "st \<in> {0, 1, 2, 3}" by (auto simp: word_unat_eq_iff)
  qed auto
  then show ?thesis by (auto simp: StrToTxStatus_def StatusStr_def)
qed

subsection \<open>Properties\<close>

text \<open>A number written as text is read back as itself when it is not negative; a negative one
  is read back as zero.\<close>

theorem big_text_roundtrip: "Big_UnmarshalText (Big_MarshalText x) = max x 0"
  by (rule Big_text)

text \<open>A list of 32-byte words, hashes or addresses written as text is read back unchanged.\<close>

theorem fixed_text_roundtrip:
  assumes "\<forall>b \<in> set ws. length b = 32" "\<forall>a \<in> set as. length a = 20"
  shows "map (\<lambda>s. Bytes32_UnmarshalText (replicate 32 0) s) (map Bytes32_MarshalText ws) = ws
    \<and> rmap (UnmarshalFixedText 32) (map hexutil_Encode ws) = Inr ws
    \<and> rmap (UnmarshalFixedText 20) (map hexutil_Encode as) = Inr as"
proof (intro conjI)
  show "map (\<lambda>s. Bytes32_UnmarshalText (replicate 32 0) s) (map Bytes32_MarshalText ws) = ws"
    using assms(1) by (induction ws) (simp_all add: Bytes32_text_roundtrip)
qed (use assms hash.roundtrip_list addr.roundtrip_list in blast)+

theorem fixed_text_roundtrip_witness:
  "rmap (UnmarshalFixedText 32) (map hexutil_Encode [replicate 32 171]) = Inr [replicate 32 171]"
  using fixed_text_roundtrip [of "[replicate 32 171]" "[]"] by simp

end
