(* ===== verification/Crypto_Sig.thy ===== *)
theory Crypto_Sig
  imports Types_Basic
begin

section \<open>Signatures (\<open>crypto/\<close>)\<close>

text \<open>
  The signature formats of \<open>crypto/crypto.go\<close>: a signature is 65 bytes, \<open>r\<close>, \<open>s\<close> and a recovery byte,
  or the triple \<open>(v, r, s)\<close> with \<open>v\<close> offset by 27; private keys and their text form; the key-store
  signer and its table of unlocked accounts. The elliptic-curve operations are C code and the key
  store is a service: they are arguments (\<open>ec_sign\<close>, \<open>ec_recover\<close>, \<open>ec_base\<close>, \<open>ks\<close>), as is the
  Keccak-256 function \<open>K\<close>.
\<close>

subsection \<open>Range checks of a signature\<close>

definition secp256k1_N :: int where
  "secp256k1_N = 0xfffffffffffffffffffffffffffffffebaaedce6af48a03bbfd25e8cd0364141"

definition secp256k1_halfN :: int where
  "secp256k1_halfN = secp256k1_N div 2"

definition ethCrypto_ValidateSignatureValues :: "byte \<Rightarrow> int \<Rightarrow> int \<Rightarrow> bool \<Rightarrow> bool" where
  "ethCrypto_ValidateSignatureValues v r s homestead =
     (if r < 1 \<or> s < 1 then False
      else if homestead \<and> s > secp256k1_halfN then False
      else r < secp256k1_N \<and> s < secp256k1_N \<and> (v = 0 \<or> v = 1))"

record EthCrypto =
  homestead :: bool

definition EthCrypto_ValidateSignatureValues :: "EthCrypto \<Rightarrow> byte \<Rightarrow> bytes \<Rightarrow> bytes \<Rightarrow> bool" where
  "EthCrypto_ValidateSignatureValues c v r s =
     ethCrypto_ValidateSignatureValues v (big_SetBytes r) (big_SetBytes s) (homestead c)"

subsection \<open>Hashing and address recovery\<close>

type_synonym keccak = "bytes \<Rightarrow> bytes"

definition GenerateHash :: "keccak \<Rightarrow> bytes list \<Rightarrow> bytes" where
  "GenerateHash K data = K (concat data)"

text \<open>The message prefix \<open>"\x19Ethereum Signed Message:\n32"\<close>.\<close>

definition sign_prefix :: bytes where
  "sign_prefix = bytes_of (CHR 0x19 # ''Ethereum Signed Message:'' @ [CHR 0x0A] @ ''32'')"

definition EthCrypto_SigToAddress ::
  "keccak \<Rightarrow> (bytes \<Rightarrow> bytes \<Rightarrow> 'pub res) \<Rightarrow> ('pub \<Rightarrow> address) \<Rightarrow> bytes \<Rightarrow> bytes \<Rightarrow> bytes res" where
  "EthCrypto_SigToAddress K ec_recover pub_addr hashPre sig =
     (let h = GenerateHash K [sign_prefix, hashPre]
      in rbind (ec_recover h sig) (\<lambda>pubKey. Inr (pub_addr pubKey)))"

subsection \<open>Signature formats\<close>

text \<open>\<open>copy(dst[off:], src)\<close> where the destination range is inside \<open>dst\<close>.\<close>

definition copy_at :: "bytes \<Rightarrow> nat \<Rightarrow> bytes \<Rightarrow> bytes" where
  "copy_at dst off src = take off dst @ src @ drop (off + length src) dst"

lemma length_copy_at [simp]: "off + length src \<le> length dst \<Longrightarrow> length (copy_at dst off src) = length dst"
  by (simp add: copy_at_def)

text \<open>The slice bounds \<open>32-len(r)\<close> and \<open>64-len(s)\<close> panic when negative.\<close>

definition VRSToSig :: "byte \<Rightarrow> bytes \<Rightarrow> bytes \<Rightarrow> bytes res" where
  "VRSToSig v r s =
     (if 32 < length r \<or> 64 < length s then Inl (Panic IndexOutOfRange)
      else (let vUint8 = (if 27 \<le> v then v - 27 else v);
                sig = replicate 65 0;
                sig = copy_at sig (32 - length r) r;
                sig = copy_at sig (64 - length s) s
            in Inr (sig[64 := vUint8])))"

definition SigToVRS :: "bytes \<Rightarrow> (byte \<times> bytes \<times> bytes) res" where
  "SigToVRS sig = rbind (nth_res sig 64) (\<lambda>v. Inr (v + 27, take 32 sig, take 32 (drop 32 sig)))"

lemma VRSToSig_32:
  assumes "length r = 32" "length s = 32"
  shows "VRSToSig v r s = Inr (r @ s @ [if 27 \<le> v then v - 27 else v])"
proof -
  have "copy_at (replicate 65 0) 0 r = r @ replicate 33 0"
    using assms by (simp add: copy_at_def)
  moreover have "copy_at (r @ replicate 33 0) 32 s = r @ s @ [0]"
    using assms by (simp add: copy_at_def)
  moreover have "(r @ s @ [0])[64 := w] = r @ s @ [w]" for w
    using assms by (simp add: list_update_append)
  ultimately show ?thesis using assms by (simp add: VRSToSig_def Let_def)
qed

lemma SigToVRS_65:
  assumes "length r = 32" "length s = 32"
  shows "SigToVRS (r @ s @ [b]) = Inr (b + 27, r, s)"
  using assms by (simp add: SigToVRS_def nth_append)

lemma sig_65_cases:
  assumes "length sig = 65"
  obtains r s b where "sig = r @ s @ [b]" "length r = 32" "length s = 32"
proof
  have "sig = take 64 sig @ [sig ! 64]"
    using take_Suc_conv_app_nth [of 64 sig] assms by simp
  moreover have "take 64 sig = take 32 sig @ take 32 (drop 32 sig)"
    using take_add [of 32 32 sig] by simp
  ultimately show "sig = take 32 sig @ take 32 (drop 32 sig) @ [sig ! 64]" by simp
qed (use assms in simp_all)

text \<open>Adding 27 and taking it off again is the identity for every byte that does not wrap.\<close>

lemma v_offset: "unat (b :: byte) < 229 \<Longrightarrow> 27 \<le> b + 27 \<and> b + 27 - 27 = b"
proof -
  assume b: "unat b < 229"
  have "unat (b + 27) = unat b + 27" using b by (simp add: unat_word_ariths)
  then show ?thesis by (simp add: word_le_nat_alt)
qed

lemma SigToVRS_VRSToSig:
  assumes "length sig = 65" "unat (sig ! 64) < 229"
  shows "rbind (SigToVRS sig) (\<lambda>(v, r, s). VRSToSig v r s) = Inr sig"
proof -
  obtain r s b where *: "sig = r @ s @ [b]" "length r = 32" "length s = 32"
    using assms(1) by (rule sig_65_cases)
  then have "sig ! 64 = b" by (simp add: nth_append)
  then have "27 \<le> b + 27 \<and> b + 27 - 27 = b" using assms(2) by (intro v_offset) simp
  then show ?thesis using * by (simp add: SigToVRS_65 VRSToSig_32)
qed

lemma VRSToSig_SigToVRS:
  assumes "27 \<le> v" "length r = 32" "length s = 32"
  shows "rbind (VRSToSig v r s) SigToVRS = Inr (v, r, s)"
  using assms by (simp add: VRSToSig_32 SigToVRS_65)

subsection \<open>Private keys\<close>

text \<open>
  \<open>ecdsa.PrivateKey\<close>: the scalar \<open>D\<close> (nil in a zero key) and the public key computed from it.
  \<open>ec_base d\<close> is the curve's \<open>ScalarBaseMult\<close>, \<open>None\<close> where it yields no point.
\<close>

record 'pub private_key =
  pk_D :: "int option"
  pk_Public :: "'pub option"

record 'pub EthPrivateKeyCrypto = EthCrypto +
  privateKey :: "'pub private_key option"

definition zero_private_key :: "'pub private_key" where
  "zero_private_key = \<lparr>pk_D = None, pk_Public = None\<rparr>"

definition ethCrypto_ToECDSA :: "(bytes \<Rightarrow> 'pub option) \<Rightarrow> bytes \<Rightarrow> 'pub private_key res" where
  "ethCrypto_ToECDSA ec_base d =
     (if 8 * length d \<noteq> 256 then Inl (Err ''invalid length, need 256 bits'')
      else (let D = big_SetBytes d in
        if secp256k1_N \<le> D then Inl (Err ''invalid private key, >=N'')
        else if D \<le> 0 then Inl (Err ''invalid private key, zero or negative'')
        else (case ec_base d of
            None \<Rightarrow> Inl (Err ''invalid private key'')
          | Some pub \<Rightarrow> Inr \<lparr>pk_D = Some D, pk_Public = Some pub\<rparr>)))"

definition toECDSA :: "(bytes \<Rightarrow> 'pub option) \<Rightarrow> string \<Rightarrow> 'pub private_key res" where
  "toECDSA ec_base privateKeyHex =
     (let privateKeyHex = (if take 2 privateKeyHex = ''0x'' then drop 2 privateKeyHex else privateKeyHex)
      in if length privateKeyHex = 0 then Inr zero_private_key
         else ethCrypto_ToECDSA ec_base (Hex2Bytes privateKeyHex))"

definition NewPrivateKeyCrypto ::
  "(bytes \<Rightarrow> 'pub option) \<Rightarrow> bool \<Rightarrow> string \<Rightarrow> 'pub EthPrivateKeyCrypto res" where
  "NewPrivateKeyCrypto ec_base hs privateKeyHex =
     rbind (toECDSA ec_base privateKeyHex) (\<lambda>k. Inr \<lparr>homestead = hs, privateKey = Some k\<rparr>)"

definition PrivateKey_UnmarshalText ::
  "(bytes \<Rightarrow> 'pub option) \<Rightarrow> 'pub EthPrivateKeyCrypto \<Rightarrow> string \<Rightarrow> 'pub EthPrivateKeyCrypto res" where
  "PrivateKey_UnmarshalText ec_base h input =
     rbind (toECDSA ec_base input) (\<lambda>k. Inr (h\<lparr>homestead := True, privateKey := Some k\<rparr>))"

definition PrivateKey_MarshalText :: "'pub EthPrivateKeyCrypto \<Rightarrow> string" where
  "PrivateKey_MarshalText h = (case privateKey h of
       None \<Rightarrow> []
     | Some k \<Rightarrow> (case pk_D k of None \<Rightarrow> [] | Some d \<Rightarrow> ToHex (LeftPadBytes (big_Bytes d) 32)))"

text \<open>The gob form has the same two bodies as the text form.\<close>

definition PrivateKey_GobEncode :: "'pub EthPrivateKeyCrypto \<Rightarrow> string" where
  "PrivateKey_GobEncode h = (case privateKey h of
       None \<Rightarrow> []
     | Some k \<Rightarrow> (case pk_D k of None \<Rightarrow> [] | Some d \<Rightarrow> ToHex (LeftPadBytes (big_Bytes d) 32)))"

definition PrivateKey_GobDecode ::
  "(bytes \<Rightarrow> 'pub option) \<Rightarrow> 'pub EthPrivateKeyCrypto \<Rightarrow> string \<Rightarrow> 'pub EthPrivateKeyCrypto res" where
  "PrivateKey_GobDecode ec_base h input =
     rbind (toECDSA ec_base input) (\<lambda>k. Inr (h\<lparr>homestead := True, privateKey := Some k\<rparr>))"

text \<open>A usable key: in range, with the public point the curve computes for it.\<close>

definition wf_key :: "(bytes \<Rightarrow> 'pub option) \<Rightarrow> 'pub EthPrivateKeyCrypto \<Rightarrow> bool" where
  "wf_key ec_base h \<longleftrightarrow> (\<exists>d pub. 0 < d \<and> d < secp256k1_N \<and>
     privateKey h = Some \<lparr>pk_D = Some d, pk_Public = Some pub\<rparr> \<and>
     ec_base (LeftPadBytes (big_Bytes d) 32) = Some pub)"

lemma secp256k1_N_bounds: "0 < secp256k1_N" "secp256k1_N < 2 ^ 256" "0 < secp256k1_halfN"
  by (simp_all add: secp256k1_N_def secp256k1_halfN_def)

lemma ToECDSA_of_D:
  assumes "0 < d" "d < secp256k1_N" "ec_base (LeftPadBytes (big_Bytes d) 32) = Some pub"
  shows "ethCrypto_ToECDSA ec_base (LeftPadBytes (big_Bytes d) 32)
    = Inr \<lparr>pk_D = Some d, pk_Public = Some pub\<rparr>"
proof -
  have "length (LeftPadBytes (big_Bytes d) 32) = 32"
    using assms secp256k1_N_bounds by (intro length_LeftPad_big) simp_all
  moreover have "big_SetBytes (LeftPadBytes (big_Bytes d) 32) = d"
    using assms by (simp add: big_SetBytes_def big_Bytes_def)
  ultimately show ?thesis using assms by (simp add: ethCrypto_ToECDSA_def del: length_LeftPadBytes)
qed

lemma toECDSA_ToHex: "bs \<noteq> [] \<Longrightarrow> toECDSA ec_base (ToHex bs) = ethCrypto_ToECDSA ec_base bs"
  by (cases bs) (simp_all add: toECDSA_def ToHex_def Bytes2Hex_def Hex2Bytes_def)

lemma key_text_roundtrip:
  assumes "wf_key ec_base h"
  shows "PrivateKey_UnmarshalText ec_base h0 (PrivateKey_MarshalText h)
    = Inr (h0\<lparr>homestead := True, privateKey := privateKey h\<rparr>)"
proof -
  from assms obtain d pub where d: "0 < d" "d < secp256k1_N"
      "privateKey h = Some \<lparr>pk_D = Some d, pk_Public = Some pub\<rparr>"
      "ec_base (LeftPadBytes (big_Bytes d) 32) = Some pub"
    by (auto simp: wf_key_def)
  have "LeftPadBytes (big_Bytes d) 32 \<noteq> []"
    by (metis length_LeftPadBytes list.size(3) max.cobounded1 not_numeral_le_zero)
  then have "toECDSA ec_base (ToHex (LeftPadBytes (big_Bytes d) 32))
      = Inr \<lparr>pk_D = Some d, pk_Public = Some pub\<rparr>"
    using d by (simp add: toECDSA_ToHex ToECDSA_of_D)
  then show ?thesis using d
    by (simp add: PrivateKey_UnmarshalText_def PrivateKey_MarshalText_def)
qed

lemma GobEncode_eq: "PrivateKey_GobEncode = PrivateKey_MarshalText"
  by (simp add: fun_eq_iff PrivateKey_GobEncode_def PrivateKey_MarshalText_def)

lemma GobDecode_eq: "PrivateKey_GobDecode = PrivateKey_UnmarshalText"
  by (simp add: fun_eq_iff PrivateKey_GobDecode_def PrivateKey_UnmarshalText_def)

subsection \<open>Signing with a private key\<close>

text \<open>\<open>ethCrypto.Sign\<close>: the hash must be 32 bytes; the curve code gets the scalar in 32 bytes.\<close>

definition ethCrypto_Sign :: "(bytes \<Rightarrow> bytes \<Rightarrow> bytes res) \<Rightarrow> bytes \<Rightarrow> 'pub private_key option \<Rightarrow> bytes res" where
  "ethCrypto_Sign ec_sign h prv =
     (if length h \<noteq> 32 then Inl (Err ''hash is required to be exactly 32 bytes'')
      else rbind (deref prv) (\<lambda>k. rbind (deref (pk_D k)) (\<lambda>d.
        ec_sign h (PaddedBigBytes d 32))))"

definition PrivateKey_Sign ::
  "keccak \<Rightarrow> (bytes \<Rightarrow> bytes \<Rightarrow> bytes res) \<Rightarrow> 'pub EthPrivateKeyCrypto \<Rightarrow> bytes \<Rightarrow> address \<Rightarrow> bytes res" where
  "PrivateKey_Sign K ec_sign c hashPre signerAddr =
     ethCrypto_Sign ec_sign (GenerateHash K [sign_prefix, hashPre]) (privateKey c)"

text \<open>A key without public point has no encoded point to take \<open>pubBytes[1:]\<close> of: the slice panics.\<close>

definition PrivateKey_Address :: "('pub \<Rightarrow> address) \<Rightarrow> 'pub EthPrivateKeyCrypto \<Rightarrow> address res" where
  "PrivateKey_Address pub_addr c =
     rbind (deref (privateKey c)) (\<lambda>k. case pk_Public k of
         None \<Rightarrow> Inl (Panic IndexOutOfRange)
       | Some pub \<Rightarrow> Inr (pub_addr pub))"

subsection \<open>The key-store signer\<close>

text \<open>
  The account table is a Go map shared by every copy of the value; \<open>UnlockAccount\<close> writes it before
  it asks the key store, whose answer is the argument \<open>ks_unlock\<close>.
\<close>

record EthKSCrypto = EthCrypto +
  unlockedAccounts :: "address \<rightharpoonup> bool"

definition NewKSCrypto :: "bool \<Rightarrow> EthKSCrypto" where
  "NewKSCrypto hs = \<lparr>homestead = hs, unlockedAccounts = Map.empty\<rparr>"

definition KS_UnlockAccount ::
  "(address \<Rightarrow> string \<Rightarrow> string option) \<Rightarrow> EthKSCrypto \<Rightarrow> address \<Rightarrow> string \<Rightarrow> EthKSCrypto \<times> string option" where
  "KS_UnlockAccount ks_unlock c acc passphrase =
     (c\<lparr>unlockedAccounts := (unlockedAccounts c)(acc \<mapsto> True)\<rparr>, ks_unlock acc passphrase)"

definition KS_IsUnlocked :: "EthKSCrypto \<Rightarrow> address \<Rightarrow> bool" where
  "KS_IsUnlocked c addr \<longleftrightarrow> unlockedAccounts c addr \<noteq> None"

definition KS_Sign ::
  "keccak \<Rightarrow> (address \<Rightarrow> bytes \<Rightarrow> bytes res) \<Rightarrow> EthKSCrypto \<Rightarrow> bytes \<Rightarrow> address \<Rightarrow> bytes res" where
  "KS_Sign K ks_sign c hashPre signerAddr =
     ks_sign signerAddr (GenerateHash K [sign_prefix, hashPre])"

text \<open>An account counts as unlocked after the call whatever the key store answered.\<close>

lemma KS_IsUnlocked_UnlockAccount:
  "KS_IsUnlocked (fst (KS_UnlockAccount ks_unlock c acc pw)) a \<longleftrightarrow> a = acc \<or> KS_IsUnlocked c a"
  by (auto simp: KS_IsUnlocked_def KS_UnlockAccount_def)

subsection \<open>The package-level interface (\<open>crypto/interface.go\<close>, \<open>crypto/method.go\<close>)\<close>

text \<open>The interface \<open>Crypto\<close> as the table of its methods; the package variable may be nil.\<close>

record crypto_ops =
  op_ValidateSignatureValues :: "byte \<Rightarrow> bytes \<Rightarrow> bytes \<Rightarrow> bool"
  op_Sign :: "bytes \<Rightarrow> address \<Rightarrow> bytes res"
  op_SigToAddress :: "bytes \<Rightarrow> bytes \<Rightarrow> bytes res"
  op_VRSToSig :: "byte \<Rightarrow> bytes \<Rightarrow> bytes \<Rightarrow> bytes res"

definition crypto_ValidateSignatureValues :: "crypto_ops option \<Rightarrow> byte \<Rightarrow> bytes \<Rightarrow> bytes \<Rightarrow> bool res" where
  "crypto_ValidateSignatureValues crypto v r s =
     rbind (deref crypto) (\<lambda>c. Inr (op_ValidateSignatureValues c v r s))"

definition crypto_Sign :: "crypto_ops option \<Rightarrow> bytes \<Rightarrow> address \<Rightarrow> bytes res" where
  "crypto_Sign crypto h signer = rbind (deref crypto) (\<lambda>c. op_Sign c h signer)"

definition crypto_SigToAddress :: "crypto_ops option \<Rightarrow> bytes \<Rightarrow> bytes \<Rightarrow> bytes res" where
  "crypto_SigToAddress crypto h sig = rbind (deref crypto) (\<lambda>c. op_SigToAddress c h sig)"

definition crypto_VRSToSig :: "crypto_ops option \<Rightarrow> byte \<Rightarrow> bytes \<Rightarrow> bytes \<Rightarrow> bytes res" where
  "crypto_VRSToSig crypto v r s = rbind (deref crypto) (\<lambda>c. op_VRSToSig c v r s)"

definition PrivateKey_ops ::
  "keccak \<Rightarrow> (bytes \<Rightarrow> bytes \<Rightarrow> bytes res) \<Rightarrow> (bytes \<Rightarrow> bytes \<Rightarrow> 'pub res) \<Rightarrow> ('pub \<Rightarrow> address) \<Rightarrow>
   'pub EthPrivateKeyCrypto \<Rightarrow> crypto_ops" where
  "PrivateKey_ops K ec_sign ec_recover pub_addr c = \<lparr>
     op_ValidateSignatureValues = EthCrypto_ValidateSignatureValues \<lparr>homestead = homestead c\<rparr>,
     op_Sign = PrivateKey_Sign K ec_sign c,
     op_SigToAddress = EthCrypto_SigToAddress K ec_recover pub_addr,
     op_VRSToSig = VRSToSig\<rparr>"

text \<open>
  What the package documentation of \<open>secp256k1\<close> promises of a signature: 65 bytes whose last byte is
  0 or 1, from which the signer's public key is recovered.
\<close>

definition ecdsa_spec ::
  "(bytes \<Rightarrow> bytes \<Rightarrow> bytes res) \<Rightarrow> (bytes \<Rightarrow> bytes \<Rightarrow> 'pub res) \<Rightarrow> (bytes \<Rightarrow> 'pub option) \<Rightarrow> bool" where
  "ecdsa_spec ec_sign ec_recover ec_base \<longleftrightarrow>
     (\<forall>h d sig pub. ec_sign h d = Inr sig \<longrightarrow> ec_base d = Some pub \<longrightarrow>
        length sig = 65 \<and> (sig ! 64 = 0 \<or> sig ! 64 = 1) \<and> ec_recover h sig = Inr pub)"

lemma PrivateKey_Sign_recover:
  assumes "ecdsa_spec ec_sign ec_recover ec_base" "wf_key ec_base c"
    and "PrivateKey_Sign K ec_sign c h a = Inr sig"
  shows "length sig = 65" "sig ! 64 = 0 \<or> sig ! 64 = 1"
    "EthCrypto_SigToAddress K ec_recover pub_addr h sig = PrivateKey_Address pub_addr c"
proof -
  from assms(2) obtain d pub where d: "0 < d" "d < secp256k1_N"
      "privateKey c = Some \<lparr>pk_D = Some d, pk_Public = Some pub\<rparr>"
      "ec_base (LeftPadBytes (big_Bytes d) 32) = Some pub"
    by (auto simp: wf_key_def)
  let ?h = "GenerateHash K [sign_prefix, h]"
  have "ec_sign ?h (LeftPadBytes (big_Bytes d) 32) = Inr sig"
    using assms(3) d(3)
    by (auto simp: PrivateKey_Sign_def ethCrypto_Sign_def PaddedBigBytes_def split: if_splits)
  then have "length sig = 65 \<and> (sig ! 64 = 0 \<or> sig ! 64 = 1) \<and> ec_recover ?h sig = Inr pub"
    using assms(1) d(4) unfolding ecdsa_spec_def by blast
  then show "length sig = 65" "sig ! 64 = 0 \<or> sig ! 64 = 1"
      "EthCrypto_SigToAddress K ec_recover pub_addr h sig = PrivateKey_Address pub_addr c"
    using d by (auto simp: EthCrypto_SigToAddress_def PrivateKey_Address_def)
qed

subsection \<open>Properties\<close>

text \<open>Splitting a 65-byte signature into V, R, S and joining them again gives the signature
  back, for each recovery byte that does not wrap when 27 is added.\<close>

theorem signature_split_join:
  assumes "length sig = 65" "unat (sig ! 64) < 229"
  shows "rbind (SigToVRS sig) (\<lambda>(v, r, s). VRSToSig v r s) = Inr sig"
  using assms by (rule SigToVRS_VRSToSig)

theorem signature_split_join_witness:
  "rbind (SigToVRS (replicate 64 7 @ [1])) (\<lambda>(v, r, s). VRSToSig v r s) = Inr (replicate 64 7 @ [1])"
  by (rule signature_split_join) (simp_all add: nth_append)

text \<open>A private key with the flag \<open>homestead\<close>, which reading always sets, is read back from its text or gob as the same key.\<close>

theorem private_key_roundtrip:
  assumes "wf_key ec_base h" "homestead h"
  shows "PrivateKey_UnmarshalText ec_base h (PrivateKey_MarshalText h) = Inr h
    \<and> PrivateKey_GobDecode ec_base h (PrivateKey_GobEncode h) = Inr h"
proof -
  have "h\<lparr>homestead := True, privateKey := privateKey h\<rparr> = h" using assms(2) by simp
  then show ?thesis using key_text_roundtrip [OF assms(1), of h] by (simp add: GobEncode_eq GobDecode_eq)
qed

definition demo_key :: "unit EthPrivateKeyCrypto" where
  "demo_key = \<lparr>homestead = True, privateKey = Some \<lparr>pk_D = Some 5, pk_Public = Some ()\<rparr>\<rparr>"

lemma demo_key_wf: "wf_key (\<lambda>_. Some ()) demo_key"
  by (simp add: wf_key_def demo_key_def secp256k1_N_def)

lemma demo_key_homestead: "homestead demo_key"
  by (simp add: demo_key_def)

theorem private_key_roundtrip_witness:
  "PrivateKey_UnmarshalText (\<lambda>_. Some ()) demo_key (PrivateKey_MarshalText demo_key) = Inr demo_key
    \<and> PrivateKey_GobDecode (\<lambda>_. Some ()) demo_key (PrivateKey_GobEncode demo_key) = Inr demo_key"
  using demo_key_wf demo_key_homestead by (rule private_key_roundtrip)

text \<open>The key store's answer does not matter: a failed unlock leaves the account marked as unlocked.\<close>

theorem failed_unlock_counts_as_unlocked:
  "snd (KS_UnlockAccount (\<lambda>_ _. Some ''could not decrypt key'') c acc pw) = Some ''could not decrypt key''
   \<and> KS_IsUnlocked (fst (KS_UnlockAccount (\<lambda>_ _. Some ''could not decrypt key'') c acc pw)) acc"
  by (simp add: KS_IsUnlocked_UnlockAccount) (simp add: KS_UnlockAccount_def)

end
