(* ===== verification/Orders.thy ===== *)
theory Orders
  imports Complex_Main Crypto_Sig
begin

section \<open>Orders (\<open>types/order.go\<close>, \<open>types/p2p_order.go\<close>)\<close>

text \<open>
  The order a user signs, its hash and signature, the amounts that remain of it and its conversion
  to a filled order. Go pointers that may be nil are options, so that an operation on an order with
  a missing field is a panic of the model too. The clock is an argument, one for each reading the
  code makes.
\<close>

subsection \<open>Data\<close>

record 'pub Order =
  ord_Protocol :: address
  ord_DelegateAddress :: address
  ord_AuthAddr :: address
  ord_AuthPrivateKey :: "'pub EthPrivateKeyCrypto"
  ord_WalletAddress :: address
  ord_TokenS :: address
  ord_TokenB :: address
  ord_AmountS :: "int option"
  ord_AmountB :: "int option"
  ord_ValidSince :: "int option"
  ord_ValidUntil :: "int option"
  ord_LrcFee :: "int option"
  ord_BuyNoMoreThanAmountB :: bool
  ord_MarginSplitPercentage :: byte
  ord_V :: byte
  ord_R :: bytes32
  ord_S :: bytes32
  ord_Price :: "rat option"
  ord_Owner :: address
  ord_Hash :: hash
  ord_Market :: string
  ord_CreateTime :: int
  ord_PowNonce :: int
  ord_Side :: string
  ord_OrderType :: string
  ord_P2PSide :: string
  ord_SourceId :: string

record 'pub OrderJsonRequest =
  req_Protocol :: address
  req_DelegateAddress :: address
  req_TokenS :: address
  req_TokenB :: address
  req_AuthAddr :: address
  req_AuthPrivateKey :: "'pub EthPrivateKeyCrypto"
  req_WalletAddress :: address
  req_AmountS :: "int option"
  req_AmountB :: "int option"
  req_ValidSince :: "int option"
  req_ValidUntil :: "int option"
  req_LrcFee :: "int option"
  req_BuyNoMoreThanAmountB :: bool
  req_MarginSplitPercentage :: byte
  req_V :: byte
  req_R :: bytes32
  req_S :: bytes32
  req_Price :: "rat option"
  req_Owner :: address
  req_Hash :: hash
  req_CreateTime :: int
  req_PowNonce :: int
  req_Side :: string
  req_OrderType :: string
  req_P2PSide :: string
  req_SourceId :: string

text \<open>The peer-to-peer request has one more field, the hash of the maker's order.\<close>

record 'pub P2POrderJsonRequest = "'pub OrderJsonRequest" +
  req_MakerOrderHash :: hash

text \<open>The zero value \<open>Order{}\<close>.\<close>

definition zero_address :: address where "zero_address = replicate 20 0"
definition zero_hash :: hash where "zero_hash = replicate 32 0"

definition zero_Order :: "'pub Order" where
  "zero_Order = \<lparr>ord_Protocol = zero_address, ord_DelegateAddress = zero_address,
     ord_AuthAddr = zero_address, ord_AuthPrivateKey = \<lparr>homestead = False, privateKey = None\<rparr>,
     ord_WalletAddress = zero_address, ord_TokenS = zero_address, ord_TokenB = zero_address,
     ord_AmountS = None, ord_AmountB = None, ord_ValidSince = None, ord_ValidUntil = None,
     ord_LrcFee = None, ord_BuyNoMoreThanAmountB = False, ord_MarginSplitPercentage = 0,
     ord_V = 0, ord_R = replicate 32 0, ord_S = replicate 32 0, ord_Price = None,
     ord_Owner = zero_address, ord_Hash = zero_hash, ord_Market = [], ord_CreateTime = 0,
     ord_PowNonce = 0, ord_Side = [], ord_OrderType = [], ord_P2PSide = [], ord_SourceId = []\<rparr>"

subsection \<open>From a request to an order\<close>

definition ToOrder :: "'pub OrderJsonRequest \<Rightarrow> 'pub Order" where
  "ToOrder request = zero_Order\<lparr>
     ord_Protocol := req_Protocol request,
     ord_DelegateAddress := req_DelegateAddress request,
     ord_TokenS := req_TokenS request,
     ord_TokenB := req_TokenB request,
     ord_AmountS := req_AmountS request,
     ord_AmountB := req_AmountB request,
     ord_ValidSince := req_ValidSince request,
     ord_ValidUntil := req_ValidUntil request,
     ord_AuthAddr := req_AuthAddr request,
     ord_AuthPrivateKey := req_AuthPrivateKey request,
     ord_LrcFee := req_LrcFee request,
     ord_BuyNoMoreThanAmountB := req_BuyNoMoreThanAmountB request,
     ord_MarginSplitPercentage := req_MarginSplitPercentage request,
     ord_V := req_V request,
     ord_R := req_R request,
     ord_S := req_S request,
     ord_Owner := req_Owner request,
     ord_WalletAddress := req_WalletAddress request,
     ord_PowNonce := req_PowNonce request,
     ord_OrderType := req_OrderType request,
     ord_P2PSide := req_P2PSide request,
     ord_SourceId := (if [] = req_SourceId request then ''unknown'' else req_SourceId request)\<rparr>"

definition ToP2POrder :: "'pub P2POrderJsonRequest \<Rightarrow> 'pub Order" where
  "ToP2POrder request = zero_Order\<lparr>
     ord_Protocol := req_Protocol request,
     ord_DelegateAddress := req_DelegateAddress request,
     ord_TokenS := req_TokenS request,
     ord_TokenB := req_TokenB request,
     ord_AmountS := req_AmountS request,
     ord_AmountB := req_AmountB request,
     ord_ValidSince := req_ValidSince request,
     ord_ValidUntil := req_ValidUntil request,
     ord_AuthAddr := req_AuthAddr request,
     ord_AuthPrivateKey := req_AuthPrivateKey request,
     ord_LrcFee := req_LrcFee request,
     ord_BuyNoMoreThanAmountB := req_BuyNoMoreThanAmountB request,
     ord_MarginSplitPercentage := req_MarginSplitPercentage request,
     ord_V := req_V request,
     ord_R := req_R request,
     ord_S := req_S request,
     ord_Owner := req_Owner request,
     ord_WalletAddress := req_WalletAddress request,
     ord_PowNonce := req_PowNonce request,
     ord_OrderType := req_OrderType request,
     ord_P2PSide := req_P2PSide request,
     ord_SourceId := (if [] = req_SourceId request then ''unknown'' else req_SourceId request)\<rparr>"

subsection \<open>Hash and signature\<close>

text \<open>A 256-bit field of the hashed message: the magnitude, left-padded to 32 bytes.\<close>

definition hash_word :: "int option \<Rightarrow> bytes res" where
  "hash_word x = rbind (deref x) (\<lambda>x. Inr (LeftPadBytes (big_Bytes x) 32))"

definition Order_hash_message :: "'pub Order \<Rightarrow> bytes list res" where
  "Order_hash_message o' =
     rbind (hash_word (ord_AmountS o')) (\<lambda>amountS.
     rbind (hash_word (ord_AmountB o')) (\<lambda>amountB.
     rbind (hash_word (ord_ValidSince o')) (\<lambda>validSince.
     rbind (hash_word (ord_ValidUntil o')) (\<lambda>validUntil.
     rbind (hash_word (ord_LrcFee o')) (\<lambda>lrcFee.
       Inr [ord_DelegateAddress o', ord_Owner o', ord_TokenS o', ord_TokenB o',
            ord_WalletAddress o', ord_AuthAddr o',
            amountS, amountB, validSince, validUntil, lrcFee,
            [if ord_BuyNoMoreThanAmountB o' then 1 else 0],
            [ord_MarginSplitPercentage o']])))))"

definition Order_GenerateHash :: "keccak \<Rightarrow> 'pub Order \<Rightarrow> hash res" where
  "Order_GenerateHash K o' =
     rbind (Order_hash_message o') (\<lambda>msg. Inr (BytesToHash (GenerateHash K msg)))"

text \<open>\<open>if IsZeroHash(o.Hash) { o.Hash = o.GenerateHash() }\<close>\<close>

definition Order_fill_hash :: "keccak \<Rightarrow> 'pub Order \<Rightarrow> 'pub Order res" where
  "Order_fill_hash K o' =
     (if IsZeroHash (ord_Hash o')
      then rbind (Order_GenerateHash K o') (\<lambda>h. Inr (o'\<lparr>ord_Hash := h\<rparr>))
      else Inr o')"

text \<open>The order is updated in place: both results are the order afterwards and what is returned.\<close>

definition Order_GenerateAndSetSignature ::
  "keccak \<Rightarrow> crypto_ops option \<Rightarrow> 'pub Order \<Rightarrow> address \<Rightarrow> 'pub Order \<times> unit res" where
  "Order_GenerateAndSetSignature K crypto o' singerAddr =
     (case Order_fill_hash K o' of
        Inl e \<Rightarrow> (o', Inl e)
      | Inr o1 \<Rightarrow>
          (case rbind (crypto_Sign crypto (ord_Hash o1) singerAddr) SigToVRS of
             Inl e \<Rightarrow> (o1, Inl e)
           | Inr (v, r, s) \<Rightarrow>
               (o1\<lparr>ord_V := v, ord_R := BytesToBytes32 r, ord_S := BytesToBytes32 s\<rparr>, Inr ())))"

definition Order_ValidateSignatureValues :: "crypto_ops option \<Rightarrow> 'pub Order \<Rightarrow> bool res" where
  "Order_ValidateSignatureValues crypto o' =
     crypto_ValidateSignatureValues crypto (ord_V o') (ord_R o') (ord_S o')"

definition Order_SignerAddress ::
  "keccak \<Rightarrow> crypto_ops option \<Rightarrow> 'pub Order \<Rightarrow> 'pub Order \<times> address res" where
  "Order_SignerAddress K crypto o' =
     (case Order_fill_hash K o' of
        Inl e \<Rightarrow> (o', Inl e)
      | Inr o1 \<Rightarrow>
          (o1, rbind (crypto_VRSToSig crypto (ord_V o1) (ord_R o1) (ord_S o1)) (\<lambda>sig.
               rbind (crypto_SigToAddress crypto (ord_Hash o1) sig) (\<lambda>addressBytes.
                 Inr (BytesToAddress addressBytes)))))"

lemma Order_hash_message_frame [simp]:
  "Order_hash_message (o'\<lparr>ord_V := v\<rparr>) = Order_hash_message o'"
  "Order_hash_message (o'\<lparr>ord_R := r\<rparr>) = Order_hash_message o'"
  "Order_hash_message (o'\<lparr>ord_S := s\<rparr>) = Order_hash_message o'"
  "Order_hash_message (o'\<lparr>ord_Hash := h\<rparr>) = Order_hash_message o'"
  by (simp_all add: Order_hash_message_def)

lemma Order_GenerateHash_frame [simp]:
  "Order_GenerateHash K (o'\<lparr>ord_V := v\<rparr>) = Order_GenerateHash K o'"
  "Order_GenerateHash K (o'\<lparr>ord_R := r\<rparr>) = Order_GenerateHash K o'"
  "Order_GenerateHash K (o'\<lparr>ord_S := s\<rparr>) = Order_GenerateHash K o'"
  "Order_GenerateHash K (o'\<lparr>ord_Hash := h\<rparr>) = Order_GenerateHash K o'"
  by (simp_all add: Order_GenerateHash_def)

lemma Order_GenerateHash_length: "Order_GenerateHash K o' = Inr h \<Longrightarrow> length h = 32"
  by (auto simp: Order_GenerateHash_def)

lemma Order_fill_hash_fixpoint:
  "Order_fill_hash K o' = Inr o1 \<Longrightarrow>
   Order_fill_hash K (o1\<lparr>ord_V := v, ord_R := r, ord_S := s\<rparr>) = Inr (o1\<lparr>ord_V := v, ord_R := r, ord_S := s\<rparr>)"
  by (auto simp: Order_fill_hash_def split: if_splits)

text \<open>Signing and recovering the signer, with the private-key implementation of the interface.\<close>

lemma sign_recover:
  fixes c :: "'pub EthPrivateKeyCrypto"
  assumes "ecdsa_spec ec_sign ec_recover ec_base" "wf_key ec_base c"
    and ops: "crypto = Some (PrivateKey_ops K ec_sign ec_recover pub_addr c)"
    and "Order_GenerateAndSetSignature K crypto o' a = (o'', Inr ())"
  shows "Order_SignerAddress K crypto o''
      = (o'', rbind (PrivateKey_Address pub_addr c) (\<lambda>b. Inr (BytesToAddress b)))"
    and "ord_V o'' = 27 \<or> ord_V o'' = 28"
proof -
  from assms(4) obtain o1 sig v r s where
    f: "Order_fill_hash K o' = Inr o1"
    and sg: "PrivateKey_Sign K ec_sign c (ord_Hash o1) a = Inr sig"
    and vrs: "SigToVRS sig = Inr (v, r, s)"
    and o2: "o'' = o1\<lparr>ord_V := v, ord_R := BytesToBytes32 r, ord_S := BytesToBytes32 s\<rparr>"
    unfolding Order_GenerateAndSetSignature_def ops
    by (auto simp: crypto_Sign_def PrivateKey_ops_def split: sum.splits)
  note sigfacts = PrivateKey_Sign_recover [OF assms(1,2) sg]
  obtain r' s' b where sig: "sig = r' @ s' @ [b]" "length r' = 32" "length s' = 32"
    using sigfacts(1) by (rule sig_65_cases)
  have b: "b = 0 \<or> b = 1" using sigfacts(2) sig by (simp add: nth_append)
  have vrs': "v = b + 27" "r = r'" "s = s'" using vrs sig by (simp_all add: SigToVRS_65)
  have "VRSToSig v r s = Inr sig"
    using b sig vrs' by (auto simp: VRSToSig_32)
  moreover have "BytesToBytes32 r = r" "BytesToBytes32 s = s"
    using sig vrs' by (simp_all add: BytesToBytes32_eq)
  ultimately show "Order_SignerAddress K crypto o''
      = (o'', rbind (PrivateKey_Address pub_addr c) (\<lambda>b. Inr (BytesToAddress b)))"
    unfolding Order_SignerAddress_def o2 Order_fill_hash_fixpoint [OF f] ops
    using sigfacts(3) [of pub_addr]
    by (simp add: crypto_VRSToSig_def crypto_SigToAddress_def PrivateKey_ops_def)
  show "ord_V o'' = 27 \<or> ord_V o'' = 28" using b vrs' o2 by auto
qed

subsection \<open>Rationals of \<open>math/big\<close>\<close>

text \<open>\<open>SetFrac(a, b)\<close> and \<open>Inv\<close> panic on a zero denominator; nil arguments panic as well.\<close>

definition rat_SetFrac :: "int option \<Rightarrow> int option \<Rightarrow> rat res" where
  "rat_SetFrac a b = rbind (deref a) (\<lambda>a. rbind (deref b) (\<lambda>b.
     if b = 0 then Inl (Panic DivByZero) else Inr (of_int a / of_int b)))"

definition rat_SetInt :: "int option \<Rightarrow> rat res" where
  "rat_SetInt a = rbind (deref a) (\<lambda>a. Inr (of_int a))"

definition rat_Inv :: "rat \<Rightarrow> rat res" where
  "rat_Inv x = (if x = 0 then Inl (Panic DivByZero) else Inr (inverse x))"

lemma rat_ops_simps [simp]:
  "b \<noteq> 0 \<Longrightarrow> rat_SetFrac (Some a) (Some b) = Inr (of_int a / of_int b)"
  "rat_SetInt (Some a) = Inr (of_int a)"
  "x \<noteq> 0 \<Longrightarrow> rat_Inv x = Inr (inverse x)"
  by (simp_all add: rat_SetFrac_def rat_SetInt_def rat_Inv_def)

definition Order_GeneratePrice :: "'pub Order \<Rightarrow> 'pub Order res" where
  "Order_GeneratePrice o' =
     rbind (rat_SetFrac (ord_AmountS o') (ord_AmountB o')) (\<lambda>p. Inr (o'\<lparr>ord_Price := Some p\<rparr>))"

subsection \<open>The state of an order\<close>

type_synonym order_status = byte

abbreviation (input) "ORDER_NEW \<equiv> 1 :: order_status"
abbreviation (input) "ORDER_PARTIAL \<equiv> 2 :: order_status"

record 'pub OrderState =
  st_RawOrder :: "'pub Order"
  st_UpdatedBlock :: "int option"
  st_DealtAmountS :: "int option"
  st_DealtAmountB :: "int option"
  st_SplitAmountS :: "int option"
  st_SplitAmountB :: "int option"
  st_CancelledAmountS :: "int option"
  st_CancelledAmountB :: "int option"
  st_Status :: order_status
  st_BroadcastTime :: int

definition RemainedAmount :: "'pub OrderState \<Rightarrow> (rat \<times> rat) res" where
  "RemainedAmount st =
     (let raw = st_RawOrder st in
      if ord_BuyNoMoreThanAmountB raw then
        rbind (rat_SetInt (st_DealtAmountB st)) (\<lambda>dealt.
        rbind (rat_SetInt (st_CancelledAmountB st)) (\<lambda>cancelled.
        rbind (rat_SetInt (st_SplitAmountB st)) (\<lambda>split.
        let reducedAmountB = 0 + dealt + cancelled + split in
        rbind (rat_SetFrac (ord_AmountS raw) (ord_AmountB raw)) (\<lambda>sellPrice.
        rbind (rat_SetInt (ord_AmountB raw)) (\<lambda>amountB.
        let remainedAmountB = amountB - reducedAmountB;
            remainedAmountS = remainedAmountB * sellPrice
        in Inr (remainedAmountS, remainedAmountB))))))
      else
        rbind (rat_SetInt (st_DealtAmountS st)) (\<lambda>dealt.
        rbind (rat_SetInt (st_CancelledAmountS st)) (\<lambda>cancelled.
        rbind (rat_SetInt (st_SplitAmountS st)) (\<lambda>split.
        let reducedAmountS = 0 + dealt + cancelled + split in
        rbind (rat_SetFrac (ord_AmountB raw) (ord_AmountS raw)) (\<lambda>buyPrice.
        rbind (rat_SetInt (ord_AmountS raw)) (\<lambda>amountS.
        let remainedAmountS = amountS - reducedAmountS;
            remainedAmountB = remainedAmountS * buyPrice
        in Inr (remainedAmountS, remainedAmountB)))))))"

definition DealtAndSplitAmount :: "'pub OrderState \<Rightarrow> (rat \<times> rat) res" where
  "DealtAndSplitAmount st =
     (let raw = st_RawOrder st in
      if ord_BuyNoMoreThanAmountB raw then
        rbind (deref (st_DealtAmountB st)) (\<lambda>dealt.
        rbind (deref (st_SplitAmountB st)) (\<lambda>split.
        let totalAmountB = of_int (dealt + split) in
        rbind (rat_SetFrac (ord_AmountS raw) (ord_AmountB raw)) (\<lambda>sellPrice.
        Inr (totalAmountB * sellPrice, totalAmountB))))
      else
        rbind (deref (st_DealtAmountS st)) (\<lambda>dealt.
        rbind (deref (st_SplitAmountS st)) (\<lambda>split.
        let totalAmountS = of_int (dealt + split) in
        rbind (rat_SetFrac (ord_AmountB raw) (ord_AmountS raw)) (\<lambda>buyPrice.
        Inr (totalAmountS, totalAmountS * buyPrice)))))"

definition isValueDusted :: "rat \<Rightarrow> rat \<Rightarrow> bool" where
  "isValueDusted remainedValue dustValue \<longleftrightarrow> remainedValue \<le> dustValue"

definition IsOrderFullFinished :: "'pub OrderState \<Rightarrow> rat \<Rightarrow> rat \<Rightarrow> rat \<Rightarrow> bool res" where
  "IsOrderFullFinished st tokenSPrice tokenBPrice dustValue =
     rbind (RemainedAmount st) (\<lambda>(remainedAmountS, _).
       Inr (isValueDusted (remainedAmountS * tokenSPrice) dustValue))"

definition IsExpired :: "int \<Rightarrow> 'pub OrderState \<Rightarrow> bool res" where
  "IsExpired now ord =
     (if st_Status ord = ORDER_NEW \<or> st_Status ord = ORDER_PARTIAL then
        rbind (deref (ord_ValidUntil (st_RawOrder ord))) (\<lambda>u. Inr (big_Int64 u < now))
      else Inr False)"

definition IsEffective :: "int \<Rightarrow> int \<Rightarrow> 'pub OrderState \<Rightarrow> bool res" where
  "IsEffective now now' ord =
     (if st_Status ord = ORDER_NEW \<or> st_Status ord = ORDER_PARTIAL then
        rbind (deref (ord_ValidSince (st_RawOrder ord))) (\<lambda>f.
          if big_Int64 f \<le> now
          then rbind (deref (ord_ValidUntil (st_RawOrder ord))) (\<lambda>u. Inr (big_Int64 u > now'))
          else Inr False)
      else Inr False)"

subsection \<open>Filled orders\<close>

record 'pub FilledOrder =
  fo_OrderState :: "'pub OrderState"
  fo_FeeSelection :: byte
  fo_RateAmountS :: "rat option"
  fo_AvailableAmountS :: "rat option"
  fo_AvailableAmountB :: "rat option"
  fo_FillAmountS :: "rat option"
  fo_FillAmountB :: "rat option"
  fo_LrcReward :: "rat option"
  fo_LrcFee :: "rat option"
  fo_LegalLrcFee :: "rat option"
  fo_FeeS :: "rat option"
  fo_LegalFeeS :: "rat option"
  fo_LegalFee :: "rat option"
  fo_SPrice :: "rat option"
  fo_BPrice :: "rat option"
  fo_AvailableLrcBalance :: "rat option"
  fo_AvailableTokenSBalance :: "rat option"

definition zero_FilledOrder :: "'pub OrderState \<Rightarrow> 'pub FilledOrder" where
  "zero_FilledOrder st = \<lparr>fo_OrderState = st, fo_FeeSelection = 0, fo_RateAmountS = None,
     fo_AvailableAmountS = None, fo_AvailableAmountB = None, fo_FillAmountS = None,
     fo_FillAmountB = None, fo_LrcReward = None, fo_LrcFee = None, fo_LegalLrcFee = None,
     fo_FeeS = None, fo_LegalFeeS = None, fo_LegalFee = None, fo_SPrice = None, fo_BPrice = None,
     fo_AvailableLrcBalance = None, fo_AvailableTokenSBalance = None\<rparr>"

definition ConvertOrderStateToFilledOrder ::
  "'pub OrderState \<Rightarrow> rat \<Rightarrow> rat \<Rightarrow> address \<Rightarrow> 'pub FilledOrder res" where
  "ConvertOrderStateToFilledOrder orderState lrcBalance tokenSBalance lrcAddress =
     (let raw = st_RawOrder orderState in
      rbind (RemainedAmount orderState) (\<lambda>(availS, availB).
      rbind (rat_SetFrac (ord_AmountS raw) (ord_AmountB raw)) (\<lambda>sellPrice.
      rbind (if tokenSBalance < availS
             then rbind (rat_Inv sellPrice) (\<lambda>i. Inr (tokenSBalance, tokenSBalance * i))
             else Inr (availS, availB)) (\<lambda>(availS, availB).
      rbind (if ord_BuyNoMoreThanAmountB raw
             then Inr (availB * sellPrice, availB)
             else rbind (rat_Inv sellPrice) (\<lambda>i. Inr (availS, availS * i))) (\<lambda>(availS, availB).
      let lrc = (if ord_TokenB raw = lrcAddress \<and> lrcBalance < availB then availB else lrcBalance)
      in Inr ((zero_FilledOrder orderState)\<lparr>
           fo_AvailableLrcBalance := Some lrc,
           fo_AvailableTokenSBalance := Some tokenSBalance,
           fo_AvailableAmountS := Some availS,
           fo_AvailableAmountB := Some availB\<rparr>))))))"

text \<open>An order state whose amounts are all present, with positive totals: what the database holds.\<close>

definition wf_state :: "'pub OrderState \<Rightarrow> bool" where
  "wf_state st \<longleftrightarrow> (\<exists>amtS amtB. ord_AmountS (st_RawOrder st) = Some amtS \<and>
       ord_AmountB (st_RawOrder st) = Some amtB \<and> 0 < amtS \<and> 0 < amtB) \<and>
     st_DealtAmountS st \<noteq> None \<and> st_DealtAmountB st \<noteq> None \<and>
     st_SplitAmountS st \<noteq> None \<and> st_SplitAmountB st \<noteq> None \<and>
     st_CancelledAmountS st \<noteq> None \<and> st_CancelledAmountB st \<noteq> None"

text \<open>What was dealt, split and cancelled of an order, on the side its limit is on.\<close>

definition used_amount :: "'pub OrderState \<Rightarrow> int" where
  "used_amount st = (if ord_BuyNoMoreThanAmountB (st_RawOrder st)
     then the (st_DealtAmountB st) + the (st_CancelledAmountB st) + the (st_SplitAmountB st)
     else the (st_DealtAmountS st) + the (st_CancelledAmountS st) + the (st_SplitAmountS st))"

abbreviation "amountS st \<equiv> the (ord_AmountS (st_RawOrder st))"
abbreviation "amountB st \<equiv> the (ord_AmountB (st_RawOrder st))"

lemma wf_stateE:
  assumes "wf_state st"
  obtains aS aB dS dB sS sB cS cB where
    "ord_AmountS (st_RawOrder st) = Some aS" "ord_AmountB (st_RawOrder st) = Some aB"
    "0 < aS" "0 < aB" "st_DealtAmountS st = Some dS" "st_DealtAmountB st = Some dB"
    "st_SplitAmountS st = Some sS" "st_SplitAmountB st = Some sB"
    "st_CancelledAmountS st = Some cS" "st_CancelledAmountB st = Some cB"
  using assms unfolding wf_state_def by blast

text \<open>
  The remaining amounts as one formula: on the limited side the total less what was used, on the
  other side the same share of its total.
\<close>

definition remained_spec :: "'pub OrderState \<Rightarrow> rat \<times> rat" where
  "remained_spec st =
     (if ord_BuyNoMoreThanAmountB (st_RawOrder st)
      then ((of_int (amountB st) - of_int (used_amount st)) * (of_int (amountS st) / of_int (amountB st)),
            of_int (amountB st) - of_int (used_amount st))
      else (of_int (amountS st) - of_int (used_amount st),
            (of_int (amountS st) - of_int (used_amount st)) * (of_int (amountB st) / of_int (amountS st))))"

lemma RemainedAmount_wf: "wf_state st \<Longrightarrow> RemainedAmount st = Inr (remained_spec st)"
  by (erule wf_stateE) (simp add: RemainedAmount_def remained_spec_def used_amount_def Let_def)

lemma remained_ratio:
  assumes "wf_state st"
  shows "fst (remained_spec st) * of_int (amountB st) = snd (remained_spec st) * of_int (amountS st)"
  using assms by (elim wf_stateE) (simp add: remained_spec_def)

lemma ConvertOrderStateToFilledOrder_wf:
  fixes bal :: rat
  assumes "wf_state st"
  defines "availS \<equiv> min (fst (remained_spec st)) bal"
  defines "availB \<equiv> availS * of_int (amountB st) / of_int (amountS st)"
  shows "ConvertOrderStateToFilledOrder st lrcBal bal lrcAddr = Inr ((zero_FilledOrder st)\<lparr>
     fo_AvailableLrcBalance := Some (if ord_TokenB (st_RawOrder st) = lrcAddr then max lrcBal availB else lrcBal),
     fo_AvailableTokenSBalance := Some bal,
     fo_AvailableAmountS := Some availS,
     fo_AvailableAmountB := Some availB\<rparr>)"
proof -
  obtain aS aB where a: "ord_AmountS (st_RawOrder st) = Some aS" "ord_AmountB (st_RawOrder st) = Some aB"
      "0 < aS" "0 < aB"
    using assms(1) by (elim wf_stateE)
  obtain rS rB where r: "remained_spec st = (rS, rB)" by (cases "remained_spec st")
  have rB: "rB = rS * of_int aB / of_int aS"
    using remained_ratio [OF assms(1)] a r by (simp add: field_simps)
  define q where "q = (of_int aS :: rat) / of_int aB"
  define m where "m = min rS bal"
  define b where "b = m * of_int aB / of_int aS"
  have q: "rat_SetFrac (Some aS) (Some aB) = Inr q" "rat_Inv q = Inr (of_int aB / of_int aS)"
    using a by (simp_all add: q_def)
  have step1: "(if bal < rS then rbind (rat_Inv q) (\<lambda>i. Inr (bal, bal * i)) else Inr (rS, rB)) = Inr (m, b)"
    by (simp add: q m_def b_def rB min_def)
  have step2: "(if ord_BuyNoMoreThanAmountB (st_RawOrder st) then Inr (b * q, b)
      else rbind (rat_Inv q) (\<lambda>i. Inr (m, m * i))) = Inr (m, b)"
    unfolding q using a by (simp add: b_def q_def)
  have "availS = m" "availB = b" unfolding availB_def availS_def using r a by (simp_all add: m_def b_def)
  then show ?thesis
    unfolding ConvertOrderStateToFilledOrder_def Let_def RemainedAmount_wf [OF assms(1)] r a q(1)
    by (simp add: step1 step2 max_def)
qed

subsection \<open>Properties of orders\<close>

text \<open>Claim C3: an order signed with a private key is attributed to that key's address: recovering the
  signer of the order just signed returns the address of the key, and leaves the order as it is.\<close>

theorem order_signer_recovered:
  fixes c :: "'pub EthPrivateKeyCrypto"
  assumes "ecdsa_spec ec_sign ec_recover ec_base" "wf_key ec_base c"
    and "Order_GenerateAndSetSignature K (Some (PrivateKey_ops K ec_sign ec_recover pub_addr c)) o' a = (o'', Inr ())"
  shows "Order_SignerAddress K (Some (PrivateKey_ops K ec_sign ec_recover pub_addr c)) o''
      = (o'', rbind (PrivateKey_Address pub_addr c) (\<lambda>b. Inr (BytesToAddress b)))"
  using assms(1,2) refl assms(3) by (rule sign_recover)

definition demo_ops :: crypto_ops where
  "demo_ops = PrivateKey_ops (\<lambda>_. replicate 32 1) (\<lambda>_ _. Inr (replicate 65 0)) (\<lambda>_ _. Inr ()) (\<lambda>_. replicate 20 9) demo_key"

definition demo_order :: "int \<Rightarrow> unit Order" where
  "demo_order amt = zero_Order\<lparr>ord_AmountS := Some amt, ord_AmountB := Some 20, ord_ValidSince := Some 5,
     ord_ValidUntil := Some 9, ord_LrcFee := Some 1\<rparr>"

definition demo_signed :: "unit Order" where
  "demo_signed = fst (Order_GenerateAndSetSignature (\<lambda>_. replicate 32 1) (Some demo_ops) (demo_order 10) zero_address)"

lemma demo_ecdsa: "ecdsa_spec (\<lambda>_ _. Inr (replicate 65 0)) (\<lambda>_ _. Inr ()) (\<lambda>_. Some ())"
  by (auto simp: ecdsa_spec_def)

lemma demo_signed_eq:
  "Order_GenerateAndSetSignature (\<lambda>_. replicate 32 1) (Some demo_ops) (demo_order 10) zero_address = (demo_signed, Inr ())"
proof -
  have "snd (Order_GenerateAndSetSignature (\<lambda>_. replicate 32 1) (Some demo_ops) (demo_order 10) zero_address) = Inr ()"
    by code_simp
  then show ?thesis by (simp add: demo_signed_def prod_eq_iff)
qed

theorem order_signer_recovered_witness:
  "Order_SignerAddress (\<lambda>_. replicate 32 1) (Some demo_ops) demo_signed = (demo_signed, Inr (replicate 20 9))"
  using order_signer_recovered [OF demo_ecdsa demo_key_wf demo_signed_eq [unfolded demo_ops_def]]
  by (simp add: demo_ops_def PrivateKey_Address_def demo_key_def BytesToAddress_def)

text \<open>The signature values of an order that was signed here are never accepted as valid.\<close>

theorem signed_order_never_validates:
  fixes c :: "'pub EthPrivateKeyCrypto"
  assumes "ecdsa_spec ec_sign ec_recover ec_base" "wf_key ec_base c"
    and "Order_GenerateAndSetSignature K (Some (PrivateKey_ops K ec_sign ec_recover pub_addr c)) o' a = (o'', Inr ())"
  shows "Order_ValidateSignatureValues (Some (PrivateKey_ops K ec_sign ec_recover pub_addr c)) o'' = Inr False"
  using sign_recover(2) [OF assms(1,2) refl assms(3)]
  by (auto simp: Order_ValidateSignatureValues_def crypto_ValidateSignatureValues_def PrivateKey_ops_def
      EthCrypto_ValidateSignatureValues_def ethCrypto_ValidateSignatureValues_def)

text \<open>The fields of an order that its hash is over.\<close>

definition hashed_fields :: "'pub Order \<Rightarrow> address list \<times> int option list \<times> bool \<times> byte" where
  "hashed_fields o' = ([ord_DelegateAddress o', ord_Owner o', ord_TokenS o', ord_TokenB o', ord_WalletAddress o', ord_AuthAddr o'],
     [ord_AmountS o', ord_AmountB o', ord_ValidSince o', ord_ValidUntil o', ord_LrcFee o'],
     ord_BuyNoMoreThanAmountB o', ord_MarginSplitPercentage o')"

lemma Order_GenerateHash_cong:
  "hashed_fields a = hashed_fields b \<Longrightarrow> Order_GenerateHash K a = Order_GenerateHash K b"
  by (simp add: hashed_fields_def Order_GenerateHash_def Order_hash_message_def)

definition wf_hashed :: "'pub Order \<Rightarrow> bool" where
  "wf_hashed o' \<longleftrightarrow> (\<forall>a \<in> set (fst (hashed_fields o')). length a = 20)
     \<and> (\<forall>x \<in> set (fst (snd (hashed_fields o'))). \<exists>n. x = Some n \<and> 0 \<le> n \<and> n < 2 ^ 256)"

lemma word256_inj:
  "0 \<le> x \<Longrightarrow> 0 \<le> y \<Longrightarrow> LeftPadBytes (big_Bytes x) 32 = LeftPadBytes (big_Bytes y) 32 \<Longrightarrow> x = y"
  by (metis be_val_LeftPad big_SetBytes_Bytes big_SetBytes_def)

lemma words256_inj:
  "map (\<lambda>x. LeftPadBytes (big_Bytes (the x)) 32) xs = map (\<lambda>x. LeftPadBytes (big_Bytes (the x)) 32) ys \<Longrightarrow>
   \<forall>x \<in> set xs. \<exists>n. x = Some n \<and> 0 \<le> n \<and> n < 2 ^ 256 \<Longrightarrow>
   \<forall>x \<in> set ys. \<exists>n. x = Some n \<and> 0 \<le> n \<and> n < 2 ^ 256 \<Longrightarrow> xs = ys"
proof (induction xs arbitrary: ys)
  case (Cons x xs)
  then show ?case by (cases ys) (auto dest: word256_inj)
qed simp

lemma Order_hash_message_wf:
  assumes "wf_hashed o'"
  shows "Order_hash_message o' = Inr (fst (hashed_fields o')
     @ map (\<lambda>x. LeftPadBytes (big_Bytes (the x)) 32) (fst (snd (hashed_fields o')))
     @ [[if ord_BuyNoMoreThanAmountB o' then 1 else 0], [ord_MarginSplitPercentage o']])"
  using assms by (auto simp: wf_hashed_def hashed_fields_def Order_hash_message_def hash_word_def)

text \<open>Claim C22: the message an order's hash is taken of spells its trading fields without ambiguity: two
  orders with 20-byte addresses and 256-bit amounts have the same message only if they agree on
  every one of these fields.\<close>

theorem order_message_unambiguous:
  assumes "wf_hashed o1" "wf_hashed o2" "Order_hash_message o1 = Inr m1" "Order_hash_message o2 = Inr m2"
  shows "concat m1 = concat m2 \<longleftrightarrow> hashed_fields o1 = hashed_fields o2"
proof
  assume eq: "concat m1 = concat m2"
  note m = Order_hash_message_wf [OF assms(1), unfolded assms(3)] Order_hash_message_wf [OF assms(2), unfolded assms(4)]
  have l: "map length m1 = map length m2"
    using m assms(1,2)
    by (auto simp: wf_hashed_def hashed_fields_def length_LeftPad_big simp del: length_LeftPadBytes)
  then have "length m1 = length m2" by (rule map_eq_imp_length_eq)
  moreover from this have "\<forall>(x, y) \<in> set (zip m1 m2). length x = length y"
    using l by (auto simp: set_zip list_eq_iff_nth_eq)
  ultimately have "m1 = m2" using eq by (intro concat_injective)
  moreover have "length (fst (hashed_fields o1)) = length (fst (hashed_fields o2))"
    "length (fst (snd (hashed_fields o1))) = length (fst (snd (hashed_fields o2)))"
    by (simp_all add: hashed_fields_def)
  ultimately have "fst (hashed_fields o1) = fst (hashed_fields o2)"
    and w: "map (\<lambda>x. LeftPadBytes (big_Bytes (the x)) 32) (fst (snd (hashed_fields o1)))
      = map (\<lambda>x. LeftPadBytes (big_Bytes (the x)) 32) (fst (snd (hashed_fields o2)))"
    and f: "[if ord_BuyNoMoreThanAmountB o1 then 1 else 0 :: byte] = [if ord_BuyNoMoreThanAmountB o2 then 1 else 0]"
       "ord_MarginSplitPercentage o1 = ord_MarginSplitPercentage o2"
    using m by simp_all
  moreover have "fst (snd (hashed_fields o1)) = fst (snd (hashed_fields o2))"
    using w by (rule words256_inj) (use assms(1,2) in \<open>auto simp: wf_hashed_def\<close>)
  moreover have "ord_BuyNoMoreThanAmountB o1 = ord_BuyNoMoreThanAmountB o2" using f(1) by (auto split: if_splits)
  ultimately show "hashed_fields o1 = hashed_fields o2"
    using f(2) by (simp only: prod_eq_iff) (simp add: hashed_fields_def)
next
  assume "hashed_fields o1 = hashed_fields o2"
  then have "m1 = m2"
    using assms(3,4) Order_hash_message_wf [OF assms(1)] Order_hash_message_wf [OF assms(2)]
    by (simp add: hashed_fields_def)
  then show "concat m1 = concat m2" by simp
qed

theorem order_message_unambiguous_witness:
  "concat (projr (Order_hash_message (demo_order 10))) \<noteq> concat (projr (Order_hash_message (demo_order 11)))"
proof -
  have w: "wf_hashed (demo_order 10)" "wf_hashed (demo_order 11)"
    by (auto simp: wf_hashed_def hashed_fields_def demo_order_def zero_Order_def zero_address_def)
  have "hashed_fields (demo_order 10) \<noteq> hashed_fields (demo_order 11)"
    by (simp add: hashed_fields_def demo_order_def)
  moreover obtain m1 m2 where m: "Order_hash_message (demo_order 10) = Inr m1" "Order_hash_message (demo_order 11) = Inr m2"
    using Order_hash_message_wf [OF w(1)] Order_hash_message_wf [OF w(2)] by blast
  ultimately show ?thesis using order_message_unambiguous [OF w m] m by simp
qed

text \<open>Claim C23: of an order with all its amounts present, what remains, what was dealt and split and
  what was cancelled add up to the order's amount on the side its limit is on, and both the
  remaining and the used amounts keep the order's price.\<close>

theorem order_amounts_conserved:
  assumes "wf_state st"
  shows "\<exists>rS rB dS dB. RemainedAmount st = Inr (rS, rB) \<and> DealtAndSplitAmount st = Inr (dS, dB)
    \<and> (if ord_BuyNoMoreThanAmountB (st_RawOrder st)
       then rB + dB + of_int (the (st_CancelledAmountB st)) = of_int (amountB st)
       else rS + dS + of_int (the (st_CancelledAmountS st)) = of_int (amountS st))
    \<and> rS * of_int (amountB st) = rB * of_int (amountS st)
    \<and> dS * of_int (amountB st) = dB * of_int (amountS st)"
proof -
  have r: "RemainedAmount st = Inr (fst (remained_spec st), snd (remained_spec st))"
    using RemainedAmount_wf [OF assms] by simp
  have "\<exists>dS dB. DealtAndSplitAmount st = Inr (dS, dB)
    \<and> (if ord_BuyNoMoreThanAmountB (st_RawOrder st)
       then snd (remained_spec st) + dB + of_int (the (st_CancelledAmountB st)) = of_int (amountB st)
       else fst (remained_spec st) + dS + of_int (the (st_CancelledAmountS st)) = of_int (amountS st))
    \<and> dS * of_int (amountB st) = dB * of_int (amountS st)"
    using assms
    by (elim wf_stateE)
      (cases "ord_BuyNoMoreThanAmountB (st_RawOrder st)";
        simp add: DealtAndSplitAmount_def remained_spec_def used_amount_def Let_def)
  then show ?thesis using r remained_ratio [OF assms] by blast
qed

definition demo_state :: "unit OrderState" where
  "demo_state = \<lparr>st_RawOrder = demo_order 10, st_UpdatedBlock = None, st_DealtAmountS = Some 3, st_DealtAmountB = Some 6,
     st_SplitAmountS = Some 1, st_SplitAmountB = Some 2, st_CancelledAmountS = Some 2, st_CancelledAmountB = Some 4,
     st_Status = 1, st_BroadcastTime = 0\<rparr>"

lemma demo_state_wf: "wf_state demo_state"
  by (simp add: wf_state_def demo_state_def demo_order_def)

theorem order_amounts_conserved_witness:
  "\<exists>rS rB dS dB. RemainedAmount demo_state = Inr (rS, rB) \<and> DealtAndSplitAmount demo_state = Inr (dS, dB)
    \<and> rS + dS + 2 = 10 \<and> rS * 20 = rB * 10 \<and> dS * 20 = dB * 10"
  using order_amounts_conserved [OF demo_state_wf] by (simp add: demo_state_def demo_order_def zero_Order_def)

text \<open>Claim C24: converting an order state to a filled order offers exactly the smaller of what remains
  of the order and what its owner's balance covers, at the order's own price.\<close>

theorem filled_order_available:
  fixes bal :: rat
  assumes "wf_state st" "ConvertOrderStateToFilledOrder st lrcBal bal lrcAddr = Inr fo" "RemainedAmount st = Inr (rS, rB)"
  shows "\<exists>aS aB. fo_AvailableAmountS fo = Some aS \<and> fo_AvailableAmountB fo = Some aB
    \<and> aS = min rS bal \<and> aS * of_int (amountB st) = aB * of_int (amountS st)"
proof -
  obtain s b where p: "ord_AmountS (st_RawOrder st) = Some s" "ord_AmountB (st_RawOrder st) = Some b" "0 < s" "0 < b"
    using assms(1) by (elim wf_stateE)
  have "rS = fst (remained_spec st)" using assms(3) RemainedAmount_wf [OF assms(1)] by simp
  then show ?thesis
    using assms(2) p unfolding ConvertOrderStateToFilledOrder_wf [OF assms(1)] by auto
qed

definition demo_filled :: "unit FilledOrder" where
  "demo_filled = projr (ConvertOrderStateToFilledOrder demo_state 0 3 zero_address)"

theorem filled_order_available_witness:
  "\<exists>aS aB. fo_AvailableAmountS demo_filled = Some aS \<and> fo_AvailableAmountB demo_filled = Some aB
    \<and> aS = min (fst (remained_spec demo_state)) 3
    \<and> aS * of_int (amountB demo_state) = aB * of_int (amountS demo_state)"
proof -
  have "ConvertOrderStateToFilledOrder demo_state 0 3 zero_address = Inr demo_filled"
    by (simp add: demo_filled_def ConvertOrderStateToFilledOrder_wf [OF demo_state_wf])
  moreover have "RemainedAmount demo_state = Inr (fst (remained_spec demo_state), snd (remained_spec demo_state))"
    using RemainedAmount_wf [OF demo_state_wf] by simp
  ultimately show ?thesis by (rule filled_order_available [OF demo_state_wf])
qed

text \<open>For an open order whose times fit 63 bits, \<open>IsExpired\<close> and \<open>IsEffective\<close> compare the
  clock with the two times as they stand, and no order is effective and expired at one moment.\<close>

theorem order_validity_window:
  assumes "st_Status st = 1 \<or> st_Status st = 2"
    "ord_ValidSince (st_RawOrder st) = Some f" "ord_ValidUntil (st_RawOrder st) = Some u"
    "0 \<le> f" "f < 2 ^ 63" "0 \<le> u" "u < 2 ^ 63"
  shows "IsExpired now st = Inr (u < now) \<and> IsEffective now now' st = Inr (f \<le> now \<and> now' < u)
    \<and> \<not> (IsExpired now' st = Inr True \<and> IsEffective now now' st = Inr True)"
proof -
  have "big_Int64 f = f" "big_Int64 u = u" using assms(4-7) by (simp_all add: big_Int64_id)
  then show ?thesis using assms(1-3) by (auto simp: IsExpired_def IsEffective_def)
qed

theorem order_validity_window_witness:
  "IsExpired 7 demo_state = Inr False \<and> IsEffective 7 7 demo_state = Inr True"
proof -
  have "st_Status demo_state = 1 \<or> st_Status demo_state = 2" "ord_ValidSince (st_RawOrder demo_state) = Some 5"
    "ord_ValidUntil (st_RawOrder demo_state) = Some 9"
    by (simp_all add: demo_state_def demo_order_def)
  from order_validity_window [OF this, of 7 7] show ?thesis by simp
qed

text \<open>An expiry time of \<open>2^63\<close> or more wraps to a negative number: the order counts as expired.\<close>

theorem far_expiry_counts_as_expired:
  "IsExpired 1500000000 (demo_state\<lparr>st_RawOrder := (demo_order 10)\<lparr>ord_ValidUntil := Some (2 ^ 63)\<rparr>\<rparr>) = Inr True"
  by (simp add: IsExpired_def demo_state_def big_Int64_def)

end
