(* ===== verification/Order_Rings.thy ===== *)
theory Order_Rings
  imports Orders
begin

unbundle bit_operations_syntax

section \<open>Rings (\<open>types/ring.go\<close>)\<close>

text \<open>
  A ring of filled orders: the bit set of fee selections the miner submits, the identifier and the
  hash of the ring, and the time from which all its orders are valid.
\<close>

record 'pub Ring =
  ring_Orders :: "'pub FilledOrder list"
  ring_V :: byte
  ring_R :: bytes32
  ring_S :: bytes32
  ring_Hash :: hash
  ring_ReducedRate :: "rat option"
  ring_LegalFee :: "rat option"
  ring_UniqueId :: hash
  ring_Received :: "rat option"
  ring_LegalCost :: "rat option"
  ring_Gas :: "int option"
  ring_GasPrice :: "int option"

abbreviation "fo_raw fo \<equiv> st_RawOrder (fo_OrderState fo)"

subsection \<open>Fee selections\<close>

text \<open>\<open>int64(1<<uint(idx))\<close> shifts a 64-bit one: past bit 62 the value is negative, past bit 63 zero.\<close>

definition shift1_int64 :: "nat \<Rightarrow> int" where
  "shift1_int64 idx = sint (push_bit idx 1 :: 64 word)"

fun FeeSelections_loop :: "nat \<Rightarrow> int \<Rightarrow> 'pub FilledOrder list \<Rightarrow> int" where
  "FeeSelections_loop idx feeSelections [] = feeSelections"
| "FeeSelections_loop idx feeSelections (filledOrder # os) =
     FeeSelections_loop (Suc idx)
       (if fo_FeeSelection filledOrder > 0 then feeSelections OR shift1_int64 idx else feeSelections) os"

definition FeeSelections :: "'pub Ring \<Rightarrow> int" where
  "FeeSelections ring = FeeSelections_loop 0 0 (ring_Orders ring)"

lemma shift1_int64_small: "idx < 63 \<Longrightarrow> shift1_int64 idx = 2 ^ idx"
proof -
  assume i: "idx < 63"
  have "push_bit idx (1 :: 64 word) = word_of_int (2 ^ idx)"
    by (simp add: push_bit_eq_mult)
  moreover have "(2 :: int) ^ idx < 2 ^ 63" using i by (intro power_strict_increasing) simp_all
  moreover have "- (2 ^ 63) \<le> (2 :: int) ^ idx" by (rule order_trans [of _ 0]) simp_all
  ultimately show ?thesis
    using big_Int64_id [of "2 ^ idx"] unfolding shift1_int64_def big_Int64_def by metis
qed

lemma bit_FeeSelections_loop:
  assumes "idx + length os \<le> 63"
  shows "bit (FeeSelections_loop idx acc os) n \<longleftrightarrow>
    bit acc n \<or> (idx \<le> n \<and> n < idx + length os \<and> fo_FeeSelection (os ! (n - idx)) > 0)"
  using assms
proof (induction os arbitrary: idx acc)
  case Nil
  then show ?case by auto
next
  case (Cons x os)
  have s: "shift1_int64 idx = 2 ^ idx" using Cons.prems by (intro shift1_int64_small) simp
  have r: "bit (FeeSelections_loop idx acc (x # os)) n \<longleftrightarrow> bit acc n
      \<or> (n = idx \<and> fo_FeeSelection x > 0)
      \<or> (Suc idx \<le> n \<and> n < Suc idx + length os \<and> fo_FeeSelection (os ! (n - Suc idx)) > 0)"
    using Cons.prems by (auto simp: Cons.IH s bit_or_iff bit_exp_iff)
  consider "n < idx" | "n = idx" | m where "n = Suc idx + m"
    by (metis less_iff_Suc_add add_Suc linorder_less_linear)
  then show ?case unfolding r by cases simp_all
qed

subsection \<open>The identifier of a ring\<close>

fun xor_loop :: "bytes \<Rightarrow> bytes list \<Rightarrow> bytes res" where
  "xor_loop acc [] = Inr acc"
| "xor_loop acc (h # hs) = rbind (Xor acc h) (\<lambda>acc. xor_loop acc hs)"

definition GenerateUniqueId :: "'pub Ring \<Rightarrow> 'pub Ring \<times> hash res" where
  "GenerateUniqueId ring =
     (if IsZeroHash (ring_UniqueId ring) then
        (case map (\<lambda>o'. ord_Hash (fo_raw o')) (ring_Orders ring) of
           [] \<Rightarrow> (ring, Inl (Panic IndexOutOfRange))
         | h # hs \<Rightarrow>
             (case xor_loop h hs of
                Inl e \<Rightarrow> (ring, Inl e)
              | Inr orderHashBytes \<Rightarrow>
                  (ring\<lparr>ring_UniqueId := BytesToHash orderHashBytes\<rparr>, Inr (BytesToHash orderHashBytes))))
      else (ring, Inr (ring_UniqueId ring)))"

definition Ring_GenerateHash :: "keccak \<Rightarrow> 'pub Ring \<Rightarrow> address \<Rightarrow> 'pub Ring \<times> hash res" where
  "Ring_GenerateHash K ring feeReceipt =
     (let (ring', uid) = GenerateUniqueId ring
      in (ring', rbind uid (\<lambda>uid. Inr (BytesToHash (GenerateHash K
            [uid, feeReceipt, LeftPadBytes (big_Bytes (FeeSelections ring')) 2])))))"

lemma xor_bytes_left_comm: "length x = length y \<Longrightarrow> xor_bytes x (xor_bytes y a) = xor_bytes y (xor_bytes x a)"
  by (auto simp: xor_bytes_def intro!: nth_equalityI simp: xor.left_commute)

lemma xor_loop_fold:
  "length acc = n \<Longrightarrow> \<forall>h \<in> set hs. length h = n \<Longrightarrow> xor_loop acc hs = Inr (fold xor_bytes hs acc)"
proof (induction hs arbitrary: acc)
  case (Cons h hs)
  then show ?case using xor_bytes_comm [of acc h] by (simp add: Xor_same_length)
qed simp

lemma fold_xor_zero:
  assumes "length h = n" "\<forall>h \<in> set hs. length h = n"
  shows "fold xor_bytes hs h = fold xor_bytes (h # hs) (replicate n 0)"
  using assms xor_bytes_zero [of h] by simp

lemma length_fold_xor:
  "length acc = n \<Longrightarrow> \<forall>h \<in> set hs. length h = n \<Longrightarrow> length (fold xor_bytes hs acc) = n"
  by (induction hs arbitrary: acc) auto

text \<open>The identifier is the xor of all hashes: one value per multiset of orders.\<close>

lemma GenerateUniqueId_eq:
  assumes "IsZeroHash (ring_UniqueId ring)" "ring_Orders ring \<noteq> []"
    and "\<forall>fo \<in> set (ring_Orders ring). length (ord_Hash (fo_raw fo)) = 32"
  shows "snd (GenerateUniqueId ring)
    = Inr (fold xor_bytes (map (\<lambda>fo. ord_Hash (fo_raw fo)) (ring_Orders ring)) (replicate 32 0))"
proof -
  obtain fo fos where f: "ring_Orders ring = fo # fos" using assms(2) by (cases "ring_Orders ring") auto
  let ?h = "ord_Hash (fo_raw fo)" and ?hs = "map (\<lambda>fo. ord_Hash (fo_raw fo)) fos"
  have l: "length ?h = 32" "\<forall>h \<in> set ?hs. length h = 32" using assms(3) f by auto
  have "xor_loop ?h ?hs = Inr (fold xor_bytes ?hs ?h)" using l by (rule xor_loop_fold)
  moreover have "BytesToHash (fold xor_bytes ?hs ?h) = fold xor_bytes ?hs ?h"
    using length_fold_xor [OF l] by (simp add: BytesToHash_def)
  ultimately show ?thesis
    using assms(1) f fold_xor_zero [OF l] by (simp add: GenerateUniqueId_def)
qed

lemma fold_xor_mset:
  assumes "mset hs = mset hs'" "\<forall>h \<in> set hs. length h = n"
  shows "fold xor_bytes hs = fold xor_bytes hs'"
  using assms by (intro fold_multiset_equiv) (auto simp: fun_eq_iff xor_bytes_left_comm)

subsection \<open>Valid-since time\<close>

fun ValidSince_loop :: "int \<Rightarrow> 'pub FilledOrder list \<Rightarrow> int res" where
  "ValidSince_loop latestValidSince [] = Inr latestValidSince"
| "ValidSince_loop latestValidSince (o' # os) =
     rbind (deref (ord_ValidSince (fo_raw o'))) (\<lambda>v.
       let thisTime = big_Int64 v
       in ValidSince_loop (if latestValidSince \<le> thisTime then thisTime else latestValidSince) os)"

definition ValidSinceTime :: "'pub Ring option \<Rightarrow> int res" where
  "ValidSinceTime ring = (case ring of
       None \<Rightarrow> Inr 0
     | Some ring \<Rightarrow> if 0 < length (ring_Orders ring) then ValidSince_loop 0 (ring_Orders ring) else Inr 0)"

lemma ValidSince_loop_Max:
  "\<forall>fo \<in> set os. ord_ValidSince (fo_raw fo) \<noteq> None \<Longrightarrow>
   ValidSince_loop t os = Inr (Max (insert t ((\<lambda>fo. big_Int64 (the (ord_ValidSince (fo_raw fo)))) ` set os)))"
proof (induction os arbitrary: t)
  case (Cons x os)
  let ?f = "\<lambda>fo. big_Int64 (the (ord_ValidSince (fo_raw fo)))"
  obtain v where v: "ord_ValidSince (fo_raw x) = Some v" using Cons.prems by auto
  have "(if t \<le> ?f x then ?f x else t) = max t (?f x)" by (simp add: max_def)
  then have "ValidSince_loop t (x # os) = Inr (Max (insert (max t (?f x)) (?f ` set os)))"
    using Cons v by (simp add: Let_def)
  moreover have "Max (insert (max t (?f x)) (?f ` set os)) = Max (insert t (?f ` set (x # os)))"
    by (cases "set os = {}") (simp_all add: max.assoc)
  ultimately show ?case by simp
qed simp

subsection \<open>Properties of rings\<close>

text \<open>For a ring of at most 63 orders, bit \<open>n\<close> of the fee selections is set exactly when the
  \<open>n\<close>-th order selects the margin split.\<close>

theorem FeeSelections_bits:
  assumes "length (ring_Orders ring) \<le> 63"
  shows "bit (FeeSelections ring) n \<longleftrightarrow>
    n < length (ring_Orders ring) \<and> fo_FeeSelection (ring_Orders ring ! n) > 0"
  using bit_FeeSelections_loop [of 0 "ring_Orders ring" 0 n] assms by (simp add: FeeSelections_def)

definition demo_ring :: "byte list \<Rightarrow> bytes list \<Rightarrow> unit Ring" where
  "demo_ring sels hs = \<lparr>ring_Orders = map2 (\<lambda>sel h. (zero_FilledOrder (demo_state\<lparr>st_RawOrder := (demo_order 10)\<lparr>ord_Hash := h\<rparr>\<rparr>))
       \<lparr>fo_FeeSelection := sel\<rparr>) sels hs,
     ring_V = 0, ring_R = [], ring_S = [], ring_Hash = zero_hash, ring_ReducedRate = None, ring_LegalFee = None,
     ring_UniqueId = zero_hash, ring_Received = None, ring_LegalCost = None, ring_Gas = None, ring_GasPrice = None\<rparr>"

theorem FeeSelections_bits_witness:
  "bit (FeeSelections (demo_ring [0, 1] [zero_hash, zero_hash])) 1"
  using FeeSelections_bits [of "demo_ring [0, 1] [zero_hash, zero_hash]" 1] by (simp add: demo_ring_def)

text \<open>The identifier of a ring does not depend on where the ring starts or in which order its
  orders are listed: two rings of the same orders have the same identifier.\<close>

theorem ring_id_permutation:
  assumes "IsZeroHash (ring_UniqueId r1)" "IsZeroHash (ring_UniqueId r2)" "ring_Orders r1 \<noteq> []"
    "mset (ring_Orders r1) = mset (ring_Orders r2)"
    "\<forall>fo \<in> set (ring_Orders r1). length (ord_Hash (fo_raw fo)) = 32"
  shows "snd (GenerateUniqueId r1) = snd (GenerateUniqueId r2) \<and> (\<exists>h. snd (GenerateUniqueId r1) = Inr h)"
proof -
  let ?hs = "\<lambda>r. map (\<lambda>fo. ord_Hash (fo_raw fo)) (ring_Orders r)"
  have "ring_Orders r2 \<noteq> []" "set (ring_Orders r2) = set (ring_Orders r1)"
    using assms(3,4) by (auto dest: mset_eq_setD)
  moreover have "fold xor_bytes (?hs r1) = fold xor_bytes (?hs r2)"
    using assms(4,5) by (intro fold_xor_mset [where n = 32]) (auto simp: mset_map)
  ultimately show ?thesis
    using GenerateUniqueId_eq [of r1] GenerateUniqueId_eq [of r2] assms by simp
qed

theorem ring_id_permutation_witness:
  "snd (GenerateUniqueId (demo_ring [0, 0] [replicate 32 1, replicate 32 2])) = snd (GenerateUniqueId (demo_ring [0, 0] [replicate 32 2, replicate 32 1]))"
  by (rule ring_id_permutation [THEN conjunct1])
    (auto simp: demo_ring_def zero_hash_def IsZeroHash_iff zero_FilledOrder_def)

text \<open>A ring is valid from the latest of the times its orders are valid from.\<close>

theorem ring_valid_since_latest:
  assumes "ring_Orders ring \<noteq> []" "\<forall>fo \<in> set (ring_Orders ring). ord_ValidSince (fo_raw fo) \<noteq> None"
    "\<forall>fo \<in> set (ring_Orders ring). 0 \<le> big_Int64 (the (ord_ValidSince (fo_raw fo)))"
  shows "ValidSinceTime (Some ring)
    = Inr (Max ((\<lambda>fo. big_Int64 (the (ord_ValidSince (fo_raw fo)))) ` set (ring_Orders ring)))"
proof -
  let ?A = "(\<lambda>fo. big_Int64 (the (ord_ValidSince (fo_raw fo)))) ` set (ring_Orders ring)"
  have "Max (insert 0 ?A) = max 0 (Max ?A)" using assms(1) by simp
  moreover have "0 \<le> Max ?A" using assms(1,3) by (cases "ring_Orders ring") (auto simp: Max_ge_iff)
  ultimately show ?thesis using ValidSince_loop_Max [OF assms(2), of 0] assms(1) by (simp add: ValidSinceTime_def)
qed

theorem ring_valid_since_latest_witness:
  "ValidSinceTime (Some (demo_ring [0] [zero_hash])) = Inr 5"
  using ring_valid_since_latest [of "demo_ring [0] [zero_hash]"]
  by (simp add: demo_ring_def demo_order_def demo_state_def zero_FilledOrder_def big_Int64_def)

end
