(* ===== verification/Contract_Conv.thy ===== *)
theory Contract_Conv
  imports Order_Rings
begin

unbundle bit_operations_syntax

section \<open>Contract events and methods (\<open>eth/contract\<close>, \<open>types/event.go\<close>)\<close>

text \<open>
  The converters from what the contract's ABI yields to the relay's own events and orders, the
  arguments built for \<open>submitRing\<close>, and the reading of those arguments back into orders.
\<close>

subsection \<open>Words of the contract\<close>

definition safeHash :: "bytes32 \<Rightarrow> hash" where
  "safeHash bs = bs"

definition safeBig :: "bytes32 \<Rightarrow> int" where
  "safeBig bs = (let num = big_SetBytes bs
     in if bs ! 0 > 128 then NOT (maxUint256 XOR num) else num)"

definition safeAddress :: "bytes32 \<Rightarrow> address" where
  "safeAddress bs = BytesToAddress bs"

lemma max_xor:
  assumes "0 \<le> x" "x < 2 ^ 256"
  shows "maxUint256 XOR x = maxUint256 - x"
proof -
  have x: "take_bit 256 x = x" using assms by (simp add: take_bit_eq_mod)
  then have sub: "bit x n \<Longrightarrow> n < 256" for n by (metis bit_take_bit_iff)
  have "maxUint256 XOR x = take_bit 256 (NOT x)"
    unfolding maxUint256_eq mask_eq_exp_minus_1 [symmetric]
    by (rule bit_eqI) (auto simp: bit_xor_iff bit_mask_iff bit_take_bit_iff bit_not_iff dest: sub)
  also have "\<dots> = (- x - 1) mod 2 ^ 256" by (simp add: take_bit_eq_mod not_int_def)
  also have "\<dots> = (2 ^ 256 - 1 - x) mod 2 ^ 256"
    using mod_add_self1 [of "2 ^ 256 :: int" "- x - 1"] by (simp add: algebra_simps)
  also have "\<dots> = 2 ^ 256 - 1 - x" using assms by (intro mod_pos_pos_trivial) simp_all
  finally show ?thesis by (simp add: maxUint256_eq)
qed

lemma safeBig_eq:
  assumes "length bs = 32"
  shows "safeBig bs = (if bs ! 0 > 128 then int (be_val bs) - 2 ^ 256 else int (be_val bs))"
proof -
  have "be_val bs < 256 ^ 32" using be_val_less [of bs] unfolding assms .
  then have "int (be_val bs) < int (256 ^ 32)" by (simp only: of_nat_less_iff)
  then have "int (be_val bs) < 2 ^ 256" by simp
  then show ?thesis
    using max_xor [of "int (be_val bs)"]
    by (simp add: safeBig_def big_SetBytes_def not_int_def maxUint256_eq)
qed

subsection \<open>Event records (\<open>types/event.go\<close>)\<close>

record TxInfo =
  tx_Protocol :: address
  tx_DelegateAddress :: address
  tx_From :: address
  tx_To :: address
  tx_BlockHash :: hash
  tx_BlockNumber :: "int option"
  tx_BlockTime :: int
  tx_TxHash :: hash
  tx_TxIndex :: int
  tx_TxLogIndex :: int
  tx_Value :: "int option"
  tx_Status :: byte
  tx_GasLimit :: "int option"
  tx_GasUsed :: "int option"
  tx_GasPrice :: "int option"
  tx_Nonce :: "int option"
  tx_Identify :: string

definition zero_TxInfo :: TxInfo where
  "zero_TxInfo = \<lparr>tx_Protocol = zero_address, tx_DelegateAddress = zero_address, tx_From = zero_address,
     tx_To = zero_address, tx_BlockHash = zero_hash, tx_BlockNumber = None, tx_BlockTime = 0, tx_TxHash = zero_hash,
     tx_TxIndex = 0, tx_TxLogIndex = 0, tx_Value = None, tx_Status = 0, tx_GasLimit = None, tx_GasUsed = None,
     tx_GasPrice = None, tx_Nonce = None, tx_Identify = []\<rparr>"

record TokenRegisterEvent = TxInfo +
  tre_Token :: address
  tre_Symbol :: string

record AddressAuthorizedEvent = TxInfo +
  aae_Protocol :: address
  aae_Number :: int

record TransferEvent = TxInfo +
  te_Sender :: address
  te_Receiver :: address
  te_Amount :: "int option"

record ApprovalEvent = TxInfo +
  ae_Owner :: address
  ae_Spender :: address
  ae_Amount :: "int option"

record OrderFilledEvent = TxInfo +
  fe_Ringhash :: hash
  fe_PreOrderHash :: hash
  fe_OrderHash :: hash
  fe_NextOrderHash :: hash
  fe_Owner :: address
  fe_TokenS :: address
  fe_TokenB :: address
  fe_SellTo :: address
  fe_BuyFrom :: address
  fe_RingIndex :: "int option"
  fe_AmountS :: int
  fe_AmountB :: int
  fe_LrcReward :: int
  fe_LrcFee :: int
  fe_SplitS :: int
  fe_SplitB :: int
  fe_Market :: string
  fe_FillIndex :: int

record OrderCancelledEvent = TxInfo +
  oce_OrderHash :: hash
  oce_AmountCancelled :: "int option"

record CutoffEvent = TxInfo +
  ce_Owner :: address
  ce_Cutoff :: "int option"
  ce_OrderHashList :: "hash list"

record CutoffPairEvent = TxInfo +
  cpe_Owner :: address
  cpe_Token1 :: address
  cpe_Token2 :: address
  cpe_Cutoff :: "int option"
  cpe_OrderHashList :: "hash list"

record RingMinedEvent = TxInfo +
  rme_RingIndex :: "int option"
  rme_TotalLrcFee :: int
  rme_TradeAmount :: nat
  rme_Ringhash :: hash
  rme_Miner :: address
  rme_FeeRecipient :: address
  rme_Err :: string

record WethDepositEvent = TxInfo +
  wde_Dst :: address
  wde_Amount :: "int option"

record WethWithdrawalEvent = TxInfo +
  wwe_Src :: address
  wwe_Amount :: "int option"

record 'pub SubmitRingMethodEvent = TxInfo +
  sre_OrderList :: "'pub Order list"
  sre_FeeReceipt :: address
  sre_FeeSelection :: nat
  sre_Err :: string

subsection \<open>The mined ring (\<open>eth/contract/event.go\<close>)\<close>

record contract_RingMined =
  crm_RingIndex :: "int option"
  crm_RingHash :: hash
  crm_Miner :: address
  crm_FeeRecipient :: address
  crm_OrderInfoList :: "bytes32 list"

text \<open>
  One fill of the loop. The guard of the caller makes the list \<open>7 * idx\<close> long with \<open>idx \<ge> 2\<close>, so
  that each index below is in range.
\<close>

definition RingMined_fill :: "contract_RingMined \<Rightarrow> nat \<Rightarrow> nat \<Rightarrow> OrderFilledEvent" where
  "RingMined_fill e idx i =
     (let info = crm_OrderInfoList e; firstFill = 0; lastFill = idx - 1; start = i * 7;
          (preOrderHash, nextOrderHash, tokenB, amountB, sellTo, buyFrom) =
            (if i = firstFill then
               (safeHash (info ! (lastFill * 7)), safeHash (info ! ((i + 1) * 7)),
                safeAddress (info ! (lastFill * 7 + 2)), safeBig (info ! (lastFill * 7 + 3)),
                safeAddress (info ! ((i + 1) * 7 + 1)), safeAddress (info ! (lastFill * 7 + 1)))
             else if i = lastFill then
               (safeHash (info ! ((i - 1) * 7)), safeHash (info ! (firstFill * 7)),
                safeAddress (info ! (firstFill * 7 + 2)), safeBig (info ! (firstFill * 7 + 3)),
                safeAddress (info ! (firstFill * 7 + 1)), safeAddress (info ! ((i - 1) * 7 + 1)))
             else
               (safeHash (info ! ((i - 1) * 7)), safeHash (info ! ((i + 1) * 7)),
                safeAddress (info ! ((i - 1) * 7 + 2)), safeBig (info ! ((i - 1) * 7 + 3)),
                safeAddress (info ! ((i + 1) * 7 + 1)), safeAddress (info ! ((i - 1) * 7 + 1))));
          lrcFeeOrReward = safeBig (info ! (start + 5));
          split = safeBig (info ! (start + 6))
      in TxInfo.extend zero_TxInfo
         \<lparr>fe_Ringhash = crm_RingHash e,
          fe_PreOrderHash = preOrderHash,
          fe_OrderHash = safeHash (info ! start),
          fe_NextOrderHash = nextOrderHash,
          fe_Owner = safeAddress (info ! (start + 1)),
          fe_TokenS = safeAddress (info ! (start + 2)),
          fe_TokenB = tokenB,
          fe_SellTo = sellTo,
          fe_BuyFrom = buyFrom,
          fe_RingIndex = crm_RingIndex e,
          fe_AmountS = safeBig (info ! (start + 3)),
          fe_AmountB = amountB,
          fe_LrcReward = safeBig (info ! (start + 4)),
          fe_LrcFee = (if lrcFeeOrReward > 0 then lrcFeeOrReward else 0),
          fe_SplitS = (if split > 0 then split else 0),
          fe_SplitB = (if split > 0 then 0 else split * (- 1)),
          fe_Market = [],
          fe_FillIndex = int i\<rparr>)"

fun RingMined_loop :: "contract_RingMined \<Rightarrow> nat \<Rightarrow> nat list \<Rightarrow> int \<Rightarrow> OrderFilledEvent list \<Rightarrow> int \<times> OrderFilledEvent list" where
  "RingMined_loop e idx [] totalLrcFee list = (totalLrcFee, list)"
| "RingMined_loop e idx (i # is) totalLrcFee list =
     (let fill = RingMined_fill e idx i
      in RingMined_loop e idx is (totalLrcFee + fe_LrcFee fill) (list @ [fill]))"

definition RingMined_ConvertDown :: "contract_RingMined \<Rightarrow> (RingMinedEvent \<times> OrderFilledEvent list) res" where
  "RingMined_ConvertDown e =
     (let len = length (crm_OrderInfoList e); idx = len div 7
      in if len mod 7 \<noteq> 0 \<or> idx < 2
         then Inl (Err ''ringMined event unpack error:orderInfoList length invalid'')
         else (let (totalLrcFee, list) = RingMined_loop e idx [0 ..< idx] 0 []
               in Inr (TxInfo.extend zero_TxInfo
                    \<lparr>rme_RingIndex = crm_RingIndex e, rme_TotalLrcFee = totalLrcFee, rme_TradeAmount = idx,
                     rme_Ringhash = crm_RingHash e, rme_Miner = crm_Miner e,
                     rme_FeeRecipient = crm_FeeRecipient e, rme_Err = []\<rparr>, list)))"

subsection \<open>The other events\<close>

record contract_Transfer =
  ct_Sender :: address
  ct_Receiver :: address
  ct_Value :: "int option"

definition Transfer_ConvertDown :: "contract_Transfer \<Rightarrow> TransferEvent" where
  "Transfer_ConvertDown e = TxInfo.extend zero_TxInfo
     \<lparr>te_Sender = ct_Sender e, te_Receiver = ct_Receiver e, te_Amount = ct_Value e\<rparr>"

record contract_Approval =
  ca_Owner :: address
  ca_Spender :: address
  ca_Value :: "int option"

definition Approval_ConvertDown :: "contract_Approval \<Rightarrow> ApprovalEvent" where
  "Approval_ConvertDown e = TxInfo.extend zero_TxInfo
     \<lparr>ae_Owner = ca_Owner e, ae_Spender = ca_Spender e, ae_Amount = ca_Value e\<rparr>"

record contract_OrderCancelled =
  coc_OrderHash :: hash
  coc_AmountCancelled :: "int option"

definition OrderCancelled_ConvertDown :: "contract_OrderCancelled \<Rightarrow> OrderCancelledEvent" where
  "OrderCancelled_ConvertDown e = TxInfo.extend zero_TxInfo
     \<lparr>oce_OrderHash = coc_OrderHash e, oce_AmountCancelled = coc_AmountCancelled e\<rparr>"

record contract_Cutoff =
  cc_Owner :: address
  cc_Cutoff :: "int option"

definition Cutoff_ConvertDown :: "contract_Cutoff \<Rightarrow> CutoffEvent" where
  "Cutoff_ConvertDown e = TxInfo.extend zero_TxInfo
     \<lparr>ce_Owner = cc_Owner e, ce_Cutoff = cc_Cutoff e, ce_OrderHashList = []\<rparr>"

record contract_CutoffPair =
  ccp_Owner :: address
  ccp_Token1 :: address
  ccp_Token2 :: address
  ccp_Cutoff :: "int option"

definition CutoffPair_ConvertDown :: "contract_CutoffPair \<Rightarrow> CutoffPairEvent" where
  "CutoffPair_ConvertDown e = TxInfo.extend zero_TxInfo
     \<lparr>cpe_Owner = ccp_Owner e, cpe_Token1 = ccp_Token1 e, cpe_Token2 = ccp_Token2 e, cpe_Cutoff = ccp_Cutoff e,
      cpe_OrderHashList = []\<rparr>"

record contract_Token =
  ctk_Token :: address
  ctk_Symbol :: string

definition TokenRegistered_ConvertDown :: "contract_Token \<Rightarrow> TokenRegisterEvent" where
  "TokenRegistered_ConvertDown e = TxInfo.extend zero_TxInfo \<lparr>tre_Token = ctk_Token e, tre_Symbol = ctk_Symbol e\<rparr>"

definition TokenUnRegistered_ConvertDown :: "contract_Token \<Rightarrow> TokenRegisterEvent" where
  "TokenUnRegistered_ConvertDown e = TxInfo.extend zero_TxInfo \<lparr>tre_Token = ctk_Token e, tre_Symbol = ctk_Symbol e\<rparr>"

record contract_AddressAuth =
  caa_ContractAddress :: address
  caa_Number :: int

definition AddressAuthorized_ConvertDown :: "contract_AddressAuth \<Rightarrow> AddressAuthorizedEvent" where
  "AddressAuthorized_ConvertDown e = TxInfo.extend zero_TxInfo
     \<lparr>aae_Protocol = caa_ContractAddress e, aae_Number = caa_Number e\<rparr>"

definition AddressDeAuthorized_ConvertDown :: "contract_AddressAuth \<Rightarrow> AddressAuthorizedEvent" where
  "AddressDeAuthorized_ConvertDown e = TxInfo.extend zero_TxInfo
     \<lparr>aae_Protocol = caa_ContractAddress e, aae_Number = caa_Number e\<rparr>"

definition WethDeposit_ConvertDown :: "address \<Rightarrow> int option \<Rightarrow> WethDepositEvent" where
  "WethDeposit_ConvertDown DstAddress Value = TxInfo.extend zero_TxInfo \<lparr>wde_Dst = DstAddress, wde_Amount = Value\<rparr>"

definition WethWithdrawal_ConvertDown :: "address \<Rightarrow> int option \<Rightarrow> WethWithdrawalEvent" where
  "WethWithdrawal_ConvertDown SrcAddress Value = TxInfo.extend zero_TxInfo \<lparr>wwe_Src = SrcAddress, wwe_Amount = Value\<rparr>"

subsection \<open>Submitting a ring (\<open>eth/contract/method.go\<close>)\<close>

definition TxIsSubmitRing :: "string \<Rightarrow> bool" where
  "TxIsSubmitRing methodName \<longleftrightarrow> methodName = ''submitRing''"

text \<open>The fixed-size arrays of the arguments: four addresses, six numbers, one byte per order.\<close>

record SubmitRingMethodInputs =
  sr_AddressList :: "(address \<times> address \<times> address \<times> address) list"
  sr_UintArgsList :: "(int option \<times> int option \<times> int option \<times> int option \<times> int option \<times> int option) list"
  sr_Uint8ArgsList :: "byte list"
  sr_BuyNoMoreThanBList :: "bool list"
  sr_VList :: "byte list"
  sr_RList :: "bytes32 list"
  sr_SList :: "bytes32 list"
  sr_FeeRecipient :: address
  sr_FeeSelections :: nat
  sr_Protocol :: address
  sr_FeeReceipt :: address

definition emptySubmitRingInputs :: "address \<Rightarrow> SubmitRingMethodInputs" where
  "emptySubmitRingInputs feeReceipt = \<lparr>sr_AddressList = [], sr_UintArgsList = [], sr_Uint8ArgsList = [],
     sr_BuyNoMoreThanBList = [], sr_VList = [], sr_RList = [], sr_SList = [], sr_FeeRecipient = zero_address,
     sr_FeeSelections = 0, sr_Protocol = zero_address, sr_FeeReceipt = feeReceipt\<rparr>"

text \<open>\<open>FloatString(0)\<close> rounds to the nearest integer, halves away from zero; the text is read back.\<close>

definition rat_FloatString0 :: "rat \<Rightarrow> int" where
  "rat_FloatString0 x = (if 0 \<le> x then \<lfloor>x + 1 / 2\<rfloor> else - \<lfloor>- x + 1 / 2\<rfloor>)"

record auth_lists =
  au_V :: "byte list"
  au_R :: "bytes32 list"
  au_S :: "bytes32 list"

fun submitRing_loop ::
  "keccak \<Rightarrow> (bytes \<Rightarrow> bytes \<Rightarrow> bytes res) \<Rightarrow> ('pub \<Rightarrow> address) \<Rightarrow> hash \<Rightarrow> 'pub FilledOrder list
   \<Rightarrow> SubmitRingMethodInputs \<Rightarrow> auth_lists \<Rightarrow> (SubmitRingMethodInputs \<times> auth_lists) res" where
  "submitRing_loop K ec_sign pub_addr h [] inputs auth = Inr (inputs, auth)"
| "submitRing_loop K ec_sign pub_addr h (filledOrder # os) inputs auth =
     (let order = fo_raw filledOrder in
      rbind (deref (fo_RateAmountS filledOrder)) (\<lambda>rate.
      let rateAmountS = rat_FloatString0 rate;
          inputs = inputs\<lparr>
            sr_AddressList := sr_AddressList inputs @ [(ord_Owner order, ord_TokenS order, ord_WalletAddress order, ord_AuthAddr order)],
            sr_UintArgsList := sr_UintArgsList inputs @ [(ord_AmountS order, ord_AmountB order, ord_ValidSince order,
              ord_ValidUntil order, ord_LrcFee order, Some rateAmountS)],
            sr_Uint8ArgsList := sr_Uint8ArgsList inputs @ [ord_MarginSplitPercentage order],
            sr_BuyNoMoreThanBList := sr_BuyNoMoreThanBList inputs @ [ord_BuyNoMoreThanAmountB order],
            sr_VList := sr_VList inputs @ [ord_V order],
            sr_RList := sr_RList inputs @ [ord_R order],
            sr_SList := sr_SList inputs @ [ord_S order]\<rparr>
      in rbind (PrivateKey_Address pub_addr (ord_AuthPrivateKey order)) (\<lambda>addr.
         rbind (PrivateKey_Sign K ec_sign (ord_AuthPrivateKey order) h addr) (\<lambda>signBytes.
         rbind (SigToVRS signBytes) (\<lambda>(v, r, s).
           submitRing_loop K ec_sign pub_addr h os inputs
             \<lparr>au_V = au_V auth @ [v], au_R = au_R auth @ [BytesToBytes32 r], au_S = au_S auth @ [BytesToBytes32 s]\<rparr>)))))"

definition submitRing_inputs ::
  "keccak \<Rightarrow> (bytes \<Rightarrow> bytes \<Rightarrow> bytes res) \<Rightarrow> ('pub \<Rightarrow> address) \<Rightarrow> 'pub Ring \<Rightarrow> address
   \<Rightarrow> 'pub Ring \<times> SubmitRingMethodInputs res" where
  "submitRing_inputs K ec_sign pub_addr ring feeReceipt =
     (let (ring, hashed) =
        (if IsZeroHash (ring_Hash ring) then
           (case Ring_GenerateHash K ring feeReceipt of
              (ring, Inl e) \<Rightarrow> (ring, Inl e)
            | (ring, Inr h) \<Rightarrow> (ring\<lparr>ring_Hash := h\<rparr>, Inr ()))
         else (ring, Inr ()))
      in (ring, rbind hashed (\<lambda>_.
           rbind (submitRing_loop K ec_sign pub_addr (ring_Hash ring) (ring_Orders ring)
                    (emptySubmitRingInputs feeReceipt) \<lparr>au_V = [], au_R = [], au_S = []\<rparr>) (\<lambda>(inputs, auth).
           Inr (inputs\<lparr>sr_VList := sr_VList inputs @ au_V auth,
                       sr_RList := sr_RList inputs @ au_R auth,
                       sr_SList := sr_SList inputs @ au_S auth,
                       sr_FeeSelections := nat (big_Uint64 (FeeSelections ring)) mod 2 ^ 16\<rparr>)))))"

text \<open>Packing with the contract's ABI is the argument \<open>pack\<close>; it gets the nine arguments in order.\<close>

definition GenerateSubmitRingMethodInputsData ::
  "keccak \<Rightarrow> (bytes \<Rightarrow> bytes \<Rightarrow> bytes res) \<Rightarrow> ('pub \<Rightarrow> address) \<Rightarrow> (SubmitRingMethodInputs \<Rightarrow> bytes res)
   \<Rightarrow> 'pub Ring \<Rightarrow> address \<Rightarrow> 'pub Ring \<times> bytes res" where
  "GenerateSubmitRingMethodInputsData K ec_sign pub_addr pack ring feeReceipt =
     (let (ring, inputs) = submitRing_inputs K ec_sign pub_addr ring feeReceipt in (ring, rbind inputs pack))"

definition SubmitRing_order ::
  "keccak \<Rightarrow> SubmitRingMethodInputs \<Rightarrow> address \<Rightarrow> address \<Rightarrow> nat \<Rightarrow> 'pub Order res" where
  "SubmitRing_order K m protocol delegate i =
     (let len = length (sr_AddressList m);
          (owner, tokenS, wallet, auth) = sr_AddressList m ! i;
          tokenB = (if i = len - 1 then fst (snd (sr_AddressList m ! 0)) else fst (snd (sr_AddressList m ! (i + 1))));
          (amountS, amountB, validSince, validUntil, lrcFee, _) = sr_UintArgsList m ! i
      in rbind (nth_res (sr_BuyNoMoreThanBList m) i) (\<lambda>buyNoMoreThanB.
         let order = zero_Order\<lparr>
               ord_Protocol := protocol, ord_DelegateAddress := delegate,
               ord_Owner := owner, ord_TokenS := tokenS, ord_TokenB := tokenB,
               ord_WalletAddress := wallet, ord_AuthAddr := auth,
               ord_AmountS := amountS, ord_AmountB := amountB, ord_ValidSince := validSince,
               ord_ValidUntil := validUntil, ord_LrcFee := lrcFee,
               ord_MarginSplitPercentage := sr_Uint8ArgsList m ! i,
               ord_BuyNoMoreThanAmountB := buyNoMoreThanB,
               ord_V := sr_VList m ! i, ord_R := sr_RList m ! i, ord_S := sr_SList m ! i\<rparr>
         in rbind (Order_GenerateHash K order) (\<lambda>h. Inr (order\<lparr>ord_Hash := h\<rparr>))))"

definition SubmitRing_ConvertDown ::
  "keccak \<Rightarrow> SubmitRingMethodInputs \<Rightarrow> address \<Rightarrow> address \<Rightarrow> 'pub SubmitRingMethodEvent res" where
  "SubmitRing_ConvertDown K m protocol delegate =
     (let len = length (sr_AddressList m);
          vrsLength = 2 * len;
          orderLengthInvalid = len < 2;
          argLengthInvalid = len \<noteq> length (sr_UintArgsList m) \<or> len \<noteq> length (sr_Uint8ArgsList m);
          vrsLengthInvalid = vrsLength \<noteq> length (sr_VList m) \<or> vrsLength \<noteq> length (sr_RList m) \<or> vrsLength \<noteq> length (sr_SList m)
      in if orderLengthInvalid \<or> argLengthInvalid \<or> vrsLengthInvalid
         then Inl (Err ''submitRing method unpack error:orders length invalid'')
         else rbind (rmap (SubmitRing_order K m protocol delegate) [0 ..< len]) (\<lambda>list.
           Inr (TxInfo.extend zero_TxInfo \<lparr>sre_OrderList = list, sre_FeeReceipt = sr_FeeRecipient m,
                  sre_FeeSelection = sr_FeeSelections m, sre_Err = []\<rparr>)))"

record CancelOrderMethod =
  co_AddressList :: "address \<times> address \<times> address \<times> address \<times> address"
  co_OrderValues :: "int option \<times> int option \<times> int option \<times> int option \<times> int option \<times> int option"
  co_BuyNoMoreThanB :: bool
  co_MarginSplit :: byte
  co_V :: byte
  co_R :: bytes32
  co_S :: bytes32

definition CancelOrder_ConvertDown ::
  "keccak \<Rightarrow> CancelOrderMethod \<Rightarrow> address \<Rightarrow> address \<Rightarrow> ('pub Order \<times> int option) res" where
  "CancelOrder_ConvertDown K m protocol delegate =
     (let (owner, tokenS, tokenB, wallet, auth) = co_AddressList m;
          (amountS, amountB, validSince, validUntil, lrcFee, cancelAmount) = co_OrderValues m;
          order = zero_Order\<lparr>
            ord_Protocol := protocol, ord_DelegateAddress := delegate,
            ord_Owner := owner, ord_TokenS := tokenS, ord_TokenB := tokenB,
            ord_WalletAddress := wallet, ord_AuthAddr := auth,
            ord_AmountS := amountS, ord_AmountB := amountB, ord_ValidSince := validSince,
            ord_ValidUntil := validUntil, ord_LrcFee := lrcFee,
            ord_BuyNoMoreThanAmountB := co_BuyNoMoreThanB m, ord_MarginSplitPercentage := co_MarginSplit m,
            ord_V := co_V m, ord_S := co_S m, ord_R := co_R m\<rparr>
      in rbind (Order_GenerateHash K order) (\<lambda>h. Inr (order\<lparr>ord_Hash := h\<rparr>, cancelAmount)))"

definition CutoffMethod_ConvertDown :: "int option \<Rightarrow> address \<Rightarrow> CutoffEvent" where
  "CutoffMethod_ConvertDown Cutoff owner = TxInfo.extend zero_TxInfo
     \<lparr>ce_Owner = owner, ce_Cutoff = Cutoff, ce_OrderHashList = []\<rparr>"

definition CutoffPairMethod_ConvertDown :: "address \<Rightarrow> address \<Rightarrow> int option \<Rightarrow> address \<Rightarrow> CutoffPairEvent" where
  "CutoffPairMethod_ConvertDown Token1 Token2 Cutoff owner = TxInfo.extend zero_TxInfo
     \<lparr>cpe_Owner = owner, cpe_Token1 = Token1, cpe_Token2 = Token2, cpe_Cutoff = Cutoff, cpe_OrderHashList = []\<rparr>"

text \<open>The deposit method carries no amount: the event is the zero event.\<close>

definition WethDepositMethod_ConvertDown :: "int option \<Rightarrow> WethDepositEvent" where
  "WethDepositMethod_ConvertDown Value = TxInfo.extend zero_TxInfo \<lparr>wde_Dst = zero_address, wde_Amount = None\<rparr>"

definition WethWithdrawalMethod_ConvertDown :: "int option \<Rightarrow> address \<Rightarrow> WethWithdrawalEvent" where
  "WethWithdrawalMethod_ConvertDown Value src = TxInfo.extend zero_TxInfo \<lparr>wwe_Src = src, wwe_Amount = Value\<rparr>"

definition ApproveMethod_ConvertDown :: "address \<Rightarrow> int option \<Rightarrow> address \<Rightarrow> ApprovalEvent" where
  "ApproveMethod_ConvertDown Spender Value owner = TxInfo.extend zero_TxInfo
     \<lparr>ae_Owner = owner, ae_Spender = Spender, ae_Amount = Value\<rparr>"

definition TransferMethod_ConvertDown :: "address \<Rightarrow> int option \<Rightarrow> address \<Rightarrow> TransferEvent" where
  "TransferMethod_ConvertDown Receiver Value sender = TxInfo.extend zero_TxInfo
     \<lparr>te_Sender = sender, te_Receiver = Receiver, te_Amount = Value\<rparr>"

subsection \<open>Properties of the converters\<close>

text \<open>A 32-byte word of the contract is read as its two's complement value, except that the
  words whose first byte is exactly \<open>0x80\<close> are read as large positive numbers.\<close>

theorem safeBig_twos_complement:
  assumes "length bs = 32"
  shows "safeBig bs = (if bs ! 0 = 128 then int (be_val bs) else sint (word_of_nat (be_val bs) :: 256 word))"
proof -
  have lt: "be_val bs < 256 ^ 32" using be_val_less [of bs] unfolding assms .
  obtain b bs' where bs: "bs = b # bs'" "length bs' = 31" using assms by (cases bs) auto
  have v: "be_val bs = unat b * 256 ^ 31 + be_val bs'" "be_val bs' < 256 ^ 31"
    using be_val_Cons [of b bs'] be_val_less [of bs'] bs unfolding bs(2) by simp_all
  have s: "sint (word_of_nat (be_val bs) :: 256 word)
      = (if be_val bs < 2 ^ 255 then int (be_val bs) else int (be_val bs) - 2 ^ 256)"
  proof -
    have "sint (word_of_nat (be_val bs) :: 256 word) = signed_take_bit 255 (int (be_val bs))"
      by (simp add: signed_of_nat)
    also have "\<dots> = (if bit (int (be_val bs)) 255 then int (be_val bs) - 2 ^ 256 else int (be_val bs))"
    proof -
      have "take_bit 256 (int (be_val bs)) = int (be_val bs)"
        using lt by (simp add: take_bit_eq_mod)
      then show ?thesis
        by (simp add: signed_take_bit_eq_take_bit_minus)
    qed
    also have "bit (int (be_val bs)) 255 \<longleftrightarrow> \<not> be_val bs < 2 ^ 255"
    proof -
      have "be_val bs div 2 ^ 255 < 2" using lt by simp
      then have "odd (be_val bs div 2 ^ 255) \<longleftrightarrow> be_val bs div 2 ^ 255 \<noteq> 0" by (cases "be_val bs div 2 ^ 255") auto
      moreover have "bit (int (be_val bs)) 255 \<longleftrightarrow> odd (be_val bs div 2 ^ 255)"
        by (simp only: bit_of_nat_iff_bit) (simp only: bit_iff_odd)
      ultimately show ?thesis by (simp add: div_eq_0_iff)
    qed
    finally show ?thesis by auto
  qed
  consider "unat b < 128" | "unat b = 128" | "unat b > 128" by linarith
  then show ?thesis
  proof cases
    case 1
    then have "b < 128" "b \<noteq> 128" by (auto simp: word_less_nat_alt)
    moreover have "be_val bs < 2 ^ 255" using v 1 by simp
    ultimately show ?thesis using safeBig_eq [OF assms] bs s by auto
  next
    case 2
    then have "unat b = unat (128 :: byte)" by simp
    then have "b = 128" by (rule unsigned_word_eqI)
    then show ?thesis using safeBig_eq [OF assms] bs by simp
  next
    case 3
    then have "b > 128" "b \<noteq> 128" by (auto simp: word_less_nat_alt)
    moreover have "\<not> be_val bs < 2 ^ 255" using v 3 by simp
    ultimately show ?thesis using safeBig_eq [OF assms] bs s by auto
  qed
qed

theorem safeBig_twos_complement_witness:
  "safeBig (replicate 32 255) = sint (word_of_nat (be_val (replicate 32 255)) :: 256 word)"
  using safeBig_twos_complement [of "replicate 32 255"] by simp

lemma RingMined_loop_eq:
  "RingMined_loop e idx is t l =
     (t + sum_list (map (\<lambda>i. fe_LrcFee (RingMined_fill e idx i)) is), l @ map (RingMined_fill e idx) is)"
  by (induction "is" arbitrary: t l) (simp_all add: Let_def)

definition ring_pre :: "nat \<Rightarrow> nat \<Rightarrow> nat" where
  "ring_pre n i = (if i = 0 then n - 1 else i - 1)"

definition ring_next :: "nat \<Rightarrow> nat \<Rightarrow> nat" where
  "ring_next n i = (if i = n - 1 then 0 else i + 1)"

lemma RingMined_fill_links:
  assumes "2 \<le> n" "i < n"
  shows "fe_OrderHash (RingMined_fill e n i) = crm_OrderInfoList e ! (7 * i)
    \<and> fe_PreOrderHash (RingMined_fill e n i) = fe_OrderHash (RingMined_fill e n (ring_pre n i))
    \<and> fe_NextOrderHash (RingMined_fill e n i) = fe_OrderHash (RingMined_fill e n (ring_next n i))
    \<and> fe_SellTo (RingMined_fill e n i) = fe_Owner (RingMined_fill e n (ring_next n i))
    \<and> fe_BuyFrom (RingMined_fill e n i) = fe_Owner (RingMined_fill e n (ring_pre n i))"
  using assms by (auto simp: RingMined_fill_def ring_pre_def ring_next_def Let_def TxInfo.extend_def safeHash_def mult.commute)

lemma RingMined_fill_signs:
  "0 \<le> fe_LrcFee (RingMined_fill e n i) \<and> 0 \<le> fe_SplitS (RingMined_fill e n i) \<and> 0 \<le> fe_SplitB (RingMined_fill e n i)
   \<and> (fe_SplitS (RingMined_fill e n i) = 0 \<or> fe_SplitB (RingMined_fill e n i) = 0)"
  by (simp add: RingMined_fill_def Let_def TxInfo.extend_def split: prod.splits)

lemma RingMined_ConvertDown_eq:
  assumes "length (crm_OrderInfoList e) = 7 * n" "2 \<le> n" "RingMined_ConvertDown e = Inr (evt, fills)"
  shows "fills = map (RingMined_fill e n) [0 ..< n]
    \<and> rme_TotalLrcFee evt = sum_list (map fe_LrcFee fills) \<and> rme_TradeAmount evt = n"
proof -
  have "length (crm_OrderInfoList e) div 7 = n" "length (crm_OrderInfoList e) mod 7 = 0" using assms(1) by simp_all
  then show ?thesis
    using assms(2,3) by (auto simp: RingMined_ConvertDown_def RingMined_loop_eq TxInfo.extend_def comp_def)
qed

text \<open>Claim C25: the fills of a mined ring form a cycle: each names its neighbours' order hashes and
  owners, its fee and splits are not negative, and the ring's total fee is the sum of the fills'
  fees.\<close>

theorem RingMined_fills_cycle:
  assumes "length (crm_OrderInfoList e) = 7 * n" "2 \<le> n" "RingMined_ConvertDown e = Inr (evt, fills)"
  shows "length fills = n \<and> rme_TradeAmount evt = n \<and> rme_TotalLrcFee evt = sum_list (map fe_LrcFee fills)
    \<and> (\<forall>i < n. fe_OrderHash (fills ! i) = crm_OrderInfoList e ! (7 * i)
        \<and> fe_PreOrderHash (fills ! i) = fe_OrderHash (fills ! ring_pre n i)
        \<and> fe_NextOrderHash (fills ! i) = fe_OrderHash (fills ! ring_next n i)
        \<and> fe_SellTo (fills ! i) = fe_Owner (fills ! ring_next n i)
        \<and> fe_BuyFrom (fills ! i) = fe_Owner (fills ! ring_pre n i)
        \<and> 0 \<le> fe_LrcFee (fills ! i) \<and> 0 \<le> fe_SplitS (fills ! i) \<and> 0 \<le> fe_SplitB (fills ! i)
        \<and> (fe_SplitS (fills ! i) = 0 \<or> fe_SplitB (fills ! i) = 0))"
proof -
  have f: "fills = map (RingMined_fill e n) [0 ..< n]" "rme_TotalLrcFee evt = sum_list (map fe_LrcFee fills)"
    "rme_TradeAmount evt = n"
    using RingMined_ConvertDown_eq [OF assms] by auto
  have "ring_pre n i < n" "ring_next n i < n" if "i < n" for i
    using that assms(2) by (auto simp: ring_pre_def ring_next_def)
  then have "\<forall>j \<in> {i, ring_pre n i, ring_next n i}. fills ! j = RingMined_fill e n j" if "i < n" for i
    using that f(1) by auto
  then show ?thesis
    using f RingMined_fill_links [OF assms(2)] RingMined_fill_signs [of e n] by simp
qed

definition demo_mined :: contract_RingMined where
  "demo_mined = \<lparr>crm_RingIndex = Some 1, crm_RingHash = zero_hash, crm_Miner = zero_address, crm_FeeRecipient = zero_address,
     crm_OrderInfoList = map (\<lambda>k. replicate 31 0 @ [word_of_nat k]) [0 ..< 14]\<rparr>"

theorem RingMined_fills_cycle_witness:
  "rme_TotalLrcFee (fst (projr (RingMined_ConvertDown demo_mined)))
    = sum_list (map fe_LrcFee (snd (projr (RingMined_ConvertDown demo_mined))))
   \<and> length (snd (projr (RingMined_ConvertDown demo_mined))) = 2"
proof -
  have "RingMined_ConvertDown demo_mined
      = Inr (fst (projr (RingMined_ConvertDown demo_mined)), snd (projr (RingMined_ConvertDown demo_mined)))"
    by (simp add: RingMined_ConvertDown_def demo_mined_def split: prod.splits)
  from RingMined_fills_cycle [OF _ _ this, of 2] show ?thesis by (simp add: demo_mined_def)
qed

text \<open>
  The token bought by the last fill is read from the first order, that of every other fill from the
  order before it: in a ring of three or more orders the second and the last fill name the same one.
\<close>

theorem RingMined_last_fill_token:
  assumes "3 \<le> n"
  shows "fe_TokenB (RingMined_fill e n (n - 1)) = fe_TokenS (RingMined_fill e n 0)
    \<and> fe_TokenB (RingMined_fill e n 1) = fe_TokenS (RingMined_fill e n 0)"
  using assms by (simp add: RingMined_fill_def Let_def TxInfo.extend_def)

text \<open>The arguments of a ring that was built without error, list by list.\<close>

lemma submitRing_loop_lists:
  assumes "submitRing_loop K ec_sign pub_addr h os inp au = Inr (inp', au')"
  shows "sr_AddressList inp' = sr_AddressList inp @ map (\<lambda>o'. (ord_Owner (fo_raw o'), ord_TokenS (fo_raw o'),
        ord_WalletAddress (fo_raw o'), ord_AuthAddr (fo_raw o'))) os
    \<and> sr_UintArgsList inp' = sr_UintArgsList inp @ map (\<lambda>o'. (ord_AmountS (fo_raw o'), ord_AmountB (fo_raw o'),
        ord_ValidSince (fo_raw o'), ord_ValidUntil (fo_raw o'), ord_LrcFee (fo_raw o'),
        Some (rat_FloatString0 (the (fo_RateAmountS o'))))) os
    \<and> sr_Uint8ArgsList inp' = sr_Uint8ArgsList inp @ map (\<lambda>o'. ord_MarginSplitPercentage (fo_raw o')) os
    \<and> sr_BuyNoMoreThanBList inp' = sr_BuyNoMoreThanBList inp @ map (\<lambda>o'. ord_BuyNoMoreThanAmountB (fo_raw o')) os
    \<and> sr_VList inp' = sr_VList inp @ map (\<lambda>o'. ord_V (fo_raw o')) os
    \<and> sr_RList inp' = sr_RList inp @ map (\<lambda>o'. ord_R (fo_raw o')) os
    \<and> sr_SList inp' = sr_SList inp @ map (\<lambda>o'. ord_S (fo_raw o')) os
    \<and> length (au_V au') = length (au_V au) + length os \<and> length (au_R au') = length (au_R au) + length os
    \<and> length (au_S au') = length (au_S au) + length os"
  using assms
proof (induction os arbitrary: inp au)
  case (Cons x os)
  from Cons.prems show ?case
    by (auto simp: Let_def dest!: Cons.IH)
qed simp

text \<open>The orders of a ring follow each other: each buys the token the next one sells.\<close>

definition cyclic_tokens :: "'pub Ring \<Rightarrow> bool" where
  "cyclic_tokens ring \<longleftrightarrow> (\<forall>i < length (ring_Orders ring).
     ord_TokenB (fo_raw (ring_Orders ring ! i))
       = ord_TokenS (fo_raw (ring_Orders ring ! ring_next (length (ring_Orders ring)) i)))"

lemma SubmitRing_order_of_inputs:
  fixes os :: "'pub FilledOrder list"
  assumes loop: "submitRing_loop K ec_sign pub_addr h os (emptySubmitRingInputs fr) \<lparr>au_V = [], au_R = [], au_S = []\<rparr> = Inr (inp, au)"
    and i: "i < length os" and n: "2 \<le> length os"
    and m: "m = inp\<lparr>sr_VList := sr_VList inp @ au_V au, sr_RList := sr_RList inp @ au_R au, sr_SList := sr_SList inp @ au_S au,
      sr_FeeSelections := fs\<rparr>"
    and tokB: "ord_TokenB (fo_raw (os ! i)) = ord_TokenS (fo_raw (os ! ring_next (length os) i))"
  shows "SubmitRing_order K m protocol (ord_DelegateAddress (fo_raw (os ! i)))  i
     = rbind (Order_GenerateHash K (fo_raw (os ! i))) (\<lambda>h. Inr ((zero_Order :: 'pub Order)\<lparr>ord_Protocol := protocol,
         ord_DelegateAddress := ord_DelegateAddress (fo_raw (os ! i)), ord_Owner := ord_Owner (fo_raw (os ! i)),
         ord_TokenS := ord_TokenS (fo_raw (os ! i)), ord_TokenB := ord_TokenB (fo_raw (os ! i)),
         ord_WalletAddress := ord_WalletAddress (fo_raw (os ! i)), ord_AuthAddr := ord_AuthAddr (fo_raw (os ! i)),
         ord_AmountS := ord_AmountS (fo_raw (os ! i)), ord_AmountB := ord_AmountB (fo_raw (os ! i)),
         ord_ValidSince := ord_ValidSince (fo_raw (os ! i)), ord_ValidUntil := ord_ValidUntil (fo_raw (os ! i)),
         ord_LrcFee := ord_LrcFee (fo_raw (os ! i)), ord_MarginSplitPercentage := ord_MarginSplitPercentage (fo_raw (os ! i)),
         ord_BuyNoMoreThanAmountB := ord_BuyNoMoreThanAmountB (fo_raw (os ! i)), ord_V := ord_V (fo_raw (os ! i)),
         ord_R := ord_R (fo_raw (os ! i)), ord_S := ord_S (fo_raw (os ! i)), ord_Hash := h\<rparr>))"
proof -
  note l = submitRing_loop_lists [OF loop, unfolded emptySubmitRingInputs_def, simplified]
  have len: "length (sr_AddressList m) = length os" using l m by simp
  have tb: "(if i = length os - 1 then fst (snd (sr_AddressList m ! 0)) else fst (snd (sr_AddressList m ! (i + 1))))
      = ord_TokenB (fo_raw (os ! i))"
  proof -
    have "0 < length os" using n by linarith
    then show ?thesis using tokB l m i n by (auto simp: ring_next_def)
  qed
  let ?r = "fo_raw (os ! i)"
  let ?o = "(zero_Order :: 'pub Order)\<lparr>ord_Protocol := protocol, ord_DelegateAddress := ord_DelegateAddress ?r,
     ord_Owner := ord_Owner ?r, ord_TokenS := ord_TokenS ?r, ord_TokenB := ord_TokenB ?r,
     ord_WalletAddress := ord_WalletAddress ?r, ord_AuthAddr := ord_AuthAddr ?r, ord_AmountS := ord_AmountS ?r,
     ord_AmountB := ord_AmountB ?r, ord_ValidSince := ord_ValidSince ?r, ord_ValidUntil := ord_ValidUntil ?r,
     ord_LrcFee := ord_LrcFee ?r, ord_MarginSplitPercentage := ord_MarginSplitPercentage ?r,
     ord_BuyNoMoreThanAmountB := ord_BuyNoMoreThanAmountB ?r, ord_V := ord_V ?r, ord_R := ord_R ?r, ord_S := ord_S ?r\<rparr>"
  have "Order_GenerateHash K ?o = Order_GenerateHash K ?r"
    by (rule Order_GenerateHash_cong) (simp add: hashed_fields_def)
  moreover have "SubmitRing_order K m protocol (ord_DelegateAddress ?r) i
      = rbind (Order_GenerateHash K ?o) (\<lambda>h. Inr (?o\<lparr>ord_Hash := h\<rparr>))"
    unfolding SubmitRing_order_def len tb Let_def using l m i by (simp add: nth_append)
  ultimately show ?thesis by simp
qed

text \<open>Reading back the arguments built for a ring gives orders with the same trading fields, signatures and
  hashes as those submitted.\<close>

lemma submitRing_reads_back:
  fixes ring :: "'pub Ring"
  assumes "submitRing_inputs K ec_sign pub_addr ring feeReceipt = (ring', Inr m)"
    and "2 \<le> length (ring_Orders ring)" "cyclic_tokens ring"
    and "\<forall>fo \<in> set (ring_Orders ring). ord_DelegateAddress (fo_raw fo) = delegate"
    and "\<forall>fo \<in> set (ring_Orders ring). \<exists>h. Order_GenerateHash K (fo_raw fo) = Inr h"
  shows "\<exists>evt :: 'pub SubmitRingMethodEvent. SubmitRing_ConvertDown K m protocol delegate = Inr evt
    \<and> map (\<lambda>o'. (hashed_fields o', ord_V o', ord_R o', ord_S o', Inr (ord_Hash o'))) (sre_OrderList evt)
      = map (\<lambda>fo. (hashed_fields (fo_raw fo), ord_V (fo_raw fo), ord_R (fo_raw fo), ord_S (fo_raw fo),
                   Order_GenerateHash K (fo_raw fo))) (ring_Orders ring)"
proof -
  let ?os = "ring_Orders ring"
  have os: "ring_Orders ring' = ?os"
    using assms(1)
    by (auto simp: submitRing_inputs_def Ring_GenerateHash_def GenerateUniqueId_def Let_def
        split: if_splits prod.splits sum.splits list.splits)
  obtain inp au fs where loop: "submitRing_loop K ec_sign pub_addr (ring_Hash ring') ?os (emptySubmitRingInputs feeReceipt)
      \<lparr>au_V = [], au_R = [], au_S = []\<rparr> = Inr (inp, au)"
    and m: "m = inp\<lparr>sr_VList := sr_VList inp @ au_V au, sr_RList := sr_RList inp @ au_R au, sr_SList := sr_SList inp @ au_S au,
      sr_FeeSelections := fs\<rparr>"
    using assms(1) os by (auto simp: submitRing_inputs_def split: if_splits prod.splits sum.splits)
  note l = submitRing_loop_lists [OF loop, unfolded emptySubmitRingInputs_def, simplified]
  have len: "length (sr_AddressList m) = length ?os" "length (sr_UintArgsList m) = length ?os" "length (sr_Uint8ArgsList m) = length ?os"
    "length (sr_VList m) = 2 * length ?os" "length (sr_RList m) = 2 * length ?os" "length (sr_SList m) = 2 * length ?os"
    using l m by simp_all
  have item: "\<exists>o' :: 'pub Order. SubmitRing_order K m protocol delegate i = Inr o'
      \<and> (hashed_fields o', ord_V o', ord_R o', ord_S o', Inr (ord_Hash o'))
        = (hashed_fields (fo_raw (?os ! i)), ord_V (fo_raw (?os ! i)), ord_R (fo_raw (?os ! i)), ord_S (fo_raw (?os ! i)),
           Order_GenerateHash K (fo_raw (?os ! i)))" if i: "i < length ?os" for i
  proof -
    have "ord_DelegateAddress (fo_raw (?os ! i)) = delegate" using assms(4) i by simp
    moreover obtain h where "Order_GenerateHash K (fo_raw (?os ! i)) = Inr h" using assms(5) i by (meson nth_mem)
    moreover have "ord_TokenB (fo_raw (?os ! i)) = ord_TokenS (fo_raw (?os ! ring_next (length ?os) i))"
      using assms(3) i by (simp add: cyclic_tokens_def)
    ultimately show ?thesis
      using SubmitRing_order_of_inputs [OF loop i assms(2) m, of protocol] by (simp add: hashed_fields_def)
  qed
  let ?so = "SubmitRing_order K m protocol delegate :: nat \<Rightarrow> 'pub Order res"
  have "rmap ?so [0 ..< length ?os] = Inr (map (\<lambda>i. projr (?so i)) [0 ..< length ?os])"
  proof (rule rmap_Inr)
    fix i assume "i \<in> set [0 ..< length ?os]"
    then show "?so i = Inr (projr (?so i))"
      using item [of i] by auto
  qed
  then obtain evt where evt: "SubmitRing_ConvertDown K m protocol delegate = Inr evt"
    "sre_OrderList evt = map (\<lambda>i. projr (?so i)) [0 ..< length ?os]"
    using len assms(2) by (auto simp: SubmitRing_ConvertDown_def TxInfo.extend_def)
  have "map (\<lambda>o'. (hashed_fields o', ord_V o', ord_R o', ord_S o', Inr (ord_Hash o'))) (sre_OrderList evt)
      = map (\<lambda>fo. (hashed_fields (fo_raw fo), ord_V (fo_raw fo), ord_R (fo_raw fo), ord_S (fo_raw fo),
                   Order_GenerateHash K (fo_raw fo))) ?os"
    unfolding evt(2) by (rule nth_equalityI) (use item in fastforce)+
  then show ?thesis using evt(1) by blast
qed

definition demo_sub_order :: "byte \<Rightarrow> byte \<Rightarrow> unit FilledOrder" where
  "demo_sub_order s b = (zero_FilledOrder (demo_state\<lparr>st_RawOrder := (demo_order 10)\<lparr>ord_TokenS := replicate 20 s,
     ord_TokenB := replicate 20 b, ord_AuthPrivateKey := demo_key\<rparr>\<rparr>))\<lparr>fo_RateAmountS := Some 3\<rparr>"

definition demo_sub_ring :: "unit Ring" where
  "demo_sub_ring = (demo_ring [] [])\<lparr>ring_Orders := [demo_sub_order 1 2, demo_sub_order 2 1], ring_Hash := replicate 32 7\<rparr>"

text \<open>Arguments whose list of flags is shorter than the others pass the length check and panic.\<close>

theorem short_flag_list_panics:
  assumes "2 \<le> length (sr_AddressList m)" "length (sr_UintArgsList m) = length (sr_AddressList m)"
    "length (sr_Uint8ArgsList m) = length (sr_AddressList m)" "length (sr_VList m) = 2 * length (sr_AddressList m)"
    "length (sr_RList m) = 2 * length (sr_AddressList m)" "length (sr_SList m) = 2 * length (sr_AddressList m)"
    "sr_BuyNoMoreThanBList m = []"
  shows "(SubmitRing_ConvertDown K m protocol delegate :: 'pub SubmitRingMethodEvent res) = Inl (Panic IndexOutOfRange)"
proof -
  have "(SubmitRing_order K m protocol delegate 0 :: 'pub Order res) = Inl (Panic IndexOutOfRange)"
    using assms(7) by (simp add: SubmitRing_order_def split: prod.splits)
  moreover have "[0 ..< length (sr_AddressList m)] = 0 # [1 ..< length (sr_AddressList m)]"
    unfolding One_nat_def by (rule upt_conv_Cons) (use assms(1) in linarith)
  ultimately show ?thesis using assms by (simp add: SubmitRing_ConvertDown_def Let_def del: upt_Suc)
qed

end
