(* ===== verification/Abi_Codec.thy ===== *)
theory Abi_Codec
  imports Go_Common
begin

section \<open>The contract ABI (\<open>eth/abi\<close>)\<close>

text \<open>
  Types are parsed from their text, arguments are packed into words and read back. A Go value that
  reflection looks at is a \<open>go_val\<close>: integers with their kind, pointers to big integers, booleans,
  strings, and sequences with the static kind of their elements, arrays when the flag is set and slices
  otherwise; other pointers are dereferenced before the code looks at a value and do not occur. The
  decoding of the JSON text and the hash function are parameters; the values are stored into the fields of
  Go structs in the theory of unpacking. The capacity of a slice of bytes is taken to be its length,
  and the size of an array type to be one the runtime can allocate.
\<close>

subsection \<open>Types (\<open>type.go\<close>)\<close>

datatype abi_ty = TInt nat | TUint nat | TBool | TString | TSlice abi_ty | TArray nat abi_ty | TAddress
  | TFixedBytes nat | TBytes | TFunction

record abi_Type =
  at_ty :: abi_ty
  at_stringKind :: string

datatype go_kind = Kuint nat | Kint nat | Kptr | Kbool | Kstring | Kslice | Karray

datatype go_val = GInt go_kind int | GBig int | GBool bool | GString bytes | GSeq bool go_kind "go_val list"

definition reflectIntKindAndType :: "bool \<Rightarrow> nat \<Rightarrow> go_kind" where
  "reflectIntKindAndType uns sz =
     (if sz = 8 \<or> sz = 16 \<or> sz = 32 \<or> sz = 64 then (if uns then Kuint sz else Kint sz) else Kptr)"

fun ty_kind :: "abi_ty \<Rightarrow> go_kind" where
  "ty_kind (TInt n) = reflectIntKindAndType False n"
| "ty_kind (TUint n) = reflectIntKindAndType True n"
| "ty_kind TBool = Kbool"
| "ty_kind TString = Kstring"
| "ty_kind (TSlice e) = Kslice"
| "ty_kind (TArray n e) = Karray"
| "ty_kind TAddress = Karray"
| "ty_kind (TFixedBytes n) = Karray"
| "ty_kind TBytes = Kslice"
| "ty_kind TFunction = Karray"

definition is_digit :: "char \<Rightarrow> bool" where
  "is_digit c \<longleftrightarrow> digit_of c \<noteq> None"

definition is_letter :: "char \<Rightarrow> bool" where
  "is_letter c \<longleftrightarrow> (let k = of_char c :: nat in (65 \<le> k \<and> k \<le> 90) \<or> (97 \<le> k \<and> k \<le> 122))"

text \<open>\<open>strconv.Atoi\<close> on a string of digits: an error when the number does not fit.\<close>

definition strconv_Atoi :: "string \<Rightarrow> nat res" where
  "strconv_Atoi s = (if s \<noteq> [] \<and> list_all is_digit s \<and> dec_val s < 2 ^ 63 then Inr (dec_val s) else Inl (Err ''strconv.Atoi''))"

fun digit_runs :: "string \<Rightarrow> string \<Rightarrow> string list" where
  "digit_runs [] run = (if run = [] then [] else [run])"
| "digit_runs (c # cs) run =
     (if is_digit c then digit_runs cs (run @ [c]) else (if run = [] then [] else [run]) @ digit_runs cs [])"

text \<open>The groups of the first match of \<open>([a-zA-Z]+)(([0-9]+)(x([0-9]+))?)?\<close>: the match, groups 1, 2 and 3;
  \<open>None\<close> when there is none.\<close>

definition typeRegex_match :: "string \<Rightarrow> (string \<times> string \<times> string \<times> string) option" where
  "typeRegex_match t =
     (let rest = dropWhile (\<lambda>c. \<not> is_letter c) t;
          letters = takeWhile is_letter rest; rest = dropWhile is_letter rest;
          digits = takeWhile is_digit rest; rest = dropWhile is_digit rest;
          xdigits = (if rest \<noteq> [] \<and> hd rest = CHR ''x'' then takeWhile is_digit (tl rest) else []);
          group2 = (if digits = [] then [] else digits @ (if xdigits = [] then [] else CHR ''x'' # xdigits))
      in if letters = [] then None else Some (letters @ group2, letters, group2, digits))"

definition last_bracket :: "string \<Rightarrow> string \<times> string" where
  "last_bracket t = (let post = rev (takeWhile (\<lambda>c. c \<noteq> CHR ''['') (rev t)); i = length t - length post - 1
     in (take i t, drop i t))"

lemma last_bracket_shorter: "CHR ''['' \<in> set t \<Longrightarrow> length (fst (last_bracket t)) < length t"
  by (cases t) (auto simp: last_bracket_def Let_def)

definition base_type :: "string \<Rightarrow> abi_ty res" where
  "base_type t =
    (case typeRegex_match t of
       None \<Rightarrow> Inl (Panic IndexOutOfRange)
     | Some (match, varType, group2, digits) \<Rightarrow>
         rbind (if length digits > 0 then strconv_Atoi group2
                else if match = ''uint'' \<or> match = ''int'' then Inl (Err (''unsupported arg type: '' @ t)) else Inr 0) (\<lambda>varSize.
         if varType = ''int'' then Inr (TInt varSize)
         else if varType = ''uint'' then Inr (TUint varSize)
         else if varType = ''bool'' then Inr TBool
         else if varType = ''address'' then Inr TAddress
         else if varType = ''string'' then Inr TString
         else if varType = ''bytes'' then Inr (if varSize = 0 then TBytes else TFixedBytes varSize)
         else if varType = ''function'' then Inr TFunction
         else Inl (Err (''unsupported arg type: '' @ t))))"

function parse_ty :: "string \<Rightarrow> abi_ty res" where
  "parse_ty t =
    (if count_list t (CHR ''['') \<noteq> count_list t (CHR '']'') then Inl (Err ''invalid arg type in abi'')
     else if CHR ''['' \<in> set t then
       rbind (parse_ty (fst (last_bracket t))) (\<lambda>embeddedType.
         case digit_runs (snd (last_bracket t)) [] of
           [] \<Rightarrow> Inr (TSlice embeddedType)
         | [intz] \<Rightarrow> rbind (strconv_Atoi intz) (\<lambda>size. Inr (TArray size embeddedType))
         | _ \<Rightarrow> Inl (Err ''invalid formatting of array type''))
     else base_type t)"
  by pat_completeness auto
termination
  by (relation "measure length") (simp_all add: last_bracket_shorter)

declare parse_ty.simps [simp del]

definition NewType :: "string \<Rightarrow> abi_Type res" where
  "NewType t = rbind (parse_ty t) (\<lambda>ty. Inr \<lparr>at_ty = ty, at_stringKind = t\<rparr>)"

fun requiresLengthPrefix :: "abi_ty \<Rightarrow> bool" where
  "requiresLengthPrefix TString = True"
| "requiresLengthPrefix TBytes = True"
| "requiresLengthPrefix (TSlice e) = True"
| "requiresLengthPrefix _ = False"

subsection \<open>Type checks (\<open>error.go\<close>)\<close>

fun val_kind :: "go_val \<Rightarrow> go_kind" where
  "val_kind (GInt k x) = k"
| "val_kind (GBig x) = Kptr"
| "val_kind (GBool b) = Kbool"
| "val_kind (GString s) = Kstring"
| "val_kind (GSeq array k vs) = (if array then Karray else Kslice)"

definition val_len :: "go_val \<Rightarrow> nat" where
  "val_len v = (case v of GSeq array k vs \<Rightarrow> length vs | GString s \<Rightarrow> length s | _ \<Rightarrow> 0)"

definition typeErr :: go_error where
  "typeErr = Err ''abi: cannot use value as argument''"

text \<open>The element type decides: a slice or array of slices or arrays only has its first element checked.\<close>

fun sliceTypeCheck :: "nat option \<Rightarrow> abi_ty \<Rightarrow> go_val \<Rightarrow> unit res" where
  "sliceTypeCheck sz elem (GSeq array k vs) =
    (if (case sz of Some n \<Rightarrow> length vs \<noteq> n | None \<Rightarrow> False) then Inl typeErr
     else (case elem of
         TSlice e \<Rightarrow> (case vs of
             v # _ \<Rightarrow> sliceTypeCheck None e v
           | [] \<Rightarrow> if k \<noteq> ty_kind elem then Inl typeErr else Inr ())
       | TArray n e \<Rightarrow> (case vs of v # _ \<Rightarrow> sliceTypeCheck (Some n) e v | [] \<Rightarrow> Inl (Panic IndexOutOfRange))
       | _ \<Rightarrow> if k \<noteq> ty_kind elem then Inl typeErr else Inr ()))"
| "sliceTypeCheck sz elem _ = Inl typeErr"

fun typeCheck :: "abi_ty \<Rightarrow> go_val \<Rightarrow> unit res" where
  "typeCheck (TSlice e) v = sliceTypeCheck None e v"
| "typeCheck (TArray n e) v = sliceTypeCheck (Some n) e v"
| "typeCheck (TFixedBytes n) v =
     (if ty_kind (TFixedBytes n) \<noteq> val_kind v then Inl typeErr else if n \<noteq> val_len v then Inl typeErr else Inr ())"
| "typeCheck t v = (if ty_kind t \<noteq> val_kind v then Inl typeErr else Inr ())"

subsection \<open>Packing (\<open>pack.go\<close>, \<open>numbers.go\<close>, \<open>reflect.go\<close>)\<close>

definition abi_U256 :: "int \<Rightarrow> bytes" where
  "abi_U256 n = PaddedBigBytes (math_U256 n) 32"

definition packNum :: "go_val \<Rightarrow> bytes res" where
  "packNum v = (case v of
      GInt k x \<Rightarrow> Inr (abi_U256 x)
    | GBig x \<Rightarrow> Inr (abi_U256 x)
    | _ \<Rightarrow> Inl (Panic (Fatal ''abi: fatal error'')))"

definition packBytesSlice :: "bytes \<Rightarrow> nat \<Rightarrow> bytes" where
  "packBytesSlice bs l = abi_U256 (int l) @ RightPadBytes bs ((l + 31) div 32 * 32)"

text \<open>\<open>Value.Bytes\<close> and the copy out of an array panic unless the elements are bytes.\<close>

definition seq_bytes :: "go_val \<Rightarrow> bytes res" where
  "seq_bytes v = (case v of
      GSeq array k vs \<Rightarrow> if k = Kuint 8
        then Inr (map (\<lambda>x. case x of GInt k b \<Rightarrow> word_of_int b | _ \<Rightarrow> 0) vs) else Inl (Panic (Fatal ''reflect''))
    | _ \<Rightarrow> Inl (Panic (Fatal ''reflect'')))"

fun packElement :: "abi_ty \<Rightarrow> go_val \<Rightarrow> bytes res" where
  "packElement (TInt n) v = packNum v"
| "packElement (TUint n) v = packNum v"
| "packElement TString v = (case v of GString s \<Rightarrow> Inr (packBytesSlice s (length s)) | _ \<Rightarrow> Inl (Panic (Fatal ''reflect'')))"
| "packElement TAddress v = rbind (seq_bytes v) (\<lambda>bs. Inr (LeftPadBytes bs 32))"
| "packElement TBool v = (case v of GBool b \<Rightarrow> Inr (PaddedBigBytes (if b then 1 else 0) 32) | _ \<Rightarrow> Inl (Panic (Fatal ''reflect'')))"
| "packElement TBytes v = rbind (seq_bytes v) (\<lambda>bs. Inr (packBytesSlice bs (length bs)))"
| "packElement (TFixedBytes n) v = rbind (seq_bytes v) (\<lambda>bs. Inr (RightPadBytes bs 32))"
| "packElement TFunction v = rbind (seq_bytes v) (\<lambda>bs. Inr (RightPadBytes bs 32))"
| "packElement _ v = Inl (Panic (Fatal ''abi: fatal error''))"

definition seq_elems :: "go_val \<Rightarrow> go_val list" where
  "seq_elems v = (case v of GSeq array k vs \<Rightarrow> vs | _ \<Rightarrow> [])"

fun type_pack :: "abi_ty \<Rightarrow> go_val \<Rightarrow> bytes res" where
  "type_pack (TSlice e) v =
     rbind (typeCheck (TSlice e) v) (\<lambda>_. rbind (rmap (type_pack e) (seq_elems v)) (\<lambda>ps. Inr (packBytesSlice (concat ps) (val_len v))))"
| "type_pack (TArray n e) v =
     rbind (typeCheck (TArray n e) v) (\<lambda>_. rbind (rmap (type_pack e) (seq_elems v)) (\<lambda>ps. Inr (concat ps)))"
| "type_pack t v = rbind (typeCheck t v) (\<lambda>_. packElement t v)"

subsection \<open>Reading (\<open>unpack.go\<close>)\<close>

definition signed_val :: "nat \<Rightarrow> nat \<Rightarrow> int" where
  "signed_val bits x = (if x < 2 ^ (bits - 1) then int x else int x - 2 ^ bits)"

definition readInteger :: "go_kind \<Rightarrow> bytes \<Rightarrow> go_val" where
  "readInteger kind b = (case kind of
      Kuint n \<Rightarrow> GInt kind (int (be_val (drop (length b - n div 8) b)))
    | Kint n \<Rightarrow> GInt kind (signed_val n (be_val (drop (length b - n div 8) b)))
    | _ \<Rightarrow> GBig (big_SetBytes b))"

definition readBool :: "bytes \<Rightarrow> bool res" where
  "readBool word =
    (if \<exists>b \<in> set (take 31 word). b \<noteq> 0 then Inl (Err ''abi: improperly encoded boolean value'')
     else if word ! 31 = 0 then Inr False else if word ! 31 = 1 then Inr True
     else Inl (Err ''abi: improperly encoded boolean value''))"

definition byte_array :: "bytes \<Rightarrow> go_val" where
  "byte_array bs = GSeq True (Kuint 8) (map (\<lambda>b. GInt (Kuint 8) (uint b)) bs)"

definition byte_slice :: "bytes \<Rightarrow> go_val" where
  "byte_slice bs = GSeq False (Kuint 8) (map (\<lambda>b. GInt (Kuint 8) (uint b)) bs)"

definition readFunctionType :: "bytes \<Rightarrow> go_val res" where
  "readFunctionType word =
     (if be_val (take 8 (drop 24 word)) \<noteq> 0 then Inl (Err ''abi: got improperly encoded function type'')
      else Inr (byte_array (take 24 word)))"

text \<open>The word is a slice of the output, and \<open>word[0:t.Size]\<close> may reach past its 32 bytes up to the capacity: the
  definition takes the output from the word on and panics beyond it.\<close>

definition readFixedBytes :: "nat \<Rightarrow> bytes \<Rightarrow> go_val res" where
  "readFixedBytes sz rest = (if sz > length rest then Inl (Panic IndexOutOfRange) else Inr (byte_array (take sz rest)))"

fun getFullElemSize :: "abi_ty \<Rightarrow> nat" where
  "getFullElemSize (TArray n e) = n * getFullElemSize e"
| "getFullElemSize _ = 32"

definition lengthPrefixPointsTo :: "nat \<Rightarrow> bytes \<Rightarrow> (nat \<times> nat) res" where
  "lengthPrefixPointsTo index output =
    (let bigOffsetEnd = be_val (take 32 (drop index output)) + 32 in
     if bigOffsetEnd > length output then Inl (Err ''abi: cannot marshal in to go slice'')
     else if bigOffsetEnd \<ge> 2 ^ 63 then Inl (Err ''abi offset larger than int64'')
     else let lengthBig = be_val (take 32 (drop (bigOffsetEnd - 32) output)); totalSize = bigOffsetEnd + lengthBig in
       if totalSize \<ge> 2 ^ 63 then Inl (Err ''abi length larger than int64'')
       else if totalSize > length output then Inl (Err ''abi: cannot marshal in to go type: length insufficient'')
       else Inr (bigOffsetEnd, lengthBig))"

definition word_at :: "nat \<Rightarrow> bytes \<Rightarrow> bytes" where
  "word_at index output = take 32 (drop index output)"

text \<open>\<open>toGoType\<close> and \<open>forEachUnpack\<close>: the elements of a sequence are read at steps of their full size.\<close>

fun toGoType :: "nat \<Rightarrow> abi_ty \<Rightarrow> bytes \<Rightarrow> go_val res" where
  "toGoType index (TSlice e) output =
     (if index + 32 > length output then Inl (Err ''abi: cannot marshal in to go type'')
      else rbind (lengthPrefixPointsTo index output) (\<lambda>(start, size).
        if start + 32 * size > length output then Inl (Err ''abi: cannot marshal in to go array'')
        else rbind (rmap (\<lambda>j. toGoType (start + j * getFullElemSize e) e output) [0 ..< size]) (\<lambda>vs. Inr (GSeq False (ty_kind e) vs))))"
| "toGoType index (TArray n e) output =
     (if index + 32 > length output then Inl (Err ''abi: cannot marshal in to go type'')
      else if index + 32 * n > length output then Inl (Err ''abi: cannot marshal in to go array'')
      else rbind (rmap (\<lambda>j. toGoType (index + j * getFullElemSize e) e output) [0 ..< n]) (\<lambda>vs. Inr (GSeq True (ty_kind e) vs)))"
| "toGoType index t output =
     (if index + 32 > length output then Inl (Err ''abi: cannot marshal in to go type'')
      else if requiresLengthPrefix t then rbind (lengthPrefixPointsTo index output) (\<lambda>(start, size).
             if t = TString then Inr (GString (take size (drop start output))) else Inr (byte_slice (take size (drop start output))))
      else let word = word_at index output in (case t of
             TBool \<Rightarrow> rbind (readBool word) (\<lambda>b. Inr (GBool b))
           | TAddress \<Rightarrow> Inr (byte_array (BytesToAddress word))
           | TFixedBytes n \<Rightarrow> readFixedBytes n (drop index output)
           | TFunction \<Rightarrow> readFunctionType word
           | _ \<Rightarrow> Inr (readInteger (ty_kind t) word)))"

subsection \<open>Arguments (\<open>argument.go\<close>)\<close>

record Argument =
  ar_Name :: string
  ar_Type :: abi_Type
  ar_Indexed :: bool

definition NonIndexed :: "Argument list \<Rightarrow> Argument list" where
  "NonIndexed arguments = filter (\<lambda>arg. \<not> ar_Indexed arg) arguments"

definition LengthNonIndexed :: "Argument list \<Rightarrow> nat" where
  "LengthNonIndexed arguments = fold (\<lambda>arg out. if \<not> ar_Indexed arg then out + 1 else out) arguments 0"

fun getArraySize :: "abi_ty \<Rightarrow> nat" where
  "getArraySize (TArray n e) = n * (case e of TArray _ _ \<Rightarrow> getArraySize e | _ \<Rightarrow> 1)"
| "getArraySize _ = 0"

text \<open>The loop of \<open>UnpackValues\<close>; \<open>slot\<close> is \<open>index+virtualArgs\<close>. The decrement by one is added back by the next
  index; for an array of size 0 the sum goes back by one slot, and below 0 the index is refused.\<close>

fun unpack_loop :: "int \<Rightarrow> Argument list \<Rightarrow> bytes \<Rightarrow> go_val list res" where
  "unpack_loop slot [] data = Inr []"
| "unpack_loop slot (arg # args) data =
    (let t = at_ty (ar_Type arg) in
     rbind (if slot < 0 then Inl (Err ''abi: cannot marshal in to go type'') else toGoType (nat slot * 32) t data) (\<lambda>v.
     rbind (unpack_loop (slot + (case t of TArray _ _ \<Rightarrow> int (getArraySize t) | _ \<Rightarrow> 1)) args data) (\<lambda>vs. Inr (v # vs))))"

definition UnpackValues :: "Argument list \<Rightarrow> bytes \<Rightarrow> go_val list res" where
  "UnpackValues arguments data = unpack_loop 0 (NonIndexed arguments) data"

fun pack_loop :: "nat \<Rightarrow> (Argument \<times> go_val) list \<Rightarrow> bytes \<Rightarrow> bytes \<Rightarrow> bytes res" where
  "pack_loop inputOffset [] ret variableInput = Inr (ret @ variableInput)"
| "pack_loop inputOffset ((input, a) # rest) ret variableInput =
    rbind (type_pack (at_ty (ar_Type input)) a) (\<lambda>packed.
      if requiresLengthPrefix (at_ty (ar_Type input))
      then pack_loop inputOffset rest (ret @ abi_U256 (int (inputOffset + length variableInput))) (variableInput @ packed)
      else pack_loop inputOffset rest (ret @ packed) variableInput)"

definition inputOffset_of :: "Argument list \<Rightarrow> nat" where
  "inputOffset_of abiArgs = fold (\<lambda>abiArg off. case at_ty (ar_Type abiArg) of TArray n e \<Rightarrow> off + 32 * n | _ \<Rightarrow> off + 32) abiArgs 0"

definition Arguments_Pack :: "Argument list \<Rightarrow> go_val list \<Rightarrow> bytes res" where
  "Arguments_Pack arguments args =
    (if length args \<noteq> length arguments then Inl (Err ''argument count mismatch'')
     else pack_loop (inputOffset_of arguments) (zip arguments args) [] [])"

definition capitalise :: "string \<Rightarrow> string" where
  "capitalise input = (let input = dropWhile (\<lambda>c. c = CHR ''_'') input
     in if length input = 0 then [] else ToUpper (take 1 input) @ drop 1 input)"

subsection \<open>Methods and events (\<open>abi.go\<close>, \<open>method.go\<close>, \<open>event.go\<close>)\<close>

record abi_Method =
  me_Name :: string
  me_Const :: bool
  me_Inputs :: "Argument list"
  me_Outputs :: "Argument list"

record abi_Event =
  ev_Name :: string
  ev_Anonymous :: bool
  ev_Inputs :: "Argument list"

record ABI =
  abi_Constructor :: "Argument list"
  abi_Methods :: "string \<rightharpoonup> abi_Method"
  abi_Events :: "string \<rightharpoonup> abi_Event"

fun join :: "string \<Rightarrow> string list \<Rightarrow> string" where
  "join sep [] = []"
| "join sep [x] = x"
| "join sep (x # xs) = x @ sep @ join sep xs"

definition signature_text :: "string \<Rightarrow> Argument list \<Rightarrow> string" where
  "signature_text name inputs = name @ ''('' @ join '','' (map (\<lambda>i. at_stringKind (ar_Type i)) inputs) @ '')''"

definition Method_Sig :: "abi_Method \<Rightarrow> string" where
  "Method_Sig method = signature_text (me_Name method) (me_Inputs method)"

definition Method_Id :: "(bytes \<Rightarrow> bytes) \<Rightarrow> abi_Method \<Rightarrow> bytes" where
  "Method_Id K method = take 4 (K (bytes_of (Method_Sig method)))"

definition Event_Id :: "(bytes \<Rightarrow> bytes) \<Rightarrow> abi_Event \<Rightarrow> hash" where
  "Event_Id K e = BytesToHash (K (bytes_of (signature_text (ev_Name e) (ev_Inputs e))))"

text \<open>The fields of the JSON text, with the types of their arguments still as text.\<close>

record json_arg =
  ja_Name :: string
  ja_Type :: string
  ja_Indexed :: bool

record json_field =
  jf_Type :: string
  jf_Name :: string
  jf_Constant :: bool
  jf_Anonymous :: bool
  jf_Inputs :: "json_arg list"
  jf_Outputs :: "json_arg list"

definition Argument_UnmarshalJSON :: "json_arg \<Rightarrow> Argument res" where
  "Argument_UnmarshalJSON extarg =
     rbind (NewType (ja_Type extarg)) (\<lambda>ty. Inr \<lparr>ar_Name = ja_Name extarg, ar_Type = ty, ar_Indexed = ja_Indexed extarg\<rparr>)"

definition add_field :: "json_field \<Rightarrow> Argument list \<Rightarrow> Argument list \<Rightarrow> ABI \<Rightarrow> ABI" where
  "add_field field inputs outputs abi =
    (if jf_Type field = ''constructor'' then abi\<lparr>abi_Constructor := inputs\<rparr>
     else if jf_Type field = ''function'' \<or> jf_Type field = ''''
     then abi\<lparr>abi_Methods := (abi_Methods abi)(jf_Name field \<mapsto>
            \<lparr>me_Name = jf_Name field, me_Const = jf_Constant field, me_Inputs = inputs, me_Outputs = outputs\<rparr>)\<rparr>
     else if jf_Type field = ''event''
     then abi\<lparr>abi_Events := (abi_Events abi)(jf_Name field \<mapsto>
            \<lparr>ev_Name = jf_Name field, ev_Anonymous = jf_Anonymous field, ev_Inputs = inputs\<rparr>)\<rparr>
     else abi)"

definition ABI_New :: "json_field list res \<Rightarrow> ABI res" where
  "ABI_New decoded =
    rbind decoded (\<lambda>fields.
    rbind (rmap (\<lambda>f. rbind (rmap Argument_UnmarshalJSON (jf_Inputs f)) (\<lambda>i.
             rbind (rmap Argument_UnmarshalJSON (jf_Outputs f)) (\<lambda>out. Inr (f, i, out)))) fields) (\<lambda>parsed.
    Inr (fold (\<lambda>(f, i, out). add_field f i out) parsed \<lparr>abi_Constructor = [], abi_Methods = Map.empty, abi_Events = Map.empty\<rparr>)))"

definition ABI_Pack :: "(bytes \<Rightarrow> bytes) \<Rightarrow> ABI \<Rightarrow> string \<Rightarrow> go_val list \<Rightarrow> bytes res" where
  "ABI_Pack K abi name args =
    (if name = '''' then Arguments_Pack (abi_Constructor abi) args
     else case abi_Methods abi name of
         None \<Rightarrow> Inl (Err (''method not found: '' @ name))
       | Some method \<Rightarrow> rbind (Arguments_Pack (me_Inputs method) args) (\<lambda>arguments. Inr (Method_Id K method @ arguments)))"

text \<open>\<open>MethodById\<close> visits the methods in the order of the map, \<open>names\<close>; a text shorter than four bytes panics.\<close>

definition MethodById :: "(bytes \<Rightarrow> bytes) \<Rightarrow> string list \<Rightarrow> ABI \<Rightarrow> bytes \<Rightarrow> abi_Method res" where
  "MethodById K names abi sigdata =
    (if names \<noteq> [] \<and> length sigdata < 4 then Inl (Panic IndexOutOfRange)
     else case find (\<lambda>m. Method_Id K m = take 4 sigdata) (List.map_filter (abi_Methods abi) names) of
         Some m \<Rightarrow> Inr m
       | None \<Rightarrow> if length sigdata < 4 then Inl (Panic IndexOutOfRange) else Inl (Err ''no method with id''))"

end
