(* ===== verification/Abi_Roundtrip.thy ===== *)
theory Abi_Roundtrip
  imports Abi_Codec
begin

section \<open>Packing and reading arguments agree\<close>

text \<open>
  Values that are well typed for an ABI type are packed into words and read back unchanged: first the
  words of the base types, then arrays nested to any depth, then the values behind an offset, and last
  whole argument lists. The inputs on which the code does not agree follow as evaluated facts.
\<close>

subsection \<open>Well-typed values\<close>

definition val_bytes :: "go_val \<Rightarrow> bytes" where
  "val_bytes v = map (\<lambda>x. case x of GInt k b \<Rightarrow> word_of_int b | _ \<Rightarrow> 0) (seq_elems v)"

text \<open>Integers of 8, 16, 32 and 64 bits are within their Go type; the others are big integers, which the
  reader takes as unsigned.\<close>

definition int_ok :: "go_kind \<Rightarrow> go_val \<Rightarrow> bool" where
  "int_ok k v = (case v of
      GInt k' x \<Rightarrow> k' = k \<and> (case k of Kuint m \<Rightarrow> 0 \<le> x \<and> x < 2 ^ m | Kint m \<Rightarrow> - (2 ^ (m - 1)) \<le> x \<and> x < 2 ^ (m - 1) | _ \<Rightarrow> False)
    | GBig x \<Rightarrow> k = Kptr \<and> 0 \<le> x \<and> x < 2 ^ 256
    | _ \<Rightarrow> False)"

fun val_ok :: "abi_ty \<Rightarrow> go_val \<Rightarrow> bool" where
  "val_ok (TInt n) v \<longleftrightarrow> int_ok (reflectIntKindAndType False n) v"
| "val_ok (TUint n) v \<longleftrightarrow> int_ok (reflectIntKindAndType True n) v"
| "val_ok TBool v \<longleftrightarrow> (case v of GBool b \<Rightarrow> True | _ \<Rightarrow> False)"
| "val_ok TString v \<longleftrightarrow> (case v of GString s \<Rightarrow> True | _ \<Rightarrow> False)"
| "val_ok TAddress v \<longleftrightarrow> v = byte_array (val_bytes v) \<and> val_len v = 20"
| "val_ok (TFixedBytes n) v \<longleftrightarrow> v = byte_array (val_bytes v) \<and> val_len v = n \<and> n \<le> 32"
| "val_ok TFunction v \<longleftrightarrow> v = byte_array (val_bytes v) \<and> val_len v = 24"
| "val_ok TBytes v \<longleftrightarrow> v = byte_slice (val_bytes v)"
| "val_ok (TSlice e) v \<longleftrightarrow> (case v of GSeq array k vs \<Rightarrow> \<not> array \<and> k = ty_kind e \<and> list_all (val_ok e) vs | _ \<Rightarrow> False)"
| "val_ok (TArray n e) v \<longleftrightarrow>
     (case v of GSeq array k vs \<Rightarrow> array \<and> k = ty_kind e \<and> length vs = n \<and> list_all (val_ok e) vs | _ \<Rightarrow> False)"

fun static_ty :: "abi_ty \<Rightarrow> bool" where
  "static_ty (TArray n e) \<longleftrightarrow> 0 < n \<and> static_ty e"
| "static_ty t \<longleftrightarrow> \<not> requiresLengthPrefix t"

fun is_array :: "abi_ty \<Rightarrow> bool" where
  "is_array (TArray n e) = True"
| "is_array _ = False"

text \<open>What an argument may be: a static value, a text, bytes, or a slice of static values, with at least one
  element when these are arrays.\<close>

fun arg_ok :: "abi_ty \<Rightarrow> go_val \<Rightarrow> bool" where
  "arg_ok (TSlice e) v \<longleftrightarrow> val_ok (TSlice e) v \<and> static_ty e \<and> (is_array e \<longrightarrow> seq_elems v \<noteq> [])"
| "arg_ok t v \<longleftrightarrow> val_ok t v \<and> (requiresLengthPrefix t \<or> static_ty t)"

subsection \<open>Words\<close>

lemma length_U256 [simp]: "length (abi_U256 x) = 32"
  by (simp add: abi_U256_def)

lemma be_val_U256: "be_val (abi_U256 x) = nat (x mod 2 ^ 256)"
  using big_SetBytes_PaddedBigBytes [of x] by (simp add: abi_U256_def big_SetBytes_def)

lemma be_val_U256_nat [simp]: "n < 2 ^ 256 \<Longrightarrow> be_val (abi_U256 (int n)) = n"
  by (simp add: be_val_U256 nat_mod_distrib)

lemma be_val_drop: "be_val (drop k bs) = be_val bs mod 256 ^ (length bs - k)"
proof -
  have "be_val bs = be_val (take k bs) * 256 ^ (length bs - k) + be_val (drop k bs)"
    using be_val_append [of "take k bs" "drop k bs"] by simp
  moreover have "be_val (drop k bs) < 256 ^ (length bs - k)" using be_val_less [of "drop k bs"] by simp
  ultimately show ?thesis by simp
qed

lemma low_bits_U256:
  assumes "m = 8 \<or> m = 16 \<or> m = 32 \<or> m = (64 :: nat)"
  shows "int (be_val (drop (32 - m div 8) (abi_U256 x))) = x mod 2 ^ m"
proof -
  have "(256 :: nat) ^ (m div 8) = 2 ^ m" using assms by auto
  moreover have "32 - (32 - m div 8) = m div 8" using assms by auto
  ultimately have "be_val (drop (32 - m div 8) (abi_U256 x)) = nat (x mod 2 ^ 256) mod 2 ^ m"
    by (simp add: be_val_drop be_val_U256)
  then have "int (be_val (drop (32 - m div 8) (abi_U256 x))) = (x mod 2 ^ 256) mod 2 ^ m"
    by (simp add: zmod_int)
  also have "\<dots> = x mod 2 ^ m"
    using assms by (auto intro!: mod_mod_cancel simp: le_imp_power_dvd)
  finally show ?thesis .
qed

lemma signed_val_mod:
  assumes "- (2 ^ (m - 1)) \<le> x" "x < 2 ^ (m - 1)" "0 < m"
  shows "signed_val m (nat (x mod 2 ^ m)) = x"
proof (cases "0 \<le> x")
  case True
  have "x < 2 ^ m" using assms by (smt (verit) one_le_numeral diff_le_self power_increasing)
  then have "x mod 2 ^ m = x" using True by simp
  then show ?thesis using True assms by (simp add: signed_val_def nat_less_iff)
next
  case False
  have two: "(2 :: int) ^ m = 2 * 2 ^ (m - 1)" using assms(3) by (cases m) auto
  have "x mod 2 ^ m = x + 2 ^ m"
    using False assms two by (intro mod_pos_pos_trivial [of "x + 2 ^ m" "2 ^ m", simplified]) linarith+
  then show ?thesis using False assms two by (simp add: signed_val_def nat_less_iff)
qed

lemma readInteger_U256:
  assumes "int_ok (reflectIntKindAndType uns n) v"
  shows "\<exists>x. packNum v = Inr (abi_U256 x) \<and> readInteger (reflectIntKindAndType uns n) (abi_U256 x) = v
           \<and> val_kind v = reflectIntKindAndType uns n"
proof (cases "n = 8 \<or> n = 16 \<or> n = 32 \<or> n = 64")
  case True
  then obtain x where v: "v = GInt (reflectIntKindAndType uns n) x"
    using assms by (auto simp: int_ok_def reflectIntKindAndType_def split: go_val.splits if_splits)
  have "0 < n" using True by auto
  moreover have "be_val (drop (32 - n div 8) (abi_U256 x)) = nat (x mod 2 ^ n)"
    using low_bits_U256 [of n x] True by linarith
  ultimately show ?thesis
    using assms True v signed_val_mod [of n x]
    by (cases uns) (auto simp: int_ok_def reflectIntKindAndType_def readInteger_def packNum_def intro!: exI [of _ x])
next
  case False
  then obtain x where "v = GBig x" "0 \<le> x" "x < 2 ^ 256"
    using assms by (auto simp: int_ok_def reflectIntKindAndType_def split: go_val.splits if_splits)
  then show ?thesis
    using False by (auto simp: reflectIntKindAndType_def readInteger_def packNum_def big_SetBytes_def be_val_U256)
qed

lemma val_bytes_simps [simp]: "val_bytes (byte_array bs) = bs" "val_bytes (byte_slice bs) = bs"
  by (simp_all add: val_bytes_def byte_array_def byte_slice_def seq_elems_def comp_def)

lemma seq_bytes_simps [simp]: "seq_bytes (byte_array bs) = Inr bs" "seq_bytes (byte_slice bs) = Inr bs"
  by (simp_all add: seq_bytes_def byte_array_def byte_slice_def comp_def)

lemma byte_seq_shape [simp]:
  "val_kind (byte_array bs) = Karray" "val_kind (byte_slice bs) = Kslice"
  "val_len (byte_array bs) = length bs" "val_len (byte_slice bs) = length bs"
  by (simp_all add: byte_array_def byte_slice_def val_len_def)

lemma readBool_PaddedBigBytes: "readBool (PaddedBigBytes (if b then 1 else 0) 32) = Inr b"
  by (cases b) (simp_all add: readBool_def PaddedBigBytes_def LeftPadBytes_def big_Bytes_def be_bytes_pos nth_append)

lemma length_bool_word [simp]: "length (PaddedBigBytes (if b then 1 else 0) 32) = 32"
  by (cases b) (simp_all add: PaddedBigBytes_def LeftPadBytes_def big_Bytes_def be_bytes_pos)

lemma readFunctionType_RightPad: "length bs = 24 \<Longrightarrow> readFunctionType (RightPadBytes bs 32) = Inr (byte_array bs)"
  by (simp add: readFunctionType_def RightPadBytes_def)

lemma take_RightPad_append: "length bs = n \<Longrightarrow> n \<le> l \<Longrightarrow> take n (RightPadBytes bs l) = bs"
  by (simp add: RightPadBytes_def)

text \<open>The text of a number in a word is read where the word stands.\<close>

lemma word_at_append [simp]: "length w = 32 \<Longrightarrow> word_at (length pre) (pre @ w @ post) = w"
  by (simp add: word_at_def)

subsection \<open>Static values\<close>

definition reads_back :: "abi_ty \<Rightarrow> go_val \<Rightarrow> bytes \<Rightarrow> bool" where
  "reads_back t v p \<longleftrightarrow> (\<forall>pre post. toGoType (length pre) t (pre @ p @ post) = Inr v)"

lemma base_words:
  assumes "val_ok t v" "static_ty t" "\<not> is_array t"
  shows "\<exists>p. type_pack t v = Inr p \<and> length p = getFullElemSize t \<and> reads_back t v p"
proof (cases t)
  case (TInt n)
  then show ?thesis using readInteger_U256 [of False n v] assms by (auto simp: reads_back_def Let_def)
next
  case (TUint n)
  then show ?thesis using readInteger_U256 [of True n v] assms by (auto simp: reads_back_def Let_def)
next
  case TBool
  then obtain b where "v = GBool b" using assms by (cases v) (auto split: if_splits)
  then show ?thesis using TBool by (simp add: reads_back_def Let_def readBool_PaddedBigBytes)
next
  case TAddress
  then obtain bs where "v = byte_array bs" "length bs = 20" using assms by (metis byte_seq_shape(3) val_ok.simps(5))
  then show ?thesis using TAddress by (simp add: reads_back_def Let_def BytesToAddress_LeftPad)
next
  case (TFixedBytes n)
  then obtain bs where "v = byte_array bs" "length bs = n" "n \<le> 32" using assms by (metis byte_seq_shape(3) val_ok.simps(6))
  then show ?thesis using TFixedBytes by (simp add: reads_back_def Let_def readFixedBytes_def take_RightPad_append)
next
  case TFunction
  then obtain bs where "v = byte_array bs" "length bs = 24" using assms by (metis byte_seq_shape(3) val_ok.simps(7))
  then show ?thesis using TFunction by (simp add: reads_back_def Let_def readFunctionType_RightPad)
qed (use assms in auto)


lemma length_concat_const: "\<forall>p \<in> set ps. length p = m \<Longrightarrow> length ps = j \<Longrightarrow> length (concat ps) = j * m"
  by (induction ps arbitrary: j) auto

lemma rmap_append_reads:
  assumes "length ps = length vs" "\<And>i. i < length vs \<Longrightarrow> length (ps ! i) = m \<and> reads_back e (vs ! i) (ps ! i)"
  shows "rmap (\<lambda>j. toGoType (length pre + j * m) e (pre @ concat ps @ post)) [0 ..< length vs] = Inr vs"
proof -
  have "toGoType (length pre + j * m) e (pre @ concat ps @ post) = Inr (vs ! j)" if j: "j < length vs" for j
  proof -
    have ps: "ps = take j ps @ (ps ! j) # drop (Suc j) ps" using j assms(1) by (simp add: id_take_nth_drop)
    have "length (concat (take j ps)) = j * m"
      using assms j by (intro length_concat_const) (auto simp: in_set_conv_nth)
    moreover have "pre @ concat ps @ post = (pre @ concat (take j ps)) @ ps ! j @ (concat (drop (Suc j) ps) @ post)"
      by (subst ps) simp
    ultimately show ?thesis using assms(2) [OF j] by (metis length_append reads_back_def)
  qed
  then have "rmap (\<lambda>j. toGoType (length pre + j * m) e (pre @ concat ps @ post)) [0 ..< length vs] = Inr (map (\<lambda>j. vs ! j) [0 ..< length vs])"
    by (intro rmap_Inr) simp
  then show ?thesis by (simp add: map_nth)
qed


lemma rmap_ex:
  "(\<And>x. x \<in> set xs \<Longrightarrow> \<exists>y. f x = Inr y \<and> P x y) \<Longrightarrow> \<exists>ys. rmap f xs = Inr ys \<and> list_all2 P xs ys"
  by (induction xs) (fastforce simp: rbind_Inr_iff)+

lemma elements_pack:
  assumes "list_all (val_ok e) vs"
    "\<And>v. val_ok e v \<Longrightarrow> \<exists>p. type_pack e v = Inr p \<and> length p = m \<and> reads_back e v p"
  obtains ps where "rmap (type_pack e) vs = Inr ps" "length (concat ps) = length vs * m"
    "\<And>pre post. rmap (\<lambda>j. toGoType (length pre + j * m) e (pre @ concat ps @ post)) [0 ..< length vs] = Inr vs"
proof -
  obtain ps where ps: "rmap (type_pack e) vs = Inr ps" "list_all2 (\<lambda>v p. length p = m \<and> reads_back e v p) vs ps"
    using rmap_ex [of vs "type_pack e" "\<lambda>v p. length p = m \<and> reads_back e v p"] assms by (auto simp: list_all_iff)
  moreover have "length (concat ps) = length vs * m"
    using ps(2) by (intro length_concat_const) (auto simp: list_all2_conv_all_nth in_set_conv_nth)
  moreover have "rmap (\<lambda>j. toGoType (length pre + j * m) e (pre @ concat ps @ post)) [0 ..< length vs] = Inr vs" for pre post
    using ps(2) by (intro rmap_append_reads) (auto simp: list_all2_conv_all_nth)
  ultimately show thesis using that by blast
qed

lemma static_size: "static_ty t \<Longrightarrow> 32 \<le> getFullElemSize t"
proof (induction t)
  case (TArray n t)
  then have "1 * 32 \<le> n * getFullElemSize t" by (intro mult_le_mono) auto
  then show ?case by simp
qed auto

lemma static_typeCheck_elems:
  assumes "list_all (val_ok e) vs" "static_ty e" "is_array e \<longrightarrow> vs \<noteq> []" "sz = None \<or> sz = Some (length vs)"
  shows "sliceTypeCheck sz e (GSeq array (ty_kind e) vs) = Inr ()"
  using assms
proof (induction e arbitrary: vs sz array)
  case (TArray n e)
  then obtain v rest where v: "vs = v # rest" by (cases vs) auto
  then obtain us where "v = GSeq True (ty_kind e) us" "length us = n" "list_all (val_ok e) us"
    using TArray.prems by (auto split: go_val.splits)
  then have "sliceTypeCheck (Some n) e v = Inr ()" using TArray.IH TArray.prems by (auto simp del: sliceTypeCheck.simps)
  then show ?case using TArray.prems(4) v by (auto simp del: sliceTypeCheck.simps(2-) split: option.splits)
qed auto

lemma static_pack:
  "val_ok t v \<Longrightarrow> static_ty t \<Longrightarrow> \<exists>p. type_pack t v = Inr p \<and> length p = getFullElemSize t \<and> reads_back t v p"
proof (induction t arbitrary: v)
  case (TArray n e)
  then obtain vs where v: "v = GSeq True (ty_kind e) vs" "length vs = n" "list_all (val_ok e) vs" "0 < n" "static_ty e"
    by (auto split: go_val.splits)
  obtain ps where ps: "rmap (type_pack e) vs = Inr ps" "length (concat ps) = length vs * getFullElemSize e"
      "\<And>pre post. rmap (\<lambda>j. toGoType (length pre + j * getFullElemSize e) e (pre @ concat ps @ post)) [0 ..< length vs] = Inr vs"
    using elements_pack [OF v(3) TArray.IH [OF _ v(5)]] by blast
  have "32 * length vs \<le> length vs * getFullElemSize e" using static_size [OF v(5)] by (simp add: mult.commute)
  moreover have "0 < length vs" using v(2,4) by simp
  ultimately have le: "\<not> length vs * getFullElemSize e + k < 32 * length vs" "\<not> length vs * getFullElemSize e + k < 32" for k
    by linarith+
  have "sliceTypeCheck (Some n) e v = Inr ()" using v by (auto simp del: sliceTypeCheck.simps intro!: static_typeCheck_elems)
  then show ?case using v ps by (auto simp: reads_back_def seq_elems_def le simp del: sliceTypeCheck.simps)
qed (erule (1) base_words; simp)+


subsection \<open>Values behind an offset\<close>

lemma lengthPrefix_at:
  assumes "length pre < 2 ^ 63" "length output < 2 ^ 63" "word_at index output = abi_U256 (int (length pre))"
    "output = pre @ abi_U256 (int l) @ body @ post" "l \<le> length body"
  shows "lengthPrefixPointsTo index output = Inr (length pre + 32, l)"
proof -
  have big: "(2 :: nat) ^ 63 < 2 ^ 256" by simp
  have "l < 2 ^ 256" using assms(2,4,5) big by (simp del: power_strict_increasing_iff)
  moreover have "length pre < 2 ^ 256" using assms(1) big by (rule less_trans)
  moreover have "take 32 (drop (length pre) output) = abi_U256 (int l)" using assms(4) by simp
  ultimately show ?thesis using assms by (simp add: lengthPrefixPointsTo_def word_at_def Let_def)
qed

definition reads_at :: "abi_ty \<Rightarrow> go_val \<Rightarrow> bytes \<Rightarrow> bool" where
  "reads_at t v p \<longleftrightarrow> (\<forall>index pre post. length (pre @ p @ post) < 2 ^ 63 \<longrightarrow> index + 32 \<le> length (pre @ p @ post) \<longrightarrow>
     word_at index (pre @ p @ post) = abi_U256 (int (length pre)) \<longrightarrow> toGoType index t (pre @ p @ post) = Inr v)"

lemma reads_atI:
  "(\<And>index pre post. length (pre @ p @ post) < 2 ^ 63 \<Longrightarrow> index + 32 \<le> length (pre @ p @ post) \<Longrightarrow>
     word_at index (pre @ p @ post) = abi_U256 (int (length pre)) \<Longrightarrow> toGoType index t (pre @ p @ post) = Inr v) \<Longrightarrow> reads_at t v p"
  by (simp add: reads_at_def)

lemma text_pack:
  assumes "t = TString \<and> v = GString bs \<or> t = TBytes \<and> v = byte_slice bs"
  shows "\<exists>p. type_pack t v = Inr p \<and> length p mod 32 = 0 \<and> reads_at t v p"
proof -
  define p where "p = packBytesSlice bs (length bs)"
  have p: "p = abi_U256 (int (length bs)) @ RightPadBytes bs ((length bs + 31) div 32 * 32)"
    by (simp add: p_def packBytesSlice_def)
  have "length bs \<le> (length bs + 31) div 32 * 32" by linarith
  then have "length (RightPadBytes bs ((length bs + 31) div 32 * 32)) mod 32 = 0" by (simp add: max_absorb1)
  moreover have "toGoType index t (pre @ p @ post) = Inr v"
    if "length (pre @ p @ post) < 2 ^ 63" "index + 32 \<le> length (pre @ p @ post)"
      "word_at index (pre @ p @ post) = abi_U256 (int (length pre))" for index pre post
  proof -
    have "lengthPrefixPointsTo index (pre @ p @ post) = Inr (length pre + 32, length bs)"
      using that by (intro lengthPrefix_at [of _ _ _ _ "RightPadBytes bs ((length bs + 31) div 32 * 32)" post]) (simp_all add: p)
    moreover have "take (length bs) (drop (length pre + 32) (pre @ p @ post)) = bs" by (simp add: p take_RightPad)
    ultimately show ?thesis using that(2) assms by auto
  qed
  moreover have "type_pack t v = Inr p" using assms by (auto simp: p_def)
  ultimately show ?thesis by (auto simp: reads_at_def p)
qed


lemma static_size_mod: "static_ty t \<Longrightarrow> getFullElemSize t mod 32 = 0"
  by (induction t) (auto simp: mod_mult_right_eq [symmetric])

lemma slice_pack:
  assumes "arg_ok (TSlice e) v"
  shows "\<exists>p. type_pack (TSlice e) v = Inr p \<and> length p mod 32 = 0 \<and> reads_at (TSlice e) v p"
proof -
  obtain vs where v: "v = GSeq False (ty_kind e) vs" "list_all (val_ok e) vs" "static_ty e" "is_array e \<longrightarrow> vs \<noteq> []"
    using assms by (auto simp: seq_elems_def split: go_val.splits)
  let ?m = "getFullElemSize e"
  obtain ps where ps: "rmap (type_pack e) vs = Inr ps" "length (concat ps) = length vs * ?m"
      "\<And>pre post. rmap (\<lambda>j. toGoType (length pre + j * ?m) e (pre @ concat ps @ post)) [0 ..< length vs] = Inr vs"
    using elements_pack [OF v(2) static_pack [OF _ v(3)]] by blast
  have long: "32 * length vs \<le> length (concat ps)" using static_size [OF v(3)] ps(2) by (simp add: mult.commute)
  moreover have "(length vs + 31) div 32 * 32 \<le> 32 * length vs" by (cases vs) auto
  ultimately have body: "packBytesSlice (concat ps) (length vs) = abi_U256 (int (length vs)) @ concat ps"
    by (simp add: packBytesSlice_def RightPadBytes_def)
  define p where "p = abi_U256 (int (length vs)) @ concat ps"
  have "sliceTypeCheck None e v = Inr ()" using v by (auto simp del: sliceTypeCheck.simps intro!: static_typeCheck_elems)
  then have "type_pack (TSlice e) v = Inr p" using v(1) ps(1) body by (simp add: seq_elems_def val_len_def p_def del: sliceTypeCheck.simps)
  moreover have "length p mod 32 = 0" using static_size_mod [OF v(3)] ps(2) by (auto simp: p_def)
  moreover have "reads_at (TSlice e) v p"
  proof (rule reads_atI)
    fix index pre post
    assume that: "length (pre @ p @ post) < 2 ^ 63" "index + 32 \<le> length (pre @ p @ post)"
      "word_at index (pre @ p @ post) = abi_U256 (int (length pre))"
    have "lengthPrefixPointsTo index (pre @ p @ post) = Inr (length pre + 32, length vs)"
      using that long by (intro lengthPrefix_at [of _ _ _ _ "concat ps" post]) (simp_all add: p_def)
    moreover have "rmap (\<lambda>j. toGoType (length pre + 32 + j * ?m) e (pre @ p @ post)) [0 ..< length vs] = Inr vs"
      using ps(3) [of "pre @ abi_U256 (int (length vs))" post] by (simp add: p_def)
    moreover have "length pre + 32 + 32 * length vs \<le> length (pre @ p @ post)" using long by (simp add: p_def)
    ultimately show "toGoType index (TSlice e) (pre @ p @ post) = Inr v" using that(2) v(1) by simp
  qed
  ultimately show ?thesis by (intro exI [of _ p] conjI)
qed

lemma dynamic_pack:
  assumes "arg_ok t v" "requiresLengthPrefix t"
  shows "\<exists>p. type_pack t v = Inr p \<and> length p mod 32 = 0 \<and> reads_at t v p"
proof (cases t)
  case TString
  then show ?thesis using assms text_pack [of t v] by (auto split: go_val.splits)
next
  case TBytes
  then show ?thesis using assms text_pack [of t v "val_bytes v"] by auto
next
  case (TSlice e)
  then show ?thesis using assms slice_pack by blast
qed (use assms in auto)

subsection \<open>Argument lists\<close>

definition head_size :: "(Argument \<times> go_val) list \<Rightarrow> nat" where
  "head_size items = sum_list (map (\<lambda>(a, v). getFullElemSize (at_ty (ar_Type a))) items)"

definition slots_of :: "abi_ty \<Rightarrow> nat" where
  "slots_of t = (case t of TArray _ _ \<Rightarrow> getArraySize t | _ \<Rightarrow> 1)"

lemma slots_of_size: "32 * slots_of t = getFullElemSize t"
  by (induction t) (auto simp: slots_of_def split: abi_ty.splits)

lemma arg_static: "arg_ok t v \<Longrightarrow> \<not> requiresLengthPrefix t \<Longrightarrow> val_ok t v \<and> static_ty t"
  by (cases t) auto

lemma unpack_step:
  assumes "toGoType (length ret) t out = Inr v" "length ret mod 32 = 0" "at_ty (ar_Type a) = t"
    "unpack_loop (int ((length ret + getFullElemSize t) div 32)) args out = Inr vs"
  shows "unpack_loop (int (length ret div 32)) (a # args) out = Inr (v # vs)"
proof -
  have "(case t of TArray _ _ \<Rightarrow> int (getArraySize t) | _ \<Rightarrow> 1) = int (slots_of t)" by (cases t) (simp_all add: slots_of_def)
  then have "int (length ret div 32) + (case t of TArray _ _ \<Rightarrow> int (getArraySize t) | _ \<Rightarrow> 1) = int ((length ret + getFullElemSize t) div 32)"
    by (simp flip: slots_of_size)
  moreover have "nat (int (length ret div 32)) * 32 = length ret" using assms(2) by (simp add: mod_0_imp_dvd)
  ultimately show ?thesis using assms by (simp add: Let_def del: toGoType.simps)
qed


text \<open>The state of the packing loop: \<open>ret\<close> holds the heads so far and \<open>var\<close> the values behind them. The items left are
  packed so that the whole output reads back, when the offset of the values is where the heads end.\<close>

lemma pack_loop_reads:
  assumes "\<forall>(a, v) \<in> set items. arg_ok (at_ty (ar_Type a)) v"
    "(\<exists>(a, v) \<in> set items. requiresLengthPrefix (at_ty (ar_Type a))) \<longrightarrow> length ret + head_size items = off"
    "length ret mod 32 = 0" "length var mod 32 = 0"
  shows "\<exists>H V. pack_loop off items ret var = Inr (ret @ H @ var @ V) \<and> length H = head_size items
     \<and> length (ret @ H @ var @ V) mod 32 = 0
     \<and> (length (ret @ H @ var @ V) < 2 ^ 63 \<longrightarrow>
        unpack_loop (int (length ret div 32)) (map fst items) (ret @ H @ var @ V) = Inr (map snd items))"
  using assms
proof (induction items arbitrary: ret var)
  case Nil
  then show ?case by (auto simp: head_size_def intro!: exI [of _ "[]"])
next
  case (Cons item items)
  obtain a v where item: "item = (a, v)" by (cases item)
  let ?t = "at_ty (ar_Type a)"
  have ok: "arg_ok ?t v" "\<forall>(a, v) \<in> set items. arg_ok (at_ty (ar_Type a)) v" using Cons.prems(1) item by auto
  have hs: "head_size (item # items) = getFullElemSize ?t + head_size items" by (simp add: head_size_def item)
  show ?case
  proof (cases "requiresLengthPrefix ?t")
    case False
    obtain p where p: "type_pack ?t v = Inr p" "length p = getFullElemSize ?t" "reads_back ?t v p"
      using static_pack [of ?t v] arg_static [OF ok(1) False] by metis
    have "length (ret @ p) mod 32 = 0"
      using Cons.prems(3) p(2) static_size_mod [of ?t] arg_static [OF ok(1) False] by auto
    then obtain H V where IH: "pack_loop off items (ret @ p) var = Inr (ret @ p @ H @ var @ V)" "length H = head_size items"
        "length (ret @ p @ H @ var @ V) mod 32 = 0"
        "length (ret @ p @ H @ var @ V) < 2 ^ 63 \<longrightarrow>
         unpack_loop (int (length (ret @ p) div 32)) (map fst items) (ret @ p @ H @ var @ V) = Inr (map snd items)"
      using Cons.IH [OF ok(2), of "ret @ p" var] Cons.prems(2,4) item hs p(2) by auto
    have "toGoType (length ret) ?t (ret @ p @ H @ var @ V) = Inr v" using p(3) by (simp only: reads_back_def)
    then have "length (ret @ p @ H @ var @ V) < 2 ^ 63 \<longrightarrow>
         unpack_loop (int (length ret div 32)) (a # map fst items) (ret @ p @ H @ var @ V) = Inr (v # map snd items)"
      using unpack_step [of ret ?t "ret @ p @ H @ var @ V" v a "map fst items" "map snd items"] Cons.prems(3) IH(4) p(2) by simp
    then show ?thesis
      using IH(1-3) p(1,2) False item hs by (intro exI [of _ "p @ H"] exI [of _ V]) simp
  next
    case True
    obtain p where p: "type_pack ?t v = Inr p" "length p mod 32 = 0" "reads_at ?t v p"
      using dynamic_pack [OF ok(1) True] by metis
    let ?u = "abi_U256 (int (off + length var))"
    have sz: "getFullElemSize ?t = 32" using True by (cases ?t) auto
    have off: "length ret + 32 + head_size items = off" using Cons.prems(2) True item hs sz by auto
    have "length (ret @ ?u) mod 32 = 0" "length (var @ p) mod 32 = 0" using Cons.prems(3,4) p(2) by auto
    then obtain H V where IH: "pack_loop off items (ret @ ?u) (var @ p) = Inr (ret @ ?u @ H @ var @ p @ V)" "length H = head_size items"
        "length (ret @ ?u @ H @ var @ p @ V) mod 32 = 0"
        "length (ret @ ?u @ H @ var @ p @ V) < 2 ^ 63 \<longrightarrow>
         unpack_loop (int (length (ret @ ?u) div 32)) (map fst items) (ret @ ?u @ H @ var @ p @ V) = Inr (map snd items)"
      using Cons.IH [OF ok(2), of "ret @ ?u" "var @ p"] off by auto
    have "length (ret @ ?u @ H @ var) = off + length var" using IH(2) off by simp
    moreover have "word_at (length ret) (ret @ ?u @ H @ var @ p @ V) = ?u" by simp
    ultimately have "toGoType (length ret) ?t (ret @ ?u @ H @ var @ p @ V) = Inr v" if "length (ret @ ?u @ H @ var @ p @ V) < 2 ^ 63"
      using p(3) [unfolded reads_at_def, rule_format, of "ret @ ?u @ H @ var" V "length ret"] that
      by (simp only: append_assoc length_append length_U256)
    then have "length (ret @ ?u @ H @ var @ p @ V) < 2 ^ 63 \<longrightarrow>
         unpack_loop (int (length ret div 32)) (a # map fst items) (ret @ ?u @ H @ var @ p @ V) = Inr (v # map snd items)"
      using unpack_step [of ret ?t "ret @ ?u @ H @ var @ p @ V" v a "map fst items" "map snd items"] Cons.prems(3) IH(4) sz by simp
    then show ?thesis
      using IH(1-3) p(1) True item hs sz by (intro exI [of _ "?u @ H"] exI [of _ "p @ V"]) simp
  qed
qed


definition flat_ty :: "abi_ty \<Rightarrow> bool" where
  "flat_ty t \<longleftrightarrow> (case t of TArray n e \<Rightarrow> \<not> is_array e | _ \<Rightarrow> True)"

definition layout_ok :: "Argument list \<Rightarrow> bool" where
  "layout_ok arguments \<longleftrightarrow> list_all (\<lambda>a. flat_ty (at_ty (ar_Type a))) arguments
     \<or> list_all (\<lambda>a. \<not> requiresLengthPrefix (at_ty (ar_Type a))) arguments"

lemma flat_offset: "flat_ty t \<Longrightarrow> (case t of TArray n e \<Rightarrow> off + 32 * n | _ \<Rightarrow> off + 32) = off + getFullElemSize t"
proof (cases t)
  case (TArray n e)
  then show "flat_ty t \<Longrightarrow> ?thesis" by (cases e) (simp_all add: flat_ty_def)
qed simp_all

lemma inputOffset_flat:
  "list_all (\<lambda>a. flat_ty (at_ty (ar_Type a))) arguments \<Longrightarrow> length args = length arguments \<Longrightarrow>
   inputOffset_of arguments = head_size (zip arguments args)"
proof -
  have "fold (\<lambda>a off. case at_ty (ar_Type a) of TArray n e \<Rightarrow> off + 32 * n | _ \<Rightarrow> off + 32) arguments k = k + head_size (zip arguments args)"
    if "list_all (\<lambda>a. flat_ty (at_ty (ar_Type a))) arguments" "length args = length arguments" for k
    using that(2,1) by (induction args arguments arbitrary: k rule: list_induct2) (simp_all add: flat_offset head_size_def)
  then show "list_all (\<lambda>a. flat_ty (at_ty (ar_Type a))) arguments \<Longrightarrow> length args = length arguments \<Longrightarrow> ?thesis"
    by (simp add: inputOffset_of_def)
qed

lemma arguments_read_back:
  assumes "list_all2 (\<lambda>a v. arg_ok (at_ty (ar_Type a)) v) arguments args"
    "list_all (\<lambda>a. \<not> ar_Indexed a) arguments" "layout_ok arguments"
  shows "\<exists>data. Arguments_Pack arguments args = Inr data \<and> length data mod 32 = 0
           \<and> (length data < 2 ^ 63 \<longrightarrow> UnpackValues arguments data = Inr args)"
proof -
  let ?items = "zip arguments args"
  have len: "length args = length arguments" using assms(1) by (simp add: list_all2_lengthD)
  have "\<forall>(a, v) \<in> set ?items. arg_ok (at_ty (ar_Type a)) v" using assms(1) by (simp add: list_all2_iff)
  moreover have "(\<exists>(a, v) \<in> set ?items. requiresLengthPrefix (at_ty (ar_Type a))) \<longrightarrow> head_size ?items = inputOffset_of arguments"
    using assms(3) inputOffset_flat [OF _ len] by (auto simp: layout_ok_def list_all_iff dest: set_zip_leftD)
  ultimately obtain H V where H: "pack_loop (inputOffset_of arguments) ?items [] [] = Inr (H @ V)" "length (H @ V) mod 32 = 0"
      "length (H @ V) < 2 ^ 63 \<longrightarrow> unpack_loop 0 (map fst ?items) (H @ V) = Inr (map snd ?items)"
    using pack_loop_reads [of ?items "[]" "inputOffset_of arguments" "[]"] by auto
  moreover have "NonIndexed arguments = arguments" using assms(2) by (simp add: NonIndexed_def list_all_iff)
  ultimately show ?thesis using len by (intro exI [of _ "H @ V"]) (simp add: Arguments_Pack_def UnpackValues_def)
qed


text \<open>
  Claim C11: what \<open>Arguments.Pack\<close> writes, \<open>UnpackValues\<close> reads back, for arguments that are not indexed and values that fit their types: static values, texts, byte strings
  and slices of static values. Packing succeeds, the output is a whole number of words, and, when it is shorter than \<open>2 ^ 63\<close> bytes, reading it gives the same list of values.
  Integers that need a \<open>big.Int\<close> are not negative (a negative one is misread, \<open>negative_big_misread\<close>), arrays have elements, and a slice of arrays is not
  empty (packing panics, \<open>empty_slice_of_arrays_panics\<close>). Either no argument has an offset, and then arrays may be nested to any depth, or no argument is itself an array of
  arrays (beside an argument with an offset such an array is misplaced, \<open>nested_array_offset\<close>).
\<close>

theorem abi_roundtrip:
  assumes "list_all2 (\<lambda>a v. arg_ok (at_ty (ar_Type a)) v) arguments args"
    "list_all (\<lambda>a. \<not> ar_Indexed a) arguments" "layout_ok arguments"
  shows "\<exists>data. Arguments_Pack arguments args = Inr data \<and> length data mod 32 = 0
           \<and> (length data < 2 ^ 63 \<longrightarrow> UnpackValues arguments data = Inr args)"
  using assms by (rule arguments_read_back)

definition arg_of :: "string \<Rightarrow> abi_ty \<Rightarrow> Argument" where
  "arg_of name t = \<lparr>ar_Name = name, ar_Type = \<lparr>at_ty = t, at_stringKind = ''''\<rparr>, ar_Indexed = False\<rparr>"

definition demo_arguments :: "Argument list" where
  "demo_arguments = [arg_of ''addresses'' (TArray 2 (TUint 256)), arg_of ''symbol'' TString,
     arg_of ''marginSplit'' (TInt 8), arg_of ''vList'' (TSlice (TArray 2 (TUint 8)))]"

definition demo_values :: "go_val list" where
  "demo_values = [GSeq True Kptr [GBig 7, GBig 300], GString [76, 82, 67], GInt (Kint 8) (- 5),
     GSeq False Karray [GSeq True (Kuint 8) [GInt (Kuint 8) 27, GInt (Kuint 8) 28]]]"

lemmas demo_simps = demo_arguments_def demo_values_def arg_of_def

theorem abi_roundtrip_witness:
  "rbind (Arguments_Pack demo_arguments demo_values) (UnpackValues demo_arguments) = Inr demo_values"
proof -
  have "list_all2 (\<lambda>a v. arg_ok (at_ty (ar_Type a)) v) demo_arguments demo_values"
    by (simp add: demo_simps int_ok_def reflectIntKindAndType_def seq_elems_def)
  moreover have "list_all (\<lambda>a. \<not> ar_Indexed a) demo_arguments" "layout_ok demo_arguments"
    by (simp_all add: demo_simps layout_ok_def flat_ty_def)
  moreover have "case Arguments_Pack demo_arguments demo_values of Inr data \<Rightarrow> length data < 2 ^ 63 | Inl e \<Rightarrow> False"
    by (simp add: demo_simps Arguments_Pack_def seq_elems_def val_len_def packNum_def packBytesSlice_def reflectIntKindAndType_def)
  ultimately show ?thesis using abi_roundtrip [of demo_arguments demo_values] by auto
qed


subsection \<open>Reading any data\<close>








subsection \<open>Where packing and reading differ\<close>

text \<open>A negative number of a width that Go has no type for is read as a positive one.\<close>

lemma negative_big_misread:
  assumes "- (2 ^ 255) \<le> x" "x < 0" "reflectIntKindAndType False n = Kptr"
  shows "\<exists>p. type_pack (TInt n) (GBig x) = Inr p \<and> toGoType 0 (TInt n) p = Inr (GBig (x + 2 ^ 256))"
proof -
  have "(x + 2 ^ 256) mod 2 ^ 256 = x + 2 ^ 256"
    using assms(1,2) by (intro mod_pos_pos_trivial) simp_all
  then have "x mod 2 ^ 256 = x + 2 ^ 256" by simp
  then show ?thesis using assms
    by (simp add: packNum_def readInteger_def word_at_def big_SetBytes_def be_val_U256)
qed

text \<open>An empty slice of arrays is refused by a panic, and so is a type without letters.\<close>

lemma empty_slice_of_arrays_panics: "type_pack (TSlice (TArray n e)) (GSeq False Karray []) = Inl (Panic IndexOutOfRange)"
  by simp

lemma type_without_letters_panics: "NewType ''256'' = Inl (Panic IndexOutOfRange)" "NewType '''' = Inl (Panic IndexOutOfRange)"
  by (simp_all add: NewType_def parse_ty.simps base_type_def typeRegex_match_def is_letter_def)

text \<open>The offsets do not count the inner size of an array of arrays: the text behind one is not read back.\<close>

lemma nested_array_offset:
  "rbind (Arguments_Pack [arg_of ''m'' (TArray 1 (TArray 2 (TUint 256))), arg_of ''s'' TString]
            [GSeq True Karray [GSeq True Kptr [GBig 0, GBig 0]], GString [76]])
     (UnpackValues [arg_of ''m'' (TArray 1 (TArray 2 (TUint 256))), arg_of ''s'' TString])
   \<noteq> Inr [GSeq True Karray [GSeq True Kptr [GBig 0, GBig 0]], GString [76]]"
  by (simp add: arg_of_def Arguments_Pack_def UnpackValues_def NonIndexed_def inputOffset_of_def seq_elems_def packNum_def
      reflectIntKindAndType_def lengthPrefixPointsTo_def packBytesSlice_def Let_def be_val_U256 RightPadBytes_def)
    (auto dest: arg_cong [of _ _ length])

subsection \<open>The text of a type\<close>

fun ty_text :: "abi_ty \<Rightarrow> string" where
  "ty_text (TInt n) = ''int'' @ dec_of_nat n"
| "ty_text (TUint n) = ''uint'' @ dec_of_nat n"
| "ty_text TBool = ''bool''"
| "ty_text TString = ''string''"
| "ty_text (TSlice e) = ty_text e @ ''[]''"
| "ty_text (TArray n e) = ty_text e @ ''['' @ dec_of_nat n @ '']''"
| "ty_text TAddress = ''address''"
| "ty_text (TFixedBytes n) = ''bytes'' @ dec_of_nat n"
| "ty_text TBytes = ''bytes''"
| "ty_text TFunction = ''function''"

fun sizes_ok :: "abi_ty \<Rightarrow> bool" where
  "sizes_ok (TInt n) \<longleftrightarrow> n < 2 ^ 63"
| "sizes_ok (TUint n) \<longleftrightarrow> n < 2 ^ 63"
| "sizes_ok (TFixedBytes n) \<longleftrightarrow> 0 < n \<and> n < 2 ^ 63"
| "sizes_ok (TSlice e) \<longleftrightarrow> sizes_ok e"
| "sizes_ok (TArray n e) \<longleftrightarrow> n < 2 ^ 63 \<and> sizes_ok e"
| "sizes_ok _ \<longleftrightarrow> True"

lemma dec_of_nat_is_digit: "list_all is_digit (dec_of_nat n)"
  using dec_of_nat_digits by (auto simp: list_all_iff is_digit_def)

lemma strconv_Atoi_dec: "n < 2 ^ 63 \<Longrightarrow> strconv_Atoi (dec_of_nat n) = Inr n"
  using dec_of_nat_is_digit by (simp add: strconv_Atoi_def)

lemma digit_not_letter: "is_digit c \<Longrightarrow> \<not> is_letter c" "is_digit c \<Longrightarrow> c \<noteq> CHR ''[''" "is_digit c \<Longrightarrow> c \<noteq> CHR '']''"
  by (auto simp: is_digit_def is_letter_def digit_of_def Let_def split: if_splits)

lemma takeWhile_none: "list_all (\<lambda>c. \<not> P c) s \<Longrightarrow> takeWhile P s = [] \<and> dropWhile P s = s"
  by (cases s) auto

lemma typeRegex_base:
  assumes "list_all is_letter s" "s \<noteq> []" "list_all is_digit d"
  shows "typeRegex_match (s @ d) = Some (s @ d, s, d, d)"
proof -
  have 1: "dropWhile (\<lambda>c. \<not> is_letter c) (s @ d) = s @ d" using assms(1,2) by (cases s) auto
  have "list_all (\<lambda>c. \<not> is_letter c) d" using assms(3) by (auto simp: list_all_iff dest: digit_not_letter)
  then have 2: "takeWhile is_letter (s @ d) = s" "dropWhile is_letter (s @ d) = d"
    using assms(1) by (simp_all add: takeWhile_append2 dropWhile_append2 takeWhile_none list_all_iff)
  have 3: "takeWhile is_digit d = d" "dropWhile is_digit d = []"
    using assms(3) by (simp_all add: takeWhile_eq_all_conv dropWhile_eq_Nil_conv list_all_iff)
  show ?thesis using assms(2) by (simp add: typeRegex_match_def Let_def 1 2 3)
qed


lemma parse_no_bracket: "CHR ''['' \<notin> set t \<Longrightarrow> CHR '']'' \<notin> set t \<Longrightarrow> parse_ty t = base_type t"
  by (subst parse_ty.simps) (simp add: count_list_0_iff [THEN iffD2])

definition base_of :: "string \<Rightarrow> nat \<Rightarrow> string \<Rightarrow> abi_ty res" where
  "base_of varType varSize t =
    (if varType = ''int'' then Inr (TInt varSize)
     else if varType = ''uint'' then Inr (TUint varSize)
     else if varType = ''bool'' then Inr TBool
     else if varType = ''address'' then Inr TAddress
     else if varType = ''string'' then Inr TString
     else if varType = ''bytes'' then Inr (if varSize = 0 then TBytes else TFixedBytes varSize)
     else if varType = ''function'' then Inr TFunction
     else Inl (Err (''unsupported arg type: '' @ t)))"

lemma parse_base:
  assumes "list_all is_letter s" "s \<noteq> []" "list_all is_digit d"
  shows "parse_ty (s @ d) = rbind (if d \<noteq> [] then strconv_Atoi d else if s = ''uint'' \<or> s = ''int''
     then Inl (Err (''unsupported arg type: '' @ s @ d)) else Inr 0) (\<lambda>varSize. base_of s varSize (s @ d))"
proof -
  have "\<not> is_letter (CHR ''['')" "\<not> is_letter (CHR '']'')" "\<not> is_digit (CHR ''['')" "\<not> is_digit (CHR '']'')"
    by (simp_all add: is_letter_def is_digit_def digit_of_def)
  then have "CHR ''['' \<notin> set (s @ d)" "CHR '']'' \<notin> set (s @ d)" using assms(1,3) by (auto simp: list_all_iff)
  then have "parse_ty (s @ d) = base_type (s @ d)" by (rule parse_no_bracket)
  then show ?thesis by (simp only: base_type_def typeRegex_base [OF assms] base_of_def) simp
qed

lemma letters [simp]: "list_all is_letter ''int''" "list_all is_letter ''uint''" "list_all is_letter ''bytes''"
  "list_all is_letter ''bool''" "list_all is_letter ''string''" "list_all is_letter ''address''" "list_all is_letter ''function''"
  by (simp_all add: is_letter_def)

lemma base_text:
  assumes "\<not> is_array t" "\<forall>e. t \<noteq> TSlice e" "sizes_ok t"
  shows "parse_ty (ty_text t) = Inr t"
proof -
  note sized = parse_base [OF letters(1) _ dec_of_nat_is_digit] parse_base [OF letters(2) _ dec_of_nat_is_digit]
    parse_base [OF letters(3) _ dec_of_nat_is_digit]
  have plain: "parse_ty s = rbind (if s = ''uint'' \<or> s = ''int'' then Inl (Err (''unsupported arg type: '' @ s)) else Inr 0)
      (\<lambda>varSize. base_of s varSize s)" if "list_all is_letter s" "s \<noteq> []" for s
    using parse_base [OF that, of "[]"] by simp
  show ?thesis
    using assms sized by (cases t) (simp_all add: plain base_of_def strconv_Atoi_dec is_letter_def)
qed

lemma last_bracket_append:
  "list_all (\<lambda>c. c \<noteq> CHR ''['') d \<Longrightarrow> last_bracket (s @ CHR ''['' # d) = (s, CHR ''['' # d)"
proof -
  assume "list_all (\<lambda>c. c \<noteq> CHR ''['') d"
  then have "takeWhile (\<lambda>c. c \<noteq> CHR ''['') (rev d @ CHR ''['' # rev s) = rev d"
    by (subst takeWhile_append2) (simp_all add: list_all_iff)
  then show "last_bracket (s @ CHR ''['' # d) = (s, CHR ''['' # d)" by (simp add: last_bracket_def)
qed


lemma digit_runs_bracket:
  "list_all is_digit d \<Longrightarrow> digit_runs (d @ '']'') run = (if run @ d = [] then [] else [run @ d])"
  by (induction d arbitrary: run) (auto simp: is_digit_def digit_of_def)

lemma ty_text_brackets: "sizes_ok t \<Longrightarrow> count_list (ty_text t) (CHR ''['') = count_list (ty_text t) (CHR '']'')"
proof -
  have "count_list (dec_of_nat n) (CHR ''['') = 0 \<and> count_list (dec_of_nat n) (CHR '']'') = 0" for n
    using dec_of_nat_is_digit [of n] by (auto simp: count_list_0_iff list_all_iff dest: digit_not_letter(2,3))
  then show "count_list (ty_text t) (CHR ''['') = count_list (ty_text t) (CHR '']'')" by (induction t) auto
qed

lemma parse_bracket:
  assumes "list_all is_digit d" "count_list s (CHR ''['') = count_list s (CHR '']'')"
  shows "parse_ty (s @ ''['' @ d @ '']'') = rbind (parse_ty s) (\<lambda>e. if d = [] then Inr (TSlice e)
     else rbind (strconv_Atoi d) (\<lambda>n. Inr (TArray n e)))"
proof -
  have nb: "CHR ''['' \<notin> set d" "CHR '']'' \<notin> set d" using assms(1) by (auto simp: list_all_iff dest: digit_not_letter(2,3))
  have lb: "last_bracket (s @ ''['' @ d @ '']'') = (s, ''['' @ d @ '']'')"
    using last_bracket_append [of "d @ '']''" s] nb by (auto simp: list_all_iff)
  have dr: "digit_runs (''['' @ d @ '']'') [] = (if d = [] then [] else [d])"
    using digit_runs_bracket [OF assms(1), of "[]"] by (simp add: is_digit_def digit_of_def)
  have "count_list (s @ ''['' @ d @ '']'') (CHR ''['') = count_list (s @ ''['' @ d @ '']'') (CHR '']'')"
    using assms(2) nb by (simp add: count_list_0_iff [THEN iffD2])
  then have "parse_ty (s @ ''['' @ d @ '']'') = rbind (parse_ty (fst (last_bracket (s @ ''['' @ d @ '']'')))) (\<lambda>e.
      case digit_runs (snd (last_bracket (s @ ''['' @ d @ '']''))) [] of
        [] \<Rightarrow> Inr (TSlice e) | [intz] \<Rightarrow> rbind (strconv_Atoi intz) (\<lambda>n. Inr (TArray n e))
      | _ \<Rightarrow> Inl (Err ''invalid formatting of array type''))"
    by (subst parse_ty.simps) simp
  then show ?thesis by (simp only: lb dr fst_conv snd_conv) (cases d, simp_all)
qed

lemma parse_ty_text: "sizes_ok t \<Longrightarrow> parse_ty (ty_text t) = Inr t"
proof (induction t)
  case (TSlice e)
  then show ?case using parse_bracket [of "[]" "ty_text e"] ty_text_brackets [of e] by simp
next
  case (TArray n e)
  then show ?case
    using parse_bracket [OF dec_of_nat_is_digit, of "ty_text e" n] ty_text_brackets [of e] by (simp add: strconv_Atoi_dec)
qed (simp_all add: base_text del: ty_text.simps)

text \<open>
  \<open>NewType\<close> reads the text of every ABI type, brackets nested to any depth, and gives back the type the text was
  written for, with the text kept for the signature.
\<close>

theorem NewType_text:
  assumes "sizes_ok t"
  shows "NewType (ty_text t) = Inr \<lparr>at_ty = t, at_stringKind = ty_text t\<rparr>"
  using parse_ty_text [OF assms] by (simp add: NewType_def)

theorem NewType_text_witness:
  "NewType ''uint256[2][]'' = Inr \<lparr>at_ty = TSlice (TArray 2 (TUint 256)), at_stringKind = ''uint256[2][]''\<rparr>"
proof -
  have "ty_text (TSlice (TArray 2 (TUint 256))) = ''uint256[2][]''" by (simp add: dec_of_nat.simps decdig_def char_of_eq_iff)
  moreover have "sizes_ok (TSlice (TArray 2 (TUint 256)))" by simp
  ultimately show ?thesis using NewType_text [of "TSlice (TArray 2 (TUint 256))"] by (simp only:)
qed

end
