(* ===== verification/Abi_Unpack.thy ===== *)
theory Abi_Unpack
  imports Abi_Roundtrip
begin

section \<open>Unpacking into Go structs (\<open>argument.go\<close>, \<open>reflect.go\<close>)\<close>

text \<open>
  The values read from the data and the topics of a log, or from the input of a method, are stored by
  reflection into the fields of a struct, found by the tag \<open>fieldId\<close>. A struct is the list of its field
  types and tags, with the list of the values stored so far, \<open>None\<close> for the zero value. Slices and arrays as
  targets, which no caller of the library passes, are left out.
\<close>

subsection \<open>Go types of fields\<close>

text \<open>Go's \<open>int\<close> is a type of its own, which is none of the sized ones.\<close>

datatype go_ty = GTkind go_kind | GTint | GTbig | GTaddress | GThash | GTarr nat go_ty | GTslice go_ty

definition int_go :: "go_kind \<Rightarrow> go_ty" where
  "int_go k = (if k = Kptr then GTbig else GTkind k)"

fun ty_go :: "abi_ty \<Rightarrow> go_ty" where
  "ty_go (TInt n) = int_go (reflectIntKindAndType False n)"
| "ty_go (TUint n) = int_go (reflectIntKindAndType True n)"
| "ty_go TBool = GTkind Kbool"
| "ty_go TString = GTkind Kstring"
| "ty_go (TSlice e) = GTslice (ty_go e)"
| "ty_go (TArray n e) = GTarr n (ty_go e)"
| "ty_go TAddress = GTaddress"
| "ty_go (TFixedBytes n) = GTarr n (GTkind (Kuint 8))"
| "ty_go TBytes = GTslice (GTkind (Kuint 8))"
| "ty_go TFunction = GTarr 24 (GTkind (Kuint 8))"

text \<open>Types are assignable when they are the same, or when one of them has no name and they have the same underlying type.\<close>

fun underlying :: "go_ty \<Rightarrow> go_ty" where
  "underlying GTaddress = GTarr 20 (GTkind (Kuint 8))"
| "underlying GThash = GTarr 32 (GTkind (Kuint 8))"
| "underlying t = t"

definition AssignableTo :: "go_ty \<Rightarrow> go_ty \<Rightarrow> bool" where
  "AssignableTo a b \<longleftrightarrow> a = b \<or> underlying a = underlying b \<and> (underlying a = a \<or> underlying b = b)"

record struct_field =
  sf_type :: go_ty
  sf_fieldId :: string

definition fieldId :: "struct_field \<Rightarrow> nat" where
  "fieldId f = (case strconv_Atoi (sf_fieldId f) of Inr n \<Rightarrow> n | Inl e \<Rightarrow> 0)"

type_synonym store = "go_val option list"

text \<open>\<open>set\<close>: the only pointers among the fields are those to big integers. One that does not take the value is
  dereferenced, which panics when it is \<open>nil\<close> and is refused otherwise.\<close>

definition set_field :: "struct_field \<Rightarrow> nat \<Rightarrow> store \<Rightarrow> abi_ty \<Rightarrow> go_val \<Rightarrow> store res" where
  "set_field f j st t v =
    (if AssignableTo (sf_type f) (ty_go t) then Inr (st[j := Some v])
     else if sf_type f = GTbig \<and> st ! j = None then Inl (Panic NilDeref)
     else Inl (Err ''abi: cannot unmarshal''))"

subsection \<open>Tuples, single values and topics\<close>

fun check_names :: "Argument list \<Rightarrow> string list \<Rightarrow> unit res" where
  "check_names [] seen = Inr ()"
| "check_names (arg # args) seen =
    (let field = capitalise (ar_Name arg) in
     if field = '''' then Inl (Err ''abi: purely underscored output cannot unpack to struct'')
     else if field \<in> set seen then Inl (Err ''abi: multiple outputs mapping to the same struct field'')
     else check_names args (field # seen))"

text \<open>The search for the field of value \<open>i\<close>: \<open>indexCnt\<close> counts the indexed arguments up to field \<open>j\<close>; a struct with more
  fields than there are arguments runs past the arguments.\<close>

fun find_field :: "struct_field list \<Rightarrow> Argument list \<Rightarrow> nat \<Rightarrow> nat \<Rightarrow> nat \<Rightarrow> (nat \<times> struct_field) option res" where
  "find_field [] arguments j indexCnt i = Inr None"
| "find_field (f # fs) [] j indexCnt i = Inl (Panic IndexOutOfRange)"
| "find_field (f # fs) (arg # args) j indexCnt i =
    (let indexCnt = (if ar_Indexed arg then indexCnt + 1 else indexCnt) in
     if fieldId f = indexCnt + i then Inr (Some (j, f)) else find_field fs args (j + 1) indexCnt i)"

fun tuple_loop :: "struct_field list \<Rightarrow> Argument list \<Rightarrow> (Argument \<times> go_val) list \<Rightarrow> nat \<Rightarrow> store \<Rightarrow> store res" where
  "tuple_loop fs arguments [] i st = Inr st"
| "tuple_loop fs arguments ((arg, v) # rest) i st =
    rbind (find_field fs arguments 0 0 i) (\<lambda>found.
    rbind (case found of Some (j, f) \<Rightarrow> set_field f j st (at_ty (ar_Type arg)) v | None \<Rightarrow> Inr st) (\<lambda>st.
    tuple_loop fs arguments rest (i + 1) st))"

definition unpackTuple :: "struct_field list \<Rightarrow> Argument list \<Rightarrow> go_val list \<Rightarrow> store \<Rightarrow> store res" where
  "unpackTuple fs arguments marshalledValues st =
     rbind (check_names arguments []) (\<lambda>_. tuple_loop fs arguments (zip (NonIndexed arguments) marshalledValues) 0 st)"

definition unpackAtomic :: "struct_field list \<Rightarrow> Argument list \<Rightarrow> go_val list \<Rightarrow> store \<Rightarrow> store res" where
  "unpackAtomic fs arguments marshalledValues st =
    (case (marshalledValues, fs) of
       ([v], [f]) \<Rightarrow> set_field f 0 st (at_ty (ar_Type (NonIndexed arguments ! 0))) v
     | _ \<Rightarrow> Inl (Err ''abi: wrong length, atomic unpacking''))"

definition Arguments_Unpack :: "struct_field list \<Rightarrow> Argument list \<Rightarrow> bytes \<Rightarrow> store \<Rightarrow> store res" where
  "Arguments_Unpack fs arguments data st =
     rbind (UnpackValues arguments data) (\<lambda>marshalledValues.
       if length arguments > 1 then unpackTuple fs arguments marshalledValues st
       else unpackAtomic fs arguments marshalledValues st)"

text \<open>\<open>unpackTopics\<close> stores by position, and a field that does not take the value panics. The first topic is the event's id.\<close>

fun topics_loop :: "struct_field list \<Rightarrow> nat \<Rightarrow> Argument list \<Rightarrow> bytes list \<Rightarrow> store \<Rightarrow> store res" where
  "topics_loop fs k [] topics st = Inr st"
| "topics_loop fs k (arg # args) topics st =
    (case topics of
       topic # rest \<Rightarrow>
         if ar_Indexed arg then
           rbind (toGoType 0 (at_ty (ar_Type arg)) topic) (\<lambda>v.
             if k < length fs \<and> AssignableTo (ty_go (at_ty (ar_Type arg))) (sf_type (fs ! k))
             then topics_loop fs (k + 1) args rest (st[k := Some v]) else Inl (Panic (Fatal ''reflect'')))
         else topics_loop fs (k + 1) args topics st
     | [] \<Rightarrow> Inr st)"

definition unpackTopics :: "struct_field list \<Rightarrow> Argument list \<Rightarrow> bytes list \<Rightarrow> store \<Rightarrow> store res" where
  "unpackTopics fs arguments decodedValues st =
    (if length decodedValues < 2 then Inl (Err ''abi, wrong length, event unpack topics, need at least 2 topic'')
     else topics_loop fs 0 arguments (tl decodedValues) st)"

definition ABI_UnpackMethod :: "ABI \<Rightarrow> struct_field list \<Rightarrow> string \<Rightarrow> bytes \<Rightarrow> store \<Rightarrow> store res" where
  "ABI_UnpackMethod abi fs name output st =
    (if length output mod 32 \<noteq> 0 then Inl (Err ''abi: improperly formatted output'')
     else case abi_Methods abi name of
         None \<Rightarrow> Inl (Err ''abi: could not locate named method or event'')
       | Some method \<Rightarrow> Arguments_Unpack fs (me_Inputs method) output st)"

definition wrap_err :: "string \<Rightarrow> 'a res \<Rightarrow> 'a res" where
  "wrap_err msg r = (case r of Inl (Err m) \<Rightarrow> Inl (Err (msg @ m)) | _ \<Rightarrow> r)"

lemma wrap_err_Inr [simp]: "wrap_err msg (Inr x) = Inr x"
  by (simp add: wrap_err_def)

definition ABI_UnpackEvent :: "ABI \<Rightarrow> struct_field list \<Rightarrow> string \<Rightarrow> bytes \<Rightarrow> bytes list \<Rightarrow> store \<Rightarrow> store res" where
  "ABI_UnpackEvent abi fs name output decodeValues st =
    (if length output = 0 \<and> length decodeValues = 0 then Inl (Err ''abi: unmarshalling empty output'')
     else case abi_Events abi name of
         None \<Rightarrow> Inl (Err ''abi: could not locate named method or event'')
       | Some event \<Rightarrow> rbind (wrap_err ''abi: format event indexed fields failed '' (unpackTopics fs (ev_Inputs event) decodeValues st))
                        (Arguments_Unpack fs (ev_Inputs event) output))"


subsection \<open>Every field gets its argument\<close>

definition fields_match :: "struct_field list \<Rightarrow> Argument list \<Rightarrow> bool" where
  "fields_match fs arguments \<longleftrightarrow> length fs = length arguments \<and>
     (\<forall>k < length fs. fieldId (fs ! k) = k \<and> AssignableTo (sf_type (fs ! k)) (ty_go (at_ty (ar_Type (arguments ! k)))))"

lemma AssignableTo_sym: "AssignableTo a b \<longleftrightarrow> AssignableTo b a"
  by (auto simp: AssignableTo_def)

type_synonym item = "Argument \<times> go_val"

definition indexed_items :: "item list \<Rightarrow> item list" where
  "indexed_items items = filter (\<lambda>(a, v). ar_Indexed a) items"

definition plain_items :: "item list \<Rightarrow> item list" where
  "plain_items items = filter (\<lambda>(a, v). \<not> ar_Indexed a) items"

lemma NonIndexed_items: "NonIndexed (map fst items) = map fst (plain_items items)"
  by (induction items) (auto simp: NonIndexed_def plain_items_def)

lemma topics_loop_Nil [simp]: "topics_loop fs k args [] st = Inr st"
  by (cases args) auto

text \<open>Topics go to the fields of the indexed arguments.\<close>

lemma topics_loop_places:
  assumes "list_all2 (\<lambda>(a, v) topic. toGoType 0 (at_ty (ar_Type a)) topic = Inr v) (indexed_items items) topics"
    "\<forall>k < length items. AssignableTo (ty_go (at_ty (ar_Type (fst (items ! k))))) (sf_type (fs ! (length pre + k)))"
    "length pre + length items \<le> length fs" "length st = length items"
  shows "topics_loop fs (length pre) (map fst items) topics (pre @ st)
    = Inr (pre @ map2 (\<lambda>(a, v) s. if ar_Indexed a then Some v else s) items st)"
  using assms
proof (induction items arbitrary: pre topics st)
  case (Cons item items)
  obtain a v where item: "item = (a, v)" by (cases item)
  obtain s st' where st: "st = s # st'" using Cons.prems(4) by (cases st) auto
  have rest: "\<forall>k < length items. AssignableTo (ty_go (at_ty (ar_Type (fst (items ! k))))) (sf_type (fs ! (length (pre @ [x]) + k)))" for x
    using Cons.prems(2) by force
  show ?case
  proof (cases "ar_Indexed a")
    case True
    then obtain topic topics' where t: "topics = topic # topics'" "toGoType 0 (at_ty (ar_Type a)) topic = Inr v"
        "list_all2 (\<lambda>(a, v) topic. toGoType 0 (at_ty (ar_Type a)) topic = Inr v) (indexed_items items) topics'"
      using Cons.prems(1) item by (auto simp: indexed_items_def list_all2_Cons1)
    then show ?thesis
      using Cons.IH [OF t(3) rest [of "Some v"], of st'] Cons.prems(2-4) True item st by (force simp: list_update_append)
  next
    case False
    then have t: "list_all2 (\<lambda>(a, v) topic. toGoType 0 (at_ty (ar_Type a)) topic = Inr v) (indexed_items items) topics"
      using Cons.prems(1) item by (simp add: indexed_items_def)
    have "topics_loop fs (Suc (length pre)) (map fst items) topics (pre @ s # st')
        = Inr (pre @ s # map2 (\<lambda>(a, v) s. if ar_Indexed a then Some v else s) items st')"
      using Cons.IH [OF t rest [of s], of st'] Cons.prems(3,4) st by simp
    then show ?thesis using False item st by (cases topics) auto
  qed
qed simp


text \<open>Value \<open>i\<close> of the data goes to the field of the argument before which there are \<open>i\<close> arguments that are not indexed.\<close>

lemma find_field_pos:
  assumes "\<not> ar_Indexed a" "length (NonIndexed xs) + d = i" "j = c + d"
    "length xs < length fs" "\<forall>m < length fs. fieldId (fs ! m) = j + m"
  shows "find_field fs (xs @ a # ys) j c i = Inr (Some (j + length xs, fs ! length xs))"
  using assms
proof (induction xs arbitrary: fs j c d)
  case Nil
  then obtain f fs' where fs: "fs = f # fs'" by (cases fs) auto
  then have "fieldId f = j" using Nil.prems(5) by force
  then show ?case using Nil fs by (simp add: NonIndexed_def Let_def)
next
  case (Cons x xs)
  then obtain f fs' where fs: "fs = f # fs'" by (cases fs) auto
  have f: "fieldId f = j" using Cons.prems(5) fs by force
  have rest: "\<forall>m < length fs'. fieldId (fs' ! m) = Suc j + m" using Cons.prems(5) fs by force
  show ?case
  proof (cases "ar_Indexed x")
    case True
    then have "find_field fs' (xs @ a # ys) (Suc j) (Suc c) i = Inr (Some (Suc j + length xs, fs' ! length xs))"
      using Cons.IH [of d "Suc j" "Suc c" fs'] Cons.prems fs rest by (simp add: NonIndexed_def)
    then show ?thesis using True f fs Cons.prems(2,3) by (simp add: Let_def NonIndexed_def)
  next
    case False
    then have "find_field fs' (xs @ a # ys) (Suc j) c i = Inr (Some (Suc j + length xs, fs' ! length xs))"
      using Cons.IH [of "Suc d" "Suc j" c fs'] Cons.prems fs rest by (simp add: NonIndexed_def)
    then show ?thesis using False f fs Cons.prems(2,3) by (simp add: Let_def NonIndexed_def)
  qed
qed

lemma tuple_loop_places:
  assumes "fields_match fs (before @ map fst items)" "length st = length items" "length sb = length before"
  shows "tuple_loop fs (before @ map fst items) (plain_items items) (length (NonIndexed before)) (sb @ st)
    = Inr (sb @ map2 (\<lambda>(a, v) s. if ar_Indexed a then s else Some v) items st)"
  using assms
proof (induction items arbitrary: before sb st)
  case Nil
  then show ?case by (simp add: plain_items_def)
next
  case (Cons item items)
  obtain a v where item: "item = (a, v)" by (cases item)
  obtain s st' where st: "st = s # st'" using Cons.prems(2) by (cases st) auto
  have IH: "tuple_loop fs (before @ a # map fst items) (plain_items items) (length (NonIndexed (before @ [a]))) (sb @ x # st')
      = Inr (sb @ x # map2 (\<lambda>(a, v) s. if ar_Indexed a then s else Some v) items st')" for x
    using Cons.IH [of "before @ [a]" st' "sb @ [x]"] Cons.prems item st by simp
  show ?case
  proof (cases "ar_Indexed a")
    case True
    then show ?thesis using IH [of s] item st by (simp add: plain_items_def NonIndexed_def)
  next
    case False
    have fm: "length before < length fs" "\<forall>m < length fs. fieldId (fs ! m) = m"
        "AssignableTo (sf_type (fs ! length before)) (ty_go (at_ty (ar_Type a)))"
      using Cons.prems(1) item by (auto simp: fields_match_def nth_append dest: spec [of _ "length before"])
    then have "find_field fs (before @ a # map fst items) 0 0 (length (NonIndexed before)) = Inr (Some (length before, fs ! length before))"
      using find_field_pos [of a before 0 "length (NonIndexed before)" 0 0 fs] False by simp
    then show ?thesis
      using IH [of "Some v"] item st False fm(3) Cons.prems(3)
      by (simp add: plain_items_def NonIndexed_def set_field_def list_update_append)
  qed
qed


lemma fold_places:
  "map2 (\<lambda>(a, v) s. if ar_Indexed a then s else Some v) items (map2 (\<lambda>(a, v) s. if ar_Indexed a then Some v else s) items st)
     = map (Some \<circ> snd) items" if "length st = length items"
  using that by (induction items st rule: list_induct2') auto

lemma unpack_event_fields:
  assumes "fields_match fs (map fst items)" "check_names (map fst items) [] = Inr ()" "1 < length items"
    "list_all2 (\<lambda>(a, v) topic. toGoType 0 (at_ty (ar_Type a)) topic = Inr v) (indexed_items items) topics" "topics \<noteq> []"
    "UnpackValues (map fst items) data = Inr (map snd (plain_items items))" "length st = length items"
    "abi_Events abi name = Some event" "ev_Inputs event = map fst items"
  shows "ABI_UnpackEvent abi fs name data (evid # topics) st = Inr (map (Some \<circ> snd) items)"
proof -
  let ?st = "map2 (\<lambda>(a, v) s. if ar_Indexed a then Some v else s) items st"
  have "\<forall>k < length items. AssignableTo (ty_go (at_ty (ar_Type (fst (items ! k))))) (sf_type (fs ! k))"
    using assms(1) by (auto simp: fields_match_def AssignableTo_sym)
  then have "topics_loop fs 0 (map fst items) topics st = Inr ?st"
    using topics_loop_places [OF assms(4), of fs "[]" st] assms(1,7) by (simp add: fields_match_def)
  moreover have "tuple_loop fs (map fst items) (plain_items items) 0 ?st = Inr (map (Some \<circ> snd) items)"
    using tuple_loop_places [of fs "[]" items ?st "[]"] assms(1,7) by (simp add: NonIndexed_def fold_places)
  moreover have "zip (NonIndexed (map fst items)) (map snd (plain_items items)) = plain_items items"
    by (simp add: NonIndexed_items zip_map_fst_snd)
  ultimately show ?thesis
    using assms by (cases topics) (simp_all add: ABI_UnpackEvent_def unpackTopics_def Arguments_Unpack_def unpackTuple_def)
qed

lemma UnpackValues_NonIndexed: "UnpackValues (NonIndexed arguments) data = UnpackValues arguments data"
  by (simp add: UnpackValues_def NonIndexed_def)

lemma indexed_topics_read:
  "\<forall>(a, v) \<in> set items. val_ok (at_ty (ar_Type a)) v \<and> static_ty (at_ty (ar_Type a)) \<Longrightarrow>
   rmap (\<lambda>(a, v). type_pack (at_ty (ar_Type a)) v) items = Inr topics \<Longrightarrow>
   list_all2 (\<lambda>(a, v) topic. toGoType 0 (at_ty (ar_Type a)) topic = Inr v) items topics"
proof (induction items arbitrary: topics)
  case (Cons item items)
  obtain a v where item: "item = (a, v)" by (cases item)
  obtain p ps where p: "type_pack (at_ty (ar_Type a)) v = Inr p" "topics = p # ps" and
      ps: "rmap (\<lambda>(a, v). type_pack (at_ty (ar_Type a)) v) items = Inr ps"
    using Cons.prems(2) item by auto
  have "reads_back (at_ty (ar_Type a)) v p"
    using static_pack [of "at_ty (ar_Type a)" v] Cons.prems(1) item p(1) by auto
  then have "toGoType 0 (at_ty (ar_Type a)) p = Inr v"
    unfolding reads_back_def by (metis append_Nil append_Nil2 list.size(3))
  then show ?case using Cons.IH [OF _ ps] Cons.prems(1) item p(2) by simp
qed simp

text \<open>
  Claim C12: an event of two or more arguments with distinct names, at least one of them indexed, is unpacked from its log into a struct with every field holding the value of its own argument,
  whatever the order of indexed and plain arguments. The struct has one field per argument, tagged with its position and of an assignable type. The indexed arguments have static types and are packed into the
  topics behind the first one, the event's id, which is skipped; the other arguments are packed into the data, of less than \<open>2 ^ 63\<close> bytes. The values fit their types, with the
  conditions of the round trip of arguments: no negative integer where a \<open>big.Int\<close> is needed, no empty array, no empty slice of arrays, and among the plain arguments no array of arrays beside an
  argument with an offset.
\<close>

theorem event_log_roundtrip:
  assumes "abi_Events abi name = Some event" "ev_Inputs event = map fst items"
    "fields_match fs (map fst items)" "check_names (map fst items) [] = Inr ()" "1 < length items"
    "\<forall>(a, v) \<in> set (indexed_items items). val_ok (at_ty (ar_Type a)) v \<and> static_ty (at_ty (ar_Type a))"
    "\<forall>(a, v) \<in> set (plain_items items). arg_ok (at_ty (ar_Type a)) v"
    "layout_ok (NonIndexed (map fst items))" "indexed_items items \<noteq> []"
    "rmap (\<lambda>(a, v). type_pack (at_ty (ar_Type a)) v) (indexed_items items) = Inr topics"
    "Arguments_Pack (NonIndexed (map fst items)) (map snd (plain_items items)) = Inr data" "length data < 2 ^ 63"
  shows "ABI_UnpackEvent abi fs name data (evid # topics) (replicate (length items) None) = Inr (map (Some \<circ> snd) items)"
proof -
  have "list_all2 (\<lambda>a v. arg_ok (at_ty (ar_Type a)) v) (NonIndexed (map fst items)) (map snd (plain_items items))"
    using assms(7) by (auto simp: NonIndexed_items list_all2_conv_all_nth split_beta dest: nth_mem)
  moreover have "list_all (\<lambda>a. \<not> ar_Indexed a) (NonIndexed (map fst items))" by (simp add: NonIndexed_def list_all_iff)
  ultimately have "UnpackValues (NonIndexed (map fst items)) data = Inr (map snd (plain_items items))"
    using arguments_read_back assms(8,11,12) by fastforce
  moreover have "list_all2 (\<lambda>(a, v) topic. toGoType 0 (at_ty (ar_Type a)) topic = Inr v) (indexed_items items) topics"
    using indexed_topics_read [OF assms(6,10)] .
  moreover have "topics \<noteq> []" using assms(9,10) rmap_length by fastforce
  ultimately show ?thesis
    using assms(1-5) by (intro unpack_event_fields) (simp_all add: UnpackValues_NonIndexed)
qed


definition transfer_items :: "item list" where
  "transfer_items =
    [(\<lparr>ar_Name = ''from'', ar_Type = \<lparr>at_ty = TAddress, at_stringKind = ''address''\<rparr>, ar_Indexed = True\<rparr>, byte_array (replicate 20 1)),
     (\<lparr>ar_Name = ''to'', ar_Type = \<lparr>at_ty = TAddress, at_stringKind = ''address''\<rparr>, ar_Indexed = True\<rparr>, byte_array (replicate 20 2)),
     (\<lparr>ar_Name = ''value'', ar_Type = \<lparr>at_ty = TUint 256, at_stringKind = ''uint256''\<rparr>, ar_Indexed = False\<rparr>, GBig 5)]"

definition transfer_fields :: "struct_field list" where
  "transfer_fields = [\<lparr>sf_type = GTaddress, sf_fieldId = ''0''\<rparr>, \<lparr>sf_type = GTaddress, sf_fieldId = ''1''\<rparr>,
     \<lparr>sf_type = GTbig, sf_fieldId = ''2''\<rparr>]"

definition transfer_abi :: ABI where
  "transfer_abi = \<lparr>abi_Constructor = [], abi_Methods = Map.empty,
     abi_Events = [''Transfer'' \<mapsto> \<lparr>ev_Name = ''Transfer'', ev_Anonymous = False, ev_Inputs = map fst transfer_items\<rparr>]\<rparr>"

lemma transfer_matches: "fields_match transfer_fields (map fst transfer_items)"
proof -
  have "map fieldId transfer_fields = [0, 1, 2]"
    by (simp add: transfer_fields_def fieldId_def strconv_Atoi_def is_digit_def digit_of_def dec_val_def)
  then have "fieldId (transfer_fields ! k) = k" if "k < 3" for k
    using that by (auto simp: transfer_fields_def less_Suc_eq eval_nat_numeral)
  moreover have "list_all2 (\<lambda>f a. AssignableTo (sf_type f) (ty_go (at_ty (ar_Type a)))) transfer_fields (map fst transfer_items)"
    by (simp add: transfer_fields_def transfer_items_def AssignableTo_def int_go_def reflectIntKindAndType_def)
  ultimately show ?thesis by (auto simp: fields_match_def list_all2_conv_all_nth transfer_fields_def)
qed

theorem event_log_roundtrip_witness:
  "ABI_UnpackEvent transfer_abi transfer_fields ''Transfer'' (abi_U256 5)
     [[], LeftPadBytes (replicate 20 1) 32, LeftPadBytes (replicate 20 2) 32] (replicate 3 None)
   = Inr (map (Some \<circ> snd) transfer_items)"
proof -
  have 1: "abi_Events transfer_abi ''Transfer'' = Some \<lparr>ev_Name = ''Transfer'', ev_Anonymous = False, ev_Inputs = map fst transfer_items\<rparr>"
    by (simp add: transfer_abi_def)
  have 2: "check_names (map fst transfer_items) [] = Inr ()"
    by (simp add: transfer_items_def capitalise_def ToUpper_def upper_char_def)
  have 3: "rmap (\<lambda>(a, v). type_pack (at_ty (ar_Type a)) v) (indexed_items transfer_items)
      = Inr [LeftPadBytes (replicate 20 1) 32, LeftPadBytes (replicate 20 2) 32]"
    by (simp add: transfer_items_def indexed_items_def)
  have 4: "Arguments_Pack (NonIndexed (map fst transfer_items)) (map snd (plain_items transfer_items)) = Inr (abi_U256 5)"
    by (simp add: transfer_items_def plain_items_def NonIndexed_def Arguments_Pack_def reflectIntKindAndType_def packNum_def)
  show ?thesis
    using event_log_roundtrip [OF 1 _ transfer_matches 2 _ _ _ _ _ 3 4, of "[]"]
    by (simp add: transfer_items_def indexed_items_def plain_items_def NonIndexed_def int_ok_def reflectIntKindAndType_def
        layout_ok_def flat_ty_def numeral_3_eq_3)
qed

subsection \<open>Calls of a method\<close>

text \<open>
  The arguments of a method, none of them indexed, go to the fields with their positions as tags. The struct may
  have further fields behind them, which stay as they are.
\<close>

definition leading_fields :: "struct_field list \<Rightarrow> Argument list \<Rightarrow> bool" where
  "leading_fields fs arguments \<longleftrightarrow> length arguments \<le> length fs \<and>
     (\<forall>k < length arguments. fieldId (fs ! k) = k \<and> AssignableTo (sf_type (fs ! k)) (ty_go (at_ty (ar_Type (arguments ! k)))))"

lemma find_field_plain:
  "list_all (\<lambda>a. \<not> ar_Indexed a) args \<Longrightarrow> k < length args \<Longrightarrow> length args \<le> length fs \<Longrightarrow>
   \<forall>m < length args. fieldId (fs ! m) = j + m \<Longrightarrow> find_field fs args j 0 (j + k) = Inr (Some (j + k, fs ! k))"
proof (induction args arbitrary: fs j k)
  case (Cons a args)
  then obtain f fs' where fs: "fs = f # fs'" by (cases fs) auto
  have f: "fieldId f = j" using Cons.prems(4) fs by force
  have rest: "\<forall>m < length args. fieldId (fs' ! m) = Suc j + m" using Cons.prems(4) fs by force
  show ?case
  proof (cases k)
    case 0
    then show ?thesis using Cons.prems(1) f fs by simp
  next
    case (Suc k')
    then show ?thesis using Cons.IH [of k' fs' "Suc j"] Cons.prems f fs rest by simp
  qed
qed simp

lemma tuple_loop_method:
  assumes "leading_fields fs arguments" "list_all (\<lambda>a. \<not> ar_Indexed a) arguments" "length args = length arguments"
    "length st = length fs" "i + n = length arguments"
  shows "tuple_loop fs arguments (drop i (zip arguments args)) i (map Some (take i args) @ drop i st)
    = Inr (map Some args @ drop (length args) st)"
  using assms(5)
proof (induction n arbitrary: i)
  case 0
  then show ?case using assms(3) by simp
next
  case (Suc n)
  then have i: "i < length arguments" "i < length args" "i < length st" using assms(1,3,4) by (auto simp: leading_fields_def)
  have "find_field fs arguments 0 0 i = Inr (Some (i, fs ! i))"
    using find_field_plain [of arguments i fs 0] assms(1,2) i(1) by (simp add: leading_fields_def)
  moreover have "AssignableTo (sf_type (fs ! i)) (ty_go (at_ty (ar_Type (arguments ! i))))"
    using assms(1) i(1) by (simp add: leading_fields_def)
  moreover have "drop i (zip arguments args) = (arguments ! i, args ! i) # drop (Suc i) (zip arguments args)"
    using i by (simp add: Cons_nth_drop_Suc [symmetric])
  moreover have "(map Some (take i args) @ drop i st)[i := Some (args ! i)] = map Some (take (Suc i) args) @ drop (Suc i) st"
    using i by (simp add: take_Suc_conv_app_nth Cons_nth_drop_Suc [symmetric] list_update_append)
  ultimately show ?case using Suc.IH [of "Suc i"] Suc.prems by (simp add: set_field_def)
qed

lemma method_call_read_back:
  assumes "abi_Methods abi name = Some method" "leading_fields fs (me_Inputs method)"
    "list_all (\<lambda>a. \<not> ar_Indexed a) (me_Inputs method)" "check_names (me_Inputs method) [] = Inr ()" "1 < length (me_Inputs method)"
    "list_all2 (\<lambda>a v. arg_ok (at_ty (ar_Type a)) v) (me_Inputs method) args" "layout_ok (me_Inputs method)"
    "Arguments_Pack (me_Inputs method) args = Inr data" "length data < 2 ^ 63" "length st = length fs"
  shows "ABI_UnpackMethod abi fs name data st = Inr (map Some args @ drop (length args) st)"
proof -
  have len: "length args = length (me_Inputs method)" using assms(6) by (simp add: list_all2_lengthD)
  have "UnpackValues (me_Inputs method) data = Inr args" "length data mod 32 = 0"
    using arguments_read_back [OF assms(6,3,7)] assms(8,9) by auto
  moreover have "NonIndexed (me_Inputs method) = me_Inputs method"
    using assms(3) by (simp add: NonIndexed_def list_all_iff)
  ultimately show ?thesis
    using tuple_loop_method [OF assms(2,3) len assms(10), of 0] assms(1,4,5)
    by (simp add: ABI_UnpackMethod_def Arguments_Unpack_def unpackTuple_def)
qed

end
