(* ===== verification/Contract_Calls.thy ===== *)
theory Contract_Calls
  imports Contract_Conv Abi_Unpack
begin

section \<open>Calls and logs of the contract (\<open>eth/contract\<close> over \<open>eth/abi\<close>)\<close>

text \<open>
  The structs of \<open>eth/contract\<close> are what the ABI codec packs and fills. Their field tags, the arguments that are
  handed to the codec and the view of a filled struct are given here, and a ring is followed from the orders
  through the bytes of the transaction back to orders. The ABI of the contract is an argument; what is assumed
  of it is the list of its argument types.
\<close>

subsection \<open>The arguments of \<open>submitRing\<close>\<close>

definition field :: "go_ty \<Rightarrow> string \<Rightarrow> struct_field" where
  "field t tag = \<lparr>sf_type = t, sf_fieldId = tag\<rparr>"

definition SubmitRing_fields :: "struct_field list" where
  "SubmitRing_fields = [field (GTslice (GTarr 4 GTaddress)) ''0'', field (GTslice (GTarr 6 GTbig)) ''1'',
     field (GTslice (GTarr 1 (GTkind (Kuint 8)))) ''2'', field (GTslice (GTkind Kbool)) ''3'', field (GTslice (GTkind (Kuint 8))) ''4'',
     field (GTslice (GTarr 32 (GTkind (Kuint 8)))) ''5'', field (GTslice (GTarr 32 (GTkind (Kuint 8)))) ''6'',
     field GTaddress ''7'', field (GTkind (Kuint 16)) ''8'', field GTaddress '''', field GTaddress '''']"

text \<open>The nine arguments of the call to \<open>Pack\<close>. A number that is nil panics when it is packed.\<close>

definition big_arg :: "int option \<Rightarrow> go_val res" where
  "big_arg x = rbind (deref x) (\<lambda>x. Inr (GBig x))"

definition numbers_arg :: "int option \<times> int option \<times> int option \<times> int option \<times> int option \<times> int option \<Rightarrow> go_val res" where
  "numbers_arg = (\<lambda>(a, b, c, d, e, f). rbind (rmap big_arg [a, b, c, d, e, f]) (\<lambda>vs. Inr (GSeq True Kptr vs)))"

definition addresses_arg :: "address \<times> address \<times> address \<times> address \<Rightarrow> go_val" where
  "addresses_arg = (\<lambda>(a, b, c, d). GSeq True Karray (map byte_array [a, b, c, d]))"

definition submitRing_args :: "SubmitRingMethodInputs \<Rightarrow> go_val list res" where
  "submitRing_args m =
    rbind (rmap numbers_arg (sr_UintArgsList m)) (\<lambda>numbers. Inr [
      GSeq False Karray (map addresses_arg (sr_AddressList m)),
      GSeq False Karray numbers,
      GSeq False Karray (map (\<lambda>b. byte_array [b]) (sr_Uint8ArgsList m)),
      GSeq False Kbool (map GBool (sr_BuyNoMoreThanBList m)),
      byte_slice (sr_VList m),
      GSeq False Karray (map byte_array (sr_RList m)),
      GSeq False Karray (map byte_array (sr_SList m)),
      byte_array (sr_FeeReceipt m),
      GInt (Kuint 16) (int (sr_FeeSelections m))])"

definition submitRing_pack :: "keccak \<Rightarrow> ABI \<Rightarrow> SubmitRingMethodInputs \<Rightarrow> bytes res" where
  "submitRing_pack K abi m = rbind (submitRing_args m) (ABI_Pack K abi ''submitRing'')"

text \<open>The struct after its fields were set: a field that was not set has its zero value.\<close>

definition seq_at :: "store \<Rightarrow> nat \<Rightarrow> go_val list" where
  "seq_at st k = (case st ! k of Some v \<Rightarrow> seq_elems v | None \<Rightarrow> [])"

definition address_at :: "store \<Rightarrow> nat \<Rightarrow> address" where
  "address_at st k = (case st ! k of Some v \<Rightarrow> val_bytes v | None \<Rightarrow> zero_address)"

fun big_of :: "go_val \<Rightarrow> int option" where
  "big_of (GBig x) = Some x"
| "big_of _ = None"

definition int_of :: "go_val \<Rightarrow> int" where
  "int_of v = (case v of GInt k x \<Rightarrow> x | _ \<Rightarrow> 0)"

definition bool_of :: "go_val \<Rightarrow> bool" where
  "bool_of v = (case v of GBool b \<Rightarrow> b | _ \<Rightarrow> False)"

definition numbers_of :: "go_val \<Rightarrow> int option \<times> int option \<times> int option \<times> int option \<times> int option \<times> int option" where
  "numbers_of v = (let e = seq_elems v in (big_of (e ! 0), big_of (e ! 1), big_of (e ! 2), big_of (e ! 3), big_of (e ! 4), big_of (e ! 5)))"

definition addresses_of :: "go_val \<Rightarrow> address \<times> address \<times> address \<times> address" where
  "addresses_of v = (let e = seq_elems v in (val_bytes (e ! 0), val_bytes (e ! 1), val_bytes (e ! 2), val_bytes (e ! 3)))"

definition SubmitRing_struct :: "store \<Rightarrow> SubmitRingMethodInputs" where
  "SubmitRing_struct st = \<lparr>
     sr_AddressList = map addresses_of (seq_at st 0), sr_UintArgsList = map numbers_of (seq_at st 1),
     sr_Uint8ArgsList = map (\<lambda>v. val_bytes v ! 0) (seq_at st 2),
     sr_BuyNoMoreThanBList = map bool_of (seq_at st 3),
     sr_VList = (case st ! 4 of Some v \<Rightarrow> val_bytes v | None \<Rightarrow> []),
     sr_RList = map val_bytes (seq_at st 5), sr_SList = map val_bytes (seq_at st 6),
     sr_FeeRecipient = address_at st 7,
     sr_FeeSelections = (case st ! 8 of Some v \<Rightarrow> nat (int_of v) | None \<Rightarrow> 0),
     sr_Protocol = address_at st 9, sr_FeeReceipt = address_at st 10\<rparr>"

subsection \<open>The bytes of the call\<close>

text \<open>What the call needs of its arguments: addresses of 20 bytes, words of 32, numbers of 256 bits.\<close>

definition number_ok :: "int option \<Rightarrow> bool" where
  "number_ok x \<longleftrightarrow> (case x of Some n \<Rightarrow> 0 \<le> n \<and> n < 2 ^ 256 | None \<Rightarrow> False)"

definition call_ok :: "SubmitRingMethodInputs \<Rightarrow> bool" where
  "call_ok m \<longleftrightarrow>
     list_all (\<lambda>(a, b, c, d). list_all (\<lambda>x. length x = 20) [a, b, c, d]) (sr_AddressList m)
   \<and> list_all (\<lambda>(a, b, c, d, e, f). list_all number_ok [a, b, c, d, e, f]) (sr_UintArgsList m)
   \<and> list_all (\<lambda>r. length r = 32) (sr_RList m) \<and> list_all (\<lambda>s. length s = 32) (sr_SList m)
   \<and> length (sr_FeeReceipt m) = 20 \<and> sr_FeeSelections m < 2 ^ 16
   \<and> sr_AddressList m \<noteq> [] \<and> sr_UintArgsList m \<noteq> [] \<and> sr_Uint8ArgsList m \<noteq> []"

text \<open>The types of the contract's \<open>submitRing\<close>.\<close>

definition submitRing_types :: "abi_ty list" where
  "submitRing_types = [TSlice (TArray 4 TAddress), TSlice (TArray 6 (TUint 256)), TSlice (TArray 1 (TUint 8)), TSlice TBool,
     TSlice (TUint 8), TSlice (TFixedBytes 32), TSlice (TFixedBytes 32), TAddress, TUint 16]"

definition submitRing_abi :: "ABI \<Rightarrow> abi_Method \<Rightarrow> bool" where
  "submitRing_abi abi method \<longleftrightarrow> abi_Methods abi ''submitRing'' = Some method
     \<and> map (\<lambda>a. at_ty (ar_Type a)) (me_Inputs method) = submitRing_types
     \<and> list_all (\<lambda>a. \<not> ar_Indexed a) (me_Inputs method) \<and> check_names (me_Inputs method) [] = Inr ()"

lemma big_arg_Some [simp]: "big_arg (Some n) = Inr (GBig n)"
  by (simp add: big_arg_def)

lemma number_args: "list_all number_ok xs \<Longrightarrow> \<exists>ns. xs = map Some ns \<and> rmap big_arg xs = Inr (map GBig ns)"
proof (induction xs)
  case (Cons x xs)
  then obtain ns where ns: "xs = map Some ns" "rmap big_arg xs = Inr (map GBig ns)" by auto
  obtain n where n: "x = Some n" using Cons.prems by (cases x) (auto simp: number_ok_def)
  show ?case by (rule exI [of _ "n # ns"]) (use ns n in simp)
qed simp

lemma numbers_arg_ok:
  assumes "list_all number_ok [a, b, c, d, e, f]"
  shows "\<exists>v. numbers_arg (a, b, c, d, e, f) = Inr v \<and> val_ok (TArray 6 (TUint 256)) v \<and> numbers_of v = (a, b, c, d, e, f)"
proof -
  obtain ns where ns: "[a, b, c, d, e, f] = map Some ns" "rmap big_arg [a, b, c, d, e, f] = Inr (map GBig ns)"
    using number_args [OF assms] by (elim exE conjE) (rule that)
  have ok: "list_all number_ok (map Some ns)" using assms unfolding ns(1) .
  have len: "length ns = 6" using arg_cong [OF ns(1), of length] by simp
  have "val_ok (TArray 6 (TUint 256)) (GSeq True Kptr (map GBig ns))"
    using ok len by (simp add: list_all_iff int_ok_def reflectIntKindAndType_def number_ok_def)
  moreover have "numbers_of (GSeq True Kptr (map GBig ns)) = (a, b, c, d, e, f)"
    using ns(1) by (auto simp: numbers_of_def seq_elems_def)
  ultimately show ?thesis using ns(2) by (simp add: numbers_arg_def del: rmap.simps)
qed

lemma numbers_args_ok:
  "list_all (\<lambda>(a, b, c, d, e, f). list_all number_ok [a, b, c, d, e, f]) xs \<Longrightarrow>
   \<exists>vs. rmap numbers_arg xs = Inr vs \<and> list_all (val_ok (TArray 6 (TUint 256))) vs \<and> map numbers_of vs = xs"
proof (induction xs)
  case (Cons x xs)
  obtain a b c d e f where x: "x = (a, b, c, d, e, f)" by (cases x)
  obtain v where v: "numbers_arg x = Inr v" "val_ok (TArray 6 (TUint 256)) v" "numbers_of v = x"
    using numbers_arg_ok [of a b c d e f] Cons.prems x by auto
  obtain vs where vs: "rmap numbers_arg xs = Inr vs" "list_all (val_ok (TArray 6 (TUint 256))) vs" "map numbers_of vs = xs"
    using Cons.IH Cons.prems x by (auto simp del: val_ok.simps)
  show ?case by (rule exI [of _ "v # vs"]) (use v vs in \<open>simp del: val_ok.simps\<close>)
qed simp

lemma addresses_arg_ok:
  "list_all (\<lambda>x. length x = 20) [a, b, c, d] \<Longrightarrow> val_ok (TArray 4 TAddress) (addresses_arg (a, b, c, d))"
  by (simp add: addresses_arg_def)

lemma addresses_of_arg [simp]: "addresses_of (addresses_arg x) = x"
  by (cases x) (simp add: addresses_arg_def addresses_of_def seq_elems_def)

lemma slice_arg_ok:
  "static_ty e \<Longrightarrow> list_all (val_ok e) vs \<Longrightarrow> is_array e \<longrightarrow> vs \<noteq> [] \<Longrightarrow> ty_kind e = k \<Longrightarrow> arg_ok (TSlice e) (GSeq False k vs)"
  by (auto simp: seq_elems_def)

lemma uint_byte: "uint (b :: byte) < 256"
  using uint_bounded [of b] by simp

lemma bytes_ok: "list_all (val_ok (TUint 8)) (map (\<lambda>b. GInt (Kuint 8) (uint b)) (bs :: bytes))"
  by (simp add: list_all_iff int_ok_def reflectIntKindAndType_def uint_byte)

lemma byte_values_ok:
  "val_ok (TArray 1 (TUint 8)) (byte_array [b])" "length r = 32 \<Longrightarrow> val_ok (TFixedBytes 32) (byte_array r)"
  "arg_ok (TSlice (TUint 8)) (byte_slice bs)"
  using bytes_ok [of "[b]"] slice_arg_ok [OF _ bytes_ok, of bs "Kuint 8"]
  by (simp_all add: reflectIntKindAndType_def byte_array_def byte_slice_def val_bytes_def val_len_def seq_elems_def comp_def)

text \<open>The struct that receives the arguments of a call holds the inputs, with the receiver of the fee in the field
  that the tag names.\<close>

definition received :: "SubmitRingMethodInputs \<Rightarrow> SubmitRingMethodInputs" where
  "received m = m\<lparr>sr_FeeRecipient := sr_FeeReceipt m, sr_Protocol := zero_address, sr_FeeReceipt := zero_address\<rparr>"

lemma submitRing_args_ok:
  assumes "call_ok m"
  shows "\<exists>args. submitRing_args m = Inr args \<and> list_all2 arg_ok submitRing_types args \<and> length args = 9
    \<and> SubmitRing_struct (map Some args @ [None, None]) = received m"
proof -
  obtain ns where ns: "rmap numbers_arg (sr_UintArgsList m) = Inr ns" "list_all (val_ok (TArray 6 (TUint 256))) ns"
    "map numbers_of ns = sr_UintArgsList m"
    using assms numbers_args_ok [of "sr_UintArgsList m"] by (auto simp: call_ok_def)
  have ne: "ns \<noteq> []" using ns(3) assms by (auto simp: call_ok_def)
  have addr: "list_all (val_ok (TArray 4 TAddress)) (map addresses_arg (sr_AddressList m))"
    using assms addresses_arg_ok by (fastforce simp: call_ok_def list_all_iff simp del: val_ok.simps)
  let ?args = "[GSeq False Karray (map addresses_arg (sr_AddressList m)), GSeq False Karray ns,
      GSeq False Karray (map (\<lambda>b. byte_array [b]) (sr_Uint8ArgsList m)), GSeq False Kbool (map GBool (sr_BuyNoMoreThanBList m)),
      byte_slice (sr_VList m), GSeq False Karray (map byte_array (sr_RList m)), GSeq False Karray (map byte_array (sr_SList m)),
      byte_array (sr_FeeReceipt m), GInt (Kuint 16) (int (sr_FeeSelections m))]"
  have ok: "list_all2 arg_ok submitRing_types ?args"
  proof -
    have "arg_ok TAddress (byte_array (sr_FeeReceipt m))" "arg_ok (TUint 16) (GInt (Kuint 16) (int (sr_FeeSelections m)))"
      using assms by (simp_all add: call_ok_def int_ok_def reflectIntKindAndType_def)
    moreover have "list_all (val_ok (TFixedBytes 32)) (map byte_array (sr_RList m))" "list_all (val_ok (TFixedBytes 32)) (map byte_array (sr_SList m))"
      "list_all (val_ok (TArray 1 (TUint 8))) (map (\<lambda>b. byte_array [b]) (sr_Uint8ArgsList m))"
      using assms byte_values_ok by (auto simp: call_ok_def list_all_iff simp del: val_ok.simps)
    moreover have "arg_ok (TSlice TBool) (GSeq False Kbool (map GBool (sr_BuyNoMoreThanBList m)))"
      by (rule slice_arg_ok) (simp_all add: list_all_iff)
    ultimately show ?thesis
      using assms ne addr ns(2) byte_values_ok(3)
      unfolding submitRing_types_def by (simp add: slice_arg_ok call_ok_def del: arg_ok.simps val_ok.simps)
  qed
  have a: "map addresses_of (map addresses_arg (sr_AddressList m)) = sr_AddressList m"
    by (simp add: comp_def)
  have st: "SubmitRing_struct (map Some ?args @ [None, None]) = received m"
    using a ns(3)
    by (simp add: SubmitRing_struct_def received_def seq_at_def address_at_def seq_elems_def bool_of_def int_of_def comp_def)
  show ?thesis
    by (rule exI [of _ ?args]) (use ok st ns(1) in \<open>simp add: submitRing_args_def\<close>)
qed

subsection \<open>From orders to bytes and back\<close>

lemma submitRing_leading:
  assumes "map (\<lambda>a. at_ty (ar_Type a)) arguments = submitRing_types"
  shows "leading_fields SubmitRing_fields arguments" "layout_ok arguments" "length arguments = 9"
proof -
  show len: "length arguments = 9" using arg_cong [OF assms, of length] by (simp add: submitRing_types_def)
  have ids: "map fieldId (take 9 SubmitRing_fields) = [0, 1, 2, 3, 4, 5, 6, 7, 8]"
    by (simp add: SubmitRing_fields_def field_def fieldId_def strconv_Atoi_def is_digit_def digit_of_def dec_val_def)
  have "fieldId (SubmitRing_fields ! k) = k" if "k < 9" for k
  proof -
    have "fieldId (SubmitRing_fields ! k) = map fieldId (take 9 SubmitRing_fields) ! k"
      using that by (subst nth_map) (simp_all add: nth_take, simp add: SubmitRing_fields_def)
    also have "\<dots> = k" unfolding ids using that by (auto simp: less_Suc_eq eval_nat_numeral)
    finally show ?thesis .
  qed
  moreover have "list_all2 (\<lambda>f t. AssignableTo (sf_type f) (ty_go t)) (take 9 SubmitRing_fields) submitRing_types"
    by (simp add: SubmitRing_fields_def submitRing_types_def field_def AssignableTo_def int_go_def reflectIntKindAndType_def)
  then have "AssignableTo (sf_type (SubmitRing_fields ! k)) (ty_go (at_ty (ar_Type (arguments ! k))))" if "k < 9" for k
    using that len unfolding assms [symmetric] list_all2_conv_all_nth by auto
  ultimately show "leading_fields SubmitRing_fields arguments"
    using len by (simp add: leading_fields_def) (simp add: SubmitRing_fields_def)
  have "list_all flat_ty (map (\<lambda>a. at_ty (ar_Type a)) arguments)" unfolding assms by (simp add: submitRing_types_def flat_ty_def)
  then show "layout_ok arguments" by (simp add: layout_ok_def list_all_iff)
qed

lemma submitRing_call:
  assumes "call_ok m" "submitRing_abi abi method" "\<And>x. length (K x) = 32" "submitRing_pack K abi m = Inr data" "length data < 2 ^ 63"
  shows "\<exists>st. ABI_UnpackMethod abi SubmitRing_fields ''submitRing'' (drop 4 data) (replicate 11 None) = Inr st
    \<and> SubmitRing_struct st = received m"
proof -
  obtain args where args: "submitRing_args m = Inr args" "list_all2 arg_ok submitRing_types args" "length args = 9"
    "SubmitRing_struct (map Some args @ [None, None]) = received m" using submitRing_args_ok [OF assms(1)] by blast
  have meth: "abi_Methods abi ''submitRing'' = Some method" "map (\<lambda>a. at_ty (ar_Type a)) (me_Inputs method) = submitRing_types"
    "list_all (\<lambda>a. \<not> ar_Indexed a) (me_Inputs method)" "check_names (me_Inputs method) [] = Inr ()"
    using assms(2) by (simp_all add: submitRing_abi_def)
  have ok: "list_all2 (\<lambda>a v. arg_ok (at_ty (ar_Type a)) v) (me_Inputs method) args"
    using args(2) unfolding meth(2) [symmetric] list_all2_map1 .
  obtain body where body: "Arguments_Pack (me_Inputs method) args = Inr body" "data = Method_Id K method @ body"
    using assms(4) args(1) meth(1) by (auto simp: submitRing_pack_def ABI_Pack_def)
  note first = submitRing_leading [OF meth(2)]
  have "drop 4 data = body" using body(2) assms(3) by (simp add: Method_Id_def)
  moreover have "length body < 2 ^ 63" using assms(5) body(2) by simp
  ultimately show ?thesis
    using method_call_read_back [OF meth(1) first(1) meth(3,4) _ ok first(2) body(1), of "replicate 11 None"] first(3) args(3,4)
    by (simp add: SubmitRing_fields_def numeral_2_eq_2)
qed

text \<open>A ring whose numbers and words fit into those of the contract.\<close>

definition order_fits :: "'pub FilledOrder \<Rightarrow> bool" where
  "order_fits fo \<longleftrightarrow> (let o' = fo_raw fo in
     list_all (\<lambda>x. length x = 20) [ord_Owner o', ord_TokenS o', ord_WalletAddress o', ord_AuthAddr o']
   \<and> list_all number_ok [ord_AmountS o', ord_AmountB o', ord_ValidSince o', ord_ValidUntil o', ord_LrcFee o',
       map_option rat_FloatString0 (fo_RateAmountS fo)]
   \<and> length (ord_R o') = 32 \<and> length (ord_S o') = 32)"

lemma submitRing_loop_words:
  "submitRing_loop K ec_sign pub_addr h os inp au = Inr (inp', au') \<Longrightarrow>
     list_all (\<lambda>r. length r = 32) (au_R au @ au_S au) \<Longrightarrow>
   list_all (\<lambda>r. length r = 32) (au_R au' @ au_S au') \<and> sr_FeeReceipt inp' = sr_FeeReceipt inp \<and> (\<forall>fo \<in> set os. fo_RateAmountS fo \<noteq> None)"
proof (induction os arbitrary: inp au)
  case (Cons x os)
  from Cons.prems show ?case by (auto simp: Let_def dest!: Cons.IH)
qed simp

lemma submitRing_inputs_form:
  assumes "submitRing_inputs K ec_sign pub_addr ring feeReceipt = (ring', Inr m)"
  shows "\<exists>inp au. submitRing_loop K ec_sign pub_addr (ring_Hash ring') (ring_Orders ring) (emptySubmitRingInputs feeReceipt)
      \<lparr>au_V = [], au_R = [], au_S = []\<rparr> = Inr (inp, au)
    \<and> m = inp\<lparr>sr_VList := sr_VList inp @ au_V au, sr_RList := sr_RList inp @ au_R au, sr_SList := sr_SList inp @ au_S au,
        sr_FeeSelections := nat (big_Uint64 (FeeSelections ring')) mod 2 ^ 16\<rparr>"
proof -
  have "ring_Orders ring' = ring_Orders ring"
    using assms by (auto simp: submitRing_inputs_def Ring_GenerateHash_def GenerateUniqueId_def Let_def
        split: if_splits prod.splits sum.splits list.splits)
  then show ?thesis using assms by (auto simp: submitRing_inputs_def split: if_splits prod.splits sum.splits)
qed

lemma submitRing_call_ok:
  assumes "submitRing_inputs K ec_sign pub_addr ring feeReceipt = (ring', Inr m)" "ring_Orders ring \<noteq> []"
    "\<forall>fo \<in> set (ring_Orders ring). order_fits fo" "length feeReceipt = 20"
  shows "call_ok m"
proof -
  obtain inp au where loop: "submitRing_loop K ec_sign pub_addr (ring_Hash ring') (ring_Orders ring) (emptySubmitRingInputs feeReceipt)
      \<lparr>au_V = [], au_R = [], au_S = []\<rparr> = Inr (inp, au)"
    and m: "m = inp\<lparr>sr_VList := sr_VList inp @ au_V au, sr_RList := sr_RList inp @ au_R au, sr_SList := sr_SList inp @ au_S au,
        sr_FeeSelections := nat (big_Uint64 (FeeSelections ring')) mod 2 ^ 16\<rparr>"
    using submitRing_inputs_form [OF assms(1)] by blast
  note l = submitRing_loop_lists [OF loop, unfolded emptySubmitRingInputs_def, simplified]
  note w = submitRing_loop_words [OF loop, unfolded emptySubmitRingInputs_def, simplified]
  have fits: "list_all (\<lambda>fo. order_fits fo \<and> fo_RateAmountS fo \<noteq> None) (ring_Orders ring)"
    using assms(3) w by (auto simp: list_all_iff)
  have "list_all (\<lambda>(a, b, c, d). list_all (\<lambda>x. length x = 20) [a, b, c, d]) (sr_AddressList m)"
    using fits l m by (auto simp: list_all_iff order_fits_def Let_def)
  moreover have "list_all (\<lambda>(a, b, c, d, e, f). list_all number_ok [a, b, c, d, e, f]) (sr_UintArgsList m)"
    using fits l m by (auto simp: list_all_iff order_fits_def Let_def)
  moreover have "list_all (\<lambda>r. length r = 32) (sr_RList m)" "list_all (\<lambda>r. length r = 32) (sr_SList m)"
    using fits l m w by (auto simp: list_all_iff order_fits_def Let_def)
  moreover have "length (sr_FeeReceipt m) = 20" "sr_FeeSelections m < 2 ^ 16" using w m assms(4) by simp_all
  moreover have "sr_AddressList m \<noteq> []" "sr_UintArgsList m \<noteq> []" "sr_Uint8ArgsList m \<noteq> []" using l m assms(2) by simp_all
  ultimately show ?thesis by (simp only: call_ok_def simp_thms)
qed

lemma map_sum_rbind: "map_sum id f (rbind m g) = rbind m (\<lambda>x. map_sum id f (g x))"
  by (cases m) simp_all

lemma ConvertDown_received:
  "(SubmitRing_ConvertDown K (received m) protocol delegate :: 'pub SubmitRingMethodEvent res)
     = map_sum id (\<lambda>evt. evt\<lparr>sre_FeeReceipt := sr_FeeReceipt m\<rparr>) (SubmitRing_ConvertDown K m protocol delegate)"
proof -
  have "(SubmitRing_order K (received m) protocol delegate :: nat \<Rightarrow> 'pub Order res) = SubmitRing_order K m protocol delegate"
    by (simp add: fun_eq_iff SubmitRing_order_def received_def)
  then show ?thesis
    by (simp add: SubmitRing_ConvertDown_def Let_def TxInfo.extend_def map_sum_rbind) (auto simp: received_def)
qed

text \<open>
  Claim C2: a ring that is submitted comes back from its transaction. When the call data of \<open>submitRing\<close> were built, the
  bytes behind the method's id are unpacked into the struct of the method, and converting that struct gives
  orders with the trading fields, signatures and hashes of the orders of the ring, with the fee receiver and the fee selection of the
  ring: what an observer of the chain reads is what was signed.
\<close>

theorem submitRing_transaction_roundtrip:
  fixes ring :: "'pub Ring"
  assumes "GenerateSubmitRingMethodInputsData K ec_sign pub_addr (submitRing_pack K abi) ring feeReceipt = (ring', Inr data)"
    and "submitRing_abi abi method" "\<And>x. length (K x) = 32" "length data < 2 ^ 63"
    and "2 \<le> length (ring_Orders ring)" "cyclic_tokens ring" "length feeReceipt = 20"
    and "\<forall>fo \<in> set (ring_Orders ring). order_fits fo \<and> ord_DelegateAddress (fo_raw fo) = delegate"
  shows "\<exists>st. ABI_UnpackMethod abi SubmitRing_fields ''submitRing'' (drop 4 data) (replicate 11 None) = Inr st
    \<and> (\<exists>evt :: 'pub SubmitRingMethodEvent. SubmitRing_ConvertDown K (SubmitRing_struct st) protocol delegate = Inr evt
      \<and> map (\<lambda>o'. (hashed_fields o', ord_V o', ord_R o', ord_S o', Inr (ord_Hash o'))) (sre_OrderList evt)
        = map (\<lambda>fo. (hashed_fields (fo_raw fo), ord_V (fo_raw fo), ord_R (fo_raw fo), ord_S (fo_raw fo),
                     Order_GenerateHash K (fo_raw fo))) (ring_Orders ring)
      \<and> sre_FeeReceipt evt = feeReceipt \<and> sre_FeeSelection evt = nat (big_Uint64 (FeeSelections ring')) mod 2 ^ 16)"
proof -
  obtain m where m: "submitRing_inputs K ec_sign pub_addr ring feeReceipt = (ring', Inr m)" "submitRing_pack K abi m = Inr data"
    using assms(1) by (auto simp: GenerateSubmitRingMethodInputsData_def split: prod.splits)
  have call: "call_ok m" using submitRing_call_ok [OF m(1)] assms(5,7,8) by fastforce
  obtain st where st: "ABI_UnpackMethod abi SubmitRing_fields ''submitRing'' (drop 4 data) (replicate 11 None) = Inr st"
    "SubmitRing_struct st = received m"
    using submitRing_call [OF call assms(2,3) m(2) assms(4)] by blast
  have hashes: "\<forall>fo \<in> set (ring_Orders ring). \<exists>h. Order_GenerateHash K (fo_raw fo) = Inr h"
    using assms(8) by (fastforce simp: order_fits_def Let_def Order_GenerateHash_def Order_hash_message_def hash_word_def number_ok_def split: option.splits)
  obtain evt :: "'pub SubmitRingMethodEvent" where evt: "SubmitRing_ConvertDown K m protocol delegate = Inr evt"
    "map (\<lambda>o'. (hashed_fields o', ord_V o', ord_R o', ord_S o', Inr (ord_Hash o'))) (sre_OrderList evt)
        = map (\<lambda>fo. (hashed_fields (fo_raw fo), ord_V (fo_raw fo), ord_R (fo_raw fo), ord_S (fo_raw fo),
                     Order_GenerateHash K (fo_raw fo))) (ring_Orders ring)"
    using submitRing_reads_back [OF m(1) assms(5,6) _ hashes, of delegate protocol] assms(8) by blast
  have fee: "sr_FeeReceipt m = feeReceipt" "sre_FeeSelection evt = nat (big_Uint64 (FeeSelections ring')) mod 2 ^ 16"
    using submitRing_inputs_form [OF m(1)] evt(1) submitRing_loop_words
    by (fastforce simp: SubmitRing_ConvertDown_def TxInfo.extend_def emptySubmitRingInputs_def Let_def split: if_splits)+
  show ?thesis
    using st evt fee by (intro exI [of _ st] conjI exI [of _ "evt\<lparr>sre_FeeReceipt := feeReceipt\<rparr>"]) (simp_all add: ConvertDown_received)
qed

subsection \<open>An example\<close>

definition demo_method :: abi_Method where
  "demo_method = \<lparr>me_Name = ''submitRing'', me_Const = False,
     me_Inputs = map2 arg_of [''addressList'', ''uintArgsList'', ''uint8ArgsList'', ''buyNoMoreThanAmountBList'', ''vList'', ''rList'', ''sList'',
       ''feeRecipient'', ''feeSelections''] submitRing_types, me_Outputs = []\<rparr>"

definition demo_abi :: ABI where
  "demo_abi = \<lparr>abi_Constructor = [], abi_Methods = [''submitRing'' \<mapsto> demo_method], abi_Events = Map.empty\<rparr>"

lemma demo_submitRing_abi: "submitRing_abi demo_abi demo_method"
  by (simp add: submitRing_abi_def demo_abi_def demo_method_def submitRing_types_def arg_of_def capitalise_def ToUpper_def upper_char_def)

definition demo_call :: "unit Ring \<times> bytes res" where
  "demo_call = GenerateSubmitRingMethodInputsData (\<lambda>_. replicate 32 1) (\<lambda>_ _. Inr (replicate 65 0)) (\<lambda>_. zero_address)
     (submitRing_pack (\<lambda>_. replicate 32 1) demo_abi) demo_sub_ring zero_address"

lemma demo_sign: "PrivateKey_Sign (\<lambda>_. replicate 32 1) (\<lambda>_ _. Inr (replicate 65 0)) demo_key h a = Inr (replicate 65 0)"
  by (simp add: PrivateKey_Sign_def ethCrypto_Sign_def demo_key_def GenerateHash_def)

lemma demo_raw:
  "fo_raw (demo_sub_order s b) = (demo_order 10)\<lparr>ord_TokenS := replicate 20 s, ord_TokenB := replicate 20 b, ord_AuthPrivateKey := demo_key\<rparr>"
  "fo_RateAmountS (demo_sub_order s b) = Some 3"
  by (simp_all add: demo_sub_order_def zero_FilledOrder_def)

definition demo_sent :: SubmitRingMethodInputs where
  "demo_sent = \<lparr>
     sr_AddressList = [(zero_address, replicate 20 1, zero_address, zero_address), (zero_address, replicate 20 2, zero_address, zero_address)],
     sr_UintArgsList = [(Some 10, Some 20, Some 5, Some 9, Some 1, Some 3), (Some 10, Some 20, Some 5, Some 9, Some 1, Some 3)], sr_Uint8ArgsList = [0, 0],
     sr_BuyNoMoreThanBList = [False, False], sr_VList = [0, 0, 27, 27], sr_RList = [zero_hash, zero_hash, zero_hash, zero_hash],
     sr_SList = [zero_hash, zero_hash, zero_hash, zero_hash],
     sr_FeeRecipient = zero_address, sr_FeeSelections = nat (big_Uint64 (FeeSelections demo_sub_ring)) mod 2 ^ 16, sr_Protocol = zero_address, sr_FeeReceipt = zero_address\<rparr>"

lemma zero_hash_word: "BytesToBytes32 (replicate 32 0) = zero_hash"
  by (simp add: BytesToBytes32_eq setBytes_def zero_hash_def)

lemma demo_inputs_sent:
  "submitRing_inputs (\<lambda>_. replicate 32 1) (\<lambda>_ _. Inr (replicate 65 0)) (\<lambda>_. zero_address) demo_sub_ring zero_address = (demo_sub_ring, Inr demo_sent)"
  by (simp add: submitRing_inputs_def demo_sub_ring_def IsZeroHash_iff PrivateKey_Address_def SigToVRS_def Let_def demo_sign demo_raw)
    (simp add: demo_key_def demo_sent_def emptySubmitRingInputs_def demo_order_def zero_Order_def zero_hash_word demo_sub_ring_def zero_hash_def rat_FloatString0_def floor_eq_iff)

lemma demo_sent_length: "case submitRing_pack (\<lambda>_. replicate 32 1) demo_abi demo_sent of Inr data \<Rightarrow> length data < 2 ^ 63 | Inl e \<Rightarrow> False"
  by (simp add: submitRing_pack_def submitRing_args_def demo_sent_def numbers_arg_def addresses_arg_def ABI_Pack_def demo_abi_def demo_method_def
      submitRing_types_def arg_of_def Method_Id_def
      Arguments_Pack_def seq_elems_def val_len_def packNum_def packBytesSlice_def reflectIntKindAndType_def byte_array_def byte_slice_def seq_bytes_def
      zero_hash_def zero_address_def length_bool_word [of False, simplified])

theorem submitRing_transaction_roundtrip_witness:
  "\<exists>data st. snd demo_call = Inr data
    \<and> ABI_UnpackMethod demo_abi SubmitRing_fields ''submitRing'' (drop 4 data) (replicate 11 None) = Inr st
    \<and> (\<exists>evt :: unit SubmitRingMethodEvent. SubmitRing_ConvertDown (\<lambda>_. replicate 32 1) (SubmitRing_struct st) zero_address zero_address = Inr evt
      \<and> map hashed_fields (sre_OrderList evt) = map (hashed_fields \<circ> fo_raw) (ring_Orders demo_sub_ring))"
proof -
  obtain data where data: "submitRing_pack (\<lambda>_. replicate 32 1) demo_abi demo_sent = Inr data" "length data < 2 ^ 63"
    using demo_sent_length by (cases "submitRing_pack (\<lambda>_. replicate 32 1) demo_abi demo_sent") auto
  then have call: "GenerateSubmitRingMethodInputsData (\<lambda>_. replicate 32 1) (\<lambda>_ _. Inr (replicate 65 0)) (\<lambda>_. zero_address)
     (submitRing_pack (\<lambda>_. replicate 32 1) demo_abi) demo_sub_ring zero_address = (demo_sub_ring, Inr data)"
    by (simp add: GenerateSubmitRingMethodInputsData_def demo_inputs_sent)
  have fits: "order_fits (demo_sub_order s b) \<and> ord_DelegateAddress (fo_raw (demo_sub_order s b)) = zero_address" for s b
    by (simp add: order_fits_def demo_raw demo_order_def zero_Order_def zero_address_def number_ok_def rat_FloatString0_def floor_eq_iff)
  have cyc: "cyclic_tokens demo_sub_ring" "2 \<le> length (ring_Orders demo_sub_ring)"
    by (auto simp: cyclic_tokens_def ring_next_def demo_sub_ring_def less_Suc_eq demo_raw)
  have "\<forall>fo \<in> set (ring_Orders demo_sub_ring). order_fits fo \<and> ord_DelegateAddress (fo_raw fo) = zero_address"
    using fits by (simp add: demo_sub_ring_def)
  from submitRing_transaction_roundtrip [OF call demo_submitRing_abi _ data(2) cyc(2,1) _ this, of zero_address]
  obtain st and evt :: "unit SubmitRingMethodEvent" where
    st: "ABI_UnpackMethod demo_abi SubmitRing_fields ''submitRing'' (drop 4 data) (replicate 11 None) = Inr st"
      "SubmitRing_ConvertDown (\<lambda>_. replicate 32 1) (SubmitRing_struct st) zero_address zero_address = Inr evt" and
    os: "map (\<lambda>o'. (hashed_fields o', ord_V o', ord_R o', ord_S o', Inr (ord_Hash o'))) (sre_OrderList evt)
        = map (\<lambda>fo. (hashed_fields (fo_raw fo), ord_V (fo_raw fo), ord_R (fo_raw fo), ord_S (fo_raw fo),
                     Order_GenerateHash (\<lambda>_. replicate 32 1) (fo_raw fo))) (ring_Orders demo_sub_ring)"
    by (auto simp: zero_address_def)
  have "map hashed_fields (sre_OrderList evt) = map (hashed_fields \<circ> fo_raw) (ring_Orders demo_sub_ring)"
    using arg_cong [OF os, of "map fst"] by (simp add: comp_def)
  then show ?thesis using st call by (auto simp: demo_call_def)
qed

subsection \<open>Events that cannot be unpacked\<close>

text \<open>The structs of the authorisation events hold the number as an \<open>int\<close>, a type that the codec produces for no ABI
  type: when the number is in the data of the log, unpacking never succeeds.\<close>

definition AddressAuthorized_fields :: "struct_field list" where
  "AddressAuthorized_fields = [field GTaddress ''0'', field GTint ''1'']"

lemma int_field_refused: "\<not> AssignableTo GTint (ty_go t)"
  by (cases t) (auto simp: AssignableTo_def int_go_def)

lemma authorized_log_refused:
  assumes "\<not> ar_Indexed n"
  shows "Arguments_Unpack AddressAuthorized_fields [a, n] data st \<noteq> Inr st'"
proof
  assume "Arguments_Unpack AddressAuthorized_fields [a, n] data st = Inr st'"
  then obtain vs where vs: "UnpackValues [a, n] data = Inr vs" "tuple_loop AddressAuthorized_fields [a, n] (zip (NonIndexed [a, n]) vs) 0 st = Inr st'"
    by (auto simp: Arguments_Unpack_def unpackTuple_def)
  have ids: "fieldId (field GTaddress ''0'') = 0" "fieldId (field GTint ''1'') = 1"
    by (simp_all add: field_def fieldId_def strconv_Atoi_def is_digit_def digit_of_def dec_val_def)
  have "set_field (field GTint ''1'') 1 s t v \<noteq> Inr s'" for s t v s'
    using int_field_refused by (simp add: set_field_def field_def)
  then show False
    using vs assms ids
    by (auto simp: UnpackValues_def NonIndexed_def AddressAuthorized_fields_def Let_def split: if_splits)
qed

end
