(* ===== verification/Method_Calls.thy ===== *)
theory Method_Calls
  imports Contract_Calls
begin

section \<open>Calls of the other contract methods (\<open>eth/contract/method.go\<close>, \<open>eth/abi\<close>)\<close>

text \<open>
  The structs that receive the arguments of the calls that cancel orders, move the cutoff, approve, transfer and withdraw: what the codec stores in them, for call data that was packed with the same
  contract description, and what the converters then say.
\<close>

subsection \<open>The structs\<close>

definition CancelOrder_fields :: "struct_field list" where
  "CancelOrder_fields = [field (GTarr 5 GTaddress) ''0'', field (GTarr 6 GTbig) ''1'', field (GTkind Kbool) ''2'', field (GTkind (Kuint 8)) ''3'',
     field (GTkind (Kuint 8)) ''4'', field (GTarr 32 (GTkind (Kuint 8))) ''5'', field (GTarr 32 (GTkind (Kuint 8))) ''6'']"

definition CutoffMethod_fields :: "struct_field list" where
  "CutoffMethod_fields = [field GTbig ''0'']"

definition CutoffPairMethod_fields :: "struct_field list" where
  "CutoffPairMethod_fields = [field GTaddress ''0'', field GTaddress ''1'', field GTbig ''2'']"

definition WethDepositMethod_fields :: "struct_field list" where
  "WethDepositMethod_fields = [field GTbig ''0'']"

definition WethWithdrawalMethod_fields :: "struct_field list" where
  "WethWithdrawalMethod_fields = [field GTbig ''0'']"

definition ApproveMethod_fields :: "struct_field list" where
  "ApproveMethod_fields = [field GTaddress ''0'', field GTbig ''1'']"

definition TransferMethod_fields :: "struct_field list" where
  "TransferMethod_fields = [field GTaddress ''0'', field GTbig ''1'']"

definition big_at :: "store \<Rightarrow> nat \<Rightarrow> int option" where
  "big_at st k = (case st ! k of Some v \<Rightarrow> big_of v | None \<Rightarrow> None)"

definition byte_at :: "store \<Rightarrow> nat \<Rightarrow> byte" where
  "byte_at st k = (case st ! k of Some v \<Rightarrow> word_of_int (int_of v) | None \<Rightarrow> 0)"

definition word_at :: "store \<Rightarrow> nat \<Rightarrow> bytes32" where
  "word_at st k = (case st ! k of Some v \<Rightarrow> val_bytes v | None \<Rightarrow> zero_hash)"

definition five_addresses :: "go_val \<Rightarrow> address \<times> address \<times> address \<times> address \<times> address" where
  "five_addresses v = (let e = seq_elems v in (val_bytes (e ! 0), val_bytes (e ! 1), val_bytes (e ! 2), val_bytes (e ! 3), val_bytes (e ! 4)))"

definition CancelOrder_struct :: "store \<Rightarrow> CancelOrderMethod" where
  "CancelOrder_struct st = \<lparr>
     co_AddressList = (case st ! 0 of Some v \<Rightarrow> five_addresses v | None \<Rightarrow> (zero_address, zero_address, zero_address, zero_address, zero_address)),
     co_OrderValues = (case st ! 1 of Some v \<Rightarrow> numbers_of v | None \<Rightarrow> (None, None, None, None, None, None)),
     co_BuyNoMoreThanB = (case st ! 2 of Some v \<Rightarrow> bool_of v | None \<Rightarrow> False),
     co_MarginSplit = byte_at st 3, co_V = byte_at st 4, co_R = word_at st 5, co_S = word_at st 6\<rparr>"

subsection \<open>Calls\<close>

text \<open>A method of the contract with these types of arguments, and a struct that has a field for each of them in their order.\<close>

definition method_abi :: "ABI \<Rightarrow> string \<Rightarrow> abi_ty list \<Rightarrow> bool" where
  "method_abi abi name types \<longleftrightarrow> name \<noteq> '''' \<and> (case abi_Methods abi name of
       None \<Rightarrow> False
     | Some m \<Rightarrow> map (\<lambda>a. at_ty (ar_Type a)) (me_Inputs m) = types \<and> list_all (\<lambda>a. \<not> ar_Indexed a) (me_Inputs m) \<and> check_names (me_Inputs m) [] = Inr ())"

definition fields_for :: "struct_field list \<Rightarrow> abi_ty list \<Rightarrow> bool" where
  "fields_for fs types \<longleftrightarrow> map fieldId fs = [0 ..< length types] \<and> list_all2 (\<lambda>f t. AssignableTo (sf_type f) (ty_go t)) fs types"

lemma fields_for_leading:
  assumes "fields_for fs (map (\<lambda>a. at_ty (ar_Type a)) arguments)"
  shows "leading_fields fs arguments" "length fs = length arguments"
proof -
  show len: "length fs = length arguments" using assms by (auto simp: fields_for_def dest: list_all2_lengthD)
  have "fieldId (fs ! k) = k" if "k < length fs" for k
  proof -
    have "fieldId (fs ! k) = map fieldId fs ! k" using that by simp
    also have "\<dots> = k" using assms that len by (simp add: fields_for_def)
    finally show ?thesis .
  qed
  then show "leading_fields fs arguments"
    using assms len by (auto simp: leading_fields_def fields_for_def list_all2_conv_all_nth)
qed

text \<open>What was packed for a method is what its struct receives; one argument goes another way through the code than several.\<close>

lemma call_read_back:
  assumes "method_abi abi name types" "fields_for fs types" "list_all2 arg_ok types args" "list_all flat_ty types" "types \<noteq> []"
    and "\<And>x. length (K x) = 32" "ABI_Pack K abi name args = Inr data" "length data < 2 ^ 63"
  shows "ABI_UnpackMethod abi fs name (drop 4 data) (replicate (length types) None) = Inr (map Some args)"
proof -
  obtain m where m: "abi_Methods abi name = Some m" "map (\<lambda>a. at_ty (ar_Type a)) (me_Inputs m) = types"
    "list_all (\<lambda>a. \<not> ar_Indexed a) (me_Inputs m)" "check_names (me_Inputs m) [] = Inr ()" "name \<noteq> ''''"
    using assms(1) by (auto simp: method_abi_def split: option.splits)
  obtain body where body: "Arguments_Pack (me_Inputs m) args = Inr body" "data = Method_Id K m @ body"
    using assms(7) m(1,5) by (auto simp: ABI_Pack_def)
  have drop: "drop 4 data = body" "length body < 2 ^ 63" using body(2) assms(6,8) by (simp_all add: Method_Id_def)
  have ok: "list_all2 (\<lambda>a v. arg_ok (at_ty (ar_Type a)) v) (me_Inputs m) args" using assms(3) unfolding m(2) [symmetric] list_all2_map1 .
  have layout: "layout_ok (me_Inputs m)" using assms(4) unfolding m(2) [symmetric] by (simp add: layout_ok_def list_all_iff)
  note lead = fields_for_leading [OF assms(2) [unfolded m(2) [symmetric]]]
  have n: "length types = length (me_Inputs m)" "length args = length types" using m(2) assms(3) by (auto dest: list_all2_lengthD)
  show ?thesis
  proof (cases "length (me_Inputs m)")
    case 0
    then show ?thesis using n(1) assms(5) by simp
  next
    case (Suc k)
    show ?thesis
    proof (cases k)
      case 0
      then obtain a f v where one: "me_Inputs m = [a]" "fs = [f]" "args = [v]"
        using Suc n lead(2) by (cases "me_Inputs m"; cases fs; cases args) auto
      have "UnpackValues (me_Inputs m) body = Inr args" "length body mod 32 = 0"
        using arguments_read_back [OF ok m(3) layout] body(1) drop(2) by auto
      moreover have "AssignableTo (sf_type f) (ty_go (at_ty (ar_Type a)))" using lead(1) one by (simp add: leading_fields_def)
      ultimately show ?thesis using m(1,3) one n drop
        by (simp add: ABI_UnpackMethod_def Arguments_Unpack_def unpackAtomic_def set_field_def NonIndexed_def)
    next
      case (Suc j)
      then show ?thesis
        using method_call_read_back [OF m(1) lead(1) m(3,4) _ ok layout body(1) drop(2), of "replicate (length types) None"] \<open>length (me_Inputs m) = Suc k\<close> drop(1) n lead(2)
        by simp
    qed
  qed
qed

lemma fieldId_digits: "fieldId (field t ''0'') = 0" "fieldId (field t ''1'') = 1" "fieldId (field t ''2'') = 2" "fieldId (field t ''3'') = 3"
  "fieldId (field t ''4'') = 4" "fieldId (field t ''5'') = 5" "fieldId (field t ''6'') = 6"
  by (simp_all add: field_def fieldId_def strconv_Atoi_def is_digit_def digit_of_def dec_val_def)

lemma method_fields:
  "fields_for CancelOrder_fields [TArray 5 TAddress, TArray 6 (TUint 256), TBool, TUint 8, TUint 8, TFixedBytes 32, TFixedBytes 32]"
  "fields_for CutoffMethod_fields [TUint 256]" "fields_for CutoffPairMethod_fields [TAddress, TAddress, TUint 256]"
  "fields_for WethWithdrawalMethod_fields [TUint 256]" "fields_for ApproveMethod_fields [TAddress, TUint 256]"
  "fields_for TransferMethod_fields [TAddress, TUint 256]"
  by (simp_all add: fields_for_def CancelOrder_fields_def CutoffMethod_fields_def CutoffPairMethod_fields_def WethWithdrawalMethod_fields_def
      ApproveMethod_fields_def TransferMethod_fields_def fieldId_digits upt_rec)
    (simp_all add: field_def AssignableTo_def int_go_def reflectIntKindAndType_def)

subsection \<open>Cancelling an order\<close>

text \<open>The arguments of the call: the terms of the order and the amount to cancel, with the signature of the order's owner.\<close>

definition cancelOrder_types :: "abi_ty list" where
  "cancelOrder_types = [TArray 5 TAddress, TArray 6 (TUint 256), TBool, TUint 8, TUint 8, TFixedBytes 32, TFixedBytes 32]"

definition cancelOrder_args :: "'pub Order \<Rightarrow> int option \<Rightarrow> go_val list res" where
  "cancelOrder_args o' amount =
    rbind (numbers_arg (ord_AmountS o', ord_AmountB o', ord_ValidSince o', ord_ValidUntil o', ord_LrcFee o', amount)) (\<lambda>numbers. Inr [
      GSeq True Karray (map byte_array [ord_Owner o', ord_TokenS o', ord_TokenB o', ord_WalletAddress o', ord_AuthAddr o']), numbers,
      GBool (ord_BuyNoMoreThanAmountB o'), GInt (Kuint 8) (uint (ord_MarginSplitPercentage o')), GInt (Kuint 8) (uint (ord_V o')),
      byte_array (ord_R o'), byte_array (ord_S o')])"

definition cancel_fits :: "'pub Order \<Rightarrow> int option \<Rightarrow> bool" where
  "cancel_fits o' amount \<longleftrightarrow>
     list_all (\<lambda>x. length x = 20) [ord_Owner o', ord_TokenS o', ord_TokenB o', ord_WalletAddress o', ord_AuthAddr o']
   \<and> list_all number_ok [ord_AmountS o', ord_AmountB o', ord_ValidSince o', ord_ValidUntil o', ord_LrcFee o', amount]
   \<and> length (ord_R o') = 32 \<and> length (ord_S o') = 32"

lemma uint8_ok: "arg_ok (TUint 8) (GInt (Kuint 8) (uint (b :: byte)))"
  by (simp add: int_ok_def reflectIntKindAndType_def uint_byte)

lemma cancelOrder_args_ok:
  assumes "cancel_fits o' amount"
  shows "\<exists>args. cancelOrder_args o' amount = Inr args \<and> list_all2 arg_ok cancelOrder_types args
    \<and> CancelOrder_struct (map Some args) = \<lparr>
        co_AddressList = (ord_Owner o', ord_TokenS o', ord_TokenB o', ord_WalletAddress o', ord_AuthAddr o'),
        co_OrderValues = (ord_AmountS o', ord_AmountB o', ord_ValidSince o', ord_ValidUntil o', ord_LrcFee o', amount),
        co_BuyNoMoreThanB = ord_BuyNoMoreThanAmountB o', co_MarginSplit = ord_MarginSplitPercentage o',
        co_V = ord_V o', co_R = ord_R o', co_S = ord_S o'\<rparr>"
proof -
  obtain v where v: "numbers_arg (ord_AmountS o', ord_AmountB o', ord_ValidSince o', ord_ValidUntil o', ord_LrcFee o', amount) = Inr v"
    "val_ok (TArray 6 (TUint 256)) v"
    "numbers_of v = (ord_AmountS o', ord_AmountB o', ord_ValidSince o', ord_ValidUntil o', ord_LrcFee o', amount)"
    using numbers_arg_ok assms unfolding cancel_fits_def by blast
  let ?args = "[GSeq True Karray (map byte_array [ord_Owner o', ord_TokenS o', ord_TokenB o', ord_WalletAddress o', ord_AuthAddr o']), v,
      GBool (ord_BuyNoMoreThanAmountB o'), GInt (Kuint 8) (uint (ord_MarginSplitPercentage o')), GInt (Kuint 8) (uint (ord_V o')),
      byte_array (ord_R o'), byte_array (ord_S o')]"
  have words: "val_ok (TFixedBytes 32) (byte_array (ord_R o'))" "val_ok (TFixedBytes 32) (byte_array (ord_S o'))"
    using assms byte_values_ok(2) by (auto simp: cancel_fits_def simp del: val_ok.simps)
  have addrs: "val_ok (TArray 5 TAddress) (GSeq True Karray (map byte_array [ord_Owner o', ord_TokenS o', ord_TokenB o', ord_WalletAddress o', ord_AuthAddr o']))"
    using assms by (simp add: cancel_fits_def)
  have "list_all2 arg_ok cancelOrder_types ?args"
    using words addrs v(2) uint8_ok unfolding cancelOrder_types_def by (simp del: val_ok.simps add: uint8_ok [simplified] val_ok.simps(3))
  then show ?thesis using v(1,3)
    by (intro exI [of _ ?args])
      (simp add: cancelOrder_args_def CancelOrder_struct_def five_addresses_def byte_at_def word_at_def seq_elems_def bool_of_def int_of_def)
qed

text \<open>
  Claim C10: the transaction that cancels an order says which order it is. When the call data of \<open>cancelOrder\<close> were built from an order and an
  amount, the bytes behind the method's id are unpacked into the struct of the method, and converting it gives an order with the same terms and
  signature, with the hash of the order, and the amount to cancel.
\<close>

theorem cancelOrder_transaction_roundtrip:
  assumes "cancelOrder_args o' amount = Inr args" "ABI_Pack K abi ''cancelOrder'' args = Inr data" "cancel_fits o' amount"
    and "method_abi abi ''cancelOrder'' cancelOrder_types" "\<And>x. length (K x) = 32" "length data < 2 ^ 63"
  shows "\<exists>st. ABI_UnpackMethod abi CancelOrder_fields ''cancelOrder'' (drop 4 data) (replicate 7 None) = Inr st
    \<and> (\<exists>order :: 'pub Order. CancelOrder_ConvertDown K (CancelOrder_struct st) protocol (ord_DelegateAddress o') = Inr (order, amount)
      \<and> hashed_fields order = hashed_fields (o' :: 'pub Order) \<and> Inr (ord_Hash order) = Order_GenerateHash K o'
      \<and> (ord_V order, ord_R order, ord_S order) = (ord_V o', ord_R o', ord_S o'))"
proof -
  note ok = cancelOrder_args_ok [OF assms(3)]
  have args: "list_all2 arg_ok cancelOrder_types args" using ok assms(1) by auto
  have "ABI_UnpackMethod abi CancelOrder_fields ''cancelOrder'' (drop 4 data) (replicate 7 None) = Inr (map Some args)"
    using call_read_back [OF assms(4) _ args _ _ assms(5,2,6), of CancelOrder_fields] method_fields(1)
    by (simp add: cancelOrder_types_def flat_ty_def eval_nat_numeral)
  moreover obtain h where h: "Order_GenerateHash K o' = Inr h"
    using assms(3) by (auto simp: cancel_fits_def Order_GenerateHash_def Order_hash_message_def hash_word_def number_ok_def split: option.splits)
  let ?o = "zero_Order\<lparr>ord_Protocol := protocol, ord_DelegateAddress := ord_DelegateAddress o',
      ord_Owner := ord_Owner o', ord_TokenS := ord_TokenS o', ord_TokenB := ord_TokenB o',
      ord_WalletAddress := ord_WalletAddress o', ord_AuthAddr := ord_AuthAddr o',
      ord_AmountS := ord_AmountS o', ord_AmountB := ord_AmountB o', ord_ValidSince := ord_ValidSince o',
      ord_ValidUntil := ord_ValidUntil o', ord_LrcFee := ord_LrcFee o',
      ord_BuyNoMoreThanAmountB := ord_BuyNoMoreThanAmountB o', ord_MarginSplitPercentage := ord_MarginSplitPercentage o',
      ord_V := ord_V o', ord_S := ord_S o', ord_R := ord_R o'\<rparr> :: 'pub Order"
  have "Order_GenerateHash K ?o = Inr h"
    using Order_GenerateHash_cong [of ?o o' K] h by (simp add: hashed_fields_def)
  then have "CancelOrder_ConvertDown K (CancelOrder_struct (map Some args)) protocol (ord_DelegateAddress o') = Inr (?o\<lparr>ord_Hash := h\<rparr>, amount)"
    using ok assms(1) by (auto simp: CancelOrder_ConvertDown_def Let_def)
  ultimately show ?thesis using h by (fastforce simp: hashed_fields_def)
qed


definition demo_cancel_abi :: ABI where
  "demo_cancel_abi = \<lparr>abi_Constructor = [], abi_Methods = [''cancelOrder'' \<mapsto> \<lparr>me_Name = ''cancelOrder'', me_Const = False,
     me_Inputs = map2 arg_of [''addresses'', ''orderValues'', ''buyNoMoreThanAmountB'', ''marginSplitPercentage'', ''v'', ''r'', ''s''] cancelOrder_types,
     me_Outputs = []\<rparr>], abi_Events = Map.empty\<rparr>"

lemma demo_cancel_method: "method_abi demo_cancel_abi ''cancelOrder'' cancelOrder_types"
  by (simp add: method_abi_def demo_cancel_abi_def cancelOrder_types_def arg_of_def capitalise_def ToUpper_def upper_char_def)

lemma demo_cancel_fits: "cancel_fits (demo_order 10) (Some 7)"
  by (simp add: cancel_fits_def demo_order_def zero_Order_def zero_address_def zero_hash_def number_ok_def)

lemma demo_cancel_call:
  "\<exists>args data. cancelOrder_args (demo_order 10) (Some 7) = Inr args
     \<and> ABI_Pack (\<lambda>_. replicate 32 1) demo_cancel_abi ''cancelOrder'' args = Inr data \<and> length data < 2 ^ 63"
  by (simp add: cancelOrder_args_def demo_order_def zero_Order_def numbers_arg_def ABI_Pack_def demo_cancel_abi_def
      cancelOrder_types_def arg_of_def Method_Id_def
      Arguments_Pack_def seq_elems_def val_len_def packNum_def packBytesSlice_def reflectIntKindAndType_def byte_array_def byte_slice_def seq_bytes_def
      zero_hash_def zero_address_def length_bool_word [of False, simplified])

theorem cancelOrder_transaction_roundtrip_witness:
  "\<exists>args data st. ABI_Pack (\<lambda>_. replicate 32 1) demo_cancel_abi ''cancelOrder'' args = Inr data
    \<and> ABI_UnpackMethod demo_cancel_abi CancelOrder_fields ''cancelOrder'' (drop 4 data) (replicate 7 None) = Inr st
    \<and> (\<exists>order :: unit Order. CancelOrder_ConvertDown (\<lambda>_. replicate 32 1) (CancelOrder_struct st) zero_address zero_address = Inr (order, Some 7)
      \<and> ord_AmountS order = Some 10)"
proof -
  obtain args data where call: "cancelOrder_args (demo_order 10) (Some 7) = Inr args"
    "ABI_Pack (\<lambda>_. replicate 32 1) demo_cancel_abi ''cancelOrder'' args = Inr data" "length data < 2 ^ 63"
    using demo_cancel_call by blast
  have "ord_DelegateAddress (demo_order 10) = zero_address" "ord_AmountS (demo_order 10) = Some 10"
    by (simp_all add: demo_order_def zero_Order_def)
  with cancelOrder_transaction_roundtrip [OF call(1,2) demo_cancel_fits demo_cancel_method _ call(3), of zero_address] call(2)
  show ?thesis by (fastforce simp: hashed_fields_def)
qed

subsection \<open>The calls of the token contracts\<close>

text \<open>What was packed for the cutoff, allowance, transfer and withdrawal methods is what the converted events say.\<close>

lemma address_ok: "length a = 20 \<Longrightarrow> arg_ok TAddress (byte_array a)"
  by simp

lemma amount_ok: "0 \<le> n \<Longrightarrow> n < 2 ^ 256 \<Longrightarrow> arg_ok (TUint 256) (GBig n)"
  by (simp add: int_ok_def reflectIntKindAndType_def)

definition address_and_amount :: "(address \<Rightarrow> int option \<Rightarrow> 'e) \<Rightarrow> store \<Rightarrow> 'e" where
  "address_and_amount convert st = convert (address_at st 0) (big_at st 1)"

lemma token_call_read_back:
  assumes "method_abi abi name [TAddress, TUint 256]" "length a = 20" "0 \<le> n" "n < 2 ^ 256"
    and "\<And>x. length (K x) = 32" "ABI_Pack K abi name [byte_array a, GBig n] = Inr data" "length data < 2 ^ 63"
    and "fields_for fs [TAddress, TUint 256]"
  shows "rbind (ABI_UnpackMethod abi fs name (drop 4 data) (replicate 2 None)) (\<lambda>st. Inr (address_and_amount convert st)) = Inr (convert a (Some n))"
proof -
  have "list_all2 arg_ok [TAddress, TUint 256] [byte_array a, GBig n]"
    using address_ok [OF assms(2)] amount_ok [OF assms(3,4)] by (simp del: arg_ok.simps)
  from call_read_back [OF assms(1,8) this _ _ assms(5-7)] show ?thesis
    by (simp add: flat_ty_def numeral_2_eq_2 address_and_amount_def address_at_def big_at_def)
qed

theorem approve_and_transfer_read_back:
  assumes "method_abi abi name [TAddress, TUint 256]" "length a = 20" "0 \<le> n" "n < 2 ^ 256"
    and "\<And>x. length (K x) = 32" "ABI_Pack K abi name [byte_array a, GBig n] = Inr data" "length data < 2 ^ 63"
  shows "rbind (ABI_UnpackMethod abi ApproveMethod_fields name (drop 4 data) (replicate 2 None))
      (\<lambda>st. Inr (address_and_amount (\<lambda>a n. ApproveMethod_ConvertDown a n owner) st)) = Inr (ApproveMethod_ConvertDown a (Some n) owner)"
    and "rbind (ABI_UnpackMethod abi TransferMethod_fields name (drop 4 data) (replicate 2 None))
      (\<lambda>st. Inr (address_and_amount (\<lambda>a n. TransferMethod_ConvertDown a n owner) st)) = Inr (TransferMethod_ConvertDown a (Some n) owner)"
  using token_call_read_back [OF assms] method_fields by blast+

lemma amount_call_read_back:
  assumes "method_abi abi name [TUint 256]" "0 \<le> n" "n < 2 ^ 256"
    and "\<And>x. length (K x) = 32" "ABI_Pack K abi name [GBig n] = Inr data" "length data < 2 ^ 63"
    and "fields_for fs [TUint 256]"
  shows "rbind (ABI_UnpackMethod abi fs name (drop 4 data) (replicate 1 None)) (\<lambda>st. Inr (convert (big_at st 0))) = Inr (convert (Some n))"
proof -
  have "list_all2 arg_ok [TUint 256] [GBig n]" using amount_ok [OF assms(2,3)] by (simp del: arg_ok.simps)
  from call_read_back [OF assms(1,7) this _ _ assms(4-6)] show ?thesis by (simp add: flat_ty_def big_at_def)
qed

theorem cutoff_and_withdrawal_read_back:
  assumes "method_abi abi name [TUint 256]" "0 \<le> n" "n < 2 ^ 256"
    and "\<And>x. length (K x) = 32" "ABI_Pack K abi name [GBig n] = Inr data" "length data < 2 ^ 63"
  shows "rbind (ABI_UnpackMethod abi CutoffMethod_fields name (drop 4 data) (replicate 1 None))
      (\<lambda>st. Inr (CutoffMethod_ConvertDown (big_at st 0) owner)) = Inr (CutoffMethod_ConvertDown (Some n) owner)"
    and "rbind (ABI_UnpackMethod abi WethWithdrawalMethod_fields name (drop 4 data) (replicate 1 None))
      (\<lambda>st. Inr (WethWithdrawalMethod_ConvertDown (big_at st 0) owner)) = Inr (WethWithdrawalMethod_ConvertDown (Some n) owner)"
  by (rule amount_call_read_back [OF assms], rule method_fields)+

theorem cutoff_pair_read_back:
  assumes "method_abi abi name [TAddress, TAddress, TUint 256]" "length a = 20" "length b = 20" "0 \<le> n" "n < 2 ^ 256"
    and "\<And>x. length (K x) = 32" "ABI_Pack K abi name [byte_array a, byte_array b, GBig n] = Inr data" "length data < 2 ^ 63"
  shows "rbind (ABI_UnpackMethod abi CutoffPairMethod_fields name (drop 4 data) (replicate 3 None))
      (\<lambda>st. Inr (CutoffPairMethod_ConvertDown (address_at st 0) (address_at st 1) (big_at st 2) owner)) = Inr (CutoffPairMethod_ConvertDown a b (Some n) owner)"
proof -
  have "list_all2 arg_ok [TAddress, TAddress, TUint 256] [byte_array a, byte_array b, GBig n]"
    using address_ok [OF assms(2)] address_ok [OF assms(3)] amount_ok [OF assms(4,5)] by (simp del: arg_ok.simps)
  from call_read_back [OF assms(1) method_fields(3) this _ _ assms(6-8)] show ?thesis
    by (simp add: flat_ty_def numeral_3_eq_3 address_at_def big_at_def)
qed

text \<open>The deposit method of the contract has no arguments, so that the one field of its struct is never filled: the call is refused, whatever the data.\<close>

theorem deposit_call_refused:
  assumes "method_abi abi name []"
  shows "ABI_UnpackMethod abi WethDepositMethod_fields name data st \<noteq> Inr st'"
  using assms by (auto simp: method_abi_def ABI_UnpackMethod_def Arguments_Unpack_def UnpackValues_def unpackAtomic_def NonIndexed_def WethDepositMethod_fields_def
      split: option.splits)

end
