(* ===== verification/Zk_Balancer.thy ===== *)
theory Zk_Balancer
  imports Relay_Prelude
begin

section \<open>Task balancer over ZooKeeper (\<open>zklock/zk_lock.go\<close>, \<open>zklock/zk_balancer.go\<close>)\<close>

text \<open>
  A master spreads weighted tasks over the live workers and publishes to each worker, as the data
  of its ZooKeeper node, the tasks it is to run. A task that changes owner goes through the status
  \<open>Releasing\<close> first, until its former owner has let it go.

  The ZooKeeper connection is a parameter, a record of operations over a state \<open>'z\<close>; what the
  theorems need of it is the predicate \<open>zk_reliable\<close>. The map from task paths to task pointers and
  the heap of tasks are kept apart, because two keys may hold the same pointer
  (\<open>loadTasksForWorker\<close> stores the address of its loop variable). The order in which Go ranges over
  a map, and each reading of the clock, are arguments.
\<close>

datatype status = Init | Assigned | Releasing | Deleting

record Task =
  tk_Payload :: string
  tk_Path :: string
  tk_Weight :: int
  tk_Status :: status
  tk_Owner :: string
  tk_Timestamp :: int

text \<open>The data of a node: nothing, the JSON text of a list of tasks, or other bytes.\<close>

datatype zk_data = NoData | TaskDoc "Task list" | BadDoc

datatype zk_error = ErrNoNode | ErrNodeExists | ErrOther string

record 'z zk_ops =
  zkGet :: "'z \<Rightarrow> string \<Rightarrow> zk_error + zk_data"
  zkSet :: "'z \<Rightarrow> string \<Rightarrow> zk_data \<Rightarrow> 'z \<times> zk_error option"
  zkCreate :: "'z \<Rightarrow> string \<Rightarrow> zk_data \<Rightarrow> 'z \<times> zk_error option"
  zkCreateSeq :: "'z \<Rightarrow> string \<Rightarrow> zk_data \<Rightarrow> 'z \<times> zk_error option"
  zkDelete :: "'z \<Rightarrow> string \<Rightarrow> 'z \<times> zk_error option"
  zkExists :: "'z \<Rightarrow> string \<Rightarrow> zk_error + bool"
  zkChildren :: "'z \<Rightarrow> string \<Rightarrow> zk_error + string list"

record ZkBalancer =
  zb_name :: string
  zb_workerBasePath :: string
  zb_eventBasePath :: string
  zb_tasks :: "string \<rightharpoonup> nat"
  zb_heap :: "nat \<Rightarrow> Task"
  zb_next :: nat
  zb_isMaster :: bool
  zb_workerPath :: string
  zb_postponed :: bool

definition balancerShareBasePath :: string where
  "balancerShareBasePath = ''/loopring_balancer''"

definition releasingTimeout :: int where
  "releasingTimeout = 120"

definition path_of :: "string \<Rightarrow> string \<Rightarrow> string" where
  "path_of base name = base @ ''/'' @ name"

definition task_at :: "ZkBalancer \<Rightarrow> string \<Rightarrow> Task option" where
  "task_at zb k = map_option (zb_heap zb) (zb_tasks zb k)"

text \<open>Writing through a task pointer.\<close>

definition upd_task :: "nat \<Rightarrow> (Task \<Rightarrow> Task) \<Rightarrow> ZkBalancer \<Rightarrow> ZkBalancer" where
  "upd_task r f zb = zb\<lparr>zb_heap := (zb_heap zb)(r := f (zb_heap zb r))\<rparr>"

subsection \<open>Locks and node paths\<close>

type_synonym 'l zk_locks = "(string \<rightharpoonup> 'l) option"

definition lockBasePath :: string where
  "lockBasePath = ''/loopring_lock''"

definition IsLockInitialed :: "'l zk_locks \<Rightarrow> bool" where
  "IsLockInitialed zl \<longleftrightarrow> zl \<noteq> None"

definition lock_Initialize :: "string \<Rightarrow> unit res \<Rightarrow> 'l zk_locks \<Rightarrow> 'l zk_locks \<times> unit res" where
  "lock_Initialize ZkServers connect zl =
     (if ZkServers = '''' \<or> length ZkServers < 10 then (zl, Inl (Err ''Zookeeper server list config invalid''))
      else case connect of
        Inl e \<Rightarrow> (zl, Inl e)
      | Inr _ \<Rightarrow> (Some Map.empty, Inr ()))"

definition TryLock ::
  "(string \<Rightarrow> 'l) \<Rightarrow> ('l \<Rightarrow> 'l \<times> unit res) \<Rightarrow> string \<Rightarrow> 'l zk_locks \<Rightarrow> 'l zk_locks \<times> unit res" where
  "TryLock NewLock lock lockName zl = (case zl of
       None \<Rightarrow> (zl, Inl (Panic NilDeref))
     | Some m \<Rightarrow>
         (let l = (case m lockName of None \<Rightarrow> NewLock (path_of lockBasePath lockName) | Some l \<Rightarrow> l);
              (l', r) = lock l
          in (Some (m(lockName \<mapsto> l')), r)))"

definition ReleaseLock ::
  "('l \<Rightarrow> 'l \<times> unit res) \<Rightarrow> string \<Rightarrow> 'l zk_locks \<Rightarrow> 'l zk_locks \<times> unit res" where
  "ReleaseLock unlock lockName zl = (case zl of
       None \<Rightarrow> (zl, Inl (Panic NilDeref))
     | Some m \<Rightarrow> (case m lockName of
           Some l \<Rightarrow> (Some (m(lockName \<mapsto> fst (unlock l))), Inr ())
         | None \<Rightarrow> (zl, Inl (Err ''Try release not exists lock''))))"

definition CreatePath :: "'z zk_ops \<Rightarrow> 'z \<Rightarrow> string \<Rightarrow> 'z \<times> string res" where
  "CreatePath Z z path = (case zkExists Z z path of
       Inl e \<Rightarrow> (z, Inl (Err ''check zk path exists failed''))
     | Inr isExist \<Rightarrow>
         (if \<not> isExist then
            (let (z', err) = zkCreate Z z path NoData
             in if err \<noteq> None \<and> err \<noteq> Some ErrNodeExists
                then (z', Inl (Err ''failed create balancer sub path''))
                else (z', Inr path))
          else (z, Inr path)))"

subsection \<open>Set-up\<close>

fun Init_loop :: "ZkBalancer \<Rightarrow> Task list \<Rightarrow> ZkBalancer \<times> unit res" where
  "Init_loop zb [] = (zb, Inr ())"
| "Init_loop zb (t # ts) =
     (if tk_Payload t = '''' then (zb, Inl (Err ''task payload is empty''))
      else
        (let path = (if tk_Path t = '''' then
                       (if length (tk_Payload t) \<le> 10 then tk_Payload t else take 10 (tk_Payload t))
                     else tk_Path t);
             t' = t\<lparr>tk_Path := path, tk_Status := Init\<rparr>;
             r = zb_next zb
         in Init_loop (zb\<lparr>zb_heap := (zb_heap zb)(r := t'), zb_next := Suc r,
                          zb_tasks := (zb_tasks zb)(path \<mapsto> r)\<rparr>) ts))"

definition zb_Init ::
  "'z zk_ops \<Rightarrow> bool \<Rightarrow> string \<Rightarrow> string \<Rightarrow> Task list \<Rightarrow> ZkBalancer \<times> 'z \<Rightarrow> (ZkBalancer \<times> 'z) \<times> unit res" where
  "zb_Init Z lockInitialed localIp name initTasks = (\<lambda>(zb, z).
     if name = '''' \<and> zb_name zb = '''' then ((zb, z), Inl (Err ''balancer Name is empty''))
     else
       let zb = (if name \<noteq> '''' then zb\<lparr>zb_name := name\<rparr> else zb)
       in if initTasks = [] then ((zb, z), Inl (Err ''no initTasks to balance''))
       else case Init_loop (zb\<lparr>zb_tasks := Map.empty\<rparr>) initTasks of
         (zb, Inl e) \<Rightarrow> ((zb, z), Inl e)
       | (zb, Inr _) \<Rightarrow>
         if \<not> lockInitialed then ((zb, z), Inl (Err ''zkClient is not intiliazed''))
         else case CreatePath Z z balancerShareBasePath of
           (z, Inl e) \<Rightarrow> ((zb, z), Inl (Err ''create balancer base path failed''))
         | (z, Inr _) \<Rightarrow>
         let blp = path_of balancerShareBasePath (zb_name zb)
         in case CreatePath Z z blp of
           (z, Inl e) \<Rightarrow> ((zb, z), Inl (Err ''create balancer path failed''))
         | (z, Inr _) \<Rightarrow> (case CreatePath Z z (path_of blp ''worker'') of
           (z, Inl e) \<Rightarrow> ((zb\<lparr>zb_workerBasePath := ''''\<rparr>, z), Inl (Err ''create balancer worker path failed''))
         | (z, Inr wp) \<Rightarrow>
         let zb = zb\<lparr>zb_workerBasePath := wp\<rparr>
         in case CreatePath Z z (path_of blp ''event'') of
           (z, Inl e) \<Rightarrow> ((zb\<lparr>zb_eventBasePath := ''''\<rparr>, z), Inl (Err ''create balancer event path failed''))
         | (z, Inr ep) \<Rightarrow> ((zb\<lparr>zb_eventBasePath := ep, zb_workerPath := localIp\<rparr>, z), Inr ())))"

definition masterLockName :: "ZkBalancer \<Rightarrow> string" where
  "masterLockName zb = ''balancer/'' @ zb_name zb"

definition workerEphemeralPath :: "ZkBalancer \<Rightarrow> string" where
  "workerEphemeralPath zb = path_of (zb_workerBasePath zb) (zb_workerPath zb)"

subsection \<open>Node data\<close>

definition decodeData :: "zk_data \<Rightarrow> Task list res" where
  "decodeData data = (case data of
       NoData \<Rightarrow> Inr []
     | TaskDoc ts \<Rightarrow> Inr ts
     | BadDoc \<Rightarrow> Inl (Err ''invalid character''))"

definition encodeData :: "Task list \<Rightarrow> zk_data res" where
  "encodeData tasks = (if length tasks = 0 then Inr NoData else Inr (TaskDoc tasks))"

text \<open>The worker's side: what it reads when its node changes, and the event it creates on release.\<close>

definition onDataChanged :: "'z zk_ops \<Rightarrow> ZkBalancer \<Rightarrow> 'z \<Rightarrow> Task list option" where
  "onDataChanged Z zb z = (case zkGet Z z (workerEphemeralPath zb) of
       Inl e \<Rightarrow> None
     | Inr data \<Rightarrow> (case decodeData data of Inl e \<Rightarrow> None | Inr workerTasks \<Rightarrow> Some workerTasks))"

definition Released :: "'z zk_ops \<Rightarrow> Task list \<Rightarrow> ZkBalancer \<times> 'z \<Rightarrow> (ZkBalancer \<times> 'z) \<times> unit res" where
  "Released Z tasks = (\<lambda>(zb, z).
     if length tasks = 0 then ((zb, z), Inl (Err ''released tasks is empty''))
     else case zkCreateSeq Z z (path_of (zb_eventBasePath zb) ''released-'') (TaskDoc tasks) of
       (z', Some e) \<Rightarrow> ((zb, z'), Inl (Err ''released event node failed create''))
     | (z', None) \<Rightarrow> ((zb, z'), Inr ()))"

subsection \<open>Loading the tasks the workers hold\<close>

text \<open>
  One iteration of the loop of \<open>loadTasksForWorker\<close>. The loop variable \<open>wt\<close> is one cell \<open>r\<close> for
  the whole loop, and \<open>&wt\<close> is its address.
\<close>

definition load_body :: "(string \<Rightarrow> int) \<Rightarrow> string \<Rightarrow> nat \<Rightarrow> Task \<Rightarrow> ZkBalancer \<Rightarrow> ZkBalancer" where
  "load_body now worker r wt zb =
     (let zb = upd_task r (\<lambda>_. wt) zb
      in case zb_tasks zb (tk_Path wt) of
           Some v \<Rightarrow> upd_task v (\<lambda>t. t\<lparr>tk_Owner := worker, tk_Status := Assigned,
                                        tk_Timestamp := now (tk_Path wt)\<rparr>) zb
         | None \<Rightarrow> (upd_task r (\<lambda>t. t\<lparr>tk_Status := Deleting, tk_Timestamp := now (tk_Path wt)\<rparr>) zb)
                     \<lparr>zb_tasks := (zb_tasks zb)(tk_Path wt \<mapsto> r)\<rparr>)"

definition loadTasksForWorker ::
  "'z zk_ops \<Rightarrow> (string \<Rightarrow> int) \<Rightarrow> string \<Rightarrow> 'z \<Rightarrow> ZkBalancer \<Rightarrow> ZkBalancer \<times> unit res" where
  "loadTasksForWorker Z now worker z zb =
     (case zkGet Z z (path_of (zb_workerBasePath zb) worker) of
        Inl ErrNoNode \<Rightarrow> (zb, Inr ())
      | Inl e \<Rightarrow> (zb, Inl (Err ''loadTasksForWorker failed on get worker data''))
      | Inr data \<Rightarrow> (case decodeData data of
            Inl e \<Rightarrow> (zb, Inl e)
          | Inr workerTasks \<Rightarrow>
              (fold (load_body now worker (zb_next zb)) workerTasks (zb\<lparr>zb_next := Suc (zb_next zb)\<rparr>),
               Inr ())))"

fun loadTasks ::
  "'z zk_ops \<Rightarrow> (string \<Rightarrow> string \<Rightarrow> int) \<Rightarrow> string list \<Rightarrow> 'z \<Rightarrow> ZkBalancer \<Rightarrow> ZkBalancer \<times> unit res" where
  "loadTasks Z now [] z zb = (zb, Inr ())"
| "loadTasks Z now (worker # workers) z zb =
     (case loadTasksForWorker Z (now worker) worker z zb of
        (zb, Inl e) \<Rightarrow> (zb, Inl e)
      | (zb, Inr _) \<Rightarrow> loadTasks Z now workers z zb)"

subsection \<open>Publishing\<close>

definition range_tasks :: "ZkBalancer \<Rightarrow> string list \<Rightarrow> Task list" where
  "range_tasks zb ks = List.map_filter (task_at zb) ks"

definition tasks_of :: "ZkBalancer \<Rightarrow> string list \<Rightarrow> string \<Rightarrow> Task list" where
  "tasks_of zb ks worker =
     filter (\<lambda>task. tk_Owner task = worker \<and> tk_Status task = Assigned) (range_tasks zb ks)"

definition assignedTasks ::
  "'z zk_ops \<Rightarrow> (string \<Rightarrow> string list) \<Rightarrow> ZkBalancer \<Rightarrow> string \<Rightarrow> 'z \<Rightarrow> 'z \<times> unit res" where
  "assignedTasks Z ks zb worker z = (case encodeData (tasks_of zb (ks worker) worker) of
       Inl e \<Rightarrow> (z, Inl e)
     | Inr data \<Rightarrow> (case zkSet Z z (path_of (zb_workerBasePath zb) worker) data of
           (z', Some e) \<Rightarrow> (z', Inl (Err ''assignedTasks  set data failed''))
         | (z', None) \<Rightarrow> (z', Inr ())))"

fun deprecate_loop ::
  "'z zk_ops \<Rightarrow> (string \<Rightarrow> string list) \<Rightarrow> ZkBalancer \<Rightarrow> string list \<Rightarrow> string list \<Rightarrow> unit res \<Rightarrow> 'z \<Rightarrow> 'z \<times> unit res" where
  "deprecate_loop Z oi zb [] needDeleteWorker err z = (z, err)"
| "deprecate_loop Z oi zb (k # ks) needDeleteWorker err z =
     (case task_at zb k of
        None \<Rightarrow> deprecate_loop Z oi zb ks needDeleteWorker err z
      | Some task \<Rightarrow>
          (if tk_Status task = Deleting \<and> tk_Owner task \<notin> set needDeleteWorker then
             (let (z', e) = assignedTasks Z oi zb (tk_Owner task) z
              in deprecate_loop Z oi zb ks (tk_Owner task # needDeleteWorker)
                   (if e \<noteq> Inr () then e else err) z')
           else deprecate_loop Z oi zb ks needDeleteWorker err z))"

definition deprecateTasks ::
  "'z zk_ops \<Rightarrow> (string \<Rightarrow> string list) \<Rightarrow> string list \<Rightarrow> ZkBalancer \<Rightarrow> 'z \<Rightarrow> 'z \<times> unit res" where
  "deprecateTasks Z oi ks zb z = deprecate_loop Z oi zb ks [] (Inr ()) z"

subsection \<open>Balancing\<close>

text \<open>Go's \<open>int\<close> is 64 bits wide and wraps.\<close>

definition wrap64 :: "int \<Rightarrow> int" where
  "wrap64 x = sint (word_of_int x :: 64 word)"

definition releaseOrphan_body :: "string list \<Rightarrow> string \<Rightarrow> ZkBalancer \<times> bool \<Rightarrow> ZkBalancer \<times> bool" where
  "releaseOrphan_body workers k = (\<lambda>(zb, hasOrphan). case zb_tasks zb k of
       None \<Rightarrow> (zb, hasOrphan)
     | Some r \<Rightarrow>
         (if tk_Owner (zb_heap zb r) \<notin> set workers
          then (upd_task r (\<lambda>t. t\<lparr>tk_Status := Init, tk_Owner := ''''\<rparr>) zb, True)
          else (zb, hasOrphan)))"

definition releaseOrphanTasks :: "string list \<Rightarrow> string list \<Rightarrow> ZkBalancer \<Rightarrow> ZkBalancer \<times> bool" where
  "releaseOrphanTasks ks workers zb = fold (releaseOrphan_body workers) ks (zb, False)"

definition tryReAssignTask :: "int \<Rightarrow> nat \<Rightarrow> string \<Rightarrow> ZkBalancer \<Rightarrow> ZkBalancer" where
  "tryReAssignTask now r newWorker =
     upd_task r (\<lambda>t. let t = t\<lparr>tk_Timestamp := now\<rparr> in
       if tk_Status t = Assigned then
         (if tk_Owner t \<noteq> newWorker then t\<lparr>tk_Owner := newWorker, tk_Status := Releasing\<rparr> else t)
       else if tk_Status t = Init then t\<lparr>tk_Status := Assigned, tk_Owner := newWorker\<rparr>
       else t)"

definition minWeight_body :: "(string \<rightharpoonup> int) \<Rightarrow> string \<Rightarrow> string \<times> int \<Rightarrow> string \<times> int" where
  "minWeight_body workerWeight worker = (\<lambda>(minWorker, minWeight). case workerWeight worker of
       None \<Rightarrow> (minWorker, minWeight)
     | Some weight \<Rightarrow>
         (if minWeight = - 1 \<or> weight < minWeight then (worker, weight) else (minWorker, minWeight)))"

definition minWeightWorker :: "string list \<Rightarrow> (string \<rightharpoonup> int) \<Rightarrow> string" where
  "minWeightWorker ks workerWeight = fst (fold (minWeight_body workerWeight) ks ('''', - 1))"

text \<open>The pointers to the tasks that can be placed, unless one is being released.\<close>

fun sortable_tasks :: "ZkBalancer \<Rightarrow> string list \<Rightarrow> nat list option" where
  "sortable_tasks zb [] = Some []"
| "sortable_tasks zb (k # ks) = (case zb_tasks zb k of
       None \<Rightarrow> sortable_tasks zb ks
     | Some r \<Rightarrow>
         (if tk_Status (zb_heap zb r) = Assigned \<or> tk_Status (zb_heap zb r) = Init
          then map_option ((#) r) (sortable_tasks zb ks)
          else if tk_Status (zb_heap zb r) = Releasing then None
          else sortable_tasks zb ks))"

text \<open>
  \<open>sort.Sort\<close> by descending weight. It is not stable, but the order of the tasks it is given is
  arbitrary already: each sorted order is the stable one of some order of the range.
\<close>

definition sort_tasks :: "ZkBalancer \<Rightarrow> nat list \<Rightarrow> nat list" where
  "sort_tasks zb rs = sort_key (\<lambda>r. - tk_Weight (zb_heap zb r)) rs"

text \<open>The first \<open>len(workers)\<close> tasks go to one worker each, in order.\<close>

fun assign_first ::
  "(nat \<Rightarrow> int) \<Rightarrow> nat \<Rightarrow> string list \<Rightarrow> nat list \<Rightarrow> (string \<rightharpoonup> int) \<Rightarrow> ZkBalancer
   \<Rightarrow> nat \<times> nat list \<times> (string \<rightharpoonup> int) \<times> ZkBalancer" where
  "assign_first now i (w # ws) (r # rs) ww zb =
     assign_first now (Suc i) ws rs (ww(w \<mapsto> tk_Weight (zb_heap zb r))) (tryReAssignTask (now i) r w zb)"
| "assign_first now i [] rs ww zb = (i, rs, ww, zb)"
| "assign_first now i (w # ws) [] ww zb = (i, [], ww, zb)"

text \<open>Each further task goes to the worker of least recorded weight.\<close>

fun assign_rest ::
  "(nat \<Rightarrow> int) \<Rightarrow> (nat \<Rightarrow> string list) \<Rightarrow> nat \<Rightarrow> nat list \<Rightarrow> (string \<rightharpoonup> int) \<Rightarrow> ZkBalancer \<Rightarrow> ZkBalancer" where
  "assign_rest now wo i [] ww zb = zb"
| "assign_rest now wo i (r # rs) ww zb =
     (let minWorker = minWeightWorker (wo i) ww;
          zb' = tryReAssignTask (now i) r minWorker zb;
          old = (case ww minWorker of None \<Rightarrow> 0 | Some x \<Rightarrow> x)
      in assign_rest now wo (Suc i) rs
           (ww(minWorker \<mapsto> wrap64 (old + wrap64 (old + tk_Weight (zb_heap zb' r))))) zb')"

definition place_tasks ::
  "(nat \<Rightarrow> int) \<Rightarrow> (nat \<Rightarrow> string list) \<Rightarrow> string list \<Rightarrow> nat list \<Rightarrow> ZkBalancer \<Rightarrow> ZkBalancer" where
  "place_tasks now wo workers sortedTask zb =
     (case assign_first now 0 workers sortedTask Map.empty zb of
        (i, rest, ww, zb) \<Rightarrow> assign_rest now wo i rest ww zb)"

definition publish ::
  "'z zk_ops \<Rightarrow> (string \<Rightarrow> string list) \<Rightarrow> ZkBalancer \<Rightarrow> string list \<Rightarrow> 'z \<Rightarrow> 'z" where
  "publish Z oi zb workers z = fold (\<lambda>worker z. fst (assignedTasks Z oi zb worker z)) workers z"

text \<open>
  The choices Go makes in one call: the order of each range over a map and the clock. \<open>ch_tasks\<close>
  is the order of the outer range over \<open>zb.tasks\<close>, \<open>ch_inner\<close> that inside \<open>assignedTasks\<close>,
  \<open>ch_weights\<close> that over \<open>workersWeight\<close> for the i-th task.
\<close>

record choices =
  ch_tasks :: "string list"
  ch_inner :: "string \<Rightarrow> string list"
  ch_weights :: "nat \<Rightarrow> string list"
  ch_now :: "nat \<Rightarrow> int"

definition balanceTasks ::
  "'z zk_ops \<Rightarrow> choices \<Rightarrow> string list \<Rightarrow> ZkBalancer \<times> 'z \<Rightarrow> (ZkBalancer \<times> 'z) \<times> bool" where
  "balanceTasks Z ch workers = (\<lambda>(zb, z).
     if length workers = 0 then ((zb, z), False)
     else case sortable_tasks zb (ch_tasks ch) of
       None \<Rightarrow> ((zb\<lparr>zb_postponed := True\<rparr>, z), False)
     | Some rs \<Rightarrow>
         (if length rs = 0 then ((zb\<lparr>zb_postponed := False\<rparr>, z), True)
          else
            (let zb = place_tasks (ch_now ch) (ch_weights ch) workers (sort_tasks zb rs) zb;
                 z = publish Z (ch_inner ch) zb workers z
             in ((zb\<lparr>zb_postponed := False\<rparr>, z), True))))"

fun republish ::
  "'z zk_ops \<Rightarrow> (string \<Rightarrow> string list) \<Rightarrow> ZkBalancer \<Rightarrow> Task list \<Rightarrow> string list \<Rightarrow> 'z \<Rightarrow> 'z" where
  "republish Z oi zb [] needReAssignWorker z = z"
| "republish Z oi zb (task # ts) needReAssignWorker z =
     (if tk_Owner task \<notin> set needReAssignWorker
      then republish Z oi zb ts (tk_Owner task # needReAssignWorker) (fst (assignedTasks Z oi zb (tk_Owner task) z))
      else republish Z oi zb ts needReAssignWorker z)"

definition balanceTasksOnReleased ::
  "'z zk_ops \<Rightarrow> choices \<Rightarrow> (string \<Rightarrow> string list) \<Rightarrow> Task list \<Rightarrow> ZkBalancer \<times> 'z \<Rightarrow> ZkBalancer \<times> 'z" where
  "balanceTasksOnReleased Z ch oi tasksReleased = (\<lambda>(zb, z).
     let (s, done) =
       (if zb_postponed zb then
          (case zkChildren Z z (zb_workerBasePath zb) of
             Inr workers \<Rightarrow> balanceTasks Z ch workers (zb, z)
           | Inl e \<Rightarrow> ((zb, z), False))
        else ((zb, z), False))
     in if done then s else (fst s, republish Z oi (fst s) tasksReleased [] (snd s)))"

subsection \<open>Releases\<close>

text \<open>One task of the release map; the list collects the tasks to publish to their new owners.\<close>

definition released_body ::
  "(string \<Rightarrow> int) \<Rightarrow> (string \<rightharpoonup> Task) \<Rightarrow> string \<Rightarrow> ZkBalancer \<times> Task list \<Rightarrow> ZkBalancer \<times> Task list" where
  "released_body now releasedTasks k = (\<lambda>(zb, need). case releasedTasks k of
       None \<Rightarrow> (zb, need)
     | Some rlt \<Rightarrow> (case zb_tasks zb (tk_Path rlt) of
           None \<Rightarrow> (zb, need)
         | Some r \<Rightarrow> (case tk_Status (zb_heap zb r) of
               Init \<Rightarrow> (zb, need)
             | Assigned \<Rightarrow> (zb, need)
             | Deleting \<Rightarrow> (zb\<lparr>zb_tasks := (zb_tasks zb)(tk_Path (zb_heap zb r) := None)\<rparr>, need)
             | Releasing \<Rightarrow>
                 (let zb = upd_task r (\<lambda>t. t\<lparr>tk_Status := Assigned, tk_Timestamp := now k\<rparr>) zb
                  in (zb, need @ [zb_heap zb r])))))"

definition innerOnReleased ::
  "'z zk_ops \<Rightarrow> choices \<Rightarrow> (string \<Rightarrow> string list) \<Rightarrow> (string \<Rightarrow> int) \<Rightarrow> string list \<Rightarrow> (string \<rightharpoonup> Task)
   \<Rightarrow> ZkBalancer \<times> 'z \<Rightarrow> ZkBalancer \<times> 'z" where
  "innerOnReleased Z ch oi now rs releasedTasks = (\<lambda>(zb, z).
     let (zb, needAssignedTasks) = fold (released_body now releasedTasks) rs (zb, [])
     in if length needAssignedTasks > 0 then balanceTasksOnReleased Z ch oi needAssignedTasks (zb, z)
        else (zb, z))"

definition collect_released :: "'z zk_ops \<Rightarrow> string \<Rightarrow> 'z \<Rightarrow> string list \<Rightarrow> string \<rightharpoonup> Task" where
  "collect_released Z eventBase z events =
     fold (\<lambda>event m. case zkGet Z z (path_of eventBase event) of
         Inl e \<Rightarrow> m
       | Inr data \<Rightarrow> (case decodeData data of
             Inl e \<Rightarrow> m
           | Inr releasedTasks \<Rightarrow> fold (\<lambda>v m. m(tk_Path v \<mapsto> v)) releasedTasks m)) events Map.empty"

definition handleReleasedEvents ::
  "'z zk_ops \<Rightarrow> choices \<Rightarrow> (string \<Rightarrow> string list) \<Rightarrow> (string \<Rightarrow> int) \<Rightarrow> string list
   \<Rightarrow> ZkBalancer \<times> 'z \<Rightarrow> ZkBalancer \<times> 'z" where
  "handleReleasedEvents Z ch oi now rs = (\<lambda>(zb, z). case zkChildren Z z (zb_eventBasePath zb) of
       Inl e \<Rightarrow> (zb, z)
     | Inr events \<Rightarrow>
         (if length events > 0 then
            (let (zb', z) = innerOnReleased Z ch oi now rs
                              (collect_released Z (zb_eventBasePath zb) z events) (zb, z)
             in (zb', fold (\<lambda>event z. fst (zkDelete Z z (path_of (zb_eventBasePath zb) event))) events z))
          else (zb, z)))"

text \<open>The scheduled check. \<open>now k 0\<close> is the reading compared, \<open>now k 1\<close> the one stored.\<close>

record check_acc =
  ca_zb :: ZkBalancer
  ca_need :: "Task list"
  ca_hasInit :: bool
  ca_hasReleasing :: bool

definition check_body :: "(string \<Rightarrow> nat \<Rightarrow> int) \<Rightarrow> string \<Rightarrow> check_acc \<Rightarrow> check_acc" where
  "check_body now k a = (let zb = ca_zb a in case zb_tasks zb k of
       None \<Rightarrow> a
     | Some r \<Rightarrow> (let t = zb_heap zb r in case tk_Status t of
           Releasing \<Rightarrow>
             (if now k 0 - tk_Timestamp t \<ge> releasingTimeout then
                (let zb = upd_task r (\<lambda>t. t\<lparr>tk_Timestamp := now k 1, tk_Status := Assigned\<rparr>) zb
                 in a\<lparr>ca_zb := zb, ca_need := ca_need a @ [zb_heap zb r]\<rparr>)
              else a\<lparr>ca_hasReleasing := True\<rparr>)
         | Deleting \<Rightarrow>
             (if now k 0 - tk_Timestamp t \<ge> releasingTimeout
              then a\<lparr>ca_zb := zb\<lparr>zb_tasks := (zb_tasks zb)(tk_Path t := None)\<rparr>\<rparr>
              else a)
         | Init \<Rightarrow> a\<lparr>ca_hasInit := True, ca_zb := upd_task r (\<lambda>t. t\<lparr>tk_Timestamp := now k 1\<rparr>) zb\<rparr>
         | Assigned \<Rightarrow> a))"

definition check_scan :: "(string \<Rightarrow> nat \<Rightarrow> int) \<Rightarrow> string list \<Rightarrow> ZkBalancer \<Rightarrow> check_acc" where
  "check_scan now ks zb =
     fold (check_body now) ks \<lparr>ca_zb = zb, ca_need = [], ca_hasInit = False, ca_hasReleasing = False\<rparr>"

definition handleReleaseTimeoutAndInitTasks ::
  "'z zk_ops \<Rightarrow> choices \<Rightarrow> choices \<Rightarrow> (string \<Rightarrow> string list) \<Rightarrow> (string \<Rightarrow> nat \<Rightarrow> int) \<Rightarrow> string list
   \<Rightarrow> ZkBalancer \<times> 'z \<Rightarrow> ZkBalancer \<times> 'z" where
  "handleReleaseTimeoutAndInitTasks Z ch ch' oi now ks = (\<lambda>(zb, z).
     let a = check_scan now ks zb;
         s = (ca_zb a, z);
         (s, done) =
           (if ca_hasInit a then
              (if \<not> ca_hasReleasing a then
                 (case zkChildren Z z (zb_workerBasePath (ca_zb a)) of
                    Inr workers \<Rightarrow> balanceTasks Z ch workers s
                  | Inl e \<Rightarrow> (s, False))
               else (((ca_zb a)\<lparr>zb_postponed := True\<rparr>, z), False))
            else (s, False))
     in if done then s
        else if length (ca_need a) > 0 then balanceTasksOnReleased Z ch' oi (ca_need a) s
        else s)"

subsection \<open>Master and worker processes\<close>

text \<open>The handler of a change of the worker nodes.\<close>

definition onWorkersChanged ::
  "'z zk_ops \<Rightarrow> choices \<Rightarrow> string list \<Rightarrow> ZkBalancer \<times> 'z \<Rightarrow> ZkBalancer \<times> 'z" where
  "onWorkersChanged Z ch ks = (\<lambda>(zb, z). case zkChildren Z z (zb_workerBasePath zb) of
       Inl e \<Rightarrow> (zb, z)
     | Inr workers \<Rightarrow> fst (balanceTasks Z ch workers (fst (releaseOrphanTasks ks workers zb), z)))"

text \<open>
  One round of the loop of \<open>startMaster\<close>, once the lock is held; the flag says whether the round
  went through (\<open>return\<close>) or the loop goes on (\<open>continue\<close>). Releasing the master lock before going
  on leaves this state as it is.
\<close>

definition startMaster_round ::
  "'z zk_ops \<Rightarrow> choices \<Rightarrow> (string \<Rightarrow> string \<Rightarrow> int) \<Rightarrow> (string \<Rightarrow> string list) \<Rightarrow> string list \<Rightarrow> string list
   \<Rightarrow> ZkBalancer \<times> 'z \<Rightarrow> (ZkBalancer \<times> 'z) \<times> bool" where
  "startMaster_round Z ch now oi ks ks' = (\<lambda>(zb, z).
     let zb = zb\<lparr>zb_isMaster := True\<rparr>
     in case zkChildren Z z (zb_workerBasePath zb) of
       Inl e \<Rightarrow> ((zb, z), False)
     | Inr workers \<Rightarrow> (case loadTasks Z now workers z zb of
         (zb, Inl e) \<Rightarrow> ((zb, z), False)
       | (zb, Inr _) \<Rightarrow> (case deprecateTasks Z oi ks zb z of
           (z, Inl e) \<Rightarrow> ((zb, z), False)
         | (z, Inr _) \<Rightarrow>
             (fst (balanceTasks Z ch workers (fst (releaseOrphanTasks ks' workers zb), z)), True))))"

text \<open>One round of \<open>registerWorker\<close>; the flag says whether the loop is left.\<close>

definition registerWorker_round ::
  "'z zk_ops \<Rightarrow> (string \<Rightarrow> int) \<Rightarrow> ZkBalancer \<times> 'z \<Rightarrow> (ZkBalancer \<times> 'z) \<times> bool" where
  "registerWorker_round Z now = (\<lambda>(zb, z).
     case zkCreate Z z (workerEphemeralPath zb) NoData of
       (z, err) \<Rightarrow>
         (if err = None \<or> err = Some ErrNodeExists then
            (let zb = (if err = Some ErrNodeExists then fst (loadTasksForWorker Z now (zb_workerPath zb) z zb) else zb)
             in ((zb, z), \<not> Sum_Type.isl (zkGet Z z (workerEphemeralPath zb))))
          else ((zb, z), False)))"

definition unRegisterWorker :: "'z zk_ops \<Rightarrow> ZkBalancer \<times> 'z \<Rightarrow> (ZkBalancer \<times> 'z) \<times> unit res" where
  "unRegisterWorker Z = (\<lambda>(zb, z). case zkDelete Z z (workerEphemeralPath zb) of
       (z, Some e) \<Rightarrow> ((zb, z), Inl (Err ''failed unRegister worker''))
     | (z, None) \<Rightarrow> ((zb, z), Inr ()))"


text \<open>\<open>Stop\<close>: a master gives its lock back, and the worker leaves. What \<open>ReleaseLock\<close> and \<open>unRegisterWorker\<close> answer is dropped.\<close>

definition zb_Stop ::
  "('l \<Rightarrow> 'l \<times> unit res) \<Rightarrow> 'z zk_ops \<Rightarrow> (ZkBalancer \<times> 'z) \<times> 'l zk_locks \<Rightarrow> ((ZkBalancer \<times> 'z) \<times> 'l zk_locks) \<times> unit res" where
  "zb_Stop unlock Z = (\<lambda>(s, zl).
     case (if zb_isMaster (fst s) then ReleaseLock unlock (masterLockName (fst s)) zl else (zl, Inr ())) of
       (zl, Inl (Panic p)) \<Rightarrow> ((s, zl), Inl (Panic p))
     | (zl, _) \<Rightarrow> ((fst (unRegisterWorker Z s), zl), Inr ()))"

text \<open>The lock is free for another process, but the flag, the table and with them the handlers of the master are as before: the goroutines of
  \<open>startMaster\<close> are not told, and the change of the workers that \<open>Stop\<close> makes is the next thing they handle.\<close>

lemma Stop_leaves_a_master:
  assumes "zb_isMaster zb" "locks (masterLockName zb) = Some l" "zkDelete Z z (workerEphemeralPath zb) = (z', None)"
  shows "zb_Stop unlock Z ((zb, z), Some locks) = (((zb, z'), Some (locks(masterLockName zb \<mapsto> fst (unlock l)))), Inr ())"
  using assms by (simp add: zb_Stop_def ReleaseLock_def unRegisterWorker_def)

end
