(* ===== verification/Zk_Safety.thy ===== *)
theory Zk_Safety
  imports Zk_Balancer
begin

section \<open>Correctness of the task balancer\<close>

text \<open>
  The laws of the store, and the invariant of the master: a task in the data of a live worker's node is, in the master's table, assigned
  to that worker. Each handler, run on its own against the children it reads, keeps it; \<open>Zk_Concurrent\<close> has the handlers interleaved.
\<close>

subsection \<open>The laws of the store\<close>

text \<open>
  \<open>nodes\<close> is the content of the server. A connection that answers every request behaves as the
  ZooKeeper documentation says of \<open>getData\<close>, \<open>setData\<close>, \<open>create\<close>, \<open>delete\<close> and \<open>getChildren\<close>.
\<close>

definition zk_get_law :: "'z zk_ops \<Rightarrow> ('z \<Rightarrow> string \<rightharpoonup> zk_data) \<Rightarrow> bool" where
  "zk_get_law Z nodes \<longleftrightarrow>
     (\<forall>z p. zkGet Z z p = (case nodes z p of None \<Rightarrow> Inl ErrNoNode | Some d \<Rightarrow> Inr d))"

definition zk_set_law :: "'z zk_ops \<Rightarrow> ('z \<Rightarrow> string \<rightharpoonup> zk_data) \<Rightarrow> bool" where
  "zk_set_law Z nodes \<longleftrightarrow>
     (\<forall>z p d. if p \<in> dom (nodes z)
       then snd (zkSet Z z p d) = None \<and> nodes (fst (zkSet Z z p d)) = (nodes z)(p \<mapsto> d)
       else snd (zkSet Z z p d) = Some ErrNoNode \<and> nodes (fst (zkSet Z z p d)) = nodes z)"

definition zk_create_law :: "'z zk_ops \<Rightarrow> ('z \<Rightarrow> string \<rightharpoonup> zk_data) \<Rightarrow> bool" where
  "zk_create_law Z nodes \<longleftrightarrow>
     (\<forall>z p d. if p \<in> dom (nodes z)
       then snd (zkCreate Z z p d) = Some ErrNodeExists \<and> nodes (fst (zkCreate Z z p d)) = nodes z
       else snd (zkCreate Z z p d) = None \<and> nodes (fst (zkCreate Z z p d)) = (nodes z)(p \<mapsto> d))"

definition zk_create_seq_law :: "'z zk_ops \<Rightarrow> ('z \<Rightarrow> string \<rightharpoonup> zk_data) \<Rightarrow> bool" where
  "zk_create_seq_law Z nodes \<longleftrightarrow>
     (\<forall>z b n d. CHR ''/'' \<notin> set n \<longrightarrow> (\<exists>m. CHR ''/'' \<notin> set m \<and> nodes z (path_of b m) = None \<and>
       snd (zkCreateSeq Z z (path_of b n) d) = None \<and>
       nodes (fst (zkCreateSeq Z z (path_of b n) d)) = (nodes z)(path_of b m \<mapsto> d)))"

definition zk_delete_law :: "'z zk_ops \<Rightarrow> ('z \<Rightarrow> string \<rightharpoonup> zk_data) \<Rightarrow> bool" where
  "zk_delete_law Z nodes \<longleftrightarrow> 
     (\<forall>z p. nodes (fst (zkDelete Z z p)) = (nodes z)(p := None)
       \<or> snd (zkDelete Z z p) \<noteq> None \<and> nodes (fst (zkDelete Z z p)) = nodes z)"

definition zk_children_law :: "'z zk_ops \<Rightarrow> ('z \<Rightarrow> string \<rightharpoonup> zk_data) \<Rightarrow> bool" where
  "zk_children_law Z nodes \<longleftrightarrow>
     (\<forall>z b ws. zkChildren Z z b = Inr ws \<longrightarrow>
       distinct ws \<and> set ws = {w. CHR ''/'' \<notin> set w \<and> path_of b w \<in> dom (nodes z)})"

definition zk_reliable :: "'z zk_ops \<Rightarrow> ('z \<Rightarrow> string \<rightharpoonup> zk_data) \<Rightarrow> bool" where
  "zk_reliable Z nodes \<longleftrightarrow> zk_get_law Z nodes \<and> zk_set_law Z nodes \<and> zk_create_law Z nodes
     \<and> zk_create_seq_law Z nodes \<and> zk_delete_law Z nodes \<and> zk_children_law Z nodes"

lemma path_of_inject [simp]: "path_of b x = path_of b y \<longleftrightarrow> x = y"
  by (simp add: path_of_def)

lemma path_of_base:
  assumes "path_of b x = path_of c y" "CHR ''/'' \<notin> set x" "CHR ''/'' \<notin> set y"
  shows "b = c \<and> x = y"
proof -
  let ?P = "\<lambda>c. c \<noteq> CHR ''/''"
  have *: "takeWhile ?P (rev (path_of b x)) = rev x" if "CHR ''/'' \<notin> set x" for b x
    using that unfolding path_of_def
    by (subst rev_append, subst rev_append, subst append_assoc, subst takeWhile_append2) auto
  have "x = y" using * [of x b] * [of y c] assms by simp
  then show ?thesis using assms(1) by (simp add: path_of_def)
qed

lemma zkSet_other:
  "zk_set_law Z nodes \<Longrightarrow> q \<noteq> p \<Longrightarrow> nodes (fst (zkSet Z z p d)) q = nodes z q"
  unfolding zk_set_law_def by (metis fun_upd_other)

lemma zkSet_dom: "zk_set_law Z nodes \<Longrightarrow> dom (nodes (fst (zkSet Z z p d))) = dom (nodes z)"
  unfolding zk_set_law_def by (metis dom_fun_upd insert_absorb option.distinct(1))

lemma zkSet_same:
  "zk_set_law Z nodes \<Longrightarrow> p \<in> dom (nodes z) \<Longrightarrow> nodes (fst (zkSet Z z p d)) p = Some d"
  unfolding zk_set_law_def by (metis fun_upd_same)

subsection \<open>Publishing\<close>

definition node_doc :: "Task list \<Rightarrow> zk_data" where
  "node_doc ts = (if ts = [] then NoData else TaskDoc ts)"

lemma decode_node_doc [simp]: "decodeData (node_doc ts) = Inr ts"
  by (simp add: node_doc_def decodeData_def)

lemma encodeData_node_doc: "encodeData ts = Inr (node_doc ts)"
  by (simp add: encodeData_def node_doc_def)

lemma assignedTasks_fst:
  "fst (assignedTasks Z oi zb w z) = fst (zkSet Z z (path_of (zb_workerBasePath zb) w) (node_doc (tasks_of zb (oi w) w)))"
  by (simp add: assignedTasks_def encodeData_node_doc split: prod.splits option.splits)

text \<open>The content of the nodes after publishing to a list of workers.\<close>

lemma publish_simps [simp]:
  "publish Z oi zb [] z = z"
  "publish Z oi zb (w # ws) z = publish Z oi zb ws (fst (zkSet Z z (path_of (zb_workerBasePath zb) w)
     (node_doc (tasks_of zb (oi w) w))))"
  by (simp_all add: publish_def assignedTasks_fst)

lemma dom_publish: "zk_set_law Z nodes \<Longrightarrow> dom (nodes (publish Z oi zb ws z)) = dom (nodes z)"
  by (induction ws arbitrary: z) (simp_all add: zkSet_dom)

lemma nodes_publish_other:
  "zk_set_law Z nodes \<Longrightarrow> q \<notin> path_of (zb_workerBasePath zb) ` set ws \<Longrightarrow>
   nodes (publish Z oi zb ws z) q = nodes z q"
  by (induction ws arbitrary: z) (simp_all add: zkSet_other)

lemma nodes_publish_worker:
  assumes "zk_set_law Z nodes"
  shows "nodes (publish Z oi zb ws z) (path_of (zb_workerBasePath zb) w) =
    (if w \<in> set ws \<and> path_of (zb_workerBasePath zb) w \<in> dom (nodes z)
     then Some (node_doc (tasks_of zb (oi w) w)) else nodes z (path_of (zb_workerBasePath zb) w))"
proof (induction ws arbitrary: z)
  case (Cons w' ws)
  then show ?case
    using assms by (cases "w' = w") (simp_all add: zkSet_dom zkSet_other zkSet_same, simp add: zk_set_law_def)
qed simp

subsection \<open>Tables without aliasing\<close>

definition unaliased :: "ZkBalancer \<Rightarrow> bool" where
  "unaliased zb \<longleftrightarrow>
     (\<forall>k r. zb_tasks zb k = Some r \<longrightarrow> tk_Path (zb_heap zb r) = k \<and> r < zb_next zb)"

lemma unaliased_inj: "unaliased zb \<Longrightarrow> zb_tasks zb k = Some r \<Longrightarrow> zb_tasks zb k' = Some r \<Longrightarrow> k = k'"
  unfolding unaliased_def by metis

text \<open>The fields the balancing operations never write.\<close>

definition conf :: "ZkBalancer \<Rightarrow> string \<times> string \<times> string \<times> nat" where
  "conf zb = (zb_workerBasePath zb, zb_eventBasePath zb, zb_workerPath zb, zb_next zb)"

definition keeps_path :: "(Task \<Rightarrow> Task) \<Rightarrow> bool" where
  "keeps_path f \<longleftrightarrow> (\<forall>t. tk_Path (f t) = tk_Path t)"

lemma upd_task_simps [simp]:
  "zb_tasks (upd_task r f zb) = zb_tasks zb"
  "zb_workerBasePath (upd_task r f zb) = zb_workerBasePath zb"
  "zb_next (upd_task r f zb) = zb_next zb"
  "conf (upd_task r f zb) = conf zb"
  "zb_heap (upd_task r f zb) r' = (if r' = r then f (zb_heap zb r) else zb_heap zb r')"
  by (simp_all add: upd_task_def conf_def)

lemma unaliased_upd [intro]: "unaliased zb \<Longrightarrow> keeps_path f \<Longrightarrow> unaliased (upd_task r f zb)"
  by (auto simp: unaliased_def keeps_path_def)

lemma task_at_upd:
  "unaliased zb \<Longrightarrow> zb_tasks zb k = Some r \<Longrightarrow>
   task_at (upd_task r f zb) k' = (if k' = k then Some (f (zb_heap zb r)) else task_at zb k')"
  by (cases "zb_tasks zb k'") (auto simp: task_at_def dest: unaliased_inj)

text \<open>What the master's table says a worker runs.\<close>

definition holds :: "ZkBalancer \<Rightarrow> string \<Rightarrow> string \<Rightarrow> bool" where
  "holds zb w p \<longleftrightarrow> (\<exists>t. task_at zb p = Some t \<and> tk_Status t = Assigned \<and> tk_Owner t = w)"

lemma tasks_of_iff:
  "t \<in> set (tasks_of zb ks w) \<longleftrightarrow>
   tk_Owner t = w \<and> tk_Status t = Assigned \<and> (\<exists>k \<in> set ks. task_at zb k = Some t)"
  by (force simp: tasks_of_def range_tasks_def map_filter_def)

lemma task_at_path: "unaliased zb \<Longrightarrow> task_at zb k = Some t \<Longrightarrow> tk_Path t = k"
  by (auto simp: task_at_def unaliased_def)

lemma tasks_of_holds: "unaliased zb \<Longrightarrow> t \<in> set (tasks_of zb ks w) \<Longrightarrow> holds zb w (tk_Path t)"
  by (auto simp: tasks_of_iff holds_def dest: task_at_path)

subsection \<open>The invariant\<close>

definition published :: "(string \<rightharpoonup> zk_data) \<Rightarrow> string \<Rightarrow> string \<Rightarrow> string set" where
  "published nds base w = (case nds (path_of base w) of
       Some d \<Rightarrow> (case decodeData d of Inr ts \<Rightarrow> tk_Path ` set ts | Inl _ \<Rightarrow> {})
     | None \<Rightarrow> {})"

definition published_ok :: "ZkBalancer \<Rightarrow> (string \<rightharpoonup> zk_data) \<Rightarrow> bool" where
  "published_ok zb nds \<longleftrightarrow>
     (\<forall>w p. CHR ''/'' \<notin> set w \<longrightarrow> p \<in> published nds (zb_workerBasePath zb) w \<longrightarrow> holds zb w p)"

definition zb_inv :: "ZkBalancer \<Rightarrow> (string \<rightharpoonup> zk_data) \<Rightarrow> bool" where
  "zb_inv zb nds \<longleftrightarrow> unaliased zb \<and> published_ok zb nds
     \<and> zb_workerBasePath zb \<noteq> zb_eventBasePath zb \<and> CHR ''/'' \<notin> set (zb_workerPath zb)"

lemma published_cong: "nds (path_of base w) = nds' (path_of base w) \<Longrightarrow> published nds base w = published nds' base w"
  by (simp add: published_def)

lemma published_node_doc:
  "nds (path_of base w) = Some (node_doc ts) \<Longrightarrow> published nds base w = tk_Path ` set ts"
  by (simp add: published_def)

lemma published_ok_exclusive:
  "published_ok zb nds \<Longrightarrow> CHR ''/'' \<notin> set w \<Longrightarrow> CHR ''/'' \<notin> set w' \<Longrightarrow>
   p \<in> published nds (zb_workerBasePath zb) w \<Longrightarrow> p \<in> published nds (zb_workerBasePath zb) w' \<Longrightarrow> w = w'"
  unfolding published_ok_def holds_def by (metis option.inject)

lemma published_ok_assigned:
  assumes "zk_set_law Z nodes" "unaliased zb" "published_ok zb (nodes z)"
  shows "published_ok zb (nodes (fst (assignedTasks Z oi zb w z)))"
  unfolding published_ok_def
proof (intro allI impI)
  fix w' p
  let ?z = "fst (assignedTasks Z oi zb w z)"
  assume *: "CHR ''/'' \<notin> set w'" "p \<in> published (nodes ?z) (zb_workerBasePath zb) w'"
  have n: "nodes ?z (path_of (zb_workerBasePath zb) w') =
     (if w' = w \<and> path_of (zb_workerBasePath zb) w \<in> dom (nodes z) then Some (node_doc (tasks_of zb (oi w) w))
      else nodes z (path_of (zb_workerBasePath zb) w'))"
    using nodes_publish_worker [OF assms(1), of oi zb "[w]" z w'] by (auto simp: assignedTasks_fst)
  show "holds zb w' p"
  proof (cases "w' = w \<and> path_of (zb_workerBasePath zb) w \<in> dom (nodes z)")
    case True
    then show ?thesis using * n assms(2) by (auto simp: published_node_doc intro: tasks_of_holds)
  next
    case False
    then have "nodes ?z (path_of (zb_workerBasePath zb) w') = nodes z (path_of (zb_workerBasePath zb) w')"
      using n by auto
    then have "p \<in> published (nodes z) (zb_workerBasePath zb) w'"
      using *(2) by (simp add: published_def)
    then show ?thesis using * assms(3) unfolding published_ok_def by blast
  qed
qed

lemma published_ok_republish:
  assumes "zk_set_law Z nodes" "unaliased zb" "published_ok zb (nodes z)"
  shows "published_ok zb (nodes (republish Z oi zb ts seen z))"
  using assms(3)
  by (induction ts arbitrary: seen z) (simp_all add: published_ok_assigned assms)

text \<open>Publishing to every live worker establishes the invariant whatever the nodes held.\<close>

lemma published_ok_publish_all:
  assumes "zk_set_law Z nodes" "unaliased zb"
    and live: "\<And>w. CHR ''/'' \<notin> set w \<Longrightarrow> path_of (zb_workerBasePath zb) w \<in> dom (nodes z) \<Longrightarrow> w \<in> set ws"
  shows "published_ok zb (nodes (publish Z oi zb ws z))"
  unfolding published_ok_def
proof (intro allI impI)
  fix w p
  assume *: "CHR ''/'' \<notin> set w" "p \<in> published (nodes (publish Z oi zb ws z)) (zb_workerBasePath zb) w"
  show "holds zb w p"
  proof (cases "path_of (zb_workerBasePath zb) w \<in> dom (nodes z)")
    case True
    then have "nodes (publish Z oi zb ws z) (path_of (zb_workerBasePath zb) w) = Some (node_doc (tasks_of zb (oi w) w))"
      using live * by (simp add: nodes_publish_worker [OF assms(1)])
    then show ?thesis using * assms(2) by (auto simp: published_node_doc intro: tasks_of_holds)
  next
    case False
    then show ?thesis using * nodes_publish_worker [OF assms(1), of oi zb ws z w]
      by (simp add: published_def domIff)
  qed
qed

subsection \<open>Operations on the table\<close>

text \<open>
  \<open>keeps W zb zb'\<close>: the table has the same keys, is still free of aliasing, and a worker in \<open>W\<close>
  still holds the tasks it held.
\<close>

definition keeps :: "string set \<Rightarrow> ZkBalancer \<Rightarrow> ZkBalancer \<Rightarrow> bool" where
  "keeps W zb zb' \<longleftrightarrow> unaliased zb' \<and> (\<forall>w \<in> W. \<forall>p. holds zb w p \<longrightarrow> holds zb' w p)
     \<and> conf zb' = conf zb"

lemma keeps_refl: "unaliased zb \<Longrightarrow> keeps W zb zb"
  by (simp add: keeps_def)

lemma keeps_trans: "keeps W zb zb' \<Longrightarrow> keeps W zb' zb'' \<Longrightarrow> keeps W zb zb''"
  by (simp add: keeps_def)

lemma keeps_upd:
  assumes "unaliased zb" "zb_tasks zb k = Some r" "keeps_path f"
    and "\<And>w. w \<in> W \<Longrightarrow> tk_Status (zb_heap zb r) = Assigned \<Longrightarrow> tk_Owner (zb_heap zb r) = w \<Longrightarrow>
          tk_Status (f (zb_heap zb r)) = Assigned \<and> tk_Owner (f (zb_heap zb r)) = w"
  shows "keeps W zb (upd_task r f zb)"
proof -
  have "task_at zb k = Some (zb_heap zb r)" using assms(2) by (simp add: task_at_def)
  then show ?thesis using assms by (auto simp: keeps_def holds_def task_at_upd)
qed

lemma keeps_delete:
  assumes "unaliased zb" "zb_tasks zb k = Some r" "tk_Status (zb_heap zb r) \<noteq> Assigned"
  shows "keeps W zb (zb\<lparr>zb_tasks := (zb_tasks zb)(tk_Path (zb_heap zb r) := None)\<rparr>)"
proof -
  have "tk_Path (zb_heap zb r) = k" using assms(1,2) by (simp add: unaliased_def)
  then show ?thesis using assms by (auto simp: keeps_def holds_def task_at_def unaliased_def conf_def)
qed

lemma keeps_fold:
  assumes "\<And>x s. unaliased (g s) \<Longrightarrow> keeps W (g s) (g (f x s))" "unaliased (g s)"
  shows "keeps W (g s) (g (fold f xs s))"
  using assms(2)
proof (induction xs arbitrary: s)
  case (Cons x xs)
  then have "keeps W (g s) (g (f x s))" "unaliased (g (f x s))" using assms(1) by (auto simp: keeps_def)
  then show ?case using Cons.IH keeps_trans by fastforce
qed (simp add: keeps_refl)

lemma keeps_releaseOrphan:
  assumes "unaliased zb"
  shows "keeps (set workers) zb (fst (releaseOrphanTasks ks workers zb))"
proof -
  have "keeps (set workers) (fst (zb, False)) (fst (fold (releaseOrphan_body workers) ks (zb, False)))"
    using assms
    by (intro keeps_fold)
      (auto simp: releaseOrphan_body_def keeps_refl keeps_path_def split: option.splits intro!: keeps_upd)
  then show ?thesis by (simp add: releaseOrphanTasks_def)
qed

lemma keeps_released:
  assumes "unaliased zb"
  shows "keeps W zb (fst (fold (released_body now rel) rs (zb, need)))"
proof -
  have "keeps W (fst (zb, need)) (fst (fold (released_body now rel) rs (zb, need)))"
    using assms
    by (intro keeps_fold)
      (auto simp: released_body_def keeps_refl keeps_path_def Let_def
        split: option.splits status.splits intro!: keeps_upd keeps_delete)
  then show ?thesis by simp
qed

lemma keeps_check:
  assumes "unaliased zb"
  shows "keeps W zb (ca_zb (check_scan now ks zb))"
proof -
  have "keeps W (ca_zb a) (ca_zb (fold (check_body now) ks a))" if "unaliased (ca_zb a)" for a
    using that
    by (intro keeps_fold [of ca_zb])
      (auto simp: check_body_def keeps_refl keeps_path_def Let_def
        split: option.splits status.splits intro!: keeps_upd keeps_delete)
  from this [of "\<lparr>ca_zb = zb, ca_need = [], ca_hasInit = False, ca_hasReleasing = False\<rparr>"] assms
  show ?thesis by (simp add: check_scan_def)
qed

lemma keeps_published_ok:
  assumes "keeps W zb zb'" "published_ok zb nds"
    and "\<And>w. CHR ''/'' \<notin> set w \<Longrightarrow> path_of (zb_workerBasePath zb) w \<in> dom nds \<Longrightarrow> w \<in> W"
  shows "published_ok zb' nds"
  using assms by (fastforce simp: published_ok_def keeps_def conf_def published_def split: option.splits)

lemma keeps_inv: "keeps UNIV zb zb' \<Longrightarrow> zb_inv zb nds \<Longrightarrow> zb_inv zb' nds"
  using keeps_published_ok [of UNIV zb zb' nds] by (auto simp: zb_inv_def keeps_def conf_def)

text \<open>Placing tasks only writes through pointers; the paths and the keys stay.\<close>

lemma keeps_path_reassign: "keeps_path (\<lambda>t. let t = t\<lparr>tk_Timestamp := now\<rparr> in
       if tk_Status t = Assigned then
         (if tk_Owner t \<noteq> w then t\<lparr>tk_Owner := w, tk_Status := Releasing\<rparr> else t)
       else if tk_Status t = Init then t\<lparr>tk_Status := Assigned, tk_Owner := w\<rparr>
       else t)"
  by (simp add: keeps_path_def Let_def)

definition same_keys :: "ZkBalancer \<Rightarrow> ZkBalancer \<Rightarrow> bool" where
  "same_keys zb zb' \<longleftrightarrow> zb_tasks zb' = zb_tasks zb \<and> (\<forall>r. tk_Path (zb_heap zb' r) = tk_Path (zb_heap zb r))
     \<and> (\<forall>r. tk_Weight (zb_heap zb' r) = tk_Weight (zb_heap zb r))
     \<and> conf zb' = conf zb"

lemma same_keys_refl [simp]: "same_keys zb zb"
  by (simp add: same_keys_def)

lemma same_keys_trans: "same_keys zb zb' \<Longrightarrow> same_keys zb' zb'' \<Longrightarrow> same_keys zb zb''"
  by (simp add: same_keys_def)

lemma same_keys_reassign: "same_keys zb (tryReAssignTask now r w zb)"
  by (auto simp: same_keys_def tryReAssignTask_def Let_def)

lemma same_keys_assign_first:
  "assign_first now i ws rs ww zb = (i', rest, ww', zb') \<Longrightarrow> same_keys zb zb'"
  by (induction now i ws rs ww zb rule: assign_first.induct)
    (auto intro: same_keys_trans [OF same_keys_reassign])

lemma same_keys_assign_rest: "same_keys zb (assign_rest now wo i rs ww zb)"
  by (induction rs arbitrary: i ww zb)
    (auto simp: Let_def intro: same_keys_trans [OF same_keys_reassign])

lemma same_keys_place: "same_keys zb (place_tasks now wo ws rs zb)"
  by (auto simp: place_tasks_def split: prod.splits
      intro: same_keys_trans [OF same_keys_assign_first same_keys_assign_rest])

lemma same_keys_unaliased: "same_keys zb zb' \<Longrightarrow> unaliased zb \<Longrightarrow> unaliased zb'"
  by (simp add: same_keys_def unaliased_def conf_def)

subsection \<open>Handlers keep the invariant\<close>

lemma zk_children_live:
  "zk_children_law Z nodes \<Longrightarrow> zkChildren Z z b = Inr ws \<Longrightarrow> CHR ''/'' \<notin> set w \<Longrightarrow>
   path_of b w \<in> dom (nodes z) \<Longrightarrow> w \<in> set ws"
  unfolding zk_children_law_def by blast

lemma zb_inv_postponed [simp]: "zb_inv (zb\<lparr>zb_postponed := b\<rparr>) nds = zb_inv zb nds"
  by (simp add: zb_inv_def unaliased_def published_ok_def holds_def task_at_def)

lemma zb_invD: "zb_inv zb nds \<Longrightarrow> unaliased zb"
  by (simp add: zb_inv_def)

lemma balanceTasks_inv:
  assumes "zk_set_law Z nodes" "zb_inv zb (nodes z)" "balanceTasks Z ch ws (zb, z) = ((zb', z'), b)"
    and live: "\<And>w. CHR ''/'' \<notin> set w \<Longrightarrow> path_of (zb_workerBasePath zb) w \<in> dom (nodes z) \<Longrightarrow> w \<in> set ws"
  shows "zb_inv zb' (nodes z')"
proof -
  have "zb_inv (place_tasks n wo ws rs zb)
      (nodes (publish Z oi (place_tasks n wo ws rs zb) ws z))" for n wo rs oi
  proof -
    let ?zb = "place_tasks n wo ws rs zb"
    have k: "same_keys zb ?zb" by (rule same_keys_place)
    then have u: "unaliased ?zb" using assms(2) same_keys_unaliased by (auto simp: zb_inv_def)
    moreover have "published_ok ?zb (nodes (publish Z oi ?zb ws z))"
      using assms(1) u by (rule published_ok_publish_all) (use live k in \<open>auto simp: same_keys_def conf_def\<close>)
    ultimately show ?thesis using assms(2) k by (auto simp: zb_inv_def same_keys_def conf_def)
  qed
  then show ?thesis
    using assms(2,3) by (auto simp: balanceTasks_def Let_def split: if_splits option.splits)
qed

lemma balanceTasksOnReleased_inv:
  assumes "zk_set_law Z nodes" "zk_children_law Z nodes" "zb_inv zb (nodes z)"
    and "balanceTasksOnReleased Z ch oi ts (zb, z) = (zb', z')"
  shows "zb_inv zb' (nodes z')"
proof -
  have rep: "zb_inv zb (nodes z) \<Longrightarrow> zb_inv zb (nodes (republish Z oi zb ts [] z))" for zb z
    using assms(1) by (simp add: zb_inv_def published_ok_republish)
  have bal: "zkChildren Z z (zb_workerBasePath zb) = Inr ws \<Longrightarrow>
      balanceTasks Z ch ws (zb, z) = ((zb1, z1), b) \<Longrightarrow> zb_inv zb1 (nodes z1)" for ws zb1 z1 b
    using balanceTasks_inv [OF assms(1,3)] zk_children_live [OF assms(2)] by blast
  show ?thesis
    using assms(3,4)
    by (auto simp: balanceTasksOnReleased_def Let_def rep
        split: if_splits sum.splits prod.splits dest!: bal)
qed

lemma onWorkersChanged_inv:
  assumes "zk_set_law Z nodes" "zk_children_law Z nodes" "zb_inv zb (nodes z)"
    and "onWorkersChanged Z ch ks (zb, z) = (zb', z')"
  shows "zb_inv zb' (nodes z')"
proof (cases "zkChildren Z z (zb_workerBasePath zb)")
  case (Inr ws)
  let ?zb = "fst (releaseOrphanTasks ks ws zb)"
  have k: "keeps (set ws) zb ?zb" using assms(3) by (simp add: keeps_releaseOrphan zb_inv_def)
  have "published_ok ?zb (nodes z)"
    using keeps_published_ok [OF k] assms(3) zk_children_live [OF assms(2) Inr] by (auto simp: zb_inv_def)
  then have i: "zb_inv ?zb (nodes z)" using k assms(3) by (auto simp: zb_inv_def keeps_def conf_def)
  obtain b where "balanceTasks Z ch ws (?zb, z) = ((zb', z'), b)"
    using assms(4) Inr by (cases "balanceTasks Z ch ws (?zb, z)") (auto simp: onWorkersChanged_def)
  then show ?thesis
    using balanceTasks_inv [OF assms(1) i] zk_children_live [OF assms(2) Inr] k
    by (auto simp: keeps_def conf_def)
qed (use assms in \<open>simp add: onWorkersChanged_def\<close>)

lemma innerOnReleased_inv:
  assumes "zk_set_law Z nodes" "zk_children_law Z nodes" "zb_inv zb (nodes z)"
    and "innerOnReleased Z ch oi now rs rel (zb, z) = (zb', z')"
  shows "zb_inv zb' (nodes z')"
proof -
  let ?f = "fold (released_body now rel) rs (zb, [])"
  have "zb_inv (fst ?f) (nodes z)"
    using keeps_released [OF zb_invD [OF assms(3)]] assms(3) by (rule keeps_inv)
  then show ?thesis
    using assms(4) balanceTasksOnReleased_inv [OF assms(1,2)]
    by (cases ?f) (auto simp: innerOnReleased_def split: if_splits)
qed

lemma published_ok_delete:
  assumes "zk_delete_law Z nodes" "zb_inv zb (nodes z)"
  shows "zb_inv zb (nodes (fst (zkDelete Z z p)))"
proof -
  have "zb_inv zb ((nodes z)(p := None))"
    using assms(2) by (auto simp: zb_inv_def published_ok_def published_def)
  then show ?thesis using assms unfolding zk_delete_law_def by metis
qed

lemma zb_inv_fold_delete:
  assumes "zk_delete_law Z nodes" "zb_inv zb (nodes z)"
  shows "zb_inv zb (nodes (fold (\<lambda>e z. fst (zkDelete Z z (g e))) es z))"
  using assms(2) by (induction es arbitrary: z) (simp_all add: published_ok_delete [OF assms(1)])

lemma handleReleasedEvents_inv:
  assumes "zk_set_law Z nodes" "zk_children_law Z nodes" "zk_delete_law Z nodes" "zb_inv zb (nodes z)"
    and "handleReleasedEvents Z ch oi now rs (zb, z) = (zb', z')"
  shows "zb_inv zb' (nodes z')"
  using assms(4,5) innerOnReleased_inv [OF assms(1,2,4)]
  by (auto simp: handleReleasedEvents_def zb_inv_fold_delete [OF assms(3)]
      split: sum.splits if_splits prod.splits)

lemma handleReleaseTimeout_inv:
  assumes "zk_set_law Z nodes" "zk_children_law Z nodes" "zb_inv zb (nodes z)"
    and h: "handleReleaseTimeoutAndInitTasks Z ch ch' oi now ks (zb, z) = (zb', z')"
  shows "zb_inv zb' (nodes z')"
proof -
  let ?zb = "ca_zb (check_scan now ks zb)"
  have i: "zb_inv ?zb (nodes z)" 
    using keeps_check [OF zb_invD [OF assms(3)]] assms(3) by (rule keeps_inv)
  have bal: "zkChildren Z z (zb_workerBasePath ?zb) = Inr ws \<Longrightarrow>
      balanceTasks Z ch ws (?zb, z) = ((zb1, z1), b) \<Longrightarrow> zb_inv zb1 (nodes z1)" for ws zb1 z1 b
    using balanceTasks_inv [OF assms(1) i] zk_children_live [OF assms(2)] by blast
  have rel: "zb_inv zb1 (nodes z1) \<Longrightarrow> balanceTasksOnReleased Z ch' oi ts (zb1, z1) = (zb', z') \<Longrightarrow> ?thesis"
    for zb1 z1 ts using balanceTasksOnReleased_inv [OF assms(1,2)] by blast
  have rel': "balanceTasksOnReleased Z ch' oi ts (?zb\<lparr>zb_postponed := True\<rparr>, z) = (zb', z') \<Longrightarrow> ?thesis"
    for ts using rel [of "?zb\<lparr>zb_postponed := True\<rparr>" z] i by simp
  show ?thesis
    using h i
    by (auto simp: handleReleaseTimeoutAndInitTasks_def Let_def
        split: if_splits sum.splits prod.splits dest!: bal dest: rel rel')
qed

subsection \<open>Loading\<close>

text \<open>Loading tasks that are all known: the table keeps its shape, and each is marked as the worker's.\<close>

definition loaded :: "string \<Rightarrow> string set \<Rightarrow> ZkBalancer \<Rightarrow> ZkBalancer \<Rightarrow> bool" where
  "loaded worker ps zb zb' \<longleftrightarrow> zb_tasks zb' = zb_tasks zb \<and> conf zb' = conf zb \<and>
     (\<forall>k v. zb_tasks zb k = Some v \<longrightarrow> zb_heap zb' v = zb_heap zb v \<or>
       (k \<in> ps \<and> (\<exists>ts. zb_heap zb' v = (zb_heap zb v)\<lparr>tk_Owner := worker, tk_Status := Assigned, tk_Timestamp := ts\<rparr>)))"

lemma load_body_loaded:
  assumes u: "unaliased zb" and r: "r \<notin> ran (zb_tasks zb)"
    and known: "tk_Path wt \<in> ps" "tk_Path wt \<in> dom (zb_tasks zb)" and l: "loaded worker ps zb zb'"
  shows "loaded worker ps zb (load_body now worker r wt zb')"
proof -
  obtain v0 where v0: "zb_tasks zb (tk_Path wt) = Some v0" using known(2) by blast
  have t: "zb_tasks zb' = zb_tasks zb" using l by (simp add: loaded_def)
  have r0: "v0 \<noteq> r" using r v0 by (auto simp: ran_def)
  have b: "load_body now worker r wt zb' = upd_task v0 (\<lambda>t. t\<lparr>tk_Owner := worker, tk_Status := Assigned,
      tk_Timestamp := now (tk_Path wt)\<rparr>) (upd_task r (\<lambda>_. wt) zb')"
    using v0 t by (simp add: load_body_def)
  have "zb_heap (load_body now worker r wt zb') v = zb_heap zb v \<or> (k \<in> ps \<and>
      (\<exists>ts. zb_heap (load_body now worker r wt zb') v
         = (zb_heap zb v)\<lparr>tk_Owner := worker, tk_Status := Assigned, tk_Timestamp := ts\<rparr>))"
    if k: "zb_tasks zb k = Some v" for k v
  proof -
    have h: "zb_heap zb' v = zb_heap zb v \<or> (k \<in> ps \<and>
        (\<exists>ts. zb_heap zb' v = (zb_heap zb v)\<lparr>tk_Owner := worker, tk_Status := Assigned, tk_Timestamp := ts\<rparr>))"
      using l k by (simp add: loaded_def)
    have "v \<noteq> r" using r k by (auto simp: ran_def)
    then show ?thesis
      using h unaliased_inj [OF u k] v0 known(1) r0 unfolding b by (cases "v = v0") auto
  qed
  then show ?thesis using l b by (auto simp: loaded_def)
qed

lemma load_fold_loaded:
  assumes "unaliased zb" "r \<notin> ran (zb_tasks zb)" "tk_Path ` set wts \<subseteq> ps \<inter> dom (zb_tasks zb)"
  shows "loaded worker ps zb (fold (load_body now worker r) wts zb)"
proof (rule fold_invariant [where Q = "\<lambda>wt. tk_Path wt \<in> ps \<inter> dom (zb_tasks zb)"])
  show "loaded worker ps zb zb" by (simp add: loaded_def)
qed (use assms in \<open>auto intro: load_body_loaded\<close>)

lemma loaded_unaliased: "loaded worker ps zb zb' \<Longrightarrow> unaliased zb \<Longrightarrow> unaliased zb'"
  unfolding loaded_def unaliased_def conf_def by fastforce

text \<open>The tasks named in the nodes of workers are tasks of the table.\<close>

definition known_tasks :: "ZkBalancer \<Rightarrow> (string \<rightharpoonup> zk_data) \<Rightarrow> bool" where
  "known_tasks zb nds \<longleftrightarrow> (\<forall>w. published nds (zb_workerBasePath zb) w \<subseteq> dom (zb_tasks zb))"

lemma unaliased_next: "unaliased zb \<Longrightarrow> unaliased (zb\<lparr>zb_next := Suc (zb_next zb)\<rparr>)"
  by (fastforce simp: unaliased_def)

lemma loadTasksForWorker_loaded:
  assumes "zk_get_law Z nodes" "unaliased zb" "loadTasksForWorker Z now worker z zb = (zb', r)"
    and "published (nodes z) (zb_workerBasePath zb) worker \<subseteq> dom (zb_tasks zb)"
  shows "zb' = zb \<or> loaded worker (published (nodes z) (zb_workerBasePath zb) worker)
                     (zb\<lparr>zb_next := Suc (zb_next zb)\<rparr>) zb'"
proof (cases "nodes z (path_of (zb_workerBasePath zb) worker)")
  case (Some d)
  then have g: "zkGet Z z (path_of (zb_workerBasePath zb) worker) = Inr d"
    using assms(1) by (simp add: zk_get_law_def)
  show ?thesis
  proof (cases "decodeData d")
    case (Inr wts)
    let ?zb = "zb\<lparr>zb_next := Suc (zb_next zb)\<rparr>"
    have "zb_next zb \<notin> ran (zb_tasks ?zb)" using assms(2) by (fastforce simp: ran_def unaliased_def)
    moreover have p: "published (nodes z) (zb_workerBasePath zb) worker = tk_Path ` set wts"
      using Some Inr by (simp add: published_def)
    ultimately show ?thesis
      using load_fold_loaded [OF unaliased_next [OF assms(2)], of "zb_next zb" wts "tk_Path ` set wts" worker now]
        assms(3,4) g Inr by (auto simp: loadTasksForWorker_def)
  qed (use assms(3) g in \<open>simp add: loadTasksForWorker_def\<close>)
next
  case None
  then show ?thesis using assms(1,3) by (simp add: loadTasksForWorker_def zk_get_law_def)
qed

lemma loaded_keeps:
  assumes "loaded worker ps (zb\<lparr>zb_next := Suc (zb_next zb)\<rparr>) zb'" "unaliased zb"
    and "\<And>p. p \<in> ps \<Longrightarrow> holds zb worker p"
  shows "unaliased zb' \<and> (\<forall>w p. holds zb w p \<longrightarrow> holds zb' w p)"
proof (intro conjI allI impI)
  show "unaliased zb'" using assms(1) unaliased_next [OF assms(2)] by (rule loaded_unaliased)
  fix w p assume "holds zb w p"
  then obtain v where v: "zb_tasks zb p = Some v" "tk_Status (zb_heap zb v) = Assigned" "tk_Owner (zb_heap zb v) = w"
    by (auto simp: holds_def task_at_def)
  then have h: "zb_heap zb' v = zb_heap zb v \<or> (p \<in> ps \<and> (\<exists>ts. zb_heap zb' v =
      (zb_heap zb v)\<lparr>tk_Owner := worker, tk_Status := Assigned, tk_Timestamp := ts\<rparr>))"
    using assms(1) by (simp add: loaded_def)
  moreover have "p \<in> ps \<Longrightarrow> w = worker" using assms(3) [of p] v by (auto simp: holds_def task_at_def)
  moreover have "zb_tasks zb' = zb_tasks zb" using assms(1) by (simp add: loaded_def)
  ultimately show "holds zb' w p" using v by (auto simp: holds_def task_at_def)
qed

text \<open>A worker whose node exists reloads what the master already says it holds.\<close>

lemma registerWorker_inv:
  assumes Z: "zk_get_law Z nodes" "zk_create_law Z nodes" and i: "zb_inv zb (nodes z)"
    and reg: "registerWorker_round Z now (zb, z) = ((zb', z'), b)"
  shows "zb_inv zb' (nodes z')"
proof -
  let ?p = "workerEphemeralPath zb"
  obtain z1 e where c: "zkCreate Z z ?p NoData = (z1, e)" by fastforce
  have z1: "z' = z1" using reg c by (auto simp: registerWorker_round_def Let_def split: if_splits)
  have law: "if ?p \<in> dom (nodes z) then e = Some ErrNodeExists \<and> nodes z1 = nodes z
      else e = None \<and> nodes z1 = (nodes z)(?p \<mapsto> NoData)"
    using Z(2) c unfolding zk_create_law_def by (metis fst_conv snd_conv)
  show ?thesis
  proof (cases "?p \<in> dom (nodes z)")
    case True
    then have e: "e = Some ErrNodeExists" "nodes z1 = nodes z" using law by auto
    then obtain r where l: "loadTasksForWorker Z now (zb_workerPath zb) z1 zb = (zb', r)"
      using reg c by (cases "loadTasksForWorker Z now (zb_workerPath zb) z1 zb")
        (auto simp: registerWorker_round_def Let_def)
    let ?P = "published (nodes z1) (zb_workerBasePath zb) (zb_workerPath zb)"
    have h: "\<And>p. p \<in> ?P \<Longrightarrow> holds zb (zb_workerPath zb) p"
      using i e by (auto simp: zb_inv_def published_ok_def)
    then have "?P \<subseteq> dom (zb_tasks zb)" by (auto simp: holds_def task_at_def)
    then have "zb' = zb \<or> loaded (zb_workerPath zb) ?P (zb\<lparr>zb_next := Suc (zb_next zb)\<rparr>) zb'"
      using Z(1) i l by (intro loadTasksForWorker_loaded) (auto simp: zb_inv_def)
    then show ?thesis
      using loaded_keeps [OF _ zb_invD [OF i] h] i z1 e
      by (auto simp: zb_inv_def published_ok_def loaded_def conf_def)
  next
    case False
    then have "zb' = zb" "nodes z' = (nodes z)(?p \<mapsto> NoData)"
      using law reg c z1 by (auto simp: registerWorker_round_def Let_def)
    then show ?thesis using i
      by (auto simp: zb_inv_def published_ok_def published_def decodeData_def split: if_splits)
  qed
qed

subsection \<open>The start of a master\<close>

definition status_ok :: "ZkBalancer \<Rightarrow> bool" where
  "status_ok zb \<longleftrightarrow> (\<forall>k t. task_at zb k = Some t \<longrightarrow> tk_Status t = Init \<or> tk_Status t = Assigned)"

definition fresh_master :: "ZkBalancer \<Rightarrow> bool" where
  "fresh_master zb \<longleftrightarrow> unaliased zb \<and> status_ok zb \<and> zb_workerBasePath zb \<noteq> zb_eventBasePath zb
     \<and> CHR ''/'' \<notin> set (zb_workerPath zb)"

lemma sortable_None_iff:
  "sortable_tasks zb ks = None \<longleftrightarrow> (\<exists>k \<in> set ks. \<exists>t. task_at zb k = Some t \<and> tk_Status t = Releasing)"
  by (induction ks) (auto simp: task_at_def split: option.splits)

lemma sortable_SomeD:
  "sortable_tasks zb ks = Some rs \<Longrightarrow>
   set rs = {r. \<exists>k \<in> set ks. zb_tasks zb k = Some r \<and> tk_Status (zb_heap zb r) \<in> {Assigned, Init}}"
  by (induction ks arbitrary: rs) (auto split: option.splits if_splits)

lemma loaded_fresh:
  assumes "loaded w ps (zb\<lparr>zb_next := Suc (zb_next zb)\<rparr>) zb'" "fresh_master zb"
  shows "fresh_master zb'"
proof -
  have "unaliased zb'" using assms loaded_unaliased unaliased_next by (auto simp: fresh_master_def)
  moreover have "status_ok zb'"
    using assms by (fastforce simp: fresh_master_def status_ok_def task_at_def loaded_def)
  ultimately show ?thesis using assms by (auto simp: fresh_master_def loaded_def conf_def)
qed

lemma loadTasks_fresh:
  assumes "zk_get_law Z nodes" "fresh_master zb" "known_tasks zb (nodes z)" "loadTasks Z now ws z zb = (zb', r)"
  shows "fresh_master zb' \<and> zb_tasks zb' = zb_tasks zb \<and> zb_workerBasePath zb' = zb_workerBasePath zb"
  using assms(2,3,4)
proof (induction ws arbitrary: zb)
  case (Cons w ws)
  obtain zb1 r1 where l: "loadTasksForWorker Z (now w) w z zb = (zb1, r1)" by fastforce
  have "zb1 = zb \<or> loaded w (published (nodes z) (zb_workerBasePath zb) w) (zb\<lparr>zb_next := Suc (zb_next zb)\<rparr>) zb1"
    using Cons.prems l assms(1) by (intro loadTasksForWorker_loaded) (auto simp: known_tasks_def fresh_master_def)
  then have 1: "fresh_master zb1 \<and> zb_tasks zb1 = zb_tasks zb \<and> zb_workerBasePath zb1 = zb_workerBasePath zb"
    using Cons.prems(1) loaded_fresh by (auto simp: loaded_def conf_def)
  then show ?case
    using Cons.IH [of zb1] Cons.prems l by (auto simp: known_tasks_def split: sum.splits)
qed auto

lemma deprecate_no_deleting: "status_ok zb \<Longrightarrow> deprecate_loop Z oi zb ks seen e z = (z, e)"
  by (induction ks) (force simp: status_ok_def split: option.splits)+

lemma releaseOrphan_fresh:
  assumes "fresh_master zb"
  shows "fresh_master (fst (releaseOrphanTasks ks ws zb))
    \<and> zb_tasks (fst (releaseOrphanTasks ks ws zb)) = zb_tasks zb
    \<and> zb_workerBasePath (fst (releaseOrphanTasks ks ws zb)) = zb_workerBasePath zb"
proof -
  define P where "P s \<longleftrightarrow> status_ok (fst s) \<and> zb_tasks (fst s) = zb_tasks zb" for s :: "ZkBalancer \<times> bool"
  have "P (fold (releaseOrphan_body ws) ks (zb, False))"
  proof (rule fold_invariant [where Q = "\<lambda>_. True"])
    show "P (zb, False)" using assms by (simp add: P_def fresh_master_def)
  next
    fix k s assume "P s"
    then show "P (releaseOrphan_body ws k s)"
      unfolding P_def releaseOrphan_body_def status_ok_def task_at_def
      by (clarsimp split: option.splits prod.splits simp del: upd_task_simps) (fastforce split: if_splits)
  qed simp
  then show ?thesis
    using keeps_releaseOrphan [of zb ws ks] assms
    by (auto simp: P_def fresh_master_def releaseOrphanTasks_def keeps_def conf_def)
qed

lemma startMaster_inv:
  assumes Z: "zk_get_law Z nodes" "zk_set_law Z nodes" "zk_children_law Z nodes"
    and fresh: "fresh_master zb" "known_tasks zb (nodes z)"
    and order: "set (ch_tasks ch) = dom (zb_tasks zb)"
    and start: "startMaster_round Z ch now oi ks ks' (zb, z) = ((zb', z'), True)"
  shows "zb_inv zb' (nodes z')"
proof -
  let ?zb0 = "zb\<lparr>zb_isMaster := True\<rparr>"
  have f0: "fresh_master ?zb0" "known_tasks ?zb0 (nodes z)"
    using fresh by (auto simp: fresh_master_def known_tasks_def unaliased_def status_ok_def task_at_def)
  obtain ws where ws: "zkChildren Z z (zb_workerBasePath zb) = Inr ws"
    using start by (auto simp: startMaster_round_def Let_def split: sum.splits)
  obtain zb1 r1 where l: "loadTasks Z now ws z ?zb0 = (zb1, r1)" by fastforce
  have 1: "fresh_master zb1" "zb_tasks zb1 = zb_tasks zb" "zb_workerBasePath zb1 = zb_workerBasePath zb"
    using loadTasks_fresh [OF Z(1) f0 l] by auto
  let ?zb2 = "fst (releaseOrphanTasks ks' ws zb1)"
  have 2: "fresh_master ?zb2" "zb_tasks ?zb2 = zb_tasks zb" "zb_workerBasePath ?zb2 = zb_workerBasePath zb"
    using releaseOrphan_fresh [OF 1(1)] 1 by auto
  have dep: "deprecateTasks Z oi ks zb1 z = (z, Inr ())"
    using 1(1) by (simp add: deprecateTasks_def deprecate_no_deleting fresh_master_def)
  obtain b where bal: "balanceTasks Z ch ws (?zb2, z) = ((zb', z'), b)"
    using start ws l dep
    by (cases "balanceTasks Z ch ws (?zb2, z)")
      (auto simp: startMaster_round_def Let_def split: sum.splits)
  have live: "CHR ''/'' \<notin> set w \<Longrightarrow> path_of (zb_workerBasePath ?zb2) w \<in> dom (nodes z) \<Longrightarrow> w \<in> set ws" for w
    using zk_children_live [OF Z(3) ws] 2(3) by auto
  show ?thesis
  proof (cases "ws = [] \<or> zb_tasks zb = Map.empty")
    case True
    then have "published_ok ?zb2 (nodes z)"
      using live fresh(2) 2 by (force simp: published_ok_def published_def known_tasks_def split: option.splits)
    then have "zb_inv ?zb2 (nodes z)" using 2(1) by (simp add: zb_inv_def fresh_master_def)
    then show ?thesis using balanceTasks_inv [OF Z(2) _ bal] live by blast
  next
    case False
    obtain rs where rs: "sortable_tasks ?zb2 (ch_tasks ch) = Some rs"
      using 2(1) sortable_None_iff [of ?zb2 "ch_tasks ch"] by (fastforce simp: fresh_master_def status_ok_def)
    obtain k r where "zb_tasks zb k = Some r" using False by fastforce
    then have "r \<in> set rs"
      using sortable_SomeD [OF rs] order 2 by (fastforce simp: fresh_master_def status_ok_def task_at_def)
    then have ne: "rs \<noteq> []" by auto
    let ?zb3 = "place_tasks (ch_now ch) (ch_weights ch) ws (sort_tasks ?zb2 rs) ?zb2"
    have k: "same_keys ?zb2 ?zb3" by (rule same_keys_place)
    then have u: "unaliased ?zb3" using 2(1) same_keys_unaliased by (auto simp: fresh_master_def)
    have "published_ok ?zb3 (nodes (publish Z (ch_inner ch) ?zb3 ws z))"
      using Z(2) u by (rule published_ok_publish_all) (use live k in \<open>auto simp: same_keys_def conf_def\<close>)
    then have "zb_inv ?zb3 (nodes (publish Z (ch_inner ch) ?zb3 ws z))"
      using u k 2(1) by (auto simp: zb_inv_def fresh_master_def same_keys_def conf_def)
    then show ?thesis using bal rs ne False by (auto simp: balanceTasks_def Let_def)
  qed
qed

subsection \<open>The set-up gives a fresh master\<close>

definition task_key :: "Task \<Rightarrow> string" where
  "task_key t = (if tk_Path t = '''' then take 10 (tk_Payload t) else tk_Path t)"

lemma Init_loop_Cons:
  "tk_Payload t \<noteq> '''' \<Longrightarrow> Init_loop zb (t # ts) =
     Init_loop (zb\<lparr>zb_heap := (zb_heap zb)(zb_next zb := t\<lparr>tk_Path := task_key t, tk_Status := Init\<rparr>),
       zb_next := Suc (zb_next zb), zb_tasks := (zb_tasks zb)(task_key t \<mapsto> zb_next zb)\<rparr>) ts"
  by (simp add: task_key_def Let_def)

lemma Init_loop_fresh:
  assumes "Init_loop zb ts = (zb', Inr ())" "unaliased zb" "\<And>k t. task_at zb k = Some t \<Longrightarrow> tk_Status t = Init"
  shows "unaliased zb' \<and> (\<forall>k t. task_at zb' k = Some t \<longrightarrow> tk_Status t = Init) \<and> zb_name zb' = zb_name zb
    \<and> dom (zb_tasks zb') = dom (zb_tasks zb) \<union> task_key ` set ts"
  using assms
proof (induction ts arbitrary: zb)
  case (Cons t ts)
  let ?zb = "zb\<lparr>zb_heap := (zb_heap zb)(zb_next zb := t\<lparr>tk_Path := task_key t, tk_Status := Init\<rparr>),
       zb_next := Suc (zb_next zb), zb_tasks := (zb_tasks zb)(task_key t \<mapsto> zb_next zb)\<rparr>"
  have p: "tk_Payload t \<noteq> ''''" using Cons.prems(1) by auto
  have "Init_loop ?zb ts = (zb', Inr ())" using Cons.prems(1) Init_loop_Cons [OF p] by simp
  moreover have "unaliased ?zb" using Cons.prems(2) by (fastforce simp: unaliased_def)
  moreover have "tk_Status t' = Init" if "task_at ?zb k = Some t'" for k t'
  proof (cases "k = task_key t")
    case False
    then have "task_at ?zb k = task_at zb k"
      using Cons.prems(2) by (cases "zb_tasks zb k") (auto simp: task_at_def unaliased_def)
    then show ?thesis using that Cons.prems(3) by simp
  qed (use that in \<open>auto simp: task_at_def\<close>)
  ultimately have "unaliased zb' \<and> (\<forall>k t. task_at zb' k = Some t \<longrightarrow> tk_Status t = Init) \<and> zb_name zb' = zb_name ?zb
    \<and> dom (zb_tasks zb') = dom (zb_tasks ?zb) \<union> task_key ` set ts"
    by (rule Cons.IH)
  moreover have "dom (zb_tasks ?zb) = insert (task_key t) (dom (zb_tasks zb))" by auto
  moreover have "zb_name ?zb = zb_name zb" by simp
  ultimately show ?case by (simp only: list.set image_insert Un_insert_left Un_insert_right) auto
qed simp

lemma CreatePath_Inr: "CreatePath Z z p = (z', Inr q) \<Longrightarrow> q = p"
  by (auto simp: CreatePath_def Let_def split: sum.splits if_splits prod.splits)

lemma zb_Init_fresh:
  assumes "zb_Init Z lk ip name ts (zb, z) = ((zb', z'), Inr ())" "CHR ''/'' \<notin> set ip"
  shows "fresh_master zb' \<and> lk \<and> (\<forall>k t. task_at zb' k = Some t \<longrightarrow> tk_Status t = Init)
    \<and> dom (zb_tasks zb') = task_key ` set ts"
proof -
  let ?zb = "(if name \<noteq> '''' then zb\<lparr>zb_name := name\<rparr> else zb)\<lparr>zb_tasks := Map.empty\<rparr>"
  obtain zb1 wp ep where l: "Init_loop ?zb ts = (zb1, Inr ())"
    and w: "wp = path_of (path_of balancerShareBasePath (zb_name zb1)) ''worker''"
    and e: "ep = path_of (path_of balancerShareBasePath (zb_name zb1)) ''event''"
    and zb': "zb' = zb1\<lparr>zb_workerBasePath := wp, zb_eventBasePath := ep, zb_workerPath := ip\<rparr>" "lk"
    using assms(1)
    by (auto simp: zb_Init_def Let_def split: if_splits sum.splits prod.splits dest!: CreatePath_Inr)
  have "unaliased ?zb" by (simp add: unaliased_def)
  from Init_loop_fresh [OF l this] have
    "unaliased zb1 \<and> (\<forall>k t. task_at zb1 k = Some t \<longrightarrow> tk_Status t = Init)
     \<and> dom (zb_tasks zb1) = task_key ` set ts"
    by (simp add: task_at_def split: if_splits)
  moreover have "wp \<noteq> ep" by (simp add: w e)
  ultimately show ?thesis
    using zb' assms(2) by (auto simp: fresh_master_def status_ok_def unaliased_def task_at_def)
qed

end
