(* ===== verification/Zk_Behaviour.thy ===== *)
theory Zk_Behaviour
  imports Zk_Safety
begin

section \<open>What one call of the balancer does\<close>

text \<open>
  The functional behaviour of the master's operations: where balancing places the tasks and what it
  publishes, which task \<open>minWeightWorker\<close> picks, what the timer and a release do to each task. The
  abstract view of the table is \<open>task_at\<close>, a map from paths to tasks.
\<close>

subsection \<open>The lightest worker\<close>

lemma minWeight_fold_in:
  assumes "set ks \<subseteq> dom ww"
  shows "fst (fold (minWeight_body ww) ks (m, x)) \<in> insert m (set ks)
    \<and> (x = - 1 \<longrightarrow> ks \<noteq> [] \<longrightarrow> fst (fold (minWeight_body ww) ks (m, x)) \<in> set ks)"
  using assms
proof (induction ks arbitrary: m x)
  case (Cons k ks)
  obtain wt where "ww k = Some wt" using Cons.prems by auto
  then show ?case
    using Cons.IH [of k wt] Cons.IH [of m x] Cons.prems by (auto simp: minWeight_body_def)
qed simp

lemma minWeightWorker_in: "set ks \<subseteq> dom ww \<Longrightarrow> ks \<noteq> [] \<Longrightarrow> minWeightWorker ks ww \<in> set ks"
  using minWeight_fold_in [of ks ww "''''" "- 1"] by (simp add: minWeightWorker_def)

lemma minWeight_fold_min:
  assumes "\<forall>k \<in> set ks. \<exists>v \<ge> 0. ww k = Some v" "0 \<le> x" "ww m = Some x"
    "fold (minWeight_body ww) ks (m, x) = (m', x')"
  shows "ww m' = Some x' \<and> x' \<le> x \<and> (\<forall>k \<in> set ks. x' \<le> the (ww k))"
  using assms
proof (induction ks arbitrary: m x)
  case (Cons k ks)
  obtain v where v: "ww k = Some v" "0 \<le> v" using Cons.prems(1) by auto
  show ?case
    using Cons.IH [where m = "if v < x then k else m" and x = "if v < x then v else x"] Cons.prems v
    by (auto simp: minWeight_body_def split: if_splits)
qed simp

text \<open>With non-negative weights, \<open>minWeightWorker\<close> returns a worker of least weight, in
  whatever order Go ranges over the map.\<close>

theorem minWeightWorker_least:
  assumes "range_order ww ks" "ks \<noteq> []" "\<forall>v \<in> ran ww. 0 \<le> v"
  shows "\<exists>v. ww (minWeightWorker ks ww) = Some v \<and> (\<forall>v' \<in> ran ww. v \<le> v')"
proof -
  obtain k ks' where ks: "ks = k # ks'" using assms(2) by (cases ks) auto
  have dom: "set ks = dom ww" using assms(1) by (rule range_orderD)
  then obtain v where v: "ww k = Some v" using ks by auto
  have nn: "\<forall>k \<in> set ks. \<exists>v \<ge> 0. ww k = Some v" using assms(3) dom by (fastforce simp: ran_def)
  obtain m' x' where f: "fold (minWeight_body ww) ks' (k, v) = (m', x')" by fastforce
  have "ww m' = Some x' \<and> x' \<le> v \<and> (\<forall>k \<in> set ks'. x' \<le> the (ww k))"
    using nn ks v by (intro minWeight_fold_min [OF _ _ v f]) auto
  moreover have "minWeightWorker ks ww = m'"
    using f v ks by (simp add: minWeightWorker_def minWeight_body_def)
  moreover have "\<forall>v' \<in> ran ww. \<exists>k \<in> set ks. ww k = Some v'" using dom by (auto simp: ran_def)
  ultimately show ?thesis using v ks by fastforce
qed

theorem minWeightWorker_least_witness:
  "\<exists>v :: int. [''a'' \<mapsto> 3, ''b'' \<mapsto> 1] (minWeightWorker [''a'', ''b''] [''a'' \<mapsto> 3, ''b'' \<mapsto> 1]) = Some v
     \<and> (\<forall>v' \<in> ran [''a'' \<mapsto> 3, ''b'' \<mapsto> 1]. v \<le> v')"
  by (rule minWeightWorker_least) (auto simp: range_order_def ran_def split: if_splits)

subsection \<open>Placing tasks\<close>

definition placed :: "string set \<Rightarrow> Task \<Rightarrow> bool" where
  "placed W t \<longleftrightarrow> tk_Owner t \<in> W \<and> (tk_Status t = Assigned \<or> tk_Status t = Releasing)"

text \<open>A task that was assigned stays with its owner or is being released, never handed on at once.\<close>

definition two_phase :: "Task \<Rightarrow> Task \<Rightarrow> bool" where
  "two_phase t t' \<longleftrightarrow> (tk_Status t = Assigned \<longrightarrow> tk_Status t' = Releasing
       \<or> (tk_Status t' = Assigned \<and> tk_Owner t' = tk_Owner t))
     \<and> (tk_Status t = Releasing \<longrightarrow> tk_Status t' = Releasing)
     \<and> (tk_Status t = Deleting \<longrightarrow> tk_Status t' = Deleting)"

lemma two_phase_refl [simp]: "two_phase t t"
  by (simp add: two_phase_def)

lemma two_phase_trans: "two_phase t t' \<Longrightarrow> two_phase t' t'' \<Longrightarrow> two_phase t t''"
  by (auto simp: two_phase_def)

lemma reassign_heap:
  "zb_heap (tryReAssignTask now r w zb) r' =
     (if r' = r then (let t = (zb_heap zb r)\<lparr>tk_Timestamp := now\<rparr> in
       if tk_Status t = Assigned then
         (if tk_Owner t \<noteq> w then t\<lparr>tk_Owner := w, tk_Status := Releasing\<rparr> else t)
       else if tk_Status t = Init then t\<lparr>tk_Status := Assigned, tk_Owner := w\<rparr>
       else t) else zb_heap zb r')"
  by (simp add: tryReAssignTask_def)

lemma reassign_placed:
  assumes "w \<in> W"
  shows "(r' = r \<and> tk_Status (zb_heap zb r) \<in> {Init, Assigned}) \<or> placed W (zb_heap zb r') \<Longrightarrow>
      placed W (zb_heap (tryReAssignTask now r w zb) r')"
    and "two_phase (zb_heap zb r') (zb_heap (tryReAssignTask now r w zb) r')"
    and "r' \<noteq> r \<Longrightarrow> zb_heap (tryReAssignTask now r w zb) r' = zb_heap zb r'"
    and "tk_Status (zb_heap zb r) \<in> {Init, Assigned} \<Longrightarrow> tk_Owner (zb_heap (tryReAssignTask now r w zb) r) = w"
  using assms by (auto simp: reassign_heap Let_def placed_def two_phase_def)

text \<open>What a sequence of placements onto workers in \<open>W\<close> does to the heap, pointer by pointer.\<close>

definition placement :: "string set \<Rightarrow> nat set \<Rightarrow> ZkBalancer \<Rightarrow> ZkBalancer \<Rightarrow> bool" where
  "placement W R zb zb' \<longleftrightarrow> (\<forall>r. two_phase (zb_heap zb r) (zb_heap zb' r)
     \<and> (placed W (zb_heap zb r) \<longrightarrow> placed W (zb_heap zb' r))
     \<and> (r \<in> R \<longrightarrow> tk_Status (zb_heap zb r) \<in> {Init, Assigned} \<longrightarrow> placed W (zb_heap zb' r))
     \<and> (r \<notin> R \<longrightarrow> zb_heap zb' r = zb_heap zb r))"

lemma placement_empty [simp]: "placement W {} zb zb"
  by (simp add: placement_def)

lemma placement_step:
  assumes "w \<in> W" "placement W R (tryReAssignTask now r w zb) zb'"
  shows "placement W (insert r R) zb zb'"
  unfolding placement_def
proof (intro allI conjI impI)
  fix r'
  let ?h = "zb_heap (tryReAssignTask now r w zb)"
  note p = assms(2) [unfolded placement_def, rule_format, of r']
  show "two_phase (zb_heap zb r') (zb_heap zb' r')"
    using two_phase_trans reassign_placed(2) [OF assms(1)] p by blast
  show "placed W (zb_heap zb r') \<Longrightarrow> placed W (zb_heap zb' r')"
    using reassign_placed(1) [OF assms(1)] p by blast
  show "placed W (zb_heap zb' r')" if "r' \<in> insert r R" "tk_Status (zb_heap zb r') \<in> {Init, Assigned}"
  proof (cases "r' = r")
    case True
    then show ?thesis using reassign_placed(1) [OF assms(1)] p that by blast
  next
    case False
    then show ?thesis using reassign_placed(3) [OF assms(1) False] p that by auto
  qed
  show "r' \<notin> insert r R \<Longrightarrow> zb_heap zb' r' = zb_heap zb r'"
    using reassign_placed(3) [OF assms(1), of r' r now zb] p by auto
qed

lemma assign_first_placement:
  assumes "assign_first now i ws rs ww zb = (i', rest, ww', zb')" "set ws \<subseteq> W"
  shows "placement W (set (take (length ws) rs)) zb zb' \<and> rest = drop (length ws) rs
    \<and> dom ww' = dom ww \<union> set (take (length rs) ws)"
  using assms
proof (induction now i ws rs ww zb rule: assign_first.induct)
  case (1 now i w ws r rs ww zb)
  have a: "assign_first now (Suc i) ws rs (ww(w \<mapsto> tk_Weight (zb_heap zb r))) (tryReAssignTask (now i) r w zb)
      = (i', rest, ww', zb')" "set ws \<subseteq> W" "w \<in> W"
    using "1.prems" by simp_all
  have "placement W (set (take (length ws) rs)) (tryReAssignTask (now i) r w zb) zb'"
    "rest = drop (length ws) rs" "dom ww' = insert w (dom ww) \<union> set (take (length rs) ws)"
    using "1.IH" [OF a(1,2)] by simp_all
  then show ?case using placement_step [OF a(3)] by simp
qed auto

lemma assign_rest_placement:
  assumes "dom ww = W" "W \<noteq> {}" "\<And>i. set (wo i) = W"
  shows "placement W (set rs) zb (assign_rest now wo i rs ww zb)"
  using assms(1)
proof (induction rs arbitrary: i ww zb)
  case (Cons r rs)
  have m: "minWeightWorker (wo i) ww \<in> W"
    using minWeightWorker_in [of "wo i" ww] assms(2) assms(3) [of i] Cons.prems by (cases "wo i") auto
  then have "placement W (set rs) zb' (assign_rest now wo i' rs (ww(minWeightWorker (wo i) ww \<mapsto> x)) zb')" for zb' i' x
    using Cons.prems by (intro Cons.IH) (simp add: insert_absorb)
  then show ?case
    unfolding assign_rest.simps Let_def list.set by (intro placement_step [OF m, where now = "now i"])
qed simp

lemma placement_trans:
  assumes "placement W R zb zb'" "placement W R' zb' zb''"
  shows "placement W (R \<union> R') zb zb''"
  unfolding placement_def
proof (intro allI conjI impI)
  fix r
  note p = assms(1) [unfolded placement_def, rule_format, of r]
    and q = assms(2) [unfolded placement_def, rule_format, of r]
  show "two_phase (zb_heap zb r) (zb_heap zb'' r)" using p q two_phase_trans by blast
  show "placed W (zb_heap zb r) \<Longrightarrow> placed W (zb_heap zb'' r)" using p q by blast
  show "r \<in> R \<union> R' \<Longrightarrow> tk_Status (zb_heap zb r) \<in> {Init, Assigned} \<Longrightarrow> placed W (zb_heap zb'' r)"
    using p q by (cases "r \<in> R") auto
  show "r \<notin> R \<union> R' \<Longrightarrow> zb_heap zb'' r = zb_heap zb r" using p q by simp
qed

lemma place_tasks_placement:
  assumes "ws \<noteq> []" "\<And>i. set (wo i) = set ws"
  shows "placement (set ws) (set rs) zb (place_tasks now wo ws rs zb)"
proof -
  obtain i' rest ww' zb' where a: "assign_first now 0 ws rs Map.empty zb = (i', rest, ww', zb')"
    by (metis prod_cases4)
  have p: "placement (set ws) (set (take (length ws) rs)) zb zb'" "rest = drop (length ws) rs"
    "dom ww' = set (take (length rs) ws)"
    using assign_first_placement [OF a, of "set ws"] by auto
  have "placement (set ws) (set rest) zb' (assign_rest now wo i' rest ww' zb')"
  proof (cases "length rs \<le> length ws")
    case False
    then show ?thesis using p assms by (intro assign_rest_placement) auto
  qed (use p in simp)
  then have "placement (set ws) (set (take (length ws) rs) \<union> set (drop (length ws) rs)) zb
     (assign_rest now wo i' rest ww' zb')"
    using placement_trans p by blast
  then show ?thesis using a by (simp add: place_tasks_def set_append [symmetric] del: set_append)
qed

lemma assign_first_owner:
  assumes "assign_first now i ws rs ww zb = (i', rest, ww', zb')" "distinct rs"
    "\<forall>r \<in> set rs. tk_Status (zb_heap zb r) \<in> {Init, Assigned}" "j < length ws" "j < length rs"
  shows "tk_Owner (zb_heap zb' (rs ! j)) = ws ! j"
  using assms
proof (induction now i ws rs ww zb arbitrary: j rule: assign_first.induct)
  case (1 now i w ws r rs ww zb)
  let ?zb = "tryReAssignTask (now i) r w zb"
  have a: "assign_first now (Suc i) ws rs (ww(w \<mapsto> tk_Weight (zb_heap zb r))) ?zb = (i', rest, ww', zb')"
    using "1.prems"(1) by simp
  have "placement (insert w (set ws)) (set (take (length ws) rs)) ?zb zb'"
    using assign_first_placement [OF a, of "insert w (set ws)"] by auto
  moreover have "r \<notin> set (take (length ws) rs)" using "1.prems"(2) by (auto dest: in_set_takeD)
  ultimately have "zb_heap zb' r = zb_heap ?zb r" by (simp add: placement_def)
  moreover have "tk_Owner (zb_heap ?zb r) = w" using "1.prems"(3) by (intro reassign_placed(4) [of w UNIV]) auto
  moreover have "\<forall>r \<in> set rs. tk_Status (zb_heap ?zb r) \<in> {Init, Assigned}"
    using "1.prems"(2,3) by (auto simp: reassign_heap)
  ultimately show ?case using "1.IH" [OF a] "1.prems" by (cases j) auto
qed auto

lemma sortable_distinct:
  assumes "unaliased zb" "distinct ks" "sortable_tasks zb ks = Some rs"
  shows "distinct rs"
  using assms(2,3)
proof (induction ks arbitrary: rs)
  case (Cons k ks)
  then show ?case
    using sortable_SomeD [of zb ks] unaliased_inj [OF assms(1)]
    by (auto split: option.splits if_splits; metis)
qed simp

subsection \<open>One global balance\<close>

definition valid_choices :: "ZkBalancer \<Rightarrow> string list \<Rightarrow> choices \<Rightarrow> bool" where
  "valid_choices zb ws ch \<longleftrightarrow> range_order (zb_tasks zb) (ch_tasks ch)
     \<and> (\<forall>w. range_order (zb_tasks zb) (ch_inner ch w)) \<and> (\<forall>i. set (ch_weights ch i) = set ws)"

text \<open>The table after a balance that went through.\<close>

lemma balanceTasks_table:
  assumes b: "balanceTasks Z ch ws (zb, z) = ((zb', z'), True)" and v: "valid_choices zb ws ch"
  obtains rs where "sortable_tasks zb (ch_tasks ch) = Some rs" "ws \<noteq> []"
    "placement (set ws) (set rs) zb zb'" "same_keys zb zb'"
    "rs \<noteq> [] \<longrightarrow> zb' = (place_tasks (ch_now ch) (ch_weights ch) ws (sort_tasks zb rs) zb)\<lparr>zb_postponed := False\<rparr>
       \<and> z' = publish Z (ch_inner ch) zb' ws z"
proof -
  have ws: "ws \<noteq> []" using b by (auto simp: balanceTasks_def)
  obtain rs where rs: "sortable_tasks zb (ch_tasks ch) = Some rs"
    using b ws by (auto simp: balanceTasks_def split: option.splits)
  let ?p = "place_tasks (ch_now ch) (ch_weights ch) ws (sort_tasks zb rs) zb"
  have "task_at (zb0\<lparr>zb_postponed := False\<rparr>) = task_at zb0" for zb0 by (simp add: fun_eq_iff task_at_def)
  then have pub: "publish Z oi (zb0\<lparr>zb_postponed := False\<rparr>) us y = publish Z oi zb0 us y" for oi zb0 us y
    by (induction us arbitrary: y) (simp_all add: tasks_of_def range_tasks_def)
  have pl: "placement (set ws) (set rs) zb ?p"
    using place_tasks_placement [OF ws, of "ch_weights ch" "sort_tasks zb rs"] v
    by (simp add: valid_choices_def sort_tasks_def)
  show thesis
  proof (cases "rs = []")
    case True
    then have "zb' = zb\<lparr>zb_postponed := False\<rparr>" using b rs ws by (simp add: balanceTasks_def)
    then show ?thesis
      using that [OF rs ws] True by (simp add: placement_def same_keys_def conf_def)
  next
    case False
    then have "zb' = ?p\<lparr>zb_postponed := False\<rparr>" "z' = publish Z (ch_inner ch) ?p ws z"
      using b rs ws by (simp_all add: balanceTasks_def Let_def)
    then show ?thesis
      using that [OF rs ws] pl same_keys_place [of zb "ch_now ch" "ch_weights ch" ws "sort_tasks zb rs"] pub
      by (simp add: placement_def same_keys_def conf_def)
  qed
qed

lemma same_keys_task_at: "same_keys zb zb' \<Longrightarrow> task_at zb' k = map_option (zb_heap zb') (zb_tasks zb k)"
  by (simp add: same_keys_def task_at_def)

lemma sortable_covers:
  assumes "sortable_tasks zb ks = Some rs" "range_order (zb_tasks zb) ks" "zb_tasks zb k = Some r"
    "tk_Status (zb_heap zb r) \<noteq> Deleting"
  shows "r \<in> set rs"
proof -
  have "k \<in> set ks" using assms(2,3) by (auto simp: range_order_def)
  moreover have "tk_Status (zb_heap zb r) \<noteq> Releasing"
    using assms(1,3) \<open>k \<in> set ks\<close> sortable_None_iff [of zb ks] by (fastforce simp: task_at_def)
  ultimately show ?thesis
    using assms sortable_SomeD [OF assms(1)] by (cases "tk_Status (zb_heap zb r)") auto
qed

text \<open>Claim C18: after a global balance that went through, each task that is not about to be deleted
  is assigned to, or being released for, one of the live workers; none is left unassigned.\<close>

theorem balanceTasks_all_placed:
  assumes "balanceTasks Z ch ws (zb, z) = ((zb', z'), True)" "valid_choices zb ws ch"
    "task_at zb' k = Some t" "tk_Status t \<noteq> Deleting"
  shows "tk_Owner t \<in> set ws \<and> (tk_Status t = Assigned \<or> tk_Status t = Releasing)"
proof -
  obtain rs where rs: "sortable_tasks zb (ch_tasks ch) = Some rs"
    and p: "placement (set ws) (set rs) zb zb'" and k: "same_keys zb zb'"
    using balanceTasks_table [OF assms(1,2)] by blast
  obtain r where r: "zb_tasks zb k = Some r" "t = zb_heap zb' r"
    using assms(3) same_keys_task_at [OF k] by auto
  have "tk_Status (zb_heap zb r) \<noteq> Deleting"
    using p assms(4) r(2) by (auto simp: placement_def two_phase_def)
  moreover from this have "r \<in> set rs"
    using sortable_covers [OF rs _ r(1)] assms(2) by (simp add: valid_choices_def)
  moreover from this have "tk_Status (zb_heap zb r) \<in> {Init, Assigned}" using sortable_SomeD [OF rs] by auto
  ultimately show ?thesis using p r(2) by (auto simp: placement_def placed_def)
qed


lemma balance_publishes:
  assumes "zk_set_law Z nodes" "unaliased zb" "balanceTasks Z ch ws (zb, z) = ((zb', z'), True)"
    "valid_choices zb ws ch" "\<exists>k t. task_at zb k = Some t \<and> tk_Status t \<noteq> Deleting"
    "w \<in> set ws" "path_of (zb_workerBasePath zb) w \<in> dom (nodes z)"
  shows "published (nodes z') (zb_workerBasePath zb) w = {p. holds zb' w p}"
proof -
  obtain rs where rs: "sortable_tasks zb (ch_tasks ch) = Some rs"
    and k: "same_keys zb zb'" and z': "rs \<noteq> [] \<longrightarrow> z' = publish Z (ch_inner ch) zb' ws z"
    using balanceTasks_table [OF assms(3,4)] by blast
  have "rs \<noteq> []" using assms(4,5) sortable_covers [OF rs] by (fastforce simp: valid_choices_def task_at_def)
  moreover have "zb_workerBasePath zb' = zb_workerBasePath zb" using k by (simp add: same_keys_def conf_def)
  ultimately have "nodes z' (path_of (zb_workerBasePath zb) w) = Some (node_doc (tasks_of zb' (ch_inner ch w) w))"
    using nodes_publish_worker [OF assms(1), of "ch_inner ch" zb' ws z w] z' assms(6,7) by simp
  then have p: "published (nodes z') (zb_workerBasePath zb) w = tk_Path ` set (tasks_of zb' (ch_inner ch w) w)"
    by (rule published_node_doc)
  have u: "unaliased zb'" using k assms(2) by (rule same_keys_unaliased)
  have d: "set (ch_inner ch w) = dom (zb_tasks zb')"
    using assms(4) k by (simp add: valid_choices_def range_order_def same_keys_def)
  have "{p. holds zb' w p} \<subseteq> tk_Path ` set (tasks_of zb' (ch_inner ch w) w)"
  proof
    fix p assume "p \<in> {p. holds zb' w p}"
    then obtain t where t: "task_at zb' p = Some t" "tk_Status t = Assigned" "tk_Owner t = w"
      by (auto simp: holds_def)
    then have "p \<in> set (ch_inner ch w)" using d by (auto simp: task_at_def)
    then show "p \<in> tk_Path ` set (tasks_of zb' (ch_inner ch w) w)"
      using t task_at_path [OF u t(1)] by (force simp: tasks_of_iff)
  qed
  then show ?thesis using p u by (auto intro: tasks_of_holds)
qed

text \<open>Claim C17: a global balance that went through publishes to each live worker exactly the tasks the
  table then says are assigned to it.\<close>

theorem balanceTasks_publishes:
  assumes "zk_set_law Z nodes" "unaliased zb" "balanceTasks Z ch ws (zb, z) = ((zb', z'), True)"
    "valid_choices zb ws ch" "\<exists>k t. task_at zb k = Some t \<and> tk_Status t \<noteq> Deleting"
    "w \<in> set ws" "path_of (zb_workerBasePath zb) w \<in> dom (nodes z)"
  shows "published (nodes z') (zb_workerBasePath zb) w = {p. holds zb' w p}"
  using assms by (rule balance_publishes)

text \<open>With at least as many tasks to place as workers, a global balance gives each worker at
  least one task.\<close>

theorem balanceTasks_spreads:
  assumes "unaliased zb" "balanceTasks Z ch ws (zb, z) = ((zb', z'), True)" "valid_choices zb ws ch"
    "sortable_tasks zb (ch_tasks ch) = Some rs" "length ws \<le> length rs" "w \<in> set ws"
  shows "\<exists>k t. task_at zb' k = Some t \<and> tk_Owner t = w \<and> (tk_Status t = Assigned \<or> tk_Status t = Releasing)"
proof -
  obtain k: "same_keys zb zb'" and p: "placement (set ws) (set rs) zb zb'" and ws: "ws \<noteq> []"
    and zb': "zb' = (place_tasks (ch_now ch) (ch_weights ch) ws (sort_tasks zb rs) zb)\<lparr>zb_postponed := False\<rparr>"
    using balanceTasks_table [OF assms(2,3)] assms(4,5) by (metis le_zero_eq length_0_conv option.inject)
  let ?rs = "sort_tasks zb rs"
  obtain i' rest ww' zb1 where a: "assign_first (ch_now ch) 0 ws ?rs Map.empty zb = (i', rest, ww', zb1)"
    by (metis prod_cases4)
  have st: "set ?rs = set rs" "length ?rs = length rs" "distinct ?rs"
    using sortable_distinct [OF assms(1) _ assms(4)] assms(3)
    by (auto simp: sort_tasks_def valid_choices_def range_order_def)
  obtain j where j: "j < length ws" "w = ws ! j" using assms(6) by (auto simp: in_set_conv_nth)
  let ?r = "?rs ! j"
  have status: "\<forall>r \<in> set ?rs. tk_Status (zb_heap zb r) \<in> {Init, Assigned}"
    using sortable_SomeD [OF assms(4)] st(1) by auto
  have own1: "tk_Owner (zb_heap zb1 ?r) = w"
    using assign_first_owner [OF a st(3) status] j assms(5) st(2) by simp
  have f: "rest = drop (length ws) ?rs" "dom ww' = set ws"
    using assign_first_placement [OF a, of "set ws"] assms(5) st(2) by auto
  have "placement (set ws) (set rest) zb1 (assign_rest (ch_now ch) (ch_weights ch) i' rest ww' zb1)"
    using f(2) ws assms(3) by (intro assign_rest_placement) (auto simp: valid_choices_def)
  moreover have "?r \<notin> set rest"
    using st(3) j(1) f(1) assms(5) st(2) by (auto simp: in_set_conv_nth nth_eq_iff_index_eq)
  ultimately have own: "tk_Owner (zb_heap zb' ?r) = w"
    using own1 zb' a by (simp add: placement_def place_tasks_def)
  have in_rs: "?r \<in> set rs" using j(1) assms(5) st(1,2) by (metis nth_mem order.strict_trans2)
  then obtain key where "zb_tasks zb key = Some ?r" using sortable_SomeD [OF assms(4)] by auto
  moreover have "placed (set ws) (zb_heap zb' ?r)" using p in_rs status st(1) by (auto simp: placement_def)
  ultimately show ?thesis using own same_keys_task_at [OF k, of key] by (auto simp: placed_def)
qed

text \<open>A global balance is put off exactly when there is no worker or a task is still being
  released; it then moves no task and writes no node.\<close>

theorem balanceTasks_postponed:
  assumes "range_order (zb_tasks zb) (ch_tasks ch)"
  shows "(\<not> snd (balanceTasks Z ch ws (zb, z)) \<longleftrightarrow>
      ws = [] \<or> (\<exists>k t. task_at zb k = Some t \<and> tk_Status t = Releasing))
    \<and> (\<not> snd (balanceTasks Z ch ws (zb, z)) \<longrightarrow>
      task_at (fst (fst (balanceTasks Z ch ws (zb, z)))) = task_at zb \<and> snd (fst (balanceTasks Z ch ws (zb, z))) = z
      \<and> (ws \<noteq> [] \<longrightarrow> zb_postponed (fst (fst (balanceTasks Z ch ws (zb, z))))))"
proof
  have d: "set (ch_tasks ch) = dom (zb_tasks zb)" using assms by (simp add: range_order_def)
  have "sortable_tasks zb (ch_tasks ch) = None \<longleftrightarrow> (\<exists>k t. task_at zb k = Some t \<and> tk_Status t = Releasing)"
    unfolding sortable_None_iff d by (auto simp: task_at_def)
  then show "\<not> snd (balanceTasks Z ch ws (zb, z)) \<longleftrightarrow>
      ws = [] \<or> (\<exists>k t. task_at zb k = Some t \<and> tk_Status t = Releasing)"
    by (auto simp: balanceTasks_def Let_def split: option.splits)
qed (auto simp: balanceTasks_def Let_def task_at_def fun_eq_iff split: option.splits if_splits)

subsection \<open>The timer and the releases, task by task\<close>

text \<open>What the scheduled check means for one task.\<close>

definition check_task :: "(nat \<Rightarrow> int) \<Rightarrow> Task \<Rightarrow> Task option" where
  "check_task now t = (case tk_Status t of
       Releasing \<Rightarrow> Some (if now 0 - tk_Timestamp t \<ge> 120
                          then t\<lparr>tk_Status := Assigned, tk_Timestamp := now 1\<rparr> else t)
     | Deleting \<Rightarrow> if now 0 - tk_Timestamp t \<ge> 120 then None else Some t
     | Init \<Rightarrow> Some (t\<lparr>tk_Timestamp := now 1\<rparr>)
     | Assigned \<Rightarrow> Some t)"

lemma task_at_delete [simp]:
  "task_at (zb\<lparr>zb_tasks := (zb_tasks zb)(p := None)\<rparr>) k = (if k = p then None else task_at zb k)"
  by (simp add: task_at_def)

lemma check_body_task:
  assumes "unaliased (ca_zb a)"
  shows "task_at (ca_zb (check_body now k a)) k' =
    (if k' = k then Option.bind (task_at (ca_zb a) k) (check_task (now k)) else task_at (ca_zb a) k')"
proof (cases "zb_tasks (ca_zb a) k")
  case (Some r)
  have p: "tk_Path (zb_heap (ca_zb a) r) = k" using assms Some by (simp add: unaliased_def)
  have t: "task_at (ca_zb a) k = Some (zb_heap (ca_zb a) r)" using Some by (simp add: task_at_def)
  show ?thesis
    using Some p t
    by (cases "tk_Status (zb_heap (ca_zb a) r)")
      (auto simp: check_body_def check_task_def Let_def releasingTimeout_def task_at_upd [OF assms Some]
        task_at_delete)
next
  case None
  then show ?thesis by (simp add: check_body_def task_at_def)
qed

text \<open>The scan of the scheduled check refines the per-task rule: a task being released for
  two minutes becomes assigned to its new owner, one being deleted for that long leaves the table,
  and every other keeps its status and owner.\<close>

theorem check_scan_refines:
  assumes "unaliased zb" "range_order (zb_tasks zb) ks"
  shows "task_at (ca_zb (check_scan now ks zb)) k = Option.bind (task_at zb k) (check_task (now k))"
proof -
  have "task_at (ca_zb (fold (check_body now) ks a)) k =
      (if k \<in> set ks then Option.bind (task_at (ca_zb a) k) (check_task (now k)) else task_at (ca_zb a) k)"
    if "unaliased (ca_zb a)" "distinct ks" for a ks
    using that
  proof (induction ks arbitrary: a)
    case (Cons k' ks)
    have "keeps {} (ca_zb a) (ca_zb (fold (check_body now) [k'] a))"
      using Cons.prems(1)
      by (intro keeps_fold [of ca_zb])
        (auto simp: check_body_def keeps_refl keeps_path_def Let_def
          split: option.splits status.splits intro!: keeps_upd keeps_delete)
    then have "unaliased (ca_zb (check_body now k' a))" by (simp add: keeps_def)
    then show ?case using Cons.IH Cons.prems check_body_task [OF Cons.prems(1), of now k'] by auto
  qed simp
  from this [of "\<lparr>ca_zb = zb, ca_need = [], ca_hasInit = False, ca_hasReleasing = False\<rparr>" ks]
  show ?thesis
    using assms by (auto simp: check_scan_def range_order_def task_at_def domIff)
qed

definition release_task :: "int \<Rightarrow> Task \<Rightarrow> Task option" where
  "release_task now t = (case tk_Status t of
       Releasing \<Rightarrow> Some (t\<lparr>tk_Status := Assigned, tk_Timestamp := now\<rparr>)
     | Deleting \<Rightarrow> None
     | _ \<Rightarrow> Some t)"

text \<open>The release map that the event handler builds is keyed by the tasks' own paths.\<close>

definition well_keyed :: "(string \<rightharpoonup> Task) \<Rightarrow> bool" where
  "well_keyed rel \<longleftrightarrow> (\<forall>k t. rel k = Some t \<longrightarrow> tk_Path t = k)"

lemma well_keyed_fold: "well_keyed m \<Longrightarrow> well_keyed (fold (\<lambda>v m. m(tk_Path v \<mapsto> v)) vs m)"
proof (induction vs arbitrary: m)
  case (Cons v vs)
  have "well_keyed (m(tk_Path v \<mapsto> v))" using Cons.prems by (simp add: well_keyed_def)
  then show ?case unfolding fold.simps comp_apply by (rule Cons.IH)
qed simp

lemma collect_released_keyed: "well_keyed (collect_released Z b z es)"
  unfolding collect_released_def
proof (rule fold_invariant [where Q = "\<lambda>_. True" and P = well_keyed])
  show "well_keyed (\<lambda>x. None)" by (simp add: well_keyed_def)
qed (auto simp del: fun_upd_apply split: sum.splits intro: well_keyed_fold)

lemma released_body_task:
  assumes "unaliased zb" "well_keyed rel"
  shows "task_at (fst (released_body now rel k (zb, need))) k' =
    (if k' = k \<and> k \<in> dom rel then Option.bind (task_at zb k) (release_task (now k)) else task_at zb k')"
proof (cases "rel k")
  case (Some rlt)
  have pk: "tk_Path rlt = k" using assms(2) Some by (simp add: well_keyed_def)
  show ?thesis
  proof (cases "zb_tasks zb k")
    case r: (Some r)
    have p: "tk_Path (zb_heap zb r) = k" using assms(1) r by (simp add: unaliased_def)
    have t: "task_at zb k = Some (zb_heap zb r)" using r by (simp add: task_at_def)
    show ?thesis
      using Some pk r p t
      by (cases "tk_Status (zb_heap zb r)")
        (auto simp: released_body_def release_task_def Let_def task_at_upd [OF assms(1) r])
  qed (use Some pk in \<open>simp add: released_body_def task_at_def\<close>)
qed (auto simp: released_body_def)

lemma released_fold_task:
  assumes "unaliased zb" "well_keyed rel" "distinct rs"
  shows "task_at (fst (fold (released_body now rel) rs (zb, need))) k =
    (if k \<in> set rs \<inter> dom rel then Option.bind (task_at zb k) (release_task (now k)) else task_at zb k)"
  using assms(1,3)
proof (induction rs arbitrary: zb need)
  case (Cons k' rs)
  obtain zb1 need1 where b: "released_body now rel k' (zb, need) = (zb1, need1)" by fastforce
  have "unaliased zb1" using keeps_released [OF Cons.prems(1), of "{}" now rel "[k']" need] b by (simp add: keeps_def)
  moreover have "task_at zb1 k = (if k = k' \<and> k' \<in> dom rel
      then Option.bind (task_at zb k') (release_task (now k')) else task_at zb k)"
    using released_body_task [OF Cons.prems(1) assms(2), of now k' need k] b by simp
  ultimately show ?case using Cons b by auto
qed simp

lemma released_need:
  assumes "unaliased zb" "well_keyed rel" "distinct rs" "k \<in> set rs" "k \<in> dom rel"
    "task_at zb k = Some t" "tk_Status t = Releasing"
  shows "t\<lparr>tk_Status := Assigned, tk_Timestamp := now k\<rparr> \<in> set (snd (fold (released_body now rel) rs (zb, need)))"
proof -
  have mono: "set need \<subseteq> set (snd (fold (released_body now rel) rs (zb, need)))" for zb need rs
    by (induction rs arbitrary: zb need)
      (fastforce simp: released_body_def Let_def split: option.splits status.splits)+
  show ?thesis
    using assms(1,3,4,6)
  proof (induction rs arbitrary: zb need)
    case (Cons k' rs)
    obtain zb1 need1 where b: "released_body now rel k' (zb, need) = (zb1, need1)" by fastforce
    show ?case
    proof (cases "k' = k")
      case True
      obtain rlt where "rel k = Some rlt" "tk_Path rlt = k" using assms(2,5) by (auto simp: well_keyed_def)
      moreover obtain r where "zb_tasks zb k = Some r" "zb_heap zb r = t" using Cons.prems(4) by (auto simp: task_at_def)
      ultimately have "t\<lparr>tk_Status := Assigned, tk_Timestamp := now k\<rparr> \<in> set need1"
        using b True assms(7) by (auto simp: released_body_def Let_def)
      then show ?thesis using b True mono [of need1 rs zb1] by auto
    next
      case False
      have "unaliased zb1" using keeps_released [OF Cons.prems(1), of "{}" now rel "[k']" need] b by (simp add: keeps_def)
      moreover have "task_at zb1 k = Some t"
        using released_body_task [OF Cons.prems(1) assms(2), of now k' need k] b False Cons.prems(4) by simp
      ultimately show ?thesis using Cons False b by auto
    qed
  qed simp
qed

lemma released_postponed:
  "zb_postponed (fst (fold (released_body now rel) rs (zb, need))) = zb_postponed zb"
proof (induction rs arbitrary: zb need)
  case (Cons k rs)
  have "zb_postponed (fst (released_body now rel k (zb, need))) = zb_postponed zb"
    by (auto simp: released_body_def Let_def upd_task_def split: option.splits status.splits)
  then show ?case using Cons by (cases "released_body now rel k (zb, need)") simp
qed simp

lemma dom_republish: "zk_set_law Z nodes \<Longrightarrow> dom (nodes (republish Z oi zb ts seen z)) = dom (nodes z)"
  by (induction ts arbitrary: seen z) (simp_all add: assignedTasks_fst zkSet_dom)

lemma nodes_republish:
  assumes "zk_set_law Z nodes" "path_of (zb_workerBasePath zb) w \<in> dom (nodes z)"
    "w \<in> tk_Owner ` set ts - set seen \<or>
     nodes z (path_of (zb_workerBasePath zb) w) = Some (node_doc (tasks_of zb (oi w) w))"
  shows "nodes (republish Z oi zb ts seen z) (path_of (zb_workerBasePath zb) w) = Some (node_doc (tasks_of zb (oi w) w))"
  using assms(2,3)
proof (induction ts arbitrary: seen z)
  case (Cons t ts)
  show ?case
  proof (cases "tk_Owner t \<in> set seen")
    case False
    let ?z = "fst (zkSet Z z (path_of (zb_workerBasePath zb) (tk_Owner t)) (node_doc (tasks_of zb (oi (tk_Owner t)) (tk_Owner t))))"
    have "nodes ?z (path_of (zb_workerBasePath zb) w) = Some (node_doc (tasks_of zb (oi w) w))
        \<or> w \<in> tk_Owner ` set ts - set (tk_Owner t # seen)"
      using Cons.prems zkSet_same [OF assms(1)] zkSet_other [OF assms(1)] by (cases "w = tk_Owner t") auto
    then show ?thesis
      using False Cons.IH [of ?z "tk_Owner t # seen"] Cons.prems(1) zkSet_dom [OF assms(1)]
      by (auto simp: assignedTasks_fst)
  qed (use Cons in auto)
qed auto

text \<open>Publishing to the new owners of released tasks, without a global balance.\<close>

lemma republish_delivers:
  assumes "zk_set_law Z nodes" "unaliased zb" "task_at zb p = Some t" "tk_Status t = Assigned"
    "tk_Owner t \<in> tk_Owner ` set ts" "path_of (zb_workerBasePath zb) (tk_Owner t) \<in> dom (nodes z)"
    "\<forall>w. range_order (zb_tasks zb) (oi w)"
  shows "holds zb (tk_Owner t) p \<and> p \<in> published (nodes (republish Z oi zb ts [] z)) (zb_workerBasePath zb) (tk_Owner t)"
proof -
  let ?w = "tk_Owner t"
  have "nodes (republish Z oi zb ts [] z) (path_of (zb_workerBasePath zb) ?w) = Some (node_doc (tasks_of zb (oi ?w) ?w))"
    using nodes_republish [OF assms(1), of zb ?w z ts "[]" oi] assms(5,6) by simp
  then have "published (nodes (republish Z oi zb ts [] z)) (zb_workerBasePath zb) ?w = tk_Path ` set (tasks_of zb (oi ?w) ?w)"
    by (rule published_node_doc)
  moreover have "t \<in> set (tasks_of zb (oi ?w) ?w)"
    using assms(3,4,7) by (force simp: tasks_of_iff range_order_def task_at_def)
  moreover have "tk_Path t = p" using assms(2,3) by (rule task_at_path)
  ultimately show ?thesis using assms(3,4) by (force simp: holds_def)
qed

text \<open>The same with the postponed global balance: it leaves the task where it is and publishes it, or starts to move it on.\<close>

lemma balance_delivers:
  assumes "zk_set_law Z nodes" "unaliased zb" "task_at zb p = Some t" "tk_Status t = Assigned"
    "path_of (zb_workerBasePath zb) (tk_Owner t) \<in> dom (nodes z)"
    "balanceTasks Z ch ws (zb, z) = ((zb', z'), True)" "valid_choices zb ws ch"
  shows "(holds zb' (tk_Owner t) p \<and> p \<in> published (nodes z') (zb_workerBasePath zb) (tk_Owner t))
    \<or> (\<exists>t'. task_at zb' p = Some t' \<and> tk_Status t' = Releasing \<and> tk_Owner t' \<in> set ws)"
proof -
  obtain rs where rs: "sortable_tasks zb (ch_tasks ch) = Some rs"
    and pl: "placement (set ws) (set rs) zb zb'" and k: "same_keys zb zb'"
    using balanceTasks_table [OF assms(6,7)] by blast
  obtain r where r: "zb_tasks zb p = Some r" "t = zb_heap zb r" using assms(3) by (auto simp: task_at_def)
  let ?t = "zb_heap zb' r"
  have t': "task_at zb' p = Some ?t" using same_keys_task_at [OF k] r(1) by simp
  have "r \<in> set rs" using sortable_covers [OF rs _ r(1)] assms(4,7) r(2) by (simp add: valid_choices_def)
  then have "placed (set ws) ?t" "two_phase t ?t" using pl assms(4) r(2) by (auto simp: placement_def)
  then consider "tk_Status ?t = Releasing" "tk_Owner ?t \<in> set ws" | "tk_Status ?t = Assigned" "tk_Owner ?t = tk_Owner t" "tk_Owner t \<in> set ws"
    using assms(4) by (auto simp: placed_def two_phase_def)
  then show ?thesis
  proof cases
    case 2
    then have h: "holds zb' (tk_Owner t) p" using t' by (simp add: holds_def)
    have "published (nodes z') (zb_workerBasePath zb) (tk_Owner t) = {q. holds zb' (tk_Owner t) q}"
      by (rule balance_publishes [OF assms(1,2,6,7) _ 2(3) assms(5)]) (intro exI conjI, rule assms(3), use assms(4) in simp)
    then show ?thesis using h by blast
  qed (use t' in blast)
qed

lemma balanceTasks_same_keys:
  "balanceTasks Z ch ws (zb, z) = ((zb', z'), b) \<Longrightarrow> same_keys zb zb'"
  using same_keys_place [of zb]
  by (auto simp: balanceTasks_def Let_def same_keys_def conf_def split: if_splits option.splits)

text \<open>Claim C19: when a former owner reports that it let a task go, the task is assigned to its new owner and
  published to it; only when a global balance had been postponed, and is made up for now, may the task be on its way
  to another live worker instead, as a task being released.\<close>

theorem innerOnReleased_delivers:
  assumes "zk_set_law Z nodes" "unaliased zb" "well_keyed rel" "range_order rel rs"
    "\<forall>w. range_order (zb_tasks zb') (oi w)"
    "\<forall>ws. zkChildren Z z (zb_workerBasePath zb) = Inr ws \<longrightarrow> valid_choices zb' ws ch"
    "task_at zb p = Some t" "tk_Status t = Releasing" "p \<in> dom rel"
    "path_of (zb_workerBasePath zb) (tk_Owner t) \<in> dom (nodes z)"
    "innerOnReleased Z ch oi now rs rel (zb, z) = (zb', z')"
  shows "(holds zb' (tk_Owner t) p \<and> p \<in> published (nodes z') (zb_workerBasePath zb) (tk_Owner t))
    \<or> (zb_postponed zb \<and> (\<exists>ws t'. zkChildren Z z (zb_workerBasePath zb) = Inr ws \<and> task_at zb' p = Some t'
         \<and> tk_Status t' = Releasing \<and> tk_Owner t' \<in> set ws))"
proof -
  let ?f = "fold (released_body now rel) rs (zb, [])" and ?t = "t\<lparr>tk_Status := Assigned, tk_Timestamp := now p\<rparr>"
  have rs: "distinct rs" "p \<in> set rs" using assms(4,9) by (auto simp: range_order_def)
  have need: "?t \<in> set (snd ?f)" using assms(2,3,7,8,9) rs by (intro released_need) auto
  have own: "tk_Owner ?t \<in> tk_Owner ` set (snd ?f)" using need by (rule imageI)
  have "keeps {} zb (fst ?f)" using assms(2) by (rule keeps_released)
  then have u: "unaliased (fst ?f)" and c: "zb_workerBasePath (fst ?f) = zb_workerBasePath zb"
    by (auto simp: keeps_def conf_def)
  have post: "zb_postponed (fst ?f) = zb_postponed zb" by (rule released_postponed)
  have bal: "balanceTasksOnReleased Z ch oi (snd ?f) (fst ?f, z) = (zb', z')"
    using assms(11) need by (auto simp: innerOnReleased_def split: prod.splits if_splits)
  have t1: "task_at (fst ?f) p = Some ?t"
    using released_fold_task [OF assms(2,3) rs(1)] assms(7,8,9) rs(2) by (simp add: release_task_def)
  have rep: "holds zb1 (tk_Owner t) p \<and> p \<in> published (nodes (republish Z oi zb1 (snd ?f) [] z)) (zb_workerBasePath zb) (tk_Owner t)"
    if "task_at zb1 p = Some ?t" "unaliased zb1" "zb_workerBasePath zb1 = zb_workerBasePath zb" "zb1 = zb'" for zb1
    using republish_delivers [OF assms(1) that(2,1) _ own, of z oi] that(3,4) assms(5,10) by simp
  show ?thesis
  proof (cases "zb_postponed zb \<and> (\<exists>ws. zkChildren Z z (zb_workerBasePath zb) = Inr ws)")
    case False
    then have "zb' = fst ?f" "z' = republish Z oi (fst ?f) (snd ?f) [] z"
      using bal post c by (auto simp: balanceTasksOnReleased_def split: sum.splits)
    then show ?thesis using rep [OF t1 u c] by simp
  next
    case True
    then obtain ws where ws: "zkChildren Z z (zb_workerBasePath zb) = Inr ws" by blast
    obtain zb1 z1 d where b: "balanceTasks Z ch ws (fst ?f, z) = ((zb1, z1), d)" by (metis prod.exhaust)
    have zb': "zb' = zb1" "z' = (if d then z1 else republish Z oi zb1 (snd ?f) [] z1)"
      using bal b ws True post c by (auto simp: balanceTasksOnReleased_def split: if_splits)
    have k: "same_keys (fst ?f) zb1" using b by (rule balanceTasks_same_keys)
    show ?thesis
    proof (cases d)
      case True
      have "valid_choices (fst ?f) ws ch" using assms(6) ws zb'(1) k by (simp add: valid_choices_def same_keys_def)
      from balance_delivers [OF assms(1) u t1 _ _ b [unfolded \<open>d\<close> [THEN eqTrueI]] this] show ?thesis
        using assms(10) c zb' \<open>zb_postponed zb \<and> _\<close> ws True by auto
    next
      case False
      then have e: "task_at zb1 = task_at (fst ?f)" "z1 = z"
        using b by (auto simp: balanceTasks_def Let_def task_at_def fun_eq_iff split: if_splits option.splits)
      have b1: "zb_workerBasePath zb1 = zb_workerBasePath zb" using k c by (simp add: same_keys_def conf_def)
      have "task_at zb1 p = Some ?t" unfolding e(1) by (rule t1)
      from rep [OF this same_keys_unaliased [OF k u] b1 zb'(1) [symmetric]]
      show ?thesis unfolding zb'(1) unfolding zb'(2) e(2) if_not_P [OF False] by (rule disjI1)
    qed
  qed
qed

subsection \<open>A store in memory\<close>

text \<open>An association list with the operations of the store, on which the laws hold.\<close>

definition mem_set :: "(string \<times> zk_data) list \<Rightarrow> string \<Rightarrow> zk_data \<Rightarrow> (string \<times> zk_data) list" where
  "mem_set z p d = (p, d) # filter (\<lambda>e. fst e \<noteq> p) z"

definition mem_name :: "(string \<times> zk_data) list \<Rightarrow> string" where
  "mem_name z = replicate (Suc (sum_list (map (\<lambda>e. length (fst e)) z))) (CHR ''0'')"

definition mem_children :: "(string \<times> zk_data) list \<Rightarrow> string \<Rightarrow> string list" where
  "mem_children z b = remdups (filter (\<lambda>w. CHR ''/'' \<notin> set w)
     (map (\<lambda>p. drop (Suc (length b)) p) (filter (\<lambda>p. take (Suc (length b)) p = b @ ''/'') (map fst z))))"

definition mem_zk :: "(string \<times> zk_data) list zk_ops" where
  "mem_zk = \<lparr>
     zkGet = (\<lambda>z p. case map_of z p of None \<Rightarrow> Inl ErrNoNode | Some d \<Rightarrow> Inr d),
     zkSet = (\<lambda>z p d. if map_of z p = None then (z, Some ErrNoNode) else (mem_set z p d, None)),
     zkCreate = (\<lambda>z p d. if map_of z p = None then (mem_set z p d, None) else (z, Some ErrNodeExists)),
     zkCreateSeq = (\<lambda>z p d. (mem_set z (p @ mem_name z) d, None)),
     zkDelete = (\<lambda>z p. (filter (\<lambda>e. fst e \<noteq> p) z, if map_of z p = None then Some ErrNoNode else None)),
     zkExists = (\<lambda>z p. Inr (map_of z p \<noteq> None)),
     zkChildren = (\<lambda>z b. Inr (mem_children z b))\<rparr>"

lemma map_of_filter_key: "map_of (filter (\<lambda>e. fst e \<noteq> p) z) = (map_of z)(p := None)"
  by (induction z) (auto simp: fun_eq_iff)

lemma map_of_mem_set [simp]: "map_of (mem_set z p d) = (map_of z)(p \<mapsto> d)"
  by (simp add: mem_set_def map_of_filter_key)

lemma mem_children_set: "set (mem_children z b) = {w. CHR ''/'' \<notin> set w \<and> path_of b w \<in> dom (map_of z)}"
proof -
  have "take (Suc (length b)) p = b @ ''/'' \<longleftrightarrow> (\<exists>w. p = path_of b w)" for p :: string
    by (auto simp: path_of_def) (metis append.assoc append_Cons append_Nil append_take_drop_id)
  then show ?thesis
    by (force simp: mem_children_def dom_map_of_conv_image_fst path_of_def image_iff)
qed

lemma mem_name_fresh: "map_of z (q @ mem_name z) = None"
proof -
  have "length p \<le> sum_list (map (\<lambda>e. length (fst e)) z)" if "p \<in> fst ` set z" for p
    using that by (intro member_le_sum_list) auto
  from this [of "q @ mem_name z"] have "q @ mem_name z \<notin> fst ` set z"
    by (auto simp: mem_name_def)
  then show ?thesis by (simp add: map_of_eq_None_iff)
qed

lemma mem_zk_reliable: "zk_reliable mem_zk map_of"
proof -
  have "CHR ''/'' \<notin> set n \<Longrightarrow> \<exists>m. CHR ''/'' \<notin> set m \<and> map_of z (path_of b m) = None
      \<and> (map_of z)(path_of b n @ mem_name z \<mapsto> d) = (map_of z)(path_of b m \<mapsto> d)" for z :: "(string \<times> zk_data) list" and b n d
    using mem_name_fresh [of z "path_of b n"]
    by (intro exI [of _ "n @ mem_name z"]) (auto simp: path_of_def mem_name_def)
  then show ?thesis
    by (auto simp: zk_reliable_def zk_get_law_def zk_set_law_def zk_create_law_def zk_create_seq_law_def
        zk_delete_law_def zk_children_law_def mem_zk_def map_of_filter_key mem_children_set
        simp del: fun_upd_apply) (simp_all add: mem_children_def)
qed

text \<open>A table of two tasks and a store with two workers, for the examples below.\<close>

definition demo_task :: "string \<Rightarrow> int \<Rightarrow> status \<Rightarrow> string \<Rightarrow> int \<Rightarrow> Task" where
  "demo_task p wt st w ts = \<lparr>tk_Payload = p, tk_Path = p, tk_Weight = wt, tk_Status = st, tk_Owner = w, tk_Timestamp = ts\<rparr>"

definition demo_zb :: "Task list \<Rightarrow> bool \<Rightarrow> ZkBalancer" where
  "demo_zb ts post = \<lparr>zb_name = ''n'', zb_workerBasePath = ''/w'', zb_eventBasePath = ''/e'',
     zb_tasks = map_of (zip (map tk_Path ts) [0 ..< length ts]), zb_heap = (\<lambda>i. if i < length ts then ts ! i else demo_task '''' 0 Init '''' 0),
     zb_next = length ts, zb_isMaster = True, zb_workerPath = ''a'', zb_postponed = post\<rparr>"

definition demo_z :: "string list \<Rightarrow> (string \<times> zk_data) list" where
  "demo_z ws = map (\<lambda>w. (path_of ''/w'' w, NoData)) ws"

definition demo_ch :: "string list \<Rightarrow> string list \<Rightarrow> choices" where
  "demo_ch ks ws = \<lparr>ch_tasks = ks, ch_inner = (\<lambda>_. ks), ch_weights = (\<lambda>_. ws), ch_now = (\<lambda>_. 7)\<rparr>"

definition demo_ts :: "Task list" where
  "demo_ts = [demo_task ''t1'' 5 Init '''' 0, demo_task ''t2'' 3 Init '''' 0]"

lemma demo_fresh: "fresh_master (demo_zb demo_ts False)" "known_tasks (demo_zb demo_ts False) (map_of (demo_z [''a'', ''b'']))"
  by (auto simp: fresh_master_def unaliased_def status_ok_def task_at_def demo_zb_def demo_ts_def demo_task_def
      known_tasks_def published_def demo_z_def decodeData_def less_Suc_eq split: if_splits)

subsection \<open>Examples\<close>

abbreviation "demo_ks \<equiv> [''t1'', ''t2'']"
abbreviation "demo_ws \<equiv> [''a'', ''b'']"

text \<open>Two tasks both assigned to \<open>a\<close>, and a second worker that has just joined.\<close>

definition demo_ts2 :: "Task list" where
  "demo_ts2 = [demo_task ''t1'' 5 Assigned ''a'' 0, demo_task ''t2'' 3 Assigned ''a'' 0]"

definition demo_bal :: "(ZkBalancer \<times> (string \<times> zk_data) list) \<times> bool" where
  "demo_bal = balanceTasks mem_zk (demo_ch demo_ks demo_ws) demo_ws (demo_zb demo_ts2 False, demo_z demo_ws)"

lemma demo_bal_eq:
  "balanceTasks mem_zk (demo_ch demo_ks demo_ws) demo_ws (demo_zb demo_ts2 False, demo_z demo_ws)
    = ((fst (fst demo_bal), snd (fst demo_bal)), True)"
proof -
  have "snd demo_bal" by code_simp
  then show ?thesis by (simp add: demo_bal_def [symmetric] prod_eq_iff)
qed

lemma demo_valid: "valid_choices (demo_zb demo_ts2 post) demo_ws (demo_ch demo_ks demo_ws)"
  by (auto simp: valid_choices_def range_order_def demo_ch_def demo_zb_def demo_ts2_def demo_task_def)

lemma demo_unaliased: "unaliased (demo_zb demo_ts2 post)"
  by (auto simp: unaliased_def demo_zb_def demo_ts2_def demo_task_def split: if_splits)

lemma demo_set_law: "zk_set_law mem_zk map_of"
  using mem_zk_reliable by (simp add: zk_reliable_def)

lemma demo_task_after: "task_at (fst (fst demo_bal)) ''t2'' = Some (demo_task ''t2'' 3 Releasing ''b'' 7)"
  by code_simp

theorem balanceTasks_all_placed_witness:
  "tk_Owner (demo_task ''t2'' 3 Releasing ''b'' 7) \<in> set demo_ws
   \<and> (tk_Status (demo_task ''t2'' 3 Releasing ''b'' 7) = Assigned \<or> tk_Status (demo_task ''t2'' 3 Releasing ''b'' 7) = Releasing)"
  by (rule balanceTasks_all_placed [OF demo_bal_eq demo_valid demo_task_after]) (simp add: demo_task_def)

lemma demo_task_before: "task_at (demo_zb demo_ts2 False) ''t1'' = Some (demo_task ''t1'' 5 Assigned ''a'' 0)"
  by code_simp


theorem balanceTasks_publishes_witness:
  "published (map_of (snd (fst demo_bal))) (zb_workerBasePath (demo_zb demo_ts2 False)) ''a'' = {p. holds (fst (fst demo_bal)) ''a'' p}"
proof (rule balanceTasks_publishes [OF demo_set_law demo_unaliased demo_bal_eq demo_valid])
  show "\<exists>k t. task_at (demo_zb demo_ts2 False) k = Some t \<and> tk_Status t \<noteq> Deleting"
    by (intro exI conjI, rule demo_task_before) (simp add: demo_task_def)
  show "path_of (zb_workerBasePath (demo_zb demo_ts2 False)) ''a'' \<in> dom (map_of (demo_z demo_ws))"
    by (simp add: demo_zb_def demo_z_def)
qed simp

theorem balanceTasks_spreads_witness:
  "\<exists>k t. task_at (fst (fst demo_bal)) k = Some t \<and> tk_Owner t = ''b'' \<and> (tk_Status t = Assigned \<or> tk_Status t = Releasing)"
proof (rule balanceTasks_spreads [OF demo_unaliased demo_bal_eq demo_valid])
  show "sortable_tasks (demo_zb demo_ts2 False) (ch_tasks (demo_ch demo_ks demo_ws)) = Some [0, 1]" by code_simp
qed simp_all

theorem balanceTasks_postponed_witness:
  "\<not> snd (balanceTasks mem_zk (demo_ch [''t''] demo_ws) demo_ws (demo_zb [demo_task ''t'' 1 Releasing ''a'' 0] False, demo_z demo_ws))
   \<and> snd (fst (balanceTasks mem_zk (demo_ch [''t''] demo_ws) demo_ws (demo_zb [demo_task ''t'' 1 Releasing ''a'' 0] False, demo_z demo_ws)))
     = demo_z demo_ws"
proof -
  have r: "range_order (zb_tasks (demo_zb [demo_task ''t'' 1 Releasing ''a'' 0] False)) (ch_tasks (demo_ch [''t''] demo_ws))"
    by (auto simp: range_order_def demo_zb_def demo_ch_def demo_task_def)
  have "\<not> snd (balanceTasks mem_zk (demo_ch [''t''] demo_ws) demo_ws (demo_zb [demo_task ''t'' 1 Releasing ''a'' 0] False, demo_z demo_ws))"
    by code_simp
  then show ?thesis using balanceTasks_postponed [OF r, of mem_zk demo_ws "demo_z demo_ws"] by blast
qed

theorem check_scan_refines_witness:
  "task_at (ca_zb (check_scan (\<lambda>_ _. 200) demo_ks (demo_zb demo_ts2 False))) ''t1''
   = Option.bind (task_at (demo_zb demo_ts2 False) ''t1'') (check_task (\<lambda>_. 200))"
  by (rule check_scan_refines [OF demo_unaliased])
    (auto simp: range_order_def demo_zb_def demo_ts2_def demo_task_def)

definition demo_rel :: "string \<rightharpoonup> Task" where
  "demo_rel = [''t2'' \<mapsto> demo_task ''t2'' 3 Assigned ''a'' 0]"

definition demo_inner :: "ZkBalancer \<times> (string \<times> zk_data) list" where
  "demo_inner = innerOnReleased mem_zk (demo_ch demo_ks demo_ws) (\<lambda>_. demo_ks) (\<lambda>_. 9) [''t2''] demo_rel
     (demo_zb [demo_task ''t1'' 5 Assigned ''a'' 0, demo_task ''t2'' 3 Releasing ''b'' 7] False, demo_z demo_ws)"

theorem innerOnReleased_delivers_witness:
  "holds (fst demo_inner) ''b'' ''t2'' \<and> ''t2'' \<in> published (map_of (snd demo_inner)) ''/w'' ''b''"
proof -
  let ?zb = "demo_zb [demo_task ''t1'' 5 Assigned ''a'' 0, demo_task ''t2'' 3 Releasing ''b'' 7] False"
  let ?t = "demo_task ''t2'' 3 Releasing ''b'' 7"
  have t: "task_at ?zb ''t2'' = Some ?t" by code_simp
  have u: "unaliased ?zb" by (auto simp: unaliased_def demo_zb_def demo_task_def split: if_splits)
  have k: "well_keyed demo_rel" "range_order demo_rel [''t2'']"
    by (auto simp: well_keyed_def range_order_def demo_rel_def demo_task_def)
  have "zb_tasks (fst demo_inner) = zb_tasks ?zb"
    by (simp add: demo_inner_def innerOnReleased_def released_body_def demo_rel_def demo_zb_def demo_task_def
        upd_task_def balanceTasksOnReleased_def Let_def)
  then have o: "\<forall>w. range_order (zb_tasks (fst demo_inner)) demo_ks"
    by (auto simp: range_order_def demo_zb_def demo_task_def)
  have "zkChildren mem_zk (demo_z demo_ws) (zb_workerBasePath ?zb) = Inr demo_ws" by code_simp
  then have v: "\<forall>ws. zkChildren mem_zk (demo_z demo_ws) (zb_workerBasePath ?zb) = Inr ws \<longrightarrow>
      valid_choices (fst demo_inner) ws (demo_ch demo_ks demo_ws)"
    using o by (simp add: valid_choices_def demo_ch_def)
  have "path_of (zb_workerBasePath ?zb) (tk_Owner ?t) \<in> dom (map_of (demo_z demo_ws))" "tk_Status ?t = Releasing"
    "''t2'' \<in> dom demo_rel" "\<not> zb_postponed ?zb"
    by (simp_all add: demo_zb_def demo_z_def demo_task_def demo_rel_def)
  with innerOnReleased_delivers [OF demo_set_law u k o v t, of "\<lambda>_. 9" "snd demo_inner"]
  show ?thesis by (simp add: demo_inner_def demo_task_def demo_zb_def)
qed

subsection \<open>Orphans\<close>

lemma releaseOrphan_body_task:
  assumes "unaliased zb"
  shows "task_at (fst (releaseOrphan_body ws k (zb, b))) k' =
    (if k' = k then map_option (\<lambda>t. if tk_Owner t \<in> set ws then t else t\<lparr>tk_Status := Init, tk_Owner := ''''\<rparr>) (task_at zb k)
     else task_at zb k')"
  using assms
  by (cases "zb_tasks zb k") (auto simp: releaseOrphan_body_def task_at_upd, auto simp: task_at_def)

text \<open>Claim C35: \<open>releaseOrphanTasks\<close> resets exactly the tasks whose owner is no live worker, in whatever
  state they are: one that was to be deleted becomes a task to assign again.\<close>

theorem releaseOrphanTasks_refines:
  assumes "unaliased zb" "range_order (zb_tasks zb) ks"
  shows "task_at (fst (releaseOrphanTasks ks ws zb)) k =
    map_option (\<lambda>t. if tk_Owner t \<in> set ws then t else t\<lparr>tk_Status := Init, tk_Owner := ''''\<rparr>) (task_at zb k)"
proof -
  have "task_at (fst (fold (releaseOrphan_body ws) ks (zb, b))) k =
    (if k \<in> set ks then map_option (\<lambda>t. if tk_Owner t \<in> set ws then t else t\<lparr>tk_Status := Init, tk_Owner := ''''\<rparr>) (task_at zb k)
     else task_at zb k)" if "unaliased zb" "distinct ks" for zb b ks
    using that
  proof (induction ks arbitrary: zb b)
    case (Cons k' ks)
    obtain zb1 b1 where b: "releaseOrphan_body ws k' (zb, b) = (zb1, b1)" by fastforce
    have "zb1 = fst (fold (releaseOrphan_body ws) [k'] (zb, b))" using b by simp
    then have "unaliased zb1"
      using Cons.prems(1) b by (auto simp: releaseOrphan_body_def keeps_path_def split: option.splits if_splits)
    then show ?case
      using Cons.IH [of zb1 b1] Cons.prems b releaseOrphan_body_task [OF Cons.prems(1), of ws k' b k] by auto
  qed simp
  from this [OF assms(1), of ks False] assms(2) show ?thesis
    by (cases "k \<in> set ks") (auto simp: releaseOrphanTasks_def range_order_def task_at_def domIff)
qed

theorem releaseOrphanTasks_refines_witness:
  "task_at (fst (releaseOrphanTasks [''t''] [''b''] (demo_zb [demo_task ''t'' 1 Deleting ''a'' 0] False))) ''t''
   = Some (demo_task ''t'' 1 Init '''' 0)"
proof -
  let ?zb = "demo_zb [demo_task ''t'' 1 Deleting ''a'' 0] False"
  have "unaliased ?zb" "range_order (zb_tasks ?zb) [''t'']"
    by (auto simp: unaliased_def range_order_def demo_zb_def demo_task_def split: if_splits)
  from releaseOrphanTasks_refines [OF this, of "[''b'']" "''t''"] show ?thesis
    by (simp add: task_at_def demo_zb_def demo_task_def)
qed

subsection \<open>Where the invariant fails\<close>

definition alias_z :: "(string \<times> zk_data) list" where
  "alias_z = [(''/w/a'', TaskDoc [demo_task ''x'' 1 Assigned ''a'' 0, demo_task ''t1'' 5 Assigned ''a'' 0]), (''/w/b'', NoData)]"

definition alias_started :: "ZkBalancer \<times> (string \<times> zk_data) list" where
  "alias_started = fst (startMaster_round mem_zk (demo_ch [''x'', ''t1''] demo_ws) (\<lambda>_ _. 0) (\<lambda>_. [''x'', ''t1''])
     [''x'', ''t1''] [''x'', ''t1''] (demo_zb [demo_task ''t1'' 5 Init '''' 0] False, alias_z))"

definition alias_released :: "ZkBalancer \<times> (string \<times> zk_data) list" where
  "alias_released = innerOnReleased mem_zk (demo_ch [''x'', ''t1''] demo_ws) (\<lambda>_. [''x'', ''t1'']) (\<lambda>_. 9) [''t1'']
     [''t1'' \<mapsto> demo_task ''t1'' 5 Assigned ''a'' 0] alias_started"

text \<open>
  A worker's node that names a task the new master does not know makes the master lose the
  exclusive publication: the loop variable of \<open>loadTasksForWorker\<close> is stored under the unknown path
  and ends up as a second copy of the last task of the node, so that after one balance and one
  release \<open>t1\<close> is published to both workers.
\<close>

theorem loadTasksForWorker_alias_breaks_exclusion:
  "published (map_of (snd alias_released)) ''/w'' ''a'' = {''t1''} \<and> published (map_of (snd alias_released)) ''/w'' ''b'' = {''t1''}"
  by code_simp

definition stale_first :: "ZkBalancer \<times> (string \<times> zk_data) list" where
  "stale_first = fst (balanceTasks mem_zk (demo_ch demo_ks demo_ws) demo_ws (demo_zb demo_ts False, demo_z demo_ws))"

definition stale_second :: "ZkBalancer \<times> (string \<times> zk_data) list" where
  "stale_second = fst (balanceTasks mem_zk (demo_ch demo_ks [''a'']) [''a'']
     (fst (releaseOrphanTasks demo_ks [''a''] (fst stale_first)), snd stale_first))"

text \<open>
  A handler that acts on a list of workers read before another handler balanced undoes the
  exclusion too: \<open>t2\<close>, just published to \<open>b\<close>, is orphaned by the older list and published to
  \<open>a\<close>, while the node of \<open>b\<close> keeps it.
\<close>

theorem stale_workers_break_exclusion:
  "published (map_of (snd stale_second)) ''/w'' ''a'' = {''t1'', ''t2''} \<and> published (map_of (snd stale_second)) ''/w'' ''b'' = {''t2''}"
  by code_simp

definition heavy_ts :: "Task list" where
  "heavy_ts = demo_task ''k0'' 10 Init '''' 0 # map (\<lambda>k. demo_task k 1 Init '''' 0) [''k1'', ''k2'', ''k3'', ''k4'', ''k5'']"

text \<open>
  The recorded weight of a worker is doubled each time it gets a further task
  (\<open>workersWeight[w] += workersWeight[w] + weight\<close>): with loads 10 and 1 and four further tasks of
  weight 1 the last one goes to the worker of load 10, though the other's load is 4.
\<close>

theorem balance_doubles_recorded_weight:
  "map (\<lambda>r. tk_Owner (zb_heap (place_tasks (\<lambda>_. 0) (\<lambda>_. demo_ws) demo_ws [0, 1, 2, 3, 4, 5] (demo_zb heavy_ts False)) r)) [0, 1, 2, 3, 4, 5]
   = [''a'', ''b'', ''b'', ''b'', ''b'', ''a'']"
  by code_simp

end
