(* ===== verification/Zk_Concurrent.thy ===== *)
theory Zk_Concurrent
  imports Zk_Behaviour
begin

section \<open>The goroutines of a master, interleaved\<close>

text \<open>
  The handlers of \<open>zk_balancer.go\<close> run in goroutines of their own: the start of the master, the
  watcher of the worker nodes, the watcher of the release events, the timer and the registration of
  the process's own worker. Here each of them advances in steps that make at most one access to the
  store or pass through one mutex section that makes none: the list of workers is read before the mutex is
  taken (\<open>zk_balancer.go\<close>, lines 217 and 575), \<open>balanceTasksOnReleased\<close> gives the mutex up and publishes
  without it, and \<open>loadTasksForWorker\<close> writes the table without it. The table of tasks is read or
  written in one piece by a step; a read that falls between two writes of the same section is not modelled.

  The store may fail at any request. A step is \<open>current\<close> when the goroutine does not act on
  a view that was overtaken (a list of workers that misses one whose node publishes tasks, tasks computed for a
  node but moved on before they are written, node data loaded but replaced in the meantime) and its write
  under the mutex is not lost. The invariant of the system holds as long as all steps were current;
  \<open>stale_workers_break_exclusion\<close> shows that the code does lose it otherwise.
\<close>

subsection \<open>Goroutines and where they stand\<close>

datatype gor = MasterG | WorkersG | EventsG | TimerG | RegisterG

text \<open>
  The last arguments of a point say where the goroutine goes on afterwards: after \<open>balanceTasks\<close> with the
  answer \<open>true\<close> or \<open>false\<close>, and after the other functions when they return. \<open>Publish\<close> and \<open>Put\<close> are inside the
  mutex, \<open>Republish\<close> and \<open>Reput\<close> are the same loop without it.
\<close>

datatype pc =
    Idle
  | Done
  | Failed
  | Load "string list" "string list"
  | Loaded string "Task list" "string list" "string list"
  | Deprecate "string list" "string list" "unit res" "string list"
  | Orphan "string list" pc
  | Query pc pc
  | Balance "string list" pc pc
  | Publish "string list" pc
  | Put string "Task list" "string list" pc
  | Gather "string list" "string list" "string \<rightharpoonup> Task"
  | Release "string list" "string \<rightharpoonup> Task"
  | OnReleased "Task list" pc
  | Republish "Task list" "string list" pc
  | Reput string "Task list" "Task list" "string list" pc
  | Clean "string list"
  | Postpone pc
  | Apply "Task list"

record 'z sys =
  sy_zb :: ZkBalancer
  sy_z :: 'z
  sy_pc :: "gor \<Rightarrow> pc"
  sy_mutex :: "gor option"

text \<open>The choices of one step: the orders of the ranges and the readings of the clock.\<close>

record opts = choices +
  op_now :: "string \<Rightarrow> int"
  op_check :: "string \<Rightarrow> nat \<Rightarrow> int"
  op_keys :: "string list"

definition goto :: "gor \<Rightarrow> pc \<Rightarrow> 'z sys \<Rightarrow> 'z sys" where
  "goto g p s = s\<lparr>sy_pc := (sy_pc s)(g := p)\<rparr>"

definition worker_node :: "'z sys \<Rightarrow> string \<Rightarrow> string" where
  "worker_node s w = path_of (zb_workerBasePath (sy_zb s)) w"

text \<open>The tasks read from a node are written into the table.\<close>

definition apply_loaded :: "(string \<Rightarrow> int) \<Rightarrow> string \<Rightarrow> Task list \<Rightarrow> ZkBalancer \<Rightarrow> ZkBalancer" where
  "apply_loaded now worker wts zb =
     fold (load_body now worker (zb_next zb)) wts (zb\<lparr>zb_next := Suc (zb_next zb)\<rparr>)"

lemma loadTasksForWorker_split:
  "loadTasksForWorker Z now worker z zb = (case zkGet Z z (path_of (zb_workerBasePath zb) worker) of
       Inl e \<Rightarrow> (zb, if e = ErrNoNode then Inr () else Inl (Err ''loadTasksForWorker failed on get worker data''))
     | Inr d \<Rightarrow> (case decodeData d of Inl e \<Rightarrow> (zb, Inl e) | Inr wts \<Rightarrow> (apply_loaded now worker wts zb, Inr ())))"
  by (simp add: loadTasksForWorker_def apply_loaded_def split: sum.splits zk_error.splits)

text \<open>What the timer does after its scan.\<close>

definition after_scan :: "check_acc \<Rightarrow> pc" where
  "after_scan a =
     (let rest = (if length (ca_need a) > 0 then OnReleased (ca_need a) Idle else Idle)
      in if ca_hasInit a then (if \<not> ca_hasReleasing a then Query Idle rest else Postpone rest) else rest)"

text \<open>The first step of each goroutine. The handlers exist once the master has gone through its round.\<close>

fun wake :: "'z zk_ops \<Rightarrow> opts \<Rightarrow> gor \<Rightarrow> 'z sys \<Rightarrow> 'z sys option" where
  "wake Z c MasterG s =
     (let s = s\<lparr>sy_zb := (sy_zb s)\<lparr>zb_isMaster := True\<rparr>\<rparr>
      in Some (case zkChildren Z (sy_z s) (zb_workerBasePath (sy_zb s)) of
                 Inr workers \<Rightarrow> goto MasterG (Load workers workers) s
               | Inl e \<Rightarrow> goto MasterG Failed s))"
| "wake Z c WorkersG s =
     (if sy_pc s MasterG \<noteq> Done then None
      else case zkChildren Z (sy_z s) (zb_workerBasePath (sy_zb s)) of
             Inr workers \<Rightarrow> Some (goto WorkersG (Orphan workers (Balance workers Idle Idle)) s)
           | Inl e \<Rightarrow> Some s)"
| "wake Z c EventsG s =
     (if sy_pc s MasterG \<noteq> Done then None
      else case zkChildren Z (sy_z s) (zb_eventBasePath (sy_zb s)) of
             Inr events \<Rightarrow> Some (if length events > 0 then goto EventsG (Gather events events Map.empty) s else s)
           | Inl e \<Rightarrow> Some s)"
| "wake Z c TimerG s =
     (if sy_pc s MasterG \<noteq> Done \<or> sy_mutex s \<noteq> None then None
      else let a = check_scan (op_check c) (op_keys c) (sy_zb s)
           in Some (goto TimerG (after_scan a) (s\<lparr>sy_zb := ca_zb a\<rparr>)))"
| "wake Z c RegisterG s =
     (case zkGet Z (sy_z s) (workerEphemeralPath (sy_zb s)) of
        Inr d \<Rightarrow> (case decodeData d of Inr wts \<Rightarrow> Some (goto RegisterG (Apply wts) s) | Inl e \<Rightarrow> Some s)
      | Inl e \<Rightarrow> Some s)"

fun advance :: "'z zk_ops \<Rightarrow> opts \<Rightarrow> gor \<Rightarrow> pc \<Rightarrow> 'z sys \<Rightarrow> 'z sys option" where
  "advance Z c g Idle s = wake Z c g s"
| "advance Z c g Done s = None"
| "advance Z c g Failed s = None"
| "advance Z c g (Load ws []) s = Some (goto g (Deprecate (op_keys c) [] (Inr ()) ws) s)"
| "advance Z c g (Load ws (w # rest)) s =
     Some (case zkGet Z (sy_z s) (worker_node s w) of
        Inl e \<Rightarrow> goto g (if e = ErrNoNode then Load ws rest else Failed) s
      | Inr d \<Rightarrow> (case decodeData d of Inl e \<Rightarrow> goto g Failed s | Inr wts \<Rightarrow> goto g (Loaded w wts ws rest) s))"
| "advance Z c g (Loaded w wts ws rest) s =
     Some (goto g (Load ws rest) (s\<lparr>sy_zb := apply_loaded (op_now c) w wts (sy_zb s)\<rparr>))"
| "advance Z c g (Deprecate [] seen err ws) s =
     Some (goto g (if err = Inr () then Orphan ws (Balance ws Done Done) else Failed) s)"
| "advance Z c g (Deprecate (k # ks) seen err ws) s =
     (let (z', err') = deprecate_loop Z (ch_inner c) (sy_zb s) [k] seen err (sy_z s);
          seen' = (case task_at (sy_zb s) k of
                     Some t \<Rightarrow> if tk_Status t = Deleting \<and> tk_Owner t \<notin> set seen then tk_Owner t # seen else seen | None \<Rightarrow> seen)
      in Some (goto g (Deprecate ks seen' err' ws) (s\<lparr>sy_z := z'\<rparr>)))"
| "advance Z c g (Orphan ws k) s =
     (if sy_mutex s \<noteq> None then None
      else Some (goto g k (s\<lparr>sy_zb := fst (releaseOrphanTasks (op_keys c) ws (sy_zb s))\<rparr>)))"
| "advance Z c g (Query yes no) s =
     Some (goto g (case zkChildren Z (sy_z s) (zb_workerBasePath (sy_zb s)) of
        Inr workers \<Rightarrow> Balance workers yes no
      | Inl e \<Rightarrow> no) s)"
| "advance Z c g (Balance ws yes no) s =
     (if length ws = 0 then Some (goto g no s)
      else if sy_mutex s \<noteq> None then None
      else case sortable_tasks (sy_zb s) (ch_tasks c) of
        None \<Rightarrow> Some (goto g no (s\<lparr>sy_zb := (sy_zb s)\<lparr>zb_postponed := True\<rparr>\<rparr>))
      | Some rs \<Rightarrow>
          (if length rs = 0 then Some (goto g yes (s\<lparr>sy_zb := (sy_zb s)\<lparr>zb_postponed := False\<rparr>\<rparr>))
           else Some (goto g (Publish ws yes) (s\<lparr>sy_mutex := Some g,
                  sy_zb := place_tasks (ch_now c) (ch_weights c) ws (sort_tasks (sy_zb s) rs) (sy_zb s)\<rparr>))))"
| "advance Z c g (Publish [] k) s =
     Some (goto g k (s\<lparr>sy_mutex := None, sy_zb := (sy_zb s)\<lparr>zb_postponed := False\<rparr>\<rparr>))"
| "advance Z c g (Publish (w # ws) k) s =
     Some (goto g (Put w (tasks_of (sy_zb s) (ch_inner c w) w) ws k) s)"
| "advance Z c g (Put w ts ws k) s =
     Some (goto g (Publish ws k) (s\<lparr>sy_z := fst (zkSet Z (sy_z s) (worker_node s w) (node_doc ts))\<rparr>))"
| "advance Z c g (Gather evs [] m) s = Some (goto g (Release evs m) s)"
| "advance Z c g (Gather evs (e # es) m) s =
     Some (goto g (Gather evs es
       (case zkGet Z (sy_z s) (path_of (zb_eventBasePath (sy_zb s)) e) of
          Inl e \<Rightarrow> m
        | Inr d \<Rightarrow> (case decodeData d of Inl e \<Rightarrow> m | Inr ts \<Rightarrow> fold (\<lambda>v m. m(tk_Path v \<mapsto> v)) ts m))) s)"
| "advance Z c g (Release evs m) s =
     (if sy_mutex s \<noteq> None then None
      else let (zb, need) = fold (released_body (op_now c) m) (op_keys c) (sy_zb s, [])
           in Some (goto g (if length need > 0 then OnReleased need (Clean evs) else Clean evs) (s\<lparr>sy_zb := zb\<rparr>)))"
| "advance Z c g (OnReleased ts k) s =
     (if sy_mutex s \<noteq> None then None
      else Some (goto g (if zb_postponed (sy_zb s) then Query k (Republish ts [] k) else Republish ts [] k) s))"
| "advance Z c g (Republish [] seen k) s = Some (goto g k s)"
| "advance Z c g (Republish (t # ts) seen k) s =
     Some (goto g (if tk_Owner t \<in> set seen then Republish ts seen k
       else Reput (tk_Owner t) (tasks_of (sy_zb s) (ch_inner c (tk_Owner t)) (tk_Owner t)) ts (tk_Owner t # seen) k) s)"
| "advance Z c g (Reput w d ts seen k) s =
     Some (goto g (Republish ts seen k) (s\<lparr>sy_z := fst (zkSet Z (sy_z s) (worker_node s w) (node_doc d))\<rparr>))"
| "advance Z c g (Clean []) s = Some (goto g Idle s)"
| "advance Z c g (Clean (e # es)) s =
     Some (goto g (Clean es) (s\<lparr>sy_z := fst (zkDelete Z (sy_z s) (path_of (zb_eventBasePath (sy_zb s)) e))\<rparr>))"
| "advance Z c g (Postpone k) s =
     (if sy_mutex s \<noteq> None then None else Some (goto g k (s\<lparr>sy_zb := (sy_zb s)\<lparr>zb_postponed := True\<rparr>\<rparr>)))"
| "advance Z c g (Apply wts) s =
     Some (goto g Idle (s\<lparr>sy_zb := apply_loaded (op_now c) (zb_workerPath (sy_zb s)) wts (sy_zb s)\<rparr>))"

subsection \<open>A store that may fail\<close>

text \<open>
  A request that fails with an error other than \<open>ErrNoNode\<close> may or may not have been carried out, and a read may
  fail. Every connection that is \<open>zk_reliable\<close> obeys these laws.
\<close>

definition zk_sound :: "'z zk_ops \<Rightarrow> ('z \<Rightarrow> string \<rightharpoonup> zk_data) \<Rightarrow> bool" where
  "zk_sound Z nodes \<longleftrightarrow>
     (\<forall>z p. case zkGet Z z p of Inr d \<Rightarrow> nodes z p = Some d | Inl e \<Rightarrow> e = ErrNoNode \<longrightarrow> nodes z p = None)
   \<and> (\<forall>z p d. case zkSet Z z p d of
        (z', None) \<Rightarrow> nodes z' = (nodes z)(p \<mapsto> d)
      | (z', Some e) \<Rightarrow> if e = ErrNoNode then nodes z' = nodes z \<and> nodes z p = None
                      else nodes z' = nodes z \<or> nodes z' = (nodes z)(p \<mapsto> d))
   \<and> (\<forall>z p d. nodes (fst (zkCreate Z z p d)) = nodes z \<or> nodes (fst (zkCreate Z z p d)) = (nodes z)(p \<mapsto> d))
   \<and> (\<forall>z b n d. CHR ''/'' \<notin> set n \<longrightarrow> nodes (fst (zkCreateSeq Z z (path_of b n) d)) = nodes z
        \<or> (\<exists>m. CHR ''/'' \<notin> set m \<and> nodes (fst (zkCreateSeq Z z (path_of b n) d)) = (nodes z)(path_of b m \<mapsto> d)))
   \<and> (\<forall>z p. nodes (fst (zkDelete Z z p)) = nodes z \<or> nodes (fst (zkDelete Z z p)) = (nodes z)(p := None))
   \<and> zk_children_law Z nodes"

lemma zk_reliable_sound: "zk_reliable Z nodes \<Longrightarrow> zk_sound Z nodes"
  unfolding zk_sound_def
proof (intro conjI allI)
  assume r: "zk_reliable Z nodes"
  fix z p d
  show "case zkGet Z z p of Inr d \<Rightarrow> nodes z p = Some d | Inl e \<Rightarrow> e = ErrNoNode \<longrightarrow> nodes z p = None"
    using r by (auto simp: zk_reliable_def zk_get_law_def split: option.splits)
  have "if p \<in> dom (nodes z)
       then snd (zkSet Z z p d) = None \<and> nodes (fst (zkSet Z z p d)) = (nodes z)(p \<mapsto> d)
       else snd (zkSet Z z p d) = Some ErrNoNode \<and> nodes (fst (zkSet Z z p d)) = nodes z"
    using r unfolding zk_reliable_def zk_set_law_def by blast
  then show "case zkSet Z z p d of
        (z', None) \<Rightarrow> nodes z' = (nodes z)(p \<mapsto> d)
      | (z', Some e) \<Rightarrow> if e = ErrNoNode then nodes z' = nodes z \<and> nodes z p = None
                      else nodes z' = nodes z \<or> nodes z' = (nodes z)(p \<mapsto> d)"
    by (cases "p \<in> dom (nodes z)") (auto split: prod.splits)
  show "nodes (fst (zkCreate Z z p d)) = nodes z \<or> nodes (fst (zkCreate Z z p d)) = (nodes z)(p \<mapsto> d)"
    using r unfolding zk_reliable_def zk_create_law_def by metis
  show "nodes (fst (zkDelete Z z p)) = nodes z \<or> nodes (fst (zkDelete Z z p)) = (nodes z)(p := None)"
    using r unfolding zk_reliable_def zk_delete_law_def by metis
  show "zk_children_law Z nodes" using r by (simp add: zk_reliable_def)
  fix b n
  show "CHR ''/'' \<notin> set n \<longrightarrow> nodes (fst (zkCreateSeq Z z (path_of b n) d)) = nodes z
        \<or> (\<exists>m. CHR ''/'' \<notin> set m \<and> nodes (fst (zkCreateSeq Z z (path_of b n) d)) = (nodes z)(path_of b m \<mapsto> d))"
    using r unfolding zk_reliable_def zk_create_seq_law_def by metis
qed

subsection \<open>The running system\<close>

definition current :: "'z zk_ops \<Rightarrow> ('z \<Rightarrow> string \<rightharpoonup> zk_data) \<Rightarrow> pc \<Rightarrow> 'z sys \<Rightarrow> bool" where
  "current Z nodes p s = (case p of
       Orphan ws k \<Rightarrow> \<forall>w. CHR ''/'' \<notin> set w \<longrightarrow> published (nodes (sy_z s)) (zb_workerBasePath (sy_zb s)) w \<noteq> {} \<longrightarrow> w \<in> set ws
     | Balance ws yes no \<Rightarrow> \<forall>w. CHR ''/'' \<notin> set w \<longrightarrow> published (nodes (sy_z s)) (zb_workerBasePath (sy_zb s)) w \<noteq> {} \<longrightarrow> w \<in> set ws
     | Put w ts ws k \<Rightarrow> snd (zkSet Z (sy_z s) (worker_node s w) (node_doc ts)) \<in> {None, Some ErrNoNode}
     | Reput w d ts seen k \<Rightarrow> \<forall>t \<in> set d. holds (sy_zb s) w (tk_Path t)
     | Apply wts \<Rightarrow> tk_Path ` set wts \<subseteq> published (nodes (sy_z s)) (zb_workerBasePath (sy_zb s)) (zb_workerPath (sy_zb s))
     | _ \<Rightarrow> True)"

text \<open>
  The flag says that all steps so far were current. Besides the goroutines, workers join with an empty node and
  leave, workers report releases, and other clients write elsewhere in the store.
\<close>

inductive sys_step :: "'z zk_ops \<Rightarrow> ('z \<Rightarrow> string \<rightharpoonup> zk_data) \<Rightarrow> 'z sys \<times> bool \<Rightarrow> 'z sys \<times> bool \<Rightarrow> bool" for Z nodes where
  go: "advance Z c g (sy_pc s g) s = Some s' \<Longrightarrow> sys_step Z nodes (s, ok) (s', ok \<and> current Z nodes (sy_pc s g) s)"
| join: "sys_step Z nodes (s, ok) (s\<lparr>sy_z := fst (zkCreate Z (sy_z s) (worker_node s w) NoData)\<rparr>, ok)"
| leave: "sys_step Z nodes (s, ok) (s\<lparr>sy_z := fst (zkDelete Z (sy_z s) (worker_node s w))\<rparr>, ok)"
| release: "Released Z tasks (sy_zb s, sy_z s) = ((zb', z'), r) \<Longrightarrow> sys_step Z nodes (s, ok) (s\<lparr>sy_zb := zb', sy_z := z'\<rparr>, ok)"
| other: "(\<And>w. CHR ''/'' \<notin> set w \<Longrightarrow> nodes z' (worker_node s w) = nodes (sy_z s) (worker_node s w)) \<Longrightarrow>
    sys_step Z nodes (s, ok) (s\<lparr>sy_z := z'\<rparr>, ok)"

definition exclusive :: "(string \<rightharpoonup> zk_data) \<Rightarrow> string \<Rightarrow> bool" where
  "exclusive nds base \<longleftrightarrow> (\<forall>w w'. CHR ''/'' \<notin> set w \<longrightarrow> CHR ''/'' \<notin> set w' \<longrightarrow> w \<noteq> w' \<longrightarrow>
     published nds base w \<inter> published nds base w' = {})"

text \<open>
  A run starts when the process has got the master lock: its table is fresh, the nodes of the workers name tasks
  it knows and no task twice, and none of its handlers runs.
\<close>

definition sys_start :: "'z zk_ops \<Rightarrow> ('z \<Rightarrow> string \<rightharpoonup> zk_data) \<Rightarrow> 'z sys \<times> bool \<Rightarrow> bool" where
  "sys_start Z nodes = (\<lambda>(s, ok). zk_sound Z nodes \<and> ok \<and> fresh_master (sy_zb s)
     \<and> known_tasks (sy_zb s) (nodes (sy_z s)) \<and> exclusive (nodes (sy_z s)) (zb_workerBasePath (sy_zb s))
     \<and> sy_pc s = (\<lambda>_. Idle) \<and> sy_mutex s = None)"


subsection \<open>The invariant\<close>

text \<open>Which points a goroutine can be at.\<close>

fun locking :: "pc \<Rightarrow> bool" where
  "locking (Publish ws k) \<longleftrightarrow> True"
| "locking (Put w ts ws k) \<longleftrightarrow> True"
| "locking _ \<longleftrightarrow> False"

fun handler :: "pc \<Rightarrow> bool" where
  "handler Idle \<longleftrightarrow> True"
| "handler (Orphan ws k) \<longleftrightarrow> handler k \<and> \<not> locking k"
| "handler (Query yes no) \<longleftrightarrow> handler yes \<and> handler no \<and> \<not> locking yes \<and> \<not> locking no"
| "handler (Balance ws yes no) \<longleftrightarrow> handler yes \<and> handler no \<and> \<not> locking yes \<and> \<not> locking no"
| "handler (Publish ws k) \<longleftrightarrow> handler k \<and> \<not> locking k"
| "handler (Put w ts ws k) \<longleftrightarrow> handler k \<and> \<not> locking k"
| "handler (Gather evs es m) \<longleftrightarrow> True"
| "handler (Release evs m) \<longleftrightarrow> True"
| "handler (OnReleased ts k) \<longleftrightarrow> handler k \<and> \<not> locking k"
| "handler (Republish ts seen k) \<longleftrightarrow> handler k \<and> \<not> locking k"
| "handler (Reput w d ts seen k) \<longleftrightarrow> handler k \<and> \<not> locking k"
| "handler (Clean es) \<longleftrightarrow> True"
| "handler (Postpone k) \<longleftrightarrow> handler k \<and> \<not> locking k"
| "handler _ \<longleftrightarrow> False"

fun starter :: "pc \<Rightarrow> bool" where
  "starter Idle \<longleftrightarrow> True"
| "starter Done \<longleftrightarrow> True"
| "starter Failed \<longleftrightarrow> True"
| "starter (Load ws rest) \<longleftrightarrow> True"
| "starter (Loaded w ts ws rest) \<longleftrightarrow> True"
| "starter (Deprecate ks seen err ws) \<longleftrightarrow> True"
| "starter (Orphan ws k) \<longleftrightarrow> k = Balance ws Done Done"
| "starter (Balance ws yes no) \<longleftrightarrow> yes = Done \<and> no = Done"
| "starter (Publish ws k) \<longleftrightarrow> k = Done"
| "starter (Put w ts ws k) \<longleftrightarrow> k = Done"
| "starter _ \<longleftrightarrow> False"

fun fits :: "gor \<Rightarrow> pc \<Rightarrow> bool" where
  "fits MasterG p \<longleftrightarrow> starter p"
| "fits RegisterG p \<longleftrightarrow> p = Idle \<or> (\<exists>wts. p = Apply wts)"
| "fits g p \<longleftrightarrow> handler p"

text \<open>The workers a balance under way has still to publish to.\<close>

fun pend :: "pc \<Rightarrow> string set" where
  "pend (Publish ws k) = set ws"
| "pend (Put w ts ws k) = insert w (set ws)"
| "pend _ = {}"

text \<open>The tasks of nodes a starting master has not loaded yet.\<close>

fun unloaded :: "pc \<Rightarrow> string \<Rightarrow> string \<Rightarrow> bool" where
  "unloaded Idle w p \<longleftrightarrow> True"
| "unloaded Failed w p \<longleftrightarrow> True"
| "unloaded (Load ws rest) w p \<longleftrightarrow> w \<in> set rest"
| "unloaded (Loaded w' ts ws rest) w p \<longleftrightarrow> w \<in> set rest \<or> (w = w' \<and> p \<in> tk_Path ` set ts)"
| "unloaded _ w p \<longleftrightarrow> False"

definition releasing :: "ZkBalancer \<Rightarrow> string \<Rightarrow> bool" where
  "releasing zb p \<longleftrightarrow> (\<exists>t. task_at zb p = Some t \<and> tk_Status t = Releasing)"

definition control_ok :: "(gor \<Rightarrow> pc) \<Rightarrow> gor option \<Rightarrow> bool" where
  "control_ok pcs m \<longleftrightarrow> (\<forall>g. fits g (pcs g)) \<and> (\<forall>g. locking (pcs g) \<longleftrightarrow> m = Some g)
     \<and> (pcs MasterG \<noteq> Done \<longrightarrow> pcs WorkersG = Idle \<and> pcs EventsG = Idle \<and> pcs TimerG = Idle)"

text \<open>
  The table and the nodes, for the workers \<open>P\<close> a balance has still to publish to and the tasks \<open>U\<close> not loaded yet:
  a task in a worker's node is assigned to it, or about to be taken from it, or not loaded yet; and no task is in two nodes.
\<close>

definition nodes_ok :: "ZkBalancer \<Rightarrow> (string \<rightharpoonup> zk_data) \<Rightarrow> string set \<Rightarrow> (string \<Rightarrow> string \<Rightarrow> bool) \<Rightarrow> bool" where
  "nodes_ok zb nds P U \<longleftrightarrow> (\<forall>w p. CHR ''/'' \<notin> set w \<longrightarrow> p \<in> published nds (zb_workerBasePath zb) w \<longrightarrow>
      holds zb w p \<or> (w \<in> P \<and> releasing zb p) \<or> (U w p \<and> p \<in> dom (zb_tasks zb)))
     \<and> exclusive nds (zb_workerBasePath zb)"

definition table_ok :: "ZkBalancer \<Rightarrow> bool" where
  "table_ok zb \<longleftrightarrow> unaliased zb \<and> zb_workerBasePath zb \<noteq> zb_eventBasePath zb \<and> CHR ''/'' \<notin> set (zb_workerPath zb)"

text \<open>The data a goroutine has read and is about to use.\<close>

fun view_ok :: "ZkBalancer \<Rightarrow> (string \<rightharpoonup> zk_data) \<Rightarrow> pc \<Rightarrow> bool" where
  "view_ok zb nds (Put w ts ws k) \<longleftrightarrow> (\<forall>t \<in> set ts. holds zb w (tk_Path t))"
| "view_ok zb nds (Load ws rest) \<longleftrightarrow> (\<forall>w \<in> set rest. CHR ''/'' \<notin> set w)"
| "view_ok zb nds (Loaded w ts ws rest) \<longleftrightarrow> (\<forall>w \<in> set rest. CHR ''/'' \<notin> set w) \<and> tk_Path ` set ts \<subseteq> dom (zb_tasks zb)
     \<and> (\<forall>w'. CHR ''/'' \<notin> set w' \<longrightarrow> w' \<noteq> w \<longrightarrow> published nds (zb_workerBasePath zb) w' \<inter> tk_Path ` set ts = {})"
| "view_ok zb nds _ \<longleftrightarrow> True"

definition pending :: "(gor \<Rightarrow> pc) \<Rightarrow> string set" where
  "pending pcs = (\<Union>g. pend (pcs g))"

definition sys_inv :: "('z \<Rightarrow> string \<rightharpoonup> zk_data) \<Rightarrow> 'z sys \<Rightarrow> bool" where
  "sys_inv nodes s \<longleftrightarrow> control_ok (sy_pc s) (sy_mutex s) \<and> table_ok (sy_zb s)
     \<and> nodes_ok (sy_zb s) (nodes (sy_z s)) (pending (sy_pc s)) (unloaded (sy_pc s MasterG))
     \<and> (\<forall>g. view_ok (sy_zb s) (nodes (sy_z s)) (sy_pc s g))"

lemma pend_locking: "\<not> locking p \<Longrightarrow> pend p = {}"
  by (cases p) auto

lemma unloaded_starter: "locking p \<Longrightarrow> \<not> unloaded p w q"
  by (cases p) auto

lemma pending_free: "control_ok pcs None \<Longrightarrow> pending pcs = {}"
  by (auto simp: pending_def control_ok_def dest: pend_locking)

lemma pending_locked: "control_ok pcs (Some g) \<Longrightarrow> pending pcs = pend (pcs g)"
proof -
  assume c: "control_ok pcs (Some g)"
  then have "pend (pcs h) = {}" if "h \<noteq> g" for h using that by (intro pend_locking) (auto simp: control_ok_def)
  then have "x \<in> pend (pcs h) \<Longrightarrow> x \<in> pend (pcs g)" for x h by (cases "h = g") auto
  then show ?thesis by (auto simp: pending_def)
qed

lemma goto_simps [simp]:
  "sy_zb (goto g p s) = sy_zb s" "sy_z (goto g p s) = sy_z s" "sy_mutex (goto g p s) = sy_mutex s"
  "sy_pc (goto g p s) = (sy_pc s)(g := p)"
  by (simp_all add: goto_def)

lemma table_keeps: "keeps W zb zb' \<Longrightarrow> table_ok zb \<Longrightarrow> table_ok zb'"
  by (auto simp: table_ok_def keeps_def conf_def)

lemma table_ok_same:
  "zb_tasks zb' = zb_tasks zb \<Longrightarrow> zb_heap zb' = zb_heap zb \<Longrightarrow> conf zb' = conf zb \<Longrightarrow> keeps W zb zb' \<longleftrightarrow> unaliased zb"
  by (auto simp: keeps_def unaliased_def holds_def task_at_def conf_def)

text \<open>A step outside the mutex that leaves the table's assignments to publishing workers and the nodes as they are.\<close>

lemma nodes_ok_keeps:
  assumes "keeps W zb zb'" "nodes_ok zb nds {} (\<lambda>_ _. False)"
    and "\<And>w. CHR ''/'' \<notin> set w \<Longrightarrow> published nds (zb_workerBasePath zb) w \<noteq> {} \<Longrightarrow> w \<in> W"
  shows "nodes_ok zb' nds P U"
proof -
  have b: "zb_workerBasePath zb' = zb_workerBasePath zb" using assms(1) by (simp add: keeps_def conf_def)
  show ?thesis using assms unfolding nodes_ok_def b keeps_def by fastforce
qed

text \<open>Nodes that only lose tasks.\<close>

lemma exclusive_mono:
  "exclusive nds b \<Longrightarrow> (\<And>w. CHR ''/'' \<notin> set w \<Longrightarrow> published nds' b w \<subseteq> published nds b w) \<Longrightarrow> exclusive nds' b"
  unfolding exclusive_def by blast

lemma exclusive_sub:
  "exclusive nds b \<Longrightarrow> CHR ''/'' \<notin> set w \<Longrightarrow> CHR ''/'' \<notin> set w' \<Longrightarrow> w' \<noteq> w \<Longrightarrow> A \<subseteq> published nds b w \<Longrightarrow>
   published nds b w' \<inter> A = {}"
  unfolding exclusive_def by blast

lemma nodes_ok_mono:
  "nodes_ok zb nds P U \<Longrightarrow> (\<And>w. CHR ''/'' \<notin> set w \<Longrightarrow> published nds' (zb_workerBasePath zb) w \<subseteq> published nds (zb_workerBasePath zb) w)
   \<Longrightarrow> nodes_ok zb nds' P U"
  unfolding nodes_ok_def using exclusive_mono by blast

lemma view_ok_mono:
  "view_ok zb nds p \<Longrightarrow> (\<And>w. CHR ''/'' \<notin> set w \<Longrightarrow> published nds' (zb_workerBasePath zb) w \<subseteq> published nds (zb_workerBasePath zb) w)
   \<Longrightarrow> view_ok zb nds' p"
  by (cases p) (auto, blast)

lemma sys_inv_shrink:
  assumes "sys_inv nodes s"
    "\<And>w. CHR ''/'' \<notin> set w \<Longrightarrow> published (nodes z') (zb_workerBasePath (sy_zb s)) w \<subseteq> published (nodes (sy_z s)) (zb_workerBasePath (sy_zb s)) w"
  shows "sys_inv nodes (s\<lparr>sy_z := z'\<rparr>)"
  using assms nodes_ok_mono [of "sy_zb s" "nodes (sy_z s)" "pending (sy_pc s)" "unloaded (sy_pc s MasterG)" "nodes z'"]
    view_ok_mono [of "sy_zb s" "nodes (sy_z s)" _ "nodes z'"]
  by (simp add: sys_inv_def)

text \<open>Writing into a node tasks its worker holds.\<close>

lemma nodes_ok_write:
  assumes "nodes_ok zb nds P U" "\<And>t. t \<in> set ts \<Longrightarrow> holds zb w (tk_Path t)"
    and u: "\<And>w' p. \<not> U w' p"
  shows "nodes_ok zb (nds(path_of (zb_workerBasePath zb) w \<mapsto> node_doc ts)) (P - {w}) U"
proof -
  let ?b = "zb_workerBasePath zb" and ?n = "nds(path_of (zb_workerBasePath zb) w \<mapsto> node_doc ts)"
  have own: "published ?n ?b w = tk_Path ` set ts" by (simp add: published_def)
  have oth: "published ?n ?b w' = published nds ?b w'" if "w' \<noteq> w" for w' using that by (simp add: published_def)
  have dis: "published nds ?b w' \<inter> tk_Path ` set ts = {}" if "w' \<noteq> w" "CHR ''/'' \<notin> set w'" for w'
  proof (intro equals0I)
    fix p assume p: "p \<in> published nds ?b w' \<inter> tk_Path ` set ts"
    then have "holds zb w p" using assms(2) by auto
    moreover have "holds zb w' p \<or> releasing zb p" using assms(1) that p u unfolding nodes_ok_def by blast
    ultimately show False using that by (auto simp: holds_def releasing_def)
  qed
  have "exclusive ?n ?b"
    unfolding exclusive_def
  proof (intro allI impI)
    fix w1 w2 :: string
    assume a: "CHR ''/'' \<notin> set w1" "CHR ''/'' \<notin> set w2" "w1 \<noteq> w2"
    then have "published nds ?b w1 \<inter> published nds ?b w2 = {}" using assms(1) by (simp add: nodes_ok_def exclusive_def)
    then show "published ?n ?b w1 \<inter> published ?n ?b w2 = {}"
      using a own oth dis by (metis inf_commute)
  qed
  moreover have "holds zb w' p \<or> w' \<in> P - {w} \<and> releasing zb p"
    if "CHR ''/'' \<notin> set w'" "p \<in> published ?n ?b w'" for w' p
  proof (cases "w' = w")
    case True
    then show ?thesis using that own assms(2) by auto
  next
    case False
    then show ?thesis using that oth [OF False] assms(1) u unfolding nodes_ok_def by blast
  qed
  ultimately show ?thesis unfolding nodes_ok_def by blast
qed


subsection \<open>Operations on the table\<close>

lemma load_body_holds:
  assumes "tk_Path wt \<in> dom (zb_tasks zb)" "r \<notin> ran (zb_tasks zb)"
  shows "holds (load_body now w r wt zb) w (tk_Path wt)"
    and "holds zb w p \<Longrightarrow> holds (load_body now w r wt zb) w p"
    and "zb_tasks (load_body now w r wt zb) = zb_tasks zb"
proof -
  obtain v where v: "zb_tasks zb (tk_Path wt) = Some v" using assms(1) by blast
  show "holds (load_body now w r wt zb) w (tk_Path wt)"
    using v by (simp add: load_body_def holds_def task_at_def)
  show "zb_tasks (load_body now w r wt zb) = zb_tasks zb" using v by (simp add: load_body_def)
  assume h: "holds zb w p"
  then obtain u where "zb_tasks zb p = Some u" "u \<noteq> r"
    using assms(2) by (auto simp: holds_def task_at_def ran_def)
  then show "holds (load_body now w r wt zb) w p"
    using v h by (auto simp: load_body_def holds_def task_at_def)
qed

lemma load_fold_holds:
  assumes "tk_Path ` set wts \<subseteq> dom (zb_tasks zb)" "r \<notin> ran (zb_tasks zb)" "p \<in> tk_Path ` set wts \<or> holds zb w p"
  shows "holds (fold (load_body now w r) wts zb) w p"
  using assms
proof (induction wts arbitrary: zb)
  case (Cons wt wts)
  let ?zb = "load_body now w r wt zb"
  have "tk_Path wt \<in> dom (zb_tasks zb)" using Cons.prems(1) by simp
  note b = load_body_holds [OF this Cons.prems(2), where now = now and w = w]
  have "p \<in> tk_Path ` set wts \<or> holds ?zb w p" using Cons.prems(3) b by auto
  then show ?case using Cons.IH [of ?zb] Cons.prems(1,2) b(3) by simp
qed simp

text \<open>Loading known tasks into the table: they are then the worker's, and the others stay as they were.\<close>

lemma apply_loaded_table:
  fixes now w
  assumes "table_ok zb" "tk_Path ` set wts \<subseteq> dom (zb_tasks zb)"
  defines "zb' \<equiv> apply_loaded now w wts zb"
  shows "table_ok zb'" "dom (zb_tasks zb') = dom (zb_tasks zb)" "zb_workerBasePath zb' = zb_workerBasePath zb"
    and "p \<in> tk_Path ` set wts \<Longrightarrow> holds zb' w p"
    and "p \<notin> tk_Path ` set wts \<Longrightarrow> task_at zb' p = task_at zb p"
proof -
  let ?zb = "zb\<lparr>zb_next := Suc (zb_next zb)\<rparr>"
  have u: "unaliased zb" using assms(1) by (simp add: table_ok_def)
  have r: "zb_next zb \<notin> ran (zb_tasks ?zb)" using u by (fastforce simp: ran_def unaliased_def)
  have l: "loaded w (tk_Path ` set wts) ?zb zb'"
    using load_fold_loaded [OF unaliased_next [OF u] r, of wts "tk_Path ` set wts" w now] assms(2)
    by (simp add: zb'_def apply_loaded_def)
  show "table_ok zb'"
    using assms(1) loaded_unaliased [OF l unaliased_next [OF u]] l by (auto simp: table_ok_def loaded_def conf_def)
  show "dom (zb_tasks zb') = dom (zb_tasks zb)" "zb_workerBasePath zb' = zb_workerBasePath zb"
    using l by (auto simp: loaded_def conf_def)
  show "p \<in> tk_Path ` set wts \<Longrightarrow> holds zb' w p"
    using load_fold_holds [of wts ?zb "zb_next zb" p w now] r assms(2) by (simp add: zb'_def apply_loaded_def)
  show "p \<notin> tk_Path ` set wts \<Longrightarrow> task_at zb' p = task_at zb p"
    using l by (cases "zb_tasks zb p") (auto simp: loaded_def task_at_def)
qed

lemma task_at_holds: "task_at zb' p = task_at zb p \<Longrightarrow> holds zb' w p = holds zb w p \<and> releasing zb' p = releasing zb p"
  by (simp add: holds_def releasing_def)

text \<open>Node data loaded for a worker, when no other node names these tasks.\<close>

lemma nodes_ok_apply:
  assumes t: "table_ok zb" "tk_Path ` set wts \<subseteq> dom (zb_tasks zb)" and n: "nodes_ok zb nds P U"
    and other: "\<And>w'. CHR ''/'' \<notin> set w' \<Longrightarrow> w' \<noteq> w \<Longrightarrow> published nds (zb_workerBasePath zb) w' \<inter> tk_Path ` set wts = {}"
    and U: "\<And>w' p. U w' p \<Longrightarrow> U' w' p \<or> (w' = w \<and> p \<in> tk_Path ` set wts)"
  shows "nodes_ok (apply_loaded now w wts zb) nds P U'"
proof -
  note a = apply_loaded_table [OF t, where now = now and w = w]
  let ?zb = "apply_loaded now w wts zb"
  have "holds ?zb w' p \<or> w' \<in> P \<and> releasing ?zb p \<or> U' w' p \<and> p \<in> dom (zb_tasks ?zb)"
    if "CHR ''/'' \<notin> set w'" "p \<in> published nds (zb_workerBasePath zb) w'" for w' p
  proof (cases "p \<in> tk_Path ` set wts")
    case True
    then have "w' = w" using other that by blast
    then show ?thesis using a(4) [OF True] by simp
  next
    case False
    have "holds zb w' p \<or> w' \<in> P \<and> releasing zb p \<or> U w' p \<and> p \<in> dom (zb_tasks zb)"
      using n that by (simp add: nodes_ok_def)
    then show ?thesis using task_at_holds [OF a(5) [OF False]] a(2) U False by blast
  qed
  then show ?thesis using n a(3) by (simp add: nodes_ok_def)
qed

lemma assign_first_two_phase:
  "assign_first now i ws rs ww zb = (i', rest, ww', zb') \<Longrightarrow> two_phase (zb_heap zb r) (zb_heap zb' r)"
  by (induction now i ws rs ww zb rule: assign_first.induct)
    (auto intro: two_phase_trans [OF reassign_placed(2) [OF UNIV_I]])

lemma assign_rest_two_phase: "two_phase (zb_heap zb r) (zb_heap (assign_rest now wo i rs ww zb) r)"
proof (induction rs arbitrary: i ww zb)
  case (Cons r' rs)
  show ?case unfolding assign_rest.simps Let_def by (rule two_phase_trans [OF reassign_placed(2) [OF UNIV_I] Cons.IH])
qed simp

lemma place_two_phase: "two_phase (zb_heap zb r) (zb_heap (place_tasks now wo ws rs zb) r)"
  by (auto simp: place_tasks_def split: prod.splits
      intro: two_phase_trans [OF assign_first_two_phase assign_rest_two_phase])

text \<open>After the placement a task that was held is still held or is being released.\<close>

lemma place_holds:
  assumes "holds zb w p"
  shows "holds (place_tasks now wo ws rs zb) w p \<or> releasing (place_tasks now wo ws rs zb) p"
proof -
  let ?zb = "place_tasks now wo ws rs zb"
  obtain r where r: "zb_tasks zb p = Some r" "tk_Status (zb_heap zb r) = Assigned" "tk_Owner (zb_heap zb r) = w"
    using assms by (auto simp: holds_def task_at_def)
  have "task_at ?zb p = Some (zb_heap ?zb r)" using r(1) same_keys_task_at [OF same_keys_place] by simp
  then show ?thesis using place_two_phase [of zb r now wo ws rs] r by (auto simp: two_phase_def holds_def releasing_def)
qed

lemma nodes_ok_place:
  assumes n: "nodes_ok zb nds {} (\<lambda>_ _. False)"
    and ws: "\<And>w. CHR ''/'' \<notin> set w \<Longrightarrow> published nds (zb_workerBasePath zb) w \<noteq> {} \<Longrightarrow> w \<in> set ws"
  shows "nodes_ok (place_tasks now wo ws rs zb) nds (set ws) U"
proof -
  have "zb_workerBasePath (place_tasks now wo ws rs zb) = zb_workerBasePath zb"
    using same_keys_place [of zb now wo ws rs] by (simp add: same_keys_def conf_def)
  then show ?thesis using n ws place_holds unfolding nodes_ok_def by fastforce
qed

lemma table_ok_place: "table_ok zb \<Longrightarrow> table_ok (place_tasks now wo ws rs zb)"
  using same_keys_place [of zb now wo ws rs] same_keys_unaliased
  by (auto simp: table_ok_def same_keys_def conf_def)

subsection \<open>Accesses to the store\<close>

lemma zk_soundD:
  assumes "zk_sound Z nodes"
  shows "case zkGet Z z p of Inr d \<Rightarrow> nodes z p = Some d | Inl e \<Rightarrow> e = ErrNoNode \<longrightarrow> nodes z p = None"
    and "case zkSet Z z p d of
        (z', None) \<Rightarrow> nodes z' = (nodes z)(p \<mapsto> d)
      | (z', Some e) \<Rightarrow> if e = ErrNoNode then nodes z' = nodes z \<and> nodes z p = None
                      else nodes z' = nodes z \<or> nodes z' = (nodes z)(p \<mapsto> d)"
    and "nodes (fst (zkCreate Z z p d)) = nodes z \<or> nodes (fst (zkCreate Z z p d)) = (nodes z)(p \<mapsto> d)"
    and "CHR ''/'' \<notin> set n \<longrightarrow> nodes (fst (zkCreateSeq Z z (path_of b n) d)) = nodes z
        \<or> (\<exists>m. CHR ''/'' \<notin> set m \<and> nodes (fst (zkCreateSeq Z z (path_of b n) d)) = (nodes z)(path_of b m \<mapsto> d))"
    and "nodes (fst (zkDelete Z z p)) = nodes z \<or> nodes (fst (zkDelete Z z p)) = (nodes z)(p := None)"
    and "zk_children_law Z nodes"
proof -
  note d = assms [unfolded zk_sound_def]
  show "case zkGet Z z p of Inr d \<Rightarrow> nodes z p = Some d | Inl e \<Rightarrow> e = ErrNoNode \<longrightarrow> nodes z p = None"
    by (rule d [THEN conjunct1, THEN spec, THEN spec])
  show "case zkSet Z z p d of
        (z', None) \<Rightarrow> nodes z' = (nodes z)(p \<mapsto> d)
      | (z', Some e) \<Rightarrow> if e = ErrNoNode then nodes z' = nodes z \<and> nodes z p = None
                      else nodes z' = nodes z \<or> nodes z' = (nodes z)(p \<mapsto> d)"
    by (rule d [THEN conjunct2, THEN conjunct1, THEN spec, THEN spec, THEN spec])
  note d' = d [THEN conjunct2, THEN conjunct2]
  show "nodes (fst (zkCreate Z z p d)) = nodes z \<or> nodes (fst (zkCreate Z z p d)) = (nodes z)(p \<mapsto> d)"
    by (rule d' [THEN conjunct1, THEN spec, THEN spec, THEN spec])
  show "CHR ''/'' \<notin> set n \<longrightarrow> nodes (fst (zkCreateSeq Z z (path_of b n) d)) = nodes z
        \<or> (\<exists>m. CHR ''/'' \<notin> set m \<and> nodes (fst (zkCreateSeq Z z (path_of b n) d)) = (nodes z)(path_of b m \<mapsto> d))"
    by (rule d' [THEN conjunct2, THEN conjunct1, THEN spec, THEN spec, THEN spec, THEN spec])
  show "nodes (fst (zkDelete Z z p)) = nodes z \<or> nodes (fst (zkDelete Z z p)) = (nodes z)(p := None)"
    by (rule d' [THEN conjunct2, THEN conjunct2, THEN conjunct1, THEN spec, THEN spec])
  show "zk_children_law Z nodes" by (rule d' [THEN conjunct2, THEN conjunct2, THEN conjunct2])
qed

lemma zk_sound_set:
  assumes "zk_sound Z nodes"
  shows "nodes (fst (zkSet Z z p d)) = nodes z \<or> nodes (fst (zkSet Z z p d)) = (nodes z)(p \<mapsto> d)"
    and "snd (zkSet Z z p d) \<in> {None, Some ErrNoNode} \<Longrightarrow>
      nodes (fst (zkSet Z z p d)) = (nodes z)(p \<mapsto> d) \<or> nodes (fst (zkSet Z z p d)) = nodes z \<and> nodes z p = None"
proof -
  note * = zk_soundD(2) [OF assms, of z p d]
  show "nodes (fst (zkSet Z z p d)) = nodes z \<or> nodes (fst (zkSet Z z p d)) = (nodes z)(p \<mapsto> d)"
    using * by (auto split: prod.splits option.splits if_splits)
  show "snd (zkSet Z z p d) \<in> {None, Some ErrNoNode} \<Longrightarrow>
      nodes (fst (zkSet Z z p d)) = (nodes z)(p \<mapsto> d) \<or> nodes (fst (zkSet Z z p d)) = nodes z \<and> nodes z p = None"
    using * by (auto split: prod.splits option.splits if_splits)
qed

lemma zk_sound_get:
  "zk_sound Z nodes \<Longrightarrow> zkGet Z z p = Inr d \<Longrightarrow> nodes z p = Some d"
  "zk_sound Z nodes \<Longrightarrow> zkGet Z z p = Inl ErrNoNode \<Longrightarrow> nodes z p = None"
  using zk_soundD(1) [of Z nodes z p] by simp_all

lemma published_get:
  assumes "zk_sound Z nodes" "zkGet Z z (path_of b w) = Inr d" "decodeData d = Inr ts"
  shows "published (nodes z) b w = tk_Path ` set ts"
  using zk_sound_get(1) [OF assms(1,2)] assms(3) by (simp add: published_def)

lemma published_missing:
  "zk_sound Z nodes \<Longrightarrow> zkGet Z z (path_of b w) = Inl ErrNoNode \<Longrightarrow> published (nodes z) b w = {}"
  using zk_sound_get(2) by (fastforce simp: published_def)

lemma children_publishing:
  assumes "zk_sound Z nodes" "zkChildren Z z b = Inr ws" "CHR ''/'' \<notin> set w" "published (nodes z) b w \<noteq> {}"
  shows "w \<in> set ws"
proof -
  have "path_of b w \<in> dom (nodes z)" using assms(4) by (auto simp: published_def split: option.splits)
  then show ?thesis using assms(2,3) zk_children_live [OF zk_soundD(6) [OF assms(1)]] by blast
qed

lemma published_del: "published (nds(p := None)) b w \<subseteq> published nds b w"
  by (simp add: published_def)

lemma published_join: "published (nds(p \<mapsto> NoData)) b w \<subseteq> published nds b w"
  by (simp add: published_def decodeData_def)

lemma delete_shrinks: "zk_sound Z nodes \<Longrightarrow> published (nodes (fst (zkDelete Z z p))) b w \<subseteq> published (nodes z) b w"
  using zk_soundD(5) [of Z nodes z p] published_del by (metis order_refl)

lemma join_shrinks: "zk_sound Z nodes \<Longrightarrow> published (nodes (fst (zkCreate Z z p NoData))) b w \<subseteq> published (nodes z) b w"
  using zk_soundD(3) [of Z nodes z p NoData] published_join by (metis order_refl)

text \<open>A release event is no node of a worker.\<close>

lemma Released_keeps:
  assumes Z: "zk_sound Z nodes" and t: "table_ok zb" and r: "Released Z tasks (zb, z) = ((zb', z'), r)"
  shows "zb' = zb" "CHR ''/'' \<notin> set w \<Longrightarrow> published (nodes z') (zb_workerBasePath zb) w = published (nodes z) (zb_workerBasePath zb) w"
proof -
  let ?z = "fst (zkCreateSeq Z z (path_of (zb_eventBasePath zb) ''released-'') (TaskDoc tasks))"
  show "zb' = zb" using r by (auto simp: Released_def split: if_splits prod.splits option.splits)
  have z': "z' = z \<or> z' = ?z" using r by (auto simp: Released_def split: if_splits prod.splits option.splits)
  assume w: "CHR ''/'' \<notin> set w"
  have "path_of (zb_workerBasePath zb) w \<noteq> path_of (zb_eventBasePath zb) m" if "CHR ''/'' \<notin> set m" for m
    using path_of_base w that t unfolding table_ok_def by metis
  then have "nodes ?z (path_of (zb_workerBasePath zb) w) = nodes z (path_of (zb_workerBasePath zb) w)"
    using zk_soundD(4) [OF Z, of "''released-''" z "zb_eventBasePath zb" "TaskDoc tasks"] by auto
  then show "published (nodes z') (zb_workerBasePath zb) w = published (nodes z) (zb_workerBasePath zb) w"
    using z' by (auto simp: published_def)
qed


subsection \<open>Each step keeps the invariant\<close>

lemma view_idle: "\<not> locking p \<Longrightarrow> g \<noteq> MasterG \<Longrightarrow> fits g p \<Longrightarrow> view_ok zb nds p"
  by (cases p; cases g) auto

lemma view_master: "\<not> locking p \<Longrightarrow> (\<And>w q. \<not> unloaded p w q) \<Longrightarrow> view_ok zb nds p"
  by (cases p) auto

text \<open>Nobody holds the mutex and the master has loaded the nodes.\<close>

definition quiet :: "'z sys \<Rightarrow> bool" where
  "quiet s \<longleftrightarrow> sy_mutex s = None \<and> (\<forall>w q. \<not> unloaded (sy_pc s MasterG) w q)"

lemma sys_inv_quiet:
  assumes "quiet s"
  shows "sys_inv nodes s \<longleftrightarrow> control_ok (sy_pc s) None \<and> table_ok (sy_zb s)
    \<and> nodes_ok (sy_zb s) (nodes (sy_z s)) {} (\<lambda>_ _. False)"
proof -
  have u: "unloaded (sy_pc s MasterG) = (\<lambda>_ _. False)" using assms by (simp add: quiet_def fun_eq_iff)
  have "view_ok (sy_zb s) (nodes (sy_z s)) (sy_pc s g)" if "control_ok (sy_pc s) None" for g
  proof (cases "g = MasterG")
    case True
    then show ?thesis using that u by (intro view_master) (auto simp: control_ok_def)
  next
    case False
    then show ?thesis using that by (intro view_idle [of _ g]) (auto simp: control_ok_def)
  qed
  then show ?thesis using assms pending_free [of "sy_pc s"] by (auto simp: sys_inv_def quiet_def u)
qed

lemma control_goto:
  assumes "control_ok pcs m" "fits g p" "locking p = locking (pcs g)"
    "g \<noteq> MasterG \<Longrightarrow> g \<noteq> RegisterG \<Longrightarrow> pcs MasterG = Done" "g = MasterG \<Longrightarrow> pcs MasterG \<noteq> Done"
  shows "control_ok (pcs(g := p)) m"
  using assms by (cases g) (auto simp: control_ok_def)

lemma pending_goto:
  assumes "\<not> locking (pcs g)" "\<not> locking p"
  shows "pending (pcs(g := p)) = pending pcs"
proof -
  have "pend ((pcs(g := p)) h) = pend (pcs h)" for h using assms by (simp add: pend_locking)
  then show ?thesis by (simp add: pending_def)
qed

text \<open>A step of a handler that touches neither the table nor the store.\<close>

lemma sys_inv_goto:
  assumes i: "sys_inv nodes s" and l: "\<not> locking (sy_pc s g)" "\<not> locking p" and f: "fits g p"
    and g: "g \<noteq> MasterG" "g \<noteq> RegisterG \<Longrightarrow> sy_pc s MasterG = Done"
  shows "sys_inv nodes (goto g p s)"
proof -
  have c: "control_ok ((sy_pc s)(g := p)) (sy_mutex s)"
    using i l f g by (intro control_goto) (auto simp: sys_inv_def)
  have "pending ((sy_pc s)(g := p)) = pending (sy_pc s)"
    using l by (rule pending_goto)
  moreover have "view_ok (sy_zb s) (nodes (sy_z s)) p" using l f g by (intro view_idle)
  ultimately show ?thesis using i c g by (auto simp: sys_inv_def)
qed

text \<open>A step of the starting master that touches neither.\<close>

lemma sys_inv_master:
  assumes i: "sys_inv nodes s" and l: "\<not> locking (sy_pc s MasterG)" "\<not> locking p" and f: "starter p"
    and m: "sy_pc s MasterG \<noteq> Done"
    and u: "\<And>w q. CHR ''/'' \<notin> set w \<Longrightarrow> q \<in> published (nodes (sy_z s)) (zb_workerBasePath (sy_zb s)) w \<Longrightarrow>
      unloaded (sy_pc s MasterG) w q \<Longrightarrow> unloaded p w q"
    and v: "view_ok (sy_zb s) (nodes (sy_z s)) p"
  shows "sys_inv nodes (goto MasterG p s)"
proof -
  have c: "control_ok ((sy_pc s)(MasterG := p)) (sy_mutex s)"
    using i l f m by (intro control_goto) (auto simp: sys_inv_def)
  have "pending ((sy_pc s)(MasterG := p)) = pending (sy_pc s)"
    using l by (rule pending_goto)
  moreover have "nodes_ok (sy_zb s) (nodes (sy_z s)) (pending (sy_pc s)) (unloaded p)"
    using i u unfolding sys_inv_def nodes_ok_def by blast
  ultimately show ?thesis using i c v by (auto simp: sys_inv_def)
qed

text \<open>A step through a mutex section that does not publish.\<close>

lemma sys_inv_section:
  assumes i: "sys_inv nodes s" and q: "quiet s" and k: "keeps W (sy_zb s) zb'"
    and W: "\<And>w. CHR ''/'' \<notin> set w \<Longrightarrow> published (nodes (sy_z s)) (zb_workerBasePath (sy_zb s)) w \<noteq> {} \<Longrightarrow> w \<in> W"
    and f: "fits g p" "\<not> locking p" "g = MasterG \<Longrightarrow> sy_pc s MasterG \<noteq> Done"
    and g: "g \<noteq> MasterG \<Longrightarrow> g \<noteq> RegisterG \<Longrightarrow> sy_pc s MasterG = Done"
    and u: "\<And>w q. g = MasterG \<Longrightarrow> \<not> unloaded p w q"
  shows "sys_inv nodes (goto g p (s\<lparr>sy_zb := zb'\<rparr>))"
proof -
  note s = sys_inv_quiet [OF q, of nodes, THEN iffD1, OF i]
  have "control_ok ((sy_pc s)(g := p)) None"
  proof (rule control_goto)
    show "locking p = locking (sy_pc s g)" using s f(2) by (simp add: control_ok_def)
  qed (use s f g in simp_all)
  moreover have "quiet (goto g p (s\<lparr>sy_zb := zb'\<rparr>))" using q u by (cases "g = MasterG") (simp_all add: quiet_def)
  moreover have "nodes_ok zb' (nodes (sy_z s)) {} (\<lambda>_ _. False)"
    by (rule nodes_ok_keeps [OF k s [THEN conjunct2, THEN conjunct2] W])
  ultimately show ?thesis using s table_keeps [OF k] by (simp add: sys_inv_quiet)
qed


text \<open>While a balance publishes, the master has loaded the nodes and only the holder of the mutex has a view to keep.\<close>

lemma control_active:
  "control_ok pcs m \<Longrightarrow> pcs g \<noteq> Idle \<Longrightarrow> g \<noteq> MasterG \<Longrightarrow> g \<noteq> RegisterG \<Longrightarrow> pcs MasterG = Done"
  by (cases g) (auto simp: control_ok_def)

lemma control_locked:
  assumes "control_ok pcs (Some g)"
  shows "locking (pcs g)" "pcs MasterG = Done \<longleftrightarrow> g \<noteq> MasterG" "g \<noteq> RegisterG"
proof -
  show l: "locking (pcs g)" using assms by (simp add: control_ok_def)
  have f: "fits g (pcs g)" using assms by (simp add: control_ok_def)
  show r: "g \<noteq> RegisterG" using l f by (cases g) auto
  have "pcs g \<noteq> Idle" using l by auto
  then show "pcs MasterG = Done \<longleftrightarrow> g \<noteq> MasterG" using control_active [OF assms] r l by (cases "g = MasterG") auto
qed

lemma locked_loaded:
  assumes "control_ok pcs (Some g)"
  shows "\<not> unloaded (pcs MasterG) w q"
proof (cases "g = MasterG")
  case True
  then show ?thesis using assms by (intro unloaded_starter) (simp add: control_ok_def)
next
  case False
  then show ?thesis using control_locked(2) [OF assms] by simp
qed

lemma sys_inv_locked:
  assumes "sy_mutex s = Some g"
  shows "sys_inv nodes s \<longleftrightarrow> control_ok (sy_pc s) (Some g) \<and> table_ok (sy_zb s)
    \<and> nodes_ok (sy_zb s) (nodes (sy_z s)) (pend (sy_pc s g)) (\<lambda>_ _. False) \<and> view_ok (sy_zb s) (nodes (sy_z s)) (sy_pc s g)"
proof (cases "control_ok (sy_pc s) (Some g)")
  case True
  have u: "unloaded (sy_pc s MasterG) = (\<lambda>_ _. False)" using locked_loaded [OF True] by (simp add: fun_eq_iff)
  have v: "view_ok (sy_zb s) (nodes (sy_z s)) (sy_pc s h)" if "h \<noteq> g" for h
  proof (cases "h = MasterG")
    case m: True
    then show ?thesis using that True u by (intro view_master) (auto simp: control_ok_def)
  next
    case False
    then show ?thesis using that True by (intro view_idle [of _ h]) (auto simp: control_ok_def)
  qed
  then have "(\<forall>h. view_ok (sy_zb s) (nodes (sy_z s)) (sy_pc s h)) \<longleftrightarrow> view_ok (sy_zb s) (nodes (sy_z s)) (sy_pc s g)"
    by metis
  then show ?thesis using True assms pending_locked [OF True] u by (simp add: sys_inv_def)
qed (use assms in \<open>simp add: sys_inv_def\<close>)

lemma control_lock:
  assumes "control_ok pcs None" "fits g p" "locking p"
    "g \<noteq> MasterG \<Longrightarrow> g \<noteq> RegisterG \<Longrightarrow> pcs MasterG = Done" "g = MasterG \<Longrightarrow> pcs MasterG \<noteq> Done"
  shows "control_ok (pcs(g := p)) (Some g)"
proof -
  have "p \<noteq> Done" using assms(3) by auto
  then show ?thesis using assms by (cases g) (simp_all add: control_ok_def)
qed

lemma control_unlock:
  assumes "control_ok pcs (Some g)" "fits g p" "\<not> locking p"
  shows "control_ok (pcs(g := p)) None"
  using assms control_locked [OF assms(1)] by (cases g) (simp_all add: control_ok_def)

lemma control_relock:
  assumes "control_ok pcs (Some g)" "fits g p" "locking p"
  shows "control_ok (pcs(g := p)) (Some g)"
  using assms control_locked [OF assms(1)] by (intro control_goto) simp_all

lemma sys_inv_place:
  assumes i: "sys_inv nodes s" and q: "quiet s" and f: "fits g (Publish ws k)"
    and g: "g \<noteq> MasterG \<Longrightarrow> g \<noteq> RegisterG \<Longrightarrow> sy_pc s MasterG = Done" "g = MasterG \<Longrightarrow> sy_pc s MasterG \<noteq> Done"
    and ws: "\<And>w. CHR ''/'' \<notin> set w \<Longrightarrow> published (nodes (sy_z s)) (zb_workerBasePath (sy_zb s)) w \<noteq> {} \<Longrightarrow> w \<in> set ws"
  shows "sys_inv nodes (goto g (Publish ws k) (s\<lparr>sy_mutex := Some g, sy_zb := place_tasks now wo ws rs (sy_zb s)\<rparr>))"
proof -
  note s = sys_inv_quiet [OF q, of nodes, THEN iffD1, OF i]
  have "control_ok ((sy_pc s)(g := Publish ws k)) (Some g)" using s f g by (intro control_lock) simp_all
  moreover have "nodes_ok (place_tasks now wo ws rs (sy_zb s)) (nodes (sy_z s)) (set ws) (\<lambda>_ _. False)"
    by (rule nodes_ok_place [OF s [THEN conjunct2, THEN conjunct2] ws])
  ultimately show ?thesis using s table_ok_place by (simp add: sys_inv_locked)
qed

lemma nodes_ok_pend: "nodes_ok zb nds P U \<Longrightarrow> P \<subseteq> P' \<Longrightarrow> nodes_ok zb nds P' U"
  unfolding nodes_ok_def by blast

lemma nodes_ok_zkSet:
  assumes "zk_sound Z nodes" "nodes_ok zb (nodes z) P U" "\<And>t. t \<in> set ts \<Longrightarrow> holds zb w (tk_Path t)" "\<And>w' p. \<not> U w' p"
  shows "nodes_ok zb (nodes (fst (zkSet Z z (path_of (zb_workerBasePath zb) w) (node_doc ts)))) P U"
    and "snd (zkSet Z z (path_of (zb_workerBasePath zb) w) (node_doc ts)) \<in> {None, Some ErrNoNode} \<Longrightarrow>
      nodes_ok zb (nodes (fst (zkSet Z z (path_of (zb_workerBasePath zb) w) (node_doc ts)))) (P - {w}) U"
proof -
  note wr = nodes_ok_write [OF assms(2-4)]
  have "nodes_ok zb ((nodes z)(path_of (zb_workerBasePath zb) w \<mapsto> node_doc ts)) P U"
    using wr by (rule nodes_ok_pend) auto
  then show "nodes_ok zb (nodes (fst (zkSet Z z (path_of (zb_workerBasePath zb) w) (node_doc ts)))) P U"
    using zk_sound_set(1) [OF assms(1), of z "path_of (zb_workerBasePath zb) w" "node_doc ts"] assms(2) by metis
  have "nodes_ok zb (nodes z) (P - {w}) U" if "nodes z (path_of (zb_workerBasePath zb) w) = None"
  proof -
    have "published (nodes z) (zb_workerBasePath zb) w = {}" using that by (simp add: published_def)
    then show ?thesis using assms(2) unfolding nodes_ok_def by blast
  qed
  then show "snd (zkSet Z z (path_of (zb_workerBasePath zb) w) (node_doc ts)) \<in> {None, Some ErrNoNode} \<Longrightarrow>
      nodes_ok zb (nodes (fst (zkSet Z z (path_of (zb_workerBasePath zb) w) (node_doc ts)))) (P - {w}) U"
    using zk_sound_set(2) [OF assms(1), of z "path_of (zb_workerBasePath zb) w" "node_doc ts"] wr by metis
qed

lemma advance_Publish_inv:
  assumes i: "sys_inv nodes s" and p: "sy_pc s g = Publish ws k" and a: "advance Z c g (Publish ws k) s = Some s'"
  shows "sys_inv nodes s'"
proof -
  have m: "sy_mutex s = Some g" using i p by (simp add: sys_inv_def control_ok_def) (metis locking.simps(1))
  note s = sys_inv_locked [OF m, of nodes, THEN iffD1, OF i]
  have f: "fits g (Publish ws k)" using s p by (simp add: control_ok_def) metis
  have post: "keeps W zb (zb\<lparr>zb_postponed := b\<rparr>)" if "unaliased zb" for W zb b
    using that by (simp add: table_ok_same conf_def)
  show ?thesis
  proof (cases ws)
    case Nil
    have k: "fits g k" "\<not> locking k" using f control_locked(3) s by (cases g; auto)+
    have c: "control_ok ((sy_pc s)(g := k)) None" using s k by (intro control_unlock) simp_all
    have "\<not> unloaded (((sy_pc s)(g := k)) MasterG) w q" for w q
      using locked_loaded [of "sy_pc s" g] s f by (cases "g = MasterG") auto
    then have "quiet s'" using a Nil by (auto simp: quiet_def)
    moreover have "nodes_ok ((sy_zb s)\<lparr>zb_postponed := False\<rparr>) (nodes (sy_z s)) {} (\<lambda>_ _. False)"
      using s p Nil by (intro nodes_ok_keeps [OF post [of _ UNIV]]) (simp_all add: table_ok_def)
    moreover have "table_ok ((sy_zb s)\<lparr>zb_postponed := False\<rparr>)"
      using s table_keeps [OF post] by (simp add: table_ok_def)
    ultimately show ?thesis using a Nil c by (auto simp: sys_inv_quiet)
  next
    case (Cons w ws')
    let ?p = "Put w (tasks_of (sy_zb s) (ch_inner c w) w) ws' k"
    have "fits g ?p" using f by (cases g) auto
    then have "control_ok ((sy_pc s)(g := ?p)) (Some g)" using s by (intro control_relock) auto
    moreover have "view_ok (sy_zb s) (nodes (sy_z s)) ?p"
      using s by (auto simp: table_ok_def intro: tasks_of_holds)
    ultimately show ?thesis using s a p Cons m by (auto simp: sys_inv_locked)
  qed
qed


lemma advance_Put_inv:
  assumes Z: "zk_sound Z nodes" and i: "sys_inv nodes s" and p: "sy_pc s g = Put w ts ws k"
    and c: "current Z nodes (Put w ts ws k) s" and a: "advance Z c g (Put w ts ws k) s = Some s'"
  shows "sys_inv nodes s'"
proof -
  have m: "sy_mutex s = Some g" using i p by (simp add: sys_inv_def control_ok_def) (metis locking.simps(2))
  note s = sys_inv_locked [OF m, of nodes, THEN iffD1, OF i]
  have "fits g (Put w ts ws k)" using s p by (simp add: control_ok_def) metis
  then have "fits g (Publish ws k)" by (cases g) auto
  then have "control_ok ((sy_pc s)(g := Publish ws k)) (Some g)" using s by (intro control_relock) auto
  moreover have "nodes_ok (sy_zb s) (nodes (sy_z s')) (insert w (set ws) - {w}) (\<lambda>_ _. False)"
  proof -
    have "nodes_ok (sy_zb s) (nodes (sy_z s)) (insert w (set ws)) (\<lambda>_ _. False)" using s p by simp
    then have "nodes_ok (sy_zb s) (nodes (fst (zkSet Z (sy_z s) (path_of (zb_workerBasePath (sy_zb s)) w) (node_doc ts))))
      (insert w (set ws) - {w}) (\<lambda>_ _. False)"
      by (rule nodes_ok_zkSet(2) [OF Z]) (use s p c in \<open>auto simp: current_def worker_node_def\<close>)
    then show ?thesis using a by (auto simp: worker_node_def)
  qed
  then have "nodes_ok (sy_zb s) (nodes (sy_z s')) (set ws) (\<lambda>_ _. False)" by (rule nodes_ok_pend) auto
  ultimately show ?thesis using s a m by (auto simp: sys_inv_locked)
qed

text \<open>Publishing outside the mutex, tasks the worker still holds.\<close>

lemma advance_Reput_inv:
  assumes Z: "zk_sound Z nodes" and i: "sys_inv nodes s" and p: "sy_pc s g = Reput w d ts seen k"
    and c: "current Z nodes (Reput w d ts seen k) s" and a: "advance Z c g (Reput w d ts seen k) s = Some s'"
  shows "sys_inv nodes s'"
proof -
  have f: "fits g (Reput w d ts seen k)" and co: "control_ok (sy_pc s) (sy_mutex s)"
    using i p by (simp_all add: sys_inv_def control_ok_def) metis
  then have g: "g \<noteq> MasterG" "g \<noteq> RegisterG" "fits g (Republish ts seen k)" by (cases g; auto)+
  have M: "sy_pc s MasterG = Done" using control_active [OF co, of g] p g by simp
  let ?z = "fst (zkSet Z (sy_z s) (path_of (zb_workerBasePath (sy_zb s)) w) (node_doc d))"
  have n: "nodes_ok (sy_zb s) (nodes ?z) (pending (sy_pc s)) (unloaded (sy_pc s MasterG))"
    by (rule nodes_ok_zkSet(1) [OF Z]) (use i c M in \<open>auto simp: sys_inv_def current_def\<close>)
  have "view_ok (sy_zb s) (nodes ?z) (sy_pc s h)" for h
  proof (cases "locking (sy_pc s h)")
    case True
    then show ?thesis using i unfolding sys_inv_def by (cases "sy_pc s h") (auto dest: spec [of _ h])
  next
    case False
    then show ?thesis
      using co M by (cases "h = MasterG") (auto simp: control_ok_def intro: view_idle [of _ h])
  qed
  then have "sys_inv nodes (s\<lparr>sy_z := ?z\<rparr>)" using i n by (simp add: sys_inv_def)
  then have "sys_inv nodes (goto g (Republish ts seen k) (s\<lparr>sy_z := ?z\<rparr>))"
    by (rule sys_inv_goto) (use p g M in simp_all)
  then show ?thesis using a by (auto simp: worker_node_def)
qed

text \<open>The goroutine that registers the worker, when the node still publishes what was read.\<close>

lemma advance_Apply_inv:
  assumes i: "sys_inv nodes s" and p: "sy_pc s g = Apply wts"
    and c: "current Z nodes (Apply wts) s" and a: "advance Z c g (Apply wts) s = Some s'"
  shows "sys_inv nodes s'"
proof -
  have f: "fits g (Apply wts)" and co: "control_ok (sy_pc s) (sy_mutex s)" and t: "table_ok (sy_zb s)"
    and n: "nodes_ok (sy_zb s) (nodes (sy_z s)) (pending (sy_pc s)) (unloaded (sy_pc s MasterG))"
    and v: "\<And>h. view_ok (sy_zb s) (nodes (sy_z s)) (sy_pc s h)"
    using i p by (simp_all add: sys_inv_def control_ok_def) metis
  have g: "g = RegisterG" using f by (cases g) auto
  let ?w = "zb_workerPath (sy_zb s)" and ?zb = "apply_loaded (op_now c) (zb_workerPath (sy_zb s)) wts (sy_zb s)"
    and ?b = "zb_workerBasePath (sy_zb s)"
  have w: "CHR ''/'' \<notin> set ?w" using t by (simp add: table_ok_def)
  have sub: "tk_Path ` set wts \<subseteq> published (nodes (sy_z s)) ?b ?w" using c by (simp add: current_def)
  have own: "holds (sy_zb s) ?w q \<or> (?w \<in> pending (sy_pc s) \<and> releasing (sy_zb s) q)
      \<or> (unloaded (sy_pc s MasterG) ?w q \<and> q \<in> dom (zb_tasks (sy_zb s)))" if "q \<in> tk_Path ` set wts" for q
    using n w sub that unfolding nodes_ok_def by blast
  have dom: "tk_Path ` set wts \<subseteq> dom (zb_tasks (sy_zb s))"
    using own by (fastforce simp: holds_def releasing_def task_at_def)
  note A = apply_loaded_table [OF t dom, where now = "op_now c" and w = ?w]
  have "nodes_ok ?zb (nodes (sy_z s)) (pending (sy_pc s)) (unloaded (sy_pc s MasterG))"
    using n by (intro nodes_ok_apply [OF t dom n]) (use n w sub exclusive_sub in \<open>auto simp: nodes_ok_def\<close>)
  moreover have "view_ok ?zb (nodes (sy_z s)) (sy_pc s h)" for h
  proof (cases "sy_pc s h")
    case (Put w0 ts ws k)
    then have m: "sy_mutex s = Some h" using co by (simp add: control_ok_def) (metis locking.simps(2))
    have "holds ?zb w0 (tk_Path u)" if u: "u \<in> set ts" for u
    proof (cases "tk_Path u \<in> tk_Path ` set wts")
      case True
      have h0: "holds (sy_zb s) w0 (tk_Path u)" using v [of h] Put u by simp
      moreover have "\<not> unloaded (sy_pc s MasterG) ?w (tk_Path u)" using locked_loaded co m by simp
      ultimately have "holds (sy_zb s) ?w (tk_Path u)"
        using own [OF True] by (auto simp: holds_def releasing_def)
      then have "w0 = ?w" using h0 by (auto simp: holds_def)
      then show ?thesis using A(4) [OF True] by simp
    next
      case False
      then show ?thesis using task_at_holds [OF A(5) [OF False]] v [of h] Put u by simp
    qed
    then show ?thesis using Put by simp
  next
    case (Load ws rest)
    then show ?thesis using v [of h] by simp
  next
    case (Loaded w0 ts ws rest)
    then show ?thesis using v [of h] A(2,3) by simp
  qed simp_all
  ultimately have "sys_inv nodes (s\<lparr>sy_zb := ?zb\<rparr>)" using co A(1) by (simp add: sys_inv_def)
  then have "sys_inv nodes (goto g Idle (s\<lparr>sy_zb := ?zb\<rparr>))" by (rule sys_inv_goto) (use p g in simp_all)
  then show ?thesis using a by simp
qed


text \<open>The steps of the starting master.\<close>

lemma starting_master:
  assumes "control_ok pcs m" "starter (pcs g)" "\<not> handler (pcs g)" "pcs g \<noteq> Done" "\<not> locking (pcs g)"
  shows "g = MasterG" "m = None"
proof -
  have "fits g (pcs g)" using assms(1) by (simp add: control_ok_def)
  then show g: "g = MasterG" using assms by (cases g; cases "pcs g") auto
  show "m = None"
  proof (rule ccontr)
    assume "m \<noteq> None"
    then obtain h where h: "m = Some h" by blast
    then have "h \<noteq> MasterG" using assms(1,5) g control_locked(1) by auto
    then show False using assms(1,4) g h control_locked(2) by auto
  qed
qed

lemma advance_Load_inv:
  assumes Z: "zk_sound Z nodes" and i: "sys_inv nodes s" and p: "sy_pc s g = Load ws rest"
    and a: "advance Z c g (Load ws rest) s = Some s'"
  shows "sys_inv nodes s'"
proof -
  have co: "control_ok (sy_pc s) (sy_mutex s)" using i by (simp add: sys_inv_def)
  have g: "g = MasterG" using starting_master(1) [OF co, of g] p by simp
  let ?b = "zb_workerBasePath (sy_zb s)"
  have n: "\<And>w q. CHR ''/'' \<notin> set w \<Longrightarrow> q \<in> published (nodes (sy_z s)) ?b w \<Longrightarrow>
      holds (sy_zb s) w q \<or> (w \<in> pending (sy_pc s) \<and> releasing (sy_zb s) q)
      \<or> (unloaded (sy_pc s MasterG) w q \<and> q \<in> dom (zb_tasks (sy_zb s)))"
    and ex: "exclusive (nodes (sy_z s)) ?b" and v: "\<forall>w \<in> set rest. CHR ''/'' \<notin> set w"
    using i p by (simp_all add: sys_inv_def nodes_ok_def) (metis view_ok.simps(2))
  note M = sys_inv_master [OF i, unfolded p [unfolded g]]
  show ?thesis
  proof (cases rest)
    case Nil
    then show ?thesis using a g by (auto intro!: M)
  next
    case (Cons w rest')
    have w: "CHR ''/'' \<notin> set w" using v Cons by simp
    show ?thesis
    proof (cases "zkGet Z (sy_z s) (worker_node s w)")
      case (Inl e)
      show ?thesis
      proof (cases "e = ErrNoNode")
        case True
        then have "published (nodes (sy_z s)) ?b w = {}"
          using published_missing [OF Z] Inl by (simp add: worker_node_def)
        then show ?thesis using a g Inl Cons True v by (auto intro!: M)
      next
        case False
        then show ?thesis using a g Inl Cons v by (auto intro!: M)
      qed
    next
      case (Inr d)
      show ?thesis
      proof (cases "decodeData d")
        case (Inl e)
        then show ?thesis using a g Inr Cons by (auto intro!: M)
      next
        case ts: (Inr ts)
        have pub: "published (nodes (sy_z s)) ?b w = tk_Path ` set ts"
          using published_get [OF Z _ ts] Inr by (simp add: worker_node_def)
        then have dom: "tk_Path ` set ts \<subseteq> dom (zb_tasks (sy_zb s))"
          using n [of w] w by (fastforce simp: holds_def releasing_def task_at_def)
        have "sys_inv nodes (goto MasterG (Loaded w ts ws rest') s)"
          by (rule M) (use Cons pub v dom exclusive_sub [OF ex, of w] w in auto)
        then show ?thesis using a g Inr ts Cons by simp
      qed
    qed
  qed
qed


lemma advance_Loaded_inv:
  assumes i: "sys_inv nodes s" and p: "sy_pc s g = Loaded w ts ws rest"
    and a: "advance Z c g (Loaded w ts ws rest) s = Some s'"
  shows "sys_inv nodes s'"
proof -
  have co: "control_ok (sy_pc s) (sy_mutex s)" using i by (simp add: sys_inv_def)
  have g: "g = MasterG" "sy_mutex s = None" using starting_master [OF co, of g] p by simp_all
  have n: "nodes_ok (sy_zb s) (nodes (sy_z s)) (pending (sy_pc s)) (unloaded (Loaded w ts ws rest))"
    and t: "table_ok (sy_zb s)" and v: "view_ok (sy_zb s) (nodes (sy_z s)) (Loaded w ts ws rest)"
    using i p [unfolded g] p [symmetric] by (auto simp: sys_inv_def)
  let ?zb = "apply_loaded (op_now c) w ts (sy_zb s)"
  have c': "control_ok ((sy_pc s)(MasterG := Load ws rest)) None"
    using co g p by (intro control_goto) simp_all
  have dom: "tk_Path ` set ts \<subseteq> dom (zb_tasks (sy_zb s))" using v by simp
  have "nodes_ok ?zb (nodes (sy_z s)) {} (unloaded (Load ws rest))"
  proof (rule nodes_ok_apply [OF t dom])
    show "nodes_ok (sy_zb s) (nodes (sy_z s)) {} (unloaded (Loaded w ts ws rest))"
      using n pending_free co g by simp
  qed (use v in auto)
  moreover have "view_ok ?zb (nodes (sy_z s)) (((sy_pc s)(MasterG := Load ws rest)) h)" for h
  proof (cases "h = MasterG")
    case False
    have "view_ok ?zb (nodes (sy_z s)) (sy_pc s h)"
      by (rule view_idle [of _ h]) (use co g(2) False in \<open>simp_all add: control_ok_def\<close>)
    then show ?thesis using False by simp
  qed (use v in simp)
  ultimately show ?thesis
    using a g c' pending_free [OF c'] apply_loaded_table(1) [OF t dom] by (auto simp: sys_inv_def)
qed

lemma deprecate_one:
  assumes "deprecate_loop Z oi zb [k] seen err z = (z', e)"
  shows "z' = z \<or> (\<exists>w. z' = fst (zkSet Z z (path_of (zb_workerBasePath zb) w) (node_doc (tasks_of zb (oi w) w))))"
proof -
  have "z' = z \<or> (\<exists>w. z' = fst (assignedTasks Z oi zb w z))"
    using assms by (auto simp: Let_def split: option.splits prod.splits if_splits) (metis fst_conv)+
  then show ?thesis by (simp add: assignedTasks_fst)
qed

lemma advance_Deprecate_inv:
  assumes Z: "zk_sound Z nodes" and i: "sys_inv nodes s" and p: "sy_pc s g = Deprecate ks seen err ws"
    and a: "advance Z c g (Deprecate ks seen err ws) s = Some s'"
  shows "sys_inv nodes s'"
proof -
  have co: "control_ok (sy_pc s) (sy_mutex s)" using i by (simp add: sys_inv_def)
  have g: "g = MasterG" "sy_mutex s = None" using starting_master [OF co, of g] p by simp_all
  have q: "quiet s" using p g by (simp add: quiet_def)
  note s = sys_inv_quiet [OF q, of nodes, THEN iffD1, OF i]
  show ?thesis
  proof (cases ks)
    case Nil
    have "sys_inv nodes (goto MasterG (if err = Inr () then Orphan ws (Balance ws Done Done) else Failed) s)"
      by (rule sys_inv_master [OF i]) (use p g in auto)
    then show ?thesis using a g Nil by simp
  next
    case (Cons k ks')
    obtain z' e where d: "deprecate_loop Z (ch_inner c) (sy_zb s) [k] seen err (sy_z s) = (z', e)" by fastforce
    then obtain seen' where s': "s' = goto MasterG (Deprecate ks' seen' e ws) (s\<lparr>sy_z := z'\<rparr>)"
      using a g Cons by (auto simp: Let_def)
    have "nodes_ok (sy_zb s) (nodes z') {} (\<lambda>_ _. False)"
      using deprecate_one [OF d] s
      by (auto simp: table_ok_def intro!: nodes_ok_zkSet(1) [OF Z] intro: tasks_of_holds)
    moreover have "control_ok ((sy_pc s)(MasterG := Deprecate ks' seen' e ws)) None"
      using s p g by (intro control_goto) simp_all
    moreover have "quiet s'" using g s' by (simp add: quiet_def)
    ultimately show ?thesis using s s' by (simp add: sys_inv_quiet)
  qed
qed

text \<open>The mutex sections.\<close>

lemma postponed_keeps: "unaliased zb \<Longrightarrow> keeps W zb (zb\<lparr>zb_postponed := b\<rparr>)"
  by (simp add: table_ok_same conf_def)

lemma active_quiet:
  assumes "control_ok (sy_pc s) None" "sy_mutex s = None" "\<not> unloaded (sy_pc s g) w q" "sy_pc s g \<noteq> Idle" "g \<noteq> RegisterG"
    "\<And>w q. \<not> unloaded (sy_pc s g) w q"
  shows "quiet s"
  using assms control_active [OF assms(1), of g] by (cases "g = MasterG") (auto simp: quiet_def)

lemma advance_Orphan_inv:
  assumes i: "sys_inv nodes s" and p: "sy_pc s g = Orphan ws k"
    and c: "current Z nodes (Orphan ws k) s" and a: "advance Z c g (Orphan ws k) s = Some s'"
  shows "sys_inv nodes s'"
proof -
  have m: "sy_mutex s = None" using a by (auto split: if_splits)
  have co: "control_ok (sy_pc s) None" and u: "unaliased (sy_zb s)" using i m by (auto simp: sys_inv_def table_ok_def)
  have f: "fits g (Orphan ws k)" using co p by (simp add: control_ok_def) metis
  then have g: "g \<noteq> RegisterG" by auto
  have q: "quiet s" by (rule active_quiet [OF co m]) (use p g in auto)
  have M: "g \<noteq> MasterG \<Longrightarrow> sy_pc s MasterG = Done" using control_active [OF co, of g] p g by simp
  have "sys_inv nodes (goto g k (s\<lparr>sy_zb := fst (releaseOrphanTasks (op_keys c) ws (sy_zb s))\<rparr>))"
  proof (rule sys_inv_section [OF i q keeps_releaseOrphan [OF u]])
    show "fits g k" "\<not> locking k" using f g by (cases g; auto)+
    show "\<And>w q. g = MasterG \<Longrightarrow> \<not> unloaded k w q" using f by auto
  qed (use c M p in \<open>auto simp: current_def\<close>)
  then show ?thesis using a m by auto
qed

lemma advance_Balance_inv:
  assumes i: "sys_inv nodes s" and p: "sy_pc s g = Balance ws yes no"
    and c: "current Z nodes (Balance ws yes no) s" and a: "advance Z c g (Balance ws yes no) s = Some s'"
  shows "sys_inv nodes s'"
proof -
  have co: "control_ok (sy_pc s) (sy_mutex s)" and u: "unaliased (sy_zb s)" using i by (auto simp: sys_inv_def table_ok_def)
  have f: "fits g (Balance ws yes no)" using co p by (simp add: control_ok_def) metis
  then have g: "g \<noteq> RegisterG" by auto
  have k: "fits g yes" "fits g no" "\<not> locking yes" "\<not> locking no" "fits g (Publish ws yes)"
    using f g by (cases g; auto)+
  have ul: "g = MasterG \<Longrightarrow> \<not> unloaded yes w q \<and> \<not> unloaded no w q" for w q using f by auto
  have M: "g \<noteq> MasterG \<Longrightarrow> sy_pc s MasterG = Done" using control_active [OF co, of g] p g by simp
  show ?thesis
  proof (cases "ws = []")
    case True
    show ?thesis
    proof (cases "g = MasterG")
      case m: True
      have "sys_inv nodes (goto MasterG no s)" by (rule sys_inv_master [OF i]) (use p k m f in auto)
      then show ?thesis using a True m by simp
    next
      case False
      have "sys_inv nodes (goto g no s)" by (rule sys_inv_goto [OF i]) (use p k False M in auto)
      then show ?thesis using a True by simp
    qed
  next
    case False
    then have m: "sy_mutex s = None" using a by (auto split: if_splits)
    have q: "quiet s" by (rule active_quiet) (use co m p g in auto)
    have live: "\<And>w. CHR ''/'' \<notin> set w \<Longrightarrow> published (nodes (sy_z s)) (zb_workerBasePath (sy_zb s)) w \<noteq> {} \<Longrightarrow> w \<in> set ws"
      using c by (simp add: current_def)
    have sec: "sys_inv nodes (goto g x (s\<lparr>sy_zb := (sy_zb s)\<lparr>zb_postponed := b\<rparr>\<rparr>))" if "x = yes \<or> x = no" for x b
      by (rule sys_inv_section [OF i q postponed_keeps [OF u, of UNIV]]) (use that k ul M p in auto)
    have "sys_inv nodes (goto g (Publish ws yes) (s\<lparr>sy_mutex := Some g, sy_zb := place_tasks n wo ws rs (sy_zb s)\<rparr>))" for n wo rs
      by (rule sys_inv_place [OF i q k(5) M _ live]) (use p in auto)
    then show ?thesis using a False m sec by (auto split: option.splits if_splits)
  qed
qed


text \<open>A handler at a point outside the mutex, after the master has started.\<close>

lemma handler_at:
  assumes "sys_inv nodes s" "sy_pc s g = p" "\<not> starter p" "\<And>wts. p \<noteq> Apply wts"
  shows "g \<noteq> MasterG" "g \<noteq> RegisterG" "sy_pc s MasterG = Done" "handler p" "handler q \<Longrightarrow> fits g q"
    "sy_mutex s = None \<Longrightarrow> quiet s"
proof -
  have co: "control_ok (sy_pc s) (sy_mutex s)" using assms(1) by (simp add: sys_inv_def)
  have f: "fits g p" using co assms(2) by (auto simp: control_ok_def)
  show m: "g \<noteq> MasterG" using f assms(3) by auto
  have "p \<noteq> Idle" using assms(3) by auto
  then show r: "g \<noteq> RegisterG" using f assms(4) by (cases g) auto
  show M: "sy_pc s MasterG = Done" using control_active [OF co, of g] m r assms(2) \<open>p \<noteq> Idle\<close> by auto
  show "handler p" "handler q \<Longrightarrow> fits g q" using f m r by (cases g; simp)+
  show "sy_mutex s = None \<Longrightarrow> quiet s" using M by (simp add: quiet_def)
qed

lemma handler_goto:
  assumes "sys_inv nodes s" "sy_pc s g = p" "\<not> starter p" "\<And>wts. p \<noteq> Apply wts" "\<not> locking p" "handler q" "\<not> locking q"
  shows "sys_inv nodes (goto g q s)"
  using handler_at [OF assms(1-4)] assms by (intro sys_inv_goto) auto

lemma handler_section:
  assumes i: "sys_inv nodes s" and p: "sy_pc s g = p" "\<not> starter p" "\<And>wts. p \<noteq> Apply wts"
    and m: "sy_mutex s = None" and k: "keeps UNIV (sy_zb s) zb'" and q: "handler q" "\<not> locking q"
  shows "sys_inv nodes (goto g q (s\<lparr>sy_zb := zb'\<rparr>))"
proof -
  note h = handler_at [OF i p]
  show ?thesis by (rule sys_inv_section [OF i h(6) [OF m] k]) (use h m q in auto)
qed

lemma advance_handler_inv:
  assumes i: "sys_inv nodes s" and p: "sy_pc s g = p" "\<not> starter p" "\<And>wts. p \<noteq> Apply wts" "\<not> locking p"
    and k: "(\<exists>yes no. p = Query yes no) \<or> (\<exists>evs es m. p = Gather evs es m) \<or> (\<exists>evs m. p = Release evs m)
      \<or> (\<exists>ts k. p = OnReleased ts k) \<or> (\<exists>ts seen k. p = Republish ts seen k) \<or> p = Clean [] \<or> (\<exists>k. p = Postpone k)"
    and a: "advance Z c g p s = Some s'"
  shows "sys_inv nodes s'"
proof -
  have u: "unaliased (sy_zb s)" using i by (simp add: sys_inv_def table_ok_def)
  have h: "handler p" using handler_at(4) [OF i p(1-3)] .
  note G = handler_goto [OF i p] and S = handler_section [OF i p(1-3)]
  consider yes no where "p = Query yes no" | evs es m where "p = Gather evs es m" | evs m where "p = Release evs m"
    | ts k where "p = OnReleased ts k" | ts seen k where "p = Republish ts seen k" | "p = Clean []" | k where "p = Postpone k"
    using k by blast
  then show ?thesis
  proof cases
    case 1
    then show ?thesis using a h by (auto split: sum.splits intro!: G)
  next
    case (2 evs es m)
    then show ?thesis using a by (cases es) (auto intro!: G)
  next
    case (3 evs m)
    obtain zb' need where r: "fold (released_body (op_now c) m) (op_keys c) (sy_zb s, []) = (zb', need)" by fastforce
    have "keeps UNIV (sy_zb s) zb'" using keeps_released [OF u, of UNIV "op_now c" m "op_keys c" "[]"] r by simp
    then show ?thesis using a 3 r by (auto split: if_splits intro!: S)
  next
    case 4
    then show ?thesis using a h by (auto split: if_splits intro!: G)
  next
    case (5 ts seen k)
    then show ?thesis using a h by (cases ts) (auto split: if_splits intro!: G)
  next
    case 6
    then show ?thesis using a by (auto intro!: G)
  next
    case 7
    then show ?thesis using a h postponed_keeps [OF u] by (auto split: if_splits intro!: S)
  qed
qed

lemma advance_Clean_inv:
  assumes Z: "zk_sound Z nodes" and i: "sys_inv nodes s" and p: "sy_pc s g = Clean (e # es)"
    and a: "advance Z c g (Clean (e # es)) s = Some s'"
  shows "sys_inv nodes s'"
proof -
  let ?z = "fst (zkDelete Z (sy_z s) (path_of (zb_eventBasePath (sy_zb s)) e))"
  have "sys_inv nodes (s\<lparr>sy_z := ?z\<rparr>)"
    by (rule sys_inv_shrink [OF i]) (rule delete_shrinks [OF Z])
  then have "sys_inv nodes (goto g (Clean es) (s\<lparr>sy_z := ?z\<rparr>))" by (rule handler_goto) (use p in auto)
  then show ?thesis using a by simp
qed

lemma handler_after_scan: "handler (after_scan a) \<and> \<not> locking (after_scan a)"
  by (simp add: after_scan_def Let_def)

lemma wake_inv:
  assumes Z: "zk_sound Z nodes" and i: "sys_inv nodes s" and p: "sy_pc s g = Idle" and a: "wake Z c g s = Some s'"
  shows "sys_inv nodes s'"
proof (cases g)
  case MasterG
  let ?zb = "(sy_zb s)\<lparr>zb_isMaster := True\<rparr>"
  have co: "control_ok (sy_pc s) (sy_mutex s)" and u: "unaliased (sy_zb s)"
    using i by (auto simp: sys_inv_def table_ok_def)
  have tk: "task_at ?zb = task_at (sy_zb s)" by (simp add: fun_eq_iff task_at_def)
  have h: "holds ?zb w q = holds (sy_zb s) w q" "releasing ?zb q = releasing (sy_zb s) q" for w q
    by (simp_all add: holds_def releasing_def tk)
  have "view_ok ?zb nds q = view_ok (sy_zb s) nds q" for nds q by (cases q) (simp_all add: h)
  then have i': "sys_inv nodes (s\<lparr>sy_zb := ?zb\<rparr>)"
    using i by (simp add: sys_inv_def nodes_ok_def h table_ok_def unaliased_def)
  have law: "zkChildren Z (sy_z s) (zb_workerBasePath (sy_zb s)) = Inr ws \<Longrightarrow> w \<in> set ws \<Longrightarrow> CHR ''/'' \<notin> set w" for ws w
    using zk_soundD(6) [OF Z] unfolding zk_children_law_def by blast
  show ?thesis
  proof (cases "zkChildren Z (sy_z s) (zb_workerBasePath (sy_zb s))")
    case (Inl e)
    have "sys_inv nodes (goto MasterG Failed (s\<lparr>sy_zb := ?zb\<rparr>))"
      by (rule sys_inv_master [OF i']) (use p MasterG in auto)
    then show ?thesis using a MasterG Inl by simp
  next
    case (Inr ws)
    have "sys_inv nodes (goto MasterG (Load ws ws) (s\<lparr>sy_zb := ?zb\<rparr>))"
      by (rule sys_inv_master [OF i']) (use p MasterG law [OF Inr] children_publishing [OF Z Inr] in auto)
    then show ?thesis using a MasterG Inr by simp
  qed
next
  case WorkersG
  have "sys_inv nodes (goto WorkersG (Orphan ws (Balance ws Idle Idle)) s)" if "sy_pc s MasterG = Done" for ws
    by (rule sys_inv_goto [OF i]) (use that p WorkersG in auto)
  then show ?thesis using a i WorkersG by (auto split: sum.splits if_splits)
next
  case EventsG
  have "sys_inv nodes (goto EventsG (Gather evs evs Map.empty) s)" if "sy_pc s MasterG = Done" for evs
    by (rule sys_inv_goto [OF i]) (use that p EventsG in auto)
  then show ?thesis using a i EventsG by (auto split: sum.splits if_splits)
next
  case TimerG
  let ?a = "check_scan (op_check c) (op_keys c) (sy_zb s)"
  have u: "unaliased (sy_zb s)" using i by (simp add: sys_inv_def table_ok_def)
  have d: "sy_pc s MasterG = Done" "sy_mutex s = None" using a TimerG by (auto split: if_splits)
  then have q: "quiet s" by (simp add: quiet_def)
  have "sys_inv nodes (goto TimerG (after_scan ?a) (s\<lparr>sy_zb := ca_zb ?a\<rparr>))"
    by (rule sys_inv_section [OF i q keeps_check [OF u, of UNIV]]) (use d handler_after_scan in auto)
  then show ?thesis using a TimerG d by (simp add: Let_def)
next
  case RegisterG
  have "sys_inv nodes (goto RegisterG (Apply wts) s)" for wts
    by (rule sys_inv_goto [OF i]) (use p RegisterG in auto)
  then show ?thesis using a i RegisterG by (auto split: sum.splits)
qed

lemma advance_inv:
  assumes "zk_sound Z nodes" "sys_inv nodes s" "advance Z c g (sy_pc s g) s = Some s'" "current Z nodes (sy_pc s g) s"
  shows "sys_inv nodes s'"
proof (cases "sy_pc s g")
  case (Clean es)
  then show ?thesis
    using assms advance_Clean_inv [OF assms(1,2), of g] advance_handler_inv [OF assms(2), of g "Clean []"] by (cases es) simp_all
next
  case (Load ws rest)
  then show ?thesis using assms advance_Load_inv by metis
next
  case (Loaded w ts ws rest)
  then show ?thesis using assms advance_Loaded_inv by metis
next
  case (Deprecate ks seen err ws)
  then show ?thesis using assms advance_Deprecate_inv by metis
next
  case (Orphan ws k)
  then show ?thesis using assms advance_Orphan_inv by metis
next
  case (Balance ws yes no)
  then show ?thesis using assms advance_Balance_inv by metis
next
  case (Publish ws k)
  then show ?thesis using assms advance_Publish_inv by metis
next
  case (Put w ts ws k)
  then show ?thesis using assms advance_Put_inv by metis
next
  case (Reput w d ts seen k)
  then show ?thesis using assms advance_Reput_inv by metis
next
  case (Apply wts)
  then show ?thesis using assms advance_Apply_inv by metis
next
  case Idle
  then show ?thesis using assms wake_inv by simp
qed (use assms advance_handler_inv [OF assms(2), of g "sy_pc s g" Z c s'] in simp_all)


lemma sys_step_inv:
  assumes "sys_step Z nodes (s, ok) (s', ok')" "zk_sound Z nodes" "ok \<longrightarrow> sys_inv nodes s" "ok'"
  shows "sys_inv nodes s'"
  using assms(1)
proof cases
  case (go c g)
  then show ?thesis using assms advance_inv by blast
next
  case (join w)
  then show ?thesis using assms sys_inv_shrink [of nodes s] join_shrinks [OF assms(2)] by blast
next
  case (leave w)
  then show ?thesis using assms sys_inv_shrink [of nodes s] delete_shrinks [OF assms(2)] by blast
next
  case (release tasks zb' z' r)
  have i: "sys_inv nodes s" using assms(3,4) release by simp
  then have "zb' = sy_zb s" "sys_inv nodes (s\<lparr>sy_z := z'\<rparr>)"
    using Released_keeps [OF assms(2) _ release(3)] sys_inv_shrink [OF i, of z'] by (auto simp: sys_inv_def)
  then show ?thesis using release by simp
next
  case (other z')
  have "sys_inv nodes (s\<lparr>sy_z := z'\<rparr>)"
    by (rule sys_inv_shrink) (use assms(3,4) other in \<open>auto simp: published_def worker_node_def\<close>)
  then show ?thesis using other by simp
qed

lemma sys_start_inv:
  assumes "sys_start Z nodes (s, ok)"
  shows "sys_inv nodes s"
proof -
  have "fits g Idle" for g by (cases g) auto
  then show ?thesis
    using assms
    by (auto simp: sys_start_def sys_inv_def control_ok_def table_ok_def fresh_master_def nodes_ok_def known_tasks_def)
qed

interpretation zk_sys: transition_system "sys_start Z nodes" "sys_step Z nodes"
  "\<lambda>(s, ok). zk_sound Z nodes \<and> (ok \<longrightarrow> sys_inv nodes s)" for Z nodes
proof
  fix x assume "sys_start Z nodes x"
  then show "case x of (s, ok) \<Rightarrow> zk_sound Z nodes \<and> (ok \<longrightarrow> sys_inv nodes s)"
    using sys_start_inv by (cases x) (auto simp: sys_start_def)
next
  fix x y
  assume "case x of (s, ok) \<Rightarrow> zk_sound Z nodes \<and> (ok \<longrightarrow> sys_inv nodes s)" "sys_step Z nodes x y"
  then show "case y of (s, ok) \<Rightarrow> zk_sound Z nodes \<and> (ok \<longrightarrow> sys_inv nodes s)"
    using sys_step_inv [of Z nodes "fst x" "snd x" "fst y" "snd y"] by (auto split: prod.splits)
qed


subsection \<open>A handler that is not interleaved\<close>

text \<open>
  The sequential handlers of \<open>Zk_Balancer\<close> are the runs of this system in which a goroutine is not
  interrupted, and all their steps are current.
\<close>

definition alone :: "'z zk_ops \<Rightarrow> ('z \<Rightarrow> string \<rightharpoonup> zk_data) \<Rightarrow> 'z sys \<Rightarrow> 'z sys \<Rightarrow> bool" where
  "alone Z nodes s s' \<longleftrightarrow> (\<forall>ok. (sys_step Z nodes)\<^sup>*\<^sup>* (s, ok) (s', ok))"

lemma alone_refl: "alone Z nodes s s"
  by (simp add: alone_def)

lemma alone_trans: "alone Z nodes s s' \<Longrightarrow> alone Z nodes s' s'' \<Longrightarrow> alone Z nodes s s''"
  unfolding alone_def by (meson rtranclp_trans)

lemma alone_step:
  assumes "sy_pc s g = p" "advance Z c g p s = Some s'" "current Z nodes p s" "alone Z nodes s' s''"
  shows "alone Z nodes s s''"
  unfolding alone_def
proof
  fix ok
  have "sys_step Z nodes (s, ok) (s', ok \<and> current Z nodes p s)" using assms(1,2) sys_step.go by metis
  then show "(sys_step Z nodes)\<^sup>*\<^sup>* (s, ok) (s'', ok)"
    using assms(3,4) unfolding alone_def by (simp add: converse_rtranclp_into_rtranclp)
qed

lemma goto_twice [simp]: "goto g q (goto g p s) = goto g q s"
  by (simp add: goto_def)

lemma goto_update [simp]:
  "(goto g p s)\<lparr>sy_zb := zb\<rparr> = goto g p (s\<lparr>sy_zb := zb\<rparr>)" "(goto g p s)\<lparr>sy_z := z\<rparr> = goto g p (s\<lparr>sy_z := z\<rparr>)"
  "(goto g p s)\<lparr>sy_mutex := m\<rparr> = goto g p (s\<lparr>sy_mutex := m\<rparr>)"
  by (simp_all add: goto_def)

lemma current_goto [simp]: "current Z nodes p (goto g q s) = current Z nodes p s"
  by (cases p) (simp_all add: current_def worker_node_def)

lemma alone_at:
  assumes "advance Z c g p (goto g p s) \<noteq> None" "current Z nodes p s" "alone Z nodes (the (advance Z c g p (goto g p s))) s''"
  shows "alone Z nodes (goto g p s) s''"
  using assms by (intro alone_step [of "goto g p s" g p Z c]) auto

lemma current_simps [simp]:
  "current Z nodes Idle s" "current Z nodes (Publish ws k) s" "current Z nodes (Gather evs es m) s" "current Z nodes (Release evs m) s"
  "current Z nodes (OnReleased ts k) s" "current Z nodes (Republish ts seen k) s" "current Z nodes (Clean es) s"
  "current Z nodes (Postpone k) s" "current Z nodes (Query yes no) s"
  by (simp_all add: current_def)

lemma mutex_same: "sy_mutex s = m \<Longrightarrow> s\<lparr>sy_mutex := m\<rparr> = s"
  by auto

lemma goto_same: "sy_pc s g = p \<Longrightarrow> goto g p s = s"
  by (auto simp: goto_def)

lemma publish_alone:
  assumes Z: "zk_set_law Z nodes"
  shows "alone Z nodes (goto g (Publish ws k) s)
    (goto g k (s\<lparr>sy_mutex := None, sy_zb := (sy_zb s)\<lparr>zb_postponed := False\<rparr>, sy_z := publish Z oi (sy_zb s) ws (sy_z s)\<rparr>))"
proof (induction ws arbitrary: s)
  case Nil
  show ?case by (rule alone_at) (simp_all add: alone_refl)
next
  case (Cons w ws)
  let ?c = "\<lparr>ch_tasks = [], ch_inner = oi, ch_weights = (\<lambda>_. []), ch_now = (\<lambda>_. 0), op_now = (\<lambda>_. 0), op_check = (\<lambda>_ _. 0), op_keys = []\<rparr> :: opts"
  let ?d = "tasks_of (sy_zb s) (oi w) w"
  let ?s = "s\<lparr>sy_z := fst (zkSet Z (sy_z s) (worker_node s w) (node_doc ?d))\<rparr>"
  have put: "alone Z nodes (goto g (Put w ?d ws k) s) (goto g k (?s\<lparr>sy_mutex := None, sy_zb := (sy_zb s)\<lparr>zb_postponed := False\<rparr>,
      sy_z := publish Z oi (sy_zb s) ws (sy_z ?s)\<rparr>))"
  proof (rule alone_at [of _ ?c])
    show "current Z nodes (Put w ?d ws k) s" using Z unfolding zk_set_law_def current_def by simp metis
  qed (use Cons.IH [of ?s] in \<open>simp_all add: worker_node_def\<close>)
  show ?case
    by (rule alone_at [of _ ?c]) (use put in \<open>simp_all add: worker_node_def\<close>)
qed

definition opts_of :: "choices \<Rightarrow> (string \<Rightarrow> int) \<Rightarrow> (string \<Rightarrow> nat \<Rightarrow> int) \<Rightarrow> string list \<Rightarrow> opts" where
  "opts_of ch now check ks = \<lparr>ch_tasks = ch_tasks ch, ch_inner = ch_inner ch, ch_weights = ch_weights ch, ch_now = ch_now ch,
     op_now = now, op_check = check, op_keys = ks\<rparr>"

lemma opts_of_simps [simp]:
  "ch_tasks (opts_of ch now check ks) = ch_tasks ch" "ch_inner (opts_of ch now check ks) = ch_inner ch"
  "ch_weights (opts_of ch now check ks) = ch_weights ch" "ch_now (opts_of ch now check ks) = ch_now ch"
  "op_now (opts_of ch now check ks) = now" "op_check (opts_of ch now check ks) = check" "op_keys (opts_of ch now check ks) = ks"
  by (simp_all add: opts_of_def)

lemma balance_alone:
  assumes Z: "zk_set_law Z nodes" and m: "sy_mutex s = None"
    and live: "current Z nodes (Balance ws yes no) s"
    and b: "balanceTasks Z ch ws (sy_zb s, sy_z s) = ((zb', z'), b)"
  shows "alone Z nodes (goto g (Balance ws yes no) s) (goto g (if b then yes else no) (s\<lparr>sy_zb := zb', sy_z := z'\<rparr>))"
proof -
  let ?c = "opts_of ch (\<lambda>_. 0) (\<lambda>_ _. 0) []"
  show ?thesis
  proof (cases "ws = [] \<or> sortable_tasks (sy_zb s) (ch_tasks ch) = None \<or> sortable_tasks (sy_zb s) (ch_tasks ch) = Some []")
    case True
    then show ?thesis
      by (intro alone_at [of _ ?c] live) (use b m alone_refl in \<open>auto simp: balanceTasks_def\<close>)
  next
    case False
    then obtain rs where rs: "sortable_tasks (sy_zb s) (ch_tasks ch) = Some rs" "rs \<noteq> []" "ws \<noteq> []" by auto
    let ?zb = "place_tasks (ch_now ch) (ch_weights ch) ws (sort_tasks (sy_zb s) rs) (sy_zb s)"
    let ?s = "s\<lparr>sy_mutex := Some g, sy_zb := ?zb\<rparr>"
    have "alone Z nodes (goto g (Publish ws yes) ?s)
      (goto g yes (s\<lparr>sy_zb := ?zb\<lparr>zb_postponed := False\<rparr>, sy_z := publish Z (ch_inner ch) ?zb ws (sy_z s)\<rparr>))"
      using publish_alone [OF Z, of g ws yes ?s "ch_inner ch"] by (simp add: mutex_same [OF m])
    then show ?thesis
      by (intro alone_at [of _ ?c] live) (use b rs m in \<open>auto simp: balanceTasks_def Let_def\<close>)
  qed
qed


lemma republish_alone:
  assumes u: "unaliased (sy_zb s)"
  shows "alone Z nodes (goto g (Republish ts seen k) s) (goto g k (s\<lparr>sy_z := republish Z oi (sy_zb s) ts seen (sy_z s)\<rparr>))"
  using u
proof (induction ts arbitrary: seen s)
  case Nil
  show ?case by (rule alone_at) (simp_all add: alone_refl)
next
  case (Cons t ts)
  let ?c = "opts_of \<lparr>ch_tasks = [], ch_inner = oi, ch_weights = (\<lambda>_. []), ch_now = (\<lambda>_. 0)\<rparr> (\<lambda>_. 0) (\<lambda>_ _. 0) []"
  show ?case
  proof (cases "tk_Owner t \<in> set seen")
    case True
    then show ?thesis by (intro alone_at [of _ ?c]) (use Cons.IH [OF Cons.prems, of seen] in simp_all)
  next
    case False
    let ?w = "tk_Owner t"
    let ?d = "tasks_of (sy_zb s) (oi ?w) ?w"
    let ?s = "s\<lparr>sy_z := fst (zkSet Z (sy_z s) (worker_node s ?w) (node_doc ?d))\<rparr>"
    have "alone Z nodes (goto g (Reput ?w ?d ts (?w # seen) k) s)
      (goto g k (?s\<lparr>sy_z := republish Z oi (sy_zb s) ts (?w # seen) (sy_z ?s)\<rparr>))"
    proof (rule alone_at [of _ ?c])
      show "current Z nodes (Reput ?w ?d ts (?w # seen) k) s"
        using Cons.prems by (auto simp: current_def intro: tasks_of_holds)
    qed (use Cons.IH [of ?s "?w # seen"] Cons.prems in \<open>simp_all add: worker_node_def\<close>)
    then show ?thesis
      by (intro alone_at [of _ ?c]) (use False in \<open>simp_all add: worker_node_def assignedTasks_fst\<close>)
  qed
qed

lemma children_current:
  assumes "zk_children_law Z nodes" "zkChildren Z (sy_z s) (zb_workerBasePath (sy_zb s)) = Inr ws"
  shows "CHR ''/'' \<notin> set w \<Longrightarrow> published (nodes (sy_z s)) (zb_workerBasePath (sy_zb s)) w \<noteq> {} \<Longrightarrow> w \<in> set ws"
  using zk_children_live [OF assms(1,2)] by (fastforce simp: published_def split: option.splits)

lemma balanceTasks_conf:
  assumes "balanceTasks Z ch ws (zb, z) = ((zb', z'), b)" "unaliased zb"
  shows "conf zb' = conf zb" "unaliased zb'"
proof -
  have p: "conf (place_tasks n wo ws rs zb) = conf zb" "unaliased (place_tasks n wo ws rs zb)" for n wo rs
    using same_keys_place [of zb n wo ws rs] same_keys_unaliased assms(2) by (auto simp: same_keys_def)
  show "conf zb' = conf zb"
    using assms(1) p(1) by (auto simp: balanceTasks_def Let_def conf_def split: if_splits option.splits)
  show "unaliased zb'"
    using assms p(2) by (auto simp: balanceTasks_def Let_def unaliased_def split: if_splits option.splits)
qed

lemma onReleased_conf:
  assumes "balanceTasksOnReleased Z ch oi ts (zb, z) = (zb', z')" "unaliased zb"
  shows "conf zb' = conf zb"
  using assms by (auto simp: balanceTasksOnReleased_def Let_def split: if_splits sum.splits prod.splits dest: balanceTasks_conf(1))

lemma onReleased_alone:
  assumes Z: "zk_set_law Z nodes" "zk_children_law Z nodes" and u: "unaliased (sy_zb s)" and m: "sy_mutex s = None"
    and b: "balanceTasksOnReleased Z ch oi ts (sy_zb s, sy_z s) = (zb', z')"
  shows "alone Z nodes (goto g (OnReleased ts k) s) (goto g k (s\<lparr>sy_zb := zb', sy_z := z'\<rparr>))"
proof -
  have rep: "alone Z nodes (goto g (Republish ts [] k) (s\<lparr>sy_zb := zb, sy_z := z\<rparr>))
      (goto g k (s\<lparr>sy_zb := zb, sy_z := republish Z oi zb ts [] z\<rparr>))" if "unaliased zb" for zb z
    using republish_alone [of "s\<lparr>sy_zb := zb, sy_z := z\<rparr>"] that by simp
  show ?thesis
  proof (cases "zb_postponed (sy_zb s)")
    case False
    then have "zb' = sy_zb s" "z' = republish Z oi (sy_zb s) ts [] (sy_z s)" using b by (auto simp: balanceTasksOnReleased_def)
    then show ?thesis
      by (intro alone_at) (use False m rep [OF u, of "sy_z s"] in simp_all)
  next
    case True
    have "alone Z nodes (goto g (Query k (Republish ts [] k)) s) (goto g k (s\<lparr>sy_zb := zb', sy_z := z'\<rparr>))"
    proof (cases "zkChildren Z (sy_z s) (zb_workerBasePath (sy_zb s))")
      case (Inl e)
      then have "zb' = sy_zb s" "z' = republish Z oi (sy_zb s) ts [] (sy_z s)"
        using b True by (auto simp: balanceTasksOnReleased_def)
      then show ?thesis by (intro alone_at) (use Inl rep [OF u, of "sy_z s"] in simp_all)
    next
      case (Inr ws)
      obtain zb1 z1 d where bal: "balanceTasks Z ch ws (sy_zb s, sy_z s) = ((zb1, z1), d)" by (metis prod.exhaust)
      have cur: "current Z nodes (Balance ws k (Republish ts [] k)) s"
        using children_current [OF Z(2) Inr] by (simp add: current_def)
      note B = balance_alone [OF Z(1) m cur bal, of g]
      have u1: "unaliased zb1" using balanceTasks_conf(2) [OF bal u] .
      have "alone Z nodes (goto g (Balance ws k (Republish ts [] k)) s) (goto g k (s\<lparr>sy_zb := zb', sy_z := z'\<rparr>))"
      proof (cases d)
        case d: True
        then have "(zb', z') = (zb1, z1)" using b True Inr bal by (simp add: balanceTasksOnReleased_def)
        then show ?thesis using B d by simp
      next
        case d: False
        then have "zb' = zb1" "z' = republish Z oi zb1 ts [] z1" using b True Inr bal by (auto simp: balanceTasksOnReleased_def)
        then show ?thesis using alone_trans [OF B] rep [OF u1, of z1] d by simp
      qed
      then show ?thesis by (intro alone_at) (use Inr in simp_all)
    qed
    then show ?thesis by (intro alone_at) (use True m in simp_all)
  qed
qed

lemma onWorkersChanged_alone:
  assumes Z: "zk_set_law Z nodes" "zk_children_law Z nodes" and u: "unaliased (sy_zb s)"
    and s: "sy_pc s WorkersG = Idle" "sy_pc s MasterG = Done" "sy_mutex s = None"
    and o: "onWorkersChanged Z ch ks (sy_zb s, sy_z s) = (zb', z')"
  shows "alone Z nodes s (s\<lparr>sy_zb := zb', sy_z := z'\<rparr>)"
proof (cases "zkChildren Z (sy_z s) (zb_workerBasePath (sy_zb s))")
  case (Inl e)
  then have "s\<lparr>sy_zb := zb', sy_z := z'\<rparr> = s" using o by (simp add: onWorkersChanged_def)
  then show ?thesis by (simp add: alone_refl)
next
  case (Inr ws)
  let ?zb = "fst (releaseOrphanTasks ks ws (sy_zb s))"
  let ?s = "s\<lparr>sy_zb := ?zb\<rparr>"
  obtain d where bal: "balanceTasks Z ch ws (?zb, sy_z s) = ((zb', z'), d)"
    using o Inr by (cases "balanceTasks Z ch ws (?zb, sy_z s)") (auto simp: onWorkersChanged_def)
  have b: "zb_workerBasePath ?zb = zb_workerBasePath (sy_zb s)"
    using keeps_releaseOrphan [OF u, of ws ks] by (simp add: keeps_def conf_def)
  have live: "current Z nodes (Orphan ws k) s" "current Z nodes (Balance ws k k) ?s" for k
    using children_current [OF Z(2) Inr] by (simp_all add: current_def b)
  have "alone Z nodes (goto WorkersG (Balance ws Idle Idle) ?s) (goto WorkersG Idle (s\<lparr>sy_zb := zb', sy_z := z'\<rparr>))"
    using balance_alone [OF Z(1) _ live(2), of ch zb' z' d WorkersG] bal s(3) by simp
  then have "alone Z nodes (goto WorkersG (Orphan ws (Balance ws Idle Idle)) s) (goto WorkersG Idle (s\<lparr>sy_zb := zb', sy_z := z'\<rparr>))"
    by (intro alone_at [of _ "opts_of ch (\<lambda>_. 0) (\<lambda>_ _. 0) ks"] live) (use s(3) in simp_all)
  then have "alone Z nodes (goto WorkersG Idle s) (goto WorkersG Idle (s\<lparr>sy_zb := zb', sy_z := z'\<rparr>))"
    by (intro alone_at) (use s Inr in simp_all)
  then show ?thesis by (simp add: goto_same s)
qed


lemma gather_alone:
  "alone Z nodes (goto g (Gather evs es m) s) (goto g (Release evs (fold (\<lambda>event m.
     case zkGet Z (sy_z s) (path_of (zb_eventBasePath (sy_zb s)) event) of
         Inl e \<Rightarrow> m
       | Inr data \<Rightarrow> (case decodeData data of
             Inl e \<Rightarrow> m
           | Inr releasedTasks \<Rightarrow> fold (\<lambda>v m. m(tk_Path v \<mapsto> v)) releasedTasks m)) es m)) s)"
proof (induction es arbitrary: m)
  case Nil
  show ?case by (rule alone_at) (simp_all add: alone_refl)
next
  case (Cons e es)
  show ?case by (rule alone_at) (use Cons.IH in simp_all)
qed

lemma clean_alone:
  "alone Z nodes (goto g (Clean es) s)
     (goto g Idle (s\<lparr>sy_z := fold (\<lambda>event z. fst (zkDelete Z z (path_of (zb_eventBasePath (sy_zb s)) event))) es (sy_z s)\<rparr>))"
proof (induction es arbitrary: s)
  case Nil
  show ?case by (rule alone_at) (simp_all add: alone_refl)
next
  case (Cons e es)
  show ?case
    by (rule alone_at) (use Cons.IH [of "s\<lparr>sy_z := fst (zkDelete Z (sy_z s) (path_of (zb_eventBasePath (sy_zb s)) e))\<rparr>"] in simp_all)
qed

lemma handleReleasedEvents_alone:
  assumes Z: "zk_set_law Z nodes" "zk_children_law Z nodes" and u: "unaliased (sy_zb s)"
    and s: "sy_pc s EventsG = Idle" "sy_pc s MasterG = Done" "sy_mutex s = None"
    and o: "handleReleasedEvents Z ch oi now rs (sy_zb s, sy_z s) = (zb', z')"
  shows "alone Z nodes s (s\<lparr>sy_zb := zb', sy_z := z'\<rparr>)"
proof (cases "\<exists>evs. zkChildren Z (sy_z s) (zb_eventBasePath (sy_zb s)) = Inr evs \<and> evs \<noteq> []")
  case False
  then have "s\<lparr>sy_zb := zb', sy_z := z'\<rparr> = s" using o by (auto simp: handleReleasedEvents_def split: sum.splits)
  then show ?thesis by (simp add: alone_refl)
next
  case True
  then obtain evs where evs: "zkChildren Z (sy_z s) (zb_eventBasePath (sy_zb s)) = Inr evs" "evs \<noteq> []" by blast
  let ?m = "collect_released Z (zb_eventBasePath (sy_zb s)) (sy_z s) evs"
  obtain zb1 need where r: "fold (released_body now ?m) rs (sy_zb s, []) = (zb1, need)" by fastforce
  have k: "unaliased zb1" "conf zb1 = conf (sy_zb s)"
    using keeps_released [OF u, of UNIV now ?m rs "[]"] r by (auto simp: keeps_def)
  obtain zb2 z2 where in2: "innerOnReleased Z ch oi now rs ?m (sy_zb s, sy_z s) = (zb2, z2)" by fastforce
  then have e: "(zb2, z2) = (if length need > 0 then balanceTasksOnReleased Z ch oi need (zb1, sy_z s) else (zb1, sy_z s))"
    using r by (simp add: innerOnReleased_def)
  have c: "conf zb2 = conf (sy_zb s)"
    using e k onReleased_conf [of Z ch oi need zb1 "sy_z s" zb2 z2] by (auto split: if_splits)
  have zb': "zb' = zb2" "z' = fold (\<lambda>event z. fst (zkDelete Z z (path_of (zb_eventBasePath (sy_zb s)) event))) evs z2"
    using o evs in2 by (simp_all add: handleReleasedEvents_def)
  have clean: "alone Z nodes (goto EventsG (Clean evs) (s\<lparr>sy_zb := zb2, sy_z := z2\<rparr>)) (goto EventsG Idle (s\<lparr>sy_zb := zb', sy_z := z'\<rparr>))"
    using clean_alone [of Z nodes EventsG evs "s\<lparr>sy_zb := zb2, sy_z := z2\<rparr>"] c zb' by (simp add: conf_def)
  have "alone Z nodes (goto EventsG (if length need > 0 then OnReleased need (Clean evs) else Clean evs) (s\<lparr>sy_zb := zb1\<rparr>))
     (goto EventsG (Clean evs) (s\<lparr>sy_zb := zb2, sy_z := z2\<rparr>))"
  proof (cases "length need > 0")
    case True
    then show ?thesis
      using onReleased_alone [OF Z, of "s\<lparr>sy_zb := zb1\<rparr>" ch oi need zb2 z2 EventsG "Clean evs"] e k(1) s(3) by simp
  next
    case False
    then have "s\<lparr>sy_zb := zb2, sy_z := z2\<rparr> = s\<lparr>sy_zb := zb1\<rparr>" using e by simp
    then show ?thesis using False by (simp add: alone_refl)
  qed
  from alone_trans [OF this clean]
  have "alone Z nodes (goto EventsG (Release evs ?m) s) (goto EventsG Idle (s\<lparr>sy_zb := zb', sy_z := z'\<rparr>))"
    by (intro alone_at [of _ "opts_of ch now (\<lambda>_ _. 0) rs"]) (use r s(3) in simp_all)
  moreover have "alone Z nodes (goto EventsG (Gather evs evs Map.empty) s) (goto EventsG (Release evs ?m) s)"
    using gather_alone [of Z nodes EventsG evs evs Map.empty s] by (simp add: collect_released_def)
  ultimately have "alone Z nodes (goto EventsG (Gather evs evs Map.empty) s) (goto EventsG Idle (s\<lparr>sy_zb := zb', sy_z := z'\<rparr>))"
    by (rule alone_trans [rotated])
  then
  have "alone Z nodes (goto EventsG Idle s) (goto EventsG Idle (s\<lparr>sy_zb := zb', sy_z := z'\<rparr>))"
    by (intro alone_at) (use evs s in simp_all)
  then show ?thesis by (simp add: goto_same s)
qed

lemma handleReleaseTimeout_alone:
  assumes Z: "zk_set_law Z nodes" "zk_children_law Z nodes" and u: "unaliased (sy_zb s)"
    and s: "sy_pc s TimerG = Idle" "sy_pc s MasterG = Done" "sy_mutex s = None"
    and o: "handleReleaseTimeoutAndInitTasks Z ch ch' oi now ks (sy_zb s, sy_z s) = (zb', z')"
  shows "alone Z nodes s (s\<lparr>sy_zb := zb', sy_z := z'\<rparr>)"
proof -
  let ?a = "check_scan now ks (sy_zb s)"
  let ?zb = "ca_zb ?a"
  let ?s1 = "s\<lparr>sy_zb := ?zb\<rparr>"
  let ?rest = "if length (ca_need ?a) > 0 then OnReleased (ca_need ?a) Idle else Idle"
  have k: "unaliased ?zb" using keeps_check [OF u, of UNIV now ks] by (simp add: keeps_def)
  have rest: "alone Z nodes (goto TimerG ?rest (s\<lparr>sy_zb := zb1, sy_z := z1\<rparr>)) (goto TimerG Idle (s\<lparr>sy_zb := zb', sy_z := z'\<rparr>))"
    if "unaliased zb1" "(zb', z') = (if length (ca_need ?a) > 0 then balanceTasksOnReleased Z ch' oi (ca_need ?a) (zb1, z1) else (zb1, z1))" for zb1 z1
    using onReleased_alone [OF Z, of "s\<lparr>sy_zb := zb1, sy_z := z1\<rparr>" ch' oi "ca_need ?a" zb' z' TimerG Idle] that s(3)
    by (auto simp: alone_refl split: if_splits)
  have "alone Z nodes (goto TimerG (after_scan ?a) ?s1) (goto TimerG Idle (s\<lparr>sy_zb := zb', sy_z := z'\<rparr>))"
  proof (cases "ca_hasInit ?a")
    case False
    then show ?thesis using rest [OF k, of "sy_z s"] o
      by (simp add: after_scan_def handleReleaseTimeoutAndInitTasks_def Let_def)
  next
    case i: True
    show ?thesis
    proof (cases "ca_hasReleasing ?a")
      case True
      have "unaliased (?zb\<lparr>zb_postponed := True\<rparr>)" using k by (simp add: unaliased_def)
      then have "alone Z nodes (goto TimerG (Postpone ?rest) ?s1) (goto TimerG Idle (s\<lparr>sy_zb := zb', sy_z := z'\<rparr>))"
        by (intro alone_at) (use rest [of "?zb\<lparr>zb_postponed := True\<rparr>" "sy_z s"] o i True s(3)
          in \<open>simp_all add: handleReleaseTimeoutAndInitTasks_def Let_def\<close>)
      then show ?thesis using i True by (simp add: after_scan_def Let_def)
    next
      case False
      have "alone Z nodes (goto TimerG (Query Idle ?rest) ?s1) (goto TimerG Idle (s\<lparr>sy_zb := zb', sy_z := z'\<rparr>))"
      proof (cases "zkChildren Z (sy_z s) (zb_workerBasePath ?zb)")
        case (Inl e)
        then show ?thesis
          by (intro alone_at) (use rest [OF k, of "sy_z s"] o i False in \<open>simp_all add: handleReleaseTimeoutAndInitTasks_def Let_def\<close>)
      next
        case (Inr ws)
        obtain zb1 z1 d where bal: "balanceTasks Z ch ws (?zb, sy_z s) = ((zb1, z1), d)" by (metis prod.exhaust)
        have cur: "current Z nodes (Balance ws Idle ?rest) ?s1"
          using children_current [OF Z(2), of ?s1] Inr by (simp add: current_def)
        have B: "alone Z nodes (goto TimerG (Balance ws Idle ?rest) ?s1) (goto TimerG (if d then Idle else ?rest) (s\<lparr>sy_zb := zb1, sy_z := z1\<rparr>))"
          using balance_alone [OF Z(1) _ cur, of ch zb1 z1 d TimerG] bal s(3) by simp
        have "alone Z nodes (goto TimerG (if d then Idle else ?rest) (s\<lparr>sy_zb := zb1, sy_z := z1\<rparr>)) (goto TimerG Idle (s\<lparr>sy_zb := zb', sy_z := z'\<rparr>))"
          using o i False Inr bal rest [OF balanceTasks_conf(2) [OF bal k], of z1]
          by (cases d) (simp_all add: handleReleaseTimeoutAndInitTasks_def Let_def alone_refl)
        from alone_trans [OF B this] show ?thesis by (intro alone_at) (use Inr in simp_all)
      qed
      then show ?thesis using i False by (simp add: after_scan_def Let_def)
    qed
  qed
  then have "alone Z nodes (goto TimerG Idle s) (goto TimerG Idle (s\<lparr>sy_zb := zb', sy_z := z'\<rparr>))"
    by (intro alone_at [of _ "opts_of ch (\<lambda>_. 0) now ks"]) (use s in \<open>simp_all add: Let_def\<close>)
  then show ?thesis by (simp add: goto_same s)
qed


lemma load_alone:
  assumes "loadTasks Z now rest (sy_z s) (sy_zb s) = (zb', r)"
  shows "alone Z nodes (goto g (Load ws rest) s) (goto g (if r = Inr () then Load ws [] else Failed) (s\<lparr>sy_zb := zb'\<rparr>))"
  using assms
proof (induction rest arbitrary: s)
  case Nil
  then show ?case by (auto simp: alone_refl)
next
  case (Cons w rest)
  obtain zb1 r1 where l: "loadTasksForWorker Z (now w) w (sy_z s) (sy_zb s) = (zb1, r1)" by fastforce
  let ?c = "opts_of \<lparr>ch_tasks = [], ch_inner = (\<lambda>_. []), ch_weights = (\<lambda>_. []), ch_now = (\<lambda>_. 0)\<rparr> (now w) (\<lambda>_ _. 0) []"
  note split = l [unfolded loadTasksForWorker_split]
  have IH: "alone Z nodes (goto g (Load ws rest) (s\<lparr>sy_zb := zb1\<rparr>)) (goto g (if r = Inr () then Load ws [] else Failed) (s\<lparr>sy_zb := zb'\<rparr>))"
    if "r1 = Inr ()" using Cons.IH [of "s\<lparr>sy_zb := zb1\<rparr>"] Cons.prems l that by simp
  show ?case
  proof (cases "zkGet Z (sy_z s) (worker_node s w)")
    case (Inl e)
    then have zb1: "zb1 = sy_zb s" "r1 = Inr () \<longleftrightarrow> e = ErrNoNode" using split by (auto simp: worker_node_def split: if_splits)
    show ?thesis
    proof (cases "e = ErrNoNode")
      case True
      then show ?thesis by (intro alone_at) (use IH zb1 Inl in \<open>simp_all add: worker_node_def current_def\<close>)
    next
      case False
      then have "r \<noteq> Inr ()" "zb' = sy_zb s" using Cons.prems l zb1 by (auto split: sum.splits)
      then show ?thesis by (intro alone_at) (use Inl False in \<open>simp_all add: worker_node_def current_def alone_refl\<close>)
    qed
  next
    case (Inr d)
    show ?thesis
    proof (cases "decodeData d")
      case (Inl e)
      then have "r \<noteq> Inr ()" "zb' = sy_zb s" using Cons.prems l split Inr by (auto simp: worker_node_def split: sum.splits)
      then show ?thesis by (intro alone_at) (use Inr Inl in \<open>simp_all add: worker_node_def current_def alone_refl\<close>)
    next
      case ts: (Inr ts)
      then have zb1: "zb1 = apply_loaded (now w) w ts (sy_zb s)" "r1 = Inr ()" using split Inr by (auto simp: worker_node_def)
      have "alone Z nodes (goto g (Loaded w ts ws rest) s) (goto g (if r = Inr () then Load ws [] else Failed) (s\<lparr>sy_zb := zb'\<rparr>))"
        by (rule alone_at [of _ ?c]) (use IH zb1 in \<open>simp_all add: current_def\<close>)
      then show ?thesis by (intro alone_at) (use Inr ts in \<open>simp_all add: worker_node_def current_def\<close>)
    qed
  qed
qed

lemma deprecate_alone:
  assumes "deprecate_loop Z oi (sy_zb s) ks seen err (sy_z s) = (z', err')"
  shows "\<exists>seen'. alone Z nodes (goto g (Deprecate ks seen err ws) s) (goto g (Deprecate [] seen' err' ws) (s\<lparr>sy_z := z'\<rparr>))"
  using assms
proof (induction ks arbitrary: s seen err)
  case Nil
  then show ?case by (auto intro!: exI [of _ seen] simp: alone_refl)
next
  case (Cons k ks)
  let ?c = "opts_of \<lparr>ch_tasks = [], ch_inner = oi, ch_weights = (\<lambda>_. []), ch_now = (\<lambda>_. 0)\<rparr> (\<lambda>_. 0) (\<lambda>_ _. 0) []"
  obtain z1 err1 where d: "deprecate_loop Z oi (sy_zb s) [k] seen err (sy_z s) = (z1, err1)" by fastforce
  define seen1 where "seen1 = (case task_at (sy_zb s) k of
    Some t \<Rightarrow> if tk_Status t = Deleting \<and> tk_Owner t \<notin> set seen then tk_Owner t # seen else seen | None \<Rightarrow> seen)"
  have "deprecate_loop Z oi (sy_zb s) ks seen1 err1 z1 = (z', err')"
    using d Cons.prems by (auto simp: seen1_def Let_def split: option.splits if_splits prod.splits)
  then obtain seen' where "alone Z nodes (goto g (Deprecate ks seen1 err1 ws) (s\<lparr>sy_z := z1\<rparr>))
      (goto g (Deprecate [] seen' err' ws) (s\<lparr>sy_z := z'\<rparr>))"
    using Cons.IH [of "s\<lparr>sy_z := z1\<rparr>"] by auto
  then have "alone Z nodes (goto g (Deprecate (k # ks) seen err ws) s) (goto g (Deprecate [] seen' err' ws) (s\<lparr>sy_z := z'\<rparr>))"
    by (intro alone_at [of _ ?c]) (use d in \<open>simp_all add: seen1_def current_def del: deprecate_loop.simps\<close>)
  then show ?case by blast
qed

lemma dom_deprecate: "zk_set_law Z nodes \<Longrightarrow> deprecate_loop Z oi zb ks seen err z = (z', e) \<Longrightarrow> dom (nodes z') = dom (nodes z)"
proof (induction ks arbitrary: seen err z)
  case (Cons k ks)
  have "dom (nodes (fst (assignedTasks Z oi zb w z))) = dom (nodes z)" for w z
    using zkSet_dom [OF Cons.prems(1)] by (simp add: assignedTasks_fst)
  then show ?case
    using Cons.IH [OF Cons.prems(1)] Cons.prems(2) by (auto simp: Let_def case_prod_beta split: option.splits if_splits)
qed simp


text \<open>The round of \<open>startMaster\<close>.\<close>

lemma startMaster_alone:
  assumes Z: "zk_set_law Z nodes" "zk_children_law Z nodes" "zk_get_law Z nodes" and fresh: "fresh_master (sy_zb s)"
    and known: "known_tasks (sy_zb s) (nodes (sy_z s))"
    and s: "sy_pc s MasterG = Idle" "sy_mutex s = None"
    and o: "startMaster_round Z ch now oi ks ks' (sy_zb s, sy_z s) = ((zb', z'), True)"
  shows "alone Z nodes s (goto MasterG Done (s\<lparr>sy_zb := zb', sy_z := z'\<rparr>))"
proof -
  let ?zb0 = "(sy_zb s)\<lparr>zb_isMaster := True\<rparr>"
  obtain ws where ws: "zkChildren Z (sy_z s) (zb_workerBasePath (sy_zb s)) = Inr ws"
    using o by (auto simp: startMaster_round_def Let_def split: sum.splits)
  obtain zb1 where l: "loadTasks Z now ws (sy_z s) ?zb0 = (zb1, Inr ())"
    using o ws by (cases "loadTasks Z now ws (sy_z s) ?zb0") (auto simp: startMaster_round_def Let_def split: sum.splits)
  obtain z1 where d: "deprecate_loop Z oi zb1 ks [] (Inr ()) (sy_z s) = (z1, Inr ())"
    using o ws l by (cases "deprecateTasks Z oi ks zb1 (sy_z s)")
      (auto simp: startMaster_round_def Let_def deprecateTasks_def split: sum.splits)
  let ?zb2 = "fst (releaseOrphanTasks ks' ws zb1)"
  have f0: "fresh_master ?zb0" "known_tasks ?zb0 (nodes (sy_z s))"
    using fresh known by (auto simp: fresh_master_def known_tasks_def unaliased_def status_ok_def task_at_def)
  have 1: "fresh_master zb1" "zb_workerBasePath zb1 = zb_workerBasePath (sy_zb s)" using loadTasks_fresh [OF Z(3) f0 l] by simp_all
  have 2: "zb_workerBasePath ?zb2 = zb_workerBasePath (sy_zb s)" using releaseOrphan_fresh [OF 1(1)] 1(2) by simp
  obtain b where bal: "balanceTasks Z ch ws (?zb2, z1) = ((zb', z'), b)"
    using o ws l d by (cases "balanceTasks Z ch ws (?zb2, z1)") (auto simp: startMaster_round_def Let_def deprecateTasks_def)
  have live: "w \<in> set ws" if "CHR ''/'' \<notin> set w" "published (nodes z1) (zb_workerBasePath (sy_zb s)) w \<noteq> {}" for w
  proof -
    have "path_of (zb_workerBasePath (sy_zb s)) w \<in> dom (nodes (sy_z s))"
      using that(2) dom_deprecate [OF Z(1) d] by (force simp: published_def split: option.splits)
    then show ?thesis using zk_children_live [OF Z(2) ws that(1)] by simp
  qed
  let ?s1 = "s\<lparr>sy_zb := zb1, sy_z := z1\<rparr>"
  have cur: "current Z nodes (Orphan ws k) ?s1" "current Z nodes (Balance ws k k) (?s1\<lparr>sy_zb := ?zb2\<rparr>)" for k
    using live by (simp_all add: current_def 1(2) 2)
  have "alone Z nodes (goto MasterG (Balance ws Done Done) (?s1\<lparr>sy_zb := ?zb2\<rparr>)) (goto MasterG Done (s\<lparr>sy_zb := zb', sy_z := z'\<rparr>))"
    using balance_alone [OF Z(1) _ cur(2), of ch zb' z' b MasterG] bal s(2) by simp
  then have "alone Z nodes (goto MasterG (Orphan ws (Balance ws Done Done)) ?s1) (goto MasterG Done (s\<lparr>sy_zb := zb', sy_z := z'\<rparr>))"
    by (intro alone_at [of _ "opts_of ch (\<lambda>_. 0) (\<lambda>_ _. 0) ks'"] cur(1)) (use s in simp_all)
  then have dep: "alone Z nodes (goto MasterG (Deprecate [] seen (Inr ()) ws) ?s1) (goto MasterG Done (s\<lparr>sy_zb := zb', sy_z := z'\<rparr>))" for seen
    by (intro alone_at) (simp_all add: current_def)
  obtain seen where "alone Z nodes (goto MasterG (Deprecate ks [] (Inr ()) ws) (s\<lparr>sy_zb := zb1\<rparr>))
      (goto MasterG (Deprecate [] seen (Inr ()) ws) ?s1)"
    using deprecate_alone [of Z oi "s\<lparr>sy_zb := zb1\<rparr>" ks "[]" "Inr ()" z1 "Inr ()" nodes MasterG ws] d by auto
  from alone_trans [OF this dep]
  have ld: "alone Z nodes (goto MasterG (Load ws []) (s\<lparr>sy_zb := zb1\<rparr>)) (goto MasterG Done (s\<lparr>sy_zb := zb', sy_z := z'\<rparr>))"
    by (intro alone_at [of _ "opts_of ch (\<lambda>_. 0) (\<lambda>_ _. 0) ks"]) (simp_all add: current_def)
  have "alone Z nodes (goto MasterG (Load ws ws) (s\<lparr>sy_zb := ?zb0\<rparr>)) (goto MasterG (Load ws []) (s\<lparr>sy_zb := zb1\<rparr>))"
    using load_alone [of Z now ws "s\<lparr>sy_zb := ?zb0\<rparr>" zb1 "Inr ()" nodes MasterG ws] l by simp
  from alone_trans [OF this ld]
  have "alone Z nodes (goto MasterG Idle s) (goto MasterG Done (s\<lparr>sy_zb := zb', sy_z := z'\<rparr>))"
    by (intro alone_at) (use ws in \<open>simp_all add: Let_def\<close>)
  then show ?thesis by (simp add: goto_same s)
qed

subsection \<open>Exclusive publication\<close>

text \<open>Claim C1: from the moment a process holds the master lock, with a table of known tasks and worker nodes that
  name no task twice, no task is ever in the nodes of two workers, however its goroutines interleave, whatever workers
  come, go and report releases, and whichever requests to the store fail, as long as every step was
  \<open>current\<close>: no goroutine acted on a list of workers or on data that another step had overtaken, and no
  write under the mutex was lost.\<close>

theorem published_exclusive:
  assumes "sys_start Z nodes (s, True)" "(sys_step Z nodes)\<^sup>*\<^sup>* (s, True) (s', True)"
    "w \<noteq> w'" "CHR ''/'' \<notin> set w" "CHR ''/'' \<notin> set w'"
  shows "published (nodes (sy_z s')) (zb_workerBasePath (sy_zb s')) w \<inter> published (nodes (sy_z s')) (zb_workerBasePath (sy_zb s')) w' = {}"
proof -
  have "sys_inv nodes s'" using zk_sys.reachable_inv [OF assms(2,1)] by simp
  then show ?thesis using assms(3-5) by (simp add: sys_inv_def nodes_ok_def exclusive_def)
qed

definition demo_sys :: "(string \<times> zk_data) list sys" where
  "demo_sys = \<lparr>sy_zb = demo_zb demo_ts False, sy_z = demo_z demo_ws, sy_pc = (\<lambda>_. Idle), sy_mutex = None\<rparr>"

definition demo_started :: "ZkBalancer \<times> (string \<times> zk_data) list" where
  "demo_started = fst (startMaster_round mem_zk (demo_ch demo_ks demo_ws) (\<lambda>_ _. 0) (\<lambda>_. demo_ks)
     demo_ks demo_ks (demo_zb demo_ts False, demo_z demo_ws))"

definition demo_running :: "(string \<times> zk_data) list sys" where
  "demo_running = goto MasterG Done (demo_sys\<lparr>sy_zb := fst demo_started, sy_z := snd demo_started\<rparr>)"

lemma demo_sys_start: "sys_start mem_zk map_of (demo_sys, True)"
proof -
  have "published (map_of (demo_z demo_ws)) b w = {}" for b w
    by (auto simp: published_def demo_z_def decodeData_def split: option.splits)
  then show ?thesis
    using demo_fresh zk_reliable_sound [OF mem_zk_reliable] by (simp add: sys_start_def demo_sys_def exclusive_def)
qed

lemma demo_sys_run: "(sys_step mem_zk map_of)\<^sup>*\<^sup>* (demo_sys, True) (demo_running, True)"
proof -
  have "snd (startMaster_round mem_zk (demo_ch demo_ks demo_ws) (\<lambda>_ _. 0) (\<lambda>_. demo_ks)
     demo_ks demo_ks (demo_zb demo_ts False, demo_z demo_ws))"
    by code_simp
  then have o: "startMaster_round mem_zk (demo_ch demo_ks demo_ws) (\<lambda>_ _. 0) (\<lambda>_. demo_ks)
     demo_ks demo_ks (sy_zb demo_sys, sy_z demo_sys) = ((fst demo_started, snd demo_started), True)"
    by (simp add: demo_started_def demo_sys_def prod_eq_iff)
  have "alone mem_zk map_of demo_sys demo_running"
    unfolding demo_running_def
    by (rule startMaster_alone [OF _ _ _ _ _ _ _ o])
      (use mem_zk_reliable demo_fresh in \<open>simp_all add: zk_reliable_def demo_sys_def\<close>)
  then show ?thesis by (simp add: alone_def)
qed

theorem published_exclusive_witness:
  "published (map_of (sy_z demo_running)) (zb_workerBasePath (sy_zb demo_running)) ''a''
    \<inter> published (map_of (sy_z demo_running)) (zb_workerBasePath (sy_zb demo_running)) ''b'' = {}
   \<and> published (map_of (sy_z demo_running)) (zb_workerBasePath (sy_zb demo_running)) ''a'' = {''t1''}"
proof
  show "published (map_of (sy_z demo_running)) (zb_workerBasePath (sy_zb demo_running)) ''a''
    \<inter> published (map_of (sy_z demo_running)) (zb_workerBasePath (sy_zb demo_running)) ''b'' = {}"
    by (rule published_exclusive [OF demo_sys_start demo_sys_run]) simp_all
  show "published (map_of (sy_z demo_running)) (zb_workerBasePath (sy_zb demo_running)) ''a'' = {''t1''}"
    by code_simp
qed

end
