(* ===== verification/Redis_Cache.thy ===== *)
theory Redis_Cache
  imports Relay_Prelude
begin

section \<open>The Redis cache (\<open>cache/interface.go\<close>, \<open>cache/redis/pool.go\<close>, \<open>cache/redis/cluster.go\<close>)\<close>

text \<open>
  Both implementations of the interface \<open>Cache\<close> send commands and read the replies with type
  assertions, which panic when a reply has another type. The server is a parameter: a function from
  its state, a command and the arguments to the new state and the reply. The pool hands out a
  connection for each operation; the cluster object is closed when an operation ends.
\<close>

subsection \<open>Commands and replies\<close>

datatype arg = AStr string | ABytes bytes | AInt int

datatype reply = RNil | RBytes bytes | RInt int | RStatus string | RError string | RArr "reply list"

type_synonym 'r server = "'r \<Rightarrow> string \<Rightarrow> arg list \<Rightarrow> 'r \<times> reply res"

text \<open>\<open>redigo\<close> returns an error reply as the error of \<open>Do\<close>.\<close>

definition pool_do :: "'r server \<Rightarrow> 'r server" where
  "pool_do srv r cmd args = (case srv r cmd args of
       (r', Inr (RError msg)) \<Rightarrow> (r', Inl (Err msg))
     | x \<Rightarrow> x)"

fun as_bytes :: "reply \<Rightarrow> bytes res" where
  "as_bytes (RBytes b) = Inr b"
| "as_bytes _ = Inl (Panic BadTypeAssertion)"

fun as_int64 :: "reply \<Rightarrow> int res" where
  "as_int64 (RInt n) = Inr n"
| "as_int64 _ = Inl (Panic BadTypeAssertion)"

fun as_array :: "reply \<Rightarrow> reply list res" where
  "as_array (RArr rs) = Inr rs"
| "as_array _ = Inl (Panic BadTypeAssertion)"

text \<open>An array of byte strings; in the lenient form a nil element is an empty byte string.\<close>

definition lenient_list :: "reply \<Rightarrow> bytes list res" where
  "lenient_list reply = (if reply = RNil then Inr []
     else rbind (as_array reply) (rmap (\<lambda>r. if r = RNil then Inr [] else as_bytes r)))"

definition strict_list :: "reply \<Rightarrow> bytes list res" where
  "strict_list reply = (if reply = RNil then Inr [] else rbind (as_array reply) (rmap as_bytes))"

subsection \<open>Operations on a pooled connection\<close>

definition Redis_Get :: "'r server \<Rightarrow> string \<Rightarrow> 'r \<Rightarrow> 'r \<times> bytes res" where
  "Redis_Get Do key r = (case Do r ''get'' [AStr key] of
       (r, Inl e) \<Rightarrow> (r, Inl e)
     | (r, Inr reply) \<Rightarrow>
         (if reply = RNil then (r, Inl (Err (''no this key:'' @ key))) else (r, as_bytes reply)))"

definition Redis_Exists :: "'r server \<Rightarrow> string \<Rightarrow> 'r \<Rightarrow> 'r \<times> bool res" where
  "Redis_Exists Do key r = (case Do r ''exists'' [AStr key] of
       (r, Inl e) \<Rightarrow> (r, Inl e)
     | (r, Inr reply) \<Rightarrow> (r, rbind (as_int64 reply) (\<lambda>exists. Inr (if exists = 1 then True else False))))"

text \<open>The \<open>expire\<close> command that follows a write with a time to live.\<close>

definition do_expire :: "'r server \<Rightarrow> string \<Rightarrow> int \<Rightarrow> unit res \<Rightarrow> 'r \<Rightarrow> 'r \<times> unit res" where
  "do_expire Do key ttl err r =
     (if ttl > 0 then
        (case Do r ''expire'' [AStr key, AInt ttl] of
           (r, Inl e) \<Rightarrow> (r, Inl e)
         | (r, Inr _) \<Rightarrow> (r, err))
      else (r, err))"

definition Redis_Set :: "'r server \<Rightarrow> string \<Rightarrow> bytes \<Rightarrow> int \<Rightarrow> 'r \<Rightarrow> 'r \<times> unit res" where
  "Redis_Set Do key value ttl r = (case Do r ''set'' [AStr key, ABytes value] of
       (r, Inl e) \<Rightarrow> (r, Inl e)
     | (r, Inr _) \<Rightarrow> do_expire Do key ttl (Inr ()) r)"

definition Redis_Del :: "'r server \<Rightarrow> string \<Rightarrow> 'r \<Rightarrow> 'r \<times> unit res" where
  "Redis_Del Do key r = (case Do r ''del'' [AStr key] of
       (r, Inl e) \<Rightarrow> (r, Inl e)
     | (r, Inr _) \<Rightarrow> (r, Inr ()))"

text \<open>An error of the server is logged and dropped.\<close>

definition Redis_Dels :: "'r server \<Rightarrow> string list \<Rightarrow> 'r \<Rightarrow> 'r \<times> unit res" where
  "Redis_Dels Do args r =
     (if length args = 0 then (r, Inl (Err ''redis dels args empty''))
      else case Do r ''del'' (map AStr args) of
        (r, Inl (Err e)) \<Rightarrow> (r, Inr ())
      | (r, Inl (Panic p)) \<Rightarrow> (r, Inl (Panic p))
      | (r, Inr num) \<Rightarrow> (r, rbind (as_int64 num) (\<lambda>_. Inr ())))"

definition Redis_Keys :: "'r server \<Rightarrow> string \<Rightarrow> 'r \<Rightarrow> 'r \<times> bytes list res" where
  "Redis_Keys Do keyFormat r = (case Do r ''keys'' [AStr keyFormat] of
       (r, Inl e) \<Rightarrow> (r, Inl e)
     | (r, Inr reply) \<Rightarrow> (r, lenient_list reply))"

definition Redis_HMSet :: "'r server \<Rightarrow> string \<Rightarrow> int \<Rightarrow> bytes list \<Rightarrow> 'r \<Rightarrow> 'r \<times> unit res" where
  "Redis_HMSet Do key ttl args r =
     (if length args = 0 then (r, Inl (Err ''redis hmset args empty''))
      else if length args mod 2 \<noteq> 0 then (r, Inl (Err ''the length of `args` must be even''))
      else case Do r ''hmset'' (AStr key # map ABytes args) of
        (r, Inl e) \<Rightarrow> do_expire Do key ttl (Inl e) r
      | (r, Inr _) \<Rightarrow> do_expire Do key ttl (Inr ()) r)"

definition Redis_ZAdd :: "'r server \<Rightarrow> string \<Rightarrow> int \<Rightarrow> bytes list \<Rightarrow> 'r \<Rightarrow> 'r \<times> unit res" where
  "Redis_ZAdd Do key ttl args r =
     (if length args = 0 then (r, Inl (Err ''redis zadd args empty''))
      else if length args mod 2 \<noteq> 0 then (r, Inl (Err ''the length of `args` must be even''))
      else case Do r ''zadd'' (AStr key # map ABytes args) of
        (r, Inl e) \<Rightarrow> do_expire Do key ttl (Inl e) r
      | (r, Inr _) \<Rightarrow> do_expire Do key ttl (Inr ()) r)"

definition Redis_HMGet :: "'r server \<Rightarrow> string \<Rightarrow> bytes list \<Rightarrow> 'r \<Rightarrow> 'r \<times> bytes list res" where
  "Redis_HMGet Do key fields r =
     (if length fields = 0 then (r, Inl (Err ''redis hmget fields empty''))
      else case Do r ''hmget'' (AStr key # map ABytes fields) of
        (r, Inl e) \<Rightarrow> (r, Inl e)
      | (r, Inr reply) \<Rightarrow> (r, lenient_list reply))"

definition Redis_ZRange :: "'r server \<Rightarrow> string \<Rightarrow> int \<Rightarrow> int \<Rightarrow> bool \<Rightarrow> 'r \<Rightarrow> 'r \<times> bytes list res" where
  "Redis_ZRange Do key start stop withScores r =
     (case Do r ''ZRANGE'' ([AStr key, AInt start, AInt stop]
              @ (if withScores then [ABytes (bytes_of ''WITHSCORES'')] else [])) of
        (r, Inl e) \<Rightarrow> (r, Inl e)
      | (r, Inr reply) \<Rightarrow> (r, lenient_list reply))"

definition int_reply :: "'r \<times> reply res \<Rightarrow> 'r \<times> int res" where
  "int_reply = (\<lambda>(r, x). (r, rbind x as_int64))"

definition Redis_HDel :: "'r server \<Rightarrow> string \<Rightarrow> bytes list \<Rightarrow> 'r \<Rightarrow> 'r \<times> int res" where
  "Redis_HDel Do key fields r =
     (if length fields = 0 then (r, Inl (Err ''redis hdel fields empty''))
      else int_reply (Do r ''hdel'' (AStr key # map ABytes fields)))"

definition Redis_SCard :: "'r server \<Rightarrow> string \<Rightarrow> 'r \<Rightarrow> 'r \<times> int res" where
  "Redis_SCard Do key r = int_reply (Do r ''scard'' [AStr key])"

definition Redis_ZRemRangeByScore :: "'r server \<Rightarrow> string \<Rightarrow> int \<Rightarrow> int \<Rightarrow> 'r \<Rightarrow> 'r \<times> int res" where
  "Redis_ZRemRangeByScore Do key start stop r =
     int_reply (Do r ''ZREMRANGEBYSCORE'' [AStr key, AInt start, AInt stop])"

definition Redis_SRem :: "'r server \<Rightarrow> string \<Rightarrow> bytes list \<Rightarrow> 'r \<Rightarrow> 'r \<times> int res" where
  "Redis_SRem Do key members r =
     (if length members = 0 then (r, Inl (Err ''redis srem members empty''))
      else int_reply (Do r ''srem'' (AStr key # map ABytes members)))"

definition Redis_SIsMember :: "'r server \<Rightarrow> string \<Rightarrow> bytes \<Rightarrow> 'r \<Rightarrow> 'r \<times> bool res" where
  "Redis_SIsMember Do key member r = (case int_reply (Do r ''sismember'' [AStr key, ABytes member]) of
       (r, x) \<Rightarrow> (r, rbind x (\<lambda>n. Inr (n > 0))))"

definition Redis_HGetAll :: "'r server \<Rightarrow> string \<Rightarrow> 'r \<Rightarrow> 'r \<times> bytes list res" where
  "Redis_HGetAll Do key r = (case Do r ''hgetall'' [AStr key] of
       (r, Inl e) \<Rightarrow> (r, Inl e)
     | (r, Inr reply) \<Rightarrow> (r, strict_list reply))"

definition Redis_HVals :: "'r server \<Rightarrow> string \<Rightarrow> 'r \<Rightarrow> 'r \<times> bytes list res" where
  "Redis_HVals Do key r = (case Do r ''hvals'' [AStr key] of
       (r, Inl e) \<Rightarrow> (r, Inl e)
     | (r, Inr reply) \<Rightarrow> (r, strict_list reply))"

definition Redis_HExists :: "'r server \<Rightarrow> string \<Rightarrow> bytes \<Rightarrow> 'r \<Rightarrow> 'r \<times> bool res" where
  "Redis_HExists Do key field r = (case Do r ''hexists'' [AStr key, ABytes field] of
       (r, Inl e) \<Rightarrow> (r, Inl e)
     | (r, Inr reply) \<Rightarrow>
         (if reply \<noteq> RNil then (r, rbind (as_int64 reply) (\<lambda>exists. Inr (exists > 0))) else (r, Inr False)))"

definition Redis_SAdd :: "'r server \<Rightarrow> string \<Rightarrow> int \<Rightarrow> bytes list \<Rightarrow> 'r \<Rightarrow> 'r \<times> unit res" where
  "Redis_SAdd Do key ttl members r =
     (if length members = 0 then (r, Inl (Err ''redis sadd members empty''))
      else case Do r ''sadd'' (AStr key # map ABytes members) of
        (r, Inl e) \<Rightarrow> do_expire Do key ttl (Inl e) r
      | (r, Inr _) \<Rightarrow> do_expire Do key ttl (Inr ()) r)"

definition Redis_Incr :: "'r server \<Rightarrow> string \<Rightarrow> 'r \<Rightarrow> 'r \<times> int res" where
  "Redis_Incr Do key r = int_reply (Do r ''incr'' [AStr key])"

definition Redis_ExpireAt :: "'r server \<Rightarrow> string \<Rightarrow> int \<Rightarrow> 'r \<Rightarrow> 'r \<times> unit res" where
  "Redis_ExpireAt Do key expireAt r = (case Do r ''EXPIREAT'' [AStr key, AInt expireAt] of
       (r, Inl e) \<Rightarrow> (r, Inl e)
     | (r, Inr _) \<Rightarrow> (r, Inr ()))"

definition Redis_SMembers :: "'r server \<Rightarrow> string \<Rightarrow> 'r \<Rightarrow> 'r \<times> bytes list res" where
  "Redis_SMembers Do key r = (case Do r ''smembers'' [AStr key] of
       (r, Inl e) \<Rightarrow> (r, Inl e)
     | (r, Inr reply) \<Rightarrow> (r, strict_list reply))"

definition Redis_ZRem :: "'r server \<Rightarrow> string \<Rightarrow> bytes list \<Rightarrow> 'r \<Rightarrow> 'r \<times> int res" where
  "Redis_ZRem Do key members r =
     (if length members = 0 then (r, Inl (Err ''redis zrem members empty''))
      else int_reply (Do r ''zrem'' (AStr key # map ABytes members)))"

subsection \<open>Operations on a cluster\<close>

record 'r cluster =
  cl_closed :: bool
  cl_server :: 'r

text \<open>
  \<open>Cluster.Do\<close>: a closed cluster answers every command with an error; an error reply of a node is
  handed on as a reply. The moved and ask replies, which the cluster resolves itself, are the
  server's business here.
\<close>

definition cluster_do :: "'r server \<Rightarrow> 'r cluster server" where
  "cluster_do srv c cmd args =
     (if length args < 1 then (c, Inl (Err ''Do: no key found in args''))
      else if cl_closed c then (c, Inl (Err ''Do: getNodeByKey: cluster has been closed''))
      else case srv (cl_server c) cmd args of (r, x) \<Rightarrow> (c\<lparr>cl_server := r\<rparr>, x))"

definition cluster_Close :: "'r cluster \<Rightarrow> 'r cluster" where
  "cluster_Close c = c\<lparr>cl_closed := True\<rparr>"

text \<open>\<open>defer cluster.Close()\<close> around the body of an operation.\<close>

definition with_close :: "'r cluster \<times> 'a res \<Rightarrow> 'r cluster \<times> 'a res" where
  "with_close = (\<lambda>(c, x). (cluster_Close c, x))"

definition Cluster_Get :: "'r server \<Rightarrow> string \<Rightarrow> 'r cluster \<Rightarrow> 'r cluster \<times> bytes res" where
  "Cluster_Get srv key c = with_close (Redis_Get (cluster_do srv) key c)"

definition Cluster_Exists :: "'r server \<Rightarrow> string \<Rightarrow> 'r cluster \<Rightarrow> 'r cluster \<times> bool res" where
  "Cluster_Exists srv key c = with_close (Redis_Exists (cluster_do srv) key c)"

definition Cluster_Set :: "'r server \<Rightarrow> string \<Rightarrow> bytes \<Rightarrow> int \<Rightarrow> 'r cluster \<Rightarrow> 'r cluster \<times> unit res" where
  "Cluster_Set srv key value ttl c = with_close (Redis_Set (cluster_do srv) key value ttl c)"

definition Cluster_Del :: "'r server \<Rightarrow> string \<Rightarrow> 'r cluster \<Rightarrow> 'r cluster \<times> unit res" where
  "Cluster_Del srv key c = with_close (Redis_Del (cluster_do srv) key c)"

text \<open>The checks of empty argument lists return before the deferred call is set up.\<close>

definition Cluster_Dels :: "'r server \<Rightarrow> string list \<Rightarrow> 'r cluster \<Rightarrow> 'r cluster \<times> unit res" where
  "Cluster_Dels srv args c =
     (if length args = 0 then (c, Inl (Err ''redis dels args empty''))
      else with_close (Redis_Dels (cluster_do srv) args c))"

definition Cluster_Keys :: "'r server \<Rightarrow> string \<Rightarrow> 'r cluster \<Rightarrow> 'r cluster \<times> bytes list res" where
  "Cluster_Keys srv keyFormat c = with_close (Redis_Keys (cluster_do srv) keyFormat c)"

definition Cluster_HMSet :: "'r server \<Rightarrow> string \<Rightarrow> int \<Rightarrow> bytes list \<Rightarrow> 'r cluster \<Rightarrow> 'r cluster \<times> unit res" where
  "Cluster_HMSet srv key ttl args c =
     (if length args = 0 then (c, Inl (Err ''redis hmset args empty''))
      else with_close (Redis_HMSet (cluster_do srv) key ttl args c))"

definition Cluster_ZAdd :: "'r server \<Rightarrow> string \<Rightarrow> int \<Rightarrow> bytes list \<Rightarrow> 'r cluster \<Rightarrow> 'r cluster \<times> unit res" where
  "Cluster_ZAdd srv key ttl args c =
     (if length args = 0 then (c, Inl (Err ''redis zadd args empty''))
      else with_close (Redis_ZAdd (cluster_do srv) key ttl args c))"

definition Cluster_HMGet :: "'r server \<Rightarrow> string \<Rightarrow> bytes list \<Rightarrow> 'r cluster \<Rightarrow> 'r cluster \<times> bytes list res" where
  "Cluster_HMGet srv key flds c =
     (if length flds = 0 then (c, Inl (Err ''redis hmget fields empty''))
      else with_close (Redis_HMGet (cluster_do srv) key flds c))"

definition Cluster_ZRange :: "'r server \<Rightarrow> string \<Rightarrow> int \<Rightarrow> int \<Rightarrow> bool \<Rightarrow> 'r cluster \<Rightarrow> 'r cluster \<times> bytes list res" where
  "Cluster_ZRange srv key start stop withScores c = with_close (Redis_ZRange (cluster_do srv) key start stop withScores c)"

definition Cluster_HDel :: "'r server \<Rightarrow> string \<Rightarrow> bytes list \<Rightarrow> 'r cluster \<Rightarrow> 'r cluster \<times> int res" where
  "Cluster_HDel srv key flds c =
     (if length flds = 0 then (c, Inl (Err ''redis hdel fields empty''))
      else with_close (Redis_HDel (cluster_do srv) key flds c))"

definition Cluster_SCard :: "'r server \<Rightarrow> string \<Rightarrow> 'r cluster \<Rightarrow> 'r cluster \<times> int res" where
  "Cluster_SCard srv key c = with_close (Redis_SCard (cluster_do srv) key c)"

definition Cluster_ZRemRangeByScore :: "'r server \<Rightarrow> string \<Rightarrow> int \<Rightarrow> int \<Rightarrow> 'r cluster \<Rightarrow> 'r cluster \<times> int res" where
  "Cluster_ZRemRangeByScore srv key start stop c = with_close (Redis_ZRemRangeByScore (cluster_do srv) key start stop c)"

definition Cluster_SRem :: "'r server \<Rightarrow> string \<Rightarrow> bytes list \<Rightarrow> 'r cluster \<Rightarrow> 'r cluster \<times> int res" where
  "Cluster_SRem srv key members c =
     (if length members = 0 then (c, Inl (Err ''redis srem members empty''))
      else with_close (Redis_SRem (cluster_do srv) key members c))"

definition Cluster_SIsMember :: "'r server \<Rightarrow> string \<Rightarrow> bytes \<Rightarrow> 'r cluster \<Rightarrow> 'r cluster \<times> bool res" where
  "Cluster_SIsMember srv key member c = with_close (Redis_SIsMember (cluster_do srv) key member c)"

definition Cluster_HGetAll :: "'r server \<Rightarrow> string \<Rightarrow> 'r cluster \<Rightarrow> 'r cluster \<times> bytes list res" where
  "Cluster_HGetAll srv key c = with_close (Redis_HGetAll (cluster_do srv) key c)"

definition Cluster_HVals :: "'r server \<Rightarrow> string \<Rightarrow> 'r cluster \<Rightarrow> 'r cluster \<times> bytes list res" where
  "Cluster_HVals srv key c = with_close (Redis_HVals (cluster_do srv) key c)"

definition Cluster_HExists :: "'r server \<Rightarrow> string \<Rightarrow> bytes \<Rightarrow> 'r cluster \<Rightarrow> 'r cluster \<times> bool res" where
  "Cluster_HExists srv key field c = with_close (Redis_HExists (cluster_do srv) key field c)"

definition Cluster_SAdd :: "'r server \<Rightarrow> string \<Rightarrow> int \<Rightarrow> bytes list \<Rightarrow> 'r cluster \<Rightarrow> 'r cluster \<times> unit res" where
  "Cluster_SAdd srv key ttl members c =
     (if length members = 0 then (c, Inl (Err ''redis sadd members empty''))
      else with_close (Redis_SAdd (cluster_do srv) key ttl members c))"

definition Cluster_SMembers :: "'r server \<Rightarrow> string \<Rightarrow> 'r cluster \<Rightarrow> 'r cluster \<times> bytes list res" where
  "Cluster_SMembers srv key c = with_close (Redis_SMembers (cluster_do srv) key c)"

subsection \<open>The package interface\<close>

text \<open>The methods of \<open>Cache\<close> the package functions call through the package variable, which may be nil.\<close>

record 'r Cache =
  c_Set :: "string \<Rightarrow> bytes \<Rightarrow> int \<Rightarrow> 'r \<Rightarrow> 'r \<times> unit res"
  c_Get :: "string \<Rightarrow> 'r \<Rightarrow> 'r \<times> bytes res"
  c_Del :: "string \<Rightarrow> 'r \<Rightarrow> 'r \<times> unit res"
  c_Dels :: "string list \<Rightarrow> 'r \<Rightarrow> 'r \<times> unit res"
  c_Exists :: "string \<Rightarrow> 'r \<Rightarrow> 'r \<times> bool res"
  c_Keys :: "string \<Rightarrow> 'r \<Rightarrow> 'r \<times> bytes list res"
  c_HMSet :: "string \<Rightarrow> int \<Rightarrow> bytes list \<Rightarrow> 'r \<Rightarrow> 'r \<times> unit res"
  c_HMGet :: "string \<Rightarrow> bytes list \<Rightarrow> 'r \<Rightarrow> 'r \<times> bytes list res"
  c_HDel :: "string \<Rightarrow> bytes list \<Rightarrow> 'r \<Rightarrow> 'r \<times> int res"
  c_HGetAll :: "string \<Rightarrow> 'r \<Rightarrow> 'r \<times> bytes list res"
  c_HVals :: "string \<Rightarrow> 'r \<Rightarrow> 'r \<times> bytes list res"
  c_HExists :: "string \<Rightarrow> bytes \<Rightarrow> 'r \<Rightarrow> 'r \<times> bool res"
  c_SAdd :: "string \<Rightarrow> int \<Rightarrow> bytes list \<Rightarrow> 'r \<Rightarrow> 'r \<times> unit res"
  c_SCard :: "string \<Rightarrow> 'r \<Rightarrow> 'r \<times> int res"
  c_SRem :: "string \<Rightarrow> bytes list \<Rightarrow> 'r \<Rightarrow> 'r \<times> int res"
  c_SMembers :: "string \<Rightarrow> 'r \<Rightarrow> 'r \<times> bytes list res"
  c_SIsMember :: "string \<Rightarrow> bytes \<Rightarrow> 'r \<Rightarrow> 'r \<times> bool res"
  c_ZAdd :: "string \<Rightarrow> int \<Rightarrow> bytes list \<Rightarrow> 'r \<Rightarrow> 'r \<times> unit res"
  c_Incr :: "string \<Rightarrow> 'r \<Rightarrow> 'r \<times> int res"
  c_ExpireAt :: "string \<Rightarrow> int \<Rightarrow> 'r \<Rightarrow> 'r \<times> unit res"
  c_ZRange :: "string \<Rightarrow> int \<Rightarrow> int \<Rightarrow> bool \<Rightarrow> 'r \<Rightarrow> 'r \<times> bytes list res"
  c_ZRemRangeByScore :: "string \<Rightarrow> int \<Rightarrow> int \<Rightarrow> 'r \<Rightarrow> 'r \<times> int res"
  c_ZRem :: "string \<Rightarrow> bytes list \<Rightarrow> 'r \<Rightarrow> 'r \<times> int res"

text \<open>\<open>NewCache\<close> installs the pooled implementation.\<close>

definition NewCache :: "'r server \<Rightarrow> 'r Cache" where
  "NewCache srv = (let Do = pool_do srv in
     \<lparr>c_Set = Redis_Set Do, c_Get = Redis_Get Do, c_Del = Redis_Del Do, c_Dels = Redis_Dels Do,
      c_Exists = Redis_Exists Do, c_Keys = Redis_Keys Do, c_HMSet = Redis_HMSet Do, c_HMGet = Redis_HMGet Do,
      c_HDel = Redis_HDel Do, c_HGetAll = Redis_HGetAll Do, c_HVals = Redis_HVals Do, c_HExists = Redis_HExists Do,
      c_SAdd = Redis_SAdd Do, c_SCard = Redis_SCard Do, c_SRem = Redis_SRem Do, c_SMembers = Redis_SMembers Do,
      c_SIsMember = Redis_SIsMember Do, c_ZAdd = Redis_ZAdd Do, c_Incr = Redis_Incr Do, c_ExpireAt = Redis_ExpireAt Do,
      c_ZRange = Redis_ZRange Do, c_ZRemRangeByScore = Redis_ZRemRangeByScore Do, c_ZRem = Redis_ZRem Do\<rparr>)"

text \<open>Each package function \<open>F\<close> is \<open>cache_call c_F\<close>: the method of the installed cache, or a nil panic.\<close>

definition cache_call :: "('r Cache \<Rightarrow> 'r \<Rightarrow> 'r \<times> 'a res) \<Rightarrow> 'r Cache option \<Rightarrow> 'r \<Rightarrow> 'r \<times> 'a res" where
  "cache_call method cache r = (case cache of None \<Rightarrow> (r, Inl (Panic NilDeref)) | Some c \<Rightarrow> method c r)"

definition IsInit :: "'r Cache option \<Rightarrow> bool" where
  "IsInit cache \<longleftrightarrow> cache \<noteq> None"

subsection \<open>What the server promises\<close>

datatype rval = VStr bytes | VHash "bytes \<rightharpoonup> bytes" | VSet "bytes set"

fun hm_update :: "(bytes \<rightharpoonup> bytes) \<Rightarrow> bytes list \<Rightarrow> (bytes \<rightharpoonup> bytes)" where
  "hm_update h (f # v # args) = hm_update (h(f \<mapsto> v)) args"
| "hm_update h _ = h"

definition hash_at :: "rval option \<Rightarrow> (bytes \<rightharpoonup> bytes) option" where
  "hash_at v = (case v of None \<Rightarrow> Some Map.empty | Some (VHash h) \<Rightarrow> Some h | _ \<Rightarrow> None)"

definition set_at :: "rval option \<Rightarrow> bytes set option" where
  "set_at v = (case v of None \<Rightarrow> Some {} | Some (VSet s) \<Rightarrow> Some s | _ \<Rightarrow> None)"

text \<open>
  The documented effect and reply of the commands, on the content \<open>db\<close> of the server: \<open>set\<close>,
  \<open>expire\<close> with a positive time, \<open>get\<close>, \<open>del\<close>, \<open>exists\<close>, \<open>hmset\<close>, \<open>hmget\<close>, \<open>sadd\<close>, \<open>sismember\<close>. They are those of a server
  that is up, over a time in which no key runs out: what a client sees when a key has expired is a separate step (\<open>pause_law\<close> of \<open>Matrix_Feed\<close>).
\<close>

definition redis_strings :: "'r server \<Rightarrow> ('r \<Rightarrow> string \<rightharpoonup> rval) \<Rightarrow> bool" where
  "redis_strings srv db \<longleftrightarrow> (\<forall>r k v t.
     (\<exists>r'. srv r ''set'' [AStr k, ABytes v] = (r', Inr (RStatus ''OK'')) \<and> db r' = (db r)(k \<mapsto> VStr v))
     \<and> (0 < t \<longrightarrow> (\<exists>r' n. srv r ''expire'' [AStr k, AInt t] = (r', Inr (RInt n)) \<and> db r' = db r))
     \<and> (\<exists>r'. srv r ''get'' [AStr k] = (r', Inr (case db r k of None \<Rightarrow> RNil | Some (VStr b) \<Rightarrow> RBytes b
            | Some _ \<Rightarrow> RError ''WRONGTYPE Operation against a key holding the wrong kind of value'')) \<and> db r' = db r)
     \<and> (\<exists>r'. srv r ''exists'' [AStr k] = (r', Inr (RInt (if k \<in> dom (db r) then 1 else 0))) \<and> db r' = db r))
   \<and> (\<forall>r ks. ks \<noteq> [] \<longrightarrow> (\<exists>r' n. srv r ''del'' (map AStr ks) = (r', Inr (RInt n)) \<and> db r' = (db r) |` (- set ks)))"

definition redis_hashes :: "'r server \<Rightarrow> ('r \<Rightarrow> string \<rightharpoonup> rval) \<Rightarrow> bool" where
  "redis_hashes srv db \<longleftrightarrow> (\<forall>r k h. hash_at (db r k) = Some h \<longrightarrow>
     (\<forall>args. args \<noteq> [] \<longrightarrow> even (length args) \<longrightarrow>
        (\<exists>r'. srv r ''hmset'' (AStr k # map ABytes args) = (r', Inr (RStatus ''OK''))
           \<and> db r' = (db r)(k \<mapsto> VHash (hm_update h args))))
     \<and> (\<forall>fs. fs \<noteq> [] \<longrightarrow>
        (\<exists>r'. srv r ''hmget'' (AStr k # map ABytes fs) =
           (r', Inr (RArr (map (\<lambda>f. case h f of None \<Rightarrow> RNil | Some v \<Rightarrow> RBytes v) fs))) \<and> db r' = db r)))"

definition redis_sets :: "'r server \<Rightarrow> ('r \<Rightarrow> string \<rightharpoonup> rval) \<Rightarrow> bool" where
  "redis_sets srv db \<longleftrightarrow> (\<forall>r k s. set_at (db r k) = Some s \<longrightarrow>
     (\<forall>ms. ms \<noteq> [] \<longrightarrow>
        (\<exists>r' n. srv r ''sadd'' (AStr k # map ABytes ms) = (r', Inr (RInt n)) \<and> db r' = (db r)(k \<mapsto> VSet (s \<union> set ms))))
     \<and> (\<forall>m. \<exists>r'. srv r ''sismember'' [AStr k, ABytes m] = (r', Inr (RInt (if m \<in> s then 1 else 0))) \<and> db r' = db r))"

definition redis_spec :: "'r server \<Rightarrow> ('r \<Rightarrow> string \<rightharpoonup> rval) \<Rightarrow> bool" where
  "redis_spec srv db \<longleftrightarrow> redis_strings srv db \<and> redis_hashes srv db \<and> redis_sets srv db"

text \<open>A server in memory that keeps these promises.\<close>

definition arg_str :: "arg \<Rightarrow> string" where
  "arg_str a = (case a of AStr s \<Rightarrow> s | _ \<Rightarrow> [])"

definition arg_bytes :: "arg \<Rightarrow> bytes" where
  "arg_bytes a = (case a of ABytes b \<Rightarrow> b | _ \<Rightarrow> [])"

definition mem_redis :: "(string \<rightharpoonup> rval) server" where
  "mem_redis db cmd args = (let k = arg_str (hd args) in
     if cmd = ''set'' then (db(k \<mapsto> VStr (arg_bytes (args ! 1))), Inr (RStatus ''OK''))
     else if cmd = ''expire'' then (db, Inr (RInt 1))
     else if cmd = ''get'' then (db, Inr (case db k of None \<Rightarrow> RNil | Some (VStr b) \<Rightarrow> RBytes b
            | Some _ \<Rightarrow> RError ''WRONGTYPE Operation against a key holding the wrong kind of value''))
     else if cmd = ''exists'' then (db, Inr (RInt (if db k \<noteq> None then 1 else 0)))
     else if cmd = ''del'' then (db |` (- set (map arg_str args)), Inr (RInt 1))
     else if cmd = ''hmset'' then (case hash_at (db k) of
         None \<Rightarrow> (db, Inr (RError ''WRONGTYPE''))
       | Some h \<Rightarrow> (db(k \<mapsto> VHash (hm_update h (map arg_bytes (tl args)))), Inr (RStatus ''OK'')))
     else if cmd = ''hmget'' then (case hash_at (db k) of
         None \<Rightarrow> (db, Inr (RError ''WRONGTYPE''))
       | Some h \<Rightarrow> (db, Inr (RArr (map (\<lambda>f. case h f of None \<Rightarrow> RNil | Some v \<Rightarrow> RBytes v) (map arg_bytes (tl args))))))
     else if cmd = ''sadd'' then (case set_at (db k) of
         None \<Rightarrow> (db, Inr (RError ''WRONGTYPE''))
       | Some s \<Rightarrow> (db(k \<mapsto> VSet (s \<union> set (map arg_bytes (tl args)))), Inr (RInt 1)))
     else if cmd = ''sismember'' then (case set_at (db k) of
         None \<Rightarrow> (db, Inr (RError ''WRONGTYPE''))
       | Some s \<Rightarrow> (db, Inr (RInt (if arg_bytes (args ! 1) \<in> s then 1 else 0))))
     else (db, Inl (Err ''ERR unknown command'')))"

lemma arg_simps [simp]: "arg_str (AStr k) = k" "arg_bytes (ABytes b) = b"
  "map (arg_str \<circ> AStr) ks = ks" "map (arg_bytes \<circ> ABytes) bs = bs"
  by (simp_all add: arg_str_def arg_bytes_def comp_def)

lemma mem_redis_spec: "redis_spec mem_redis (\<lambda>db. db)"
  by (auto simp: redis_spec_def redis_strings_def redis_hashes_def redis_sets_def mem_redis_def Let_def domIff
      comp_def arg_str_def arg_bytes_def)

subsection \<open>Properties of the pooled cache\<close>

definition get_reply :: "rval option \<Rightarrow> string \<Rightarrow> bytes res" where
  "get_reply v key = (case v of
       None \<Rightarrow> Inl (Err (''no this key:'' @ key))
     | Some (VStr b) \<Rightarrow> Inr b
     | Some _ \<Rightarrow> Inl (Err ''WRONGTYPE Operation against a key holding the wrong kind of value''))"

lemma Redis_Get_db:
  assumes "redis_strings srv db"
  shows "snd (Redis_Get (pool_do srv) key r) = get_reply (db r key) key"
proof -
  obtain r' where "srv r ''get'' [AStr key] = (r', Inr (case db r key of None \<Rightarrow> RNil | Some (VStr b) \<Rightarrow> RBytes b
      | Some _ \<Rightarrow> RError ''WRONGTYPE Operation against a key holding the wrong kind of value''))"
    using assms unfolding redis_strings_def by blast
  then show ?thesis
    by (cases "db r key") (auto simp: Redis_Get_def pool_do_def get_reply_def split: rval.splits)
qed

lemma do_expire_db:
  assumes "redis_strings srv db" "do_expire (pool_do srv) key ttl x r = (r', y)"
  shows "y = x \<and> db r' = db r"
proof (cases "0 < ttl")
  case True
  then obtain r1 n where "srv r ''expire'' [AStr key, AInt ttl] = (r1, Inr (RInt n))" "db r1 = db r"
    using assms(1) unfolding redis_strings_def by blast
  then show ?thesis using assms(2) True by (simp add: do_expire_def pool_do_def)
qed (use assms(2) in \<open>simp add: do_expire_def\<close>)

lemma Redis_Set_db:
  assumes "redis_strings srv db" "Redis_Set (pool_do srv) key value ttl r = (r', x)"
  shows "x = Inr () \<and> db r' = (db r)(key \<mapsto> VStr value)"
proof -
  obtain r1 where "srv r ''set'' [AStr key, ABytes value] = (r1, Inr (RStatus ''OK''))" "db r1 = (db r)(key \<mapsto> VStr value)"
    using assms(1) unfolding redis_strings_def by blast
  then show ?thesis
    using assms(2) do_expire_db [OF assms(1), of key ttl "Inr ()" r1 r' x] by (simp add: Redis_Set_def pool_do_def)
qed

text \<open>A value set in the cache is the value read back under its key, whatever its time to live,
  and what is read under every other key stays as it was.\<close>

theorem cache_set_get:
  assumes "redis_spec srv db" "Redis_Set (pool_do srv) key value ttl r = (r', x)"
  shows "x = Inr () \<and> snd (Redis_Get (pool_do srv) key' r')
    = (if key' = key then Inr value else snd (Redis_Get (pool_do srv) key' r))"
proof -
  have s: "redis_strings srv db" using assms(1) by (simp add: redis_spec_def)
  show ?thesis
    using Redis_Set_db [OF s assms(2)] by (simp add: Redis_Get_db [OF s]) (simp add: get_reply_def)
qed

theorem cache_set_get_witness:
  "snd (Redis_Get (pool_do mem_redis) ''k'' (fst (Redis_Set (pool_do mem_redis) ''k'' [1, 2] 60 Map.empty))) = Inr [1, 2]"
  using cache_set_get [OF mem_redis_spec surjective_pairing, of "''k''" "[1, 2]" 60 Map.empty "''k''"] by simp

text \<open>Deleting a non-empty list of keys makes exactly these keys absent.\<close>

theorem cache_dels_get:
  assumes "redis_spec srv db" "Redis_Dels (pool_do srv) keys r = (r', x)" "keys \<noteq> []"
  shows "x = Inr () \<and> snd (Redis_Get (pool_do srv) key' r')
    = (if key' \<in> set keys then Inl (Err (''no this key:'' @ key')) else snd (Redis_Get (pool_do srv) key' r))"
proof -
  have s: "redis_strings srv db" using assms(1) by (simp add: redis_spec_def)
  obtain r1 n where "srv r ''del'' (map AStr keys) = (r1, Inr (RInt n))" "db r1 = (db r) |` (- set keys)"
    using s assms(3) unfolding redis_strings_def by blast
  then have "x = Inr ()" "db r' = (db r) |` (- set keys)"
    using assms(2,3) by (auto simp: Redis_Dels_def pool_do_def)
  then show ?thesis by (simp add: Redis_Get_db [OF s] get_reply_def)
qed

theorem cache_dels_get_witness:
  "snd (Redis_Get (pool_do mem_redis) ''k'' (fst (Redis_Dels (pool_do mem_redis) [''j'', ''k''] [''k'' \<mapsto> VStr [1]])))
    = Inl (Err ''no this key:k'')"
  using cache_dels_get [OF mem_redis_spec surjective_pairing, of "[''j'', ''k'']" "[''k'' \<mapsto> VStr [1]]" "''k''"] by simp

lemma lenient_list_map:
  "lenient_list (RArr (map (\<lambda>f. case h f of None \<Rightarrow> RNil | Some v \<Rightarrow> RBytes v) fs))
    = Inr (map (\<lambda>f. case h f of None \<Rightarrow> [] | Some v \<Rightarrow> v) fs)"
  by (induction fs) (auto simp: lenient_list_def split: option.splits)

text \<open>Reading fields of a hash returns, in the order asked for, the last value set for each
  field, and an empty value for a field that was never set.\<close>

theorem cache_hmset_hmget:
  assumes "redis_spec srv db" "hash_at (db r key) = Some h" "args \<noteq> []" "even (length args)" "flds \<noteq> []"
    "Redis_HMSet (pool_do srv) key ttl args r = (r', x)"
  shows "x = Inr () \<and> snd (Redis_HMGet (pool_do srv) key flds r')
    = Inr (map (\<lambda>f. case hm_update h args f of None \<Rightarrow> [] | Some v \<Rightarrow> v) flds)"
proof -
  have s: "redis_strings srv db" "redis_hashes srv db" using assms(1) by (simp_all add: redis_spec_def)
  obtain r1 where 1: "srv r ''hmset'' (AStr key # map ABytes args) = (r1, Inr (RStatus ''OK''))"
    "db r1 = (db r)(key \<mapsto> VHash (hm_update h args))"
    using s(2) assms(2,3,4) unfolding redis_hashes_def by metis
  have 2: "x = Inr () \<and> db r' = db r1"
    using assms(3,4,6) 1 do_expire_db [OF s(1), of key ttl "Inr ()" r1 r' x]
    by (auto simp: Redis_HMSet_def pool_do_def even_iff_mod_2_eq_zero)
  then have "hash_at (db r' key) = Some (hm_update h args)" using 1 by (simp add: hash_at_def)
  then obtain r2 where "srv r' ''hmget'' (AStr key # map ABytes flds) =
     (r2, Inr (RArr (map (\<lambda>f. case hm_update h args f of None \<Rightarrow> RNil | Some v \<Rightarrow> RBytes v) flds)))"
    using s(2) assms(5) unfolding redis_hashes_def by metis
  then show ?thesis using 2 assms(5) by (simp add: Redis_HMGet_def pool_do_def lenient_list_map)
qed

theorem cache_hmset_hmget_witness:
  "snd (Redis_HMGet (pool_do mem_redis) ''h'' [[3], [1]] (fst (Redis_HMSet (pool_do mem_redis) ''h'' 0 [[1], [7], [2], [8], [1], [9]] Map.empty)))
    = Inr [[], [9]]"
  using cache_hmset_hmget [OF mem_redis_spec _ _ _ _ surjective_pairing,
      of Map.empty "''h''" Map.empty "[[1], [7], [2], [8], [1], [9]]" "[[3], [1]]" 0]
  by (simp add: hash_at_def)

text \<open>After members were added to a set, exactly these and the former ones are its members.\<close>

theorem cache_sadd_sismember:
  assumes "redis_spec srv db" "set_at (db r key) = Some s" "members \<noteq> []"
    "Redis_SAdd (pool_do srv) key ttl members r = (r', x)"
  shows "x = Inr () \<and> snd (Redis_SIsMember (pool_do srv) key m r') = Inr (m \<in> s \<or> m \<in> set members)"
proof -
  have l: "redis_strings srv db" "redis_sets srv db" using assms(1) by (simp_all add: redis_spec_def)
  obtain r1 n where 1: "srv r ''sadd'' (AStr key # map ABytes members) = (r1, Inr (RInt n))"
    "db r1 = (db r)(key \<mapsto> VSet (s \<union> set members))"
    using l(2) assms(2,3) unfolding redis_sets_def by metis
  have 2: "x = Inr () \<and> db r' = db r1"
    using assms(3,4) 1 do_expire_db [OF l(1), of key ttl "Inr ()" r1 r' x] by (simp add: Redis_SAdd_def pool_do_def)
  then have "set_at (db r' key) = Some (s \<union> set members)" using 1 by (simp add: set_at_def)
  then obtain r2 where "srv r' ''sismember'' [AStr key, ABytes m] = (r2, Inr (RInt (if m \<in> s \<union> set members then 1 else 0)))"
    using l(2) unfolding redis_sets_def by metis
  then show ?thesis using 2 by (auto simp: Redis_SIsMember_def int_reply_def pool_do_def)
qed

theorem cache_sadd_sismember_witness:
  "snd (Redis_SIsMember (pool_do mem_redis) ''s'' [2] (fst (Redis_SAdd (pool_do mem_redis) ''s'' 0 [[1], [2]] Map.empty))) = Inr True"
  using cache_sadd_sismember [OF mem_redis_spec _ _ surjective_pairing, of Map.empty "''s''" "{}" "[[1], [2]]" 0 "[2]"]
  by (simp add: set_at_def)

subsection \<open>Properties of the cluster cache\<close>

lemma closed_do: "cl_closed c \<Longrightarrow> args \<noteq> [] \<Longrightarrow>
    cluster_do srv c cmd args = (c, Inl (Err ''Do: getNodeByKey: cluster has been closed''))"
  by (cases args) (simp_all add: cluster_do_def)

text \<open>The cluster object serves one operation only: after any call of \<open>Get\<close> or \<open>Set\<close>, each
  further \<open>Get\<close> or \<open>Set\<close> returns the error of a closed cluster and leaves the server as it is.\<close>

theorem cluster_serves_once:
  assumes "c' = fst (Cluster_Set srv key0 value0 ttl0 c) \<or> c' = fst (Cluster_Get srv key0 c)"
  shows "snd (Cluster_Get srv key c') = Inl (Err ''Do: getNodeByKey: cluster has been closed'')
    \<and> snd (Cluster_Set srv key value ttl c') = Inl (Err ''Do: getNodeByKey: cluster has been closed'')
    \<and> cl_server (fst (Cluster_Set srv key value ttl c')) = cl_server c'"
proof -
  have "cl_closed c'"
    using assms by (auto simp: Cluster_Set_def Cluster_Get_def with_close_def cluster_Close_def split: prod.splits)
  then show ?thesis
    by (simp add: Cluster_Get_def Cluster_Set_def Redis_Get_def Redis_Set_def closed_do with_close_def cluster_Close_def)
qed

theorem cluster_serves_once_witness:
  "snd (Cluster_Get mem_redis ''k'' (fst (Cluster_Set mem_redis ''k'' [1] 0 \<lparr>cl_closed = False, cl_server = Map.empty\<rparr>)))
    = Inl (Err ''Do: getNodeByKey: cluster has been closed'')"
  using cluster_serves_once [of "fst (Cluster_Set mem_redis ''k'' [1] 0 \<lparr>cl_closed = False, cl_server = Map.empty\<rparr>)"] by blast

text \<open>The first operation of a cluster agrees with the pool unless the server's reply is an error, on
  which the type assertion of the cluster's code panics.\<close>

theorem cluster_first_get:
  assumes "\<not> cl_closed c"
  shows "snd (Cluster_Get srv key c) = (case snd (srv (cl_server c) ''get'' [AStr key]) of
      Inr (RError msg) \<Rightarrow> Inl (Panic BadTypeAssertion)
    | _ \<Rightarrow> snd (Redis_Get (pool_do srv) key (cl_server c)))"
  using assms
  by (cases "srv (cl_server c) ''get'' [AStr key]")
    (auto simp: Cluster_Get_def Redis_Get_def cluster_do_def pool_do_def with_close_def split: sum.splits reply.splits)

end
