(* ===== verification/Event_Bus.thy ===== *)
theory Event_Bus
  imports Contract_Conv
begin

section \<open>The event emitter (\<open>eventemitter\<close>)\<close>

text \<open>
  The table of watchers, the run of one \<open>Emit\<close> with its goroutines and wait group as a step relation,
  and the serial watcher with its channel. A watcher is a pointer, here a number; whether it is
  concurrent is a function of it. \<open>Emit\<close> reads the list of watchers once, without the mutex.
\<close>

subsection \<open>Watchers\<close>

type_synonym watchers = "string \<rightharpoonup> nat list"

definition watchers_of :: "watchers \<Rightarrow> string \<Rightarrow> nat list" where
  "watchers_of ws topic = (case ws topic of None \<Rightarrow> [] | Some l \<Rightarrow> l)"

definition emitter_Un :: "string \<Rightarrow> nat \<Rightarrow> watchers \<Rightarrow> watchers" where
  "emitter_Un topic watcher ws = ws(topic \<mapsto> filter (\<lambda>w. w \<noteq> watcher) (watchers_of ws topic))"

definition emitter_On :: "string \<Rightarrow> nat \<Rightarrow> watchers \<Rightarrow> watchers" where
  "emitter_On topic watcher ws =
     (let ws = (if ws topic = None then ws(topic \<mapsto> []) else ws)
      in ws(topic \<mapsto> watchers_of ws topic @ [watcher]))"

subsection \<open>One emission\<close>

text \<open>
  \<open>em_todo\<close> are the watchers the loop has not reached, \<open>em_running\<close> the goroutines started and not
  ended, \<open>em_done\<close> those that have run their handler; \<open>em_wg\<close> is the wait group's counter.
\<close>

record emission =
  em_todo :: "nat list"
  em_running :: "nat multiset"
  em_done :: "nat multiset"
  em_wg :: int
  em_returned :: bool

definition Emit_start :: "watchers \<Rightarrow> string \<Rightarrow> emission" where
  "Emit_start ws topic = \<lparr>em_todo = watchers_of ws topic, em_running = {#}, em_done = {#}, em_wg = 0, em_returned = False\<rparr>"

inductive Emit_step :: "(nat \<Rightarrow> bool) \<Rightarrow> emission \<Rightarrow> emission \<Rightarrow> bool" for Concurrent where
  go_concurrent: "em_todo s = ob # obs \<Longrightarrow> Concurrent ob \<Longrightarrow>
     Emit_step Concurrent s (s\<lparr>em_todo := obs, em_running := add_mset ob (em_running s)\<rparr>)"
| go_serial: "em_todo s = ob # obs \<Longrightarrow> \<not> Concurrent ob \<Longrightarrow>
     Emit_step Concurrent s (s\<lparr>em_todo := obs, em_wg := em_wg s + 1, em_running := add_mset ob (em_running s)\<rparr>)"
| handled: "ob \<in># em_running s \<Longrightarrow>
     Emit_step Concurrent s (s\<lparr>em_running := em_running s - {#ob#}, em_done := add_mset ob (em_done s),
       em_wg := (if Concurrent ob then em_wg s else em_wg s - 1)\<rparr>)"
| wait: "em_todo s = [] \<Longrightarrow> em_wg s = 0 \<Longrightarrow> \<not> em_returned s \<Longrightarrow>
     Emit_step Concurrent s (s\<lparr>em_returned := True\<rparr>)"

definition emit_inv :: "(nat \<Rightarrow> bool) \<Rightarrow> nat list \<Rightarrow> emission \<Rightarrow> bool" where
  "emit_inv Concurrent obs s \<longleftrightarrow>
     mset obs = mset (em_todo s) + em_running s + em_done s
     \<and> em_wg s = int (size (filter_mset (\<lambda>w. \<not> Concurrent w) (em_running s)))
     \<and> (em_returned s \<longrightarrow> em_todo s = [] \<and> em_wg s = 0)"

lemma emit_step_inv: "Emit_step C s s' \<Longrightarrow> emit_inv C obs s \<Longrightarrow> emit_inv C obs s'"
proof (induction rule: Emit_step.induct)
  case (handled ob s)
  then obtain R where R: "em_running s = add_mset ob R" by (metis insert_DiffM)
  then show ?case using handled by (cases "C ob") (auto simp: emit_inv_def)
qed (auto simp: emit_inv_def)

interpretation emission: transition_system "\<lambda>s. s = Emit_start ws topic" "Emit_step C" "emit_inv C (watchers_of ws topic)"
  for ws topic C
proof unfold_locales
  fix s
  assume "s = Emit_start ws topic"
  then show "emit_inv C (watchers_of ws topic) s" by (simp add: emit_inv_def Emit_start_def)
next
  fix s s'
  assume "Emit_step C s s'" "emit_inv C (watchers_of ws topic) s"
  then show "emit_inv C (watchers_of ws topic) s'" by (rule emit_step_inv)
qed

text \<open>Claim C37: when an emission returns, the handler of each serial watcher of the topic has run, once
  for each of its registrations, and no watcher of another topic has run.\<close>

theorem Emit_waits_for_serial:
  assumes "(Emit_step Concurrent)\<^sup>*\<^sup>* (Emit_start ws topic) s" "em_returned s"
  shows "filter_mset (\<lambda>w. \<not> Concurrent w) (em_done s) = filter_mset (\<lambda>w. \<not> Concurrent w) (mset (watchers_of ws topic))
    \<and> em_done s \<subseteq># mset (watchers_of ws topic)"
proof -
  have i: "emit_inv Concurrent (watchers_of ws topic) s" using emission.reachable_inv [OF assms(1)] by simp
  then have "size (filter_mset (\<lambda>w. \<not> Concurrent w) (em_running s)) = 0" using assms(2) by (auto simp: emit_inv_def)
  then have "filter_mset (\<lambda>w. \<not> Concurrent w) (em_running s) = {#}" by (simp only: size_eq_0_iff_empty)
  then show ?thesis using i assms(2) by (simp add: emit_inv_def)
qed

definition demo_watchers :: watchers where
  "demo_watchers = emitter_On ''t'' 2 (emitter_On ''t'' 1 Map.empty)"

text \<open>Progress: an emission whose handlers all end can return.\<close>

lemma Emit_can_finish:
  "\<exists>s. (Emit_step C)\<^sup>*\<^sup>* \<lparr>em_todo = obs, em_running = {#}, em_done = D, em_wg = 0, em_returned = False\<rparr> s
     \<and> em_returned s \<and> em_done s = D + mset obs"
proof (induction obs arbitrary: D)
  case Nil
  have "Emit_step C \<lparr>em_todo = [], em_running = {#}, em_done = D, em_wg = 0, em_returned = False\<rparr>
     \<lparr>em_todo = [], em_running = {#}, em_done = D, em_wg = 0, em_returned = True\<rparr>"
    using Emit_step.wait [of "\<lparr>em_todo = [], em_running = {#}, em_done = D, em_wg = 0, em_returned = False\<rparr>" C] by simp
  then show ?case by (intro exI conjI, rule r_into_rtranclp) simp_all
next
  case (Cons ob obs)
  let ?s0 = "\<lparr>em_todo = ob # obs, em_running = {#}, em_done = D, em_wg = 0, em_returned = False\<rparr>"
  let ?s1 = "\<lparr>em_todo = obs, em_running = {#ob#}, em_done = D, em_wg = (if C ob then 0 else 1), em_returned = False\<rparr>"
  let ?s2 = "\<lparr>em_todo = obs, em_running = {#}, em_done = add_mset ob D, em_wg = 0, em_returned = False\<rparr>"
  have "Emit_step C ?s0 ?s1"
    using Emit_step.go_concurrent [of ?s0 ob obs C] Emit_step.go_serial [of ?s0 ob obs C] by simp
  moreover have "Emit_step C ?s1 ?s2" using Emit_step.handled [of ob ?s1 C] by (simp split: if_splits)
  ultimately have "(Emit_step C)\<^sup>*\<^sup>* ?s0 ?s2" by (meson converse_rtranclp_into_rtranclp rtranclp.rtrancl_refl)
  then show ?case using Cons.IH [of "add_mset ob D"] by (auto intro: rtranclp_trans)
qed

theorem Emit_waits_for_serial_witness:
  "\<exists>s :: emission. em_returned s \<and> em_done s \<subseteq># mset (watchers_of demo_watchers ''t'')
     \<and> filter_mset (\<lambda>w. \<not> w = 1) (em_done s) = {#2#}"
proof -
  obtain s where s: "(Emit_step (\<lambda>w. w = 1))\<^sup>*\<^sup>* (Emit_start demo_watchers ''t'') s" "em_returned s"
    using Emit_can_finish [of "\<lambda>w. w = 1" "watchers_of demo_watchers ''t''" "{#}"] by (auto simp: Emit_start_def)
  from Emit_waits_for_serial [OF this] s(2) show ?thesis
    by (intro exI [of _ s]) (simp add: demo_watchers_def emitter_On_def watchers_of_def)
qed

text \<open>Registering a new watcher and removing it again leaves the watchers of each topic as they were, in
  their order.\<close>

lemma On_Un:
  assumes "watcher \<notin> set (watchers_of ws topic)"
  shows "watchers_of (emitter_Un topic watcher (emitter_On topic watcher ws)) t = watchers_of ws t
    \<and> watchers_of (emitter_On topic watcher ws) topic = watchers_of ws topic @ [watcher]"
proof -
  have "filter (\<lambda>w. w \<noteq> watcher) (watchers_of ws topic) = watchers_of ws topic"
    using assms by (auto simp: filter_id_conv)
  then show ?thesis by (auto simp: emitter_On_def emitter_Un_def watchers_of_def Let_def split: option.splits)
qed

subsection \<open>The serial watcher\<close>

text \<open>
  \<open>NewSerialWatcher\<close> starts a goroutine that receives from an unbuffered channel and calls the handler;
  its watcher sends on the channel. The state holds the senders that wait, whether the channel is closed
  and the values the handler has been called with; \<open>None\<close> is the nil a closed channel yields.
\<close>

record 'e serial_watcher =
  sw_id :: nat
  sw_sending :: "'e list"
  sw_closed :: bool
  sw_handled :: "'e option list"
  sw_panicked :: bool

definition NewSerialWatcher :: "string \<Rightarrow> nat \<Rightarrow> watchers \<Rightarrow> 'e serial_watcher \<times> watchers" where
  "NewSerialWatcher topic watcher ws =
     (\<lparr>sw_id = watcher, sw_sending = [], sw_closed = False, sw_handled = [], sw_panicked = False\<rparr>,
      emitter_On topic watcher ws)"

text \<open>A send on a closed channel panics, and closing it makes the waiting senders panic.\<close>

inductive serial_step :: "'e serial_watcher \<Rightarrow> 'e serial_watcher \<Rightarrow> bool" where
  sw_send: "\<not> sw_closed s \<Longrightarrow> serial_step s (s\<lparr>sw_sending := sw_sending s @ [x]\<rparr>)"
| sw_send_closed: "sw_closed s \<Longrightarrow> serial_step s (s\<lparr>sw_panicked := True\<rparr>)"
| sw_receive: "\<not> sw_closed s \<Longrightarrow> sw_sending s = x # xs \<Longrightarrow>
     serial_step s (s\<lparr>sw_sending := xs, sw_handled := sw_handled s @ [Some x]\<rparr>)"
| sw_receive_closed: "sw_closed s \<Longrightarrow> serial_step s (s\<lparr>sw_handled := sw_handled s @ [None]\<rparr>)"

definition serial_stop :: "string \<Rightarrow> 'e serial_watcher \<Rightarrow> watchers \<Rightarrow> 'e serial_watcher \<times> watchers" where
  "serial_stop topic s ws =
     (s\<lparr>sw_closed := True, sw_sending := [], sw_panicked := (sw_panicked s \<or> sw_sending s \<noteq> [])\<rparr>,
      emitter_Un topic (sw_id s) ws)"

text \<open>While the watcher is not stopped its handler is only called with events, and stopping it does not
  end the goroutine: it calls the handler with nil without end.\<close>

lemma serial_handles_events:
  "serial_step\<^sup>*\<^sup>* s s' \<Longrightarrow> \<not> sw_closed s \<Longrightarrow> None \<notin> set (sw_handled s) \<Longrightarrow>
     \<not> sw_closed s' \<and> None \<notin> set (sw_handled s')"
  by (induction rule: rtranclp_induct) (auto elim: serial_step.cases)

lemma serial_closed_stays: "serial_step\<^sup>*\<^sup>* s s' \<Longrightarrow> sw_closed s \<Longrightarrow> sw_closed s'"
  by (induction rule: rtranclp_induct) (auto elim: serial_step.cases)

lemma stopped_watcher_handles_nil:
  "\<exists>s'. serial_step\<^sup>*\<^sup>* (fst (serial_stop topic s ws)) s' \<and> sw_handled s' = sw_handled s @ replicate n None"
proof (induction n)
  case 0
  show ?case by (intro exI [of _ "fst (serial_stop topic s ws)"]) (simp add: serial_stop_def)
next
  case (Suc n)
  then obtain s' where s': "serial_step\<^sup>*\<^sup>* (fst (serial_stop topic s ws)) s'" "sw_handled s' = sw_handled s @ replicate n None"
    by auto
  have "sw_closed s'" using serial_closed_stays [OF s'(1)] by (simp add: serial_stop_def)
  then have "serial_step s' (s'\<lparr>sw_handled := sw_handled s' @ [None]\<rparr>)" by (rule sw_receive_closed)
  then have "serial_step\<^sup>*\<^sup>* (fst (serial_stop topic s ws)) (s'\<lparr>sw_handled := sw_handled s' @ [None]\<rparr>)"
    using s'(1) by (rule rtranclp.rtrancl_into_rtrancl [rotated])
  then show ?case using s'(2)
    by (intro exI [of _ "s'\<lparr>sw_handled := sw_handled s' @ [None]\<rparr>"]) (simp add: replicate_append_same)
qed


subsection \<open>The unbounded channel (\<open>utils/unbounded_channel.go\<close>)\<close>

text \<open>
  The goroutine of \<open>MakeInfinite\<close> between the two unbuffered channels: \<open>uc_in\<close> is whether its variable
  \<open>in\<close> is still a channel, \<open>uc_closed\<close> whether the sender has closed it, \<open>uc_sent\<close> and \<open>uc_received\<close> what
  the sender has sent and the receiver got so far.
\<close>

record 'v infinite =
  uc_in :: bool
  uc_closed :: bool
  uc_sent :: "'v list"
  uc_buffer :: "'v list"
  uc_received :: "'v list"
  uc_ended :: bool

definition MakeInfinite :: "'v infinite" where
  "MakeInfinite = \<lparr>uc_in = True, uc_closed = False, uc_sent = [], uc_buffer = [], uc_received = [], uc_ended = False\<rparr>"

definition infinite_loops :: "'v infinite \<Rightarrow> bool" where
  "infinite_loops s \<longleftrightarrow> \<not> uc_ended s \<and> (uc_buffer s \<noteq> [] \<or> uc_in s)"

inductive infinite_step :: "'v infinite \<Rightarrow> 'v infinite \<Rightarrow> bool" where
  uc_close: "\<not> uc_closed s \<Longrightarrow> infinite_step s (s\<lparr>uc_closed := True\<rparr>)"
| uc_take: "infinite_loops s \<Longrightarrow> uc_in s \<Longrightarrow> \<not> uc_closed s \<Longrightarrow>
     infinite_step s (s\<lparr>uc_sent := uc_sent s @ [v], uc_buffer := uc_buffer s @ [v]\<rparr>)"
| uc_take_closed: "infinite_loops s \<Longrightarrow> uc_in s \<Longrightarrow> uc_closed s \<Longrightarrow> infinite_step s (s\<lparr>uc_in := False\<rparr>)"
| uc_give: "infinite_loops s \<Longrightarrow> uc_buffer s = v # vs \<Longrightarrow>
     infinite_step s (s\<lparr>uc_buffer := vs, uc_received := uc_received s @ [v]\<rparr>)"
| uc_end: "\<not> uc_ended s \<Longrightarrow> uc_buffer s = [] \<Longrightarrow> \<not> uc_in s \<Longrightarrow> infinite_step s (s\<lparr>uc_ended := True\<rparr>)"

definition infinite_inv :: "'v infinite \<Rightarrow> bool" where
  "infinite_inv s \<longleftrightarrow> uc_sent s = uc_received s @ uc_buffer s
     \<and> (uc_ended s \<longrightarrow> uc_buffer s = [] \<and> uc_closed s) \<and> (\<not> uc_in s \<longrightarrow> uc_closed s)"

interpretation infinite_sys: transition_system "\<lambda>s. s = MakeInfinite" infinite_step infinite_inv
proof unfold_locales
  fix s :: "'v infinite"
  assume "s = MakeInfinite"
  then show "infinite_inv s" by (simp add: infinite_inv_def MakeInfinite_def)
next
  fix s s' :: "'v infinite"
  assume "infinite_inv s" "infinite_step s s'"
  then show "infinite_inv s'" by (auto simp: infinite_inv_def infinite_loops_def elim: infinite_step.cases)
qed

text \<open>The unbounded channel loses, doubles and reorders nothing: what the receiver has got is a
  prefix of what was sent and the rest waits in the buffer; the goroutine ends only after the channel was
  closed and everything was received.\<close>

theorem infinite_fifo:
  assumes "infinite_step\<^sup>*\<^sup>* MakeInfinite s"
  shows "uc_sent s = uc_received s @ uc_buffer s
    \<and> (uc_ended s \<longrightarrow> uc_closed s \<and> uc_received s = uc_sent s)"
  using infinite_sys.reachable_inv [OF assms] by (auto simp: infinite_inv_def)

text \<open>A receiver that keeps receiving gets everything: the loop drains a closed channel and ends.\<close>

lemma infinite_drains:
  "uc_closed s \<Longrightarrow> \<not> uc_in s \<Longrightarrow> \<not> uc_ended s \<Longrightarrow> infinite_inv s \<Longrightarrow>
     \<exists>s'. infinite_step\<^sup>*\<^sup>* s s' \<and> uc_ended s' \<and> uc_received s' = uc_sent s"
proof (induction "uc_buffer s" arbitrary: s)
  case Nil
  then have "infinite_step s (s\<lparr>uc_ended := True\<rparr>)" by (intro uc_end) simp_all
  moreover have "uc_received s = uc_sent s" using Nil by (simp add: infinite_inv_def)
  ultimately show ?case by (intro exI [of _ "s\<lparr>uc_ended := True\<rparr>"]) auto
next
  case (Cons v vs)
  let ?s = "s\<lparr>uc_buffer := vs, uc_received := uc_received s @ [v]\<rparr>"
  have b: "uc_buffer s = v # vs" using Cons.hyps(2) by simp
  have st: "infinite_step s ?s" by (rule uc_give) (simp_all add: infinite_loops_def b Cons.prems)
  have "infinite_inv ?s" using Cons.prems b by (simp add: infinite_inv_def)
  then obtain s' where "infinite_step\<^sup>*\<^sup>* ?s s' \<and> uc_ended s' \<and> uc_received s' = uc_sent s"
    using Cons.hyps(1) [of ?s] Cons.prems by auto
  then show ?case using st by (meson converse_rtranclp_into_rtranclp)
qed

theorem infinite_fifo_witness:
  "\<exists>s :: nat infinite. infinite_step\<^sup>*\<^sup>* MakeInfinite s \<and> uc_ended s \<and> uc_received s = [7]"
proof -
  let ?s1 = "MakeInfinite\<lparr>uc_sent := [7 :: nat], uc_buffer := [7]\<rparr>"
  let ?s2 = "?s1\<lparr>uc_closed := True\<rparr>"
  let ?s3 = "?s2\<lparr>uc_in := False\<rparr>"
  have "infinite_step MakeInfinite ?s1" using uc_take [of MakeInfinite 7] by (simp add: MakeInfinite_def infinite_loops_def)
  moreover have "infinite_step ?s1 ?s2" by (intro uc_close) (simp add: MakeInfinite_def)
  moreover have "infinite_step ?s2 ?s3" by (intro uc_take_closed) (simp_all add: MakeInfinite_def infinite_loops_def)
  ultimately have r: "infinite_step\<^sup>*\<^sup>* MakeInfinite ?s3" by (meson converse_rtranclp_into_rtranclp rtranclp.rtrancl_refl)
  moreover have "infinite_inv ?s3" using infinite_sys.reachable_inv [OF r] by simp
  ultimately obtain s where s: "infinite_step\<^sup>*\<^sup>* ?s3 s" "uc_ended s" "uc_received s = [7]"
    using infinite_drains [of ?s3] by (auto simp: MakeInfinite_def)
  then have "infinite_step\<^sup>*\<^sup>* MakeInfinite s" using r by simp
  then show ?thesis using infinite_fifo [of s] s by (intro exI [of _ s]) simp
qed

end
