(* ===== verification/Extractor.thy ===== *)
theory Extractor
  imports Event_Bus
begin

section \<open>On-chain events over Kafka (\<open>extractor\<close>, \<open>kafka\<close>)\<close>

text \<open>
  The translation between on-chain events and Kafka messages, the registration of consumers and their
  loop. The JSON codec, the Kafka client and its consumers are parameters: \<open>marshal\<close> and \<open>unmarshal\<close>
  are arguments, and so is the function that makes a consumer. An \<open>interface{}\<close> is a value of a datatype
  with one constructor per event pointer, and \<open>EvOther\<close> for a value of any other type.
\<close>

subsection \<open>Further event records (\<open>types/event.go\<close>)\<close>

record ForkedEvent =
  fk_DetectedBlock :: "int option"
  fk_DetectedHash :: hash
  fk_ForkBlock :: "int option"
  fk_ForkHash :: hash

record BlockEvent =
  be_BlockNumber :: "int option"
  be_BlockHash :: hash
  be_BlockTime :: int
  be_IsFinished :: bool

record EthTransferEvent = TxInfo +
  ete_Sender :: address
  ete_Receiver :: address
  ete_Amount :: "int option"

record SyncCompleteEvent =
  sc_BlockNumber :: "int option"

record KafkaOnChainEvent =
  kce_Data :: string
  kce_Topic :: string

datatype 'pub event =
    EvSubmitRing "'pub SubmitRingMethodEvent"
  | EvOrderCancelled OrderCancelledEvent
  | EvCutoff CutoffEvent
  | EvCutoffPair CutoffPairEvent
  | EvApproval ApprovalEvent
  | EvTransfer TransferEvent
  | EvWethDeposit WethDepositEvent
  | EvWethWithdrawal WethWithdrawalEvent
  | EvTokenRegister TokenRegisterEvent
  | EvTokenUnRegister TokenRegisterEvent
  | EvAddressAuthorized AddressAuthorizedEvent
  | EvAddressDeAuthorized AddressAuthorizedEvent
  | EvRingMined RingMinedEvent
  | EvOrderFilled OrderFilledEvent
  | EvEthTransfer EthTransferEvent
  | EvUnsupportedContract TxInfo
  | EvBlock BlockEvent
  | EvSyncComplete SyncCompleteEvent
  | EvForked ForkedEvent
  | EvOther string

datatype event_kind = KSubmitRing | KOrderCancelled | KCutoff | KCutoffPair | KApproval | KTransfer
  | KWethDeposit | KWethWithdrawal | KTokenRegister | KTokenUnRegister | KAddressAuthorized
  | KAddressDeAuthorized | KRingMined | KOrderFilled | KEthTransfer | KUnsupportedContract | KBlock
  | KSyncComplete | KForked

text \<open>The dynamic type of the event, \<open>None\<close> for a type the extractor does not know.\<close>

fun kind_of :: "'pub event \<Rightarrow> event_kind option" where
  "kind_of (EvSubmitRing _) = Some KSubmitRing"
| "kind_of (EvOrderCancelled _) = Some KOrderCancelled"
| "kind_of (EvCutoff _) = Some KCutoff"
| "kind_of (EvCutoffPair _) = Some KCutoffPair"
| "kind_of (EvApproval _) = Some KApproval"
| "kind_of (EvTransfer _) = Some KTransfer"
| "kind_of (EvWethDeposit _) = Some KWethDeposit"
| "kind_of (EvWethWithdrawal _) = Some KWethWithdrawal"
| "kind_of (EvTokenRegister _) = Some KTokenRegister"
| "kind_of (EvTokenUnRegister _) = Some KTokenUnRegister"
| "kind_of (EvAddressAuthorized _) = Some KAddressAuthorized"
| "kind_of (EvAddressDeAuthorized _) = Some KAddressDeAuthorized"
| "kind_of (EvRingMined _) = Some KRingMined"
| "kind_of (EvOrderFilled _) = Some KOrderFilled"
| "kind_of (EvEthTransfer _) = Some KEthTransfer"
| "kind_of (EvUnsupportedContract _) = Some KUnsupportedContract"
| "kind_of (EvBlock _) = Some KBlock"
| "kind_of (EvSyncComplete _) = Some KSyncComplete"
| "kind_of (EvForked _) = Some KForked"
| "kind_of (EvOther _) = None"

subsection \<open>Topics and events (\<open>extractor/extractor.go\<close>)\<close>

text \<open>\<open>topicToEvent\<close> makes an empty event; only its type matters to the decoder.\<close>

definition topicToEvent :: "string \<Rightarrow> event_kind option" where
  "topicToEvent topic =
    (if topic = ''Miner_SubmitRing_Method'' then Some KSubmitRing
     else if topic = ''CancelOrder'' then Some KOrderCancelled
     else if topic = ''Cutoff'' then Some KCutoff
     else if topic = ''CutoffPair'' then Some KCutoffPair
     else if topic = ''Approve'' then Some KApproval
     else if topic = ''Transfer'' then Some KTransfer
     else if topic = ''WethDeposit'' then Some KWethDeposit
     else if topic = ''WethWithdrawal'' then Some KWethWithdrawal
     else if topic = ''TokenRegistered'' then Some KTokenRegister
     else if topic = ''TokenUnRegistered'' then Some KTokenUnRegister
     else if topic = ''AddressAuthorized'' then Some KAddressAuthorized
     else if topic = ''AddressDeAuthorized'' then Some KAddressDeAuthorized
     else if topic = ''RingMined'' then Some KRingMined
     else if topic = ''OrderFilled'' then Some KOrderFilled
     else if topic = ''EthTransfer'' then Some KEthTransfer
     else if topic = ''UnsupportedContract'' then Some KUnsupportedContract
     else if topic = ''Block_New'' then Some KBlock
     else if topic = ''Block_End'' then Some KBlock
     else if topic = ''SyncChainComplete'' then Some KSyncComplete
     else if topic = ''ChainForkDetected'' then Some KForked
     else None)"

fun eventToTopic :: "'pub event \<Rightarrow> string" where
  "eventToTopic (EvSubmitRing _) = ''Miner_SubmitRing_Method''"
| "eventToTopic (EvOrderCancelled _) = ''CancelOrder''"
| "eventToTopic (EvCutoff _) = ''Cutoff''"
| "eventToTopic (EvCutoffPair _) = ''CutoffPair''"
| "eventToTopic (EvApproval _) = ''Approve''"
| "eventToTopic (EvTransfer _) = ''Transfer''"
| "eventToTopic (EvWethDeposit _) = ''WethDeposit''"
| "eventToTopic (EvWethWithdrawal _) = ''WethWithdrawal''"
| "eventToTopic (EvTokenRegister _) = ''TokenRegistered''"
| "eventToTopic (EvTokenUnRegister _) = ''TokenUnRegistered''"
| "eventToTopic (EvAddressAuthorized _) = ''AddressAuthorized''"
| "eventToTopic (EvAddressDeAuthorized _) = ''AddressDeAuthorized''"
| "eventToTopic (EvRingMined _) = ''RingMined''"
| "eventToTopic (EvOrderFilled _) = ''OrderFilled''"
| "eventToTopic (EvEthTransfer _) = ''EthTransfer''"
| "eventToTopic (EvUnsupportedContract _) = ''UnsupportedContract''"
| "eventToTopic (EvBlock e) = (if be_IsFinished e then ''Block_End'' else ''Block_New'')"
| "eventToTopic (EvSyncComplete _) = ''SyncChainComplete''"
| "eventToTopic (EvForked _) = ''ChainForkDetected''"
| "eventToTopic (EvOther _) = ''''"

definition Assemble :: "('pub event \<Rightarrow> string res) \<Rightarrow> 'pub event \<Rightarrow> KafkaOnChainEvent res" where
  "Assemble marshal input =
    (let topic = eventToTopic input
     in if topic = '''' then Inl (Err ''get topic from event error'')
        else case marshal input of
          Inl err \<Rightarrow> Inl err
        | Inr bs \<Rightarrow> Inr \<lparr>kce_Data = bs, kce_Topic = topic\<rparr>)"

definition Disassemble :: "(string \<Rightarrow> event_kind \<Rightarrow> 'pub event res) \<Rightarrow> KafkaOnChainEvent \<Rightarrow> 'pub event res" where
  "Disassemble unmarshal src =
    (case topicToEvent (kce_Topic src) of
       None \<Rightarrow> Inl (Err ''get event from topic error'')
     | Some event \<Rightarrow> unmarshal (kce_Data src) event)"

text \<open>What a consumer's message decodes to; the extractor registers \<open>KafkaOnChainEvent\<close>. The handler
  emits on the emitter: the state is the sequence of emissions, topic and event.\<close>

datatype kafka_data = DOnChain KafkaOnChainEvent | DOther string

definition extractor_handle ::
  "(string \<Rightarrow> event_kind \<Rightarrow> 'pub event res) \<Rightarrow> kafka_data \<Rightarrow> (string \<times> 'pub event) list
   \<Rightarrow> (string \<times> 'pub event) list \<times> unit res" where
  "extractor_handle unmarshal input emitted =
    (case input of
       DOther _ \<Rightarrow> (emitted, Inl (Err ''extractor,input type should be *KafkaOnChainEvent''))
     | DOnChain src \<Rightarrow>
         (case Disassemble unmarshal src of
            Inl err \<Rightarrow> (emitted, Inl err)
          | Inr event \<Rightarrow> (emitted @ [(kce_Topic src, event)], Inr ())))"

subsection \<open>Consumers (\<open>kafka/consumer_register.go\<close>)\<close>

record 'c ConsumerRegister =
  cr_brokers :: "string list"
  cr_consumerMap :: "string \<rightharpoonup> (string \<rightharpoonup> 'c)"

definition ConsumerRegister_Initialize :: "string list \<Rightarrow> 'c ConsumerRegister" where
  "ConsumerRegister_Initialize brokerList = \<lparr>cr_brokers = brokerList, cr_consumerMap = Map.empty\<rparr>"

definition RegisterTopicAndHandler ::
  "(string list \<Rightarrow> string \<Rightarrow> string list \<Rightarrow> 'c res) \<Rightarrow> string \<Rightarrow> string \<Rightarrow> 'c ConsumerRegister
   \<Rightarrow> 'c ConsumerRegister \<times> 'c res" where
  "RegisterTopicAndHandler NewConsumer topic groupId cr =
    (if (case cr_consumerMap cr topic of None \<Rightarrow> False | Some groupConsumerMap \<Rightarrow> groupConsumerMap groupId \<noteq> None)
     then (cr, Inl (Err ''kafka consumer alreay registered''))
     else let groups = (case cr_consumerMap cr topic of None \<Rightarrow> Map.empty | Some m \<Rightarrow> m);
              cr = cr\<lparr>cr_consumerMap := (cr_consumerMap cr)(topic \<mapsto> groups)\<rparr>
          in case NewConsumer (cr_brokers cr) groupId [topic] of
               Inl err \<Rightarrow> (cr, Inl err)
             | Inr consumer \<Rightarrow>
                 (cr\<lparr>cr_consumerMap := (cr_consumerMap cr)(topic \<mapsto> groups(groupId \<mapsto> consumer))\<rparr>, Inr consumer))"

text \<open>
  The consuming goroutine: each receive yields a message or, on a closed channel, nothing. A message is
  decoded and, when that succeeds, handed to the action; it is marked in every case. \<open>co_marked\<close> is what
  has been marked, \<open>co_state\<close> the state the action changes, \<open>co_logged\<close> the number of logged errors.
\<close>

record ('m, 's) consuming =
  co_marked :: "'m list"
  co_state :: 's
  co_logged :: nat

definition consume_one ::
  "('m \<Rightarrow> 'd res) \<Rightarrow> ('d \<Rightarrow> 's \<Rightarrow> 's \<times> unit res) \<Rightarrow> 'm option \<Rightarrow> ('m, 's) consuming \<Rightarrow> ('m, 's) consuming" where
  "consume_one decode action received co =
    (case received of
       None \<Rightarrow> co\<lparr>co_logged := co_logged co + 1\<rparr>
     | Some msg \<Rightarrow>
         (let co = (case decode msg of
                      Inl _ \<Rightarrow> co\<lparr>co_logged := co_logged co + 1\<rparr>
                    | Inr data \<Rightarrow>
                        (case action data (co_state co) of
                           (s, Inl _) \<Rightarrow> co\<lparr>co_state := s, co_logged := co_logged co + 1\<rparr>
                         | (s, Inr _) \<Rightarrow> co\<lparr>co_state := s\<rparr>))
          in co\<lparr>co_marked := co_marked co @ [msg]\<rparr>))"

definition consume ::
  "('m \<Rightarrow> 'd res) \<Rightarrow> ('d \<Rightarrow> 's \<Rightarrow> 's \<times> unit res) \<Rightarrow> 'm option list \<Rightarrow> ('m, 's) consuming \<Rightarrow> ('m, 's) consuming" where
  "consume decode action received co = fold (consume_one decode action) received co"

text \<open>\<open>Close\<close> closes every consumer of every topic, in some order of the map.\<close>

definition ConsumerRegister_Close :: "'c ConsumerRegister \<Rightarrow> 'c set" where
  "ConsumerRegister_Close cr = (\<Union>mp \<in> ran (cr_consumerMap cr). ran mp)"


subsection \<open>Properties\<close>

lemma topic_kind [simp]: "topicToEvent (eventToTopic e) = kind_of e"
  by (cases e) (simp_all add: topicToEvent_def)

lemma topic_empty_iff: "eventToTopic e = '''' \<longleftrightarrow> kind_of e = None"
  by (cases e) simp_all

lemma Assemble_cases:
  "Assemble marshal e = Inr k \<longleftrightarrow>
     kind_of e \<noteq> None \<and> marshal e = Inr (kce_Data k) \<and> kce_Topic k = eventToTopic e"
  by (cases k) (auto simp: Assemble_def Let_def topic_empty_iff split: sum.splits)

lemma Disassemble_Assemble:
  assumes "\<And>d k. marshal e = Inr d \<Longrightarrow> kind_of e = Some k \<Longrightarrow> unmarshal d k = Inr e"
    and "Assemble marshal e = Inr src"
  shows "Disassemble unmarshal src = Inr e \<and> kce_Topic src = eventToTopic e"
  using assms by (auto simp: Assemble_cases Disassemble_def)

lemma consume_append: "consume decode action (xs @ ys) co = consume decode action ys (consume decode action xs co)"
  by (simp add: consume_def)

lemma consume_Cons: "consume decode action (x # xs) co = consume decode action xs (consume_one decode action x co)"
  by (simp add: consume_def)

text \<open>Events that were assembled and are consumed by the extractor's handler are emitted again as the same events, each on the topic of its type, in
  order, and every message is marked.\<close>

lemma assembled_events_consumed:
  assumes "\<And>e d k. e \<in> set es \<Longrightarrow> marshal e = Inr d \<Longrightarrow> kind_of e = Some k \<Longrightarrow> unmarshal d k = Inr e"
    and "list_all2 (\<lambda>e src. Assemble marshal e = Inr src) es srcs" "list_all2 (\<lambda>src v. decode v = Inr (DOnChain src)) srcs vs"
  shows "consume decode (extractor_handle unmarshal) (map Some vs) co
    = co\<lparr>co_marked := co_marked co @ vs, co_state := co_state co @ map (\<lambda>e. (eventToTopic e, e)) es\<rparr>"
  using assms
proof (induction es arbitrary: srcs vs co)
  case Nil
  then show ?case by (simp add: consume_def)
next
  case (Cons e es)
  obtain src srcs' where src: "srcs = src # srcs'" "Assemble marshal e = Inr src" "list_all2 (\<lambda>e src. Assemble marshal e = Inr src) es srcs'"
    using Cons.prems(2) by (cases srcs) auto
  obtain v vs' where v: "vs = v # vs'" "decode v = Inr (DOnChain src)" "list_all2 (\<lambda>src v. decode v = Inr (DOnChain src)) srcs' vs'"
    using Cons.prems(3) src(1) by (cases vs) auto
  have "Disassemble unmarshal src = Inr e \<and> kce_Topic src = eventToTopic e"
    by (rule Disassemble_Assemble [OF _ src(2)]) (simp add: Cons.prems(1))
  then have "consume_one decode (extractor_handle unmarshal) (Some v) co
      = co\<lparr>co_marked := co_marked co @ [v], co_state := co_state co @ [(eventToTopic e, e)]\<rparr>"
    by (simp add: consume_one_def v(2) extractor_handle_def)
  then show ?case using Cons.IH [OF _ src(3) v(3)] Cons.prems(1) v(1) by (simp add: consume_Cons)
qed

text \<open>The consuming loop marks every message it receives, in order, also those it cannot
  decode or whose handler fails, and runs the handler once on each message it can decode, in order; the
  errors are only counted.\<close>

theorem consume_marks_all:
  "co_marked (consume decode action received co) = co_marked co @ List.map_filter (\<lambda>m. m) received
   \<and> co_state (consume decode action received co)
     = fold (\<lambda>m s. case decode m of Inl _ \<Rightarrow> s | Inr d \<Rightarrow> fst (action d s)) (List.map_filter (\<lambda>m. m) received) (co_state co)"
proof (induction received arbitrary: co)
  case Nil
  show ?case by (simp add: consume_def map_filter_simps)
next
  case (Cons m received)
  show ?case
    by (cases m) (simp_all add: consume_Cons Cons.IH consume_one_def map_filter_simps Let_def split: sum.splits prod.splits)
qed

definition consumer_of :: "'c ConsumerRegister \<Rightarrow> string \<Rightarrow> string \<rightharpoonup> 'c" where
  "consumer_of cr topic groupId = (case cr_consumerMap cr topic of None \<Rightarrow> None | Some m \<Rightarrow> m groupId)"

text \<open>A topic and group that have a consumer keep it and a further registration is refused
  without a new consumer; otherwise the registration succeeds exactly when the client makes a consumer,
  which is then the one registered; the consumers of other topics and groups never change.\<close>

theorem register_once:
  "(case RegisterTopicAndHandler NewConsumer topic groupId cr of (cr', r) \<Rightarrow>
     (consumer_of cr topic groupId \<noteq> None \<longrightarrow> cr' = cr \<and> (\<exists>err. r = Inl (Err err)))
     \<and> (consumer_of cr topic groupId = None \<longrightarrow> r = NewConsumer (cr_brokers cr) groupId [topic]
         \<and> consumer_of cr' topic groupId = (case r of Inl _ \<Rightarrow> None | Inr c \<Rightarrow> Some c))
     \<and> (\<forall>t g. (t, g) \<noteq> (topic, groupId) \<longrightarrow> consumer_of cr' t g = consumer_of cr t g))"
  by (auto simp: RegisterTopicAndHandler_def consumer_of_def Let_def split: option.splits sum.splits)

definition demo_register :: "nat ConsumerRegister" where
  "demo_register = fst (RegisterTopicAndHandler (\<lambda>_ _ _. Inr 5) ''t'' ''g'' (ConsumerRegister_Initialize [''b'']))"

theorem register_once_witness:
  "snd (RegisterTopicAndHandler (\<lambda>_ _ _. Inr 6) ''t'' ''h'' demo_register) = Inr 6
   \<and> fst (RegisterTopicAndHandler (\<lambda>_ _ _. Inr 6) ''t'' ''g'' demo_register) = demo_register"
  using register_once [where NewConsumer = "\<lambda>_ _ _. Inr 6" and topic = "''t''" and groupId = "''h''" and cr = demo_register]
    register_once [where NewConsumer = "\<lambda>_ _ _. Inr 6" and topic = "''t''" and groupId = "''g''" and cr = demo_register]
  by (auto simp: demo_register_def RegisterTopicAndHandler_def ConsumerRegister_Initialize_def consumer_of_def split: prod.splits)

end
