(* ===== verification/Go_State.thy ===== *)
theory Go_State
  imports Relay_Prelude
begin

section \<open>Computations that change state and may fail\<close>

text \<open>
  The components that call nodes, caches and tables thread a state through many calls. A computation
  maps the state to the new state and a result; the state of a failed computation is kept, as Go keeps
  what was done before an error. \<open>stry\<close> is the Go idiom \<open>if err := f(); nil != err\<close>: it hands the error
  on as a value; a panic is not an error value and passes through.
\<close>

named_theorems st_simps "unfolding of state computations"

type_synonym ('s, 'a) st = "'s \<Rightarrow> 's \<times> 'a res"

definition sret :: "'a \<Rightarrow> ('s, 'a) st" where
  [st_simps]: "sret x s = (s, Inr x)"

definition sfail :: "go_error \<Rightarrow> ('s, 'a) st" where
  [st_simps]: "sfail e s = (s, Inl e)"

definition slift :: "'a res \<Rightarrow> ('s, 'a) st" where
  [st_simps]: "slift r s = (s, r)"

definition sget :: "('s \<Rightarrow> 'a) \<Rightarrow> ('s, 'a) st" where
  [st_simps]: "sget f s = (s, Inr (f s))"

definition smod :: "('s \<Rightarrow> 's) \<Rightarrow> ('s, unit) st" where
  [st_simps]: "smod f s = (f s, Inr ())"

definition sbind :: "('s, 'a) st \<Rightarrow> ('a \<Rightarrow> ('s, 'b) st) \<Rightarrow> ('s, 'b) st" where
  "sbind m f s = (case m s of (s', Inl e) \<Rightarrow> (s', Inl e) | (s', Inr x) \<Rightarrow> f x s')"

definition stry :: "('s, 'a) st \<Rightarrow> ('s, 'a res) st" where
  "stry m s = (case m s of
      (s', Inl (Panic p)) \<Rightarrow> (s', Inl (Panic p))
    | (s', Inl (Err e)) \<Rightarrow> (s', Inr (Inl (Err e)))
    | (s', Inr x) \<Rightarrow> (s', Inr (Inr x)))"

lemma sbind_simps [st_simps, simp]:
  "m s = (s', Inr x) \<Longrightarrow> sbind m f s = f x s'"
  "m s = (s', Inl e) \<Longrightarrow> sbind m f s = (s', Inl e)"
  by (simp_all add: sbind_def)

lemma sbind_sret [simp]: "sbind (sret x) f = f x"
  by (simp add: fun_eq_iff sret_def)

lemma sbind_Inr_iff:
  "sbind m f s = (s', Inr y) \<longleftrightarrow> (\<exists>s1 x. m s = (s1, Inr x) \<and> f x s1 = (s', Inr y))"
  by (auto simp: sbind_def split: prod.splits sum.splits)

lemma sbind_Inl_iff:
  "sbind m f s = (s', Inl e) \<longleftrightarrow> m s = (s', Inl e) \<or> (\<exists>s1 x. m s = (s1, Inr x) \<and> f x s1 = (s', Inl e))"
  by (auto simp: sbind_def split: prod.splits sum.splits)

lemma sbind_cong [fundef_cong]:
  "m = m' \<Longrightarrow> s = s' \<Longrightarrow> (\<And>x t. m' s' = (t, Inr x) \<Longrightarrow> f x t = f' x t) \<Longrightarrow> sbind m f s = sbind m' f' s'"
  by (auto simp: sbind_def split: prod.splits sum.splits)

lemma sbind_assoc: "sbind (sbind m f) g = sbind m (\<lambda>x. sbind (f x) g)"
  by (auto simp: fun_eq_iff sbind_def split: prod.splits sum.splits)

lemma stry_simps [st_simps, simp]:
  "m s = (s', Inr x) \<Longrightarrow> stry m s = (s', Inr (Inr x))"
  "m s = (s', Inl (Err e)) \<Longrightarrow> stry m s = (s', Inr (Inl (Err e)))"
  "m s = (s', Inl (Panic p)) \<Longrightarrow> stry m s = (s', Inl (Panic p))"
  by (simp_all add: stry_def)

lemma stry_Inr_iff:
  "stry m s = (s', Inr r) \<longleftrightarrow> m s = (s', r) \<and> (\<forall>p. r \<noteq> Inl (Panic p))"
  by (auto simp: stry_def split: prod.splits sum.splits go_error.splits)

text \<open>The two ways a call whose error is looked at can go on.\<close>

lemma sbind_stryE:
  assumes "sbind (stry m) f s = (s', Inr y)"
  obtains (failed) s1 e where "m s = (s1, Inl (Err e))" "f (Inl (Err e)) s1 = (s', Inr y)"
  | (succeeded) s1 x where "m s = (s1, Inr x)" "f (Inr x) s1 = (s', Inr y)"
proof -
  from assms obtain s1 r where r: "m s = (s1, r)" "\<forall>p. r \<noteq> Inl (Panic p)" "f r s1 = (s', Inr y)"
    by (auto simp: sbind_Inr_iff stry_Inr_iff)
  show thesis
  proof (cases r)
    case (Inl e)
    then show ?thesis using r failed by (cases e) auto
  next
    case (Inr x)
    then show ?thesis using r succeeded by auto
  qed
qed

text \<open>A loop over a slice that runs a body for its effect, and one that collects results.\<close>

fun sfor :: "('a \<Rightarrow> ('s, unit) st) \<Rightarrow> 'a list \<Rightarrow> ('s, unit) st" where
  "sfor f [] = sret ()"
| "sfor f (x # xs) = sbind (f x) (\<lambda>_. sfor f xs)"

fun smap :: "('a \<Rightarrow> ('s, 'b) st) \<Rightarrow> 'a list \<Rightarrow> ('s, 'b list) st" where
  "smap f [] = sret []"
| "smap f (x # xs) = sbind (f x) (\<lambda>y. sbind (smap f xs) (\<lambda>ys. sret (y # ys)))"

lemma smap_Inr_iff:
  "smap f (x # xs) s = (s', Inr zs) \<longleftrightarrow>
     (\<exists>s1 y ys. f x s = (s1, Inr y) \<and> smap f xs s1 = (s', Inr ys) \<and> zs = y # ys)"
  by (auto simp: sbind_Inr_iff sret_def)

lemma smap_length: "smap f xs s = (s', Inr ys) \<Longrightarrow> length ys = length xs"
  by (induction xs arbitrary: s ys) (auto simp: smap_Inr_iff sret_def simp del: smap.simps(2))

text \<open>What every result of the body satisfies, every element of the collected list satisfies.\<close>

lemma smap_all:
  assumes "\<And>x s s' y. x \<in> set xs \<Longrightarrow> f x s = (s', Inr y) \<Longrightarrow> P x y" "smap f xs s = (s', Inr ys)"
  shows "list_all2 P xs ys"
  using assms
proof (induction xs arbitrary: s ys)
  case (Cons x xs)
  from Cons.prems(2) obtain s1 y ys' where
    r: "f x s = (s1, Inr y)" "smap f xs s1 = (s', Inr ys')" "ys = y # ys'"
    by (auto simp: smap_Inr_iff simp del: smap.simps(2))
  have "P x y" using Cons.prems(1) r(1) by simp
  moreover have "list_all2 P xs ys'" using Cons.IH [OF _ r(2)] Cons.prems(1) by simp
  ultimately show ?case using r(3) by simp
qed (simp add: sret_def)

text \<open>A body that keeps a property of the state keeps it over the whole loop, also when the loop fails.\<close>

lemma sfor_inv:
  assumes "\<And>x s. x \<in> set xs \<Longrightarrow> I s \<Longrightarrow> I (fst (f x s))" "I s"
  shows "I (fst (sfor f xs s))"
  using assms
proof (induction xs arbitrary: s)
  case (Cons x xs)
  have "I (fst (f x s))" using Cons.prems by simp
  then show ?case
    using Cons.IH [of "fst (f x s)"] Cons.prems(1) by (auto simp: sbind_def split: prod.splits sum.splits)
qed (simp add: sret_def)

text \<open>
  Retrying: the computation is run at most \<open>n\<close> times until it succeeds; the last error is returned. With no
  attempt at all the error is nil and the result unchanged, \<open>r0\<close>.
\<close>

fun retry :: "('s, 'a) st \<Rightarrow> nat \<Rightarrow> 'a res \<Rightarrow> ('s, 'a) st" where
  "retry m 0 r0 = slift r0"
| "retry m (Suc n) r0 = sbind (stry m) (\<lambda>r. case r of Inl e \<Rightarrow> retry m n (Inl e) | Inr x \<Rightarrow> sret x)"

text \<open>The runs of a computation one after the other: the states, and the state after \<open>n\<close> runs.\<close>

fun run_states :: "('s, 'a) st \<Rightarrow> nat \<Rightarrow> 's \<Rightarrow> 's" where
  "run_states m 0 s = s"
| "run_states m (Suc n) s = run_states m n (fst (m s))"

text \<open>Retrying succeeds exactly when one of the attempts does, with the result of the first that does.\<close>

lemma retry_first_success:
  "(\<forall>i < k. \<exists>e. snd (m (run_states m i s)) = Inl (Err e)) \<Longrightarrow> m (run_states m k s) = (s', Inr x) \<Longrightarrow> k < n \<Longrightarrow>
     retry m n r0 s = (s', Inr x)"
proof (induction k arbitrary: n s r0)
  case 0
  then show ?case by (cases n) (simp_all add: sret_def)
next
  case (Suc k)
  from Suc.prems(3) obtain n' where n: "n = Suc n'" "k < n'" by (cases n) auto
  from Suc.prems(1) obtain e where "snd (m s) = Inl (Err e)" by fastforce
  then have m: "m s = (fst (m s), Inl (Err e))" by (metis surjective_pairing)
  have "\<forall>i < k. \<exists>e. snd (m (run_states m i (fst (m s)))) = Inl (Err e)"
    using Suc.prems(1) by (metis Suc_mono run_states.simps(2))
  then show ?case
    using Suc.IH [of "fst (m s)" n' "Inl (Err e)"] Suc.prems(2) n stry_simps(2) [of m s, OF m] by simp
qed

lemma retry_Inr:
  "retry m n (Inl e) s = (s', Inr x) \<Longrightarrow> \<exists>k < n. m (run_states m k s) = (s', Inr x)"
proof (induction n arbitrary: s e)
  case (Suc n)
  then obtain s1 r where r: "m s = (s1, r)" "\<forall>p. r \<noteq> Inl (Panic p)"
      "(case r of Inl e \<Rightarrow> retry m n (Inl e) | Inr x \<Rightarrow> sret x) s1 = (s', Inr x)"
    by (auto simp: sbind_Inr_iff stry_Inr_iff)
  show ?case
  proof (cases r)
    case (Inl e1)
    then have "retry m n (Inl e1) s1 = (s', Inr x)" using r(3) by simp
    then obtain k where "k < n" "m (run_states m k s1) = (s', Inr x)" using Suc.IH by blast
    then show ?thesis using r(1) by (intro exI [of _ "Suc k"]) simp
  next
    case (Inr y)
    then show ?thesis using r by (intro exI [of _ 0]) (simp add: sret_def)
  qed
qed (simp add: slift_def)

text \<open>What holds of every successful run holds of what retrying returns.\<close>

lemma retry_post:
  assumes "\<And>s s' x. m s = (s', Inr x) \<Longrightarrow> P s' x" "retry m (Suc n) r0 s = (s', Inr x)"
  shows "P s' x"
proof -
  from assms(2) have "retry m (Suc n) (Inl (Err [])) s = (s', Inr x)" by simp
  from retry_Inr [OF this] obtain k where "m (run_states m k s) = (s', Inr x)" by auto
  then show ?thesis by (rule assms(1))
qed

lemma retry_inv:
  assumes "\<And>s. I s \<Longrightarrow> I (fst (m s))" "I s"
  shows "I (fst (retry m n r0 s))"
  using assms(2)
proof (induction n arbitrary: s r0)
  case (Suc n)
  have "I (fst (m s))" using assms(1) Suc.prems by simp
  then show ?case
    using Suc.IH [of "fst (m s)"]
    by (auto simp: sbind_def stry_def sret_def split: prod.splits sum.splits go_error.splits)
qed (simp add: slift_def)

text \<open>A computation on a part of the state.\<close>

definition on_snd :: "('w, 'a) st \<Rightarrow> ('m \<times> 'w, 'a) st" where
  "on_snd f = (\<lambda>(m, w). case f w of (w', r) \<Rightarrow> ((m, w'), r))"

lemma on_snd_simps [st_simps, simp]: "f w = (w', r) \<Longrightarrow> on_snd f (m, w) = ((m, w'), r)"
  by (simp add: on_snd_def)

lemma on_snd_iff: "on_snd f s = (s', r) \<longleftrightarrow> (\<exists>w'. f (snd s) = (w', r) \<and> s' = (fst s, w'))"
  by (cases s) (auto simp: on_snd_def split: prod.splits)

lemma fst_on_snd [simp]: "fst (fst (on_snd f s)) = fst s"
  by (auto simp: on_snd_def split: prod.splits)


subsection \<open>Triples\<close>

text \<open>
  \<open>triple P m Q\<close>: started in a state with \<open>P\<close>, a run of \<open>m\<close> that returns without an error gives a result and a
  state with \<open>Q\<close>. The rules follow the combinators; \<open>triple_vcg\<close> collects them.
\<close>

named_theorems triple_vcg "rules that decompose a triple"

definition triple :: "('s \<Rightarrow> bool) \<Rightarrow> ('s, 'a) st \<Rightarrow> ('a \<Rightarrow> 's \<Rightarrow> bool) \<Rightarrow> bool" where
  "triple P m Q \<longleftrightarrow> (\<forall>s s' x. P s \<longrightarrow> m s = (s', Inr x) \<longrightarrow> Q x s')"

lemma tripleI: "(\<And>s s' x. P s \<Longrightarrow> m s = (s', Inr x) \<Longrightarrow> Q x s') \<Longrightarrow> triple P m Q"
  by (simp add: triple_def)

lemma tripleD: "triple P m Q \<Longrightarrow> P s \<Longrightarrow> m s = (s', Inr x) \<Longrightarrow> Q x s'"
  by (simp add: triple_def)

lemma triple_conseq:
  "triple P' m Q' \<Longrightarrow> (\<And>s. P s \<Longrightarrow> P' s) \<Longrightarrow> (\<And>x s. Q' x s \<Longrightarrow> Q x s) \<Longrightarrow> triple P m Q"
  unfolding triple_def by blast

lemma triple_sret [triple_vcg]: "(\<And>s. P s \<Longrightarrow> Q x s) \<Longrightarrow> triple P (sret x) Q"
  by (simp add: triple_def sret_def)

lemma triple_sfail [triple_vcg]: "triple P (sfail e) Q"
  by (simp add: triple_def sfail_def)

lemma triple_sget [triple_vcg]: "(\<And>s. P s \<Longrightarrow> Q (f s) s) \<Longrightarrow> triple P (sget f) Q"
  by (simp add: triple_def sget_def)

lemma triple_smod [triple_vcg]: "(\<And>s. P s \<Longrightarrow> Q () (f s)) \<Longrightarrow> triple P (smod f) Q"
  by (simp add: triple_def smod_def)

lemma triple_slift [triple_vcg]: "(\<And>s x. P s \<Longrightarrow> r = Inr x \<Longrightarrow> Q x s) \<Longrightarrow> triple P (slift r) Q"
  by (simp add: triple_def slift_def)

lemma triple_sbind: "triple P m R \<Longrightarrow> (\<And>x. triple (R x) (f x) Q) \<Longrightarrow> triple P (sbind m f) Q"
  unfolding triple_def sbind_Inr_iff by blast

lemma triple_if [triple_vcg]:
  "(b \<Longrightarrow> triple P m Q) \<Longrightarrow> (\<not> b \<Longrightarrow> triple P m' Q) \<Longrightarrow> triple P (if b then m else m') Q"
  by simp

lemma triple_sfor:
  assumes "\<And>x. x \<in> set xs \<Longrightarrow> triple I (f x) (\<lambda>_. I)"
  shows "triple I (sfor f xs) (\<lambda>_. I)"
  using assms by (induction xs) (auto intro!: triple_sret triple_sbind)

text \<open>A caught error leaves a state of which only the invariant is known.\<close>

lemma triple_stry:
  assumes "\<And>s. P s \<Longrightarrow> R (fst (m s))" "triple P m (\<lambda>x s. Q (Inr x) s)" "\<And>s e. R s \<Longrightarrow> Q (Inl e) s"
  shows "triple P (stry m) Q"
  unfolding triple_def
proof (intro allI impI)
  fix s s' r
  assume p: "P s" "stry m s = (s', Inr r)"
  then have "m s = (s', r)" by (simp add: stry_Inr_iff)
  then show "Q r s'" using assms p(1) by (cases r) (force simp: triple_def)+
qed

lemma triple_on_snd [triple_vcg]:
  "(\<And>m w w' x. P (m, w) \<Longrightarrow> f w = (w', Inr x) \<Longrightarrow> Q x (m, w')) \<Longrightarrow> triple P (on_snd f) Q"
  by (auto simp: triple_def on_snd_def split: prod.splits)

text \<open>\<open>keeps I m\<close>: every run of \<open>m\<close>, failed or not, keeps \<open>I\<close>.\<close>

definition keeps :: "('s \<Rightarrow> bool) \<Rightarrow> ('s, 'a) st \<Rightarrow> bool" where
  "keeps I m \<longleftrightarrow> (\<forall>s. I s \<longrightarrow> I (fst (m s)))"

lemma keepsD: "keeps I m \<Longrightarrow> I s \<Longrightarrow> I (fst (m s))"
  by (simp add: keeps_def)

named_theorems keeps_intros "rules that decompose an invariance"

lemma keeps_basic [keeps_intros]:
  "keeps I (sret x)" "keeps I (sfail e)" "keeps I (slift r)" "keeps I (sget f)"
  by (simp_all add: keeps_def st_simps)

lemma keeps_smod [keeps_intros]: "(\<And>s. I s \<Longrightarrow> I (f s)) \<Longrightarrow> keeps I (smod f)"
  by (simp add: keeps_def smod_def)

lemma keeps_sbind [keeps_intros]: "keeps I m \<Longrightarrow> (\<And>x. keeps I (f x)) \<Longrightarrow> keeps I (sbind m f)"
  unfolding keeps_def sbind_def by (force split: prod.splits sum.splits)

lemma keeps_sbind_sget: "(\<And>s. I s \<Longrightarrow> I (fst (f (g s) s))) \<Longrightarrow> keeps I (sbind (sget g) f)"
  by (simp add: keeps_def sget_def sbind_def)

lemma keeps_stry [keeps_intros]: "keeps I m \<Longrightarrow> keeps I (stry m)"
  unfolding keeps_def stry_def by (force split: prod.splits sum.splits go_error.splits)

lemma keeps_if [keeps_intros]: "(b \<Longrightarrow> keeps I m) \<Longrightarrow> (\<not> b \<Longrightarrow> keeps I m') \<Longrightarrow> keeps I (if b then m else m')"
  by simp

lemma keeps_case_option [keeps_intros]:
  "(x = None \<Longrightarrow> keeps I m) \<Longrightarrow> (\<And>y. x = Some y \<Longrightarrow> keeps I (f y)) \<Longrightarrow> keeps I (case x of None \<Rightarrow> m | Some y \<Rightarrow> f y)"
  by (simp split: option.split)

lemma keeps_case_sum [keeps_intros]:
  "(\<And>y. x = Inl y \<Longrightarrow> keeps I (g y)) \<Longrightarrow> (\<And>y. x = Inr y \<Longrightarrow> keeps I (f y)) \<Longrightarrow> keeps I (case x of Inl y \<Rightarrow> g y | Inr y \<Rightarrow> f y)"
  by (simp split: sum.split)

lemma keeps_case_prod [keeps_intros]:
  "(\<And>a b. x = (a, b) \<Longrightarrow> keeps I (f a b)) \<Longrightarrow> keeps I (case x of (a, b) \<Rightarrow> f a b)"
  by (simp split: prod.split)

lemma keeps_sfor [keeps_intros]: "(\<And>x. x \<in> set xs \<Longrightarrow> keeps I (f x)) \<Longrightarrow> keeps I (sfor f xs)"
  by (auto simp: keeps_def intro: sfor_inv)

lemma keeps_retry [keeps_intros]: "keeps I m \<Longrightarrow> keeps I (retry m n r0)"
  by (auto simp: keeps_def intro: retry_inv)

lemma keeps_on_snd [keeps_intros]: "(\<And>m w w'. I (m, w) \<Longrightarrow> I (m, w')) \<Longrightarrow> keeps I (on_snd f)"
  unfolding keeps_def on_snd_def by (auto split: prod.splits)

lemma keeps_triple: "keeps I m \<Longrightarrow> triple I m (\<lambda>_. I)"
  by (force simp: keeps_def triple_def)

end
