(* ===== verification/Kafka_Stream.thy ===== *)
theory Kafka_Stream
  imports Extractor Go_State "HOL-Library.Sublist"
begin

section \<open>The Kafka producer and the stream of events (\<open>kafka/producer.go\<close>)\<close>

text \<open>
  The producer in front of a parameter that stands for the client of the brokers, and the way of an event of the chain from
  the producer over a partition to the handler of the consumer. The brokers keep a log for each partition of a topic; a message
  goes to the partition that its key selects. The client repeats a request that was not acknowledged, so that a message may be in the log
  several times, and one whose sending failed may be there all the same.
\<close>

type_synonym 'w sync_producer = "string \<Rightarrow> bytes \<Rightarrow> string \<Rightarrow> ('w, int \<times> int) st"

text \<open>The settings that the code changes in the configuration it gets from \<open>sarama.NewConfig\<close>; the others are the extension of the record.\<close>

record sarama_config =
  cfg_RequiredAcks :: int
  cfg_RetryMax :: int
  cfg_ReturnSuccesses :: bool

definition WaitForAll :: int where
  "WaitForAll = - 1"

record 'w MessageProducer =
  md_pd :: "'w sync_producer option"

definition MessageProducer_Initialize ::
  "'x sarama_config_scheme \<Rightarrow> (string list \<Rightarrow> 'x sarama_config_scheme \<Rightarrow> 'w sync_producer res) \<Rightarrow> string list
   \<Rightarrow> 'w MessageProducer \<Rightarrow> 'w MessageProducer \<times> unit res" where
  "MessageProducer_Initialize NewConfig NewSyncProducer brokerList md =
    (let config = NewConfig\<lparr>cfg_RequiredAcks := WaitForAll, cfg_RetryMax := 10, cfg_ReturnSuccesses := True\<rparr>
     in case NewSyncProducer brokerList config of Inl err \<Rightarrow> (md, Inl err) | Inr producer \<Rightarrow> (md\<lparr>md_pd := Some producer\<rparr>, Inr ()))"

definition SendMessage :: "('d \<Rightarrow> bytes res) \<Rightarrow> 'w MessageProducer \<Rightarrow> string \<Rightarrow> 'd option \<Rightarrow> string \<Rightarrow> ('w, int \<times> int) st" where
  "SendMessage marshal md topic data key =
    (case data of
       None \<Rightarrow> sfail (Err (''kafka message to send is null for topic : '' @ topic))
     | Some d \<Rightarrow> (case marshal d of
         Inl err \<Rightarrow> sfail (Err (''failed to Marshal kafka Msg for topic : '' @ topic))
       | Inr bytes \<Rightarrow> (case md_pd md of
           None \<Rightarrow> sfail (Panic NilDeref)
         | Some pd \<Rightarrow> pd topic bytes key)))"

definition MessageProducer_Close :: "('w sync_producer \<Rightarrow> ('w, unit) st) \<Rightarrow> 'w MessageProducer \<Rightarrow> ('w, unit) st" where
  "MessageProducer_Close close md = (case md_pd md of None \<Rightarrow> sfail (Panic NilDeref) | Some pd \<Rightarrow> close pd)"

text \<open>
  What is relied on of the brokers and their client, with retries and without idempotence. \<open>late\<close> are the messages of this producer of which requests may still be under way.
  A call appends copies of its message and of late ones, in any order and any number; when it is acknowledged, its message is among them and the offset is that of a copy. No
  other partition changes.
\<close>

definition kafka_law ::
  "'w sync_producer \<Rightarrow> ('w \<Rightarrow> string \<times> int \<Rightarrow> bytes list) \<Rightarrow> ('w \<Rightarrow> string \<times> int \<Rightarrow> bytes set) \<Rightarrow> (string \<Rightarrow> string \<Rightarrow> int) \<Rightarrow> bool" where
  "kafka_law pd logs late part \<longleftrightarrow>
     (\<forall>topic v key w w' r. pd topic v key w = (w', r) \<longrightarrow> (let tp = (topic, part topic key) in
        \<exists>xs. logs w' = (logs w)(tp := logs w tp @ xs) \<and> set xs \<subseteq> insert v (late w tp) \<and> late w' tp \<subseteq> insert v (late w tp)
          \<and> (\<forall>p off. r = Inr (p, off) \<longrightarrow> p = part topic key \<and> int (length (logs w tp)) \<le> off \<and> off < int (length (logs w' tp)) \<and> logs w' tp ! nat off = v)))"

lemma offset_in_new:
  assumes "int (length ys) \<le> off" "off < int (length (ys @ xs))" "(ys @ xs) ! nat off = v"
  shows "v \<in> set xs"
proof -
  have "nat off - length ys < length xs" "xs ! (nat off - length ys) = v" using assms by (auto simp: nth_append)
  then show ?thesis using nth_mem by blast
qed

locale kafka_topic =
  fixes pd :: "'w sync_producer" and logs :: "'w \<Rightarrow> string \<times> int \<Rightarrow> bytes list" and late :: "'w \<Rightarrow> string \<times> int \<Rightarrow> bytes set"
    and part :: "string \<Rightarrow> string \<Rightarrow> int"
  assumes law: "kafka_law pd logs late part"
begin

lemma producer_appends:
  assumes "pd topic v key w = (w', r)"
  shows "\<exists>xs. logs w' = (logs w)((topic, part topic key) := logs w (topic, part topic key) @ xs) \<and> set xs \<subseteq> insert v (late w (topic, part topic key))
    \<and> late w' (topic, part topic key) \<subseteq> insert v (late w (topic, part topic key)) \<and> (\<forall>a. r = Inr a \<longrightarrow> v \<in> set xs)"
proof -
  obtain xs where xs: "logs w' = (logs w)((topic, part topic key) := logs w (topic, part topic key) @ xs)" "set xs \<subseteq> insert v (late w (topic, part topic key))"
    "late w' (topic, part topic key) \<subseteq> insert v (late w (topic, part topic key))"
    "\<forall>p off. r = Inr (p, off) \<longrightarrow> int (length (logs w (topic, part topic key))) \<le> off
       \<and> off < int (length (logs w' (topic, part topic key))) \<and> logs w' (topic, part topic key) ! nat off = v"
    using law [unfolded kafka_law_def Let_def, rule_format, OF assms] by blast
  have "v \<in> set xs" if "r = Inr a" for a
    using that xs(1,4) offset_in_new [of "logs w (topic, part topic key)" "snd a" xs v] by (cases a) simp
  then show ?thesis using xs by blast
qed

text \<open>A message that could not be encoded, or is missing, never gets to the brokers.\<close>

lemma SendMessage_unsent:
  "data = None \<or> (\<exists>d e. data = Some d \<and> marshal d = Inl e) \<Longrightarrow> fst (SendMessage marshal md topic data key w) = w"
  by (auto simp: SendMessage_def sfail_def)

end

text \<open>A process that sends events one after the other, as the extractor does, until one of them fails: how many were acknowledged, and what the last call answered.\<close>

fun send_events ::
  "('pub event \<Rightarrow> string res) \<Rightarrow> (KafkaOnChainEvent \<Rightarrow> bytes res) \<Rightarrow> 'w MessageProducer \<Rightarrow> string \<Rightarrow> string \<Rightarrow> 'pub event list \<Rightarrow> 'w \<Rightarrow> 'w \<times> nat \<times> unit res" where
  "send_events marshal json md topic key [] w = (w, 0, Inr ())"
| "send_events marshal json md topic key (e # es) w =
    (case Assemble marshal e of
       Inl err \<Rightarrow> (w, 0, Inl err)
     | Inr src \<Rightarrow> (case SendMessage json md topic (Some src) key w of
         (w, Inl err) \<Rightarrow> (w, 0, Inl err)
       | (w, Inr _) \<Rightarrow> (case send_events marshal json md topic key es w of (w, k, r) \<Rightarrow> (w, Suc k, r))))"

lemma send_events_count: "send_events marshal json md topic key es w = (w', k, r) \<Longrightarrow> k \<le> length es \<and> (r = Inr () \<longleftrightarrow> k = length es)"
  by (induction es arbitrary: w k) (auto split: sum.splits prod.splits)

text \<open>The message of an event.\<close>

definition message_of :: "('pub event \<Rightarrow> string res) \<Rightarrow> (KafkaOnChainEvent \<Rightarrow> bytes res) \<Rightarrow> 'pub event \<Rightarrow> bytes \<Rightarrow> bool" where
  "message_of marshal json e v \<longleftrightarrow> (\<exists>src. Assemble marshal e = Inr src \<and> json src = Inr v)"

context kafka_topic
begin

lemma send_events_log:
  assumes "send_events marshal json \<lparr>md_pd = Some pd\<rparr> topic key es w = (w', k, r)"
  shows "\<exists>vs new. list_all2 (message_of marshal json) (take k es) vs \<and> subseq vs new
    \<and> logs w' = (logs w)((topic, part topic key) := logs w (topic, part topic key) @ new)
    \<and> (\<forall>v \<in> set new - late w (topic, part topic key). \<exists>e \<in> set (take (Suc k) es). message_of marshal json e v)"
  using assms
proof (induction es arbitrary: w k)
  case Nil
  then show ?case by (auto intro!: exI [of _ "[]"])
next
  case (Cons e es)
  let ?tp = "(topic, part topic key)"
  show ?case
  proof (cases "\<exists>src v. Assemble marshal e = Inr src \<and> json src = Inr v")
    case False
    then have "w' = w \<and> k = 0" using Cons.prems by (auto simp: SendMessage_def sfail_def split: sum.splits)
    then show ?thesis by (auto intro!: exI [of _ "[]"])
  next
    case True
    then obtain src v where v: "Assemble marshal e = Inr src" "json src = Inr v" by blast
    then have m: "message_of marshal json e v" by (auto simp: message_of_def)
    obtain w1 r1 where p: "pd topic v key w = (w1, r1)" by fastforce
    then have s: "SendMessage json \<lparr>md_pd = Some pd\<rparr> topic (Some src) key w = (w1, r1)" using v by (simp add: SendMessage_def)
    obtain xs where xs: "logs w1 = (logs w)(?tp := logs w ?tp @ xs)" "set xs \<subseteq> insert v (late w ?tp)" "late w1 ?tp \<subseteq> insert v (late w ?tp)"
      "\<forall>a. r1 = Inr a \<longrightarrow> v \<in> set xs" using producer_appends [OF p] by blast
    show ?thesis
    proof (cases r1)
      case (Inl err)
      then have "w' = w1" "k = 0" using Cons.prems v s by auto
      then show ?thesis using xs m by (intro exI [of _ "[]"] exI [of _ xs]) auto
    next
      case (Inr a)
      then obtain k' where k': "send_events marshal json \<lparr>md_pd = Some pd\<rparr> topic key es w1 = (w', k', r)" "k = Suc k'"
        using Cons.prems v s by (auto split: prod.splits)
      obtain vs new where IH: "list_all2 (message_of marshal json) (take k' es) vs" "subseq vs new"
        "logs w' = (logs w1)(?tp := logs w1 ?tp @ new)"
        "\<forall>v \<in> set new - late w1 ?tp. \<exists>e \<in> set (take (Suc k') es). message_of marshal json e v"
        using Cons.IH [OF k'(1)] by blast
      have "subseq [v] xs" using xs(4) Inr by (simp add: subseq_singleton_left)
      then have "subseq (v # vs) (xs @ new)" using list_emb_append_mono [OF _ IH(2), of "[v]" xs] by simp
      moreover have "logs w' = (logs w)(?tp := logs w ?tp @ xs @ new)" using IH(3) xs(1) by (simp add: fun_eq_iff)
      moreover have "\<forall>u \<in> set (xs @ new) - late w ?tp. \<exists>e \<in> set (take (Suc k) (e # es)). message_of marshal json e u"
        using IH(4) xs(2,3) m k'(2) by auto
      ultimately show ?thesis using IH(1) m k'(2) by (intro exI [of _ "v # vs"] exI [of _ "xs @ new"]) simp
    qed
  qed
qed

end

text \<open>What the extractor's handler makes of the messages of events.\<close>

lemma messages_consumed:
  assumes "\<And>e d k. e \<in> E \<Longrightarrow> marshal e = Inr d \<Longrightarrow> kind_of e = Some k \<Longrightarrow> unmarshal d k = Inr e"
    and "\<And>src v. json src = Inr v \<Longrightarrow> decode v = Inr (DOnChain src)"
    and "\<forall>v \<in> set new. \<exists>e \<in> E. message_of marshal json e v"
  obtains f where "\<And>e v. e \<in> E \<Longrightarrow> message_of marshal json e v \<Longrightarrow> f v = e"
    "\<And>co. consume decode (extractor_handle unmarshal) (map Some new) co
      = co\<lparr>co_marked := co_marked co @ new, co_state := co_state co @ map (\<lambda>v. (eventToTopic (f v), f v)) new\<rparr>"
proof -
  define f where "f v = (case decode v of Inr (DOnChain src) \<Rightarrow> projr (Disassemble unmarshal src) | _ \<Rightarrow> undefined)" for v
  have f: "f v = e" if e: "e \<in> E" and m: "message_of marshal json e v" for e v
  proof -
    obtain src where src: "Assemble marshal e = Inr src" "json src = Inr v" using m by (auto simp: message_of_def)
    have "Disassemble unmarshal src = Inr e \<and> kce_Topic src = eventToTopic e"
      by (rule Disassemble_Assemble [OF _ src(1)]) (simp add: assms(1) e)
    then show ?thesis using assms(2) [OF src(2)] by (simp add: f_def)
  qed
  have "\<exists>srcs. list_all2 (\<lambda>e src. Assemble marshal e = Inr src) (map f new) srcs \<and> list_all2 (\<lambda>src v. decode v = Inr (DOnChain src)) srcs new"
    using assms(3)
  proof (induction new)
    case (Cons v new)
    obtain e src where e: "e \<in> E" "message_of marshal json e v" "Assemble marshal e = Inr src" "json src = Inr v"
      using Cons.prems by (auto simp: message_of_def)
    obtain srcs where "list_all2 (\<lambda>e src. Assemble marshal e = Inr src) (map f new) srcs" "list_all2 (\<lambda>src v. decode v = Inr (DOnChain src)) srcs new"
      using Cons by auto
    then show ?case using e f [OF e(1,2)] assms(2) [OF e(4)] by (intro exI [of _ "src # srcs"]) simp
  qed simp
  then obtain srcs where srcs: "list_all2 (\<lambda>e src. Assemble marshal e = Inr src) (map f new) srcs" "list_all2 (\<lambda>src v. decode v = Inr (DOnChain src)) srcs new"
    by blast
  have "e \<in> E" if e: "e \<in> set (map f new)" for e using e assms(3) f by fastforce
  then have "consume decode (extractor_handle unmarshal) (map Some new) co
      = co\<lparr>co_marked := co_marked co @ new, co_state := co_state co @ map (\<lambda>v. (eventToTopic (f v), f v)) new\<rparr>" for co
    using assembled_events_consumed [OF _ srcs, of unmarshal co] assms(1) by (simp add: comp_def)
  then show thesis using that f by blast
qed

definition demo_marshal :: "nat event \<Rightarrow> string res" where
  "demo_marshal e = (case e of EvSyncComplete s \<Rightarrow> (case sc_BlockNumber s of
       None \<Rightarrow> Inr ''null'' | Some n \<Rightarrow> if n = 7 then Inr ''7'' else Inl (Err ''unknown''))
     | _ \<Rightarrow> Inl (Err ''unknown''))"

definition demo_unmarshal :: "string \<Rightarrow> event_kind \<Rightarrow> nat event res" where
  "demo_unmarshal d k = (if k = KSyncComplete \<and> d = ''null'' then Inr (EvSyncComplete \<lparr>sc_BlockNumber = None\<rparr>)
     else if k = KSyncComplete \<and> d = ''7'' then Inr (EvSyncComplete \<lparr>sc_BlockNumber = Some 7\<rparr>)
     else Inl (Err ''unknown''))"

lemma demo_codec: "demo_marshal e = Inr d \<Longrightarrow> kind_of e = Some k \<Longrightarrow> demo_unmarshal d k = Inr e"
  by (cases e) (auto simp: demo_marshal_def demo_unmarshal_def split: option.splits if_splits)

text \<open>A broker with one partition for every topic that appends every message twice, as after a retry; its state is its logs.\<close>

definition demo_broker :: "(string \<times> int \<Rightarrow> bytes list) sync_producer" where
  "demo_broker topic v key w = (w((topic, 0) := w (topic, 0) @ [v, v]), Inr (0, int (length (w (topic, 0)))))"

interpretation demo_broker: kafka_topic demo_broker "\<lambda>w. w" "\<lambda>_ _. {}" "\<lambda>_ _. 0"
  by unfold_locales (auto simp: kafka_law_def demo_broker_def nth_append Let_def intro!: exI [of _ "[v, v]" for v])

text \<open>Claim C36: delivery of events at least once and in order. Events are assembled and sent one after the other with one key, until all are acknowledged or a send fails; no older message of this
  producer is still under way to the partition of the key. The brokers append copies of the messages, perhaps several, because the client retries. Then a consumer that reads what was appended marks every message and
  emits events only of the ones sent, each on the topic of its type; the acknowledged events are among them, in the order sent (as a subsequence, since copies may come
  again), and besides them at most the one whose sending failed. Relied on: the law of the brokers above, and that the JSON codec decodes what it has encoded for these events and for the envelope.\<close>

theorem onchain_events_delivered:
  assumes "kafka_law pd logs late part" "late w (topic, part topic key) = {}"
    "\<And>e d k. e \<in> set es \<Longrightarrow> marshal e = Inr d \<Longrightarrow> kind_of e = Some k \<Longrightarrow> unmarshal d k = Inr e"
    "\<And>src v. json src = Inr v \<Longrightarrow> decode v = Inr (DOnChain src)"
    "send_events marshal json \<lparr>md_pd = Some pd\<rparr> topic key es w = (w', k, r)"
  shows "(r = Inr () \<longleftrightarrow> k = length es) \<and> (\<exists>new evs. logs w' = (logs w)((topic, part topic key) := logs w (topic, part topic key) @ new)
    \<and> consume decode (extractor_handle unmarshal) (map Some new) co
      = co\<lparr>co_marked := co_marked co @ new, co_state := co_state co @ map (\<lambda>e. (eventToTopic e, e)) evs\<rparr>
    \<and> subseq (take k es) evs \<and> set evs \<subseteq> set (take (Suc k) es))"
proof -
  have topic: "kafka_topic pd logs late part" using assms(1) by (rule kafka_topic.intro)
  obtain vs new where new: "list_all2 (message_of marshal json) (take k es) vs" "subseq vs new"
    "logs w' = (logs w)((topic, part topic key) := logs w (topic, part topic key) @ new)"
    "\<forall>v \<in> set new. \<exists>e \<in> set (take (Suc k) es). message_of marshal json e v"
    using kafka_topic.send_events_log [OF topic assms(5)] assms(2) by auto
  have codec: "\<And>e d k'. e \<in> set (take (Suc k) es) \<Longrightarrow> marshal e = Inr d \<Longrightarrow> kind_of e = Some k' \<Longrightarrow> unmarshal d k' = Inr e"
    using assms(3) by (meson in_set_takeD)
  obtain f where f: "\<And>e v. e \<in> set (take (Suc k) es) \<Longrightarrow> message_of marshal json e v \<Longrightarrow> f v = e"
    "\<And>co. consume decode (extractor_handle unmarshal) (map Some new) co
      = co\<lparr>co_marked := co_marked co @ new, co_state := co_state co @ map (\<lambda>v. (eventToTopic (f v), f v)) new\<rparr>"
  proof (rule messages_consumed [where E = "set (take (Suc k) es)" and marshal = marshal and unmarshal = unmarshal and json = json and decode = decode and new = new])
  qed (use codec assms(4) new(4) in blast)+
  have "set (take k es) \<subseteq> set (take (Suc k) es)" by (simp add: set_take_subset_set_take)
  moreover have "map f us = xs" if "list_all2 (message_of marshal json) xs us" "set xs \<subseteq> set (take (Suc k) es)" for xs us
    using that by (induction rule: list_all2_induct) (auto intro: f(1))
  ultimately have "map f vs = take k es" using new(1) by blast
  then have "subseq (take k es) (map f new)" using subseq_map [OF new(2), of f] by simp
  moreover have "set (map f new) \<subseteq> set (take (Suc k) es)" using new(4) f(1) by fastforce
  ultimately show ?thesis
    using new(3) f(2) [of co] send_events_count [OF assms(5)] by (intro conjI exI [of _ new] exI [of _ "map f new"]) (simp_all add: comp_def)
qed

definition demo_json :: "KafkaOnChainEvent \<Rightarrow> bytes res" where
  "demo_json src = (if src = \<lparr>kce_Data = ''7'', kce_Topic = ''SyncChainComplete''\<rparr> then Inr [7] else Inl (Err ''unknown''))"

definition demo_decode :: "bytes \<Rightarrow> kafka_data res" where
  "demo_decode v = (if v = [7] then Inr (DOnChain \<lparr>kce_Data = ''7'', kce_Topic = ''SyncChainComplete''\<rparr>) else Inl (Err ''json''))"

theorem onchain_events_delivered_witness:
  "\<exists>new evs. fst (send_events demo_marshal demo_json \<lparr>md_pd = Some demo_broker\<rparr> ''chain'' ''k'' [EvSyncComplete \<lparr>sc_BlockNumber = Some 7\<rparr>] (\<lambda>_. [[1]])) (''chain'', 0)
       = [[1]] @ new
     \<and> co_state (consume demo_decode (extractor_handle demo_unmarshal) (map Some new)
         \<lparr>co_marked = [], co_state = [], co_logged = 0\<rparr>) = map (\<lambda>e. (eventToTopic e, e)) evs
     \<and> subseq [EvSyncComplete \<lparr>sc_BlockNumber = Some 7\<rparr>] evs"
proof -
  let ?w = "\<lambda>_ :: string \<times> int. [[1 :: byte]]"
  have run: "send_events demo_marshal demo_json \<lparr>md_pd = Some demo_broker\<rparr> ''chain'' ''k'' [EvSyncComplete \<lparr>sc_BlockNumber = Some 7\<rparr>] ?w
      = (?w((''chain'', 0) := [[1], [7], [7]]), 1, Inr ())"
    by (simp add: Assemble_def demo_marshal_def SendMessage_def demo_json_def demo_broker_def)
  have json: "demo_json src = Inr v \<Longrightarrow> demo_decode v = Inr (DOnChain src)" for src v by (simp add: demo_json_def demo_decode_def split: if_splits)
  have "\<exists>new evs. ?w((''chain'', 0) := [[1], [7], [7]]) = ?w((''chain'', 0) := [[1]] @ new)
    \<and> consume demo_decode (extractor_handle demo_unmarshal) (map Some new) \<lparr>co_marked = [], co_state = [], co_logged = 0\<rparr>
      = \<lparr>co_marked = new, co_state = map (\<lambda>e. (eventToTopic e, e)) evs, co_logged = 0\<rparr>
    \<and> subseq [EvSyncComplete \<lparr>sc_BlockNumber = Some 7\<rparr>] evs"
    using onchain_events_delivered [where unmarshal = demo_unmarshal and decode = demo_decode and co = "\<lparr>co_marked = [], co_state = [], co_logged = 0\<rparr>",
        OF demo_broker.law _ demo_codec json run] by auto
  then obtain new evs where "?w((''chain'', 0) := [[1], [7], [7]]) = ?w((''chain'', 0) := [[1]] @ new)"
    "consume demo_decode (extractor_handle demo_unmarshal) (map Some new) \<lparr>co_marked = [], co_state = [], co_logged = 0\<rparr>
      = \<lparr>co_marked = new, co_state = map (\<lambda>e. (eventToTopic e, e)) evs, co_logged = 0\<rparr>"
    "subseq [EvSyncComplete \<lparr>sc_BlockNumber = Some 7\<rparr>] evs" by blast
  moreover from this(1) have "[[1], [7], [7]] = [[1]] @ new" by (metis fun_upd_same)
  ultimately show ?thesis using run by (intro exI [of _ new] exI [of _ evs]) simp
qed

end
