(* ===== verification/Eth_Types.thy ===== *)
theory Eth_Types
  imports Types_Basic
begin

section \<open>Blocks, transactions, receipts (\<open>eth/types/types.go\<close>)\<close>

text \<open>
  The data the nodes return and the tests on it. Numbers of type \<open>types.Big\<close> are integers; the status of
  a receipt is a pointer and may be nil.
\<close>

record Block =
  bl_Number :: int
  bl_Hash :: hash
  bl_ParentHash :: hash
  bl_Nonce :: string
  bl_Sha3Uncles :: string
  bl_LogsBloom :: string
  bl_TransactionsRoot :: string
  bl_ReceiptsRoot :: string
  bl_Miner :: string
  bl_Difficulty :: int
  bl_TotalDifficulty :: int
  bl_ExtraData :: string
  bl_Size :: int
  bl_GasLimit :: int
  bl_GasUsed :: int
  bl_Timestamp :: int
  bl_Uncles :: "string list"

record Transaction =
  tr_Hash :: string
  tr_Nonce :: int
  tr_BlockHash :: string
  tr_BlockNumber :: int
  tr_TransactionIndex :: int
  tr_From :: string
  tr_To :: string
  tr_Value :: int
  tr_GasPrice :: int
  tr_Gas :: int
  tr_Input :: string
  tr_R :: string
  tr_S :: string
  tr_V :: string

record Log =
  lg_LogIndex :: int
  lg_BlockNumber :: int
  lg_BlockHash :: string
  lg_TransactionHash :: string
  lg_TransactionIndex :: int
  lg_Address :: string
  lg_Data :: string
  lg_Topics :: "string list"
  lg_Removed :: bool

record TransactionReceipt =
  rc_BlockHash :: string
  rc_BlockNumber :: int
  rc_ContractAddress :: string
  rc_CumulativeGasUsed :: int
  rc_From :: string
  rc_GasUsed :: int
  rc_Logs :: "Log list"
  rc_LogsBloom :: string
  rc_Root :: string
  rc_Status :: "int option"
  rc_To :: string
  rc_TransactionHash :: string
  rc_TransactionIndex :: int

record BlockWithTxObject = Block +
  bto_Transactions :: "Transaction list"

record BlockWithTxAndReceipt = Block +
  btr_Transactions :: "Transaction list"
  btr_Receipts :: "TransactionReceipt list"

record BlockWithTxHash = Block +
  bth_Transactions :: "string list"

record CallArg =
  ca_From :: address
  ca_To :: address
  ca_Gas :: int
  ca_GasPrice :: int
  ca_Value :: int
  ca_Data :: string
  ca_Nonce :: int

definition Block_IsNull :: "('a) Block_scheme \<Rightarrow> bool" where
  "Block_IsNull block = IsZeroHash (bl_Hash block)"

definition MethodId :: "Transaction \<Rightarrow> string" where
  "MethodId tx =
     (let input = FromHex (tr_Input tx)
      in if length input < 4 \<or> length (tr_Input tx) < 10 then [] else ToHex (take 4 input))"

definition Transaction_IsNull :: "Transaction \<Rightarrow> bool" where
  "Transaction_IsNull tx = IsZeroHash (HexToHash (tr_Hash tx))"

definition IsPending :: "Transaction \<Rightarrow> bool" where
  "IsPending tx = (if tr_BlockNumber tx \<le> 0 then True else False)"

definition EventId :: "Log \<Rightarrow> hash" where
  "EventId evtlog = (if length (lg_Topics evtlog) = 0 then NilHash else HexToHash (lg_Topics evtlog ! 0))"

definition AfterByzantiumFork :: "TransactionReceipt \<Rightarrow> bool" where
  "AfterByzantiumFork receipt \<longleftrightarrow> rc_BlockNumber receipt \<ge> 4370000"

definition StatusInvalid :: "TransactionReceipt \<Rightarrow> bool" where
  "StatusInvalid receipt = (if \<not> AfterByzantiumFork receipt then False else rc_Status receipt = None)"

definition HasNoLog :: "TransactionReceipt \<Rightarrow> bool" where
  "HasNoLog receipt \<longleftrightarrow> length (rc_Logs receipt) = 0"

text \<open>The status is read, through the pointer, after the fork only; before it the transaction is looked
  at only when the receipt has no logs.\<close>

definition Failed :: "TransactionReceipt \<Rightarrow> Transaction option \<Rightarrow> bool res" where
  "Failed receipt tx =
     (if AfterByzantiumFork receipt
      then rbind (deref (rc_Status receipt)) (\<lambda>status. if status = 1 then Inr False else Inr True)
      else if \<not> HasNoLog receipt then Inr False
      else rbind (deref tx) (\<lambda>tx. if tr_Value tx > 0 then Inr False else Inr True))"

text \<open>A receipt that \<open>StatusInvalid\<close> has let pass can be tested; the result is the status after the fork,
  and before it a receipt without logs of a transaction without value counts as failed.\<close>

lemma Failed_total:
  assumes "\<not> StatusInvalid receipt"
  shows "Failed receipt (Some tx) = Inr (if AfterByzantiumFork receipt then rc_Status receipt \<noteq> Some 1
    else rc_Logs receipt = [] \<and> tr_Value tx \<le> 0)"
  using assms by (cases "rc_Status receipt") (auto simp: Failed_def StatusInvalid_def HasNoLog_def)

text \<open>The method id of a transaction whose input is the selector followed by encoded arguments.\<close>

lemma MethodId_selector:
  assumes "length selector = 4"
  shows "MethodId (tx\<lparr>tr_Input := ToHex (selector @ args)\<rparr>) = ToHex selector"
proof -
  have "FromHex (ToHex (selector @ args)) = selector @ args" using assms by (intro FromHex_ToHex) auto
  moreover have "10 \<le> length (ToHex (selector @ args))"
    using assms by (cases selector) (simp_all add: ToHex_def Bytes2Hex_def Let_def)
  ultimately show ?thesis using assms by (simp add: MethodId_def Let_def)
qed

end
