(* ===== verification/Gas_Price.thy ===== *)
theory Gas_Price
  imports Eth_Types Redis_Cache "HOL-Library.Multiset"
begin

section \<open>The gas price evaluator (\<open>eth/gasprice_evaluator/gasprice_evaluator.go\<close>)\<close>

text \<open>
  The evaluator keeps the last blocks it was given, computes a price from their transactions and puts it
  in the cache, where \<open>EstimateGasPrice\<close> finds it. The lock, the block number and the blocks that the
  iterator yields are arguments; a failed \<open>SetString\<close> leaves the number undefined, which is an argument too.
\<close>

record GasPriceEvaluator =
  gp_Blocks :: "BlockWithTxAndReceipt list"
  gp_gasPrice :: "int option"

text \<open>\<open>sort.Sort\<close> with \<open>Less\<close> sorts the prices from high to low; equal prices are indistinguishable.\<close>

definition gasPrices_sort :: "int list \<Rightarrow> int list" where
  "gasPrices_sort prices = rev (sort prices)"

definition bestGasPrice :: "int list \<Rightarrow> int" where
  "bestGasPrice prices =
     (let prices = gasPrices_sort prices;
          startIdx = 0;
          endIdx = (length prices div 3) * 2;
          averagePrice = fold (\<lambda>price a. a + price) (drop startIdx (take endIdx prices)) 0
      in averagePrice div int (endIdx - startIdx + 1))"

definition CacheKey_Evaluated_GasPrice :: string where
  "CacheKey_Evaluated_GasPrice = ''evaluated_gasprice''"

text \<open>One round of the loop: the iterator's result is an error, which changes nothing, or a block. The error
  of \<open>cache.Set\<close> is ignored; its panic is not.\<close>

definition evaluator_round ::
  "'r Cache option \<Rightarrow> BlockWithTxAndReceipt res \<Rightarrow> GasPriceEvaluator \<times> 'r \<Rightarrow> (GasPriceEvaluator \<times> 'r) res" where
  "evaluator_round cache block er =
    (case er of (e, r) \<Rightarrow> (case block of
       Inl err \<Rightarrow> Inr (e, r)
     | Inr blockWithTxAndReceipt \<Rightarrow>
         (let blocks = gp_Blocks e @ [blockWithTxAndReceipt];
              blocks = (if length blocks > 30 then tl blocks else blocks);
              prices = concat (map (\<lambda>block. map tr_GasPrice (btr_Transactions block)) blocks);
              price = bestGasPrice prices
          in case cache_call (\<lambda>c. c_Set c CacheKey_Evaluated_GasPrice (bytes_of (big_String price)) 0) cache r of
               (r, Inl (Panic p)) \<Rightarrow> Inl (Panic p)
             | (r, _) \<Rightarrow> Inr (\<lparr>gp_Blocks = blocks, gp_gasPrice = Some price\<rparr>, r))))"

fun evaluator_rounds ::
  "'r Cache option \<Rightarrow> BlockWithTxAndReceipt res list \<Rightarrow> GasPriceEvaluator \<times> 'r \<Rightarrow> (GasPriceEvaluator \<times> 'r) res" where
  "evaluator_rounds cache [] er = Inr er"
| "evaluator_rounds cache (b # bs) er = rbind (evaluator_round cache b er) (evaluator_rounds cache bs)"

text \<open>\<open>start\<close>: the loop runs only when the lock was taken and the block number was read; the iterator
  begins five blocks back. \<open>None\<close>: no loop is started.\<close>

definition evaluator_start :: "unit res \<Rightarrow> int res \<Rightarrow> int option" where
  "evaluator_start lock blockNumber =
     (case lock of Inl _ \<Rightarrow> None
      | Inr _ \<Rightarrow> (case blockNumber of Inl _ \<Rightarrow> None | Inr n \<Rightarrow> Some (n - 5)))"

definition EstimateGasPrice :: "int \<Rightarrow> 'r Cache option \<Rightarrow> int option \<Rightarrow> int option \<Rightarrow> 'r \<Rightarrow> 'r \<times> int res" where
  "EstimateGasPrice undef cache minGasPrice maxGasPrice r =
     (case cache_call (\<lambda>c. c_Get c CacheKey_Evaluated_GasPrice) cache r of
        (r, Inl (Panic p)) \<Rightarrow> (r, Inl (Panic p))
      | (r, data) \<Rightarrow>
          (let gasprice = (case data of
                 Inl _ \<Rightarrow> 1000000000
               | Inr d \<Rightarrow> (case big_SetString10 (string_of d) of None \<Rightarrow> undef | Some x \<Rightarrow> x));
               gasprice = (case maxGasPrice of
                   Some mx \<Rightarrow> if mx < gasprice then mx
                     else (case minGasPrice of Some mn \<Rightarrow> if mn > gasprice then mn else gasprice | None \<Rightarrow> gasprice)
                 | None \<Rightarrow> (case minGasPrice of Some mn \<Rightarrow> if mn > gasprice then mn else gasprice | None \<Rightarrow> gasprice))
           in (r, Inr gasprice)))"

text \<open>
  \<open>InitGasPriceEvaluator\<close> stops an evaluator that is there by a send on its channel. The channel of an
  evaluator is never made: it is nil, and a send on a nil channel blocks forever. \<open>None\<close>: the call
  does not return.
\<close>

record evaluator_handle =
  eh_stopChan :: "bool list option"

definition evaluator_stop :: "evaluator_handle \<Rightarrow> evaluator_handle option" where
  "evaluator_stop e = (case eh_stopChan e of None \<Rightarrow> None | Some ch \<Rightarrow> Some (e\<lparr>eh_stopChan := Some (ch @ [True])\<rparr>))"

definition InitGasPriceEvaluator :: "evaluator_handle option \<Rightarrow> evaluator_handle option" where
  "InitGasPriceEvaluator priceEvaluator =
     (let new = \<lparr>eh_stopChan = None\<rparr>
      in case priceEvaluator of
           None \<Rightarrow> Some new
         | Some old \<Rightarrow> (case evaluator_stop old of None \<Rightarrow> None | Some _ \<Rightarrow> Some new))"

lemma second_Init_blocks: "InitGasPriceEvaluator None = Some e \<Longrightarrow> InitGasPriceEvaluator (Some e) = None"
  by (auto simp: InitGasPriceEvaluator_def evaluator_stop_def)

subsection \<open>The price\<close>

lemma fold_plus_sum_list: "fold (\<lambda>x a. a + x) xs (c :: int) = c + sum_list xs"
  by (induction xs arbitrary: c) simp_all

definition top_prices :: "int list \<Rightarrow> int list" where
  "top_prices prices = take (length prices div 3 * 2) (gasPrices_sort prices)"

lemma bestGasPrice_eq: "bestGasPrice prices = sum_list (top_prices prices) div int (length (top_prices prices) + 1)"
  by (simp add: bestGasPrice_def top_prices_def Let_def fold_plus_sum_list gasPrices_sort_def min_def)

lemma top_prices_mset: "mset prices = mset prices' \<Longrightarrow> top_prices prices = top_prices prices'"
  by (metis top_prices_def gasPrices_sort_def sorted_list_of_multiset_mset size_mset)

lemma top_prices_subset: "x \<in> set (top_prices prices) \<Longrightarrow> x \<in> set prices"
  unfolding top_prices_def gasPrices_sort_def by (metis in_set_takeD set_rev set_sort)

lemma sum_list_bounds:
  "(\<And>x. x \<in> set xs \<Longrightarrow> lo \<le> x \<and> x \<le> hi) \<Longrightarrow>
     int (length xs) * lo \<le> sum_list xs \<and> sum_list xs \<le> int (length xs) * (hi :: int)"
proof (induction xs)
  case (Cons x xs)
  then have "lo \<le> x \<and> x \<le> hi" "int (length xs) * lo \<le> sum_list xs \<and> sum_list xs \<le> int (length xs) * hi" by simp_all
  then show ?case by (simp add: algebra_simps)
qed simp

text \<open>Two thirds of the least price is a lower bound: at least two prices are added up.\<close>

lemma average_lower_bound:
  fixes k s lo :: int
  assumes "2 \<le> k" "0 \<le> lo" "k * lo \<le> s"
  shows "2 * lo div 3 \<le> s div (k + 1)"
proof -
  let ?q = "2 * lo div 3"
  have "0 \<le> lo * (k - 2)" using assms by simp
  then have "2 * lo * (k + 1) \<le> 3 * (k * lo)" by (simp add: algebra_simps)
  moreover have "3 * ?q * (k + 1) \<le> 2 * lo * (k + 1)" using assms by (intro mult_right_mono) simp_all
  ultimately have "?q * (k + 1) \<le> s" using assms(3) by simp
  then have "?q * (k + 1) div (k + 1) \<le> s div (k + 1)" using assms(1) by (intro zdiv_mono1) simp_all
  then show ?thesis using assms(1) by simp
qed

lemma average_upper_bound:
  fixes k s hi :: int
  assumes "0 \<le> k" "0 \<le> hi" "s \<le> k * hi"
  shows "s div (k + 1) \<le> hi"
proof -
  have "s \<le> hi * (k + 1)" using assms by (simp add: algebra_simps)
  then have "s div (k + 1) \<le> hi * (k + 1) div (k + 1)" using assms(1) by (intro zdiv_mono1) simp_all
  then show ?thesis using assms(1) by simp
qed

text \<open>Claim C39: the price depends only on which prices the transactions paid, not on their order; it is never
  above the highest of them nor negative; with three transactions or more it is at least two thirds of
  the lowest, and with fewer it is 0.\<close>

theorem bestGasPrice_bounds:
  assumes "\<And>p. p \<in> set prices \<Longrightarrow> lo \<le> p \<and> p \<le> hi" "0 \<le> lo" "0 \<le> hi" "mset prices' = mset prices"
  shows "bestGasPrice prices' = bestGasPrice prices
    \<and> 0 \<le> bestGasPrice prices \<and> bestGasPrice prices \<le> hi
    \<and> (if length prices < 3 then bestGasPrice prices = 0 else 2 * lo div 3 \<le> bestGasPrice prices)"
proof -
  let ?t = "top_prices prices"
  let ?k = "int (length ?t)"
  have k: "length ?t = length prices div 3 * 2" by (simp add: top_prices_def gasPrices_sort_def)
  have "lo \<le> x \<and> x \<le> hi" if "x \<in> set ?t" for x using that assms(1) top_prices_subset by blast
  then have s: "?k * lo \<le> sum_list ?t" "sum_list ?t \<le> ?k * hi" using sum_list_bounds [of ?t lo hi] by auto
  have "0 \<le> sum_list ?t" using s(1) assms(2) by (meson mult_nonneg_nonneg of_nat_0_le_iff order_trans)
  then have "0 \<le> bestGasPrice prices" by (simp add: bestGasPrice_eq pos_imp_zdiv_nonneg_iff)
  moreover have "bestGasPrice prices \<le> hi"
    using average_upper_bound [OF _ assms(3) s(2)] by (simp add: bestGasPrice_eq add.commute)
  moreover have "2 * lo div 3 \<le> bestGasPrice prices" if "\<not> length prices < 3"
  proof -
    have "1 \<le> length prices div 3" using that by linarith
    then have "2 \<le> ?k" using k by simp
    from average_lower_bound [OF this assms(2) s(1)] show ?thesis by (simp add: bestGasPrice_eq add.commute)
  qed
  moreover have "bestGasPrice prices = 0" if "length prices < 3" using that k by (simp add: bestGasPrice_eq)
  ultimately show ?thesis using top_prices_mset [OF assms(4)] by (simp add: bestGasPrice_eq)
qed

theorem bestGasPrice_bounds_witness:
  "4 \<le> bestGasPrice [9, 6, 7] \<and> bestGasPrice [9, 6, 7] \<le> 9 \<and> bestGasPrice [7, 9, 6] = bestGasPrice [9, 6, 7]"
proof -
  have "p \<in> set [9, 6, 7] \<Longrightarrow> 6 \<le> p \<and> p \<le> (9 :: int)" for p by auto
  from bestGasPrice_bounds [of "[9, 6, 7]" 6 9 "[7, 9, 6]", OF this] show ?thesis by simp
qed


subsection \<open>The window of blocks\<close>

definition good_blocks :: "BlockWithTxAndReceipt res list \<Rightarrow> BlockWithTxAndReceipt list" where
  "good_blocks bs = List.map_filter (\<lambda>b. case b of Inl _ \<Rightarrow> None | Inr x \<Rightarrow> Some x) bs"

lemma good_blocks_simps [simp]:
  "good_blocks [] = []" "good_blocks (Inl e # bs) = good_blocks bs" "good_blocks (Inr b # bs) = b # good_blocks bs"
  by (simp_all add: good_blocks_def map_filter_simps)

definition last_blocks :: "nat \<Rightarrow> 'b list \<Rightarrow> 'b list" where
  "last_blocks n bs = drop (length bs - n) bs"

lemma last_blocks_push:
  "last_blocks 30 (last_blocks 30 bs @ [b]) = last_blocks 30 (bs @ [b])"
  by (cases "length bs \<le> 30") (simp_all add: last_blocks_def Suc_diff_le [symmetric])

lemma last_blocks_tl: "length bs \<le> Suc n \<Longrightarrow> (if length bs > n then tl bs else bs) = last_blocks n bs"
  by (cases "length bs = Suc n") (simp_all add: last_blocks_def drop_Suc)

text \<open>What the evaluator reads out of a block.\<close>

definition block_prices :: "BlockWithTxAndReceipt list \<Rightarrow> int list" where
  "block_prices blocks = concat (map (\<lambda>block. map tr_GasPrice (btr_Transactions block)) blocks)"

text \<open>After some rounds on a cache that does not panic: the window holds the last thirty blocks received and
  the cache the price of their transactions.\<close>

lemma Redis_Set_ok:
  assumes "redis_spec srv db"
  obtains r' where "Redis_Set (pool_do srv) key value 0 r = (r', Inr ())" "db r' = (db r)(key \<mapsto> VStr value)"
proof -
  obtain r' x where rx: "Redis_Set (pool_do srv) key value 0 r = (r', x)" by fastforce
  show thesis
  proof
    show "Redis_Set (pool_do srv) key value 0 r = (r', Inr ())" "db r' = (db r)(key \<mapsto> VStr value)"
      using Redis_Set_db [OF _ rx, of db] assms rx by (auto simp: redis_spec_def)
  qed
qed

lemma evaluator_round_ok:
  assumes "redis_spec srv db" "length (gp_Blocks e) \<le> 30"
  shows "\<exists>e' r'. evaluator_round (Some (NewCache srv)) (Inr b) (e, r) = Inr (e', r')
    \<and> gp_Blocks e' = last_blocks 30 (gp_Blocks e @ [b])
    \<and> db r' CacheKey_Evaluated_GasPrice = Some (VStr (bytes_of (big_String (bestGasPrice (block_prices (gp_Blocks e'))))))"
proof -
  let ?bs = "last_blocks 30 (gp_Blocks e @ [b])"
  obtain r' where "Redis_Set (pool_do srv) CacheKey_Evaluated_GasPrice (bytes_of (big_String (bestGasPrice (block_prices ?bs)))) 0 r = (r', Inr ())"
    "db r' = (db r)(CacheKey_Evaluated_GasPrice \<mapsto> VStr (bytes_of (big_String (bestGasPrice (block_prices ?bs)))))"
    using Redis_Set_ok [OF assms(1)] by metis
  then show ?thesis
    using last_blocks_tl [of "gp_Blocks e @ [b]" 30] assms(2)
    by (simp add: evaluator_round_def cache_call_def NewCache_def block_prices_def Let_def)
qed

lemma evaluator_rounds_ok:
  assumes "redis_spec srv db" "gp_Blocks e = last_blocks 30 seen"
  shows "\<exists>e' r'. evaluator_rounds (Some (NewCache srv)) bs (e, r) = Inr (e', r')
    \<and> gp_Blocks e' = last_blocks 30 (seen @ good_blocks bs)
    \<and> (if good_blocks bs = [] then e' = e \<and> r' = r
       else db r' CacheKey_Evaluated_GasPrice = Some (VStr (bytes_of (big_String (bestGasPrice (block_prices (gp_Blocks e')))))))"
  using assms(2)
proof (induction bs arbitrary: e r seen)
  case Nil
  then show ?case by simp
next
  case (Cons b bs)
  show ?case
  proof (cases b)
    case (Inl err)
    then show ?thesis using Cons.IH [OF Cons.prems, of r] by (simp add: evaluator_round_def)
  next
    case (Inr x)
    have "length (gp_Blocks e) \<le> 30" using Cons.prems by (simp add: last_blocks_def)
    from evaluator_round_ok [OF assms(1) this] Inr obtain e1 r1 where 1:
      "evaluator_round (Some (NewCache srv)) b (e, r) = Inr (e1, r1)"
      "gp_Blocks e1 = last_blocks 30 (gp_Blocks e @ [x])"
      "db r1 CacheKey_Evaluated_GasPrice = Some (VStr (bytes_of (big_String (bestGasPrice (block_prices (gp_Blocks e1))))))"
      by blast
    have "gp_Blocks e1 = last_blocks 30 (seen @ [x])" using 1(2) Cons.prems by (simp add: last_blocks_push)
    from Cons.IH [OF this, of r1] 1 Inr show ?thesis by (auto split: if_splits)
  qed
qed

text \<open>Claim C38: whatever blocks and errors the iterator yields, the evaluator keeps the last thirty blocks
  received, and a reader that asks for a price afterwards gets the price of exactly their transactions,
  limited to the reader's bounds; no value is lost on the way through the cache as decimal text.\<close>

theorem evaluated_price_is_estimated:
  assumes "redis_spec srv db" "good_blocks bs \<noteq> []" "mn \<le> mx"
    and "evaluator_rounds (Some (NewCache srv)) bs (\<lparr>gp_Blocks = [], gp_gasPrice = None\<rparr>, r) = Inr (e', r')"
  shows "gp_Blocks e' = last_blocks 30 (good_blocks bs)
    \<and> snd (EstimateGasPrice undef (Some (NewCache srv)) (Some mn) (Some mx) r')
      = Inr (max mn (min mx (bestGasPrice (block_prices (last_blocks 30 (good_blocks bs))))))"
proof -
  have s: "redis_strings srv db" using assms(1) by (simp add: redis_spec_def)
  have g: "gp_Blocks e' = last_blocks 30 (good_blocks bs)"
    "db r' CacheKey_Evaluated_GasPrice = Some (VStr (bytes_of (big_String (bestGasPrice (block_prices (gp_Blocks e'))))))"
    using evaluator_rounds_ok [OF assms(1), of "\<lparr>gp_Blocks = [], gp_gasPrice = None\<rparr>" "[]" bs r] assms(2,4)
    by (auto simp: last_blocks_def)
  have "snd (Redis_Get (pool_do srv) CacheKey_Evaluated_GasPrice r')
      = Inr (bytes_of (big_String (bestGasPrice (block_prices (gp_Blocks e')))))"
    by (simp add: Redis_Get_db [OF s] g(2) get_reply_def)
  then show ?thesis
    using g(1) assms(3)
    by (cases "Redis_Get (pool_do srv) CacheKey_Evaluated_GasPrice r'")
      (auto simp: EstimateGasPrice_def cache_call_def NewCache_def Let_def)
qed


definition demo_block :: "int list \<Rightarrow> BlockWithTxAndReceipt" where
  "demo_block prices = \<lparr>bl_Number = 1, bl_Hash = [], bl_ParentHash = [], bl_Nonce = [], bl_Sha3Uncles = [],
     bl_LogsBloom = [], bl_TransactionsRoot = [], bl_ReceiptsRoot = [], bl_Miner = [], bl_Difficulty = 0,
     bl_TotalDifficulty = 0, bl_ExtraData = [], bl_Size = 0, bl_GasLimit = 0, bl_GasUsed = 0, bl_Timestamp = 0,
     bl_Uncles = [], btr_Transactions = map (\<lambda>p. \<lparr>tr_Hash = [], tr_Nonce = 0, tr_BlockHash = [], tr_BlockNumber = 1,
       tr_TransactionIndex = 0, tr_From = [], tr_To = [], tr_Value = 0, tr_GasPrice = p, tr_Gas = 0, tr_Input = [],
       tr_R = [], tr_S = [], tr_V = []\<rparr>) prices, btr_Receipts = []\<rparr>"

theorem evaluated_price_is_estimated_witness:
  "\<exists>e' r'. evaluator_rounds (Some (NewCache mem_redis)) [Inr (demo_block [20, 30]), Inl (Err ''e''), Inr (demo_block [10])]
       (\<lparr>gp_Blocks = [], gp_gasPrice = None\<rparr>, Map.empty) = Inr (e', r')
     \<and> snd (EstimateGasPrice 0 (Some (NewCache mem_redis)) (Some 5) (Some 100) r') = Inr 16"
proof -
  let ?bs = "[Inr (demo_block [20, 30]), Inl (Err ''e''), Inr (demo_block [10])]"
  have l: "last_blocks 30 (good_blocks ?bs) = [demo_block [20, 30], demo_block [10]]" by (simp add: last_blocks_def)
  have p: "bestGasPrice (block_prices [demo_block [20, 30], demo_block [10]]) = 16"
    by code_simp
  obtain e' r' where e: "evaluator_rounds (Some (NewCache mem_redis)) ?bs (\<lparr>gp_Blocks = [], gp_gasPrice = None\<rparr>, Map.empty) = Inr (e', r')"
    using evaluator_rounds_ok [OF mem_redis_spec, of "\<lparr>gp_Blocks = [], gp_gasPrice = None\<rparr>" "[]" ?bs Map.empty]
    unfolding last_blocks_def by (auto simp del: evaluator_rounds.simps)
  have "snd (EstimateGasPrice 0 (Some (NewCache mem_redis)) (Some 5) (Some 100) r') = Inr (max 5 (min 100 16))"
    using evaluated_price_is_estimated [OF mem_redis_spec _ _ e, of 5 100 0] unfolding l p by simp
  with e show ?thesis by (intro exI [of _ e'] exI [of _ r']) (simp del: evaluator_rounds.simps)
qed

end
