(* ===== verification/Market_Util.thy ===== *)
theory Market_Util
  imports Contract_Conv "HOL-Library.List_Lexorder" "HOL-Library.Char_ord"
begin

section \<open>Tokens and markets (\<open>marketutil/marketutil.go\<close>, \<open>types/token.go\<close>, \<open>types/market.go\<close>)\<close>

text \<open>
  The tables of tokens, markets and token pairs that the package keeps in variables, the record
  \<open>market\<close> here, and the lookups in them. The three files are parameters, already read and decoded; so are
  the orders in which Go visits a map, the hash behind \<open>Address.Hex\<close> and the rounding of a rational to a
  floating point number, \<open>F\<close>.
\<close>

subsection \<open>Numbers as text\<close>

text \<open>\<open>big.Rat.SetString\<close>: a fraction, or a decimal with an optional exponent; \<open>None\<close> when it does not parse.\<close>

definition all_digits :: "string \<Rightarrow> bool" where
  "all_digits s \<longleftrightarrow> (\<forall>c \<in> set s. digit_of c \<noteq> None)"

definition rat_decimal :: "string \<Rightarrow> rat option" where
  "rat_decimal s =
    (let ip = takeWhile (\<lambda>c. c \<noteq> CHR ''.'') s; fp = drop (length ip + 1) s
     in if ip @ fp \<noteq> [] \<and> all_digits ip \<and> all_digits fp then Some (of_nat (dec_val (ip @ fp)) / 10 ^ length fp) else None)"

definition rat_SetString :: "string \<Rightarrow> rat option" where
  "rat_SetString s =
    (if CHR ''/'' \<in> set s then
       (let a = takeWhile (\<lambda>c. c \<noteq> CHR ''/'') s; b = drop (length a + 1) s in
        case (big_SetString0 a, big_SetString0 b) of
          (Some x, Some y) \<Rightarrow> if hd b = CHR ''-'' \<or> hd b = CHR ''+'' \<or> y = 0 then None else Some (of_int x / of_int y)
        | _ \<Rightarrow> None)
     else
       (let neg = (s \<noteq> [] \<and> hd s = CHR ''-'');
            t = (if s \<noteq> [] \<and> (hd s = CHR ''-'' \<or> hd s = CHR ''+'') then tl s else s);
            m = takeWhile (\<lambda>c. c \<noteq> CHR ''e'' \<and> c \<noteq> CHR ''E'') t;
            e = (if m = t then Some 0 else big_SetString10 (drop (length m + 1) t)) in
        case (rat_decimal m, e) of
          (Some x, Some k) \<Rightarrow> Some ((if neg then - x else x) * (if 0 \<le> k then 10 ^ nat k else 1 / 10 ^ nat (- k)))
        | _ \<Rightarrow> None))"

subsection \<open>Data\<close>

record Token =
  tk_Protocol :: address
  tk_Symbol :: string
  tk_Name :: string
  tk_Source :: string
  tk_Time :: int
  tk_Deny :: bool
  tk_Decimals :: "int option"
  tk_IsMarket :: bool
  tk_IcoPrice :: "rat option"

definition zero_Token :: Token where
  "zero_Token = \<lparr>tk_Protocol = replicate 20 0, tk_Symbol = [], tk_Name = [], tk_Source = [], tk_Time = 0, tk_Deny = False,
     tk_Decimals = None, tk_IsMarket = False, tk_IcoPrice = None\<rparr>"

record TokenPair =
  tp_TokenS :: address
  tp_TokenB :: address

record Market =
  ma_ListType :: string
  ma_MarketPairs :: "string list"

record MarketDecimal =
  md_Market :: string
  md_Decimals :: int

record token_json =
  tj_Protocol :: string
  tj_Symbol :: string
  tj_Name :: string
  tj_Source :: string
  tj_Deny :: bool
  tj_Decimals :: int
  tj_IsMarket :: bool
  tj_IcoPrice :: string

record market =
  mk_SupportTokens :: "string \<rightharpoonup> Token"
  mk_AllTokens :: "string \<rightharpoonup> Token"
  mk_SupportMarkets :: "string \<rightharpoonup> Token"
  mk_AllMarkets :: "string list"
  mk_AllTokenPairs :: "TokenPair list"
  mk_DisplayMarkets :: "Market list"
  mk_SymbolTokenMap :: "address \<rightharpoonup> string"
  mk_MarketsDecimal :: "string \<rightharpoonup> MarketDecimal"

record market_env =
  me_tokens :: "(string \<rightharpoonup> Token) \<Rightarrow> string list"
  me_pairs :: "(string \<rightharpoonup> TokenPair) \<Rightarrow> string list"
  me_K :: "bytes \<Rightarrow> bytes"
  me_undef :: "string \<Rightarrow> rat"

definition MarketBaseOrder :: "string \<rightharpoonup> nat" where
  "MarketBaseOrder = [''BAR'' \<mapsto> 5, ''LRC'' \<mapsto> 10, ''WETH'' \<mapsto> 20, ''USDT'' \<mapsto> 30, ''TUSD'' \<mapsto> 40]"

definition base_order :: "string \<Rightarrow> nat" where
  "base_order s = (case MarketBaseOrder s of Some o' \<Rightarrow> o' | None \<Rightarrow> 0)"

definition get_token :: "(string \<rightharpoonup> Token) \<Rightarrow> string \<Rightarrow> Token" where
  "get_token m k = (case m k of Some t \<Rightarrow> t | None \<Rightarrow> zero_Token)"

subsection \<open>Loading\<close>

text \<open>A negative repeat count panics; a price that does not parse leaves an undefined number.\<close>

definition token_convert :: "market_env \<Rightarrow> token_json \<Rightarrow> Token res" where
  "token_convert E t =
    (if tj_Decimals t < 0 then Inl (Panic (Fatal ''strings: negative Repeat count'')) else
     Inr \<lparr>tk_Protocol = HexToAddress (tj_Protocol t), tk_Symbol = ToUpper (tj_Symbol t), tk_Name = ToUpper (tj_Name t),
       tk_Source = tj_Source t, tk_Time = 0, tk_Deny = tj_Deny t,
       tk_Decimals = big_SetString0 (''1'' @ replicate (nat (tj_Decimals t)) (CHR ''0'')), tk_IsMarket = tj_IsMarket t,
       tk_IcoPrice = (if tj_IcoPrice t \<noteq> '''' then Some (case rat_SetString (tj_IcoPrice t) of Some r \<Rightarrow> r | None \<Rightarrow> me_undef E (tj_IcoPrice t))
         else None)\<rparr>)"

definition add_token :: "Token \<Rightarrow> (string \<rightharpoonup> Token) \<times> (string \<rightharpoonup> Token) \<Rightarrow> (string \<rightharpoonup> Token) \<times> (string \<rightharpoonup> Token)" where
  "add_token t = (\<lambda>(tokens, markets). if tk_IsMarket t then (tokens, markets(tk_Symbol t \<mapsto> t)) else (tokens(tk_Symbol t \<mapsto> t), markets))"

definition load_tokens :: "market_env \<Rightarrow> token_json list \<Rightarrow> ((string \<rightharpoonup> Token) \<times> (string \<rightharpoonup> Token)) res" where
  "load_tokens E list = rbind (rmap (token_convert E) (filter (\<lambda>v. \<not> tj_Deny v) list)) (\<lambda>ts. Inr (fold add_token ts (Map.empty, Map.empty)))"

definition symbols_of :: "market_env \<Rightarrow> (string \<rightharpoonup> Token) \<Rightarrow> (address \<rightharpoonup> string) \<Rightarrow> (address \<rightharpoonup> string)" where
  "symbols_of E m = fold (\<lambda>k sm. sm(tk_Protocol (get_token m k) \<mapsto> tk_Symbol (get_token m k))) (me_tokens E m)"

definition all_markets :: "market_env \<Rightarrow> (string \<rightharpoonup> Token) \<Rightarrow> (string \<rightharpoonup> Token) \<Rightarrow> string list" where
  "all_markets E allTokens supportMarkets =
     concat (map (\<lambda>k. concat (map (\<lambda>kk.
       (case MarketBaseOrder k of
          Some o' \<Rightarrow> if o' < base_order kk then [k @ ''-'' @ kk] else []
        | None \<Rightarrow> [k @ ''-'' @ kk])) (me_tokens E supportMarkets))) (me_tokens E allTokens))"

text \<open>The two assignments to \<open>pairsMap\<close> for a market and a token.\<close>

definition pair_updates :: "Token \<Rightarrow> Token \<Rightarrow> (string \<times> TokenPair) list" where
  "pair_updates v vv =
    [(tk_Symbol v @ ''-'' @ tk_Symbol vv, \<lparr>tp_TokenS = tk_Protocol v, tp_TokenB = tk_Protocol vv\<rparr>),
     (tk_Symbol vv @ ''-'' @ tk_Symbol v, \<lparr>tp_TokenS = tk_Protocol vv, tp_TokenB = tk_Protocol v\<rparr>)]"

definition put_all :: "('k \<times> 'v) list \<Rightarrow> 'k \<rightharpoonup> 'v" where
  "put_all us = fold (\<lambda>(k, v) m. m(k \<mapsto> v)) us Map.empty"

definition range_pairs :: "market_env \<Rightarrow> (string \<rightharpoonup> TokenPair) \<Rightarrow> TokenPair list" where
  "range_pairs E m = map (\<lambda>k. the (m k)) (me_pairs E m)"

definition all_updates :: "market_env \<Rightarrow> (string \<rightharpoonup> Token) \<Rightarrow> (string \<rightharpoonup> Token) \<Rightarrow> (string \<times> TokenPair) list" where
  "all_updates E supportMarkets allTokens =
     concat (map (\<lambda>k. concat (map (\<lambda>kk. let v = get_token supportMarkets k; vv = get_token allTokens kk in
        if tk_Symbol v \<noteq> tk_Symbol vv then pair_updates v vv else []) (me_tokens E allTokens))) (me_tokens E supportMarkets))"

definition getTokenAndMarketFromDB :: "market_env \<Rightarrow> token_json list res \<Rightarrow> market \<Rightarrow> market res" where
  "getTokenAndMarketFromDB E tokenfile st =
    rbind tokenfile (\<lambda>list. rbind (load_tokens E list) (\<lambda>(supportTokens, supportMarkets).
      let allTokens = supportTokens ++ supportMarkets in
      Inr (st\<lparr>mk_SupportTokens := supportTokens, mk_SupportMarkets := supportMarkets, mk_AllTokens := allTokens,
        mk_AllMarkets := all_markets E allTokens supportMarkets,
        mk_AllTokenPairs := range_pairs E (put_all (all_updates E supportMarkets allTokens)),
        mk_SymbolTokenMap := symbols_of E supportMarkets (symbols_of E supportTokens Map.empty)\<rparr>)))"

definition getMarketsDecimal :: "MarketDecimal list res \<Rightarrow> (string \<rightharpoonup> MarketDecimal) res" where
  "getMarketsDecimal decimalfile = rbind decimalfile (\<lambda>ds. Inr (fold (\<lambda>v m. m(md_Market v \<mapsto> v)) ds Map.empty))"

text \<open>A file that cannot be read or decoded ends the program: the three arguments are then a fatal error.\<close>

definition market_Initialize :: "market_env \<Rightarrow> token_json list res \<Rightarrow> Market list res \<Rightarrow> market \<Rightarrow> market res" where
  "market_Initialize E tokenfile marketfile st =
     rbind (getTokenAndMarketFromDB E tokenfile st) (\<lambda>st. rbind marketfile (\<lambda>ms. Inr (st\<lparr>mk_DisplayMarkets := ms\<rparr>)))"

definition market_refresh :: "market_env \<Rightarrow> token_json list res \<Rightarrow> Market list res \<Rightarrow> MarketDecimal list res \<Rightarrow> market \<Rightarrow> market res" where
  "market_refresh E tokenfile marketfile decimalfile st =
     rbind (getTokenAndMarketFromDB E tokenfile st) (\<lambda>st. rbind marketfile (\<lambda>ms.
     rbind (getMarketsDecimal decimalfile) (\<lambda>ds. Inr (st\<lparr>mk_DisplayMarkets := ms, mk_MarketsDecimal := ds\<rparr>))))"

definition TokenRegister :: "market_env \<Rightarrow> TokenRegisterEvent \<Rightarrow> market \<Rightarrow> market" where
  "TokenRegister E evt st =
    (let token = zero_Token\<lparr>tk_Protocol := tre_Token evt, tk_Symbol := ToUpper (tre_Symbol evt), tk_Time := tx_BlockTime evt\<rparr>;
         updates = concat (map (\<lambda>k. pair_updates (get_token (mk_SupportMarkets st) k) token) (me_tokens E (mk_SupportMarkets st))) in
     st\<lparr>mk_SupportTokens := (mk_SupportTokens st)(tk_Symbol token \<mapsto> token),
        mk_AllTokens := (mk_AllTokens st)(tk_Symbol token \<mapsto> token),
        mk_AllTokenPairs := mk_AllTokenPairs st @ range_pairs E (put_all updates)\<rparr>)"

definition TokenUnRegister :: "TokenRegisterEvent \<Rightarrow> market \<Rightarrow> market" where
  "TokenUnRegister evt st =
     st\<lparr>mk_SupportTokens := (mk_SupportTokens st)(ToUpper (tre_Symbol evt) := None),
        mk_AllTokens := (mk_AllTokens st)(ToUpper (tre_Symbol evt) := None),
        mk_AllTokenPairs := filter (\<lambda>v. \<not> (tp_TokenS v = tre_Token evt \<or> tp_TokenB v = tre_Token evt)) (mk_AllTokenPairs st)\<rparr>"

subsection \<open>Names of markets\<close>

definition IsSupportedMarket :: "market \<Rightarrow> string \<Rightarrow> bool" where
  "IsSupportedMarket st m \<longleftrightarrow> mk_SupportMarkets st (ToUpper m) \<noteq> None"

definition isSupportedToken :: "market \<Rightarrow> string \<Rightarrow> bool" where
  "isSupportedToken st t \<longleftrightarrow> mk_SupportTokens st (ToUpper t) \<noteq> None"

definition WrapMarket :: "market \<Rightarrow> string \<Rightarrow> string \<Rightarrow> string res" where
  "WrapMarket st s b =
    (let s = ToUpper s; b = ToUpper b in
     if IsSupportedMarket st s \<and> isSupportedToken st b then Inr (b @ ''-'' @ s)
     else if IsSupportedMarket st b \<and> isSupportedToken st s then Inr (s @ ''-'' @ b)
     else if IsSupportedMarket st b \<and> IsSupportedMarket st s
     then (if base_order s < base_order b then Inr (s @ ''-'' @ b) else Inr (b @ ''-'' @ s))
     else Inl (Err (''not supported market type : '' @ s @ ''-'' @ b)))"

fun split_on :: "char \<Rightarrow> string \<Rightarrow> string \<Rightarrow> string list" where
  "split_on c [] acc = [acc]"
| "split_on c (x # xs) acc = (if x = c then acc # split_on c xs [] else split_on c xs (acc @ [x]))"

definition is_space :: "char \<Rightarrow> bool" where
  "is_space c \<longleftrightarrow> (let k = of_char c :: nat in 9 \<le> k \<and> k \<le> 13 \<or> k = 32)"

definition TrimSpace :: "string \<Rightarrow> string" where
  "TrimSpace s = rev (dropWhile is_space (rev (dropWhile is_space s)))"

definition UnWrap :: "string \<Rightarrow> string \<times> string" where
  "UnWrap market = (case split_on (CHR ''-'') (TrimSpace market) [] of [s, b] \<Rightarrow> (ToUpper s, ToUpper b) | _ \<Rightarrow> ('''', ''''))"

definition AliasToAddress :: "market \<Rightarrow> string \<Rightarrow> address" where
  "AliasToAddress st t = tk_Protocol (get_token (mk_AllTokens st) t)"

definition AliasToSource :: "market \<Rightarrow> string \<Rightarrow> string" where
  "AliasToSource st t = tk_Source (get_token (mk_AllTokens st) t)"

definition WethTokenAddress :: "market \<Rightarrow> address" where
  "WethTokenAddress st = AliasToAddress st ''WETH''"

definition UnWrapToAddress :: "market \<Rightarrow> string \<Rightarrow> address \<times> address" where
  "UnWrapToAddress st market = (case UnWrap market of (sa, sb) \<Rightarrow> (AliasToAddress st sa, AliasToAddress st sb))"

definition find_address :: "market_env \<Rightarrow> market \<Rightarrow> string \<Rightarrow> string option" where
  "find_address E st t = find (\<lambda>k. ToUpper t = ToUpper (Address_Hex (me_K E) (tk_Protocol (get_token (mk_AllTokens st) k)))) (me_tokens E (mk_AllTokens st))"

definition AddressToAlias :: "market_env \<Rightarrow> market \<Rightarrow> string \<Rightarrow> string" where
  "AddressToAlias E st t = (case find_address E st t of Some k \<Rightarrow> k | None \<Rightarrow> '''')"

definition AddressToSource :: "market_env \<Rightarrow> market \<Rightarrow> string \<Rightarrow> string" where
  "AddressToSource E st t = (case find_address E st t of Some k \<Rightarrow> tk_Source (get_token (mk_AllTokens st) k) | None \<Rightarrow> '''')"

definition AddressToToken :: "market_env \<Rightarrow> market \<Rightarrow> address \<Rightarrow> Token res" where
  "AddressToToken E st t =
    (case find (\<lambda>k. tk_Protocol (get_token (mk_AllTokens st) k) = t) (me_tokens E (mk_AllTokens st)) of
       Some k \<Rightarrow> Inr (get_token (mk_AllTokens st) k)
     | None \<Rightarrow> Inl (Err (''unsupported token:'' @ Address_Hex (me_K E) t)))"

definition WrapMarketByAddress :: "market_env \<Rightarrow> market \<Rightarrow> string \<Rightarrow> string \<Rightarrow> string res" where
  "WrapMarketByAddress E st s b = WrapMarket st (AddressToAlias E st s) (AddressToAlias E st b)"

definition GetSymbolWithAddress :: "market_env \<Rightarrow> market \<Rightarrow> address \<Rightarrow> string res" where
  "GetSymbolWithAddress E st address = (case mk_SymbolTokenMap st address of
     Some symbol \<Rightarrow> Inr symbol | None \<Rightarrow> Inl (Err (''market util, unsupported address:'' @ Address_Hex (me_K E) address)))"

definition IsAddress :: "string \<Rightarrow> bool" where
  "IsAddress token \<longleftrightarrow> take 2 token = ''0x''"

subsection \<open>Sides and prices\<close>

definition GetSide :: "market_env \<Rightarrow> market \<Rightarrow> string \<Rightarrow> string \<Rightarrow> string" where
  "GetSide E st s b =
    (let s = (if IsAddress s then AddressToAlias E st s else s); b = (if IsAddress b then AddressToAlias E st b else b) in
     if IsSupportedMarket st s \<and> isSupportedToken st b then ''buy''
     else if IsSupportedMarket st b \<and> isSupportedToken st s then ''sell''
     else if IsSupportedMarket st b \<and> IsSupportedMarket st s
     then (if base_order s < base_order b then ''sell'' else ''buy'')
     else '''')"

definition rat_Quo :: "rat \<Rightarrow> rat \<Rightarrow> rat res" where
  "rat_Quo x y = (if y = 0 then Inl (Panic DivByZero) else Inr (x / y))"

text \<open>An amount that does not parse is a nil pointer, which the comparison with zero reads.\<close>

definition CalculatePrice :: "(rat \<Rightarrow> 'f) \<Rightarrow> market_env \<Rightarrow> market \<Rightarrow> string \<Rightarrow> string \<Rightarrow> string \<Rightarrow> string \<Rightarrow> 'f res" where
  "CalculatePrice F E st amtS amtB s b =
    (case (mk_AllTokens st (AddressToAlias E st s), mk_AllTokens st (AddressToAlias E st b)) of
       (Some tokenS, Some tokenB) \<Rightarrow>
         rbind (deref (big_SetString0 amtS)) (\<lambda>as.
         if as = 0 then Inr (F 0) else
         rbind (deref (big_SetString0 amtB)) (\<lambda>ab.
         if ab = 0 then Inr (F 0) else
         rbind (if GetSide E st s b = ''buy''
                then rbind (rat_SetFrac (Some as) (tk_Decimals tokenS)) (\<lambda>x. rbind (rat_SetFrac (Some ab) (tk_Decimals tokenB)) (rat_Quo x))
                else rbind (rat_SetFrac (Some ab) (tk_Decimals tokenB)) (\<lambda>x. rbind (rat_SetFrac (Some as) (tk_Decimals tokenS)) (rat_Quo x)))
           (\<lambda>price. Inr (F price))))
     | _ \<Rightarrow> Inr (F 0))"

definition StringToFloat :: "(rat \<Rightarrow> 'f) \<Rightarrow> market_env \<Rightarrow> market \<Rightarrow> string \<Rightarrow> string \<Rightarrow> 'f res" where
  "StringToFloat F E st token amount =
    rbind (AddressToToken E st (HexToAddress token)) (\<lambda>ts.
    rbind (deref (tk_Decimals ts)) (\<lambda>d.
    rbind (deref (rat_SetString amount)) (\<lambda>rst.
    rbind (rat_Quo rst (of_int (big_Int64 d))) (\<lambda>r. Inr (F r)))))"


subsection \<open>Decimals\<close>

lemma base_val_zeros: "base_val 10 (''1'' @ replicate n (CHR ''0'')) = 10 ^ n"
proof -
  have "foldl (\<lambda>a c. a * 10 + the (fromHexChar c)) x (replicate n (CHR ''0'')) = x * 10 ^ n" for x :: nat
    by (induction n arbitrary: x) (simp_all add: fromHexChar_def)
  then show ?thesis by (simp add: base_val_def fromHexChar_def)
qed

lemma token_decimals:
  assumes "token_convert E t = Inr u"
  shows "tk_Decimals u = Some (10 ^ nat (tj_Decimals t))"
proof -
  let ?s = "''1'' @ replicate (nat (tj_Decimals t)) (CHR ''0'')"
  have "base_digits 10 ?s" by (auto simp: base_digits_def fromHexChar_def)
  moreover have "take 2 ?s \<noteq> ''0x''" "take 2 ?s \<noteq> ''0X''" "take 2 ?s \<noteq> ''0b''" "take 2 ?s \<noteq> ''0B''"
    by (simp_all add: take_Cons' split: if_splits)
  ultimately have "big_SetString0 ?s = Some (10 ^ nat (tj_Decimals t))"
    using base_val_zeros [of "nat (tj_Decimals t)"] by (simp add: big_SetString0_def Let_def)
  then show ?thesis using assms by (auto simp: token_convert_def split: if_splits)
qed

text \<open>\<open>StringToFloat\<close> divides by the low 64 bits of the unit: from 19 decimals on the result has nothing to do with the amount.\<close>

lemma StringToFloat_overflow:
  assumes "AddressToToken E st (HexToAddress token) = Inr ts" "tk_Decimals ts = Some (10 ^ 19)" "rat_SetString amount = Some x"
  shows "StringToFloat F E st token amount = Inr (F (x / of_int (10 ^ 19 - 2 ^ 64)))"
proof -
  have "big_Int64 (10 ^ 19) = 10 ^ 19 - 2 ^ 64" by (simp add: big_Int64_def)
  then show ?thesis using assms by (simp add: StringToFloat_def rat_Quo_def)
qed

subsection \<open>One name per market\<close>

lemma split_on_none: "c \<notin> set s \<Longrightarrow> split_on c s acc = [acc @ s]"
  by (induction s arbitrary: acc) auto

lemma split_on_one: "c \<notin> set s \<Longrightarrow> split_on c (s @ c # t) acc = (acc @ s) # split_on c t []"
  by (induction s arbitrary: acc) auto

definition plain_symbol :: "string \<Rightarrow> bool" where
  "plain_symbol s \<longleftrightarrow> ToUpper s = s \<and> \<not> IsAddress s \<and> s \<noteq> [] \<and> CHR ''-'' \<notin> set s \<and> list_all (\<lambda>c. \<not> is_space c) s"

lemma dropWhile_none: "list_all (\<lambda>c. \<not> P c) s \<Longrightarrow> dropWhile P s = s"
  by (cases s) auto

lemma UnWrap_plain:
  assumes "plain_symbol s" "plain_symbol b"
  shows "UnWrap (s @ ''-'' @ b) = (s, b)"
proof -
  have ns: "list_all (\<lambda>c. \<not> is_space c) (s @ ''-'' @ b)" using assms by (auto simp: plain_symbol_def is_space_def)
  then have "list_all (\<lambda>c. \<not> is_space c) (rev (s @ ''-'' @ b))" by (simp only: list_all_rev)
  then have "TrimSpace (s @ ''-'' @ b) = s @ ''-'' @ b"
    using dropWhile_none [OF ns] by (simp only: TrimSpace_def dropWhile_none rev_rev_ident)
  then show ?thesis using assms by (simp add: UnWrap_def split_on_one split_on_none plain_symbol_def)
qed

definition markets_ok :: "market \<Rightarrow> bool" where
  "markets_ok st \<longleftrightarrow> (\<forall>k. mk_SupportTokens st k = None \<or> mk_SupportMarkets st k = None)
     \<and> (\<forall>k k'. mk_SupportMarkets st k \<noteq> None \<longrightarrow> mk_SupportMarkets st k' \<noteq> None \<longrightarrow> base_order k = base_order k' \<longrightarrow> k = k')"

text \<open>The three cases: the first symbol is quoted in the second, the second in the first, or there is no such market.\<close>

lemma wrap_cases:
  assumes "markets_ok st" "plain_symbol s" "plain_symbol b" "s \<noteq> b" "WrapMarket st s b = Inr m"
  shows "(m = b @ ''-'' @ s \<and> GetSide E st s b = ''buy'' \<and> GetSide E st b s = ''sell'' \<and> WrapMarket st b s = Inr m)
       \<or> (m = s @ ''-'' @ b \<and> GetSide E st s b = ''sell'' \<and> GetSide E st b s = ''buy'' \<and> WrapMarket st b s = Inr m)"
proof -
  have up: "ToUpper s = s" "ToUpper b = b" "\<not> IsAddress s" "\<not> IsAddress b" using assms(2,3) by (auto simp: plain_symbol_def)
  have "mk_SupportTokens st s = None \<or> mk_SupportMarkets st s = None" "mk_SupportTokens st b = None \<or> mk_SupportMarkets st b = None"
    using assms(1) by (auto simp: markets_ok_def)
  moreover have "base_order s \<noteq> base_order b" if "mk_SupportMarkets st s \<noteq> None" "mk_SupportMarkets st b \<noteq> None"
    using assms(1,4) that by (auto simp: markets_ok_def)
  ultimately show ?thesis
    using assms(5) up by (auto simp: WrapMarket_def GetSide_def IsSupportedMarket_def isSupportedToken_def Let_def split: if_splits)
qed

text \<open>
  Claim C32: a market has one name, for tables in which no symbol is both a token and a market and no two markets have the same rank in \<open>MarketBaseOrder\<close> (a market without an entry has rank 0), and for
  upper-case symbols that are neither addresses nor contain the separator. Whichever of two such symbols is sold, \<open>WrapMarket\<close> gives the same name; \<open>UnWrap\<close> gives the two
  symbols back, and \<open>GetSide\<close> is "buy" for the one order of the symbols and "sell" for the other, "buy" exactly when the
  sold symbol is the one the market is quoted in. The conditions are needed: two markets of equal rank get two names, by the next lemma.
\<close>

theorem wrap_market_sides:
  assumes "markets_ok st" "plain_symbol s" "plain_symbol b" "s \<noteq> b" "WrapMarket st s b = Inr m"
  shows "WrapMarket st b s = Inr m \<and> {fst (UnWrap m), snd (UnWrap m)} = {s, b}
     \<and> (snd (UnWrap m) = s \<longrightarrow> GetSide E st s b = ''buy'' \<and> GetSide E st b s = ''sell'')
     \<and> (snd (UnWrap m) = b \<longrightarrow> GetSide E st s b = ''sell'' \<and> GetSide E st b s = ''buy'')"
  using wrap_cases [OF assms, of E] UnWrap_plain assms(2-4) by auto

lemma equal_rank_two_names:
  assumes "plain_symbol s" "plain_symbol b" "s \<noteq> b" "mk_SupportMarkets st s \<noteq> None" "mk_SupportMarkets st b \<noteq> None"
    "mk_SupportTokens st s = None" "mk_SupportTokens st b = None" "base_order s = base_order b"
  shows "WrapMarket st s b = Inr (b @ ''-'' @ s)" "WrapMarket st b s = Inr (s @ ''-'' @ b)"
  using assms by (auto simp: WrapMarket_def IsSupportedMarket_def isSupportedToken_def plain_symbol_def Let_def)

definition demo_market :: market where
  "demo_market = \<lparr>mk_SupportTokens = [''RDN'' \<mapsto> zero_Token], mk_AllTokens = [''RDN'' \<mapsto> zero_Token, ''WETH'' \<mapsto> zero_Token, ''LRC'' \<mapsto> zero_Token],
     mk_SupportMarkets = [''WETH'' \<mapsto> zero_Token, ''LRC'' \<mapsto> zero_Token], mk_AllMarkets = [], mk_AllTokenPairs = [], mk_DisplayMarkets = [],
     mk_SymbolTokenMap = Map.empty, mk_MarketsDecimal = Map.empty\<rparr>"

theorem wrap_market_sides_witness:
  "WrapMarket demo_market ''LRC'' ''WETH'' = Inr ''LRC-WETH'' \<and> WrapMarket demo_market ''WETH'' ''LRC'' = Inr ''LRC-WETH''"
proof -
  have "WrapMarket demo_market ''LRC'' ''WETH'' = Inr ''LRC-WETH''"
    by (simp add: WrapMarket_def demo_market_def IsSupportedMarket_def isSupportedToken_def ToUpper_def upper_char_def base_order_def MarketBaseOrder_def)
  moreover have "markets_ok demo_market" by (auto simp: markets_ok_def demo_market_def base_order_def MarketBaseOrder_def split: if_splits)
  moreover have "plain_symbol ''LRC''" "plain_symbol ''WETH''"
    by (simp_all add: plain_symbol_def ToUpper_def upper_char_def IsAddress_def is_space_def)
  ultimately show ?thesis using wrap_market_sides [of demo_market "''LRC''" "''WETH''"] by auto
qed


subsection \<open>One price per market\<close>

lemma GetSide_address:
  assumes "IsAddress s" "IsAddress b" "\<not> IsAddress (AddressToAlias E st s)" "\<not> IsAddress (AddressToAlias E st b)"
  shows "GetSide E st s b = GetSide E st (AddressToAlias E st s) (AddressToAlias E st b)"
  using assms by (simp add: GetSide_def)

text \<open>
  An order and the order on the other side of the market that exchanges the same amounts have the same price:
  \<open>CalculatePrice\<close> is the amount of the quoting token per unit of the other one, whichever of the two is sold.
\<close>

theorem price_side_independent:
  assumes "markets_ok st" "IsAddress s" "IsAddress b"
    "plain_symbol (AddressToAlias E st s)" "plain_symbol (AddressToAlias E st b)" "AddressToAlias E st s \<noteq> AddressToAlias E st b"
    "WrapMarket st (AddressToAlias E st s) (AddressToAlias E st b) = Inr m"
    "mk_AllTokens st (AddressToAlias E st s) = Some tokenS" "mk_AllTokens st (AddressToAlias E st b) = Some tokenB"
    "tk_Decimals tokenS = Some ds" "tk_Decimals tokenB = Some db" "0 < ds" "0 < db"
    "big_SetString0 x = Some as" "big_SetString0 y = Some ab" "0 < as" "0 < ab"
  shows "CalculatePrice F E st x y s b = CalculatePrice F E st y x b s
     \<and> CalculatePrice F E st x y s b = Inr (F (if GetSide E st s b = ''buy''
          then (of_int as / of_int ds) / (of_int ab / of_int db) else (of_int ab / of_int db) / (of_int as / of_int ds)))"
proof -
  have na: "\<not> IsAddress (AddressToAlias E st s)" "\<not> IsAddress (AddressToAlias E st b)" using assms(4,5) by (auto simp: plain_symbol_def)
  have "GetSide E st s b = ''buy'' \<and> GetSide E st b s = ''sell'' \<or> GetSide E st s b = ''sell'' \<and> GetSide E st b s = ''buy''"
    using wrap_cases [OF assms(1,4-7), of E] GetSide_address [OF assms(2,3) na] GetSide_address [OF assms(3,2) na(2,1)] by auto
  then show ?thesis using assms(8-17) by (auto simp: CalculatePrice_def rat_Quo_def)
qed

definition addr_of :: "byte \<Rightarrow> address" where
  "addr_of b = replicate 19 0 @ [b]"

definition demo_token :: "string \<Rightarrow> byte \<Rightarrow> nat \<Rightarrow> Token" where
  "demo_token s b n = zero_Token\<lparr>tk_Protocol := addr_of b, tk_Symbol := s, tk_Decimals := Some (10 ^ n)\<rparr>"

definition demo_prices :: market where
  "demo_prices = demo_market\<lparr>mk_SupportTokens := [''RDN'' \<mapsto> demo_token ''RDN'' 1 18],
     mk_AllTokens := [''RDN'' \<mapsto> demo_token ''RDN'' 1 18, ''WETH'' \<mapsto> demo_token ''WETH'' 2 18],
     mk_SupportMarkets := [''WETH'' \<mapsto> demo_token ''WETH'' 2 18]\<rparr>"

definition demo_menv :: market_env where
  "demo_menv = \<lparr>me_tokens = (\<lambda>m. [''RDN'', ''WETH'']), me_pairs = (\<lambda>m. []), me_K = (\<lambda>_. replicate 32 0), me_undef = (\<lambda>_. 0)\<rparr>"

lemma demo_hex: "Address_Hex (\<lambda>_. replicate 32 0) (addr_of b) = ''0x'' @ hex_encode (addr_of b)"
proof -
  have "i < 40 \<Longrightarrow> replicate 32 (0 :: byte) ! (i div 2) = 0" for i by (rule nth_replicate) simp
  then show ?thesis by (auto simp: Address_Hex_def Let_def addr_of_def intro!: nth_equalityI)
qed

lemma demo_alias:
  "AddressToAlias demo_menv demo_prices (''0x'' @ hex_encode (addr_of 1)) = ''RDN''"
  "AddressToAlias demo_menv demo_prices (''0x'' @ hex_encode (addr_of 2)) = ''WETH''"
proof -
  have "ToUpper (hex_encode (addr_of 1)) \<noteq> ToUpper (hex_encode (addr_of 2))"
    by (simp add: addr_of_def hex_encode_def ToUpper_def hexdig_def upper_char_def char_of_eq_iff)
  then show "AddressToAlias demo_menv demo_prices (''0x'' @ hex_encode (addr_of 1)) = ''RDN''"
      "AddressToAlias demo_menv demo_prices (''0x'' @ hex_encode (addr_of 2)) = ''WETH''"
    by (auto simp: AddressToAlias_def find_address_def demo_menv_def demo_prices_def demo_hex get_token_def demo_token_def ToUpper_def)
qed

theorem price_side_independent_witness:
  "CalculatePrice (\<lambda>x. x) demo_menv demo_prices (big_String 6000) (big_String 3) (''0x'' @ hex_encode (addr_of 1)) (''0x'' @ hex_encode (addr_of 2))
   = CalculatePrice (\<lambda>x. x) demo_menv demo_prices (big_String 3) (big_String 6000) (''0x'' @ hex_encode (addr_of 2)) (''0x'' @ hex_encode (addr_of 1))"
proof -
  have 1: "markets_ok demo_prices" by (auto simp: markets_ok_def demo_prices_def split: if_splits)
  have 2: "plain_symbol ''RDN''" "plain_symbol ''WETH''"
    by (simp_all add: plain_symbol_def ToUpper_def upper_char_def IsAddress_def is_space_def)
  have 3: "WrapMarket demo_prices ''RDN'' ''WETH'' = Inr ''RDN-WETH''"
    by (simp add: WrapMarket_def demo_prices_def IsSupportedMarket_def isSupportedToken_def ToUpper_def upper_char_def)
  have 4: "mk_AllTokens demo_prices ''RDN'' = Some (demo_token ''RDN'' 1 18)" "mk_AllTokens demo_prices ''WETH'' = Some (demo_token ''WETH'' 2 18)"
    by (simp_all add: demo_prices_def)
  show ?thesis
    using price_side_independent [of demo_prices "''0x'' @ hex_encode (addr_of 1)" "''0x'' @ hex_encode (addr_of 2)" demo_menv, unfolded demo_alias,
        OF 1 _ _ 2 _ 3 4, of "10 ^ 18" "10 ^ 18" "big_String 6000" 6000 "big_String 3" 3 "\<lambda>x. x"]
    by (simp add: IsAddress_def demo_token_def)
qed


subsection \<open>Token pairs\<close>

definition keyed :: "(string \<rightharpoonup> Token) \<Rightarrow> bool" where
  "keyed m \<longleftrightarrow> (\<forall>k t. m k = Some t \<longrightarrow> tk_Symbol t = k \<and> CHR ''-'' \<notin> set k)"

lemma put_all_map_of: "put_all us = map_of (rev us)"
proof -
  have "fold (\<lambda>(k, v) m. m(k \<mapsto> v)) us m0 = m0 ++ map_of (rev us)" for m0 :: "'a \<rightharpoonup> 'b"
    by (induction us arbitrary: m0) (auto simp: fun_eq_iff map_add_def split: option.splits)
  then show ?thesis by (simp add: put_all_def)
qed

lemma ran_put_all:
  assumes "\<And>k v v'. (k, v) \<in> set us \<Longrightarrow> (k, v') \<in> set us \<Longrightarrow> v = v'"
  shows "ran (put_all us) = snd ` set us"
proof
  show "ran (put_all us) \<subseteq> snd ` set us"
    by (auto simp: put_all_map_of ran_def image_iff dest!: map_of_SomeD) force
  show "snd ` set us \<subseteq> ran (put_all us)"
  proof
    fix v assume "v \<in> snd ` set us"
    then obtain k where kv: "(k, v) \<in> set us" by auto
    then obtain v' where "map_of (rev us) k = Some v'" using weak_map_of_SomeI [of k v "rev us"] by auto
    then show "v \<in> ran (put_all us)" using assms [OF kv] map_of_SomeD by (fastforce simp: put_all_map_of ran_def)
  qed
qed

lemma dash_key_inj:
  "CHR ''-'' \<notin> set s \<Longrightarrow> CHR ''-'' \<notin> set s' \<Longrightarrow> s @ ''-'' @ t = s' @ ''-'' @ t' \<Longrightarrow> s = s' \<and> t = t'"
  by (induction s arbitrary: s') (auto simp: Cons_eq_append_conv)

lemma keyed_upd: "keyed m \<Longrightarrow> CHR ''-'' \<notin> set (tk_Symbol t) \<Longrightarrow> keyed (m(tk_Symbol t \<mapsto> t))"
  by (auto simp: keyed_def)

lemma load_tokens_keyed:
  assumes "load_tokens E list = Inr (tokens, markets)" "\<forall>v \<in> set list. CHR ''-'' \<notin> set (ToUpper (tj_Symbol v))"
  shows "keyed tokens \<and> keyed markets"
proof -
  obtain ts where ts: "rmap (token_convert E) (filter (\<lambda>v. \<not> tj_Deny v) list) = Inr ts" "fold add_token ts (Map.empty, Map.empty) = (tokens, markets)"
    using assms(1) by (auto simp: load_tokens_def)
  have "rmap (token_convert E) xs = Inr ys \<Longrightarrow> set xs \<subseteq> set list \<Longrightarrow> \<forall>t \<in> set ys. CHR ''-'' \<notin> set (tk_Symbol t)" for xs ys
    using assms(2) by (induction xs arbitrary: ys) (auto simp: token_convert_def split: if_splits)
  then have "\<forall>t \<in> set ts. CHR ''-'' \<notin> set (tk_Symbol t)" using ts(1) by (metis filter_is_subset)
  then have "keyed (fst m) \<and> keyed (snd m) \<Longrightarrow> keyed (fst (fold add_token ts m)) \<and> keyed (snd (fold add_token ts m))" for m
  proof (induction ts arbitrary: m)
    case (Cons t ts)
    have "keyed (fst (add_token t m)) \<and> keyed (snd (add_token t m))"
      using Cons.prems by (auto simp: add_token_def split_beta intro!: keyed_upd)
    then show ?case using Cons.IH [of "add_token t m"] Cons.prems by simp
  qed simp
  from this [of "(Map.empty, Map.empty)"] show ?thesis using ts(2) by (simp add: keyed_def)
qed

lemma get_token_Some: "m k = Some t \<Longrightarrow> get_token m k = t"
  by (simp add: get_token_def)

text \<open>The pairs between a market and a token of another symbol, in both directions.\<close>

definition pairs_between :: "(string \<rightharpoonup> Token) \<Rightarrow> (string \<rightharpoonup> Token) \<Rightarrow> TokenPair set" where
  "pairs_between markets tokens = {\<lparr>tp_TokenS = tk_Protocol v, tp_TokenB = tk_Protocol w\<rparr> | v w.
     (v \<in> ran markets \<and> w \<in> ran tokens \<or> w \<in> ran markets \<and> v \<in> ran tokens) \<and> tk_Symbol v \<noteq> tk_Symbol w}"

lemma all_updates_set:
  assumes "range_order markets (me_tokens E markets)" "range_order tokens (me_tokens E tokens)"
  shows "set (all_updates E markets tokens) = (\<Union>v \<in> ran markets. \<Union>w \<in> ran tokens.
     if tk_Symbol v \<noteq> tk_Symbol w then set (pair_updates v w) else {})"
proof -
  have "ran m = get_token m ` dom m" for m by (force simp: ran_def get_token_def image_iff dom_def)
  then have "ran markets = get_token markets ` set (me_tokens E markets)" "ran tokens = get_token tokens ` set (me_tokens E tokens)"
    using assms [THEN range_orderD(2)] by simp_all
  then show ?thesis by (auto simp: all_updates_def Let_def split: if_splits)
qed

lemma all_updates_consistent:
  assumes "keyed tokens" "markets \<subseteq>\<^sub>m tokens" "range_order markets (me_tokens E markets)" "range_order tokens (me_tokens E tokens)"
    "(k, p) \<in> set (all_updates E markets tokens)" "(k, p') \<in> set (all_updates E markets tokens)"
  shows "p = p'"
proof -
  have shape: "\<exists>v w. v \<in> ran tokens \<and> w \<in> ran tokens \<and> k = tk_Symbol v @ ''-'' @ tk_Symbol w
      \<and> p = \<lparr>tp_TokenS = tk_Protocol v, tp_TokenB = tk_Protocol w\<rparr>" if "(k, p) \<in> set (all_updates E markets tokens)" for p
  proof -
    have "ran markets \<subseteq> ran tokens" using assms(2) by (force simp: map_le_def ran_def dom_def)
    then show ?thesis using that by (auto simp: all_updates_set [OF assms(3,4)] pair_updates_def split: if_splits)
  qed
  from shape [OF assms(5)] shape [OF assms(6)] obtain v w v' w' where
    vw: "v \<in> ran tokens" "w \<in> ran tokens" "v' \<in> ran tokens" "w' \<in> ran tokens"
      "tk_Symbol v @ ''-'' @ tk_Symbol w = tk_Symbol v' @ ''-'' @ tk_Symbol w'"
      "p = \<lparr>tp_TokenS = tk_Protocol v, tp_TokenB = tk_Protocol w\<rparr>" "p' = \<lparr>tp_TokenS = tk_Protocol v', tp_TokenB = tk_Protocol w'\<rparr>"
    by auto
  have key: "tokens (tk_Symbol t) = Some t \<and> CHR ''-'' \<notin> set (tk_Symbol t)" if "t \<in> ran tokens" for t
    using assms(1) that by (auto simp: keyed_def ran_def)
  have "tk_Symbol v = tk_Symbol v' \<and> tk_Symbol w = tk_Symbol w'"
    using dash_key_inj [OF _ _ vw(5)] key [OF vw(1)] key [OF vw(3)] by blast
  then have "v = v'" "w = w'" using key [OF vw(1)] key [OF vw(3)] key [OF vw(2)] key [OF vw(4)] by (metis option.inject)+
  then show ?thesis using vw(6,7) by simp
qed


lemma loaded_pairs:
  assumes "keyed tokens" "markets \<subseteq>\<^sub>m tokens" "range_order markets (me_tokens E markets)" "range_order tokens (me_tokens E tokens)"
    "range_order (put_all (all_updates E markets tokens)) (me_pairs E (put_all (all_updates E markets tokens)))"
  shows "set (range_pairs E (put_all (all_updates E markets tokens))) = pairs_between markets tokens"
proof -
  let ?us = "all_updates E markets tokens"
  have "set (range_pairs E (put_all ?us)) = ran (put_all ?us)"
    using range_orderD(2) [OF assms(5)] by (force simp: range_pairs_def ran_def image_iff dom_def)
  also have "\<dots> = snd ` set ?us" using all_updates_consistent [OF assms(1-4)] by (rule ran_put_all)
  also have "\<dots> = (\<Union>v \<in> ran markets. \<Union>w \<in> ran tokens. if tk_Symbol v \<noteq> tk_Symbol w
      then {\<lparr>tp_TokenS = tk_Protocol v, tp_TokenB = tk_Protocol w\<rparr>, \<lparr>tp_TokenS = tk_Protocol w, tp_TokenB = tk_Protocol v\<rparr>} else {})"
    by (auto simp: all_updates_set [OF assms(3,4)] pair_updates_def image_UN split: if_splits)
  also have "\<dots> = pairs_between markets tokens" by (fastforce simp: pairs_between_def split: if_splits)
  finally show ?thesis .
qed

text \<open>
  After the token file has been loaded, \<open>AllTokenPairs\<close> is exactly the pairs of a market token and a token of another
  symbol, in both directions: the keys of the map in between, made of two symbols and a hyphen, neither lose a
  pair nor confuse two, as long as no symbol contains a hyphen.
\<close>

theorem token_pairs_exact:
  assumes "getTokenAndMarketFromDB E (Inr list) st = Inr st'" "\<forall>v \<in> set list. CHR ''-'' \<notin> set (ToUpper (tj_Symbol v))"
    "\<And>m. finite (dom m) \<Longrightarrow> range_order m (me_tokens E m)" "\<And>m. finite (dom m) \<Longrightarrow> range_order m (me_pairs E m)"
  shows "set (mk_AllTokenPairs st') = pairs_between (mk_SupportMarkets st') (mk_AllTokens st')"
proof -
  obtain tokens markets where l: "load_tokens E list = Inr (tokens, markets)"
    and st': "mk_SupportMarkets st' = markets" "mk_AllTokens st' = tokens ++ markets"
      "mk_AllTokenPairs st' = range_pairs E (put_all (all_updates E markets (tokens ++ markets)))"
    using assms(1) by (auto simp: getTokenAndMarketFromDB_def Let_def)
  have k: "keyed (tokens ++ markets)" using load_tokens_keyed [OF l assms(2)] by (auto simp: keyed_def map_add_Some_iff)
  have "finite (dom (fst m)) \<and> finite (dom (snd m)) \<Longrightarrow> finite (dom (fst (fold add_token ts m))) \<and> finite (dom (snd (fold add_token ts m)))" for ts m
    by (induction ts arbitrary: m) (simp_all add: add_token_def split_beta)
  from this [of "(Map.empty, Map.empty)"] have "finite (dom tokens) \<and> finite (dom markets)" using l by (auto simp: load_tokens_def) (metis fst_conv snd_conv)+
  moreover have "finite (dom (put_all us))" for us :: "(string \<times> TokenPair) list" by (simp add: put_all_map_of finite_dom_map_of)
  ultimately show ?thesis
    using loaded_pairs [OF k map_le_map_add] assms(3,4) st' by simp
qed


definition sorted_env :: market_env where
  "sorted_env = \<lparr>me_tokens = (\<lambda>m. sorted_list_of_set (dom m)), me_pairs = (\<lambda>m. sorted_list_of_set (dom m)),
     me_K = (\<lambda>_. replicate 32 0), me_undef = (\<lambda>_. 0)\<rparr>"

definition demo_file :: "token_json list" where
  "demo_file = [\<lparr>tj_Protocol = ''0x01'', tj_Symbol = ''weth'', tj_Name = ''Wrapped Ether'', tj_Source = ''ethereum'', tj_Deny = False,
       tj_Decimals = 18, tj_IsMarket = True, tj_IcoPrice = ''''\<rparr>,
     \<lparr>tj_Protocol = ''0x02'', tj_Symbol = ''lrc'', tj_Name = ''Loopring'', tj_Source = ''loopring'', tj_Deny = False,
       tj_Decimals = 18, tj_IsMarket = False, tj_IcoPrice = ''''\<rparr>]"

theorem token_pairs_exact_witness:
  "\<exists>st'. getTokenAndMarketFromDB sorted_env (Inr demo_file) demo_market = Inr st'
     \<and> set (mk_AllTokenPairs st') = pairs_between (mk_SupportMarkets st') (mk_AllTokens st')"
proof -
  obtain st' where st': "getTokenAndMarketFromDB sorted_env (Inr demo_file) demo_market = Inr st'"
    by (simp add: getTokenAndMarketFromDB_def load_tokens_def demo_file_def token_convert_def Let_def split_beta)
  have "\<forall>v \<in> set demo_file. CHR ''-'' \<notin> set (ToUpper (tj_Symbol v))" by (simp add: demo_file_def ToUpper_def upper_char_def char_of_eq_iff eq_commute [of "CHR ''-''"])
  then show ?thesis using token_pairs_exact [OF st'] st' by (auto simp: sorted_env_def range_order_def)
qed

subsection \<open>Registration\<close>

text \<open>Unregistering removes the token and every pair with it; it leaves \<open>SymbolTokenMap\<close> and \<open>AllMarkets\<close> as they are, so that the
  symbol of the address is still found.\<close>

lemma unregister_removes:
  "isSupportedToken (TokenUnRegister evt st) (tre_Symbol evt) = False"
  "p \<in> set (mk_AllTokenPairs (TokenUnRegister evt st)) \<longleftrightarrow>
     p \<in> set (mk_AllTokenPairs st) \<and> tp_TokenS p \<noteq> tre_Token evt \<and> tp_TokenB p \<noteq> tre_Token evt"
  by (auto simp: isSupportedToken_def TokenUnRegister_def)

lemma unregister_keeps_symbol: "GetSymbolWithAddress E (TokenUnRegister evt st) a = GetSymbolWithAddress E st a"
  by (simp add: GetSymbolWithAddress_def TokenUnRegister_def)

lemma range_pairs_SomeI: "range_order m (me_pairs E m) \<Longrightarrow> p \<in> set (range_pairs E m) \<Longrightarrow> \<exists>k. m k = Some p"
  by (auto simp: range_pairs_def) (metis option.sel range_order_SomeI)

lemma register_pairs:
  assumes "\<And>m. finite (dom m) \<Longrightarrow> range_order m (me_pairs E m)"
  obtains new where "mk_AllTokenPairs (TokenRegister E evt st) = mk_AllTokenPairs st @ new"
    "\<And>p. p \<in> set new \<Longrightarrow> tp_TokenS p = tre_Token evt \<or> tp_TokenB p = tre_Token evt"
proof -
  let ?t = "zero_Token\<lparr>tk_Protocol := tre_Token evt, tk_Symbol := ToUpper (tre_Symbol evt), tk_Time := tx_BlockTime evt\<rparr>"
  let ?us = "concat (map (\<lambda>k. pair_updates (get_token (mk_SupportMarkets st) k) ?t) (me_tokens E (mk_SupportMarkets st)))"
  have "tp_TokenS p = tre_Token evt \<or> tp_TokenB p = tre_Token evt" if p: "p \<in> set (range_pairs E (put_all ?us))" for p
  proof -
    have "range_order (put_all ?us) (me_pairs E (put_all ?us))" by (rule assms) (simp add: put_all_map_of finite_dom_map_of)
    then obtain k where "put_all ?us k = Some p" using range_pairs_SomeI [OF _ p] by blast
    then have "(k, p) \<in> set ?us" by (auto simp: put_all_map_of dest!: map_of_SomeD)
    then show ?thesis by (auto simp: pair_updates_def)
  qed
  then show thesis using that [of "range_pairs E (put_all ?us)"] by (simp add: TokenRegister_def Let_def)
qed

text \<open>Unregistering a token that has just been registered gives back the pairs and the tables there were.\<close>

lemma register_unregister:
  assumes "mk_SupportTokens st (ToUpper (tre_Symbol evt)) = None" "mk_AllTokens st (ToUpper (tre_Symbol evt)) = None"
    "\<forall>p \<in> set (mk_AllTokenPairs st). tp_TokenS p \<noteq> tre_Token evt \<and> tp_TokenB p \<noteq> tre_Token evt"
    "\<And>m. finite (dom m) \<Longrightarrow> range_order m (me_pairs E m)"
  shows "TokenUnRegister evt (TokenRegister E evt st) = st"
proof -
  let ?q = "\<lambda>v. \<not> (tp_TokenS v = tre_Token evt \<or> tp_TokenB v = tre_Token evt)"
  obtain new where new: "mk_AllTokenPairs (TokenRegister E evt st) = mk_AllTokenPairs st @ new"
      "\<And>p. p \<in> set new \<Longrightarrow> tp_TokenS p = tre_Token evt \<or> tp_TokenB p = tre_Token evt"
    using register_pairs [OF assms(4)] by metis
  then have "filter ?q new = []" by (simp add: filter_empty_conv)
  then have "filter ?q (mk_AllTokenPairs (TokenRegister E evt st)) = mk_AllTokenPairs st"
    using new(1) assms(3) by (simp add: filter_id_conv)
  then show ?thesis using assms(1,2) by (simp add: TokenUnRegister_def TokenRegister_def Let_def fun_upd_idem)
qed

end
