(* ===== verification/Eth_Clients.thy ===== *)
theory Eth_Clients
  imports Go_State Eth_Types Redis_Cache "HOL-Library.List_Lexorder" "HOL-Library.Char_ord"
begin

section \<open>The pool of Ethereum nodes (\<open>eth/accessor/accessor_mutilclient.go\<close>)\<close>

text \<open>
  The table of nodes, the choice of a node for a block and the calls to it. The world outside is a state
  \<open>'w\<close>: the nodes, the cache, the order in which Go visits a map and the random numbers; what the code
  calls of it is the record \<open>node_env\<close>. Of the table of nodes that are down only the keys are ever read;
  it is a set of addresses. A call decodes the node's answer into a target: \<open>tg_dec\<close> decodes, \<open>tg_big\<close>
  says how a number is stored when the target is a \<open>types.Big\<close>, and \<open>tg_old\<close> is what the target held.
\<close>

subsection \<open>What is outside\<close>

datatype rpc_arg = PStr string | PBool bool | PAddr address | PCall CallArg

datatype rpc_val = JNull | JBig int | JText string | JTx Transaction | JReceipt TransactionReceipt
  | JBlockHash BlockWithTxHash | JBlockTx BlockWithTxObject

record RpcClient =
  rp_url :: string
  rp_blockNumber :: "int option"

record MutilClient =
  mc_clients :: "string \<rightharpoonup> RpcClient"
  mc_downed :: "string set"

record 'w node_env =
  ne_dial :: "string \<Rightarrow> ('w, unit) st"
  ne_call :: "string \<Rightarrow> string \<Rightarrow> rpc_arg list \<Rightarrow> ('w, rpc_val) st"
  ne_batch :: "string \<Rightarrow> (string \<times> rpc_arg list) list \<Rightarrow> ('w, rpc_val res list) st"
  ne_cache :: "'w Cache option"
  ne_keys :: "(string \<rightharpoonup> RpcClient) \<Rightarrow> 'w \<Rightarrow> string list"
  ne_rand :: "nat \<Rightarrow> ('w, nat) st"
  ne_undef :: "string \<Rightarrow> int"

record 'a target =
  tg_dec :: "rpc_val \<Rightarrow> 'a res"
  tg_big :: "(int \<Rightarrow> 'a) option"
  tg_old :: 'a

text \<open>What the runtime promises: \<open>range\<close> visits every key of a map once, \<open>rand.Intn\<close> is below its
  argument.\<close>

definition runtime_laws :: "'w node_env \<Rightarrow> bool" where
  "runtime_laws env \<longleftrightarrow> (\<forall>m w. finite (dom m) \<longrightarrow> range_order m (ne_keys env m w))
     \<and> (\<forall>n w w' k. ne_rand env n w = (w', Inr k) \<longrightarrow> 0 < n \<longrightarrow> k < n)
     \<and> (\<forall>n w w' e. ne_rand env n w \<noteq> (w', Inl e))"

text \<open>Decoding into a number leaves it unchanged when the answer is null.\<close>

fun as_big :: "int \<Rightarrow> rpc_val \<Rightarrow> int res" where
  "as_big old (JBig n) = Inr n"
| "as_big old JNull = Inr old"
| "as_big old _ = Inl (Err ''json: cannot unmarshal'')"

definition big_target :: "int target" where
  "big_target = \<lparr>tg_dec = as_big 0, tg_big = Some (\<lambda>n. n), tg_old = 0\<rparr>"

definition rpc_call :: "'w node_env \<Rightarrow> (rpc_val \<Rightarrow> 'a res) \<Rightarrow> string \<Rightarrow> string \<Rightarrow> rpc_arg list \<Rightarrow> ('m \<times> 'w, 'a) st" where
  "rpc_call env dec url method args = sbind (on_snd (ne_call env url method args)) (\<lambda>v. slift (dec v))"

definition on_cache :: "'w node_env \<Rightarrow> ('w Cache \<Rightarrow> ('w, 'a) st) \<Rightarrow> ('m \<times> 'w, 'a) st" where
  "on_cache env method = on_snd (cache_call method (ne_cache env))"

definition mod_mc :: "('m \<Rightarrow> 'm) \<Rightarrow> ('m \<times> 'w, unit) st" where
  "mod_mc f = smod (\<lambda>(m, w). (f m, w))"

subsection \<open>The table of nodes\<close>

definition mark_down :: "string \<Rightarrow> ('x MutilClient_scheme \<times> 'w, unit) st" where
  "mark_down url = mod_mc (\<lambda>mc. mc\<lparr>mc_downed := insert url (mc_downed mc)\<rparr>)"

definition newRpcClient :: "'w node_env \<Rightarrow> string \<Rightarrow> ('x MutilClient_scheme \<times> 'w, unit) st" where
  "newRpcClient env url =
    sbind (stry (on_snd (ne_dial env url))) (\<lambda>dialled. case dialled of
      Inl err \<Rightarrow> mark_down url
    | Inr _ \<Rightarrow> sbind (stry (rpc_call env (as_big 0) url ''eth_blockNumber'' [])) (\<lambda>blockNumber. case blockNumber of
        Inl err \<Rightarrow> mark_down url
      | Inr _ \<Rightarrow> mod_mc (\<lambda>mc. mc\<lparr>mc_clients := (mc_clients mc)(url \<mapsto> \<lparr>rp_url = url, rp_blockNumber = None\<rparr>)\<rparr>)))"

definition NewMutilClient :: "'w node_env \<Rightarrow> string list \<Rightarrow> 'w \<Rightarrow> (MutilClient \<times> 'w) \<times> unit res" where
  "NewMutilClient env urls w = sfor (newRpcClient env) urls (\<lparr>mc_clients = Map.empty, mc_downed = {}\<rparr>, w)"

definition range_clients :: "'w node_env \<Rightarrow> ('x MutilClient_scheme \<times> 'w, string list) st" where
  "range_clients env = sget (\<lambda>(mc, w). ne_keys env (mc_clients mc) w)"

definition BLOCKS :: string where
  "BLOCKS = ''blocks_''"

definition USAGE_CLIENT_BLOCK :: string where
  "USAGE_CLIENT_BLOCK = ''usage_client_block_''"

definition sync_client :: "'w node_env \<Rightarrow> string \<Rightarrow> RpcClient \<Rightarrow> ('x MutilClient_scheme \<times> 'w, unit) st" where
  "sync_client env key client =
    sbind (stry (rpc_call env (as_big 0) (rp_url client) ''eth_blockNumber'' [])) (\<lambda>r. case r of
      Inl err \<Rightarrow> mark_down (rp_url client)
    | Inr blockNumber \<Rightarrow>
        let blockNumberStr = big_String blockNumber in
        sbind (mod_mc (\<lambda>mc. mc\<lparr>mc_downed := mc_downed mc - {rp_url client},
            mc_clients := (mc_clients mc)(key \<mapsto> client\<lparr>rp_blockNumber := Some blockNumber\<rparr>)\<rparr>)) (\<lambda>_.
        sbind (stry (on_cache env (\<lambda>c. c_SAdd c (USAGE_CLIENT_BLOCK @ blockNumberStr) (86400 * 3) [bytes_of (rp_url client)]))) (\<lambda>_.
        sbind (stry (on_cache env (\<lambda>c. c_ZAdd c BLOCKS 0 [bytes_of blockNumberStr, bytes_of blockNumberStr]))) (\<lambda>_.
        sbind (stry (on_cache env (\<lambda>c. c_ZRemRangeByScore c BLOCKS 0 (sint (word_of_int (Big_Int64 blockNumber - 2000) :: 64 word))))) (\<lambda>_.
        sret ())))))"

definition sync_body :: "'w node_env \<Rightarrow> string \<Rightarrow> ('x MutilClient_scheme \<times> 'w, unit) st" where
  "sync_body env key =
    sbind (sget (\<lambda>s. mc_clients (fst s) key)) (\<lambda>c. case c of None \<Rightarrow> sret () | Some client \<Rightarrow> sync_client env key client)"

definition syncBlockNumber :: "'w node_env \<Rightarrow> ('x MutilClient_scheme \<times> 'w, unit) st" where
  "syncBlockNumber env = sbind (range_clients env) (sfor (sync_body env))"

text \<open>The goroutine that synchronises every three seconds, after \<open>n\<close> rounds.\<close>

definition startSyncBlockNumber :: "'w node_env \<Rightarrow> nat \<Rightarrow> ('x MutilClient_scheme \<times> 'w, unit) st" where
  "startSyncBlockNumber env n = sfor (\<lambda>_. syncBlockNumber env) [0 ..< n]"

text \<open>When the target is not a \<open>types.Big\<close> the error that is made is dropped, and the target unchanged.\<close>

definition MC_BlockNumber :: "'w node_env \<Rightarrow> 'a target \<Rightarrow> ('m \<times> 'w, 'a) st" where
  "MC_BlockNumber env tg =
    sbind (on_cache env (\<lambda>c. c_ZRange c BLOCKS (- 1) (- 1) False)) (\<lambda>data.
      if length data > 0 \<and> length (data ! 0) > 0
      then sret (case tg_big tg of
             Some store \<Rightarrow> store (case big_SetString0 (string_of (data ! 0)) of
               None \<Rightarrow> ne_undef env (string_of (data ! 0)) | Some n \<Rightarrow> n)
           | None \<Rightarrow> tg_old tg)
      else sfail (Err ''BlockNumber can't get from cache''))"

definition useageClient :: "'w node_env \<Rightarrow> string \<Rightarrow> ('m \<times> 'w, string list \<times> go_error option) st" where
  "useageClient env blockNumberStr =
    sbind (stry (on_cache env (\<lambda>c. c_SMembers c (USAGE_CLIENT_BLOCK @ blockNumberStr)))) (\<lambda>r. case r of
      Inl err \<Rightarrow> sret ([], Some err)
    | Inr data \<Rightarrow>
        if length data > 0 then sret (map string_of (filter (\<lambda>d. length d > 0) data), None)
        else sret ([], Some (Err (''cant get client by blocknumer:'' @ blockNumberStr))))"

subsection \<open>The choice of a node\<close>

fun usage_loop :: "'w node_env \<Rightarrow> string list \<Rightarrow> string list \<Rightarrow> ('x MutilClient_scheme \<times> 'w, string list) st" where
  "usage_loop env [] urls = sret urls"
| "usage_loop env (url # usageUrls) urls =
    sbind (sget (\<lambda>(mc, w). mc_clients mc url = None \<and> url \<notin> mc_downed mc)) (\<lambda>unknown.
    sbind (if unknown then newRpcClient env url else sret ()) (\<lambda>_.
    sbind (sget (\<lambda>(mc, w). url \<in> mc_downed mc)) (\<lambda>down.
      usage_loop env usageUrls (if down then urls else urls @ [url]))))"

text \<open>The nodes that are not down and not known to be behind the block.\<close>

definition reaching_urls :: "'x MutilClient_scheme \<Rightarrow> string list \<Rightarrow> int \<Rightarrow> string list" where
  "reaching_urls mc keys blockNumber = filter (\<lambda>url. url \<notin> mc_downed mc \<and>
     (case mc_clients mc url of None \<Rightarrow> False
      | Some client \<Rightarrow> (case rp_blockNumber client of None \<Rightarrow> True | Some n \<Rightarrow> n \<ge> blockNumber))) keys"

definition range_reaching :: "'w node_env \<Rightarrow> int \<Rightarrow> ('x MutilClient_scheme \<times> 'w, string list) st" where
  "range_reaching env blockNumber =
     sbind (range_clients env) (\<lambda>keys. sget (\<lambda>(mc, w). reaching_urls mc keys blockNumber))"

definition route_block :: "'w node_env \<Rightarrow> string \<Rightarrow> ('m \<times> 'w, int) st" where
  "route_block env routeParam =
    (if routeParam = ''latest'' \<or> routeParam = ''''
     then sbind (stry (MC_BlockNumber env big_target)) (\<lambda>r. sret (case r of Inl _ \<Rightarrow> 0 | Inr n \<Rightarrow> n))
     else if CHR '':'' \<in> set routeParam then sret 0
     else if take 2 routeParam = ''0x'' then sret (HexToBigint routeParam)
     else sret (case big_SetString0 routeParam of None \<Rightarrow> ne_undef env routeParam | Some n \<Rightarrow> n))"

definition specific_client :: "'x MutilClient_scheme \<Rightarrow> string list \<Rightarrow> string \<Rightarrow> RpcClient option" where
  "specific_client mc keys routeParam =
     find (\<lambda>c. routeParam = rp_url c) (List.map_filter (mc_clients mc) keys)"

definition candidate_urls :: "'w node_env \<Rightarrow> int \<Rightarrow> ('x MutilClient_scheme \<times> 'w, string list) st" where
  "candidate_urls env blockNumber =
    sbind (useageClient env (big_String blockNumber)) (\<lambda>usageUrls.
    sbind (usage_loop env (fst usageUrls) []) (\<lambda>urls.
    sbind (if length urls \<le> 0 then range_reaching env blockNumber else sret urls) (\<lambda>urls.
    if length urls = 0 then sbind (syncBlockNumber env) (\<lambda>_. range_reaching env blockNumber) else sret urls)))"

definition draw_client :: "'w node_env \<Rightarrow> string list \<Rightarrow> ('x MutilClient_scheme \<times> 'w, RpcClient option) st" where
  "draw_client env urls =
    (if length urls > 0
     then sbind (on_snd (ne_rand env (length urls))) (\<lambda>idx. sget (\<lambda>(mc, w). mc_clients mc (urls ! idx)))
     else sret None)"

definition pick_client :: "'w node_env \<Rightarrow> string \<Rightarrow> ('x MutilClient_scheme \<times> 'w, RpcClient option) st" where
  "pick_client env routeParam =
    sbind (route_block env routeParam) (\<lambda>blockNumber. sbind (candidate_urls env blockNumber) (draw_client env))"

definition bestClient :: "'w node_env \<Rightarrow> string \<Rightarrow> ('x MutilClient_scheme \<times> 'w, RpcClient option) st" where
  "bestClient env routeParam =
    sbind (range_clients env) (\<lambda>keys.
    sbind (sget (\<lambda>(mc, w). if routeParam \<noteq> ''latest'' \<and> CHR '':'' \<in> set routeParam
                            then specific_client mc keys routeParam else None)) (\<lambda>found.
    case found of Some c \<Rightarrow> sret (Some c) | None \<Rightarrow> pick_client env routeParam))"

subsection \<open>Calls\<close>

fun send_loop :: "'w node_env \<Rightarrow> 'a target \<Rightarrow> string \<Rightarrow> rpc_arg list \<Rightarrow> string list \<Rightarrow> 'a option \<Rightarrow> go_error option
    \<Rightarrow> ('x MutilClient_scheme \<times> 'w, 'a option \<times> go_error option) st" where
  "send_loop env tg method args [] sent err = sret (sent, err)"
| "send_loop env tg method args (url # urls) sent err =
    sbind (stry (rpc_call env (tg_dec tg) url method args)) (\<lambda>r. case r of
      Inl err1 \<Rightarrow> send_loop env tg method args urls sent (Some err1)
    | Inr v \<Rightarrow> send_loop env tg method args urls (Some v) err)"

definition routed_call :: "'w node_env \<Rightarrow> 'a target \<Rightarrow> string \<Rightarrow> string \<Rightarrow> rpc_arg list
    \<Rightarrow> ('x MutilClient_scheme \<times> 'w, string \<times> 'a) st" where
  "routed_call env tg routeParam method args =
    sbind (bestClient env routeParam) (\<lambda>rpcClient. case rpcClient of
      None \<Rightarrow> sfail (Err ''there isn't an usable ethnode'')
    | Some c \<Rightarrow> sbind (rpc_call env (tg_dec tg) (rp_url c) method args) (\<lambda>v. sret (rp_url c, v)))"

definition MC_Call :: "'w node_env \<Rightarrow> 'a target \<Rightarrow> string \<Rightarrow> string \<Rightarrow> rpc_arg list
    \<Rightarrow> ('x MutilClient_scheme \<times> 'w, string \<times> 'a) st" where
  "MC_Call env tg routeParam method args =
    (if method = ''eth_blockNumber''
     then sbind (stry (MC_BlockNumber env tg)) (\<lambda>r. case r of
            Inr v \<Rightarrow> sret ('''', v)
          | Inl err \<Rightarrow> routed_call env tg routeParam method args)
     else if method = ''eth_sendRawTransaction''
     then sbind (range_clients env) (\<lambda>keys.
          sbind (send_loop env tg method args keys None None) (\<lambda>(sent, err). case sent of
            Some v \<Rightarrow> sret ('''', v)
          | None \<Rightarrow> (case err of Some e \<Rightarrow> sfail e | None \<Rightarrow> sret ('''', tg_old tg))))
     else routed_call env tg routeParam method args)"

definition MC_BatchCall :: "'w node_env \<Rightarrow> string \<Rightarrow> (string \<times> rpc_arg list) list
    \<Rightarrow> ('x MutilClient_scheme \<times> 'w, string \<times> rpc_val res list) st" where
  "MC_BatchCall env routeParam b =
    sbind (bestClient env routeParam) (\<lambda>rpcClient. case rpcClient of
      None \<Rightarrow> sfail (Err ''there isn't an usable ethnode'')
    | Some c \<Rightarrow> sbind (on_snd (ne_batch env (rp_url c) b)) (\<lambda>rs. sret (rp_url c, rs)))"


subsection \<open>The invariant of the table\<close>

definition wf_mc :: "'x MutilClient_scheme \<Rightarrow> bool" where
  "wf_mc mc \<longleftrightarrow> finite (dom (mc_clients mc)) \<and> (\<forall>u c. mc_clients mc u = Some c \<longrightarrow> rp_url c = u)"

abbreviation wf_pool :: "'x MutilClient_scheme \<times> 'w \<Rightarrow> bool" where
  "wf_pool s \<equiv> wf_mc (fst s)"

lemma keeps_rpc_call [keeps_intros]: "(\<And>m w w'. I (m, w) \<Longrightarrow> I (m, w')) \<Longrightarrow> keeps I (rpc_call env dec url method args)"
  unfolding rpc_call_def by (intro keeps_intros)

lemma keeps_on_cache [keeps_intros]: "(\<And>m w w'. I (m, w) \<Longrightarrow> I (m, w')) \<Longrightarrow> keeps I (on_cache env f)"
  unfolding on_cache_def by (intro keeps_intros)

lemma keeps_mod_mc [keeps_intros]: "(\<And>m w. I (m, w) \<Longrightarrow> I (f m, w)) \<Longrightarrow> keeps I (mod_mc f)"
  unfolding mod_mc_def by (intro keeps_smod) auto

lemma keeps_mark_down [keeps_intros]: "keeps wf_pool (mark_down url)"
  unfolding mark_down_def by (intro keeps_intros) (simp add: wf_mc_def)

lemma keeps_newRpcClient [keeps_intros]: "keeps wf_pool (newRpcClient env url)"
  unfolding newRpcClient_def by (intro keeps_intros) (auto simp: wf_mc_def)

lemma wf_mc_url: "wf_mc mc \<Longrightarrow> mc_clients mc u = Some c \<Longrightarrow> rp_url c = u"
  by (simp add: wf_mc_def)

lemma keeps_sync_client: "rp_url client = key \<Longrightarrow> keeps wf_pool (sync_client env key client)"
  unfolding sync_client_def Let_def by (intro keeps_intros) (auto simp: wf_mc_def)

lemma keeps_sync_body [keeps_intros]: "keeps wf_pool (sync_body env key)"
  unfolding sync_body_def
  by (rule keeps_sbind_sget) (auto simp: sret_def split: option.split intro!: keepsD [OF keeps_sync_client] dest: wf_mc_url)

lemma keeps_syncBlockNumber [keeps_intros]: "keeps wf_pool (syncBlockNumber env)"
  unfolding syncBlockNumber_def range_clients_def by (intro keeps_intros)

lemma keeps_startSync: "keeps wf_pool (startSyncBlockNumber env n)"
  unfolding startSyncBlockNumber_def by (intro keeps_intros)

lemma keeps_usage_loop [keeps_intros]: "keeps wf_pool (usage_loop env us urls)"
  by (induction us arbitrary: urls) (simp_all add: keeps_intros)

lemmas client_defs = bestClient_def pick_client_def candidate_urls_def draw_client_def range_reaching_def range_clients_def route_block_def
  MC_BlockNumber_def useageClient_def

lemma keeps_bestClient [keeps_intros]: "keeps wf_pool (bestClient env routeParam)"
  unfolding client_defs by (intro keeps_intros) simp_all


subsection \<open>The chosen node is usable\<close>

text \<open>A set of addresses that are in the table and not down.\<close>

definition up :: "'x MutilClient_scheme \<Rightarrow> string set \<Rightarrow> bool" where
  "up mc us \<longleftrightarrow> us \<subseteq> dom (mc_clients mc) - mc_downed mc"

text \<open>Calls and the cache leave the table alone.\<close>

lemma on_snd_table: "on_snd f s = (s', r) \<Longrightarrow> fst s' = fst s"
  by (metis fst_conv fst_on_snd)

lemma rpc_call_table: "rpc_call env dec url method args s = (s', r) \<Longrightarrow> fst s' = fst s"
  by (auto simp: rpc_call_def sbind_def slift_def split: prod.splits sum.splits dest: on_snd_table)

lemma on_cache_table: "on_cache env f s = (s', r) \<Longrightarrow> fst s' = fst s"
  unfolding on_cache_def by (rule on_snd_table)

lemma newRpcClient_outcome:
  assumes "newRpcClient env url (mc, w) = ((mc', w'), Inr x)"
  shows "mc' = mc\<lparr>mc_downed := insert url (mc_downed mc)\<rparr>
    \<or> mc' = mc\<lparr>mc_clients := (mc_clients mc)(url \<mapsto> \<lparr>rp_url = url, rp_blockNumber = None\<rparr>)\<rparr>"
  using assms unfolding newRpcClient_def
  by (elim sbind_stryE) (auto simp: mark_down_def mod_mc_def smod_def dest!: rpc_call_table on_snd_table elim!: sbind_stryE)

lemma usage_loop_up:
  "usage_loop env us urls (mc, w) = ((mc', w'), Inr urls') \<Longrightarrow> up mc (set urls) \<Longrightarrow> up mc' (set urls')"
proof (induction us arbitrary: urls mc w)
  case Nil
  then show ?case by (simp add: sret_def)
next
  case (Cons url us)
  let ?unknown = "mc_clients mc url = None \<and> url \<notin> mc_downed mc"
  from Cons.prems(1) obtain mc1 w1 where
    1: "(if ?unknown then newRpcClient env url else sret ()) (mc, w) = ((mc1, w1), Inr ())" and
    2: "usage_loop env us (if url \<in> mc_downed mc1 then urls else urls @ [url]) (mc1, w1) = ((mc', w'), Inr urls')"
    by (auto simp: sbind_Inr_iff sget_def)
  have "up mc1 (set urls) \<and> (url \<in> mc_downed mc1 \<or> up mc1 {url})"
  proof (cases ?unknown)
    case True
    then have "newRpcClient env url (mc, w) = ((mc1, w1), Inr ())" using 1 by simp
    from newRpcClient_outcome [OF this] show ?thesis using True Cons.prems(2) by (auto simp: up_def)
  next
    case False
    then have "mc1 = mc" using 1 by (auto simp: sret_def)
    then show ?thesis using False Cons.prems(2) by (auto simp: up_def)
  qed
  then have "up mc1 (set (if url \<in> mc_downed mc1 then urls else urls @ [url]))" by (auto simp: up_def)
  then show ?case using Cons.IH [OF 2] by simp
qed

lemma range_reaching_outcome:
  assumes "runtime_laws env" "wf_mc mc" "range_reaching env n (mc, w) = (s', Inr urls)"
  shows "s' = (mc, w) \<and> up mc (set urls)
    \<and> (urls = [] \<longrightarrow> (\<forall>u c. mc_clients mc u = Some c \<longrightarrow> u \<in> mc_downed mc \<or> (\<exists>b. rp_blockNumber c = Some b \<and> b < n)))"
proof -
  have "range_order (mc_clients mc) (ne_keys env (mc_clients mc) w)"
    using assms(1,2) by (simp add: runtime_laws_def wf_mc_def)
  then have "set (ne_keys env (mc_clients mc) w) = dom (mc_clients mc)" by (rule range_orderD)
  moreover have "s' = (mc, w) \<and> urls = reaching_urls mc (ne_keys env (mc_clients mc) w) n"
    using assms(3) by (auto simp: range_reaching_def range_clients_def sbind_Inr_iff sget_def)
  ultimately show ?thesis
    by (fastforce simp: reaching_urls_def up_def filter_empty_conv split: option.splits)
qed


text \<open>A route that is the decimal text of a block number asks for that block.\<close>

lemma dec_text_char: "0 \<le> k \<Longrightarrow> c \<in> set (big_String k) \<Longrightarrow> digit_of c \<noteq> None"
  using dec_of_nat_digits by (simp add: big_String_def)

lemma dec_text_plain:
  assumes "0 \<le> k"
  shows "big_String k \<noteq> ''latest''" "big_String k \<noteq> []" "CHR '':'' \<notin> set (big_String k)" "take 2 (big_String k) \<noteq> ''0x''"
proof -
  have d: "digit_of CHR ''l'' = None" "digit_of CHR '':'' = None" "digit_of CHR ''x'' = None" by (simp_all add: digit_of_def)
  show "big_String k \<noteq> []" using assms by (simp add: big_String_def)
  show "big_String k \<noteq> ''latest''" using dec_text_char [OF assms, of "CHR ''l''"] d by auto
  show "CHR '':'' \<notin> set (big_String k)" using dec_text_char [OF assms, of "CHR '':''"] d by auto
  have "take 2 (big_String k) = ''0x'' \<Longrightarrow> CHR ''x'' \<in> set (big_String k)" by (metis in_set_takeD list.set_intros(1,2))
  then show "take 2 (big_String k) \<noteq> ''0x''" using dec_text_char [OF assms, of "CHR ''x''"] d by auto
qed

lemma route_block_number: "0 \<le> k \<Longrightarrow> route_block env (big_String k) = sret k"
  using dec_text_plain [of k] by (simp add: route_block_def)

lemma route_block_table: "route_block env r s = (s', x) \<Longrightarrow> fst s' = fst s"
  by (auto simp: route_block_def MC_BlockNumber_def sbind_def stry_def sret_def sfail_def
      split: if_splits prod.splits sum.splits go_error.splits dest: on_cache_table)

lemma useageClient_table: "useageClient env n s = (s', x) \<Longrightarrow> fst s' = fst s"
  by (auto simp: useageClient_def sbind_def stry_def sret_def
      split: if_splits prod.splits sum.splits go_error.splits dest: on_cache_table)

definition behind_or_down :: "'x MutilClient_scheme \<Rightarrow> int \<Rightarrow> bool" where
  "behind_or_down mc n \<longleftrightarrow>
     (\<forall>u c. mc_clients mc u = Some c \<longrightarrow> u \<in> mc_downed mc \<or> (\<exists>b. rp_blockNumber c = Some b \<and> b < n))"

lemma choose_client_defs [triple_vcg]:
  "triple wf_pool (route_block env routeParam) (\<lambda>n s. wf_pool s \<and> (\<forall>k \<ge> 0. routeParam = big_String k \<longrightarrow> n = k))"
  "triple wf_pool (useageClient env str) (\<lambda>_. wf_pool)"
  "triple wf_pool (usage_loop env us []) (\<lambda>urls s. wf_pool s \<and> up (fst s) (set urls))"
proof (goal_cases)
  case 1
  show ?case
    by (rule tripleI) (auto simp: route_block_number sret_def dest: route_block_table)
next
  case 2
  show ?case by (rule tripleI) (auto dest: useageClient_table)
next
  case 3
  show ?case
  proof (rule tripleI)
    fix s s' urls
    assume wf: "wf_pool s" and run: "usage_loop env us [] s = (s', Inr urls)"
    have "wf_pool s'" using keepsD [OF keeps_usage_loop [of env us "[]"] wf] run by simp
    moreover have "up (fst s') (set urls)"
      using usage_loop_up [of env us "[]" "fst s" "snd s" "fst s'" "snd s'" urls] run by (simp add: up_def)
    ultimately show "wf_pool s' \<and> up (fst s') (set urls)" ..
  qed
qed

lemma range_reaching_triple:
  assumes "runtime_laws env"
  shows "triple wf_pool (range_reaching env n)
    (\<lambda>urls s. wf_pool s \<and> up (fst s) (set urls) \<and> (urls = [] \<longrightarrow> behind_or_down (fst s) n))"
proof (rule tripleI)
  fix s s' urls
  assume "wf_pool s" "range_reaching env n s = (s', Inr urls)"
  then show "wf_pool s' \<and> up (fst s') (set urls) \<and> (urls = [] \<longrightarrow> behind_or_down (fst s') n)"
    using range_reaching_outcome [OF assms, of "fst s" n "snd s" s' urls] by (simp add: behind_or_down_def)
qed

definition usable_or_none :: "int \<Rightarrow> RpcClient option \<Rightarrow> 'x MutilClient_scheme \<Rightarrow> bool" where
  "usable_or_none n r mc \<longleftrightarrow> (case r of
      None \<Rightarrow> behind_or_down mc n
    | Some c \<Rightarrow> mc_clients mc (rp_url c) = Some c \<and> rp_url c \<notin> mc_downed mc)"

lemma draw_triple:
  assumes "runtime_laws env"
  shows "triple (\<lambda>s. wf_pool s \<and> up (fst s) (set urls) \<and> (urls = [] \<longrightarrow> behind_or_down (fst s) n))
    (draw_client env urls) (\<lambda>r s. usable_or_none n r (fst s))"
proof (rule tripleI)
  fix s s' r
  assume pre: "wf_pool s \<and> up (fst s) (set urls) \<and> (urls = [] \<longrightarrow> behind_or_down (fst s) n)"
    and run: "draw_client env urls s = (s', Inr r)"
  show "usable_or_none n r (fst s')"
  proof (cases "urls = []")
    case True
    then show ?thesis using pre run by (auto simp: draw_client_def sret_def usable_or_none_def)
  next
    case False
    then obtain w5 idx where "ne_rand env (length urls) (snd s) = (w5, Inr idx)" and r: "fst s' = fst s" "r = mc_clients (fst s) (urls ! idx)"
      using run by (auto simp: draw_client_def sbind_Inr_iff sget_def on_snd_def split: prod.splits)
    then have "idx < length urls" using assms False by (simp add: runtime_laws_def)
    then have "urls ! idx \<in> set urls" by simp
    then have "urls ! idx \<in> dom (mc_clients (fst s)) - mc_downed (fst s)" using pre unfolding up_def by blast
    then show ?thesis using r pre by (auto simp: wf_mc_def usable_or_none_def)
  qed
qed

lemma candidate_urls_triple:
  assumes "runtime_laws env"
  shows "triple wf_pool (candidate_urls env n)
    (\<lambda>urls s. wf_pool s \<and> up (fst s) (set urls) \<and> (urls = [] \<longrightarrow> behind_or_down (fst s) n))"
  unfolding candidate_urls_def
proof (intro triple_sbind [OF choose_client_defs(2)] triple_sbind [OF choose_client_defs(3)] triple_sbind
      [where R = "\<lambda>urls s. wf_pool s \<and> up (fst s) (set urls)"])
  have sync: "triple wf_pool (sbind (syncBlockNumber env) (\<lambda>_. range_reaching env n))
    (\<lambda>urls s. wf_pool s \<and> up (fst s) (set urls) \<and> (urls = [] \<longrightarrow> behind_or_down (fst s) n))"
    by (rule triple_sbind [OF keeps_triple [OF keeps_syncBlockNumber] range_reaching_triple [OF assms]])
  fix urls
  show "triple (\<lambda>s. wf_pool s \<and> up (fst s) (set urls))
    (if length urls = 0 then sbind (syncBlockNumber env) (\<lambda>_. range_reaching env n) else sret urls)
    (\<lambda>urls s. wf_pool s \<and> up (fst s) (set urls) \<and> (urls = [] \<longrightarrow> behind_or_down (fst s) n))"
    by (intro triple_if triple_conseq [OF sync] triple_sret) auto
  show "triple (\<lambda>s. wf_pool s \<and> up (fst s) (set urls)) (if length urls \<le> 0 then range_reaching env n else sret urls)
    (\<lambda>urls s. wf_pool s \<and> up (fst s) (set urls))"
    by (intro triple_if triple_conseq [OF range_reaching_triple [OF assms]] triple_sret) auto
qed

text \<open>Claim C27: the node chosen for a route is in the table, and the table keeps its invariant. It is not down, unless the route is the address of a node (it contains a colon): a node of the table with
  that address is chosen whether it is down or not, and the table stays as it was. When no node is returned, each node of the table is down or known to be
  behind the block asked for, also after a fresh synchronisation; the block asked for is the one of the route when the route is a number.\<close>

theorem bestClient_usable:
  assumes "runtime_laws env" "wf_mc mc" "bestClient env routeParam (mc, w) = ((mc', w'), Inr r)"
  shows "wf_mc mc' \<and> (case r of
      Some c \<Rightarrow> mc_clients mc' (rp_url c) = Some c
        \<and> (rp_url c \<notin> mc_downed mc' \<or> CHR '':'' \<in> set routeParam \<and> rp_url c = routeParam \<and> mc' = mc)
    | None \<Rightarrow> \<exists>n. (\<forall>k \<ge> 0. routeParam = big_String k \<longrightarrow> n = k)
        \<and> (\<forall>u c. mc_clients mc' u = Some c \<longrightarrow> u \<in> mc_downed mc' \<or> (\<exists>b. rp_blockNumber c = Some b \<and> b < n)))"
proof -
  have pick: "triple wf_pool (pick_client env routeParam)
    (\<lambda>r s. \<exists>n. (\<forall>k \<ge> 0. routeParam = big_String k \<longrightarrow> n = k) \<and> usable_or_none n r (fst s))"
    unfolding pick_client_def
  proof (rule triple_sbind [OF choose_client_defs(1)])
    fix n
    show "triple (\<lambda>s. wf_pool s \<and> (\<forall>k \<ge> 0. routeParam = big_String k \<longrightarrow> n = k)) (sbind (candidate_urls env n) (draw_client env))
      (\<lambda>r s. \<exists>n. (\<forall>k \<ge> 0. routeParam = big_String k \<longrightarrow> n = k) \<and> usable_or_none n r (fst s))"
      using triple_sbind [OF candidate_urls_triple [OF assms(1)] draw_triple [OF assms(1)]] unfolding triple_def by blast
  qed
  have wf: "wf_mc mc'" using keepsD [OF keeps_bestClient [of env routeParam], of "(mc, w)"] assms(2,3) by simp
  let ?found = "if routeParam \<noteq> ''latest'' \<and> CHR '':'' \<in> set routeParam then specific_client mc (ne_keys env (mc_clients mc) w) routeParam else None"
  show ?thesis
  proof (cases ?found)
    case None
    then have "pick_client env routeParam (mc, w) = ((mc', w'), Inr r)"
      using assms(3) by (simp add: bestClient_def range_clients_def sget_def)
    then have "\<exists>n. (\<forall>k \<ge> 0. routeParam = big_String k \<longrightarrow> n = k) \<and> usable_or_none n r mc'"
      using pick assms(2) by (force simp: triple_def)
    then show ?thesis using wf by (auto simp: usable_or_none_def behind_or_down_def split: option.splits)
  next
    case (Some c)
    then have e: "mc' = mc" "r = Some c" using assms(3) by (auto simp: bestClient_def range_clients_def sget_def sret_def)
    have colon: "CHR '':'' \<in> set routeParam" and c: "specific_client mc (ne_keys env (mc_clients mc) w) routeParam = Some c"
      using Some by (auto split: if_splits)
    have "rp_url c = routeParam" "c \<in> set (List.map_filter (mc_clients mc) (ne_keys env (mc_clients mc) w))"
      using c unfolding specific_client_def find_Some_iff by (metis, metis nth_mem)
    then have "rp_url c = routeParam" "\<exists>u. mc_clients mc u = Some c" by (auto simp: List.map_filter_def)
    then show ?thesis using e colon assms(2) by (auto simp: wf_mc_def)
  qed
qed


text \<open>A world to try the definitions on: one cache server that is down, nodes given by two functions.\<close>

definition demo_env :: "(string \<Rightarrow> string \<Rightarrow> rpc_arg list \<Rightarrow> ('w, rpc_val) st)
    \<Rightarrow> (string \<Rightarrow> (string \<times> rpc_arg list) list \<Rightarrow> ('w, rpc_val res list) st) \<Rightarrow> 'w node_env" where
  "demo_env call batch = \<lparr>ne_dial = (\<lambda>_. sret ()), ne_call = call, ne_batch = batch,
     ne_cache = Some (NewCache (\<lambda>r cmd args. (r, Inl (Err ''connection refused'')))),
     ne_keys = (\<lambda>m w. sorted_list_of_set (dom m)), ne_rand = (\<lambda>n. sret 0), ne_undef = (\<lambda>_. 0)\<rparr>"

definition demo_pool :: MutilClient where
  "demo_pool = \<lparr>mc_clients = [''a'' \<mapsto> \<lparr>rp_url = ''a'', rp_blockNumber = Some 100\<rparr>, ''b'' \<mapsto> \<lparr>rp_url = ''b'', rp_blockNumber = Some 90\<rparr>],
     mc_downed = {}\<rparr>"

lemma demo_env_laws [simp]: "runtime_laws (demo_env call batch)"
  by (auto simp: runtime_laws_def demo_env_def range_order_def sret_def)

lemma demo_cache_down:
  "on_cache (demo_env call batch) (\<lambda>c. c_SMembers c k) s = (s, Inl (Err ''connection refused''))"
  "on_cache (demo_env call batch) (\<lambda>c. c_ZRange c k a b f) s = (s, Inl (Err ''connection refused''))"
  "on_cache (demo_env call batch) (\<lambda>c. c_Get c k) s = (s, Inl (Err ''connection refused''))"
  "on_cache (demo_env call batch) (\<lambda>c. c_Set c k v t) s = (s, Inl (Err ''connection refused''))"
  by (auto simp: on_cache_def on_snd_def cache_call_def demo_env_def NewCache_def Let_def Redis_SMembers_def Redis_ZRange_def
      Redis_Get_def Redis_Set_def pool_do_def split: prod.splits)

lemma demo_pool_wf [simp]: "wf_mc demo_pool"
  by (auto simp: wf_mc_def demo_pool_def split: if_splits)

lemma demo_keys: "sorted_list_of_set {''a'', ''b''} = [''a'', ''b'']"
  by code_simp

lemma demo_dom: "dom (mc_clients demo_pool) = {''a'', ''b''}"
  by (auto simp: demo_pool_def split: if_splits)

theorem bestClient_usable_witness:
  "\<exists>mc' w' c. bestClient (demo_env (\<lambda>_ _ _. sret (JBig 100)) (\<lambda>_ _. sret [])) (big_String 95) (demo_pool, 0 :: nat) = ((mc', w'), Inr (Some c))
     \<and> mc_clients mc' (rp_url c) = Some c \<and> rp_url c \<notin> mc_downed mc'"
proof -
  let ?env = "demo_env (\<lambda>_ _ _. sret (JBig 100)) (\<lambda>_ _. sret [])"
  have k: "ne_keys ?env (mc_clients demo_pool) w = [''a'', ''b'']" for w :: nat
    by (simp add: demo_env_def demo_dom demo_keys)
  have "useageClient ?env s (demo_pool, w) = ((demo_pool, w), Inr ([], Some (Err ''connection refused'')))" for s and w :: nat
    by (simp add: useageClient_def demo_cache_down sret_def)
  moreover have "range_reaching ?env 95 (demo_pool, w) = ((demo_pool, w), Inr [''a''])" for w :: nat
    by (simp add: range_reaching_def range_clients_def st_simps k reaching_urls_def) (simp add: demo_pool_def)
  ultimately have "candidate_urls ?env 95 (demo_pool, 0 :: nat) = ((demo_pool, 0), Inr [''a''])"
    by (simp add: candidate_urls_def sret_def)
  moreover have "draw_client ?env [''a''] (demo_pool, 0 :: nat) = ((demo_pool, 0), Inr (mc_clients demo_pool ''a''))"
    by (simp add: draw_client_def demo_env_def sret_def sget_def)
  ultimately have "pick_client ?env (big_String 95) (demo_pool, 0 :: nat) = ((demo_pool, 0), Inr (mc_clients demo_pool ''a''))"
    by (simp add: pick_client_def route_block_number)
  then have "bestClient ?env (big_String 95) (demo_pool, 0 :: nat) = ((demo_pool, 0), Inr (mc_clients demo_pool ''a''))"
    using dec_text_plain [of 95] by (simp add: bestClient_def range_clients_def sget_def)
  then have r: "bestClient ?env (big_String 95) (demo_pool, 0 :: nat) = ((demo_pool, 0), Inr (Some \<lparr>rp_url = ''a'', rp_blockNumber = Some 100\<rparr>))"
    by (simp add: demo_pool_def)
  from bestClient_usable [OF demo_env_laws demo_pool_wf r] r dec_text_plain [of 95] show ?thesis by auto
qed


subsection \<open>Sending a transaction to all nodes\<close>

definition successes :: "'a res list \<Rightarrow> 'a list" where
  "successes rs = List.map_filter (\<lambda>r. case r of Inl _ \<Rightarrow> None | Inr x \<Rightarrow> Some x) rs"

definition failures :: "'a res list \<Rightarrow> go_error list" where
  "failures rs = List.map_filter (\<lambda>r. case r of Inl e \<Rightarrow> Some e | Inr x \<Rightarrow> None) rs"

lemma outcome_simps [simp]:
  "successes [] = []" "successes (Inl e # rs) = successes rs" "successes (Inr x # rs) = x # successes rs"
  "failures [] = []" "failures (Inl e # rs) = e # failures rs" "failures (Inr x # rs) = failures rs"
  by (simp_all add: successes_def failures_def map_filter_simps)

definition last_or :: "'a list \<Rightarrow> 'a option \<Rightarrow> 'a option" where
  "last_or xs d = (if xs = [] then d else Some (last xs))"

lemma send_loop_outcome:
  "smap (\<lambda>url. stry (rpc_call env (tg_dec tg) url method args)) urls s = (s', Inr rs) \<Longrightarrow>
     send_loop env tg method args urls sent err s = (s', Inr (last_or (successes rs) sent, last_or (failures rs) err))"
proof (induction urls arbitrary: s sent err rs)
  case Nil
  then show ?case by (simp add: sret_def last_or_def)
next
  case (Cons url urls)
  then obtain s1 r rs' where r: "stry (rpc_call env (tg_dec tg) url method args) s = (s1, Inr r)"
      "smap (\<lambda>url. stry (rpc_call env (tg_dec tg) url method args)) urls s1 = (s', Inr rs')" "rs = r # rs'"
    by (auto simp: smap_Inr_iff simp del: smap.simps(2))
  show ?case using r(1,3) Cons.IH [OF r(2)] by (cases r) (simp_all add: last_or_def)
qed

text \<open>A raw transaction is sent to each node of the table once, in the order of the map; the call
  succeeds, with the last answer, when a node accepted it, and returns the last error when all refused.
  With no node in the table it reports success although nothing was sent.\<close>

theorem raw_transaction_to_all:
  assumes "smap (\<lambda>url. stry (rpc_call env (tg_dec tg) url ''eth_sendRawTransaction'' args)) (ne_keys env (mc_clients mc) w) (mc, w) = (s', Inr rs)"
  shows "MC_Call env tg routeParam ''eth_sendRawTransaction'' args (mc, w) =
    (s', if successes rs \<noteq> [] then Inr ('''', last (successes rs))
         else if failures rs \<noteq> [] then Inl (last (failures rs)) else Inr ('''', tg_old tg))"
  using send_loop_outcome [OF assms, of None None]
  by (simp add: MC_Call_def range_clients_def sget_def last_or_def sret_def sfail_def)

theorem raw_transaction_to_all_witness:
  "snd (MC_Call (demo_env (\<lambda>url _ _. if url = ''a'' then sret (JText ''0x1'') else sfail (Err ''nonce too low'')) (\<lambda>_ _. sret []))
      \<lparr>tg_dec = (\<lambda>v. case v of JText t \<Rightarrow> Inr t | _ \<Rightarrow> Inl (Err ''json'')), tg_big = None, tg_old = ''''\<rparr>
      ''latest'' ''eth_sendRawTransaction'' [] (demo_pool, 0 :: nat)) = Inr ('''', ''0x1'')"
proof -
  let ?env = "demo_env (\<lambda>url _ _. if url = ''a'' then sret (JText ''0x1'') else sfail (Err ''nonce too low'')) (\<lambda>_ _. sret [])"
  let ?tg = "\<lparr>tg_dec = (\<lambda>v. case v of JText t \<Rightarrow> Inr t | _ \<Rightarrow> Inl (Err ''json'')), tg_big = None, tg_old = ''''\<rparr>"
  have "ne_keys ?env (mc_clients demo_pool) (0 :: nat) = [''a'', ''b'']" by (simp add: demo_env_def demo_dom demo_keys)
  then have "smap (\<lambda>url. stry (rpc_call ?env (tg_dec ?tg) url ''eth_sendRawTransaction'' []))
      (ne_keys ?env (mc_clients demo_pool) 0) (demo_pool, 0 :: nat)
      = ((demo_pool, 0), Inr [Inr ''0x1'', Inl (Err ''nonce too low'')])"
    by (simp add: demo_env_def rpc_call_def sret_def sfail_def slift_def)
  from raw_transaction_to_all [OF this, of "''latest''"] show ?thesis by simp
qed

text \<open>A node that could not be reached when the table was made is never tried again: synchronising keeps
  the set of nodes in the table.\<close>

definition same_nodes :: "string set \<Rightarrow> 'x MutilClient_scheme \<times> 'w \<Rightarrow> bool" where
  "same_nodes D s \<longleftrightarrow> dom (mc_clients (fst s)) = D \<and> wf_pool s"

lemma sync_client_nodes: "key \<in> D \<Longrightarrow> rp_url client = key \<Longrightarrow> keeps (same_nodes D) (sync_client env key client)"
  unfolding sync_client_def Let_def mark_down_def by (intro keeps_intros) (auto simp: wf_mc_def same_nodes_def)

lemma sync_body_nodes [keeps_intros]:
  fixes env :: "'w node_env"
  shows "keeps (same_nodes D :: 'x MutilClient_scheme \<times> 'w \<Rightarrow> bool) (sync_body env key)"
  unfolding sync_body_def
proof (rule keeps_sbind_sget)
  fix s :: "'x MutilClient_scheme \<times> 'w"
  assume s: "same_nodes D s"
  show "same_nodes D (fst ((case mc_clients (fst s) key of None \<Rightarrow> sret () | Some client \<Rightarrow> sync_client env key client) s))"
  proof (cases "mc_clients (fst s) key")
    case (Some client)
    then have "key \<in> D" "rp_url client = key" using s by (auto simp: same_nodes_def dest: wf_mc_url)
    from keepsD [OF sync_client_nodes [OF this] s] show ?thesis using Some by simp
  qed (use s in \<open>simp add: sret_def\<close>)
qed

lemma sync_keeps_nodes: "keeps (same_nodes D) (syncBlockNumber env)"
  unfolding syncBlockNumber_def range_clients_def by (intro keeps_intros)

end
