(* ===== verification/Eth_Accessor.thy ===== *)
theory Eth_Accessor
  imports Eth_Clients
begin

section \<open>Access to the chain (\<open>eth/accessor/accessor.go\<close>, \<open>eth/accessor/method.go\<close>)\<close>

text \<open>
  Calls with retries, batches of transactions and receipts that are asked for until the chain has them,
  whole blocks, the block iterator, and the sending of transactions with the nonces of the senders. The
  signature, the RLP and JSON codecs and the packing of calls are parameters. A sleep changes nothing.
\<close>

subsection \<open>State and retries\<close>

record ethNodeAccessor = MutilClient +
  ea_AddressNonce :: "address \<rightharpoonup> int"
  ea_fetchTxRetryCount :: nat

type_synonym ('w, 'a) acc = "(ethNodeAccessor \<times> 'w, 'a) st"

definition accessor_Initialize :: "'w node_env \<Rightarrow> string list \<Rightarrow> int \<Rightarrow> 'w \<Rightarrow> (ethNodeAccessor \<times> 'w) \<times> unit res" where
  "accessor_Initialize env rawUrls fetchTxRetryCount w =
    sfor (newRpcClient env) rawUrls (\<lparr>mc_clients = Map.empty, mc_downed = {}, ea_AddressNonce = Map.empty,
      ea_fetchTxRetryCount = (if fetchTxRetryCount > 0 then nat fetchTxRetryCount else 60)\<rparr>, w)"

definition RetryCall :: "'w node_env \<Rightarrow> 'a target \<Rightarrow> string \<Rightarrow> nat \<Rightarrow> string \<Rightarrow> rpc_arg list \<Rightarrow> ('w, 'a) acc" where
  "RetryCall env tg routeParam n method args =
     retry (sbind (MC_Call env tg routeParam method args) (\<lambda>(node, v). sret v)) n (Inr (tg_old tg))"

definition acc_BatchCall :: "'w node_env \<Rightarrow> string \<Rightarrow> (string \<times> rpc_arg list) list \<Rightarrow> ('w, rpc_val res list) acc" where
  "acc_BatchCall env routeParam reqElems = sbind (MC_BatchCall env routeParam reqElems) (\<lambda>(node, rs). sret rs)"

definition RetryBatchCall :: "'w node_env \<Rightarrow> string \<Rightarrow> (string \<times> rpc_arg list) list \<Rightarrow> nat \<Rightarrow> ('w, rpc_val res list) acc" where
  "RetryBatchCall env routeParam reqElems n =
     retry (acc_BatchCall env routeParam reqElems) n (Inr (map (\<lambda>_. Inr JNull) reqElems))"

text \<open>The package functions that are one call.\<close>

definition accessor_BlockNumber :: "'w node_env \<Rightarrow> ('w, int) acc" where
  "accessor_BlockNumber env = RetryCall env big_target ''latest'' 5 ''eth_blockNumber'' []"

definition GetBalance :: "'w node_env \<Rightarrow> address \<Rightarrow> string \<Rightarrow> ('w, int) acc" where
  "GetBalance env address blockNumber =
     RetryCall env big_target blockNumber 2 ''eth_getBalance'' [PAddr address, PStr blockNumber]"

definition SendRawTransaction :: "'w node_env \<Rightarrow> 'a target \<Rightarrow> string \<Rightarrow> ('w, 'a) acc" where
  "SendRawTransaction env tg tx = RetryCall env tg ''latest'' 2 ''eth_sendRawTransaction'' [PStr tx]"

definition GetTransactionCount :: "'w node_env \<Rightarrow> address \<Rightarrow> string \<Rightarrow> ('w, int) acc" where
  "GetTransactionCount env address blockNumber =
     RetryCall env big_target blockNumber 2 ''eth_getTransactionCount'' [PAddr address, PStr blockNumber]"

definition eth_Call :: "'w node_env \<Rightarrow> 'a target \<Rightarrow> CallArg \<Rightarrow> string \<Rightarrow> ('w, 'a) acc" where
  "eth_Call env tg ethCall blockNumber = RetryCall env tg blockNumber 2 ''eth_call'' [PCall ethCall, PStr blockNumber]"

definition GetBlockByNumber :: "'w node_env \<Rightarrow> 'a target \<Rightarrow> int \<Rightarrow> bool \<Rightarrow> ('w, 'a) acc" where
  "GetBlockByNumber env tg blockNumber withObject =
     RetryCall env tg (big_String blockNumber) 2 ''eth_getBlockByNumber'' [PStr (BigintToHex (Some blockNumber)), PBool withObject]"

definition GetTransactionReceipt :: "'w node_env \<Rightarrow> 'a target \<Rightarrow> string \<Rightarrow> string \<Rightarrow> ('w, 'a) acc" where
  "GetTransactionReceipt env tg txHash blockParameter =
     RetryCall env tg blockParameter 2 ''eth_getTransactionReceipt'' [PStr txHash]"

definition GetBlockTransactionCountByHash :: "'w node_env \<Rightarrow> string \<Rightarrow> string \<Rightarrow> ('w, int) acc" where
  "GetBlockTransactionCountByHash env blockHash blockParameter =
     RetryCall env big_target ''latest'' 5 ''eth_getBlockTransactionCountByHash'' [PStr blockHash]"

definition GetBlockTransactionCountByNumber :: "'w node_env \<Rightarrow> string \<Rightarrow> ('w, int) acc" where
  "GetBlockTransactionCountByNumber env blockNumber =
     RetryCall env big_target blockNumber 2 ''eth_getBlockTransactionCountByNumber'' [PStr blockNumber]"

text \<open>The lookups by hash ask one node after the other; the target keeps what it got between the calls.\<close>

fun ask_nodes :: "'w node_env \<Rightarrow> ('a \<Rightarrow> 'a target) \<Rightarrow> ('a \<Rightarrow> bool) \<Rightarrow> string \<Rightarrow> rpc_arg list \<Rightarrow> string list \<Rightarrow> 'a
    \<Rightarrow> ('w, 'a option) acc" where
  "ask_nodes env tg isNull method args [] old = sret None"
| "ask_nodes env tg isNull method args (url # urls) old =
    sbind (stry (rpc_call env (tg_dec (tg old)) url method args)) (\<lambda>r. case r of
      Inl err \<Rightarrow> ask_nodes env tg isNull method args urls old
    | Inr v \<Rightarrow> if \<not> isNull v then sret (Some v) else ask_nodes env tg isNull method args urls v)"

definition GetBlockByHash :: "'w node_env \<Rightarrow> ('a \<Rightarrow> 'a target) \<Rightarrow> ('a \<Rightarrow> bool) \<Rightarrow> 'a \<Rightarrow> string \<Rightarrow> bool \<Rightarrow> ('w, 'a) acc" where
  "GetBlockByHash env tg isNull result blockHash withObject =
    sbind (range_clients env) (\<lambda>keys.
    sbind (ask_nodes env tg isNull ''eth_getBlockByHash'' [PStr blockHash, PBool withObject] keys result) (\<lambda>r. case r of
      Some v \<Rightarrow> sret v | None \<Rightarrow> sfail (Err (''no block with blockhash:'' @ blockHash))))"

definition GetTransactionByHash :: "'w node_env \<Rightarrow> ('a \<Rightarrow> 'a target) \<Rightarrow> ('a \<Rightarrow> bool) \<Rightarrow> 'a \<Rightarrow> string \<Rightarrow> string \<Rightarrow> ('w, 'a) acc" where
  "GetTransactionByHash env tg isNull result txHash blockParameter =
    sbind (range_clients env) (\<lambda>keys.
    sbind (ask_nodes env tg isNull ''eth_getTransactionByHash'' [PStr txHash] keys result) (\<lambda>r. case r of
      Some v \<Rightarrow> sret v | None \<Rightarrow> sfail (Err (''no transaction with hash:'' @ txHash))))"

subsection \<open>Batches\<close>

text \<open>The answers of a batch are handed back to the requests by slices; a slice beyond the end panics.\<close>

fun hand_back :: "nat \<Rightarrow> nat list \<Rightarrow> 'e list \<Rightarrow> 'e list list res" where
  "hand_back startId [] elems = Inr []"
| "hand_back startId (l # ls) elems =
    (let endId = startId + l
     in if endId > length elems then Inl (Panic IndexOutOfRange)
        else rbind (hand_back endId ls elems) (\<lambda>rest. Inr (take l (drop startId elems) # rest)))"

definition BatchCall :: "'w node_env \<Rightarrow> string \<Rightarrow> (string \<times> rpc_arg list) list list \<Rightarrow> ('w, rpc_val res list list) acc" where
  "BatchCall env routeParam reqs =
    (let elemsLength = map length reqs; elems = concat reqs in
     sbind (RetryBatchCall env routeParam elems 3) (\<lambda>rs. slift (hand_back 0 elemsLength rs)))"

fun as_tx :: "Transaction \<Rightarrow> rpc_val \<Rightarrow> Transaction res" where
  "as_tx old (JTx t) = Inr t"
| "as_tx old JNull = Inr old"
| "as_tx old _ = Inl (Err ''json: cannot unmarshal'')"

fun as_receipt :: "TransactionReceipt \<Rightarrow> rpc_val \<Rightarrow> TransactionReceipt res" where
  "as_receipt old (JReceipt t) = Inr t"
| "as_receipt old JNull = Inr old"
| "as_receipt old _ = Inl (Err ''json: cannot unmarshal'')"

definition tx_found :: "Transaction \<Rightarrow> bool" where
  "tx_found tx \<longleftrightarrow> length (tr_Hash tx) > 0 \<and> \<not> IsZeroHash (HexToHash (tr_Hash tx))
     \<and> \<not> IsZeroHash (HexToHash (tr_BlockHash tx)) \<and> big_Int64 (tr_BlockNumber tx) > 0"

definition receipt_found :: "TransactionReceipt \<Rightarrow> bool" where
  "receipt_found tx \<longleftrightarrow> \<not> StatusInvalid tx \<and> length (rc_TransactionHash tx) > 0 \<and> \<not> IsZeroHash (HexToHash (rc_TransactionHash tx))
     \<and> \<not> IsZeroHash (HexToHash (rc_BlockHash tx)) \<and> big_Int64 (rc_BlockNumber tx) > 0"

text \<open>
  The loop behind the label \<open>mark\<close>, the same for transactions and receipts. \<open>rem\<close> is
  \<open>fetchTxRetryCount + 1 - repeatCnt\<close>: when \<open>repeatCnt\<close> passes the limit it is 0. \<open>failed\<close> is whether
  \<open>v.Error\<close> is set.
\<close>

fun fetch_loop :: "'w node_env \<Rightarrow> ('a \<Rightarrow> rpc_val \<Rightarrow> 'a res) \<Rightarrow> ('a \<Rightarrow> bool) \<Rightarrow> string \<Rightarrow> string \<Rightarrow> string \<Rightarrow> nat \<Rightarrow> 'a \<Rightarrow> bool
    \<Rightarrow> ('w, 'a) acc" where
  "fetch_loop env dec found routeParam method txHash 0 content failed = sfail (Err (''can't get content of this tx:'' @ txHash))"
| "fetch_loop env dec found routeParam method txHash (Suc rem) content failed =
    (if \<not> failed \<and> found content then sret content
     else sbind (stry (MC_Call env \<lparr>tg_dec = dec content, tg_big = None, tg_old = content\<rparr> routeParam method [PStr txHash])) (\<lambda>r.
       case r of
         Inl err \<Rightarrow> fetch_loop env dec found routeParam method txHash rem content True
       | Inr (node, v) \<Rightarrow> fetch_loop env dec found routeParam method txHash rem v False))"

definition fetch_batch :: "'w node_env \<Rightarrow> ('a \<Rightarrow> rpc_val \<Rightarrow> 'a res) \<Rightarrow> ('a \<Rightarrow> bool) \<Rightarrow> string \<Rightarrow> string \<Rightarrow> nat
    \<Rightarrow> (string \<times> 'a) list \<Rightarrow> ('w, 'a list) acc" where
  "fetch_batch env dec found method routeParam n reqs =
    (if length reqs < 1 \<or> n < 1 then sfail (Err ''ethaccessor: retry or reqs invalid'')
     else sbind (RetryBatchCall env routeParam (map (\<lambda>(txHash, content). (method, [PStr txHash])) reqs) n) (\<lambda>rs.
          sbind (sget (\<lambda>(a, w). ea_fetchTxRetryCount a)) (\<lambda>limit.
          smap (\<lambda>((txHash, content), r).
            (case rbind r (dec content) of
               Inl err \<Rightarrow> fetch_loop env dec found routeParam method txHash (limit + 1) content True
             | Inr v \<Rightarrow> fetch_loop env dec found routeParam method txHash (limit + 1) v False)) (zip reqs rs))))"

definition BatchTransactions :: "'w node_env \<Rightarrow> string \<Rightarrow> nat \<Rightarrow> (string \<times> Transaction) list \<Rightarrow> ('w, Transaction list) acc" where
  "BatchTransactions env = fetch_batch env as_tx tx_found ''eth_getTransactionByHash''"

definition BatchTransactionRecipients :: "'w node_env \<Rightarrow> string \<Rightarrow> nat \<Rightarrow> (string \<times> TransactionReceipt) list \<Rightarrow> ('w, TransactionReceipt list) acc" where
  "BatchTransactionRecipients env = fetch_batch env as_receipt receipt_found ''eth_getTransactionReceipt''"

text \<open>What a batch returns without an error is complete and on the chain.\<close>

lemma fetch_loop_found: "fetch_loop env dec found r m h rem content failed s = (s', Inr v) \<Longrightarrow> found v"
proof (induction rem arbitrary: content failed s)
  case (Suc rem)
  show ?case
  proof (cases "\<not> failed \<and> found content")
    case True
    then show ?thesis using Suc.prems by (simp add: sret_def)
  next
    case False
    then show ?thesis using Suc by (auto elim!: sbind_stryE split: prod.splits)
  qed
qed (simp add: sfail_def)

lemma fetch_batch_found:
  assumes "fetch_batch env dec found m r n reqs s = (s', Inr vs)"
    and "\<And>s s' rs. RetryBatchCall env r (map (\<lambda>(h, c). (m, [PStr h])) reqs) n s = (s', Inr rs) \<Longrightarrow> length rs = length reqs"
  shows "length vs = length reqs \<and> list_all found vs"
proof -
  let ?f = "\<lambda>limit. \<lambda>((txHash, content), x). (case rbind x (dec content) of
      Inl err \<Rightarrow> fetch_loop env dec found r m txHash (limit + 1) content True
    | Inr v \<Rightarrow> fetch_loop env dec found r m txHash (limit + 1) v False)"
  obtain s1 rs limit where rs: "RetryBatchCall env r (map (\<lambda>(h, c). (m, [PStr h])) reqs) n s = (s1, Inr rs)"
    "smap (?f limit) (zip reqs rs) s1 = (s', Inr vs)"
    using assms(1) by (auto simp: fetch_batch_def sbind_Inr_iff sget_def sfail_def split: if_splits)
  have "list_all2 (\<lambda>_ v. found v) (zip reqs rs) vs"
    by (rule smap_all [OF _ rs(2)]) (auto split: sum.splits prod.splits dest: fetch_loop_found simp del: fetch_loop.simps)
  then have "list_all found vs" by (induction rule: list_all2_induct) simp_all
  moreover have "length vs = length reqs" using smap_length [OF rs(2)] assms(2) [OF rs(1)] by simp
  ultimately show ?thesis by simp
qed


subsection \<open>Whole blocks\<close>

datatype full_block = FBHash BlockWithTxHash | FBFull BlockWithTxAndReceipt

record block_codec =
  bc_marshal :: "BlockWithTxAndReceipt \<Rightarrow> bytes res"
  bc_unmarshal :: "bytes \<Rightarrow> BlockWithTxAndReceipt res"

text \<open>The target is a pointer to a pointer: null makes it nil.\<close>

fun as_block_hash :: "rpc_val \<Rightarrow> BlockWithTxHash option res" where
  "as_block_hash (JBlockHash b) = Inr (Some b)"
| "as_block_hash JNull = Inr None"
| "as_block_hash _ = Inl (Err ''json: cannot unmarshal'')"

definition zero_Block :: Block where
  "zero_Block = \<lparr>bl_Number = 0, bl_Hash = replicate 32 0, bl_ParentHash = replicate 32 0, bl_Nonce = [], bl_Sha3Uncles = [],
     bl_LogsBloom = [], bl_TransactionsRoot = [], bl_ReceiptsRoot = [], bl_Miner = [], bl_Difficulty = 0, bl_TotalDifficulty = 0,
     bl_ExtraData = [], bl_Size = 0, bl_GasLimit = 0, bl_GasUsed = 0, bl_Timestamp = 0, bl_Uncles = []\<rparr>"

definition zero_Transaction :: Transaction where
  "zero_Transaction = \<lparr>tr_Hash = [], tr_Nonce = 0, tr_BlockHash = [], tr_BlockNumber = 0, tr_TransactionIndex = 0, tr_From = [],
     tr_To = [], tr_Value = 0, tr_GasPrice = 0, tr_Gas = 0, tr_Input = [], tr_R = [], tr_S = [], tr_V = []\<rparr>"

definition zero_Receipt :: TransactionReceipt where
  "zero_Receipt = \<lparr>rc_BlockHash = [], rc_BlockNumber = 0, rc_ContractAddress = [], rc_CumulativeGasUsed = 0, rc_From = [],
     rc_GasUsed = 0, rc_Logs = [], rc_LogsBloom = [], rc_Root = [], rc_Status = None, rc_To = [], rc_TransactionHash = [],
     rc_TransactionIndex = 0\<rparr>"

definition block_hash_target :: "BlockWithTxHash option target" where
  "block_hash_target = \<lparr>tg_dec = as_block_hash, tg_big = None,
     tg_old = Some (Block.extend zero_Block \<lparr>bth_Transactions = []\<rparr>)\<rparr>"

definition getFullBlockFromCacheByHash :: "'w node_env \<Rightarrow> block_codec \<Rightarrow> string \<Rightarrow> ('w, BlockWithTxAndReceipt) acc" where
  "getFullBlockFromCacheByHash env codec hash =
     sbind (on_cache env (\<lambda>c. c_Get c hash)) (\<lambda>blockData. slift (bc_unmarshal codec blockData))"

text \<open>The transactions and receipts of the block, each looked up by its hash, and the check of their
  number against the chain. A failure to marshal or to store the block is ignored.\<close>

definition fill_block :: "'w node_env \<Rightarrow> block_codec \<Rightarrow> BlockWithTxHash \<Rightarrow> ('w, full_block) acc" where
  "fill_block env codec bh =
    (let block = Block.truncate bh; hashes = bth_Transactions bh; hashHex = hexutil_Encode (bl_Hash bh) in
     if length hashes = 0 then sret (FBFull (Block.extend block \<lparr>btr_Transactions = [], btr_Receipts = []\<rparr>))
     else
       sbind (BatchTransactions env (big_String (bl_Number bh)) 5 (map (\<lambda>h. (h, zero_Transaction)) hashes)) (\<lambda>txs.
       sbind (BatchTransactionRecipients env (big_String (bl_Number bh)) 5 (map (\<lambda>h. (h, zero_Receipt)) hashes)) (\<lambda>rcs.
       let full = Block.extend block \<lparr>btr_Transactions = txs, btr_Receipts = rcs\<rparr> in
       sbind (RetryCall env big_target ''latest'' 2 ''eth_getBlockTransactionCountByHash'' [PStr hashHex]) (\<lambda>txcnt.
       if int (length txs) \<noteq> Big_Int txcnt \<or> length txs \<noteq> length rcs
       then sfail (Err ''tx count isn't equal'')
       else (case bc_marshal codec full of
           Inl err \<Rightarrow> sret (FBFull full)
         | Inr blockData \<Rightarrow> sbind (stry (on_cache env (\<lambda>c. c_Set c hashHex blockData 36000))) (\<lambda>_. sret (FBFull full)))))))"

definition full_block_of :: "'w node_env \<Rightarrow> block_codec \<Rightarrow> BlockWithTxHash \<Rightarrow> ('w, full_block) acc" where
  "full_block_of env codec bh =
    sbind (stry (getFullBlockFromCacheByHash env codec (hexutil_Encode (bl_Hash bh)))) (\<lambda>cached. case cached of
      Inr full \<Rightarrow> sret (FBFull full)
    | Inl err \<Rightarrow> fill_block env codec bh)"

definition GetFullBlock :: "'w node_env \<Rightarrow> block_codec \<Rightarrow> int \<Rightarrow> bool \<Rightarrow> ('w, full_block) acc" where
  "GetFullBlock env codec blockNumber withTxObject =
    sbind (RetryCall env block_hash_target (big_String blockNumber) 2 ''eth_getBlockByNumber''
        [PStr (BigintToHex (Some blockNumber)), PBool False]) (\<lambda>b. case b of
      None \<Rightarrow> sfail (Err (''can't get blockWithTxHash by '' @ big_String blockNumber))
    | Some bh \<Rightarrow>
        if \<not> withTxObject then sret (FBHash bh) else full_block_of env codec bh)"

text \<open>What the batch call of a node promises: one answer for each request.\<close>

definition batch_laws :: "'w node_env \<Rightarrow> bool" where
  "batch_laws env \<longleftrightarrow> (\<forall>url reqs w w' rs. ne_batch env url reqs w = (w', Inr rs) \<longrightarrow> length rs = length reqs)"

lemma RetryBatchCall_length:
  assumes "batch_laws env" "0 < n" "RetryBatchCall env r reqs n s = (s', Inr rs)"
  shows "length rs = length reqs"
proof -
  obtain k where n: "n = Suc k" using assms(2) by (cases n) auto
  show ?thesis
  proof (rule retry_post [where P = "\<lambda>_ rs. length rs = length reqs"])
    show "retry (acc_BatchCall env r reqs) (Suc k) (Inr (map (\<lambda>_. Inr JNull) reqs)) s = (s', Inr rs)"
      using assms(3) n by (simp add: RetryBatchCall_def)
    show "acc_BatchCall env r reqs t = (t', Inr x) \<Longrightarrow> length x = length reqs" for t t' x
      using assms(1)
      by (auto simp: acc_BatchCall_def MC_BatchCall_def sbind_Inr_iff sret_def sfail_def on_snd_iff batch_laws_def
          split: option.split_asm prod.split_asm)
  qed
qed

definition complete_block :: "BlockWithTxHash \<Rightarrow> BlockWithTxAndReceipt \<Rightarrow> bool" where
  "complete_block bh full \<longleftrightarrow> Block.truncate full = Block.truncate bh
     \<and> length (btr_Transactions full) = length (bth_Transactions bh)
     \<and> length (btr_Receipts full) = length (bth_Transactions bh)
     \<and> list_all tx_found (btr_Transactions full) \<and> list_all receipt_found (btr_Receipts full)"

lemma fill_block_complete:
  assumes "batch_laws env" "fill_block env codec bh s = (s', Inr fb)"
  shows "\<exists>full. fb = FBFull full \<and> complete_block bh full"
proof (cases "bth_Transactions bh = []")
  case True
  then show ?thesis using assms(2)
    by (auto simp: fill_block_def sret_def complete_block_def Block.defs)
next
  case False
  let ?hs = "bth_Transactions bh"
  obtain s1 s2 txs rcs where
    t: "BatchTransactions env (big_String (bl_Number bh)) 5 (map (\<lambda>h. (h, zero_Transaction)) ?hs) s = (s1, Inr txs)" and
    r: "BatchTransactionRecipients env (big_String (bl_Number bh)) 5 (map (\<lambda>h. (h, zero_Receipt)) ?hs) s1 = (s2, Inr rcs)" and
    f: "fb = FBFull (Block.extend (Block.truncate bh) \<lparr>btr_Transactions = txs, btr_Receipts = rcs\<rparr>)"
    using assms(2) False
    by (auto simp: fill_block_def Let_def sbind_Inr_iff sret_def sfail_def split: if_splits sum.splits)
  have len: "RetryBatchCall env rt (map f reqs) 5 u = (u', Inr rs) \<Longrightarrow> length rs = length reqs" for rt f u u' rs and reqs :: "'x list"
    using RetryBatchCall_length [OF assms(1), of 5 rt "map f reqs"] by simp
  have "length txs = length ?hs \<and> list_all tx_found txs"
    using fetch_batch_found [OF t [unfolded BatchTransactions_def], OF len] by simp
  moreover have "length rcs = length ?hs \<and> list_all receipt_found rcs"
    using fetch_batch_found [OF r [unfolded BatchTransactionRecipients_def], OF len] by simp
  ultimately show ?thesis using f by (simp add: complete_block_def Block.defs)
qed

text \<open>Claim C26: a block fetched with its transactions and no error either comes out of the cache as it was
  stored, or has the header the node gave, one transaction and one receipt for each hash of the block, each
  of them on the chain and each receipt with a valid status.\<close>

theorem GetFullBlock_complete:
  assumes "batch_laws env" "GetFullBlock env codec n True s = (s', Inr fb)"
  shows "\<exists>bh s1 full. RetryCall env block_hash_target (big_String n) 2 ''eth_getBlockByNumber'' [PStr (BigintToHex (Some n)), PBool False] s = (s1, Inr (Some bh))
    \<and> fb = FBFull full
    \<and> (getFullBlockFromCacheByHash env codec (hexutil_Encode (bl_Hash bh)) s1 = (s', Inr full) \<or> complete_block bh full)"
proof -
  from assms(2) obtain bh s1 where
    b: "RetryCall env block_hash_target (big_String n) 2 ''eth_getBlockByNumber'' [PStr (BigintToHex (Some n)), PBool False] s = (s1, Inr (Some bh))" and
    rest: "full_block_of env codec bh s1 = (s', Inr fb)"
    by (auto simp: GetFullBlock_def sbind_Inr_iff sfail_def split: option.split_asm)
  from rest show ?thesis unfolding full_block_of_def
  proof (cases rule: sbind_stryE)
    case (failed s2 e)
    then have "fill_block env codec bh s2 = (s', Inr fb)" by simp
    from fill_block_complete [OF assms(1) this] obtain full where "fb = FBFull full" "complete_block bh full" by blast
    then show ?thesis using b by blast
  next
    case (succeeded s2 full)
    then have "fb = FBFull full" "s' = s2" by (simp_all add: sret_def)
    then show ?thesis using b succeeded(1) by blast
  qed
qed

subsection \<open>The block iterator\<close>

record BlockIterator =
  it_startNumber :: int
  it_endNumber :: "int option"
  it_currentNumber :: int
  it_withTxData :: bool
  it_confirms :: nat

definition NewBlockIterator :: "int \<Rightarrow> int option \<Rightarrow> bool \<Rightarrow> nat \<Rightarrow> BlockIterator" where
  "NewBlockIterator startNumber endNumber withTxData confirms =
     \<lparr>it_startNumber = startNumber, it_endNumber = endNumber, it_currentNumber = startNumber,
      it_withTxData = withTxData, it_confirms = confirms\<rparr>"

text \<open>
  The loop that waits for the confirmations polls every five seconds, without end. \<open>polls\<close> is how many
  polls are looked at; \<open>False\<close> means that it still waits after them.
\<close>

fun wait_confirmed :: "'w node_env \<Rightarrow> int \<Rightarrow> nat \<Rightarrow> ('w, bool) acc" where
  "wait_confirmed env confirmNumber 0 = sret False"
| "wait_confirmed env confirmNumber (Suc polls) =
    sbind (stry (RetryCall env big_target ''latest'' 2 ''eth_blockNumber'' [])) (\<lambda>r. case r of
      Inr blockNumber \<Rightarrow> if Big_Uint64 blockNumber \<ge> confirmNumber then sret True else wait_confirmed env confirmNumber polls
    | Inl err1 \<Rightarrow> wait_confirmed env confirmNumber polls)"

definition confirmNumber :: "BlockIterator \<Rightarrow> int" where
  "confirmNumber it = (big_Uint64 (it_currentNumber it) + int (it_confirms it)) mod 2 ^ 64"

text \<open>\<open>None\<close>: \<open>Next\<close> is still waiting.\<close>

definition iterator_Next :: "'w node_env \<Rightarrow> block_codec \<Rightarrow> nat \<Rightarrow> BlockIterator \<Rightarrow> ('w, (BlockIterator \<times> full_block) option) acc" where
  "iterator_Next env codec polls it =
    (if (case it_endNumber it of None \<Rightarrow> False | Some e \<Rightarrow> e > 0 \<and> e < it_currentNumber it)
     then sfail (Err ''finished'')
     else sbind (RetryCall env big_target ''latest'' 2 ''eth_blockNumber'' []) (\<lambda>blockNumber.
          sbind (if Big_Uint64 blockNumber < confirmNumber it then wait_confirmed env (confirmNumber it) polls else sret True) (\<lambda>confirmed.
          if \<not> confirmed then sret None
          else sbind (GetFullBlock env codec (it_currentNumber it) (it_withTxData it)) (\<lambda>block.
               sret (Some (it\<lparr>it_currentNumber := it_currentNumber it + 1\<rparr>, block))))))"

fun as_prev :: "bool \<Rightarrow> rpc_val \<Rightarrow> rpc_val option res" where
  "as_prev withTx JNull = Inr None"
| "as_prev withTx (JBlockTx b) = (if withTx then Inr (Some (JBlockTx b)) else Inl (Err ''json: cannot unmarshal''))"
| "as_prev withTx (JBlockHash b) = (if withTx then Inl (Err ''json: cannot unmarshal'') else Inr (Some (JBlockHash b)))"
| "as_prev withTx _ = Inl (Err ''json: cannot unmarshal'')"

definition iterator_Prev :: "'w node_env \<Rightarrow> rpc_val \<Rightarrow> BlockIterator \<Rightarrow> ('w, BlockIterator \<times> rpc_val) acc" where
  "iterator_Prev env zero it =
    (if it_startNumber it > 0 \<and> it_startNumber it > it_currentNumber it then sfail (Err ''finished'')
     else let prevNumber = it_currentNumber it - 1 in
       sbind (RetryCall env \<lparr>tg_dec = as_prev (it_withTxData it), tg_big = None, tg_old = Some zero\<rparr> (big_String prevNumber) 2
           ''eth_getBlockByNumber'' [PStr (BigintToHex (Some prevNumber)), PBool (it_withTxData it)]) (\<lambda>block. case block of
         None \<Rightarrow> sfail (Err (''there isn't a block with number:'' @ big_String prevNumber))
       | Some b \<Rightarrow> sret (it\<lparr>it_currentNumber := it_currentNumber it - 1\<rparr>, b)))"

text \<open>A caller that asks for one block after the other until an error: of each block that it got, its number, the block, and the states before and after the call.\<close>

record 'w delivery =
  dl_number :: int
  dl_block :: full_block
  dl_before :: "ethNodeAccessor \<times> 'w"
  dl_after :: "ethNodeAccessor \<times> 'w"

fun iterate_blocks :: "'w node_env \<Rightarrow> block_codec \<Rightarrow> nat \<Rightarrow> nat \<Rightarrow> BlockIterator \<Rightarrow> ethNodeAccessor \<times> 'w \<Rightarrow> 'w delivery list" where
  "iterate_blocks env codec polls 0 it s = []"
| "iterate_blocks env codec polls (Suc n) it s =
    (case iterator_Next env codec polls it s of
       (s', Inl (Panic _)) \<Rightarrow> []
     | (s', Inl (Err _)) \<Rightarrow> iterate_blocks env codec polls n it s'
     | (s', Inr None) \<Rightarrow> []
     | (s', Inr (Some (it', b))) \<Rightarrow>
         \<lparr>dl_number = it_currentNumber it, dl_block = b, dl_before = s, dl_after = s'\<rparr> # iterate_blocks env codec polls n it' s')"

abbreviation poll_height :: "'w node_env \<Rightarrow> ('w, int) acc" where
  "poll_height env \<equiv> RetryCall env big_target ''latest'' 2 ''eth_blockNumber'' []"

lemma wait_confirmed_True:
  "wait_confirmed env c polls s = (s', Inr True) \<Longrightarrow>
     \<exists>k h. poll_height env (run_states (poll_height env) k s) = (s', Inr h) \<and> c \<le> Big_Uint64 h"
proof (induction polls arbitrary: s)
  case (Suc polls)
  have later: ?case if "poll_height env s = (s1, r)" "wait_confirmed env c polls s1 = (s', Inr True)" for s1 r
  proof -
    from Suc.IH [OF that(2)] obtain k h where "poll_height env (run_states (poll_height env) k s1) = (s', Inr h)" "c \<le> Big_Uint64 h" by blast
    then show ?thesis using that(1) by (intro exI [of _ "Suc k"] exI [of _ h]) simp
  qed
  from Suc.prems[unfolded wait_confirmed.simps] show ?case
  proof (cases rule: sbind_stryE)
    case (failed s1 e)
    then show ?thesis using later by simp
  next
    case (succeeded s1 h)
    show ?thesis
    proof (cases "Big_Uint64 h \<ge> c")
      case True
      then show ?thesis using succeeded by (intro exI [of _ 0] exI [of _ h]) (simp add: sret_def)
    next
      case False
      then show ?thesis using later succeeded by simp
    qed
  qed
qed (simp add: sret_def)

text \<open>Enough polls: the wait ends with the first poll that sees the confirming block, and looking at more polls
  changes nothing.\<close>

lemma wait_confirmed_ends:
  assumes "poll_height env (run_states (poll_height env) k s) = (s', Inr h)" "c \<le> Big_Uint64 h"
    and "\<And>i p. i < k \<Longrightarrow> snd (poll_height env (run_states (poll_height env) i s)) \<noteq> Inl (Panic p)"
  shows "\<exists>s''. \<forall>polls > k. wait_confirmed env c polls s = (s'', Inr True)"
  using assms
proof (induction k arbitrary: s)
  case 0
  then have "wait_confirmed env c (Suc n) s = (s', Inr True)" for n by (simp add: sret_def)
  then show ?case by (metis gr0_implies_Suc)
next
  case (Suc k)
  obtain s1 r where m: "poll_height env s = (s1, r)" by fastforce
  have "\<exists>s''. \<forall>polls > k. wait_confirmed env c polls s1 = (s'', Inr True)"
    using Suc.IH [of s1] Suc.prems(1,2) Suc.prems(3) [of "Suc i" for i] m by simp
  then obtain s'' where IH: "wait_confirmed env c polls s1 = (s'', Inr True)" if "k < polls" for polls by blast
  show ?case
  proof (cases "\<exists>h'. r = Inr h' \<and> c \<le> Big_Uint64 h'")
    case True
    then have "wait_confirmed env c (Suc n) s = (s1, Inr True)" for n using m by (auto simp: sret_def)
    then show ?thesis by (metis Suc_lessE)
  next
    case False
    have "wait_confirmed env c (Suc n) s = (s'', Inr True)" if "k < n" for n
    proof (cases r)
      case (Inl e)
      then obtain e' where "r = Inl (Err e')" using Suc.prems(3) [of 0] m by (cases e) auto
      then show ?thesis using IH m that by simp
    next
      case (Inr h')
      then show ?thesis using IH m that False by simp
    qed
    then show ?thesis by (metis Suc_lessE)
  qed
qed

lemma iterator_Next_success:
  assumes "iterator_Next env codec polls it s = (s', Inr (Some (it', b)))"
  shows "it' = it\<lparr>it_currentNumber := it_currentNumber it + 1\<rparr>"
    "\<forall>e. it_endNumber it = Some e \<longrightarrow> 0 < e \<longrightarrow> it_currentNumber it \<le> e"
    "\<exists>k h t. poll_height env (run_states (poll_height env) k s) = (t, Inr h) \<and> confirmNumber it \<le> Big_Uint64 h
       \<and> GetFullBlock env codec (it_currentNumber it) (it_withTxData it) t = (s', Inr b)"
proof -
  have e: "\<not> (case it_endNumber it of None \<Rightarrow> False | Some e \<Rightarrow> e > 0 \<and> e < it_currentNumber it)"
    using assms by (auto simp: iterator_Next_def sfail_def split: if_splits)
  let ?get = "\<lambda>confirmed. if \<not> confirmed then sret None
    else sbind (GetFullBlock env codec (it_currentNumber it) (it_withTxData it)) (\<lambda>block.
      sret (Some (it\<lparr>it_currentNumber := it_currentNumber it + 1\<rparr>, block)))"
  let ?wait = "\<lambda>h. if Big_Uint64 h < confirmNumber it then wait_confirmed env (confirmNumber it) polls else sret True"
  have "sbind (poll_height env) (\<lambda>h. sbind (?wait h) ?get) s = (s', Inr (Some (it', b)))"
    using assms e by (simp add: iterator_Next_def)
  then obtain s1 h s2 c where
    1: "poll_height env s = (s1, Inr h)" "?wait h s1 = (s2, Inr c)" and
    g: "?get c s2 = (s', Inr (Some (it', b)))"
    unfolding sbind_Inr_iff [of "RetryCall e t r k m a" for e t r k m a] sbind_Inr_iff [of "if P then Q else R" for P Q R] by blast
  have c: "c = True" using g by (cases c) (simp_all add: sret_def)
  have 2: "GetFullBlock env codec (it_currentNumber it) (it_withTxData it) s2 = (s', Inr b)"
    "it' = it\<lparr>it_currentNumber := it_currentNumber it + 1\<rparr>"
    using g c by (auto simp: sbind_Inr_iff sret_def)
  show "it' = it\<lparr>it_currentNumber := it_currentNumber it + 1\<rparr>" by (rule 2)
  show "\<forall>e. it_endNumber it = Some e \<longrightarrow> 0 < e \<longrightarrow> it_currentNumber it \<le> e" using e by auto
  have "\<exists>k h. poll_height env (run_states (poll_height env) k s) = (s2, Inr h) \<and> confirmNumber it \<le> Big_Uint64 h"
  proof (cases "Big_Uint64 h < confirmNumber it")
    case True
    then obtain k h' where "poll_height env (run_states (poll_height env) k s1) = (s2, Inr h')" "confirmNumber it \<le> Big_Uint64 h'"
      using 1(2) c wait_confirmed_True by fastforce
    then show ?thesis using 1(1) by (intro exI [of _ "Suc k"] exI [of _ h']) simp
  next
    case False
    then show ?thesis using 1 by (intro exI [of _ 0] exI [of _ h]) (simp add: sret_def)
  qed
  then show "\<exists>k h t. poll_height env (run_states (poll_height env) k s) = (t, Inr h) \<and> confirmNumber it \<le> Big_Uint64 h
       \<and> GetFullBlock env codec (it_currentNumber it) (it_withTxData it) t = (s', Inr b)" using 2(1) by blast
qed

text \<open>Claim C34: \<open>Next\<close> ends as soon as a node reports a height that confirms the block: from then on, however many
  polls are looked at, its result is that of fetching the block, after which it has advanced by one; failing polls
  before are passed over.\<close>

theorem iterator_Next_returns:
  assumes "\<forall>e. it_endNumber it = Some e \<longrightarrow> 0 < e \<longrightarrow> it_currentNumber it \<le> e"
    and "RetryCall env big_target ''latest'' 2 ''eth_blockNumber'' [] s = (s1, Inr h0)"
    and "RetryCall env big_target ''latest'' 2 ''eth_blockNumber'' []
      (run_states (RetryCall env big_target ''latest'' 2 ''eth_blockNumber'' []) k s1) = (s2, Inr h)"
    and "confirmNumber it \<le> Big_Uint64 h"
    and "\<And>i p. i < k \<Longrightarrow> snd (RetryCall env big_target ''latest'' 2 ''eth_blockNumber'' []
      (run_states (RetryCall env big_target ''latest'' 2 ''eth_blockNumber'' []) i s1)) \<noteq> Inl (Panic p)"
  shows "\<exists>t. \<forall>polls > k. iterator_Next env codec polls it s =
    (case GetFullBlock env codec (it_currentNumber it) (it_withTxData it) t of
       (t', Inr block) \<Rightarrow> (t', Inr (Some (it\<lparr>it_currentNumber := it_currentNumber it + 1\<rparr>, block)))
     | (t', Inl e) \<Rightarrow> (t', Inl e))"
proof -
  have open_end: "\<not> (case it_endNumber it of None \<Rightarrow> False | Some e \<Rightarrow> e > 0 \<and> e < it_currentNumber it)"
    using assms(1) by (auto split: option.splits)
  obtain t where t: "(if Big_Uint64 h0 < confirmNumber it then wait_confirmed env (confirmNumber it) polls else sret True) s1 = (t, Inr True)"
    if "k < polls" for polls
  proof (cases "Big_Uint64 h0 < confirmNumber it")
    case True
    then show thesis using that wait_confirmed_ends [OF assms(3-5)] by (auto simp: sret_def)
  qed (use that in \<open>simp add: sret_def\<close>)
  show ?thesis
    by (rule exI [of _ t]) (simp add: iterator_Next_def open_end assms(2) t sbind_def sret_def split: prod.splits sum.splits)
qed

text \<open>Claim C13: the iterator delivers the blocks of consecutive numbers from its current number on,
  without gaps or repetitions, also when some calls fail in between, and none beyond its end. Each call that delivers a block asks for the height, once or again and again, and fetches the
  block in the very state in which a request for the height, made during this call, was answered with one that confirms the block (in 64 bits); what it returns is the block fetched then.\<close>

theorem iterator_consecutive:
  assumes "iterate_blocks env codec polls n it s = bs" "i < length bs"
  shows "dl_number (bs ! i) = it_currentNumber it + int i
    \<and> (\<forall>e. it_endNumber it = Some e \<longrightarrow> 0 < e \<longrightarrow> dl_number (bs ! i) \<le> e)
    \<and> (\<exists>k h t. RetryCall env big_target ''latest'' 2 ''eth_blockNumber'' []
          (run_states (RetryCall env big_target ''latest'' 2 ''eth_blockNumber'' []) k (dl_before (bs ! i))) = (t, Inr h)
        \<and> (big_Uint64 (dl_number (bs ! i)) + int (it_confirms it)) mod 2 ^ 64 \<le> Big_Uint64 h
        \<and> GetFullBlock env codec (dl_number (bs ! i)) (it_withTxData it) t = (dl_after (bs ! i), Inr (dl_block (bs ! i))))"
  using assms
proof (induction n arbitrary: it s bs i)
  case 0
  then show ?case by simp
next
  case (Suc n)
  obtain s' r where r: "iterator_Next env codec polls it s = (s', r)" by fastforce
  consider (panic) p where "r = Inl (Panic p)" | (err) e where "r = Inl (Err e)" | (waits) "r = Inr None"
    | (got) it' b where "r = Inr (Some (it', b))"
    by (metis go_error.exhaust not_None_eq old.prod.exhaust old.sum.exhaust)
  then show ?case
  proof cases
    case panic
    then show ?thesis using Suc.prems r by auto
  next
    case err
    then have "iterate_blocks env codec polls n it s' = bs" using Suc.prems(1) r by simp
    then show ?thesis using Suc.prems(2) by (rule Suc.IH)
  next
    case waits
    then show ?thesis using Suc.prems r by auto
  next
    case got
    note nx = iterator_Next_success [OF r [unfolded got]]
    show ?thesis
    proof (cases i)
      case 0
      then have "bs ! i = \<lparr>dl_number = it_currentNumber it, dl_block = b, dl_before = s, dl_after = s'\<rparr>" using Suc.prems(1) r got by auto
      then show ?thesis using 0 nx unfolding confirmNumber_def by simp
    next
      case (Suc j)
      have bs: "bs = \<lparr>dl_number = it_currentNumber it, dl_block = b, dl_before = s, dl_after = s'\<rparr> # iterate_blocks env codec polls n it' s'"
        using Suc.prems(1) r got by simp
      then have j: "j < length (iterate_blocks env codec polls n it' s')" using Suc.prems(2) Suc by simp
      have eqs: "bs ! i = iterate_blocks env codec polls n it' s' ! j" "it_currentNumber it + int i = it_currentNumber it' + int j"
        "it_endNumber it = it_endNumber it'" "it_withTxData it = it_withTxData it'" "it_confirms it = it_confirms it'"
        using bs Suc nx(1) by simp_all
      show ?thesis unfolding eqs by (rule Suc.IH [OF refl j])
    qed
  qed
qed


subsection \<open>Nonces and transactions\<close>

definition addressCurrentNonce :: "'w node_env \<Rightarrow> address \<Rightarrow> ('w, int) acc" where
  "addressCurrentNonce env address =
    sbind (sget (\<lambda>s. ea_AddressNonce (fst s) address)) (\<lambda>known. case known of
      Some nonce \<Rightarrow> sret nonce
    | None \<Rightarrow>
        sbind (stry (RetryCall env big_target ''pending'' 2 ''eth_getTransactionCount'' [PAddr address, PStr ''pending''])) (\<lambda>r.
        let nonce = (case r of Inl err \<Rightarrow> 0 | Inr n \<Rightarrow> n) in
        sbind (mod_mc (\<lambda>a. a\<lparr>ea_AddressNonce := (ea_AddressNonce a)(address \<mapsto> nonce)\<rparr>)) (\<lambda>_. sret nonce)))"

definition resetAddressNonce :: "'w node_env \<Rightarrow> address \<Rightarrow> ('w, unit) acc" where
  "resetAddressNonce env address =
    sbind (stry (RetryCall env big_target ''pending'' 2 ''eth_getTransactionCount'' [PAddr address, PStr ''pending''])) (\<lambda>r.
      mod_mc (\<lambda>a. a\<lparr>ea_AddressNonce := (ea_AddressNonce a)(address \<mapsto> (case r of Inl err \<Rightarrow> 0 | Inr n \<Rightarrow> n))\<rparr>))"

definition addressNextNonce :: "'w node_env \<Rightarrow> address \<Rightarrow> ('w, int) acc" where
  "addressNextNonce env address =
    sbind (addressCurrentNonce env address) (\<lambda>nonce.
    sbind (mod_mc (\<lambda>a. a\<lparr>ea_AddressNonce := (ea_AddressNonce a)(address \<mapsto> nonce + 1)\<rparr>)) (\<lambda>_. sret (nonce + 1)))"

record RawTx =
  rt_Nonce :: int
  rt_To :: address
  rt_Value :: int
  rt_Gas :: int
  rt_GasPrice :: int
  rt_Data :: bytes

record ('w, 'tx) signer =
  sg_SignTx :: "address \<Rightarrow> RawTx \<Rightarrow> ('w, 'tx) st"
  sg_rlp :: "'tx \<Rightarrow> bytes res"

definition text_target :: "string target" where
  "text_target = \<lparr>tg_dec = (\<lambda>v. case v of JText t \<Rightarrow> Inr t | JNull \<Rightarrow> Inr [] | _ \<Rightarrow> Inl (Err ''json: cannot unmarshal'')),
     tg_big = None, tg_old = []\<rparr>"

definition SignAndSendTransaction :: "'w node_env \<Rightarrow> ('w, 'tx) signer \<Rightarrow> address \<Rightarrow> RawTx \<Rightarrow> ('w, string \<times> 'tx) acc" where
  "SignAndSendTransaction env sg sender beforeSignTx =
    sbind (on_snd (sg_SignTx sg sender beforeSignTx)) (\<lambda>tx.
    sbind (slift (sg_rlp sg tx)) (\<lambda>txData.
    sbind (RetryCall env text_target ''latest'' 2 ''eth_sendRawTransaction'' [PStr (ToHex txData)]) (\<lambda>txHash.
    sret (txHash, tx))))"

text \<open>The gas price that \<open>EstimateGas\<close> returns is the zero of a variable that is never set.\<close>

definition EstimateGas :: "'w node_env \<Rightarrow> string \<Rightarrow> bytes \<Rightarrow> address \<Rightarrow> ('w, int \<times> int) acc" where
  "EstimateGas env routeParam callData to =
    (let gasPriceBig = 0;
         callArg = \<lparr>ca_From = replicate 20 0, ca_To = to, ca_Gas = 0, ca_GasPrice = gasPriceBig, ca_Value = 0,
           ca_Data = ToHex callData, ca_Nonce = 0\<rparr> in
     sbind (RetryCall env big_target routeParam 2 ''eth_estimateGas'' [PCall callArg]) (\<lambda>gasBig. sret (gasBig, gasPriceBig)))"

definition ContractCallMethod :: "'w node_env \<Rightarrow> 'a target \<Rightarrow> address \<Rightarrow> string \<Rightarrow> bytes res \<Rightarrow> ('w, 'a) acc" where
  "ContractCallMethod env tg contractAddress blockParameter packed =
    sbind (slift packed) (\<lambda>callData.
      let arg = \<lparr>ca_From = contractAddress, ca_To = contractAddress, ca_Gas = 0, ca_GasPrice = 0, ca_Value = 0,
            ca_Data = ToHex callData, ca_Nonce = 0\<rparr> in
      RetryCall env tg blockParameter 2 ''eth_call'' [PCall arg, PStr blockParameter])"

definition NewTransaction :: "int \<Rightarrow> address \<Rightarrow> int \<Rightarrow> int \<Rightarrow> int \<Rightarrow> bytes \<Rightarrow> RawTx" where
  "NewTransaction nonce to value gas gasPrice callData =
     \<lparr>rt_Nonce = big_Uint64 nonce, rt_To = to, rt_Value = value, rt_Gas = big_Uint64 gas, rt_GasPrice = gasPrice, rt_Data = callData\<rparr>"

text \<open>Sending with the current nonce; after a failure the nonce is asked for again and there is one more
  attempt.\<close>

definition send_with_nonce :: "'w node_env \<Rightarrow> ('w, 'tx) signer \<Rightarrow> address \<Rightarrow> (int \<Rightarrow> RawTx) \<Rightarrow> ('w, string \<times> 'tx) acc" where
  "send_with_nonce env sg sender mk =
    sbind (addressCurrentNonce env sender) (\<lambda>nonce.
    sbind (stry (SignAndSendTransaction env sg sender (mk nonce))) (\<lambda>r.
    sbind (case r of
        Inr sent \<Rightarrow> sret sent
      | Inl err \<Rightarrow> sbind (resetAddressNonce env sender) (\<lambda>_.
          sbind (addressCurrentNonce env sender) (\<lambda>nonce. SignAndSendTransaction env sg sender (mk nonce)))) (\<lambda>sent.
    sbind (addressNextNonce env sender) (\<lambda>_. sret sent))))"

definition ContractSendTransactionByData :: "'w node_env \<Rightarrow> ('w, 'tx) signer \<Rightarrow> address \<Rightarrow> address \<Rightarrow> int option \<Rightarrow> int option \<Rightarrow> int option
    \<Rightarrow> bytes \<Rightarrow> bool \<Rightarrow> ('w, string \<times> 'tx) acc" where
  "ContractSendTransactionByData env sg sender to gas gasPrice value callData needPreExe =
    (case gasPrice of
       None \<Rightarrow> sfail (Err ''gasPrice must be setted.'')
     | Some gasPrice \<Rightarrow> if gasPrice \<le> 0 then sfail (Err ''gasPrice must be setted.'') else
    (case gas of
       None \<Rightarrow> sfail (Err ''gas must be setted.'')
     | Some gas \<Rightarrow> if gas \<le> 0 then sfail (Err ''gas must be setted.'') else
    sbind (if needPreExe
           then sbind (EstimateGas env ''latest'' callData to) (\<lambda>(estimagetGas, _). sret (if gas < 2000 then estimagetGas else gas))
           else sret gas) (\<lambda>gas.
    let value = (case value of None \<Rightarrow> 0 | Some v \<Rightarrow> v) in
    send_with_nonce env sg sender (\<lambda>nonce. NewTransaction nonce to value gas gasPrice callData))))"

text \<open>\<open>gas.Add(gas, 1000)\<close> changes the number the caller passed: the new gas is part of the result.\<close>

definition ContractSendTransactionMethod :: "'w node_env \<Rightarrow> ('w, 'tx) signer \<Rightarrow> string \<Rightarrow> address \<Rightarrow> address \<Rightarrow> int option \<Rightarrow> int option
    \<Rightarrow> int option \<Rightarrow> bytes res \<Rightarrow> ('w, int \<times> string \<times> 'tx) acc" where
  "ContractSendTransactionMethod env sg routeParam contractAddress sender gas gasPrice value packed =
    sbind (slift packed) (\<lambda>callData.
    sbind (case (gas, gasPrice) of
        (Some g, Some p) \<Rightarrow> sret (g, p)
      | _ \<Rightarrow> EstimateGas env routeParam callData contractAddress) (\<lambda>(gas, gasPrice).
    let gas = gas + 1000 in
    sbind (ContractSendTransactionByData env sg sender contractAddress (Some gas) (Some gasPrice) value callData False) (\<lambda>sent.
    sret (gas, sent))))"

text \<open>Calls leave the nonces alone.\<close>

definition nonces :: "(address \<rightharpoonup> int) \<Rightarrow> ethNodeAccessor \<times> 'w \<Rightarrow> bool" where
  "nonces N s \<longleftrightarrow> ea_AddressNonce (fst s) = N"

lemma nonces_clients [keeps_intros]:
  "keeps (nonces N) (newRpcClient env url)" "keeps (nonces N) (sync_client env key client)" "keeps (nonces N) (mark_down url)"
  unfolding newRpcClient_def sync_client_def Let_def mark_down_def
  by (intro keeps_intros; simp add: nonces_def)+

lemma nonces_usage [keeps_intros]: "keeps (nonces N) (usage_loop env us urls)"
  by (induction us arbitrary: urls) (simp_all add: keeps_intros)

lemma nonces_best [keeps_intros]: "keeps (nonces N) (bestClient env routeParam)"
  unfolding client_defs syncBlockNumber_def sync_body_def by (intro keeps_intros; simp add: nonces_def)

lemma nonces_send_loop [keeps_intros]: "keeps (nonces N) (send_loop env tg m args urls a b)"
proof (induction urls arbitrary: a b)
  case (Cons url urls)
  show ?case unfolding send_loop.simps by (intro keeps_intros Cons.IH) (simp_all add: nonces_def)
qed (simp add: keeps_intros)

lemma nonces_call [keeps_intros]: "keeps (nonces N) (RetryCall env tg r n m args)"
  unfolding RetryCall_def MC_Call_def routed_call_def MC_BlockNumber_def range_clients_def
  by (intro keeps_intros; simp add: nonces_def)

lemma nonces_SignAndSend [keeps_intros]: "keeps (nonces N) (SignAndSendTransaction env sg sender tx)"
  unfolding SignAndSendTransaction_def by (intro keeps_intros; simp add: nonces_def)

lemma call_nonces: "RetryCall env tg r n m args s = (s', x) \<Longrightarrow> ea_AddressNonce (fst s') = ea_AddressNonce (fst s)"
  using keepsD [OF nonces_call [of "ea_AddressNonce (fst s)" env tg r n m args], of s] by (simp add: nonces_def)

text \<open>The current nonce is remembered, and what is returned is what is in the table.\<close>

lemma addressCurrentNonce_outcome:
  assumes "addressCurrentNonce env a s = (s', Inr n)"
  shows "ea_AddressNonce (fst s') = (ea_AddressNonce (fst s))(a \<mapsto> n) \<and> (\<forall>k. ea_AddressNonce (fst s) a = Some k \<longrightarrow> n = k)"
proof (cases "ea_AddressNonce (fst s) a")
  case (Some k)
  then show ?thesis using assms by (auto simp: addressCurrentNonce_def sget_def sret_def)
next
  case None
  let ?call = "RetryCall env big_target ''pending'' 2 ''eth_getTransactionCount'' [PAddr a, PStr ''pending'']"
  obtain s1 r where r: "?call s = (s1, r)" by fastforce
  have n1: "ea_AddressNonce (fst s1) = ea_AddressNonce (fst s)" by (rule call_nonces [OF r])
  have "sbind (stry ?call) (\<lambda>r. let nonce = (case r of Inl err \<Rightarrow> 0 | Inr n \<Rightarrow> n) in
        sbind (mod_mc (\<lambda>x. x\<lparr>ea_AddressNonce := (ea_AddressNonce x)(a \<mapsto> nonce)\<rparr>)) (\<lambda>_. sret nonce)) s = (s', Inr n)"
    using assms None by (simp add: addressCurrentNonce_def sget_def)
  then show ?thesis
    by (rule sbind_stryE) (use n1 r None in \<open>auto simp: mod_mc_def smod_def sret_def split: prod.splits\<close>)
qed

lemma resetAddressNonce_outcome:
  assumes "resetAddressNonce env a s = (s', Inr ())"
  shows "\<exists>n. ea_AddressNonce (fst s') = (ea_AddressNonce (fst s))(a \<mapsto> n)"
  using assms unfolding resetAddressNonce_def
  by (rule sbind_stryE) (auto simp: mod_mc_def smod_def split: prod.splits dest!: call_nonces)

lemma addressNextNonce_outcome:
  assumes "addressNextNonce env a s = (s', Inr n)"
  shows "ea_AddressNonce (fst s') = (ea_AddressNonce (fst s))(a \<mapsto> n)
    \<and> (\<forall>k. ea_AddressNonce (fst s) a = Some k \<longrightarrow> n = k + 1)"
  using assms
  by (auto simp: addressNextNonce_def sbind_Inr_iff mod_mc_def smod_def sret_def split: prod.splits dest!: addressCurrentNonce_outcome)

lemma SignAndSend_outcome:
  assumes "SignAndSendTransaction env sg sender raw s = (s', r)"
  shows "ea_AddressNonce (fst s') = ea_AddressNonce (fst s)"
    "r = Inr (h, tx) \<Longrightarrow> \<exists>w w'. sg_SignTx sg sender raw w = (w', Inr tx)"
  using keepsD [OF nonces_SignAndSend [of "ea_AddressNonce (fst s)" env sg sender raw], of s] assms
  by (auto simp: nonces_def SignAndSendTransaction_def sbind_Inr_iff sret_def on_snd_iff)

lemma send_with_nonce_outcome:
  assumes "send_with_nonce env sg sender mk s = (s', Inr (h, tx))"
  shows "\<exists>n. (\<exists>w w'. sg_SignTx sg sender (mk n) w = (w', Inr tx))
    \<and> ea_AddressNonce (fst s') = (ea_AddressNonce (fst s))(sender \<mapsto> n + 1)
    \<and> (\<forall>k. ea_AddressNonce (fst s) sender = Some k \<longrightarrow>
          (\<exists>t x. SignAndSendTransaction env sg sender (mk k) s = (t, Inr x)) \<longrightarrow> n = k)"
proof -
  from assms obtain s1 n1 where 1: "addressCurrentNonce env sender s = (s1, Inr n1)" and
    rest: "sbind (stry (SignAndSendTransaction env sg sender (mk n1))) (\<lambda>r.
      sbind (case r of
          Inr sent \<Rightarrow> sret sent
        | Inl err \<Rightarrow> sbind (resetAddressNonce env sender) (\<lambda>_.
            sbind (addressCurrentNonce env sender) (\<lambda>nonce. SignAndSendTransaction env sg sender (mk nonce)))) (\<lambda>sent.
      sbind (addressNextNonce env sender) (\<lambda>_. sret sent))) s1 = (s', Inr (h, tx))"
    unfolding send_with_nonce_def sbind_Inr_iff [of "addressCurrentNonce env sender"] by blast
  note n1 = addressCurrentNonce_outcome [OF 1]
  have known: "s1 = s" if "ea_AddressNonce (fst s) sender = Some k" for k
    using 1 that by (simp add: addressCurrentNonce_def sget_def sret_def)
  from rest show ?thesis
  proof (cases rule: sbind_stryE)
    case (failed s2 e)
    then obtain s3 s4 n2 s5 where f:
      "resetAddressNonce env sender s2 = (s3, Inr ())" "addressCurrentNonce env sender s3 = (s4, Inr n2)"
      "SignAndSendTransaction env sg sender (mk n2) s4 = (s5, Inr (h, tx))" "\<exists>m. addressNextNonce env sender s5 = (s', Inr m)"
      by (auto simp: sbind_Inr_iff sret_def)
    have "ea_AddressNonce (fst s5) = (ea_AddressNonce (fst s))(sender \<mapsto> n2)"
      using n1 SignAndSend_outcome(1) [OF failed(1)] resetAddressNonce_outcome [OF f(1)] addressCurrentNonce_outcome [OF f(2)]
        SignAndSend_outcome(1) [OF f(3)] by auto
    then have "ea_AddressNonce (fst s') = (ea_AddressNonce (fst s))(sender \<mapsto> n2 + 1)"
      using f(4) addressNextNonce_outcome by fastforce
    moreover have "\<not> (\<exists>t x. SignAndSendTransaction env sg sender (mk k) s = (t, Inr x))" if "ea_AddressNonce (fst s) sender = Some k" for k
      using known [OF that] n1 that failed(1) by auto
    ultimately show ?thesis using SignAndSend_outcome(2) [OF f(3) refl] by blast
  next
    case (succeeded s2 sent)
    then have x: "sent = (h, tx)" "\<exists>m. addressNextNonce env sender s2 = (s', Inr m)" by (auto simp: sbind_Inr_iff sret_def)
    have "ea_AddressNonce (fst s2) = (ea_AddressNonce (fst s))(sender \<mapsto> n1)"
      using n1 SignAndSend_outcome(1) [OF succeeded(1)] by simp
    then have "ea_AddressNonce (fst s') = (ea_AddressNonce (fst s))(sender \<mapsto> n1 + 1)"
      using x(2) addressNextNonce_outcome by fastforce
    then show ?thesis using SignAndSend_outcome(2) [OF succeeded(1)] x(1) n1 by blast
  qed
qed

lemma send_with_nonce_attempts:
  assumes "send_with_nonce env sg sender mk s = (s', Inr (h, tx))"
  shows "\<exists>s1 n1. addressCurrentNonce env sender s = (s1, Inr n1) \<and> (\<forall>k. ea_AddressNonce (fst s) sender = Some k \<longrightarrow> n1 = k \<and> s1 = s)
    \<and> (case SignAndSendTransaction env sg sender (mk n1) s1 of
         (s2, Inr sent) \<Rightarrow> sent = (h, tx) \<and> ea_AddressNonce (fst s') = (ea_AddressNonce (fst s))(sender \<mapsto> n1 + 1)
       | (s2, Inl err) \<Rightarrow>
           (case RetryCall env big_target ''pending'' 2 ''eth_getTransactionCount'' [PAddr sender, PStr ''pending''] s2 of
              (s3, r) \<Rightarrow> let n2 = (case r of Inl err \<Rightarrow> 0 | Inr c \<Rightarrow> c) in
                \<exists>s4 s5. snd s4 = snd s3 \<and> ea_AddressNonce (fst s4) = (ea_AddressNonce (fst s))(sender \<mapsto> n2)
                  \<and> SignAndSendTransaction env sg sender (mk n2) s4 = (s5, Inr (h, tx))
                  \<and> ea_AddressNonce (fst s') = (ea_AddressNonce (fst s))(sender \<mapsto> n2 + 1)))"
proof -
  from assms obtain s1 n1 where 1: "addressCurrentNonce env sender s = (s1, Inr n1)" and
    rest: "sbind (stry (SignAndSendTransaction env sg sender (mk n1))) (\<lambda>r.
      sbind (case r of
          Inr sent \<Rightarrow> sret sent
        | Inl err \<Rightarrow> sbind (resetAddressNonce env sender) (\<lambda>_.
            sbind (addressCurrentNonce env sender) (\<lambda>nonce. SignAndSendTransaction env sg sender (mk nonce)))) (\<lambda>sent.
      sbind (addressNextNonce env sender) (\<lambda>_. sret sent))) s1 = (s', Inr (h, tx))"
    unfolding send_with_nonce_def sbind_Inr_iff [of "addressCurrentNonce env sender"] by blast
  note n1 = addressCurrentNonce_outcome [OF 1]
  have known: "\<forall>k. ea_AddressNonce (fst s) sender = Some k \<longrightarrow> n1 = k \<and> s1 = s"
    using 1 by (auto simp: addressCurrentNonce_def sget_def sret_def)
  have succ: "ea_AddressNonce (fst s') = (ea_AddressNonce (fst s))(sender \<mapsto> n + 1)"
    if "addressNextNonce env sender t = (s', Inr m)" "ea_AddressNonce (fst t) = (ea_AddressNonce (fst s))(sender \<mapsto> n)" for t m n
    using addressNextNonce_outcome [OF that(1)] that(2) by simp
  from rest show ?thesis
  proof (cases rule: sbind_stryE)
    case (failed s2 e)
    then obtain s4 s5 n2 s6 where f:
      "resetAddressNonce env sender s2 = (s4, Inr ())" "addressCurrentNonce env sender s4 = (s5, Inr n2)"
      "SignAndSendTransaction env sg sender (mk n2) s5 = (s6, Inr (h, tx))" "\<exists>m. addressNextNonce env sender s6 = (s', Inr m)"
      by (auto simp: sbind_Inr_iff sret_def)
    let ?call = "RetryCall env big_target ''pending'' 2 ''eth_getTransactionCount'' [PAddr sender, PStr ''pending'']"
    obtain s3 r where r: "?call s2 = (s3, r)" by fastforce
    let ?n = "case r of Inl err \<Rightarrow> 0 | Inr c \<Rightarrow> c"
    have s4: "s4 = ((fst s3)\<lparr>ea_AddressNonce := (ea_AddressNonce (fst s3))(sender \<mapsto> ?n)\<rparr>, snd s3)"
      using f(1) unfolding resetAddressNonce_def
      by (rule sbind_stryE) (use r in \<open>auto simp: mod_mc_def smod_def split: prod.splits\<close>)
    then have "s5 = s4" "n2 = ?n" using f(2) by (auto simp: addressCurrentNonce_def sget_def sret_def)
    moreover have "ea_AddressNonce (fst s4) = (ea_AddressNonce (fst s))(sender \<mapsto> ?n)"
      using s4 n1 SignAndSend_outcome(1) [OF failed(1)] call_nonces [OF r] by simp
    ultimately have "snd s4 = snd s3 \<and> ea_AddressNonce (fst s4) = (ea_AddressNonce (fst s))(sender \<mapsto> ?n)
        \<and> SignAndSendTransaction env sg sender (mk ?n) s4 = (s6, Inr (h, tx))
        \<and> ea_AddressNonce (fst s') = (ea_AddressNonce (fst s))(sender \<mapsto> ?n + 1)"
      using s4 f(3,4) succ [of s6 _ ?n] SignAndSend_outcome(1) [OF f(3)] by auto
    then have "\<exists>s4 s5. snd s4 = snd s3 \<and> ea_AddressNonce (fst s4) = (ea_AddressNonce (fst s))(sender \<mapsto> ?n)
        \<and> SignAndSendTransaction env sg sender (mk ?n) s4 = (s5, Inr (h, tx))
        \<and> ea_AddressNonce (fst s') = (ea_AddressNonce (fst s))(sender \<mapsto> ?n + 1)" by blast
    then show ?thesis
      using 1 known failed(1) r by (intro exI [of _ s1] exI [of _ n1]) (simp add: Let_def)
  next
    case (succeeded s2 sent)
    then have x: "sent = (h, tx)" "\<exists>m. addressNextNonce env sender s2 = (s', Inr m)" by (auto simp: sbind_Inr_iff sret_def)
    have "ea_AddressNonce (fst s2) = (ea_AddressNonce (fst s))(sender \<mapsto> n1)"
      using n1 SignAndSend_outcome(1) [OF succeeded(1)] by simp
    then have "ea_AddressNonce (fst s') = (ea_AddressNonce (fst s))(sender \<mapsto> n1 + 1)" using x(2) succ [of s2 _ n1] by blast
    then show ?thesis using x(1) 1 known succeeded(1) by (intro exI [of _ s1] exI [of _ n1]) simp
  qed
qed

text \<open>Claim C7: the nonces of a sender whose transactions are sent one after the other. The first attempt uses the nonce that the table holds (when it holds none, the one that \<open>addressCurrentNonce\<close>
  asks a node for). If this attempt succeeds, the table holds its successor afterwards, so that the next transaction follows without a gap. If it fails, a node is asked for the count of
  transactions in the state that the failure left, the second attempt uses this count, or 0 when no node answers, and the table holds its successor. In both cases the transaction returned is
  the one signed and sent by that attempt, and the nonces of the other addresses stay as they were.\<close>

theorem sent_nonce_advances:
  assumes "send_with_nonce env sg sender mk s = (s', Inr (h, tx))"
  shows "\<exists>s1 n1. addressCurrentNonce env sender s = (s1, Inr n1) \<and> (\<forall>k. ea_AddressNonce (fst s) sender = Some k \<longrightarrow> n1 = k \<and> s1 = s)
    \<and> (case SignAndSendTransaction env sg sender (mk n1) s1 of
         (s2, Inr sent) \<Rightarrow> sent = (h, tx) \<and> ea_AddressNonce (fst s') = (ea_AddressNonce (fst s))(sender \<mapsto> n1 + 1)
       | (s2, Inl err) \<Rightarrow>
           (case RetryCall env big_target ''pending'' 2 ''eth_getTransactionCount'' [PAddr sender, PStr ''pending''] s2 of
              (s3, r) \<Rightarrow> let n2 = (case r of Inl err \<Rightarrow> 0 | Inr c \<Rightarrow> c) in
                \<exists>s4 s5. snd s4 = snd s3 \<and> ea_AddressNonce (fst s4) = (ea_AddressNonce (fst s))(sender \<mapsto> n2)
                  \<and> SignAndSendTransaction env sg sender (mk n2) s4 = (s5, Inr (h, tx))
                  \<and> ea_AddressNonce (fst s') = (ea_AddressNonce (fst s))(sender \<mapsto> n2 + 1)))"
  using assms by (rule send_with_nonce_attempts)

text \<open>Although a comment says that gas and gas price may be nil, a contract call sent without one of
  them always fails: the estimate returns the price 0, which is refused.\<close>

theorem nil_gas_never_sent:
  assumes "gas = None \<or> gasPrice = None"
  shows "\<exists>e. snd (ContractSendTransactionMethod env sg routeParam contractAddress sender gas gasPrice value packed s) = Inl e"
proof (rule ccontr)
  let ?m = "ContractSendTransactionMethod env sg routeParam contractAddress sender gas gasPrice value packed"
  assume "\<not> ?thesis"
  then obtain s' x where "?m s = (s', Inr x)" by (metis old.sum.exhaust surjective_pairing)
  then obtain t t' callData g p sent where
    e: "(case (gas, gasPrice) of (Some g, Some p) \<Rightarrow> sret (g, p) | _ \<Rightarrow> EstimateGas env routeParam callData contractAddress) s = (t, Inr (g, p))" and
    d: "ContractSendTransactionByData env sg sender contractAddress (Some (g + 1000)) (Some p) value callData False t = (t', Inr sent)"
    by (auto simp: ContractSendTransactionMethod_def sbind_Inr_iff slift_def Let_def)
  have "EstimateGas env routeParam callData contractAddress s = (t, Inr (g, p))"
    using e assms by (cases gas; cases gasPrice) simp_all
  then have "p = 0" by (auto simp: EstimateGas_def sbind_Inr_iff sret_def)
  then show False using d by (simp add: ContractSendTransactionByData_def sfail_def)
qed

subsection \<open>Trying it on two nodes\<close>

definition demo_acc :: "(address \<rightharpoonup> int) \<Rightarrow> ethNodeAccessor" where
  "demo_acc N = \<lparr>mc_clients = mc_clients demo_pool, mc_downed = {}, ea_AddressNonce = N, ea_fetchTxRetryCount = 2\<rparr>"

theorem nil_gas_never_sent_witness:
  "\<exists>e. snd (ContractSendTransactionMethod (demo_env (\<lambda>_ _ _. sret (JBig 21000)) (\<lambda>_ _. sret [])) \<lparr>sg_SignTx = (\<lambda>_. sret), sg_rlp = (\<lambda>_. Inr [])\<rparr>
      ''latest'' [] [] (Some 5) None None (Inr [1]) (demo_acc Map.empty, 0 :: nat)) = Inl e"
  by (rule nil_gas_never_sent) simp

lemma demo_route:
  assumes "route_block (demo_env call batch) r (demo_acc N, w) = ((demo_acc N, w), Inr n)" "n \<le> 90" "CHR '':'' \<notin> set r"
  shows "bestClient (demo_env call batch) r (demo_acc N, w) = ((demo_acc N, w), Inr (Some \<lparr>rp_url = ''a'', rp_blockNumber = Some 100\<rparr>))"
proof -
  let ?env = "demo_env call batch"
  have k: "ne_keys ?env (mc_clients demo_pool) w = [''a'', ''b'']" by (simp add: demo_env_def demo_dom demo_keys)
  have "useageClient ?env s (demo_acc N, w) = ((demo_acc N, w), Inr ([], Some (Err ''connection refused'')))" for s
    by (simp add: useageClient_def demo_cache_down sret_def)
  moreover have "range_reaching ?env n (demo_acc N, w) = ((demo_acc N, w), Inr [''a'', ''b''])"
    using assms(2) by (simp add: range_reaching_def range_clients_def st_simps reaching_urls_def demo_acc_def k)
      (simp add: demo_pool_def)
  ultimately have "candidate_urls ?env n (demo_acc N, w) = ((demo_acc N, w), Inr [''a'', ''b''])"
    by (simp add: candidate_urls_def sret_def)
  moreover have "draw_client ?env [''a'', ''b''] (demo_acc N, w) = ((demo_acc N, w), Inr (Some \<lparr>rp_url = ''a'', rp_blockNumber = Some 100\<rparr>))"
    by (simp add: draw_client_def demo_env_def sret_def sget_def demo_acc_def demo_pool_def)
  ultimately have "pick_client ?env r (demo_acc N, w) = ((demo_acc N, w), Inr (Some \<lparr>rp_url = ''a'', rp_blockNumber = Some 100\<rparr>))"
    using assms(1) by (simp add: pick_client_def)
  then show ?thesis using assms(3) by (simp add: bestClient_def range_clients_def sget_def)
qed

lemma demo_latest: "route_block (demo_env call batch) ''latest'' (demo_acc N, w) = ((demo_acc N, w), Inr 0)"
  by (simp add: route_block_def MC_BlockNumber_def demo_cache_down sret_def)

text \<open>Any call by the route of a block that all nodes have goes to the first of them.\<close>

lemma demo_call:
  assumes "route_block (demo_env call batch) r (demo_acc N, w) = ((demo_acc N, w), Inr n)" "n \<le> 90" "CHR '':'' \<notin> set r"
    and "m \<noteq> ''eth_sendRawTransaction''" "call ''a'' m args w = (w', Inr v)" "tg_dec tg v = Inr x"
  shows "RetryCall (demo_env call batch) tg r 2 m args (demo_acc N, w) = ((demo_acc N, w'), Inr x)"
proof -
  let ?env = "demo_env call batch"
  have "rpc_call ?env (tg_dec tg) ''a'' m args (demo_acc N, w) = ((demo_acc N, w'), Inr x)"
    using assms(5,6) by (simp add: rpc_call_def demo_env_def slift_def)
  then have "routed_call ?env tg r m args (demo_acc N, w) = ((demo_acc N, w'), Inr (''a'', x))"
    using demo_route [OF assms(1-3)] by (simp add: routed_call_def sret_def)
  moreover have "MC_BlockNumber ?env tg (demo_acc N, w) = ((demo_acc N, w), Inl (Err ''connection refused''))"
    by (simp add: MC_BlockNumber_def demo_cache_down)
  ultimately have "\<exists>u. MC_Call ?env tg r m args (demo_acc N, w) = ((demo_acc N, w'), Inr (u, x))"
    using assms(4) by (auto simp: MC_Call_def)
  then show ?thesis by (auto simp: RetryCall_def numeral_2_eq_2 sret_def)
qed


definition demo_header :: BlockWithTxHash where
  "demo_header = Block.extend zero_Block \<lparr>bth_Transactions = []\<rparr>"

definition demo_chain :: "string \<Rightarrow> string \<Rightarrow> rpc_arg list \<Rightarrow> (nat, rpc_val) st" where
  "demo_chain url method args = sret (if method = ''eth_blockNumber'' then JBig 100
     else if method = ''eth_getTransactionCount'' then JBig 7
     else if method = ''eth_getBlockByNumber'' then JBlockHash demo_header else JText ''0xab'')"

abbreviation demo_node :: "nat node_env" where
  "demo_node \<equiv> demo_env demo_chain (\<lambda>_ reqs. sret (map (\<lambda>_. Inr JNull) reqs))"

definition no_codec :: block_codec where
  "no_codec = \<lparr>bc_marshal = (\<lambda>_. Inl (Err ''json'')), bc_unmarshal = (\<lambda>_. Inl (Err ''json''))\<rparr>"

lemma demo_block_get:
  assumes "0 \<le> n" "n \<le> 90"
  shows "\<exists>full. GetFullBlock demo_node no_codec n True (demo_acc N, w) = ((demo_acc N, w), Inr (FBFull full))"
proof -
  have "route_block demo_node (big_String n) (demo_acc N, w) = ((demo_acc N, w), Inr n)"
    using assms(1) by (simp add: route_block_number sret_def)
  from demo_call [OF this assms(2) dec_text_plain(3) [OF assms(1)], of "''eth_getBlockByNumber''" _ w _ block_hash_target "Some demo_header"]
  have "RetryCall demo_node block_hash_target (big_String n) 2 ''eth_getBlockByNumber'' [PStr (BigintToHex (Some n)), PBool False] (demo_acc N, w)
      = ((demo_acc N, w), Inr (Some demo_header))"
    by (simp add: demo_chain_def sret_def block_hash_target_def)
  moreover have "getFullBlockFromCacheByHash demo_node no_codec h (demo_acc N, w) = ((demo_acc N, w), Inl (Err ''connection refused''))" for h
    by (simp add: getFullBlockFromCacheByHash_def demo_cache_down)
  ultimately show ?thesis
    by (simp add: GetFullBlock_def full_block_of_def fill_block_def Let_def sret_def demo_header_def Block.defs)
qed

lemma demo_batch_laws [simp]: "batch_laws demo_node"
  by (simp add: batch_laws_def demo_env_def sret_def)

theorem GetFullBlock_complete_witness:
  "\<exists>full bh. GetFullBlock demo_node no_codec 90 True (demo_acc Map.empty, 0) = ((demo_acc Map.empty, 0), Inr (FBFull full))
     \<and> complete_block bh full"
proof -
  obtain full where g: "GetFullBlock demo_node no_codec 90 True (demo_acc Map.empty, 0) = ((demo_acc Map.empty, 0), Inr (FBFull full))"
    using demo_block_get [of 90] by auto
  have "getFullBlockFromCacheByHash demo_node no_codec h s \<noteq> (s', Inr x)" for h s s' x
    by (simp add: getFullBlockFromCacheByHash_def demo_cache_down)
  then show ?thesis using GetFullBlock_complete [OF demo_batch_laws g] g by auto
qed

lemma demo_height: "RetryCall demo_node big_target ''latest'' 2 ''eth_blockNumber'' [] (demo_acc N, w) = ((demo_acc N, w), Inr 100)"
  by (rule demo_call [OF demo_latest, where v = "JBig 100"]) (simp_all add: demo_chain_def sret_def big_target_def)

theorem iterator_consecutive_witness:
  "\<exists>b s'. iterate_blocks demo_node no_codec 0 1 (NewBlockIterator 90 None True 5) (demo_acc Map.empty, 0)
       = [\<lparr>dl_number = 90, dl_block = b, dl_before = (demo_acc Map.empty, 0), dl_after = s'\<rparr>]
     \<and> (\<exists>k h t. RetryCall demo_node big_target ''latest'' 2 ''eth_blockNumber'' []
          (run_states (RetryCall demo_node big_target ''latest'' 2 ''eth_blockNumber'' []) k (demo_acc Map.empty, 0)) = (t, Inr h)
        \<and> 95 \<le> Big_Uint64 h \<and> GetFullBlock demo_node no_codec 90 True t = (s', Inr b))"
proof -
  obtain full where g: "GetFullBlock demo_node no_codec 90 True (demo_acc Map.empty, 0) = ((demo_acc Map.empty, 0), Inr (FBFull full))"
    using demo_block_get [of 90] by auto
  have "iterator_Next demo_node no_codec 0 (NewBlockIterator 90 None True 5) (demo_acc Map.empty, 0)
      = ((demo_acc Map.empty, 0), Inr (Some ((NewBlockIterator 90 None True 5)\<lparr>it_currentNumber := 91\<rparr>, FBFull full)))"
    using demo_height g by (simp add: iterator_Next_def NewBlockIterator_def confirmNumber_def big_Uint64_def Big_Uint64_def sret_def)
  then have r: "iterate_blocks demo_node no_codec 0 1 (NewBlockIterator 90 None True 5) (demo_acc Map.empty, 0)
      = [\<lparr>dl_number = 90, dl_block = FBFull full, dl_before = (demo_acc Map.empty, 0), dl_after = (demo_acc Map.empty, 0)\<rparr>]"
    by (simp add: NewBlockIterator_def)
  from iterator_consecutive [OF r, of 0] show ?thesis
    using r by (intro exI [of _ "FBFull full"] exI [of _ "(demo_acc Map.empty, 0)"]) (simp add: NewBlockIterator_def big_Uint64_def)
qed

theorem iterator_Next_returns_witness:
  "\<exists>t. \<forall>polls > 0. iterator_Next demo_node no_codec polls (NewBlockIterator 90 None True 5) (demo_acc Map.empty, 0) =
     (case GetFullBlock demo_node no_codec 90 True t of
        (t', Inr block) \<Rightarrow> (t', Inr (Some ((NewBlockIterator 90 None True 5)\<lparr>it_currentNumber := 91\<rparr>, block)))
      | (t', Inl e) \<Rightarrow> (t', Inl e))"
proof -
  let ?it = "NewBlockIterator 90 None True 5"
  have it: "\<forall>e. it_endNumber ?it = Some e \<longrightarrow> 0 < e \<longrightarrow> it_currentNumber ?it \<le> e" "confirmNumber ?it \<le> Big_Uint64 100"
    by (simp_all add: NewBlockIterator_def confirmNumber_def big_Uint64_def Big_Uint64_def)
  have "poll_height demo_node (run_states (poll_height demo_node) 0 (demo_acc Map.empty, 0)) = ((demo_acc Map.empty, 0), Inr 100)"
    by (simp add: demo_height)
  from iterator_Next_returns [OF it(1) demo_height this it(2), of no_codec] show ?thesis by (simp add: NewBlockIterator_def)
qed

definition demo_signer :: "(nat, RawTx) signer" where
  "demo_signer = \<lparr>sg_SignTx = (\<lambda>_. sret), sg_rlp = (\<lambda>_. Inr [1])\<rparr>"

lemma demo_send_raw: "RetryCall demo_node text_target ''latest'' 2 ''eth_sendRawTransaction'' args (demo_acc N, w) = ((demo_acc N, w), Inr ''0xab'')"
proof -
  have keys: "ne_keys demo_node (mc_clients (demo_acc N)) w = [''a'', ''b'']" for N w
    by (simp add: demo_env_def demo_acc_def demo_dom demo_keys)
  have rpc: "rpc_call demo_node (tg_dec text_target) url ''eth_sendRawTransaction'' args s = (s, Inr ''0xab'')" for url args and s :: "ethNodeAccessor \<times> nat"
    by (cases s) (simp add: rpc_call_def demo_env_def demo_chain_def sret_def slift_def text_target_def)
  then have "MC_Call demo_node text_target ''latest'' ''eth_sendRawTransaction'' args (demo_acc N, w) = ((demo_acc N, w), Inr ('''', ''0xab''))" for args N w
    by (simp add: MC_Call_def range_clients_def sget_def keys sret_def)
  then show ?thesis by (simp add: RetryCall_def numeral_2_eq_2 sret_def)
qed

lemma demo_nonces:
  "addressCurrentNonce demo_node [5] (demo_acc [[5] \<mapsto> 7], 0) = ((demo_acc [[5] \<mapsto> 7], 0), Inr 7)"
  "\<exists>s'. addressNextNonce demo_node [5] (demo_acc [[5] \<mapsto> 7], 0) = (s', Inr 8)"
proof -
  show cur: "addressCurrentNonce demo_node [5] (demo_acc [[5] \<mapsto> 7], 0) = ((demo_acc [[5] \<mapsto> 7], 0), Inr 7)"
    by (simp add: addressCurrentNonce_def sget_def demo_acc_def sret_def)
  then show "\<exists>s'. addressNextNonce demo_node [5] (demo_acc [[5] \<mapsto> 7], 0) = (s', Inr 8)"
    by (simp add: addressNextNonce_def mod_mc_def smod_def sret_def)
qed

theorem sent_nonce_advances_witness:
  "\<exists>s' h tx. send_with_nonce demo_node demo_signer [5] (\<lambda>n. NewTransaction n [6] 0 21000 1 []) (demo_acc [[5] \<mapsto> 7], 0) = (s', Inr (h, tx))
     \<and> ea_AddressNonce (fst s') [5] = Some 8"
proof -
  let ?mk = "\<lambda>n. NewTransaction n [6] 0 21000 1 []"
  have sign: "SignAndSendTransaction demo_node demo_signer a raw (demo_acc N, w) = ((demo_acc N, w), Inr (''0xab'', raw))" for a raw N w
    by (simp add: SignAndSendTransaction_def demo_signer_def demo_send_raw sret_def slift_def)
  obtain s' where s': "send_with_nonce demo_node demo_signer [5] ?mk (demo_acc [[5] \<mapsto> 7], 0) = (s', Inr (''0xab'', ?mk 7))"
    using demo_nonces sign by (auto simp: send_with_nonce_def sret_def)
  from sent_nonce_advances [OF s'] have "ea_AddressNonce (fst s') [5] = Some 8" by (auto simp: demo_nonces(1) sign)
  then show ?thesis using s' by blast
qed

subsection \<open>Handing the answers of a batch back\<close>

text \<open>Each request gets the answers to its own elements, in order.\<close>

lemma hand_back_splits:
  assumes "startId + sum_list lens = length elems"
  shows "\<exists>parts. hand_back startId lens elems = Inr parts \<and> map length parts = lens \<and> concat parts = drop startId elems"
  using assms
proof (induction lens arbitrary: startId)
  case (Cons l lens)
  then obtain parts where "hand_back (startId + l) lens elems = Inr parts" "map length parts = lens" "concat parts = drop (startId + l) elems"
    by (metis add.assoc sum_list.Cons)
  then show ?case using Cons.prems by (auto simp: Let_def) (metis append_take_drop_id drop_drop add.commute)
qed simp

end
