(* ===== verification/Loopring_Accessor.thy ===== *)
theory Loopring_Accessor
  imports Eth_Accessor Abi_Roundtrip
begin

section \<open>The Loopring protocol accessor (\<open>eth/loopringaccessor\<close>)\<close>

text \<open>
  The package variable \<open>loopringParams\<close>, \<open>None\<close> while it is \<open>nil\<close>, is the first component of the state, before the
  node accessor and the world. Parameters: the hash \<open>K\<close>, the decoder \<open>J\<close> of the JSON text of an ABI, the
  request \<open>scan\<close> to the block explorer, and the orders in which the maps are visited.
\<close>

subsection \<open>The ABIs the package brings with it (\<open>config.go\<close>)\<close>

definition jarg :: "string \<Rightarrow> string \<Rightarrow> json_arg" where
  "jarg name t = \<lparr>ja_Name = name, ja_Type = t, ja_Indexed = False\<rparr>"

definition jidx :: "string \<Rightarrow> string \<Rightarrow> json_arg" where
  "jidx name t = \<lparr>ja_Name = name, ja_Type = t, ja_Indexed = True\<rparr>"

definition jfun :: "bool \<Rightarrow> string \<Rightarrow> json_arg list \<Rightarrow> string list \<Rightarrow> json_field" where
  "jfun const name ins outs = \<lparr>jf_Type = ''function'', jf_Name = name, jf_Constant = const, jf_Anonymous = False,
     jf_Inputs = ins, jf_Outputs = map (jarg '''') outs\<rparr>"

definition jevt :: "string \<Rightarrow> json_arg list \<Rightarrow> json_field" where
  "jevt name ins = \<lparr>jf_Type = ''event'', jf_Name = name, jf_Constant = False, jf_Anonymous = False, jf_Inputs = ins, jf_Outputs = []\<rparr>"

definition Erc20AbiStr :: "json_field list" where
  "Erc20AbiStr =
    [jfun False ''approve'' [jarg ''spender'' ''address'', jarg ''value'' ''uint256''] [''bool''],
     jfun True ''totalSupply'' [] [''uint256''],
     jfun False ''transferFrom'' [jarg ''from'' ''address'', jarg ''to'' ''address'', jarg ''value'' ''uint256''] [''bool''],
     jfun True ''balanceOf'' [jarg ''who'' ''address''] [''uint256''],
     jfun False ''transfer'' [jarg ''to'' ''address'', jarg ''value'' ''uint256''] [''bool''],
     jfun True ''allowance'' [jarg ''owner'' ''address'', jarg ''spender'' ''address''] [''uint256''],
     jevt ''Approval'' [jidx ''owner'' ''address'', jidx ''spender'' ''address'', jarg ''value'' ''uint256''],
     jevt ''Transfer'' [jidx ''from'' ''address'', jidx ''to'' ''address'', jarg ''value'' ''uint256'']]"

definition WethAbiStr :: "json_field list" where
  "WethAbiStr =
    [jfun True ''name'' [] [''string''],
     jfun False ''approve'' [jarg ''guy'' ''address'', jarg ''wad'' ''uint256''] [''bool''],
     jfun True ''totalSupply'' [] [''uint256''],
     jfun False ''transferFrom'' [jarg ''src'' ''address'', jarg ''dst'' ''address'', jarg ''wad'' ''uint256''] [''bool''],
     jfun False ''withdraw'' [jarg ''wad'' ''uint256''] [],
     jfun True ''decimals'' [] [''uint8''],
     jfun True ''balanceOf'' [jarg '''' ''address''] [''uint256''],
     jfun True ''symbol'' [] [''string''],
     jfun False ''transfer'' [jarg ''dst'' ''address'', jarg ''wad'' ''uint256''] [''bool''],
     jfun False ''deposit'' [] [],
     jfun True ''allowance'' [jarg '''' ''address'', jarg '''' ''address''] [''uint256''],
     \<lparr>jf_Type = ''fallback'', jf_Name = '''', jf_Constant = False, jf_Anonymous = False, jf_Inputs = [], jf_Outputs = []\<rparr>,
     jevt ''Approval'' [jidx ''src'' ''address'', jidx ''guy'' ''address'', jarg ''wad'' ''uint256''],
     jevt ''Transfer'' [jidx ''src'' ''address'', jidx ''dst'' ''address'', jarg ''wad'' ''uint256''],
     jevt ''Deposit'' [jidx ''dst'' ''address'', jarg ''wad'' ''uint256''],
     jevt ''Withdrawal'' [jidx ''src'' ''address'', jarg ''wad'' ''uint256'']]"

subsection \<open>State\<close>

record ProtocolAddress =
  pa_Version :: string
  pa_ContractAddress :: address
  pa_LrcTokenAddress :: address
  pa_TokenRegistryAddress :: address
  pa_DelegateAddress :: address

record LoopringParams =
  lp_Erc20Abi :: "ABI option"
  lp_ProtocolImplAbi :: "ABI option"
  lp_DelegateAbi :: "ABI option"
  lp_TokenRegistryAbi :: "ABI option"
  lp_WethAbi :: "ABI option"
  lp_ProtocolAddresses :: "address \<rightharpoonup> ProtocolAddress"
  lp_DelegateAddresses :: "address \<rightharpoonup> bool"

record LoopringProtocolOptions =
  lo_Address :: "string \<rightharpoonup> string"
  lo_ImplAbi :: string
  lo_DelegateAbi :: string
  lo_TokenRegistryAbi :: string

type_synonym ('w, 'a) lpr = "(LoopringParams option \<times> ethNodeAccessor \<times> 'w, 'a) st"

record 'w lpr_env =
  le_node :: "'w node_env"
  le_K :: "bytes \<Rightarrow> bytes"
  le_J :: "string \<Rightarrow> json_field list res"
  le_scan :: "address \<Rightarrow> ('w, string) st"
  le_versions :: "(string \<rightharpoonup> string) \<Rightarrow> string list"
  le_protocols :: "(address \<rightharpoonup> ProtocolAddress) \<Rightarrow> address list"

definition params :: "('w, LoopringParams) lpr" where
  "params = sbind (sget fst) (\<lambda>p. slift (deref p))"

definition set_params :: "(LoopringParams \<Rightarrow> LoopringParams) \<Rightarrow> ('w, unit) lpr" where
  "set_params f = smod (\<lambda>(p, s). (map_option f p, s))"

subsection \<open>Calls to contracts (\<open>method.go\<close>)\<close>

text \<open>\<open>callMethod\<close> packs the arguments with the ABI behind a pointer and calls the contract.\<close>

definition callMethod :: "'w lpr_env \<Rightarrow> ABI option \<Rightarrow> address \<Rightarrow> 'a target \<Rightarrow> string \<Rightarrow> string \<Rightarrow> go_val list \<Rightarrow> ('w, 'a) lpr" where
  "callMethod E abi contractAddress tg method blockParameter args =
     on_snd (ContractCallMethod (le_node E) tg contractAddress blockParameter (rbind (deref abi) (\<lambda>a. ABI_Pack (le_K E) a method args)))"

definition Erc20Balance :: "'w lpr_env \<Rightarrow> address \<Rightarrow> address \<Rightarrow> string \<Rightarrow> ('w, int) lpr" where
  "Erc20Balance E tokenAddress ownerAddress blockParameter =
     sbind params (\<lambda>p. callMethod E (lp_Erc20Abi p) tokenAddress big_target ''balanceOf'' blockParameter [byte_array ownerAddress])"

definition Erc20Allowance :: "'w lpr_env \<Rightarrow> address \<Rightarrow> address \<Rightarrow> address \<Rightarrow> string \<Rightarrow> ('w, int) lpr" where
  "Erc20Allowance E tokenAddress ownerAddress spenderAddress blockParameter =
     sbind params (\<lambda>p. callMethod E (lp_Erc20Abi p) tokenAddress big_target ''allowance'' blockParameter
       [byte_array ownerAddress, byte_array spenderAddress])"

text \<open>Both attempts decode into the same variable, which a failed one leaves as it is.\<close>

definition Erc20Decimals :: "'w lpr_env \<Rightarrow> address \<Rightarrow> string \<Rightarrow> ('w, int) lpr" where
  "Erc20Decimals E tokenAddress blockParameter =
     sbind params (\<lambda>p.
     sbind (stry (callMethod E (lp_Erc20Abi p) tokenAddress big_target ''DECIMALS'' blockParameter [])) (\<lambda>r. case r of
       Inr decimals \<Rightarrow> sret decimals
     | Inl err \<Rightarrow> callMethod E (lp_Erc20Abi p) tokenAddress big_target ''decimals'' blockParameter []))"

text \<open>The calls to a delegate contract first look its address up.\<close>

definition delegate_call :: "'w lpr_env \<Rightarrow> 'a target \<Rightarrow> address \<Rightarrow> string \<Rightarrow> string \<Rightarrow> go_val list \<Rightarrow> ('w, 'a) lpr" where
  "delegate_call E tg contractAddress method blockNumStr args =
     sbind params (\<lambda>p.
       if lp_DelegateAddresses p contractAddress = None
       then sfail (Err (''accessor: contract address invalid -> '' @ Address_Hex (le_K E) contractAddress))
       else callMethod E (lp_DelegateAbi p) contractAddress tg method blockNumStr args)"

definition GetCancelledOrFilled :: "'w lpr_env \<Rightarrow> address \<Rightarrow> hash \<Rightarrow> string \<Rightarrow> ('w, int) lpr" where
  "GetCancelledOrFilled E contractAddress orderhash blockNumStr =
     delegate_call E big_target contractAddress ''cancelledOrFilled'' blockNumStr [byte_array orderhash]"

definition GetCancelled :: "'w lpr_env \<Rightarrow> address \<Rightarrow> hash \<Rightarrow> string \<Rightarrow> ('w, int) lpr" where
  "GetCancelled E contractAddress orderhash blockNumStr =
     delegate_call E big_target contractAddress ''cancelled'' blockNumStr [byte_array orderhash]"

definition GetCutoff :: "'w lpr_env \<Rightarrow> 'a target \<Rightarrow> address \<Rightarrow> address \<Rightarrow> string \<Rightarrow> ('w, 'a) lpr" where
  "GetCutoff E result contractAddress owner blockNumStr =
     delegate_call E result contractAddress ''cutoffs'' blockNumStr [byte_array owner]"

definition GetCutoffPair :: "'w lpr_env \<Rightarrow> 'a target \<Rightarrow> address \<Rightarrow> address \<Rightarrow> address \<Rightarrow> address \<Rightarrow> string \<Rightarrow> ('w, 'a) lpr" where
  "GetCutoffPair E result contractAddress owner token1 token2 blockNumStr =
     delegate_call E result contractAddress ''getTradingPairCutoffs'' blockNumStr [byte_array owner, byte_array token1, byte_array token2]"

subsection \<open>Lookups (\<open>method.go\<close>)\<close>

definition IsSpenderAddress :: "LoopringParams \<Rightarrow> address \<Rightarrow> bool" where
  "IsSpenderAddress p spender \<longleftrightarrow> lp_DelegateAddresses p spender \<noteq> None"

definition SupportedDelegateAddress :: "LoopringParams \<Rightarrow> address \<Rightarrow> bool" where
  "SupportedDelegateAddress p delegate = (case lp_DelegateAddresses p delegate of Some b \<Rightarrow> b | None \<Rightarrow> False)"

definition IsRelateProtocol :: "LoopringParams \<Rightarrow> address \<Rightarrow> address \<Rightarrow> bool" where
  "IsRelateProtocol p protocol delegate =
     (case lp_ProtocolAddresses p protocol of Some impl \<Rightarrow> pa_DelegateAddress impl = delegate | None \<Rightarrow> False)"

definition GetSpenderAddress :: "LoopringParams \<Rightarrow> address \<Rightarrow> address res" where
  "GetSpenderAddress p protocol =
     (case lp_ProtocolAddresses p protocol of
        None \<Rightarrow> Inl (Err ''accessor method:invalid protocol address'')
      | Some impl \<Rightarrow> Inr (pa_DelegateAddress impl))"

subsection \<open>Initialisation (\<open>loopring.go\<close>)\<close>

definition empty_ABI :: ABI where
  "empty_ABI = \<lparr>abi_Constructor = [], abi_Methods = Map.empty, abi_Events = Map.empty\<rparr>"

text \<open>\<open>abi.New\<close> gives an empty ABI beside an error.\<close>

definition load_abi :: "(ABI option \<Rightarrow> LoopringParams \<Rightarrow> LoopringParams) \<Rightarrow> ABI res \<Rightarrow> ('w, unit) lpr" where
  "load_abi upd parsed = (case parsed of
      Inr a \<Rightarrow> set_params (upd (Some a))
    | Inl e \<Rightarrow> sbind (set_params (upd (Some empty_ABI))) (\<lambda>_. sfail e))"

definition store_abi :: "(ABI option \<Rightarrow> LoopringParams \<Rightarrow> LoopringParams) \<Rightarrow> ABI res \<Rightarrow> ('w, unit) lpr" where
  "store_abi upd parsed = sbind (slift parsed) (\<lambda>a. set_params (upd (Some a)))"

text \<open>The text of an ABI that is not among the options is asked for; an error of the explorer is ignored and the text is then empty.\<close>

definition abi_text :: "'w lpr_env \<Rightarrow> string \<Rightarrow> address list \<Rightarrow> ('w, string) lpr" where
  "abi_text E text addrs =
    (if text = '''' then (case addrs of
         [] \<Rightarrow> sret ''''
       | a # _ \<Rightarrow> sbind (stry (on_snd (on_snd (le_scan E a)))) (\<lambda>r. case r of Inr data \<Rightarrow> sret data | Inl err \<Rightarrow> sret ''''))
     else sret text)"

text \<open>The three calls decode into one variable, which starts empty.\<close>

definition text_to :: "string \<Rightarrow> string target" where
  "text_to old = \<lparr>tg_dec = (\<lambda>v. case v of JText t \<Rightarrow> Inr t | JNull \<Rightarrow> Inr old | _ \<Rightarrow> Inl (Err ''json: cannot unmarshal'')),
     tg_big = None, tg_old = old\<rparr>"

definition load_protocol :: "'w lpr_env \<Rightarrow> string \<Rightarrow> string \<Rightarrow> ('w, unit) lpr" where
  "load_protocol E version address =
    (let contract = HexToAddress address in
     sbind params (\<lambda>p. let call = (\<lambda>old m. callMethod E (lp_ProtocolImplAbi p) contract (text_to old) m ''latest'' []) in
     sbind (call '''' ''lrcTokenAddress'') (\<lambda>lrc.
     sbind (call lrc ''tokenRegistryAddress'') (\<lambda>registry.
     sbind (call registry ''delegateAddress'') (\<lambda>delegate.
     let impl = \<lparr>pa_Version = version, pa_ContractAddress = contract, pa_LrcTokenAddress = HexToAddress lrc,
           pa_TokenRegistryAddress = HexToAddress registry, pa_DelegateAddress = HexToAddress delegate\<rparr> in
     set_params (\<lambda>p. p\<lparr>lp_ProtocolAddresses := (lp_ProtocolAddresses p)(contract \<mapsto> impl),
       lp_DelegateAddresses := (lp_DelegateAddresses p)(HexToAddress delegate \<mapsto> True)\<rparr>))))))"

definition nil_params :: LoopringParams where
  "nil_params = \<lparr>lp_Erc20Abi = None, lp_ProtocolImplAbi = None, lp_DelegateAbi = None, lp_TokenRegistryAbi = None,
     lp_WethAbi = None, lp_ProtocolAddresses = Map.empty, lp_DelegateAddresses = Map.empty\<rparr>"

definition addresses_of :: "(string \<rightharpoonup> string) \<Rightarrow> string list \<Rightarrow> address list" where
  "addresses_of m vs = map (\<lambda>v. HexToAddress (the (m v))) vs"

definition Initialize :: "'w lpr_env \<Rightarrow> bool \<Rightarrow> LoopringProtocolOptions \<Rightarrow> ('w, unit) lpr" where
  "Initialize E accessor_IsInit options =
    (let versions = le_versions E (lo_Address options);
         impls = (\<lambda>f p. map (\<lambda>a. f (the (lp_ProtocolAddresses p a))) (le_protocols E (lp_ProtocolAddresses p))) in
     if \<not> accessor_IsInit then sfail (Panic (Fatal ''must init accessor first'')) else
     sbind (smod (\<lambda>s. (Some nil_params, snd s))) (\<lambda>_.
     sbind (load_abi (\<lambda>a p. p\<lparr>lp_Erc20Abi := a\<rparr>) (ABI_New (Inr Erc20AbiStr))) (\<lambda>_.
     sbind (load_abi (\<lambda>a p. p\<lparr>lp_WethAbi := a\<rparr>) (ABI_New (Inr WethAbiStr))) (\<lambda>_.
     sbind (abi_text E (lo_ImplAbi options) (addresses_of (lo_Address options) versions)) (\<lambda>implText.
     sbind (store_abi (\<lambda>a p. p\<lparr>lp_ProtocolImplAbi := a\<rparr>) (ABI_New (le_J E implText))) (\<lambda>_.
     sbind (sfor (\<lambda>version. load_protocol E version (the (lo_Address options version))) versions) (\<lambda>_.
     sbind params (\<lambda>p.
     sbind (abi_text E (lo_DelegateAbi options) (impls pa_DelegateAddress p)) (\<lambda>delegateText.
     sbind (store_abi (\<lambda>a p. p\<lparr>lp_DelegateAbi := a\<rparr>) (ABI_New (le_J E delegateText))) (\<lambda>_.
     sbind (abi_text E (lo_TokenRegistryAbi options) (impls pa_TokenRegistryAddress p)) (\<lambda>registryText.
     store_abi (\<lambda>a p. p\<lparr>lp_TokenRegistryAbi := a\<rparr>) (ABI_New (le_J E registryText)))))))))))))"


subsection \<open>What initialisation establishes\<close>

text \<open>Every protocol is recorded under its own address and its delegate among the delegates, which are all marked true.\<close>

definition wf_params :: "LoopringParams \<Rightarrow> bool" where
  "wf_params p \<longleftrightarrow> (\<forall>a impl. lp_ProtocolAddresses p a = Some impl \<longrightarrow>
       pa_ContractAddress impl = a \<and> lp_DelegateAddresses p (pa_DelegateAddress impl) = Some True)
     \<and> (\<forall>d b. lp_DelegateAddresses p d = Some b \<longrightarrow> b)"

lemma callMethod_params: "callMethod E abi a tg m bp args s = (s', r) \<Longrightarrow> fst s' = fst s"
  by (auto simp: callMethod_def on_snd_iff)

lemma params_iff: "params s = (s', Inr p) \<longleftrightarrow> s' = s \<and> fst s = Some p"
  by (auto simp: params_def sbind_Inr_iff sget_def slift_def)

lemma bind_params: "fst s = Some p \<Longrightarrow> sbind params f s = f p s"
  by (simp add: params_def sbind_def sget_def slift_def)

lemma set_params_iff: "set_params f s = (s', r) \<longleftrightarrow> s' = (map_option f (fst s), snd s) \<and> r = Inr ()"
  by (auto simp: set_params_def smod_def split: prod.splits)

lemma abi_text_params: "abi_text E text addrs s = (s', r) \<Longrightarrow> fst s' = fst s"
  by (cases addrs) (auto simp: abi_text_def sret_def sbind_def stry_def on_snd_iff
      split: if_splits prod.splits sum.splits go_error.splits)

lemma store_abi_iff:
  "store_abi upd parsed s = (s', Inr ()) \<longleftrightarrow> (\<exists>a. parsed = Inr a \<and> s' = (map_option (upd (Some a)) (fst s), snd s))"
  by (auto simp: store_abi_def sbind_Inr_iff slift_def set_params_iff)

lemma load_abi_iff:
  "load_abi upd parsed s = (s', Inr ()) \<longleftrightarrow> (\<exists>a. parsed = Inr a \<and> s' = (map_option (upd (Some a)) (fst s), snd s))"
  by (cases parsed) (auto simp: load_abi_def set_params_iff sbind_def sfail_def split: prod.splits sum.splits)

lemma load_protocol_outcome:
  assumes "load_protocol E version address s = (s', Inr ())"
  obtains p impl where "fst s = Some p" "pa_ContractAddress impl = HexToAddress address" "pa_Version impl = version"
    "fst s' = Some (p\<lparr>lp_ProtocolAddresses := (lp_ProtocolAddresses p)(HexToAddress address \<mapsto> impl),
       lp_DelegateAddresses := (lp_DelegateAddresses p)(pa_DelegateAddress impl \<mapsto> True)\<rparr>)"
proof -
  obtain p lrc registry delegate where "fst s = Some p" and
      "fst s' = Some (p\<lparr>lp_ProtocolAddresses := (lp_ProtocolAddresses p)(HexToAddress address \<mapsto> \<lparr>pa_Version = version,
         pa_ContractAddress = HexToAddress address, pa_LrcTokenAddress = HexToAddress lrc,
         pa_TokenRegistryAddress = HexToAddress registry, pa_DelegateAddress = HexToAddress delegate\<rparr>),
       lp_DelegateAddresses := (lp_DelegateAddresses p)(HexToAddress delegate \<mapsto> True)\<rparr>)"
    using assms by (auto simp: load_protocol_def Let_def sbind_Inr_iff params_iff set_params_iff dest!: callMethod_params)
  then show thesis
    using that [of p "\<lparr>pa_Version = version, pa_ContractAddress = HexToAddress address, pa_LrcTokenAddress = HexToAddress lrc,
         pa_TokenRegistryAddress = HexToAddress registry, pa_DelegateAddress = HexToAddress delegate\<rparr>"] by simp
qed

lemma load_protocols_outcome:
  assumes "sfor (\<lambda>v. load_protocol E v (the (m v))) vs s = (s', Inr ())" "fst s = Some p" "wf_params p"
  shows "\<exists>p'. fst s' = Some p' \<and> wf_params p' \<and> dom (lp_ProtocolAddresses p') = dom (lp_ProtocolAddresses p) \<union> set (addresses_of m vs)
    \<and> lp_Erc20Abi p' = lp_Erc20Abi p \<and> lp_WethAbi p' = lp_WethAbi p \<and> lp_ProtocolImplAbi p' = lp_ProtocolImplAbi p"
  using assms
proof (induction vs arbitrary: s p)
  case Nil
  then show ?case by (simp add: sret_def addresses_of_def)
next
  case (Cons v vs)
  obtain s1 where s1: "load_protocol E v (the (m v)) s = (s1, Inr ())" "sfor (\<lambda>v. load_protocol E v (the (m v))) vs s1 = (s', Inr ())"
    using Cons.prems(1) by (auto simp: sbind_Inr_iff)
  obtain p0 impl where "fst s = Some p0" and ca: "pa_ContractAddress impl = HexToAddress (the (m v))" and
    "fst s1 = Some (p0\<lparr>lp_ProtocolAddresses := (lp_ProtocolAddresses p0)(HexToAddress (the (m v)) \<mapsto> impl),
       lp_DelegateAddresses := (lp_DelegateAddresses p0)(pa_DelegateAddress impl \<mapsto> True)\<rparr>)"
    by (rule load_protocol_outcome [OF s1(1)])
  then have impl: "pa_ContractAddress impl = HexToAddress (the (m v))"
    "fst s1 = Some (p\<lparr>lp_ProtocolAddresses := (lp_ProtocolAddresses p)(HexToAddress (the (m v)) \<mapsto> impl),
       lp_DelegateAddresses := (lp_DelegateAddresses p)(pa_DelegateAddress impl \<mapsto> True)\<rparr>)"
    using Cons.prems(2) by simp_all
  have "wf_params (p\<lparr>lp_ProtocolAddresses := (lp_ProtocolAddresses p)(HexToAddress (the (m v)) \<mapsto> impl),
       lp_DelegateAddresses := (lp_DelegateAddresses p)(pa_DelegateAddress impl \<mapsto> True)\<rparr>)"
    using Cons.prems(3) impl(1) by (auto simp: wf_params_def)
  from Cons.IH [OF s1(2) impl(2) this] show ?case by (auto simp: addresses_of_def)
qed

lemma wf_params_lookups:
  assumes "wf_params p" "GetSpenderAddress p protocol = Inr d"
  shows "IsSpenderAddress p d \<and> SupportedDelegateAddress p d \<and> IsRelateProtocol p protocol d"
  using assms by (auto simp: wf_params_def GetSpenderAddress_def IsSpenderAddress_def SupportedDelegateAddress_def
      IsRelateProtocol_def split: option.splits)

lemma wf_params_abi [simp]:
  "wf_params (p\<lparr>lp_DelegateAbi := a\<rparr>) = wf_params p" "wf_params (p\<lparr>lp_TokenRegistryAbi := a\<rparr>) = wf_params p"
  by (simp_all add: wf_params_def)

text \<open>
  After \<open>Initialize\<close> has returned without an error, the protocols known are exactly the configured addresses, and
  for every one of them \<open>GetSpenderAddress\<close> gives a delegate that \<open>IsSpenderAddress\<close> and \<open>SupportedDelegateAddress\<close> accept
  and that \<open>IsRelateProtocol\<close> relates to the protocol.
\<close>

theorem Initialize_consistent:
  assumes "Initialize E True options s = (s', Inr ())" "range_order (lo_Address options) (le_versions E (lo_Address options))"
  shows "\<exists>p. fst s' = Some p \<and> dom (lp_ProtocolAddresses p) = HexToAddress ` ran (lo_Address options)
     \<and> (\<forall>a \<in> ran (lo_Address options). \<exists>d. GetSpenderAddress p (HexToAddress a) = Inr d \<and> IsSpenderAddress p d
          \<and> SupportedDelegateAddress p d \<and> IsRelateProtocol p (HexToAddress a) d)"
proof -
  let ?m = "lo_Address options"
  let ?vs = "le_versions E ?m"
  obtain s1 s2 a1 a2 a3 a4 a5 where loop: "sfor (\<lambda>v. load_protocol E v (the (?m v))) ?vs s1 = (s2, Inr ())"
      and p0: "fst s1 = Some (nil_params\<lparr>lp_Erc20Abi := a1, lp_WethAbi := a2, lp_ProtocolImplAbi := a3\<rparr>)"
      and fin: "fst s' = map_option (\<lambda>p. p\<lparr>lp_DelegateAbi := a4, lp_TokenRegistryAbi := a5\<rparr>) (fst s2)"
    using assms(1)
    by (auto simp: Initialize_def Let_def sbind_Inr_iff smod_def load_abi_iff store_abi_iff params_iff
        dest!: abi_text_params)
  have "wf_params (nil_params\<lparr>lp_Erc20Abi := a1, lp_WethAbi := a2, lp_ProtocolImplAbi := a3\<rparr>)"
    by (simp add: wf_params_def nil_params_def)
  from load_protocols_outcome [OF loop p0 this] obtain p where p: "fst s2 = Some p" "wf_params p"
      "dom (lp_ProtocolAddresses p) = set (addresses_of ?m ?vs)" by (auto simp: nil_params_def)
  obtain q where q: "fst s' = Some q" "wf_params q" "lp_ProtocolAddresses q = lp_ProtocolAddresses p"
    using fin p(1,2) by auto
  have "ran ?m = (\<lambda>v. the (?m v)) ` set ?vs"
    using range_orderD(2) [OF assms(2)] by (force simp: ran_def image_iff)
  then have dom: "dom (lp_ProtocolAddresses q) = HexToAddress ` ran ?m"
    using p(3) q(3) by (simp add: addresses_of_def image_image)
  have "\<exists>d. GetSpenderAddress q (HexToAddress a) = Inr d" if "a \<in> ran ?m" for a
    using dom that by (fastforce simp: GetSpenderAddress_def dom_def split: option.splits)
  then show ?thesis using q(1) dom wf_params_lookups [OF q(2)] by blast
qed


subsection \<open>Batches (\<open>batch.go\<close>)\<close>

record BatchBalanceReq =
  bb_Owner :: address
  bb_Token :: address
  bb_BlockParameter :: string
  bb_Balance :: int
  bb_BalanceErr :: "go_error option"

record BatchErc20AllowanceReq =
  bw_Owner :: address
  bw_Token :: address
  bw_BlockParameter :: string
  bw_Spender :: address
  bw_Allowance :: int
  bw_AllowanceErr :: "go_error option"

text \<open>An error of packing is ignored and leaves no data; a panic is not.\<close>

definition packed_or_nil :: "bytes res \<Rightarrow> bytes res" where
  "packed_or_nil r = (case r of Inl (Err e) \<Rightarrow> Inr [] | _ \<Rightarrow> r)"

definition call_elem :: "address \<Rightarrow> bytes \<Rightarrow> string \<Rightarrow> string \<times> rpc_arg list" where
  "call_elem token data blockParameter = (''eth_call'',
     [PCall \<lparr>ca_From = replicate 20 0, ca_To = token, ca_Gas = 0, ca_GasPrice = 0, ca_Value = 0, ca_Data = ToHex data, ca_Nonce = 0\<rparr>,
      PStr blockParameter])"

definition balance_elem :: "'w lpr_env \<Rightarrow> ABI option \<Rightarrow> BatchBalanceReq \<Rightarrow> (string \<times> rpc_arg list) res" where
  "balance_elem E erc20Abi req =
    (if IsZeroAddress (bb_Token req)
     then Inr (''eth_getBalance'', [PStr (Address_Hex (le_K E) (bb_Owner req)), PStr (bb_BlockParameter req)])
     else rbind (packed_or_nil (rbind (deref erc20Abi) (\<lambda>a. ABI_Pack (le_K E) a ''balanceOf'' [byte_array (bb_Owner req)]))) (\<lambda>balanceOfData.
       Inr (call_elem (bb_Token req) balanceOfData (bb_BlockParameter req))))"

definition allowance_elem :: "'w lpr_env \<Rightarrow> ABI option \<Rightarrow> BatchErc20AllowanceReq \<Rightarrow> (string \<times> rpc_arg list) res" where
  "allowance_elem E erc20Abi req =
     rbind (packed_or_nil (rbind (deref erc20Abi) (\<lambda>a. ABI_Pack (le_K E) a ''allowance'' [byte_array (bw_Owner req), byte_array (bw_Spender req)])))
       (\<lambda>allowanceData. Inr (call_elem (bw_Token req) allowanceData (bw_BlockParameter req)))"

text \<open>The answer of an element is decoded into its request by the client; \<open>FromBatchElem\<close> copies the error.\<close>

definition balance_answer :: "BatchBalanceReq \<Rightarrow> rpc_val res \<Rightarrow> BatchBalanceReq" where
  "balance_answer req r = (case rbind r (as_big (bb_Balance req)) of
      Inr n \<Rightarrow> req\<lparr>bb_Balance := n, bb_BalanceErr := None\<rparr>
    | Inl e \<Rightarrow> req\<lparr>bb_BalanceErr := Some e\<rparr>)"

definition allowance_answer :: "BatchErc20AllowanceReq \<Rightarrow> rpc_val res \<Rightarrow> BatchErc20AllowanceReq" where
  "allowance_answer req r = (case rbind r (as_big (bw_Allowance req)) of
      Inr n \<Rightarrow> req\<lparr>bw_Allowance := n, bw_AllowanceErr := None\<rparr>
    | Inl e \<Rightarrow> req\<lparr>bw_AllowanceErr := Some e\<rparr>)"

definition run_batch :: "'w lpr_env \<Rightarrow> (ABI option \<Rightarrow> 'q \<Rightarrow> (string \<times> rpc_arg list) res) \<Rightarrow> ('q \<Rightarrow> rpc_val res \<Rightarrow> 'q)
    \<Rightarrow> string \<Rightarrow> 'q list \<Rightarrow> ('w, 'q list) lpr" where
  "run_batch E elem answer routeParam reqs =
     sbind params (\<lambda>p.
     sbind (slift (rmap (elem (lp_Erc20Abi p)) reqs)) (\<lambda>elems.
     sbind (on_snd (BatchCall (le_node E) routeParam [elems])) (\<lambda>answers. sret (map2 answer reqs (hd answers)))))"

definition BatchErc20Balance :: "'w lpr_env \<Rightarrow> string \<Rightarrow> BatchBalanceReq list \<Rightarrow> ('w, BatchBalanceReq list) lpr" where
  "BatchErc20Balance E = run_batch E (balance_elem E) balance_answer"

definition BatchErc20Allowance :: "'w lpr_env \<Rightarrow> string \<Rightarrow> BatchErc20AllowanceReq list \<Rightarrow> ('w, BatchErc20AllowanceReq list) lpr" where
  "BatchErc20Allowance E = run_batch E (allowance_elem E) allowance_answer"

subsection \<open>Properties of the calls\<close>

text \<open>A contract that is not a known delegate is refused before any node is asked.\<close>

lemma delegate_call_unknown:
  "fst s = Some p \<Longrightarrow> \<not> IsSpenderAddress p a \<Longrightarrow> \<exists>e. delegate_call E tg a m bn args s = (s, Inl (Err e))"
  by (simp add: delegate_call_def IsSpenderAddress_def bind_params sfail_def)

lemma add_field_methods: "abi_Methods (add_field f i out b) name = Some m \<Longrightarrow> abi_Methods b name = Some m \<or> name = jf_Name f"
  by (auto simp: add_field_def split: if_splits)

lemma ABI_New_methods:
  assumes "ABI_New (Inr fs) = Inr a" "abi_Methods a name = Some m"
  shows "name \<in> jf_Name ` set fs"
proof -
  have step: "abi_Methods (fold (\<lambda>(f, i, out). add_field f i out) xs b) name = Some m \<Longrightarrow>
      abi_Methods b name = Some m \<or> name \<in> (\<lambda>(f, i, out). jf_Name f) ` set xs" for xs b
  proof (induction xs arbitrary: b)
    case (Cons x xs)
    obtain f i out where x: "x = (f, i, out)" by (cases x) auto
    show ?case using Cons.IH [of "add_field f i out b"] Cons.prems add_field_methods [of f i out b name m] x by auto
  qed simp
  let ?parse = "\<lambda>f. rbind (rmap Argument_UnmarshalJSON (jf_Inputs f)) (\<lambda>i.
             rbind (rmap Argument_UnmarshalJSON (jf_Outputs f)) (\<lambda>out. Inr (f, i, out)))"
  obtain parsed where p: "rmap ?parse fs = Inr parsed"
      "a = fold (\<lambda>(f, i, out). add_field f i out) parsed \<lparr>abi_Constructor = [], abi_Methods = Map.empty, abi_Events = Map.empty\<rparr>"
    using assms(1) by (auto simp: ABI_New_def)
  have "rmap ?parse xs = Inr ys \<Longrightarrow> map fst ys = xs" for xs ys
    by (induction xs arbitrary: ys) auto
  then have "map fst parsed = fs" using p(1) by blast
  then show ?thesis using step [of parsed] assms(2) p(2) by (force simp: image_iff)
qed

text \<open>
  \<open>Erc20Decimals\<close> never returns a number, and asks no node: the ERC-20 ABI of the package has neither of the two
  methods it calls, so both attempts fail when their arguments are packed.
\<close>

theorem Erc20Decimals_fails:
  assumes "fst s = Some p" "lp_Erc20Abi p = Some a" "ABI_New (Inr Erc20AbiStr) = Inr a"
  shows "Erc20Decimals E tokenAddress blockParameter s = (s, Inl (Err ''method not found: decimals''))"
proof -
  have "''DECIMALS'' \<notin> jf_Name ` set Erc20AbiStr" "''decimals'' \<notin> jf_Name ` set Erc20AbiStr"
    by (simp_all add: Erc20AbiStr_def jfun_def jevt_def)
  then have "abi_Methods a ''DECIMALS'' = None" "abi_Methods a ''decimals'' = None"
    using ABI_New_methods [OF assms(3)] by (metis option.exhaust)+
  then have "callMethod E (lp_Erc20Abi p) tokenAddress big_target ''DECIMALS'' blockParameter [] s = (s, Inl (Err ''method not found: DECIMALS''))"
      "callMethod E (lp_Erc20Abi p) tokenAddress big_target ''decimals'' blockParameter [] s = (s, Inl (Err ''method not found: decimals''))"
    using assms(2) by (auto simp: callMethod_def on_snd_iff ContractCallMethod_def ABI_Pack_def slift_def)
  then show ?thesis using assms(1) by (simp add: Erc20Decimals_def bind_params)
qed


lemma NewType_names [simp]:
  "NewType ''address'' = Inr \<lparr>at_ty = TAddress, at_stringKind = ''address''\<rparr>"
  "NewType ''bool'' = Inr \<lparr>at_ty = TBool, at_stringKind = ''bool''\<rparr>"
  "NewType ''uint256'' = Inr \<lparr>at_ty = TUint 256, at_stringKind = ''uint256''\<rparr>"
proof -
  have "ty_text (TUint 256) = ''uint256''" by (simp add: dec_of_nat.simps decdig_def char_of_eq_iff)
  then show "NewType ''uint256'' = Inr \<lparr>at_ty = TUint 256, at_stringKind = ''uint256''\<rparr>"
    using parse_ty_text [of "TUint 256"] by (simp only: sizes_ok.simps NewType_def) simp
qed (use parse_ty_text [of TAddress] parse_ty_text [of TBool] in \<open>simp_all add: NewType_def\<close>)

definition plain_arg :: "string \<Rightarrow> abi_ty \<Rightarrow> string \<Rightarrow> Argument" where
  "plain_arg name t text = \<lparr>ar_Name = name, ar_Type = \<lparr>at_ty = t, at_stringKind = text\<rparr>, ar_Indexed = False\<rparr>"

lemma erc20_parses:
  "\<exists>a. ABI_New (Inr Erc20AbiStr) = Inr a
     \<and> abi_Methods a ''balanceOf'' = Some \<lparr>me_Name = ''balanceOf'', me_Const = True, me_Inputs = [plain_arg ''who'' TAddress ''address''],
          me_Outputs = [plain_arg '''' (TUint 256) ''uint256'']\<rparr>
     \<and> abi_Methods a ''allowance'' = Some \<lparr>me_Name = ''allowance'', me_Const = True,
          me_Inputs = [plain_arg ''owner'' TAddress ''address'', plain_arg ''spender'' TAddress ''address''],
          me_Outputs = [plain_arg '''' (TUint 256) ''uint256'']\<rparr>"
  by (simp add: ABI_New_def Erc20AbiStr_def jfun_def jevt_def jarg_def jidx_def Argument_UnmarshalJSON_def add_field_def plain_arg_def)


text \<open>The request that is sent: the method's id and the owner in one word, to the token's contract.\<close>

lemma Erc20Balance_request:
  assumes "fst s = Some p" "lp_Erc20Abi p = Some a" "ABI_New (Inr Erc20AbiStr) = Inr a" "length owner = 20"
  shows "Erc20Balance E token owner bp s = on_snd (RetryCall (le_node E) big_target bp 2 ''eth_call''
    [PCall \<lparr>ca_From = token, ca_To = token, ca_Gas = 0, ca_GasPrice = 0, ca_Value = 0,
       ca_Data = ToHex (take 4 (le_K E (bytes_of ''balanceOf(address)'')) @ LeftPadBytes owner 32), ca_Nonce = 0\<rparr>, PStr bp]) s"
proof -
  have "ABI_Pack (le_K E) a ''balanceOf'' [byte_array owner]
      = Inr (take 4 (le_K E (bytes_of ''balanceOf(address)'')) @ LeftPadBytes owner 32)"
    using erc20_parses assms(3)
    by (auto simp: ABI_Pack_def Arguments_Pack_def plain_arg_def Method_Id_def Method_Sig_def signature_text_def)
  then show ?thesis
    using assms(1,2)
    by (simp add: Erc20Balance_def bind_params callMethod_def ContractCallMethod_def slift_def on_snd_def)
qed

lemma run_batch_answers:
  assumes "run_batch E elem answer routeParam reqs s = (s', Inr out)" "batch_laws (le_node E)"
  shows "\<exists>answers. length answers = length reqs \<and> out = map2 answer reqs answers"
proof -
  from assms(1) obtain s0 s1 :: "LoopringParams option \<times> ethNodeAccessor \<times> 'a" and p :: LoopringParams and elems answers
    where a: "rmap (elem (lp_Erc20Abi p)) reqs = Inr elems"
      "on_snd (BatchCall (le_node E) routeParam [elems]) s0 = (s1, Inr answers)" "out = map2 answer reqs (hd answers)"
    unfolding run_batch_def sbind_Inr_iff slift_def sret_def prod.inject sum.inject by metis
  from a(2) obtain s2 s3 where b: "BatchCall (le_node E) routeParam [elems] s2 = (s3, Inr answers)"
    unfolding on_snd_iff by blast
  from b obtain rs where rs: "RetryBatchCall (le_node E) routeParam elems 3 s2 = (s3, Inr rs)" "answers = [take (length elems) rs]"
    by (auto simp: BatchCall_def Let_def sbind_Inr_iff slift_def split: if_splits)
  have "length rs = length elems" using RetryBatchCall_length [OF assms(2) _ rs(1)] by simp
  then show ?thesis using a(1,3) rs(2) rmap_length [OF a(1)] by (intro exI [of _ rs]) simp
qed

subsection \<open>Trying it\<close>

definition demo_impl_abi :: "json_field list" where
  "demo_impl_abi = [jfun True ''lrcTokenAddress'' [] [''address''], jfun True ''tokenRegistryAddress'' [] [''address''],
     jfun True ''delegateAddress'' [] [''address'']]"

definition demo_lpr :: "nat lpr_env" where
  "demo_lpr = \<lparr>le_node = demo_node, le_K = (\<lambda>_. replicate 32 0), le_J = (\<lambda>_. Inr demo_impl_abi), le_scan = (\<lambda>_. sret ''''),
     le_versions = (\<lambda>m. if m = [''1.5'' \<mapsto> ''0x8d''] then [''1.5''] else []), le_protocols = (\<lambda>m. [HexToAddress ''0x8d''])\<rparr>"

definition demo_options :: LoopringProtocolOptions where
  "demo_options = \<lparr>lo_Address = [''1.5'' \<mapsto> ''0x8d''], lo_ImplAbi = ''[]'', lo_DelegateAbi = ''[]'', lo_TokenRegistryAbi = ''[]''\<rparr>"

theorem Erc20Decimals_fails_witness:
  "\<exists>a. Erc20Decimals demo_lpr [] ''latest'' (Some (nil_params\<lparr>lp_Erc20Abi := Some a\<rparr>), demo_acc Map.empty, 0)
     = ((Some (nil_params\<lparr>lp_Erc20Abi := Some a\<rparr>), demo_acc Map.empty, 0), Inl (Err ''method not found: decimals''))"
proof -
  obtain a where "ABI_New (Inr Erc20AbiStr) = Inr a" using erc20_parses by blast
  from Erc20Decimals_fails [OF _ _ this, of "(Some (nil_params\<lparr>lp_Erc20Abi := Some a\<rparr>), demo_acc Map.empty, 0)"
      "nil_params\<lparr>lp_Erc20Abi := Some a\<rparr>" demo_lpr "[]" "''latest''"]
  show ?thesis by auto
qed


lemma demo_text_call:
  "callMethod demo_lpr (Some a) contract (text_to old) m ''latest'' [] (p, demo_acc N, w) = ((p, demo_acc N, w), Inr ''0xab'')"
  if "abi_Methods a m = Some \<lparr>me_Name = m, me_Const = True, me_Inputs = [], me_Outputs = outs\<rparr>" "m \<noteq> ''''"
proof -
  have "RetryCall demo_node (text_to old) ''latest'' 2 ''eth_call'' args (demo_acc N, w) = ((demo_acc N, w), Inr ''0xab'')" for args
    by (rule demo_call [OF demo_latest, where v = "JText ''0xab''"]) (simp_all add: demo_chain_def sret_def text_to_def)
  then show ?thesis using that
    by (simp add: callMethod_def ContractCallMethod_def ABI_Pack_def Arguments_Pack_def inputOffset_of_def demo_lpr_def slift_def)
qed

lemma demo_impl_parses:
  "\<exists>a. ABI_New (Inr demo_impl_abi) = Inr a \<and> (\<forall>m \<in> {''lrcTokenAddress'', ''tokenRegistryAddress'', ''delegateAddress''}.
     abi_Methods a m = Some \<lparr>me_Name = m, me_Const = True, me_Inputs = [], me_Outputs = [plain_arg '''' TAddress ''address'']\<rparr>)"
  by (simp add: ABI_New_def demo_impl_abi_def jfun_def jarg_def Argument_UnmarshalJSON_def add_field_def plain_arg_def)

lemma weth_parses: "\<exists>a. ABI_New (Inr WethAbiStr) = Inr a"
proof -
  have "ty_text (TUint 8) = ''uint8''" by (simp add: dec_of_nat.simps decdig_def char_of_eq_iff)
  then have "NewType ''uint8'' = Inr \<lparr>at_ty = TUint 8, at_stringKind = ''uint8''\<rparr>"
    using parse_ty_text [of "TUint 8"] by (simp only: sizes_ok.simps NewType_def) simp
  moreover have "NewType ''string'' = Inr \<lparr>at_ty = TString, at_stringKind = ''string''\<rparr>"
    using parse_ty_text [of TString] by (simp add: NewType_def)
  ultimately show ?thesis
    by (simp add: ABI_New_def WethAbiStr_def jfun_def jevt_def jarg_def jidx_def Argument_UnmarshalJSON_def add_field_def)
qed

lemma demo_Initialize: "\<exists>s'. Initialize demo_lpr True demo_options (None, demo_acc Map.empty, 0) = (s', Inr ())"
proof -
  obtain a1 a2 where a: "ABI_New (Inr Erc20AbiStr) = Inr a1" "ABI_New (Inr WethAbiStr) = Inr a2"
    using erc20_parses weth_parses by blast
  obtain a3 where a3: "ABI_New (Inr demo_impl_abi) = Inr a3"
    and m: "\<forall>m \<in> {''lrcTokenAddress'', ''tokenRegistryAddress'', ''delegateAddress''}.
     abi_Methods a3 m = Some \<lparr>me_Name = m, me_Const = True, me_Inputs = [], me_Outputs = [plain_arg '''' TAddress ''address'']\<rparr>"
    using demo_impl_parses by blast
  have J: "le_J demo_lpr t = Inr demo_impl_abi" for t by (simp add: demo_lpr_def)
  have V: "le_versions demo_lpr (lo_Address demo_options) = [''1.5'']" "the (lo_Address demo_options ''1.5'') = ''0x8d''"
    by (simp_all add: demo_lpr_def demo_options_def)
  have T: "abi_text demo_lpr (lo_ImplAbi demo_options) as = sret ''[]''" "abi_text demo_lpr (lo_DelegateAbi demo_options) as = sret ''[]''"
      "abi_text demo_lpr (lo_TokenRegistryAbi demo_options) as = sret ''[]''" for as
    by (simp_all add: abi_text_def demo_options_def)
  have L: "\<exists>q. load_protocol demo_lpr ''1.5'' ''0x8d'' (Some p, demo_acc Map.empty, 0) = ((Some q, demo_acc Map.empty, 0), Inr ())"
    if "lp_ProtocolImplAbi p = Some a3" for p
    using that m by (simp add: load_protocol_def Let_def bind_params demo_text_call set_params_def smod_def)
  let ?p = "nil_params\<lparr>lp_Erc20Abi := Some a1, lp_WethAbi := Some a2, lp_ProtocolImplAbi := Some a3\<rparr>"
  obtain q where "load_protocol demo_lpr ''1.5'' ''0x8d'' (Some ?p, demo_acc Map.empty, 0) = ((Some q, demo_acc Map.empty, 0), Inr ())"
    using L [of ?p] by auto
  then show ?thesis
    by (simp add: Initialize_def Let_def a a3 J V T load_abi_def store_abi_def set_params_def st_simps params_def)
qed

theorem Initialize_consistent_witness:
  "\<exists>p s'. Initialize demo_lpr True demo_options (None, demo_acc Map.empty, 0) = (s', Inr ()) \<and> fst s' = Some p
     \<and> dom (lp_ProtocolAddresses p) = {HexToAddress ''0x8d''}"
proof -
  obtain s' where s': "Initialize demo_lpr True demo_options (None, demo_acc Map.empty, 0) = (s', Inr ())" using demo_Initialize by blast
  have "range_order (lo_Address demo_options) (le_versions demo_lpr (lo_Address demo_options))"
    by (simp add: range_order_def demo_options_def demo_lpr_def)
  from Initialize_consistent [OF s' this] show ?thesis using s' by (auto simp: demo_options_def)
qed

end
