(* ===== verification/Cache_Store.thy ===== *)
theory Cache_Store
  imports Redis_Cache Go_State
begin

section \<open>The cache as a store of texts\<close>

text \<open>
  What the clients of the cache rely on, stated as a locale: a text that is stored is read back, and nothing else
  changes. A Redis server that answers \<open>get\<close> and \<open>set\<close> as documented gives such a store through the operations of
  the pooled cache, with any expiry that lies beyond the time that is looked at.
\<close>

locale string_store =
  fixes get :: "string \<Rightarrow> ('w, bytes) st" and put :: "string \<Rightarrow> bytes \<Rightarrow> ('w, unit) st" and content :: "'w \<Rightarrow> string \<rightharpoonup> bytes"
  assumes get_law: "\<exists>w' r. get k w = (w', r) \<and> content w' = content w
      \<and> (case content w k of Some b \<Rightarrow> r = Inr b | None \<Rightarrow> \<exists>e. r = Inl (Err e))"
    and put_law: "\<exists>w'. put k b w = (w', Inr ()) \<and> content w' = (content w)(k \<mapsto> b)"

locale redis_server =
  fixes srv :: "'r server" and db :: "'r \<Rightarrow> string \<rightharpoonup> rval"
  assumes strings: "redis_strings srv db"

definition texts :: "('r \<Rightarrow> string \<rightharpoonup> rval) \<Rightarrow> 'r \<Rightarrow> string \<rightharpoonup> bytes" where
  "texts db r k = (case db r k of Some (VStr b) \<Rightarrow> Some b | _ \<Rightarrow> None)"

lemma Redis_Get_keeps:
  assumes "redis_strings srv db"
  shows "db (fst (Redis_Get (pool_do srv) key r)) = db r"
proof -
  obtain r' where "srv r ''get'' [AStr key] = (r', Inr (case db r key of None \<Rightarrow> RNil | Some (VStr b) \<Rightarrow> RBytes b
      | Some _ \<Rightarrow> RError ''WRONGTYPE Operation against a key holding the wrong kind of value''))" "db r' = db r"
    using assms unfolding redis_strings_def by blast
  then show ?thesis by (cases "db r key") (auto simp: Redis_Get_def pool_do_def split: rval.splits)
qed

sublocale redis_server \<subseteq> string_store "Redis_Get (pool_do srv)" "\<lambda>k b. Redis_Set (pool_do srv) k b ttl" "texts db" for ttl
proof
  fix k b w
  show "\<exists>w' r. Redis_Get (pool_do srv) k w = (w', r) \<and> texts db w' = texts db w
      \<and> (case texts db w k of Some b \<Rightarrow> r = Inr b | None \<Rightarrow> \<exists>e. r = Inl (Err e))"
    using Redis_Get_keeps [OF strings, of k w] Redis_Get_db [OF strings, of k w]
    by (cases "Redis_Get (pool_do srv) k w") (auto simp: texts_def get_reply_def fun_eq_iff split: option.splits rval.splits)
  show "\<exists>w'. Redis_Set (pool_do srv) k b ttl w = (w', Inr ()) \<and> texts db w' = (texts db w)(k \<mapsto> b)"
    using Redis_Set_db [OF strings, of k b ttl w] by (cases "Redis_Set (pool_do srv) k b ttl w") (auto simp: texts_def fun_eq_iff)
qed

interpretation mem_server: redis_server mem_redis "\<lambda>db. db"
  using mem_redis_spec by unfold_locales (simp add: redis_spec_def)

end
