(* ===== verification/Custom_Tokens.thy ===== *)
theory Custom_Tokens
  imports Market_Util Loopring_Accessor Cache_Store
begin

section \<open>Tokens that users add (\<open>marketutil/user_custom_tokens.go\<close>)\<close>

text \<open>
  The lists of custom tokens are JSON texts in Redis, one for each user and one for all, with a local cache of
  five seconds in front. A list read from the local cache is the same Go map every time, so that a deletion in it is a
  deletion in the cache. Parameters: the JSON codec, of which an error leaves what was decoded so far, the lock, the
  clock and the order in which a map is visited.
\<close>

subsection \<open>Definitions\<close>

record CustomToken =
  ct_Address :: address
  ct_Symbol :: string
  ct_Decimals :: "int option"
  ct_Source :: string

type_synonym tokens = "string \<rightharpoonup> CustomToken"

record 'w ct_env =
  ce_lpr :: "'w lpr_env"
  ce_market :: market_env
  ce_enc :: "tokens \<Rightarrow> bytes res"
  ce_dec :: "bytes \<Rightarrow> tokens \<times> go_error option"
  ce_TryLock :: "string \<Rightarrow> ('w, unit) st"
  ce_ReleaseLock :: "string \<Rightarrow> ('w, unit) st"
  ce_now :: "('w, int) st"
  ce_keys :: "tokens \<Rightarrow> string list"

type_synonym local_cache = "string \<rightharpoonup> tokens \<times> int"

text \<open>The local cache, \<open>None\<close> before the first use, beside the state of the Loopring accessor.\<close>

type_synonym ('w, 'a) cts = "(local_cache option \<times> LoopringParams option \<times> ethNodeAccessor \<times> 'w, 'a) st"

definition in_world :: "('w, 'a) st \<Rightarrow> ('w, 'a) cts" where
  "in_world m = on_snd (on_snd (on_snd m))"

definition ct_cache :: "'w ct_env \<Rightarrow> ('w Cache \<Rightarrow> ('w, 'a) st) \<Rightarrow> ('w, 'a) st" where
  "ct_cache E method = cache_call method (ne_cache (le_node (ce_lpr E)))"

definition buildCacheKey :: "'w ct_env \<Rightarrow> address \<Rightarrow> string" where
  "buildCacheKey E address = ''CTPK_'' @ ToUpper (Address_Hex (me_K (ce_market E)) address)"

definition GetCustomTokensFromRedis :: "'w ct_env \<Rightarrow> string \<Rightarrow> ('w, tokens \<times> go_error option) st" where
  "GetCustomTokensFromRedis E key =
    sbind (stry (ct_cache E (\<lambda>c. c_Get c key))) (\<lambda>r. case r of
      Inl err \<Rightarrow> sret (Map.empty, None)
    | Inr tokenBytes \<Rightarrow> if length tokenBytes = 0 then sret (Map.empty, None) else sret (ce_dec E tokenBytes))"

definition merged :: "'w ct_env \<Rightarrow> market \<Rightarrow> tokens \<Rightarrow> tokens" where
  "merged E st custom =
    (let mine = fold (\<lambda>k m. m(ct_Symbol (the (custom k)) \<mapsto> the (custom k))) (ce_keys E custom) Map.empty in
     fold (\<lambda>k m. let v = get_token (mk_AllTokens st) k in m(tk_Symbol v \<mapsto>
        \<lparr>ct_Address = tk_Protocol v, ct_Symbol = tk_Symbol v, ct_Decimals = tk_Decimals v, ct_Source = []\<rparr>))
      (me_tokens (ce_market E) (mk_AllTokens st)) mine)"

definition local_get :: "'w ct_env \<Rightarrow> string \<Rightarrow> ('w, tokens option) cts" where
  "local_get E key =
    sbind (in_world (ce_now E)) (\<lambda>now.
    sbind (smod (\<lambda>(lc, s). (Some (case lc of None \<Rightarrow> Map.empty | Some c \<Rightarrow> c), s))) (\<lambda>_.
    sget (\<lambda>(lc, s). case the lc key of Some (ts, expiry) \<Rightarrow> if now \<le> expiry then Some ts else None | None \<Rightarrow> None)))"

definition local_set :: "'w ct_env \<Rightarrow> string \<Rightarrow> tokens \<Rightarrow> ('w, unit) cts" where
  "local_set E key ts = sbind (in_world (ce_now E)) (\<lambda>now. smod (\<lambda>(lc, s). (map_option (\<lambda>c. c(key \<mapsto> (ts, now + 5))) lc, s)))"

definition getCustomTokenList :: "'w ct_env \<Rightarrow> market \<Rightarrow> string \<Rightarrow> ('w, tokens) cts" where
  "getCustomTokenList E st key =
    sbind (local_get E key) (\<lambda>hit. case hit of
      Some ts \<Rightarrow> sret ts
    | None \<Rightarrow> sbind (in_world (GetCustomTokensFromRedis E key)) (\<lambda>(custom, err).
        sbind (local_set E key (merged E st custom)) (\<lambda>_. case err of None \<Rightarrow> sret (merged E st custom) | Some e \<Rightarrow> sfail e)))"

definition GetCustomTokenList :: "'w ct_env \<Rightarrow> market \<Rightarrow> address \<Rightarrow> ('w, tokens) cts" where
  "GetCustomTokenList E st address = getCustomTokenList E st (buildCacheKey E address)"

definition GetAllCustomTokenList :: "'w ct_env \<Rightarrow> market \<Rightarrow> ('w, tokens) cts" where
  "GetAllCustomTokenList E st = getCustomTokenList E st ''ALLCT''"

definition getAndSetCustomToken :: "'w ct_env \<Rightarrow> string \<Rightarrow> CustomToken \<Rightarrow> ('w, unit) st" where
  "getAndSetCustomToken E key token =
    sbind (GetCustomTokensFromRedis E key) (\<lambda>(ct, err). case err of
      Some e \<Rightarrow> sfail e
    | None \<Rightarrow> sbind (slift (ce_enc E (ct(ToUpper (ct_Symbol token) \<mapsto> token)))) (\<lambda>ctByte.
        ct_cache E (\<lambda>c. c_Set c key ctByte (- 1))))"

text \<open>The errors of the two updates are dropped, and the lock is released also when it was not obtained.\<close>

definition setTokenToRedis :: "'w ct_env \<Rightarrow> string \<Rightarrow> CustomToken \<Rightarrow> ('w, unit) st" where
  "setTokenToRedis E key token =
    sbind (stry (ce_TryLock E ''ZKLOCKCT'')) (\<lambda>r.
    sbind (case r of
        Inr _ \<Rightarrow> sbind (stry (getAndSetCustomToken E key token)) (\<lambda>_. sbind (stry (getAndSetCustomToken E ''ALLCT'' token)) (\<lambda>_. sret ()))
      | Inl err \<Rightarrow> sret ()) (\<lambda>_.
    sbind (stry (ce_ReleaseLock E ''ZKLOCKCT'')) (\<lambda>_. slift r)))"

definition hadRegistedInner :: "'w ct_env \<Rightarrow> tokens \<Rightarrow> address \<Rightarrow> bool" where
  "hadRegistedInner E tokenMap address = list_ex (\<lambda>k.
     ToUpper (Address_Hex (me_K (ce_market E)) (ct_Address (the (tokenMap k)))) = ToUpper (Address_Hex (me_K (ce_market E)) address)) (ce_keys E tokenMap)"

definition AddToken :: "'w ct_env \<Rightarrow> market \<Rightarrow> address \<Rightarrow> CustomToken \<Rightarrow> ('w, unit) cts" where
  "AddToken E st address token =
    sbind (GetCustomTokenList E st address) (\<lambda>tokens.
      let token = token\<lparr>ct_Symbol := ToUpper (ct_Symbol token)\<rparr> in
      if tokens (ct_Symbol token) \<noteq> None then sfail (Err ''same symbol exist'')
      else if hadRegistedInner E tokens (ct_Address token) then sfail (Err ''same address was registed'')
      else sbind (stry (on_snd (Erc20Decimals (ce_lpr E) (ct_Address token) ''latest''))) (\<lambda>r.
        let token = (case r of Inr decimals \<Rightarrow> token\<lparr>ct_Decimals := Some decimals\<rparr> | Inl err \<Rightarrow> token) in
        in_world (setTokenToRedis E (buildCacheKey E address) token)))"

text \<open>The list that a deletion writes back is the one it read, with the tokens of the relay among the user's.\<close>

definition DeleteToken :: "'w ct_env \<Rightarrow> market \<Rightarrow> address \<Rightarrow> string \<Rightarrow> ('w, unit) cts" where
  "DeleteToken E st address symbol =
    (let key = buildCacheKey E address; symbol = ToUpper symbol in
     sbind (GetCustomTokenList E st address) (\<lambda>tokens.
       if tokens symbol = None then sfail (Err ''not exist token symbol'')
       else let left = tokens(symbol := None) in
         sbind (smod (\<lambda>(lc, s). (map_option (\<lambda>c. c(key := map_option (\<lambda>(_, expiry). (left, expiry)) (c key))) lc, s))) (\<lambda>_.
         sbind (slift (ce_enc E left)) (\<lambda>ctByte. in_world (ct_cache E (\<lambda>c. c_Set c key ctByte (- 1)))))))"

definition HadRegistedByAddress :: "'w ct_env \<Rightarrow> market \<Rightarrow> address \<Rightarrow> address \<Rightarrow> ('w, bool) cts" where
  "HadRegistedByAddress E st address token =
    sbind (stry (GetCustomTokenList E st address)) (\<lambda>r. case r of
      Inl err \<Rightarrow> sret False | Inr tokenMap \<Rightarrow> sret (hadRegistedInner E tokenMap token))"

definition HadRegisted :: "'w ct_env \<Rightarrow> market \<Rightarrow> address \<Rightarrow> ('w, bool) cts" where
  "HadRegisted E st token =
    sbind (stry (GetAllCustomTokenList E st)) (\<lambda>r. case r of
      Inl err \<Rightarrow> sret False | Inr tokenMap \<Rightarrow> sret (hadRegistedInner E tokenMap token))"

text \<open>\<open>strings.ToLower\<close> of two hex texts agree exactly when \<open>ToUpper\<close> of them do; the comparison is written with the latter.\<close>

definition AddressToSymbol :: "'w ct_env \<Rightarrow> market \<Rightarrow> address \<Rightarrow> address \<Rightarrow> ('w, string) cts" where
  "AddressToSymbol E st address token =
    sbind (GetCustomTokenList E st address) (\<lambda>tokens.
      case find (\<lambda>k. ToUpper (Address_Hex (me_K (ce_market E)) token)
          = ToUpper (Address_Hex (me_K (ce_market E)) (ct_Address (the (tokens k))))) (ce_keys E tokens) of
        Some k \<Rightarrow> sret k | None \<Rightarrow> sfail (Err ''address had not register this token''))"

subsection \<open>Stores of texts\<close>

text \<open>What the lists need of the cache: a text that is stored is read back, and nothing else changes.\<close>

definition codec_ok :: "'w ct_env \<Rightarrow> tokens \<Rightarrow> bool" where
  "codec_ok E m \<longleftrightarrow> (case ce_enc E m of Inr b \<Rightarrow> b \<noteq> [] \<and> ce_dec E b = (m, None) | Inl e \<Rightarrow> False)"

definition tokens_at :: "'w ct_env \<Rightarrow> bytes option \<Rightarrow> tokens" where
  "tokens_at E v = (case v of None \<Rightarrow> Map.empty | Some b \<Rightarrow> if b = [] then Map.empty else fst (ce_dec E b))"

definition readable :: "'w ct_env \<Rightarrow> bytes option \<Rightarrow> bool" where
  "readable E v \<longleftrightarrow> (case v of None \<Rightarrow> True | Some b \<Rightarrow> b = [] \<or> snd (ce_dec E b) = None)"

context string_store
begin

text \<open>The read, change and write of a list adds the token to the list under the key, and changes no other list.\<close>

lemma adds_token:
  assumes "\<And>k. ct_cache E (\<lambda>c. c_Get c k) = get k" "\<And>k b. ct_cache E (\<lambda>c. c_Set c k b (- 1)) = put k b"
    and "codec_ok E ((tokens_at E (content w key))(ToUpper (ct_Symbol token) \<mapsto> token))" "readable E (content w key)"
  shows "\<exists>w'. getAndSetCustomToken E key token w = (w', Inr ())
     \<and> tokens_at E (content w' key) = (tokens_at E (content w key))(ToUpper (ct_Symbol token) \<mapsto> token)
     \<and> readable E (content w' key) \<and> (\<forall>k. k \<noteq> key \<longrightarrow> content w' k = content w k)"
proof -
  obtain w1 r where r: "get key w = (w1, r)" "content w1 = content w" "case content w key of Some b \<Rightarrow> r = Inr b | None \<Rightarrow> \<exists>e. r = Inl (Err e)"
    using get_law by blast
  then have read: "GetCustomTokensFromRedis E key w = (w1, Inr (tokens_at E (content w key), None))"
    using assms(4) by (cases "content w key")
      (auto simp: GetCustomTokensFromRedis_def assms(1) tokens_at_def readable_def sret_def prod_eq_iff)
  obtain b where b: "ce_enc E ((tokens_at E (content w key))(ToUpper (ct_Symbol token) \<mapsto> token)) = Inr b"
      "b \<noteq> []" "ce_dec E b = ((tokens_at E (content w key))(ToUpper (ct_Symbol token) \<mapsto> token), None)"
    using assms(3) unfolding codec_ok_def by (auto split: sum.splits)
  obtain w2 where "put key b w1 = (w2, Inr ())" "content w2 = (content w1)(key \<mapsto> b)" using put_law by blast
  then show ?thesis
    using read b r(2) by (simp add: getAndSetCustomToken_def assms(2) slift_def tokens_at_def readable_def)
qed

end

context redis_server
begin

lemmas redis_adds_token = adds_token

end

subsection \<open>Adding a token\<close>

lemma getAndSet_redis:
  assumes "redis_strings srv db" "ne_cache (le_node (ce_lpr E)) = Some (NewCache srv)"
    "codec_ok E ((tokens_at E (texts db w key))(ToUpper (ct_Symbol token) \<mapsto> token))" "readable E (texts db w key)"
  shows "\<exists>w'. getAndSetCustomToken E key token w = (w', Inr ())
     \<and> tokens_at E (texts db w' key) = (tokens_at E (texts db w key))(ToUpper (ct_Symbol token) \<mapsto> token)
     \<and> readable E (texts db w' key) \<and> (\<forall>k. k \<noteq> key \<longrightarrow> texts db w' k = texts db w k)"
  using assms(2-4)
  by (intro redis_server.redis_adds_token [OF redis_server.intro [OF assms(1)], where ttl = "- 1"])
    (simp_all add: ct_cache_def cache_call_def NewCache_def Let_def fun_eq_iff)


text \<open>
  With the lock obtained, a custom token is stored under its upper-case symbol in the list of the user and in the
  list of all custom tokens; the other tokens of both lists stay, and so does every other text in the cache. The
  server is up, and both lists were readable.
\<close>

theorem custom_token_stored:
  assumes "redis_strings srv db" "ne_cache (le_node (ce_lpr E)) = Some (NewCache srv)"
    "codec_ok E ((tokens_at E (texts db w key))(ToUpper (ct_Symbol token) \<mapsto> token))"
    "codec_ok E ((tokens_at E (texts db w ''ALLCT''))(ToUpper (ct_Symbol token) \<mapsto> token))"
    "readable E (texts db w key)" "readable E (texts db w ''ALLCT'')" "key \<noteq> ''ALLCT''"
    "\<And>l w. \<exists>w'. ce_TryLock E l w = (w', Inr ()) \<and> db w' = db w" "\<And>l w. \<exists>w'. ce_ReleaseLock E l w = (w', Inr ()) \<and> db w' = db w"
  shows "\<exists>w'. setTokenToRedis E key token w = (w', Inr ())
     \<and> tokens_at E (texts db w' key) = (tokens_at E (texts db w key))(ToUpper (ct_Symbol token) \<mapsto> token)
     \<and> tokens_at E (texts db w' ''ALLCT'') = (tokens_at E (texts db w ''ALLCT''))(ToUpper (ct_Symbol token) \<mapsto> token)
     \<and> (\<forall>k. k \<noteq> key \<longrightarrow> k \<noteq> ''ALLCT'' \<longrightarrow> texts db w' k = texts db w k)"
proof -
  obtain w1 where w1: "ce_TryLock E ''ZKLOCKCT'' w = (w1, Inr ())" "texts db w1 = texts db w"
    using assms(8) [of "''ZKLOCKCT''" w] by (auto simp: texts_def fun_eq_iff)
  obtain w2 where w2: "getAndSetCustomToken E key token w1 = (w2, Inr ())"
     "tokens_at E (texts db w2 key) = (tokens_at E (texts db w key))(ToUpper (ct_Symbol token) \<mapsto> token)"
     "\<forall>k. k \<noteq> key \<longrightarrow> texts db w2 k = texts db w k"
    using getAndSet_redis [OF assms(1,2), of w1 key token] assms(3,5) w1(2) by auto
  then have r2: "texts db w2 ''ALLCT'' = texts db w ''ALLCT''" using assms(7) by simp
  obtain w3 where w3: "getAndSetCustomToken E ''ALLCT'' token w2 = (w3, Inr ())"
     "tokens_at E (texts db w3 ''ALLCT'') = (tokens_at E (texts db w2 ''ALLCT''))(ToUpper (ct_Symbol token) \<mapsto> token)"
     "\<forall>k. k \<noteq> ''ALLCT'' \<longrightarrow> texts db w3 k = texts db w2 k"
    using getAndSet_redis [OF assms(1,2), of w2 "''ALLCT''" token] assms(4,6) r2 by auto
  obtain w4 where w4: "ce_ReleaseLock E ''ZKLOCKCT'' w3 = (w4, Inr ())" "texts db w4 = texts db w3"
    using assms(9) [of "''ZKLOCKCT''" w3] by (auto simp: texts_def fun_eq_iff)
  have "setTokenToRedis E key token w = (w4, Inr ())" using w1 w2 w3 w4 by (simp add: setTokenToRedis_def sret_def slift_def)
  then show ?thesis using w2(2,3) w3(2,3) w4(2) assms(7) by auto
qed

text \<open>What the code does when the server fails: a failed read counts as an empty list, so that the list is replaced by the new token
  alone; and errors of the updates are dropped, so that the token counts as added.\<close>

lemma failed_read_loses_tokens:
  assumes "ct_cache E (\<lambda>c. c_Get c key) w = (w1, Inl (Err e))" "ce_enc E [ToUpper (ct_Symbol token) \<mapsto> token] = Inr b"
  shows "getAndSetCustomToken E key token w = ct_cache E (\<lambda>c. c_Set c key b (- 1)) w1"
  using assms by (simp add: getAndSetCustomToken_def GetCustomTokensFromRedis_def sret_def slift_def)

lemma failed_write_reported_as_success:
  assumes "ce_TryLock E ''ZKLOCKCT'' w = (w1, Inr ())" "\<And>k w. \<exists>w' e. getAndSetCustomToken E k token w = (w', Inl (Err e))"
    "\<And>w. \<exists>w'. ce_ReleaseLock E ''ZKLOCKCT'' w = (w', Inr ())"
  shows "\<exists>w'. setTokenToRedis E key token w = (w', Inr ())"
proof -
  obtain w2 e2 where 2: "getAndSetCustomToken E key token w1 = (w2, Inl (Err e2))" using assms(2) by blast
  obtain w3 e3 where 3: "getAndSetCustomToken E ''ALLCT'' token w2 = (w3, Inl (Err e3))" using assms(2) by blast
  obtain w4 where "ce_ReleaseLock E ''ZKLOCKCT'' w3 = (w4, Inr ())" using assms(3) by blast
  then show ?thesis using assms(1) 2 3 by (simp add: setTokenToRedis_def sret_def slift_def)
qed

text \<open>A symbol that is already in the list, or an address, is refused, and the cache is not written.\<close>

lemma AddToken_refuses:
  assumes "GetCustomTokenList E st address s = (s1, Inr ts)"
    "ts (ToUpper (ct_Symbol token)) \<noteq> None \<or> hadRegistedInner E ts (ct_Address token)"
  shows "\<exists>e. AddToken E st address token s = (s1, Inl (Err e))"
  using assms by (auto simp: AddToken_def Let_def sfail_def)

subsection \<open>Trying it\<close>

text \<open>The cache is the only part of the world here; the codec knows one list.\<close>

definition demo_custom :: CustomToken where
  "demo_custom = \<lparr>ct_Address = addr_of 9, ct_Symbol = ''XYZ'', ct_Decimals = Some 1000, ct_Source = []\<rparr>"

definition demo_ct_lpr :: "(string \<rightharpoonup> rval) lpr_env" where
  "demo_ct_lpr = \<lparr>le_node = \<lparr>ne_dial = (\<lambda>_. sret ()), ne_call = (\<lambda>_ _ _. sret JNull), ne_batch = (\<lambda>_ _. sret []),
       ne_cache = Some (NewCache mem_redis), ne_keys = (\<lambda>_ _. []), ne_rand = (\<lambda>_. sret 0), ne_undef = (\<lambda>_. 0)\<rparr>,
     le_K = (\<lambda>_. []), le_J = (\<lambda>_. Inr []), le_scan = (\<lambda>_. sret []), le_versions = (\<lambda>_. []), le_protocols = (\<lambda>_. [])\<rparr>"

definition demo_ct :: "(string \<rightharpoonup> rval) ct_env" where
  "demo_ct = \<lparr>ce_lpr = demo_ct_lpr, ce_market = demo_menv, ce_enc = (\<lambda>m. Inr [1]), ce_dec = (\<lambda>b. ([''XYZ'' \<mapsto> demo_custom], None)),
     ce_TryLock = (\<lambda>_. sret ()), ce_ReleaseLock = (\<lambda>_. sret ()), ce_now = sret 0, ce_keys = (\<lambda>_. [''XYZ''])\<rparr>"

theorem custom_token_stored_witness:
  "\<exists>w'. setTokenToRedis demo_ct ''CTPK_0X01'' demo_custom Map.empty = (w', Inr ())
     \<and> tokens_at demo_ct (texts (\<lambda>db. db) w' ''CTPK_0X01'') = [''XYZ'' \<mapsto> demo_custom]
     \<and> tokens_at demo_ct (texts (\<lambda>db. db) w' ''ALLCT'') = [''XYZ'' \<mapsto> demo_custom]"
proof -
  have "ToUpper (ct_Symbol demo_custom) = ''XYZ''" by (simp add: demo_custom_def ToUpper_def upper_char_def)
  then show ?thesis
    using custom_token_stored [of mem_redis "\<lambda>db. db" demo_ct Map.empty "''CTPK_0X01''" demo_custom] mem_redis_spec
    by (auto simp: demo_ct_def demo_ct_lpr_def redis_spec_def codec_ok_def readable_def tokens_at_def texts_def sret_def)
qed

end
