(* ===== verification/Matrix_Client.thy ===== *)
theory Matrix_Client
  imports Cache_Store
begin

section \<open>Orders over Matrix rooms (\<open>broadcast/matrix\<close>)\<close>

text \<open>
  The client of a Matrix home server, with its login, its mutex and the repetition of a request after the token was
  refused, and the publisher and the subscriber that send and receive orders in rooms. The state is the client, which publisher
  or subscribers share, and the world behind HTTP and the cache. The mutex is a flag; a lock that is never released blocks the
  call, which then never returns. A decoder that fails leaves the zero value of the answer. Parameters: the HTTP client, the
  JSON codec, the cache, and the order in which a map is visited.
\<close>

subsection \<open>Requests (\<open>types.go\<close>)\<close>

text \<open>The fields of a request in the order of its type. \<open>FilterReq\<close> is left out: no function sends one.\<close>

datatype matrix_req =
    LoginReq string string string string string string
  | JoinRoomReq string string string string string
  | RoomMessagesReq string string string string string string
  | SendMessageReq string string string string string
  | WhoAmIReq
  | JoinedRoomsReq

definition room_path :: "string \<Rightarrow> string" where
  "room_path room = ''/_matrix/client/r0/rooms/'' @ room"

definition LoginReq_Path :: string where
  "LoginReq_Path = ''/_matrix/client/r0/login''"

definition JoinRoomReq_Path :: "string \<Rightarrow> string" where
  "JoinRoomReq_Path room = room_path room @ ''/join''"

definition RoomMessagesReq_Path :: "string \<Rightarrow> string" where
  "RoomMessagesReq_Path room = room_path room @ ''/messages''"

definition SendMessageReq_Path :: "string \<Rightarrow> string \<Rightarrow> string \<Rightarrow> string" where
  "SendMessageReq_Path room eventType txnId = room_path room @ ''/send/'' @ eventType @ ''/'' @ txnId"

definition WhoAmIReq_Path :: string where
  "WhoAmIReq_Path = ''/_matrix/client/r0/account/whoami''"

definition JoinedRoomsReq_Path :: string where
  "JoinedRoomsReq_Path = ''/_matrix/client/r0/joined_rooms''"

fun Path :: "matrix_req \<Rightarrow> string" where
  "Path (LoginReq ty user password token device display) = LoginReq_Path"
| "Path (JoinRoomReq room sender mxid token signatures) = JoinRoomReq_Path room"
| "Path (RoomMessagesReq room from to dir limit filt) = RoomMessagesReq_Path room"
| "Path (SendMessageReq room eventType txnId msgType body) = SendMessageReq_Path room eventType txnId"
| "Path WhoAmIReq = WhoAmIReq_Path"
| "Path JoinedRoomsReq = JoinedRoomsReq_Path"

definition param :: "string \<Rightarrow> string \<Rightarrow> string list" where
  "param name v = (if v \<noteq> '''' then [name @ ''='' @ v] else [])"

definition RoomMessagesReq_Params :: "string \<Rightarrow> string \<Rightarrow> string \<Rightarrow> string \<Rightarrow> string \<Rightarrow> string list" where
  "RoomMessagesReq_Params from to dir limit filt =
     param ''from'' from @ param ''to'' to @ param ''dir'' dir @ param ''limit'' limit @ param ''filter'' filt"

fun Params :: "matrix_req \<Rightarrow> string list" where
  "Params (RoomMessagesReq room from to dir limit filt) = RoomMessagesReq_Params from to dir limit filt"
| "Params _ = []"

record LoginRes =
  lr_UserId :: string
  lr_AccessToken :: string
  lr_HomeServer :: string
  lr_DeviceId :: string

record ErrorRes =
  er_ErrCode :: string
  er_Error :: string

record MsgContent =
  mc_Body :: string
  mc_MsgType :: string

text \<open>The embedded \<open>Event\<close> of an event is its content and its type.\<close>

record UnsignedData =
  ud_Age :: int
  ud_RedactedContent :: MsgContent
  ud_RedactedType :: string
  ud_TransactionId :: string

record RoomEvent =
  ev_Content :: MsgContent
  ev_Type :: string
  ev_EventId :: string
  ev_RoomId :: string
  ev_Sender :: string
  ev_OriginServerTs :: int
  ev_Unsigned :: UnsignedData

record RoomMessagesRes =
  rm_Start :: string
  rm_End :: string
  rm_Chunk :: "RoomEvent list"

record RoomEventFilter =
  rf_Limit :: int
  rf_NotSenders :: "string list"
  rf_NotTypes :: "string list"
  rf_Senders :: "string list"
  rf_Types :: "string list"
  rf_NotRooms :: "string list"
  rf_Rooms :: "string list"
  rf_ContainUrl :: bool

subsection \<open>The client (\<open>matrix_client.go\<close>)\<close>

record MatrixClientOptions =
  mo_HSUrl :: string
  mo_User :: string
  mo_Password :: string
  mo_AccessToken :: string

record MatrixClient =
  mx_HSUrl :: string
  mx_User :: string
  mx_Password :: string
  mx_LoginRes :: "LoginRes option"
  mx_UserId :: string
  mx_locked :: bool

record http_resp =
  hr_StatusCode :: int
  hr_Body :: "string res"

record 'w matrix_env =
  he_do :: "string \<Rightarrow> string \<Rightarrow> string option \<Rightarrow> ('w, http_resp) st"
  he_NewRequest :: "string \<Rightarrow> unit res"
  je_req :: "matrix_req \<Rightarrow> string res"
  je_filter :: "RoomEventFilter \<Rightarrow> string res"
  je_error :: "string \<Rightarrow> ErrorRes res"
  je_login :: "string \<Rightarrow> LoginRes res"
  je_join :: "string \<Rightarrow> string res"
  je_messages :: "string \<Rightarrow> RoomMessagesRes res"
  je_send :: "string \<Rightarrow> string res"
  je_whoami :: "string \<Rightarrow> string res"
  je_joined :: "string \<Rightarrow> string list res"
  mx_cache :: "'w Cache option"
  mx_rooms :: "string list \<Rightarrow> string list"
  mx_joined :: "string list \<Rightarrow> string list"

type_synonym ('w, 'a) mx = "(MatrixClient \<times> 'w, 'a) st"

text \<open>The answer of a request: the result, or an error together with what the server said when it refused.\<close>

datatype 'r mx_reply = Reply 'r | Refused "ErrorRes option" string

definition UNRECOGNISED_TOKEN_ERROR :: string where
  "UNRECOGNISED_TOKEN_ERROR = ''Unrecognised access token.''"

definition blocks_forever :: go_error where
  "blocks_forever = Panic (Fatal ''blocks forever'')"

definition err_text :: "go_error \<Rightarrow> string" where
  "err_text e = (case e of Err m \<Rightarrow> m | Panic p \<Rightarrow> '''')"

definition RequestUrl :: "MatrixClient \<Rightarrow> matrix_req \<Rightarrow> string" where
  "RequestUrl client req =
    (let paramsStr = fold (\<lambda>p s. if p \<noteq> '''' then (if s = '''' then p else s @ ''&'' @ p) else s) (Params req) '''' in
     case mx_LoginRes client of
       Some l \<Rightarrow> if lr_AccessToken l = '''' then mx_HSUrl client @ Path req @ ''?'' @ paramsStr
                 else mx_HSUrl client @ Path req @ ''?access_token='' @ lr_AccessToken l @ ''&'' @ paramsStr
     | None \<Rightarrow> mx_HSUrl client @ Path req @ ''?'' @ paramsStr)"

definition lock :: "('w, unit) mx" where
  "lock = (\<lambda>(c, w). if mx_locked c then ((c, w), Inl blocks_forever) else ((c\<lparr>mx_locked := True\<rparr>, w), Inr ()))"

definition unlock :: "('w, unit) mx" where
  "unlock = smod (\<lambda>(c, w). (c\<lparr>mx_locked := False\<rparr>, w))"

definition handle_resp :: "'w matrix_env \<Rightarrow> (string \<Rightarrow> 'r res) \<Rightarrow> http_resp \<Rightarrow> 'r mx_reply" where
  "handle_resp env dec resp =
    (case hr_Body resp of
       Inl e \<Rightarrow> Refused None (err_text e)
     | Inr body \<Rightarrow>
         if hr_StatusCode resp \<noteq> 200 then (case je_error env body of
             Inl e \<Rightarrow> Refused None (''errbody:'' @ body @ '', err:'' @ err_text e)
           | Inr errRes \<Rightarrow> Refused (Some errRes) (''error:'' @ er_Error errRes @ '', errorcode:'' @ er_ErrCode errRes))
         else (case dec body of Inl e \<Rightarrow> Refused None (err_text e) | Inr res \<Rightarrow> Reply res))"

definition Post :: "'w matrix_env \<Rightarrow> (string \<Rightarrow> 'r res) \<Rightarrow> matrix_req \<Rightarrow> ('w, 'r mx_reply) mx" where
  "Post env dec req =
    (case je_req env req of
       Inl e \<Rightarrow> sret (Refused None (err_text e))
     | Inr reqData \<Rightarrow>
         sbind lock (\<lambda>_.
         sbind (sget (\<lambda>(c, w). RequestUrl c req)) (\<lambda>url.
         sbind (stry (on_snd (he_do env ''POST'' url (Some reqData)))) (\<lambda>r. case r of
             Inl e \<Rightarrow> sret (Refused None (err_text e))
           | Inr resp \<Rightarrow> sbind unlock (\<lambda>_. sret (handle_resp env dec resp))))))"

definition Put :: "'w matrix_env \<Rightarrow> (string \<Rightarrow> 'r res) \<Rightarrow> matrix_req \<Rightarrow> ('w, 'r mx_reply) mx" where
  "Put env dec req =
    (case je_req env req of
       Inl e \<Rightarrow> sret (Refused None (err_text e))
     | Inr reqData \<Rightarrow>
         sbind lock (\<lambda>_.
         sbind (sget (\<lambda>(c, w). RequestUrl c req)) (\<lambda>url.
         case he_NewRequest env url of
           Inl e \<Rightarrow> sret (Refused None (err_text e))
         | Inr _ \<Rightarrow> sbind (stry (on_snd (he_do env ''PUT'' url (Some reqData)))) (\<lambda>r. case r of
               Inl e \<Rightarrow> sret (Refused None (err_text e))
             | Inr resp \<Rightarrow> sbind unlock (\<lambda>_. sret (handle_resp env dec resp))))))"

definition Get :: "'w matrix_env \<Rightarrow> (string \<Rightarrow> 'r res) \<Rightarrow> matrix_req \<Rightarrow> ('w, 'r mx_reply) mx" where
  "Get env dec req =
    sbind (sget (\<lambda>(c, w). RequestUrl c req)) (\<lambda>url.
    sbind (stry (on_snd (he_do env ''GET'' url None))) (\<lambda>r. case r of
        Inl e \<Rightarrow> sret (Refused None (err_text e))
      | Inr resp \<Rightarrow> sret (handle_resp env dec resp)))"

definition Login :: "'w matrix_env \<Rightarrow> ('w, unit) mx" where
  "Login env =
    sbind (sget fst) (\<lambda>c.
    sbind (Post env (je_login env) (LoginReq ''m.login.password'' (mx_User c) (mx_Password c) '''' ''ip'' ''ip'')) (\<lambda>r. case r of
        Refused _ e \<Rightarrow> sfail (Err e)
      | Reply loginRes \<Rightarrow> smod (\<lambda>(c, w). (c\<lparr>mx_LoginRes := Some loginRes\<rparr>, w))))"

text \<open>The three functions that log in again when the token was refused and then repeat the request have one shape.\<close>

definition recovering :: "'w matrix_env \<Rightarrow> ('w, 'r mx_reply) mx \<Rightarrow> ('w, 'r mx_reply) mx" where
  "recovering env request =
    sbind request (\<lambda>r. case r of
        Refused (Some errRes) e \<Rightarrow>
          if er_Error errRes = UNRECOGNISED_TOKEN_ERROR
          then sbind (stry (Login env)) (\<lambda>err1. case err1 of Inr _ \<Rightarrow> request | Inl _ \<Rightarrow> sret r)
          else sret r
      | _ \<Rightarrow> sret r)"

definition PostWithErrRevocer :: "'w matrix_env \<Rightarrow> (string \<Rightarrow> 'r res) \<Rightarrow> matrix_req \<Rightarrow> ('w, 'r mx_reply) mx" where
  "PostWithErrRevocer env dec req = recovering env (Post env dec req)"

definition PutWithErrRecover :: "'w matrix_env \<Rightarrow> (string \<Rightarrow> 'r res) \<Rightarrow> matrix_req \<Rightarrow> ('w, 'r mx_reply) mx" where
  "PutWithErrRecover env dec req = recovering env (Put env dec req)"

definition GetWithErrRecover :: "'w matrix_env \<Rightarrow> (string \<Rightarrow> 'r res) \<Rightarrow> matrix_req \<Rightarrow> ('w, 'r mx_reply) mx" where
  "GetWithErrRecover env dec req = recovering env (Get env dec req)"

definition answer :: "('w, 'r mx_reply) mx \<Rightarrow> ('w, 'r) mx" where
  "answer m = sbind m (\<lambda>r. case r of Reply x \<Rightarrow> sret x | Refused _ e \<Rightarrow> sfail (Err e))"

definition WhoAmI :: "'w matrix_env \<Rightarrow> ('w, string) mx" where
  "WhoAmI env = answer (GetWithErrRecover env (je_whoami env) WhoAmIReq)"

definition JoinRoom :: "'w matrix_env \<Rightarrow> string \<Rightarrow> ('w, unit) mx" where
  "JoinRoom env roomid = sbind (answer (PostWithErrRevocer env (je_join env) (JoinRoomReq roomid '''' '''' '''' ''''))) (\<lambda>_. sret ())"

definition RoomMessages :: "'w matrix_env \<Rightarrow> string \<Rightarrow> string \<Rightarrow> string \<Rightarrow> string \<Rightarrow> string \<Rightarrow> string \<Rightarrow> ('w, RoomMessagesRes) mx" where
  "RoomMessages env roomId from to dir limit filt =
     answer (GetWithErrRecover env (je_messages env) (RoomMessagesReq roomId from to dir limit filt))"

definition SendMessages :: "'w matrix_env \<Rightarrow> string \<Rightarrow> string \<Rightarrow> string \<Rightarrow> string \<Rightarrow> string \<Rightarrow> ('w, string) mx" where
  "SendMessages env roomId eventType txnid msgtype body =
     answer (PutWithErrRecover env (je_send env) (SendMessageReq roomId eventType txnid msgtype body))"

definition JoinedRooms :: "'w matrix_env \<Rightarrow> ('w, string list) mx" where
  "JoinedRooms env = answer (GetWithErrRecover env (je_joined env) JoinedRoomsReq)"

definition NewMatrixClient :: "'w matrix_env \<Rightarrow> MatrixClientOptions \<Rightarrow> ('w, MatrixClient) st" where
  "NewMatrixClient env options w =
    (let client = \<lparr>mx_HSUrl = mo_HSUrl options, mx_User = mo_User options, mx_Password = mo_Password options, mx_LoginRes = None,
           mx_UserId = '''', mx_locked = False\<rparr> in
     if mo_AccessToken options = ''''
     then (case Login env (client, w) of
         ((client, w), Inl e) \<Rightarrow> (w, Inl e)
       | ((client, w), Inr _) \<Rightarrow> (w, Inr client))
     else let client = client\<lparr>mx_LoginRes := Some \<lparr>lr_UserId = '''', lr_AccessToken = mo_AccessToken options, lr_HomeServer = '''', lr_DeviceId = ''''\<rparr>\<rparr> in
       (case WhoAmI env (client, w) of
         ((client, w), Inl (Panic p)) \<Rightarrow> (w, Inl (Panic p))
       | ((client, w), Inl (Err e)) \<Rightarrow> (w, Inr (client\<lparr>mx_UserId := ''''\<rparr>))
       | ((client, w), Inr userId) \<Rightarrow> (w, Inr (client\<lparr>mx_UserId := userId\<rparr>))))"

text \<open>The rooms to check are the keys of a map from then on; a room that is joined already needs no request.\<close>

fun check_rooms :: "'w matrix_env \<Rightarrow> string list \<Rightarrow> string list \<Rightarrow> (string \<rightharpoonup> go_error option) \<Rightarrow> ('w, string \<rightharpoonup> go_error option) mx" where
  "check_rooms env joinedRooms [] rooms = sret rooms"
| "check_rooms env joinedRooms (room # rest) rooms =
    (if room \<in> set joinedRooms then check_rooms env joinedRooms rest (rooms(room \<mapsto> None))
     else sbind (stry (JoinRoom env room)) (\<lambda>r.
       check_rooms env joinedRooms rest (rooms(room \<mapsto> (case r of Inr _ \<Rightarrow> None | Inl e \<Rightarrow> Some e)))))"

definition CheckAndJoinRoom :: "'w matrix_env \<Rightarrow> string list \<Rightarrow> ('w, string \<rightharpoonup> go_error option) mx" where
  "CheckAndJoinRoom env toCheckRooms =
    (let rooms = fold (\<lambda>room m. m(room \<mapsto> Some (Err ''hasn't check''))) toCheckRooms Map.empty in
     sbind (JoinedRooms env) (\<lambda>joinedRooms. check_rooms env joinedRooms (mx_rooms env (remdups toCheckRooms)) rooms))"

definition joined_rooms :: "'w matrix_env \<Rightarrow> string list \<Rightarrow> ('w, string list) mx" where
  "joined_rooms env toCheckRooms =
     sbind (CheckAndJoinRoom env toCheckRooms) (\<lambda>rooms. sret (filter (\<lambda>room. rooms room = Some None) (mx_joined env (remdups toCheckRooms))))"

subsection \<open>Publishing (\<open>publisher.go\<close>)\<close>

definition LoopringOrderType :: string where
  "LoopringOrderType = ''io.loopring.order''"

record MatrixPublisherOption =
  po_client :: MatrixClientOptions
  po_Rooms :: "string list"

record MatrixPublisher =
  mp_matrixClient :: MatrixClient
  mp_Rooms :: "string list"

fun pub_loop :: "'w matrix_env \<Rightarrow> string \<Rightarrow> bytes \<Rightarrow> string list \<Rightarrow> string option \<Rightarrow> ('w, string option) mx" where
  "pub_loop env hash orderData [] err = sret err"
| "pub_loop env hash orderData (room # rooms) err =
    sbind (stry (SendMessages env room LoopringOrderType hash LoopringOrderType (string_of orderData))) (\<lambda>r. case r of
        Inr eventId \<Rightarrow> pub_loop env hash orderData rooms err
      | Inl err1 \<Rightarrow> sbind (sget (\<lambda>(c, w). mx_HSUrl c @ '':'' @ err_text err1)) (\<lambda>text.
          pub_loop env hash orderData rooms (Some (case err of None \<Rightarrow> text | Some e \<Rightarrow> e @ '','' @ text))))"

definition MatrixPublisher_PubOrder :: "'w matrix_env \<Rightarrow> string list \<Rightarrow> string \<Rightarrow> bytes \<Rightarrow> ('w, string option) mx" where
  "MatrixPublisher_PubOrder env Rooms hash orderData = pub_loop env hash orderData Rooms None"

text \<open>The text of the error of a client that could not be created is built from the client itself, which is nil then.\<close>

fun publishers_loop :: "'w matrix_env \<Rightarrow> MatrixPublisherOption list \<Rightarrow> ('w, MatrixPublisher list) st" where
  "publishers_loop env [] = sret []"
| "publishers_loop env (option # options) =
    sbind (stry (NewMatrixClient env (po_client option))) (\<lambda>r. case r of
        Inl err \<Rightarrow> sfail (Panic NilDeref)
      | Inr matrixClient \<Rightarrow>
          sbind (\<lambda>w. case joined_rooms env (po_Rooms option) (matrixClient, w) of ((c, w), r) \<Rightarrow> (w, map_sum id (\<lambda>rooms. (c, rooms)) r)) (\<lambda>(c, rooms).
          sbind (publishers_loop env options) (\<lambda>publishers. sret (\<lparr>mp_matrixClient = c, mp_Rooms = rooms\<rparr> # publishers))))"

definition NewPublishers :: "'w matrix_env \<Rightarrow> MatrixPublisherOption list \<Rightarrow> ('w, MatrixPublisher list) st" where
  "NewPublishers env options =
    (if length options = 0 then sfail (Err ''matrixPublisher.options can't be 0'') else publishers_loop env options)"

subsection \<open>Subscribing (\<open>subscriber.go\<close>)\<close>

record MatrixSubscriberOption =
  so_client :: MatrixClientOptions
  so_Rooms :: "string list"
  so_CacheFrom :: bool
  so_CacheTtl :: int

record MatrixSubscriber =
  ms_Room :: string
  ms_From :: string
  ms_CacheFrom :: bool
  ms_CacheTtl :: int

text \<open>The state of a subscriber is its own record, the client and the world.\<close>

type_synonym ('w, 'a) sub = "(MatrixSubscriber \<times> MatrixClient \<times> 'w, 'a) st"

definition CacheKeyLastFrom :: "string \<Rightarrow> string" where
  "CacheKeyLastFrom room = ''matrix_sub_from_'' @ room"

definition save_from :: "'w matrix_env \<Rightarrow> ('w, unit) sub" where
  "save_from env =
    sbind (sget fst) (\<lambda>s.
    if ms_CacheFrom s
    then sbind (stry (on_snd (on_snd (cache_call (\<lambda>c. c_Set c (CacheKeyLastFrom (ms_Room s)) (bytes_of (ms_From s)) (ms_CacheTtl s)) (mx_cache env)))))
           (\<lambda>_. sret ())
    else sret ())"

text \<open>The loop that asks until there are messages, without end; \<open>polls\<close> is how many requests are looked at, and \<open>None\<close> means that it
  still asks after them.\<close>

fun poll_messages :: "'w matrix_env \<Rightarrow> string \<Rightarrow> nat \<Rightarrow> ('w, RoomMessagesRes option) sub" where
  "poll_messages env filterStr 0 = sret None"
| "poll_messages env filterStr (Suc polls) =
    sbind (sget fst) (\<lambda>s.
    sbind (on_snd (RoomMessages env (ms_Room s) (ms_From s) '''' '''' ''100'' filterStr)) (\<lambda>res.
    sbind (smod (\<lambda>(s, x). (s\<lparr>ms_From := rm_End res\<rparr>, x))) (\<lambda>_.
    sbind (save_from env) (\<lambda>_.
    if rm_Chunk res = [] then poll_messages env filterStr polls else sret (Some res)))))"

definition order_filter :: "string \<Rightarrow> string \<Rightarrow> RoomEventFilter" where
  "order_filter userId room = \<lparr>rf_Limit = 100, rf_NotSenders = [userId], rf_NotTypes = [], rf_Senders = [], rf_Types = [LoopringOrderType],
     rf_NotRooms = [], rf_Rooms = [room], rf_ContainUrl = False\<rparr>"

definition order_bodies :: "RoomEvent list \<Rightarrow> bytes list" where
  "order_bodies chunk = map (\<lambda>e. bytes_of (mc_Body (ev_Content e))) chunk"

definition MatrixSubscriber_Next :: "'w matrix_env \<Rightarrow> nat \<Rightarrow> ('w, bytes list option) sub" where
  "MatrixSubscriber_Next env polls =
    sbind (sget (\<lambda>(s, c, w). order_filter (mx_UserId c) (ms_Room s))) (\<lambda>filt.
    sbind (slift (je_filter env filt)) (\<lambda>filterStr.
    sbind (poll_messages env filterStr polls) (\<lambda>res. sret (map_option (\<lambda>r. order_bodies (rm_Chunk r)) res))))"

definition first_from :: "'w matrix_env \<Rightarrow> bool \<Rightarrow> string \<Rightarrow> ('w, string) st" where
  "first_from env cacheFrom room =
    (if cacheFrom
     then sbind (stry (cache_call (\<lambda>c. c_Get c (CacheKeyLastFrom room)) (mx_cache env))) (\<lambda>r.
            sret (case r of Inr data \<Rightarrow> string_of data | Inl _ \<Rightarrow> ''''))
     else sret '''')"

text \<open>The subscribers of one option share its client.\<close>

fun subscribers_loop :: "'w matrix_env \<Rightarrow> MatrixSubscriberOption list \<Rightarrow> ('w, (MatrixClient \<times> MatrixSubscriber list) list) st" where
  "subscribers_loop env [] = sret []"
| "subscribers_loop env (option # options) =
    sbind (stry (NewMatrixClient env (so_client option))) (\<lambda>r. case r of
        Inl err \<Rightarrow> sfail (Err (''hsurl:'' @ mo_HSUrl (so_client option) @ '', err:'' @ err_text err))
      | Inr matrixClient \<Rightarrow>
          sbind (\<lambda>w. case joined_rooms env (so_Rooms option) (matrixClient, w) of ((c, w), r) \<Rightarrow> (w, map_sum id (\<lambda>rooms. (c, rooms)) r)) (\<lambda>(c, rooms).
          sbind (smap (\<lambda>room. sbind (first_from env (so_CacheFrom option) room) (\<lambda>from.
            sret \<lparr>ms_Room = room, ms_From = from, ms_CacheFrom = so_CacheFrom option, ms_CacheTtl = so_CacheTtl option\<rparr>)) rooms) (\<lambda>subs.
          sbind (subscribers_loop env options) (\<lambda>rest. sret ((c, subs) # rest)))))"

definition NewSubscribers :: "'w matrix_env \<Rightarrow> MatrixSubscriberOption list \<Rightarrow> ('w, (MatrixClient \<times> MatrixSubscriber list) list) st" where
  "NewSubscribers env options = subscribers_loop env options"

end
