(* ===== verification/Matrix_Feed.thy ===== *)
theory Matrix_Feed
  imports Matrix_Client "HOL-Library.Sublist"
begin

section \<open>Delivery of orders over Matrix\<close>

text \<open>
  What the subscriber delivers, over any number of calls, failed requests and renewed logins: the orders of the
  room from the position it started at, in order, without gaps and without repetitions; and what is lost or repeated when the process is stopped and started again. The home server is a parameter
  with the law \<open>room_law\<close>.
\<close>

subsection \<open>A source that is read piece by piece\<close>

fun next_all :: "('s, bytes list option) st \<Rightarrow> nat \<Rightarrow> 's \<Rightarrow> 's \<times> bytes list" where
  "next_all nx 0 s = (s, [])"
| "next_all nx (Suc n) s =
    (case nx s of
       (s', Inr (Some ds)) \<Rightarrow> (case next_all nx n s' of (s'', ds') \<Rightarrow> (s'', ds @ ds'))
     | (s', Inl (Panic p)) \<Rightarrow> (s', [])
     | (s', _) \<Rightarrow> next_all nx n s')"

definition piece :: "nat \<Rightarrow> bytes list \<Rightarrow> RoomEvent list \<Rightarrow> bool" where
  "piece k ds es \<longleftrightarrow> k + length ds \<le> length es \<and> ds = order_bodies (take (length ds) (drop k es))"

lemma piece_Nil [simp]: "piece k [] es \<longleftrightarrow> k \<le> length es"
  by (simp add: piece_def order_bodies_def)

lemma piece_prefix: "piece k ds es \<Longrightarrow> prefix es es' \<Longrightarrow> piece k ds es'"
  by (auto simp: piece_def prefix_def)

lemma piece_covers:
  assumes "piece k ds es'" "prefix es es'" "length es \<le> k + length ds"
  shows "prefix (order_bodies (drop k es)) ds"
proof -
  obtain zs where zs: "es' = es @ zs" using assms(2) by (auto simp: prefix_def)
  have "ds = order_bodies (take (length ds) (drop k es'))" using assms(1) by (simp add: piece_def)
  then have "ds = order_bodies (drop k es) @ order_bodies (take (length ds - (length es - k)) (drop (k - length es) zs))"
    using zs assms(3) by (simp add: order_bodies_def)
  then show ?thesis by (rule prefixI)
qed

lemma piece_append: "piece k ds es \<Longrightarrow> piece (k + length ds) ds' es \<Longrightarrow> piece k (ds @ ds') es"
  by (simp add: piece_def take_add order_bodies_def) (metis add.commute map_append)

locale feed =
  fixes nx :: "('s, bytes list option) st" and events :: "'s \<Rightarrow> RoomEvent list" and reached :: "'s \<Rightarrow> nat" and inv :: "'s \<Rightarrow> bool"
  assumes next_step: "inv s \<Longrightarrow> nx s = (s', r) \<Longrightarrow> inv s' \<and> prefix (events s) (events s')
      \<and> (case r of Inr (Some ds) \<Rightarrow> piece (reached s) ds (events s') \<and> reached s' = reached s + length ds | _ \<Rightarrow> reached s' = reached s)"
    and at_bound: "inv s \<Longrightarrow> reached s \<le> length (events s)"
begin

lemma delivers:
  assumes "inv s" "next_all nx n s = (s', ds)"
  shows "inv s' \<and> prefix (events s) (events s') \<and> piece (reached s) ds (events s') \<and> reached s' = reached s + length ds"
  using assms
proof (induction n arbitrary: s ds)
  case 0
  then show ?case using at_bound by simp
next
  case (Suc n)
  obtain s1 r where r: "nx s = (s1, r)" by fastforce
  note st = next_step [OF Suc.prems(1) r]
  consider (got) ds1 where "r = Inr (Some ds1)" | (panic) p where "r = Inl (Panic p)" | (none) "r = Inr None \<or> (\<exists>e. r = Inl (Err e))"
    by (metis go_error.exhaust not_None_eq old.sum.exhaust)
  then show ?case
  proof cases
    case got
    obtain ds2 where n: "next_all nx n s1 = (s', ds2)" "ds = ds1 @ ds2" using Suc.prems(2) r got by (auto split: prod.splits)
    have IH: "inv s' \<and> prefix (events s1) (events s') \<and> piece (reached s1) ds2 (events s') \<and> reached s' = reached s1 + length ds2"
      using Suc.IH [OF _ n(1)] st by simp
    then show ?thesis
      using st got n(2) piece_append [of "reached s" ds1 "events s'" ds2] piece_prefix [of "reached s" ds1 "events s1" "events s'"] prefix_order.trans by auto
  next
    case panic
    then show ?thesis using Suc.prems(2) r st at_bound [of s1] by simp
  next
    case none
    then have "next_all nx n s1 = (s', ds)" using Suc.prems(2) r by auto
    then have "inv s' \<and> prefix (events s1) (events s') \<and> piece (reached s1) ds (events s') \<and> reached s' = reached s1 + length ds"
      using Suc.IH st by blast
    then show ?thesis using st none prefix_order.trans by auto
  qed
qed

end

locale live_feed = feed +
  assumes progress: "inv s \<Longrightarrow> reached s < length (events s) \<Longrightarrow> \<exists>s' ds. nx s = (s', Inr (Some ds)) \<and> ds \<noteq> []"
begin

lemma reaches:
  assumes "inv s" "E \<le> length (events s)" "E \<le> reached s + n" "next_all nx n s = (s', ds)"
  shows "E \<le> reached s'"
  using assms
proof (induction n arbitrary: s ds)
  case 0
  then show ?case by simp
next
  case (Suc n)
  show ?case
  proof (cases "E \<le> reached s")
    case True
    then show ?thesis using delivers [OF Suc.prems(1,4)] by simp
  next
    case False
    then obtain s1 ds1 where 1: "nx s = (s1, Inr (Some ds1))" "ds1 \<noteq> []" using progress [OF Suc.prems(1)] Suc.prems(2) by auto
    then obtain ds2 where "next_all nx n s1 = (s', ds2)" using Suc.prems(4) by (auto split: prod.splits)
    moreover have "inv s1" "prefix (events s) (events s1)" "reached s1 = reached s + length ds1" using next_step [OF Suc.prems(1) 1(1)] by simp_all
    moreover have "1 \<le> length ds1" using 1(2) by (cases ds1) simp_all
    ultimately show ?thesis using Suc.IH [of s1 ds2] Suc.prems(2,3) prefix_length_le [of "events s" "events s1"] by linarith
  qed
qed

end

subsection \<open>The home server\<close>

text \<open>
  What is relied on: requests change neither the cache nor the orders of the room that are there already, and the cache does not
  change the orders; a token that a login gives out is valid; a page of messages that is delivered to a client with
  a valid token is the part of the orders behind the position asked for, and its end is the position behind the page.
  \<open>events\<close> are the orders of the room that pass the filter, in the order in which the server hands them out, and \<open>pos\<close> is the number of orders before a
  position.
\<close>

definition room_law ::
  "'w matrix_env \<Rightarrow> 'w server \<Rightarrow> ('w \<Rightarrow> string \<rightharpoonup> rval) \<Rightarrow> ('w \<Rightarrow> RoomEvent list) \<Rightarrow> (string \<Rightarrow> nat) \<Rightarrow> (LoginRes option \<Rightarrow> bool)
   \<Rightarrow> string \<Rightarrow> string \<Rightarrow> string \<Rightarrow> bool" where
  "room_law env srv db events pos valid hs room filt \<longleftrightarrow>
     redis_strings srv db \<and> mx_cache env = Some (NewCache srv)
   \<and> (\<forall>w cmd args. events (fst (srv w cmd args)) = events w)
   \<and> (\<forall>m url b w. db (fst (he_do env m url b w)) = db w \<and> prefix (events w) (events (fst (he_do env m url b w))))
   \<and> (\<forall>body l. je_login env body = Inr l \<longrightarrow> valid (Some l))
   \<and> (\<forall>c from w w' resp body res. mx_HSUrl c = hs \<longrightarrow> valid (mx_LoginRes c) \<longrightarrow>
        he_do env ''GET'' (RequestUrl c (RoomMessagesReq room from '''' '''' ''100'' filt)) None w = (w', Inr resp) \<longrightarrow>
        hr_StatusCode resp = 200 \<longrightarrow> hr_Body resp = Inr body \<longrightarrow> je_messages env body = Inr res \<longrightarrow>
        piece (pos from) (order_bodies (rm_Chunk res)) (events w') \<and> pos (rm_End res) = pos from + length (rm_Chunk res))"

definition client_ok :: "(LoginRes option \<Rightarrow> bool) \<Rightarrow> string \<Rightarrow> string \<Rightarrow> MatrixClient \<Rightarrow> bool" where
  "client_ok valid hs u c \<longleftrightarrow> mx_HSUrl c = hs \<and> mx_UserId c = u \<and> valid (mx_LoginRes c)"

definition served ::
  "('w \<Rightarrow> string \<rightharpoonup> rval) \<Rightarrow> ('w \<Rightarrow> RoomEvent list) \<Rightarrow> (LoginRes option \<Rightarrow> bool) \<Rightarrow> string \<Rightarrow> string \<Rightarrow> (string \<rightharpoonup> rval) \<Rightarrow> RoomEvent list
   \<Rightarrow> MatrixClient \<times> 'w \<Rightarrow> bool" where
  "served db events valid hs u T E = (\<lambda>(c, w). client_ok valid hs u c \<and> db w = T \<and> prefix E (events w))"

lemmas served_defs = served_def client_ok_def

lemma keeps_case_reply [keeps_intros]:
  "(\<And>x. r = Reply x \<Longrightarrow> keeps I (f x)) \<Longrightarrow> (\<And>a e. r = Refused a e \<Longrightarrow> keeps I (g a e)) \<Longrightarrow>
   keeps I (case r of Reply x \<Rightarrow> f x | Refused a e \<Rightarrow> g a e)"
  by (simp split: mx_reply.split)

lemma handle_resp_Reply:
  "handle_resp env dec resp = Reply x \<longleftrightarrow> (\<exists>body. hr_Body resp = Inr body \<and> hr_StatusCode resp = 200 \<and> dec body = Inr x)"
  by (simp add: handle_resp_def split: sum.splits if_splits)

lemma Post_Reply:
  assumes "Post env dec req s = (s', Inr (Reply x))"
  shows "\<exists>body. dec body = Inr x"
proof -
  from assms obtain s1 r where "(case r of Inl e \<Rightarrow> sret (Refused None (err_text e)) | Inr resp \<Rightarrow> sbind unlock (\<lambda>_. sret (handle_resp env dec resp))) s1
      = (s', Inr (Reply x))"
    unfolding Post_def by (cases "je_req env req") (simp_all add: sbind_Inr_iff sret_def, blast)
  then show ?thesis
    by (cases r) (auto simp: sbind_Inr_iff sret_def handle_resp_Reply)
qed

lemma Get_Reply:
  assumes "Get env dec req (c, w) = (s', Inr (Reply x))"
  shows "\<exists>w' resp body. he_do env ''GET'' (RequestUrl c req) None w = (w', Inr resp) \<and> s' = (c, w')
    \<and> hr_Body resp = Inr body \<and> hr_StatusCode resp = 200 \<and> dec body = Inr x"
proof -
  obtain w' r where h: "he_do env ''GET'' (RequestUrl c req) None w = (w', r)" by fastforce
  show ?thesis
  proof (cases r)
    case (Inl e)
    then show ?thesis using assms h by (cases e) (simp_all add: Get_def sget_def sret_def)
  next
    case (Inr resp)
    then show ?thesis using assms h by (simp add: Get_def sget_def sret_def handle_resp_Reply)
  qed
qed

text \<open>A request that is repeated after a login: the answer is one that the request itself gave.\<close>

lemma recovering_Reply:
  assumes "keeps I request" "keeps I (Login env)" "\<And>s s' x. I s \<Longrightarrow> request s = (s', Inr (Reply x)) \<Longrightarrow> Q x s'"
    "I s" "recovering env request s = (s', r)"
  shows "I s' \<and> (\<forall>x. r = Inr (Reply x) \<longrightarrow> Q x s')"
proof
  have "keeps I (recovering env request)" unfolding recovering_def by (intro keeps_intros assms(1,2))
  then show "I s'" using assms(4,5) by (metis fst_conv keepsD)
  show "\<forall>x. r = Inr (Reply x) \<longrightarrow> Q x s'"
  proof (intro allI impI)
    fix x assume "r = Inr (Reply x)"
    then obtain s1 r1 where 1: "request s = (s1, Inr r1)" and
      2: "(case r1 of Refused (Some errRes) e \<Rightarrow> if er_Error errRes = UNRECOGNISED_TOKEN_ERROR
            then sbind (stry (Login env)) (\<lambda>err1. case err1 of Inr _ \<Rightarrow> request | Inl _ \<Rightarrow> sret r1) else sret r1 | _ \<Rightarrow> sret r1) s1
         = (s', Inr (Reply x))"
      using assms(5) unfolding recovering_def by (auto simp: sbind_Inr_iff)
    have i: "I s1" using keepsD [OF assms(1,4)] 1 by simp
    show "Q x s'"
    proof (cases r1)
      case (Reply y)
      then show ?thesis using 1 2 assms(3,4) by (auto simp: sret_def)
    next
      case (Refused a e)
      then obtain er where a: "a = Some er" "er_Error er = UNRECOGNISED_TOKEN_ERROR" using 2 by (cases a) (auto simp: sret_def split: if_splits)
      then obtain s2 l where l: "Login env s1 = (s2, l)" "(case l of Inr _ \<Rightarrow> request | Inl _ \<Rightarrow> sret r1) s2 = (s', Inr (Reply x))"
        using 2 Refused by (auto simp: sbind_Inr_iff stry_Inr_iff)
      have "I s2" using keepsD [OF assms(2) i] l(1) by simp
      then show ?thesis using l(2) Refused assms(3) by (cases l) (auto simp: sret_def)
    qed
  qed
qed

lemma answer_run: "answer m s = (s', r) \<Longrightarrow> \<exists>r0. m s = (s', r0) \<and> (\<forall>x. r = Inr x \<longrightarrow> r0 = Inr (Reply x))"
  by (auto simp: answer_def sbind_def sret_def sfail_def split: prod.splits sum.splits mx_reply.splits)

locale matrix_room =
  fixes env :: "'w matrix_env" and srv :: "'w server" and db :: "'w \<Rightarrow> string \<rightharpoonup> rval" and events :: "'w \<Rightarrow> RoomEvent list"
    and pos :: "string \<Rightarrow> nat" and valid :: "LoginRes option \<Rightarrow> bool" and hs :: string and room :: string and filt :: string
  assumes law: "room_law env srv db events pos valid hs room filt"
begin

lemma http_keeps: "keeps (served db events valid hs u T E) (on_snd (he_do env m url b))"
  unfolding keeps_def
proof (intro allI impI)
  fix s assume s: "served db events valid hs u T E s"
  obtain c w where cw: "s = (c, w)" by fastforce
  have "db (fst (he_do env m url b w)) = db w \<and> prefix (events w) (events (fst (he_do env m url b w)))"
    using law unfolding room_law_def by blast
  then show "served db events valid hs u T E (fst (on_snd (he_do env m url b) s))"
    using s cw prefix_order.trans by (auto simp: served_def on_snd_def split: prod.splits)
qed

lemma Post_keeps: "keeps (served db events valid hs u T E) (Post env dec req)"
proof -
  have "keeps (served db events valid hs u T E) lock" "keeps (served db events valid hs u T E) unlock"
    by (auto simp: keeps_def lock_def unlock_def smod_def served_defs)
  then show ?thesis unfolding Post_def by (intro keeps_intros http_keeps)
qed

lemma Login_keeps: "keeps (served db events valid hs u T E) (Login env)"
proof -
  have valid: "valid (Some l)" if "Post env (je_login env) req s = (s', Inr (Reply l))" for req s s' l
    using Post_Reply [OF that] law unfolding room_law_def by blast
  show ?thesis unfolding Login_def keeps_def
  proof (intro allI impI)
    fix s assume s: "served db events valid hs u T E s"
    let ?req = "LoginReq ''m.login.password'' (mx_User (fst s)) (mx_Password (fst s)) '''' ''ip'' ''ip''"
    obtain s1 r where r: "Post env (je_login env) ?req s = (s1, r)" by fastforce
    have "served db events valid hs u T E s1" using keepsD [OF Post_keeps s] r by (metis fst_conv)
    then show "served db events valid hs u T E (fst (sbind (sget fst) (\<lambda>c.
        sbind (Post env (je_login env) (LoginReq ''m.login.password'' (mx_User c) (mx_Password c) '''' ''ip'' ''ip''))
          (\<lambda>r. case r of Refused _ e \<Rightarrow> sfail (Err e) | Reply loginRes \<Rightarrow> smod (\<lambda>(c, w). (c\<lparr>mx_LoginRes := Some loginRes\<rparr>, w)))) s))"
      using r valid [of ?req s s1]
      by (cases r) (auto simp: sget_def sfail_def smod_def served_defs split: mx_reply.splits prod.splits)
  qed
qed

lemma Get_keeps: "keeps (served db events valid hs u T E) (Get env dec req)"
  unfolding Get_def by (intro keeps_intros http_keeps)

lemma Get_page:
  assumes "served db events valid hs u T E s" "Get env (je_messages env) (RoomMessagesReq room from '''' '''' ''100'' filt) s = (s', Inr (Reply res))"
  shows "piece (pos from) (order_bodies (rm_Chunk res)) (events (snd s')) \<and> pos (rm_End res) = pos from + length (rm_Chunk res)"
proof -
  obtain c w where cw: "s = (c, w)" by fastforce
  have "mx_HSUrl c = hs" "valid (mx_LoginRes c)" using assms(1) cw by (simp_all add: served_defs)
  then show ?thesis using Get_Reply [OF assms(2) [unfolded cw]] law unfolding room_law_def by fastforce
qed

lemma RoomMessages_page:
  assumes "served db events valid hs u T E s" "RoomMessages env room from '''' '''' ''100'' filt s = (s', r)"
  shows "served db events valid hs u T E s'
    \<and> (\<forall>res. r = Inr res \<longrightarrow> piece (pos from) (order_bodies (rm_Chunk res)) (events (snd s')) \<and> pos (rm_End res) = pos from + length (rm_Chunk res))"
proof -
  obtain r0 where "recovering env (Get env (je_messages env) (RoomMessagesReq room from '''' '''' ''100'' filt)) s = (s', r0)"
    "\<forall>x. r = Inr x \<longrightarrow> r0 = Inr (Reply x)"
    using answer_run assms(2) unfolding RoomMessages_def GetWithErrRecover_def by blast
  then show ?thesis
    using recovering_Reply [OF Get_keeps Login_keeps _ assms(1), where Q = "\<lambda>res s'. piece (pos from) (order_bodies (rm_Chunk res)) (events (snd s'))
        \<and> pos (rm_End res) = pos from + length (rm_Chunk res)"] Get_page by blast
qed

end

subsection \<open>One call of \<open>Next\<close>\<close>

definition saved :: "('w \<Rightarrow> string \<rightharpoonup> rval) \<Rightarrow> string \<Rightarrow> 'w \<Rightarrow> string" where
  "saved db room w = (case texts db w (CacheKeyLastFrom room) of Some b \<Rightarrow> string_of b | None \<Rightarrow> '''')"

definition sub_inv ::
  "('w \<Rightarrow> string \<rightharpoonup> rval) \<Rightarrow> ('w \<Rightarrow> RoomEvent list) \<Rightarrow> (string \<Rightarrow> nat) \<Rightarrow> (LoginRes option \<Rightarrow> bool) \<Rightarrow> string \<Rightarrow> string \<Rightarrow> string
   \<Rightarrow> MatrixSubscriber \<times> MatrixClient \<times> 'w \<Rightarrow> bool" where
  "sub_inv db events pos valid hs u room = (\<lambda>(s, c, w). client_ok valid hs u c \<and> ms_Room s = room \<and> ms_CacheFrom s
     \<and> saved db room w = ms_From s \<and> pos (ms_From s) \<le> length (events w))"

definition sub_events :: "('w \<Rightarrow> RoomEvent list) \<Rightarrow> MatrixSubscriber \<times> MatrixClient \<times> 'w \<Rightarrow> RoomEvent list" where
  "sub_events events s = events (snd (snd s))"

definition sub_at :: "(string \<Rightarrow> nat) \<Rightarrow> MatrixSubscriber \<times> MatrixClient \<times> 'w \<Rightarrow> nat" where
  "sub_at pos s = pos (ms_From (fst s))"

lemmas sub_defs = sub_inv_def sub_events_def sub_at_def

lemma pool_do_fst: "fst (pool_do srv w cmd args) = fst (srv w cmd args)"
  by (auto simp: pool_do_def split: prod.splits sum.splits reply.splits)

lemma Redis_Set_steps:
  assumes "\<And>w cmd args. f (fst (srv w cmd args)) = f w"
  shows "f (fst (Redis_Set (pool_do srv) k b ttl w)) = f w"
proof -
  have p: "pool_do srv w cmd args = (w', r) \<Longrightarrow> f w' = f w" for w w' cmd args r
    using assms pool_do_fst by (metis fst_conv)
  show ?thesis by (auto simp: Redis_Set_def do_expire_def dest!: p split: prod.splits sum.splits)
qed

context matrix_room
begin

lemma save_from_run:
  assumes "ms_CacheFrom s"
  shows "\<exists>w'. save_from env (s, c, w) = ((s, c, w'), Inr ()) \<and> saved db (ms_Room s) w' = ms_From s \<and> events w' = events w"
proof -
  let ?k = "CacheKeyLastFrom (ms_Room s)" and ?b = "bytes_of (ms_From s)"
  obtain w' x where w': "Redis_Set (pool_do srv) ?k ?b (ms_CacheTtl s) w = (w', x)" by fastforce
  have "redis_strings srv db" using law by (simp add: room_law_def)
  from Redis_Set_db [OF this w'] have x: "x = Inr ()" "db w' = (db w)(?k \<mapsto> VStr ?b)" by simp_all
  have "events w' = events w" using Redis_Set_steps [of events srv ?k ?b "ms_CacheTtl s" w] law w' by (simp add: room_law_def)
  moreover have "cache_call (\<lambda>c. c_Set c ?k ?b (ms_CacheTtl s)) (mx_cache env) w = (w', x)"
    using law w' by (simp add: room_law_def cache_call_def NewCache_def Let_def)
  ultimately show ?thesis
    using assms x by (intro exI [of _ w']) (simp add: save_from_def sget_def sret_def saved_def texts_def)
qed

lemma poll_messages_piece:
  assumes "sub_inv db events pos valid hs u room s" "poll_messages env filt polls s = (s', r)"
  shows "sub_inv db events pos valid hs u room s' \<and> prefix (sub_events events s) (sub_events events s')
    \<and> (case r of Inr (Some res) \<Rightarrow> piece (sub_at pos s) (order_bodies (rm_Chunk res)) (sub_events events s') \<and> sub_at pos s' = sub_at pos s + length (rm_Chunk res)
       | _ \<Rightarrow> sub_at pos s' = sub_at pos s)"
  using assms
proof (induction polls arbitrary: s)
  case 0
  then show ?case by (auto simp: sret_def)
next
  case (Suc polls)
  obtain b c w where s: "s = (b, c, w)" by (cases s)
  have inv: "client_ok valid hs u c" "ms_Room b = room" "ms_CacheFrom b" "saved db room w = ms_From b" "pos (ms_From b) \<le> length (events w)"
    using Suc.prems(1) s by (simp_all add: sub_inv_def)
  obtain c1 w1 p where p: "RoomMessages env room (ms_From b) '''' '''' ''100'' filt (c, w) = ((c1, w1), p)" by (metis surj_pair)
  have "served db events valid hs u (db w) (events w) (c, w)" using inv(1) by (simp add: served_def)
  from RoomMessages_page [OF this p] have page: "client_ok valid hs u c1" "db w1 = db w" "prefix (events w) (events w1)"
    "\<And>res. p = Inr res \<Longrightarrow> piece (pos (ms_From b)) (order_bodies (rm_Chunk res)) (events w1) \<and> pos (rm_End res) = pos (ms_From b) + length (rm_Chunk res)"
    by (auto simp: served_def)
  have len: "length (events w) \<le> length (events w1)" using page(3) by (simp add: prefix_length_le)
  show ?case
  proof (cases p)
    case (Inl e)
    then have "s' = (b, c1, w1)" "r = Inl e" using Suc.prems(2) s inv(2) p by (simp_all add: sget_def)
    then show ?thesis using inv page len s by (auto simp: sub_defs saved_def texts_def)
  next
    case (Inr res)
    let ?b = "b\<lparr>ms_From := rm_End res\<rparr>"
    obtain w2 where w2: "save_from env (?b, c1, w1) = ((?b, c1, w2), Inr ())" "saved db room w2 = rm_End res" "events w2 = events w1"
      using save_from_run [of ?b c1 w1] inv(2,3) by auto
    have pc: "piece (pos (ms_From b)) (order_bodies (rm_Chunk res)) (events w2)" "pos (rm_End res) = pos (ms_From b) + length (rm_Chunk res)"
      using page(4) [OF Inr] w2(3) by simp_all
    have inv2: "sub_inv db events pos valid hs u room (?b, c1, w2)"
      using inv page(1) w2(2) pc by (simp add: sub_inv_def piece_def order_bodies_def)
    show ?thesis
    proof (cases "rm_Chunk res = []")
      case True
      then have "poll_messages env filt polls (?b, c1, w2) = (s', r)"
        using Suc.prems(2) s inv(2) p Inr w2(1) by (simp add: sget_def smod_def)
      from Suc.IH [OF inv2 this] show ?thesis
        using s True pc(2) page(3) w2(3) prefix_order.trans by (auto simp: sub_defs split: sum.splits option.splits)
    next
      case False
      then have "s' = (?b, c1, w2)" "r = Inr (Some res)" using Suc.prems(2) s inv(2) p Inr w2(1) by (simp_all add: sget_def smod_def sret_def)
      then show ?thesis using inv2 pc page(3) w2(3) s by (simp add: sub_events_def sub_at_def)
    qed
  qed
qed

end

locale matrix_subscriber = matrix_room +
  fixes u :: string and polls :: nat
  assumes filter_text: "je_filter env (order_filter u room) = Inr filt"

sublocale matrix_subscriber \<subseteq> feed "MatrixSubscriber_Next env polls" "sub_events events" "sub_at pos" "sub_inv db events pos valid hs u room"
proof
  fix s s' r
  assume inv: "sub_inv db events pos valid hs u room s" and run: "MatrixSubscriber_Next env polls s = (s', r)"
  obtain b c w where s: "s = (b, c, w)" by (cases s)
  have "mx_UserId c = u" "ms_Room b = room" using inv s by (simp_all add: sub_inv_def client_ok_def)
  then obtain p where p: "poll_messages env filt polls s = (s', p)" "r = map_sum id (map_option (\<lambda>r. order_bodies (rm_Chunk r))) p"
    using run s filter_text
    by (cases "poll_messages env filt polls s"; cases "snd (poll_messages env filt polls s)")
      (auto simp: MatrixSubscriber_Next_def sget_def slift_def sret_def)
  show "sub_inv db events pos valid hs u room s' \<and> prefix (sub_events events s) (sub_events events s')
      \<and> (case r of Inr (Some ds) \<Rightarrow> piece (sub_at pos s) ds (sub_events events s') \<and> sub_at pos s' = sub_at pos s + length ds
         | _ \<Rightarrow> sub_at pos s' = sub_at pos s)"
    using poll_messages_piece [OF inv p(1)] p(2) by (auto simp: order_bodies_def split: sum.splits option.splits)
qed (auto simp: sub_defs)

context matrix_subscriber
begin

lemmas calls_deliver = delivers
lemmas call_step = next_step

end

text \<open>A server that answers every request for messages, with a page that is not empty while there are orders behind the position.\<close>

definition room_answers ::
  "'w matrix_env \<Rightarrow> ('w \<Rightarrow> RoomEvent list) \<Rightarrow> (string \<Rightarrow> nat) \<Rightarrow> (LoginRes option \<Rightarrow> bool) \<Rightarrow> string \<Rightarrow> string \<Rightarrow> string \<Rightarrow> bool" where
  "room_answers env events pos valid hs room filt \<longleftrightarrow>
     (\<forall>c from w. mx_HSUrl c = hs \<longrightarrow> valid (mx_LoginRes c) \<longrightarrow> pos from < length (events w) \<longrightarrow>
       (\<exists>w' resp body res. he_do env ''GET'' (RequestUrl c (RoomMessagesReq room from '''' '''' ''100'' filt)) None w = (w', Inr resp)
         \<and> hr_StatusCode resp = 200 \<and> hr_Body resp = Inr body \<and> je_messages env body = Inr res \<and> rm_Chunk res \<noteq> []))"

locale answering_room = matrix_subscriber +
  assumes answers: "room_answers env events pos valid hs room filt" and polling: "0 < polls"
begin

lemma RoomMessages_answered:
  assumes "client_ok valid hs u c" "pos from < length (events w)"
  shows "\<exists>w' res. RoomMessages env room from '''' '''' ''100'' filt (c, w) = ((c, w'), Inr res) \<and> rm_Chunk res \<noteq> []"
proof -
  obtain w' resp body res where "he_do env ''GET'' (RequestUrl c (RoomMessagesReq room from '''' '''' ''100'' filt)) None w = (w', Inr resp)"
    "hr_StatusCode resp = 200" "hr_Body resp = Inr body" "je_messages env body = Inr res" "rm_Chunk res \<noteq> []"
    using assms answers unfolding room_answers_def client_ok_def by blast
  then show ?thesis
    by (intro exI [of _ w'] exI [of _ res])
      (simp add: RoomMessages_def GetWithErrRecover_def answer_def recovering_def Get_def handle_resp_def sget_def sret_def)
qed

lemma Next_answered:
  assumes "sub_inv db events pos valid hs u room s" "sub_at pos s < length (sub_events events s)"
  shows "\<exists>s' ds. MatrixSubscriber_Next env polls s = (s', Inr (Some ds)) \<and> ds \<noteq> []"
proof -
  obtain b c w where s: "s = (b, c, w)" by (cases s)
  have b: "client_ok valid hs u c" "ms_Room b = room" "ms_CacheFrom b" "mx_UserId c = u" "pos (ms_From b) < length (events w)"
    using assms s by (simp_all add: sub_defs client_ok_def)
  obtain w1 res where r: "RoomMessages env room (ms_From b) '''' '''' ''100'' filt (c, w) = ((c, w1), Inr res)" "rm_Chunk res \<noteq> []"
    using RoomMessages_answered b by blast
  obtain w2 where "save_from env (b\<lparr>ms_From := rm_End res\<rparr>, c, w1) = ((b\<lparr>ms_From := rm_End res\<rparr>, c, w2), Inr ())"
    using save_from_run [of "b\<lparr>ms_From := rm_End res\<rparr>" c w1] b(3) by auto
  moreover obtain p where "polls = Suc p" using polling by (cases polls) auto
  ultimately show ?thesis
    using s b r filter_text by (simp add: MatrixSubscriber_Next_def sget_def slift_def smod_def sret_def order_bodies_def)
qed

end

sublocale answering_room \<subseteq> live_feed "MatrixSubscriber_Next env polls" "sub_events events" "sub_at pos" "sub_inv db events pos valid hs u room"
  by unfold_locales (rule Next_answered)

context answering_room
begin

lemmas calls_reach = reaches

end

subsection \<open>Restarts\<close>

text \<open>One run of a process: it reads the saved position and calls \<open>Next\<close> so many times, looking at so many requests in each call.\<close>

definition start_at :: "string \<Rightarrow> int \<Rightarrow> string \<Rightarrow> MatrixSubscriber" where
  "start_at room ttl from = \<lparr>ms_Room = room, ms_From = from, ms_CacheFrom = True, ms_CacheTtl = ttl\<rparr>"

definition session ::
  "'w matrix_env \<Rightarrow> string \<Rightarrow> int \<Rightarrow> MatrixClient \<Rightarrow> nat \<Rightarrow> nat \<Rightarrow> 'w \<Rightarrow> (MatrixSubscriber \<times> MatrixClient \<times> 'w) \<times> string \<times> bytes list" where
  "session env room ttl c polls n w =
    (case first_from env True room w of
       (w, Inl e) \<Rightarrow> ((start_at room ttl '''', c, w), '''', [])
     | (w, Inr from) \<Rightarrow> (case next_all (MatrixSubscriber_Next env polls) n (start_at room ttl from, c, w) of (s, ds) \<Rightarrow> (s, from, ds)))"

text \<open>
  A process that is stopped and started again. It may be stopped at any point: between two calls of \<open>Next\<close>, or inside a call after any number of its requests (\<open>run_cut\<close>),
  so that a position may be saved whose page is never handed over. While it is down, orders arrive and the saved position may expire (\<open>run_pause\<close>). A position that
  expires while the process runs is of no account to it, since it reads the saved one only at its start. Each run has a client
  of its own. What is recorded of a run is the position it started at, the orders it handed over, and those of the page that was lost.
\<close>

record 'w run =
  run_client :: MatrixClient
  run_polls :: nat
  run_calls :: nat
  run_cut :: nat
  run_pause :: "'w \<Rightarrow> 'w"

record outcome =
  oc_from :: string
  oc_orders :: "bytes list"
  oc_lost :: "bytes list"

fun runs :: "'w matrix_env \<Rightarrow> string \<Rightarrow> int \<Rightarrow> 'w run list \<Rightarrow> 'w \<Rightarrow> 'w \<times> outcome list" where
  "runs env room ttl [] w = (w, [])"
| "runs env room ttl (r # rest) w =
    (case session env room ttl (run_client r) (run_polls r) (run_calls r) w of
       (s, from, ds) \<Rightarrow> (case MatrixSubscriber_Next env (run_cut r) s of
         ((b, c, w), got) \<Rightarrow> (case runs env room ttl rest (run_pause r w) of
           (w, os) \<Rightarrow> (w, \<lparr>oc_from = from, oc_orders = ds, oc_lost = (case got of Inr (Some lost) \<Rightarrow> lost | _ \<Rightarrow> [])\<rparr> # os))))"

text \<open>While the process is down, orders are only added to the room and the saved position stays or vanishes.\<close>

definition pause_law :: "('w \<Rightarrow> string \<rightharpoonup> rval) \<Rightarrow> ('w \<Rightarrow> RoomEvent list) \<Rightarrow> string \<Rightarrow> 'w run \<Rightarrow> bool" where
  "pause_law db events room r \<longleftrightarrow> (\<forall>w. prefix (events w) (events (run_pause r w))
     \<and> (saved db room (run_pause r w) = saved db room w \<or> saved db room (run_pause r w) = ''''))"

definition expires :: "('w \<Rightarrow> string \<rightharpoonup> rval) \<Rightarrow> string \<Rightarrow> 'w run \<Rightarrow> bool" where
  "expires db room r \<longleftrightarrow> (\<exists>w. saved db room (run_pause r w) \<noteq> saved db room w)"

lemma Redis_Get_steps:
  assumes "\<And>w cmd args. f (fst (srv w cmd args)) = f w"
  shows "f (fst (Redis_Get (pool_do srv) k w)) = f w"
proof -
  have "pool_do srv w cmd args = (w', r) \<Longrightarrow> f w' = f w" for w w' cmd args r
    using assms pool_do_fst by (metis fst_conv)
  then show ?thesis by (auto simp: Redis_Get_def split: prod.splits sum.splits)
qed

sublocale matrix_room \<subseteq> redis_server srv db
  using law by unfold_locales (simp add: room_law_def)

context matrix_room
begin

lemma first_from_saved: "\<exists>w'. first_from env True room w = (w', Inr (saved db room w)) \<and> saved db room w' = saved db room w \<and> events w' = events w"
proof -
  let ?k = "CacheKeyLastFrom room"
  obtain w' r where get: "Redis_Get (pool_do srv) ?k w = (w', r)" "texts db w' = texts db w"
    "case texts db w ?k of Some b \<Rightarrow> r = Inr b | None \<Rightarrow> \<exists>e. r = Inl (Err e)"
    using get_law [of ?k w] by blast
  have "events w' = events w" using Redis_Get_steps [of events srv ?k w] law get(1) by (simp add: room_law_def)
  moreover have "cache_call (\<lambda>c. c_Get c ?k) (mx_cache env) w = (w', r)"
    using law get(1) by (simp add: room_law_def cache_call_def NewCache_def Let_def)
  ultimately show ?thesis
    using get by (intro exI [of _ w']) (auto simp: first_from_def sret_def saved_def split: option.splits)
qed

lemma session_run:
  assumes "je_filter env (order_filter u room) = Inr filt" "client_ok valid hs u c" "pos (saved db room w) \<le> length (events w)"
    "session env room ttl c polls n w = (s, from, ds)"
  shows "from = saved db room w \<and> sub_inv db events pos valid hs u room s \<and> prefix (events w) (sub_events events s)
    \<and> piece (pos from) ds (sub_events events s) \<and> sub_at pos s = pos from + length ds"
proof -
  obtain w1 where w1: "first_from env True room w = (w1, Inr (saved db room w))" "saved db room w1 = saved db room w" "events w1 = events w"
    using first_from_saved by blast
  then have run: "next_all (MatrixSubscriber_Next env polls) n (start_at room ttl (saved db room w), c, w1) = (s, ds)" and fr: "from = saved db room w"
    using assms(4) by (auto simp: session_def split: prod.splits)
  have sub: "matrix_subscriber env srv db events pos valid hs room filt u"
    using assms(1) by (intro matrix_subscriber.intro matrix_room_axioms matrix_subscriber_axioms.intro)
  have "sub_inv db events pos valid hs u room (start_at room ttl (saved db room w), c, w1)"
    using assms(2,3) w1(2,3) by (simp add: sub_inv_def start_at_def)
  from matrix_subscriber.calls_deliver [OF sub this run] show ?thesis
    using w1(3) fr by (simp add: sub_events_def sub_at_def start_at_def)
qed

lemma Next_no_request: "snd (MatrixSubscriber_Next env 0 s) \<noteq> Inr (Some ds)"
  by (cases s) (auto simp: MatrixSubscriber_Next_def sbind_def sget_def slift_def sret_def split: sum.splits prod.splits)

lemma cut_call:
  assumes "je_filter env (order_filter u room) = Inr filt" "sub_inv db events pos valid hs u room s"
    "MatrixSubscriber_Next env k s = ((b, c, w'), got)" "lost = (case got of Inr (Some ds) \<Rightarrow> ds | _ \<Rightarrow> [])"
  shows "prefix (sub_events events s) (events w') \<and> piece (sub_at pos s) lost (events w') \<and> pos (saved db room w') = sub_at pos s + length lost
    \<and> pos (saved db room w') \<le> length (events w') \<and> (lost \<noteq> [] \<longrightarrow> 0 < k)"
proof -
  have sub: "matrix_subscriber env srv db events pos valid hs room filt u"
    using assms(1) by (intro matrix_subscriber.intro matrix_room_axioms matrix_subscriber_axioms.intro)
  note st = matrix_subscriber.call_step [OF sub assms(2,3)]
  have "lost = [] \<or> 0 < k" using Next_no_request [of s lost] assms(3,4) by (cases k) (auto split: sum.splits option.splits)
  then show ?thesis
    using st assms(4) by (auto simp: sub_defs split: sum.splits option.splits)
qed

lemma runs_outcomes:
  assumes "je_filter env (order_filter u room) = Inr filt" "\<forall>r \<in> set rs. client_ok valid hs u (run_client r) \<and> pause_law db events room r"
    "pos (saved db room w) \<le> length (events w)" "pos '''' \<le> length (events w)" "runs env room ttl rs w = (w', os)"
  shows "length os = length rs \<and> prefix (events w) (events w') \<and> (os \<noteq> [] \<longrightarrow> oc_from (os ! 0) = saved db room w)
    \<and> (\<forall>i < length os. piece (pos (oc_from (os ! i))) (oc_orders (os ! i) @ oc_lost (os ! i)) (events w')
         \<and> (oc_lost (os ! i) \<noteq> [] \<longrightarrow> 0 < run_cut (rs ! i)))
    \<and> (\<forall>i. Suc i < length os \<longrightarrow>
         pos (oc_from (os ! Suc i)) = pos (oc_from (os ! i)) + length (oc_orders (os ! i)) + length (oc_lost (os ! i))
       \<or> oc_from (os ! Suc i) = '''' \<and> expires db room (rs ! i))"
  using assms(2-5)
proof (induction rs arbitrary: w os)
  case Nil
  then show ?case by simp
next
  case (Cons r rs)
  obtain s fr ds where s: "session env room ttl (run_client r) (run_polls r) (run_calls r) w = (s, fr, ds)" by (metis surj_pair)
  obtain b c w1 got where cut: "MatrixSubscriber_Next env (run_cut r) s = ((b, c, w1), got)" by (metis surj_pair)
  define lost where "lost = (case got of Inr (Some ds) \<Rightarrow> ds | _ \<Rightarrow> [])"
  let ?w = "run_pause r w1"
  obtain os' where os': "runs env room ttl rs ?w = (w', os')" "os = \<lparr>oc_from = fr, oc_orders = ds, oc_lost = lost\<rparr> # os'"
    using Cons.prems(4) s cut by (auto simp: lost_def split: prod.splits)
  note one = session_run [OF assms(1) _ Cons.prems(2) s] and two = cut_call [OF assms(1) _ cut lost_def]
  have run: "fr = saved db room w" "prefix (events w) (events w1)" "piece (pos fr) (ds @ lost) (events w1)"
    "pos (saved db room w1) = pos fr + length ds + length lost" "pos (saved db room w1) \<le> length (events w1)" "lost \<noteq> [] \<longrightarrow> 0 < run_cut r"
    using one two Cons.prems(1) piece_append [of "pos fr" ds "events w1" lost] piece_prefix [of "pos fr" ds "sub_events events s" "events w1"]
      prefix_order.trans by auto
  have pause: "prefix (events w1) (events ?w)" "saved db room ?w = saved db room w1 \<or> saved db room ?w = '''' \<and> expires db room r"
    using Cons.prems(1) by (auto simp: pause_law_def expires_def)
  have len: "length (events w) \<le> length (events w1)" "length (events w1) \<le> length (events ?w)"
    using run(2) pause(1) by (auto dest: prefix_length_le)
  have IH: "length os' = length rs \<and> prefix (events ?w) (events w') \<and> (os' \<noteq> [] \<longrightarrow> oc_from (os' ! 0) = saved db room ?w)
    \<and> (\<forall>i < length os'. piece (pos (oc_from (os' ! i))) (oc_orders (os' ! i) @ oc_lost (os' ! i)) (events w')
         \<and> (oc_lost (os' ! i) \<noteq> [] \<longrightarrow> 0 < run_cut (rs ! i)))
    \<and> (\<forall>i. Suc i < length os' \<longrightarrow>
         pos (oc_from (os' ! Suc i)) = pos (oc_from (os' ! i)) + length (oc_orders (os' ! i)) + length (oc_lost (os' ! i))
       \<or> oc_from (os' ! Suc i) = '''' \<and> expires db room (rs ! i))"
    by (rule Cons.IH [OF _ _ _ os'(1)]) (use Cons.prems run(5) pause(2) len in auto)
  have pre: "prefix (events w1) (events w')" using pause(1) IH prefix_order.trans by blast
  show ?case
  proof (intro conjI allI impI)
    fix i assume i: "Suc i < length os"
    show "pos (oc_from (os ! Suc i)) = pos (oc_from (os ! i)) + length (oc_orders (os ! i)) + length (oc_lost (os ! i))
       \<or> oc_from (os ! Suc i) = '''' \<and> expires db room ((r # rs) ! i)"
    proof (cases i)
      case 0
      then have "oc_from (os ! Suc i) = saved db room ?w" using IH i os'(2) by auto
      then show ?thesis using 0 pause(2) run(4) os'(2) by auto
    next
      case (Suc j)
      then show ?thesis using IH i os'(2) by simp
    qed
  next
    fix i assume i: "i < length os"
    show "piece (pos (oc_from (os ! i))) (oc_orders (os ! i) @ oc_lost (os ! i)) (events w')"
      using i IH os'(2) run(3) piece_prefix [OF _ pre] by (cases i) simp_all
    show "oc_lost (os ! i) \<noteq> [] \<Longrightarrow> 0 < run_cut ((r # rs) ! i)"
      using i IH os'(2) run(6) by (cases i) simp_all
  qed (use IH os'(2) run(1,2) pre prefix_order.trans in auto)
qed

end

context answering_room
begin

lemma session_complete:
  assumes "client_ok valid hs u c" "pos (saved db room w) \<le> length (events w)" "length (events w) \<le> pos (saved db room w) + n"
    "session env room ttl c polls n w = (s, from, ds)"
  shows "prefix (order_bodies (drop (pos (saved db room w)) (events w))) ds"
proof -
  obtain w1 where w1: "first_from env True room w = (w1, Inr (saved db room w))" "saved db room w1 = saved db room w" "events w1 = events w"
    using first_from_saved by blast
  let ?s = "(start_at room ttl (saved db room w1), c, w1)"
  have w2: "next_all (MatrixSubscriber_Next env polls) n ?s = (s, ds)"
    using assms(4) w1(1,2) by (auto simp: session_def split: prod.splits)
  have inv: "sub_inv db events pos valid hs u room ?s" using assms(1,2) w1(2,3) by (simp add: sub_inv_def start_at_def)
  have "length (events w) \<le> sub_at pos s"
    using calls_reach [OF inv _ _ w2, of "length (events w)"] assms(3) w1(2,3) by (simp add: sub_events_def sub_at_def start_at_def)
  moreover have "sub_at pos s = pos (saved db room w) + length ds" "piece (pos (saved db room w)) ds (sub_events events s)" "prefix (events w) (sub_events events s)"
    using calls_deliver [OF inv w2] w1(2,3) by (simp_all add: sub_events_def sub_at_def start_at_def)
  ultimately show ?thesis using piece_covers by simp
qed

end

subsection \<open>A server that keeps the laws\<close>

text \<open>A home server with three orders in its room, which it hands out in two pages, next to a Redis server. Positions are texts.\<close>

definition demo_event :: "string \<Rightarrow> RoomEvent" where
  "demo_event body = \<lparr>ev_Content = \<lparr>mc_Body = body, mc_MsgType = LoopringOrderType\<rparr>, ev_Type = LoopringOrderType, ev_EventId = ''$1'',
     ev_RoomId = ''!r'', ev_Sender = ''@o'', ev_OriginServerTs = 0,
     ev_Unsigned = \<lparr>ud_Age = 0, ud_RedactedContent = \<lparr>mc_Body = '''', mc_MsgType = ''''\<rparr>, ud_RedactedType = '''', ud_TransactionId = ''''\<rparr>\<rparr>"

definition demo_login :: LoginRes where
  "demo_login = \<lparr>lr_UserId = ''@u'', lr_AccessToken = ''t'', lr_HomeServer = ''h'', lr_DeviceId = ''ip''\<rparr>"

definition demo_client :: MatrixClient where
  "demo_client = \<lparr>mx_HSUrl = ''h'', mx_User = ''u'', mx_Password = ''p'', mx_LoginRes = Some demo_login, mx_UserId = ''@u'', mx_locked = False\<rparr>"

definition demo_url :: "string \<Rightarrow> string" where
  "demo_url from = RequestUrl demo_client (RoomMessagesReq ''!r'' from '''' '''' ''100'' ''F'')"

definition demo_http :: "string \<Rightarrow> string \<Rightarrow> string option \<Rightarrow> (string \<rightharpoonup> rval, http_resp) st" where
  "demo_http m url b w =
    (w, if url = demo_url '''' then Inr \<lparr>hr_StatusCode = 200, hr_Body = Inr ''A''\<rparr>
        else if url = demo_url ''p2'' then Inr \<lparr>hr_StatusCode = 200, hr_Body = Inr ''B''\<rparr>
        else Inl (Err ''unreachable''))"

definition demo_messages :: "string \<Rightarrow> RoomMessagesRes res" where
  "demo_messages body =
    (if body = ''A'' then Inr \<lparr>rm_Start = '''', rm_End = ''p2'', rm_Chunk = [demo_event ''x'', demo_event ''y'']\<rparr>
     else if body = ''B'' then Inr \<lparr>rm_Start = ''p2'', rm_End = ''p3'', rm_Chunk = [demo_event ''z'']\<rparr>
     else Inl (Err ''json''))"

definition demo_room :: "(string \<rightharpoonup> rval) matrix_env" where
  "demo_room = \<lparr>he_do = demo_http, he_NewRequest = (\<lambda>_. Inr ()), je_req = (\<lambda>_. Inr ''{}''), je_filter = (\<lambda>_. Inr ''F''),
     je_error = (\<lambda>_. Inl (Err ''json'')), je_login = (\<lambda>_. Inr demo_login), je_join = Inr, je_messages = demo_messages, je_send = Inr,
     je_whoami = Inr, je_joined = (\<lambda>_. Inr []), mx_cache = Some (NewCache mem_redis), mx_rooms = (\<lambda>x. x), mx_joined = (\<lambda>x. x)\<rparr>"

definition demo_events :: "(string \<rightharpoonup> rval) \<Rightarrow> RoomEvent list" where
  "demo_events w = [demo_event ''x'', demo_event ''y'', demo_event ''z'']"

definition demo_pos :: "string \<Rightarrow> nat" where
  "demo_pos from = (if from = '''' then 0 else if from = ''p2'' then 2 else 3)"

definition demo_valid :: "LoginRes option \<Rightarrow> bool" where
  "demo_valid l \<longleftrightarrow> l = Some demo_login"

lemma demo_request:
  "mx_HSUrl c = ''h'' \<Longrightarrow> mx_LoginRes c = Some demo_login \<Longrightarrow> RequestUrl c (RoomMessagesReq ''!r'' from '''' '''' ''100'' ''F'') = demo_url from"
  by (simp add: demo_url_def RequestUrl_def demo_client_def Let_def)

lemma demo_url_inj [simp]: "demo_url from = demo_url from' \<longleftrightarrow> from = from'"
  by (auto simp: demo_url_def RequestUrl_def demo_client_def demo_login_def RoomMessagesReq_Params_def param_def split: if_splits)

lemmas demo_defs = demo_room_def demo_http_def demo_messages_def demo_events_def demo_pos_def demo_valid_def order_bodies_def piece_def

lemma demo_room_law: "room_law demo_room mem_redis (\<lambda>w. w) demo_events demo_pos demo_valid ''h'' ''!r'' ''F''"
  unfolding room_law_def
proof (intro conjI allI impI)
  fix c :: MatrixClient and start :: string and w w' :: "string \<rightharpoonup> rval" and resp body res
  assume "mx_HSUrl c = ''h''" "demo_valid (mx_LoginRes c)"
    "he_do demo_room ''GET'' (RequestUrl c (RoomMessagesReq ''!r'' start '''' '''' ''100'' ''F'')) None w = (w', Inr resp)"
    "hr_StatusCode resp = 200" "hr_Body resp = Inr body" "je_messages demo_room body = Inr res"
  then show "piece (demo_pos start) (order_bodies (rm_Chunk res)) (demo_events w')" "demo_pos (rm_End res) = demo_pos start + length (rm_Chunk res)"
    by (auto simp: demo_defs demo_request split: if_splits)
qed (use mem_redis_spec in \<open>auto simp: redis_spec_def demo_room_def demo_events_def demo_http_def demo_valid_def\<close>)

lemma demo_room_answers: "room_answers demo_room demo_events demo_pos demo_valid ''h'' ''!r'' ''F''"
  unfolding room_answers_def by (auto simp: demo_defs demo_request)

interpretation demo_subscriber: answering_room demo_room mem_redis "\<lambda>w. w" demo_events demo_pos demo_valid "''h''" "''!r''" "''F''" "''@u''" "Suc 0"
  using demo_room_law demo_room_answers by unfold_locales (simp_all add: demo_room_def)

subsection \<open>What is delivered\<close>

text \<open>Claim C5: the subscriber of a room that saves its position, over any number of runs of the process, each stopped at any point, also inside a call of \<open>Next\<close>, and with the saved
  position possibly expiring while the process is down. The orders that a run hands over, followed by those of the page that was lost when it was stopped, are the orders of the room
  from the position on where the run started, in the order of the server, none left out and none twice, whatever requests fail, whatever answers are refused and however
  often the client has to log in again. A page is lost only when the process was stopped inside a call. The first run starts at the saved position; every other starts behind the last order
  that the run before it handed over or lost, or, only when the position has expired, at the beginning. The cache is taken to answer.\<close>

theorem matrix_sessions_deliver:
  assumes "room_law env srv db events pos valid hs room filt" "je_filter env (order_filter u room) = Inr filt"
    "\<forall>r \<in> set rs. client_ok valid hs u (run_client r) \<and> pause_law db events room r"
    "pos (saved db room w) \<le> length (events w)" "pos '''' \<le> length (events w)" "runs env room ttl rs w = (w', os)"
  shows "length os = length rs \<and> prefix (events w) (events w') \<and> (os \<noteq> [] \<longrightarrow> oc_from (os ! 0) = saved db room w)
    \<and> (\<forall>i < length os. let o1 = os ! i; n = length (oc_orders o1) + length (oc_lost o1) in
         oc_orders o1 @ oc_lost o1 = order_bodies (take n (drop (pos (oc_from o1)) (events w')))
       \<and> (oc_lost o1 \<noteq> [] \<longrightarrow> 0 < run_cut (rs ! i))
       \<and> (Suc i < length os \<longrightarrow> pos (oc_from (os ! Suc i)) = pos (oc_from o1) + n \<or> oc_from (os ! Suc i) = '''' \<and> expires db room (rs ! i)))"
  using matrix_room.runs_outcomes [OF matrix_room.intro [OF assms(1)] assms(2-6)] by (auto simp: piece_def Let_def add.assoc)

text \<open>Two runs: the first hands over nothing and is stopped inside its first call, after the position was saved, so that the first page is lost; the second hands over the rest.\<close>

definition demo_runs :: "(string \<rightharpoonup> rval) run list" where
  "demo_runs = [\<lparr>run_client = demo_client, run_polls = 1, run_calls = 0, run_cut = 1, run_pause = (\<lambda>w. w)\<rparr>,
     \<lparr>run_client = demo_client, run_polls = 1, run_calls = 1, run_cut = 0, run_pause = (\<lambda>w. w)\<rparr>]"

lemma demo_runs_outcomes:
  "snd (runs demo_room ''!r'' 0 demo_runs Map.empty)
   = [\<lparr>oc_from = '''', oc_orders = [], oc_lost = [bytes_of ''x'', bytes_of ''y'']\<rparr>, \<lparr>oc_from = ''p2'', oc_orders = [bytes_of ''z''], oc_lost = []\<rparr>]"
  by code_simp

theorem matrix_sessions_deliver_witness:
  "\<exists>os. snd (runs demo_room ''!r'' 0 demo_runs Map.empty) = os \<and> length os = 2 \<and> oc_lost (os ! 0) = [bytes_of ''x'', bytes_of ''y'']
     \<and> demo_pos (oc_from (os ! 1)) = demo_pos (oc_from (os ! 0)) + 2"
proof -
  have "\<forall>r \<in> set demo_runs. client_ok demo_valid ''h'' ''@u'' (run_client r) \<and> pause_law (\<lambda>w. w) demo_events ''!r'' r"
    by (simp add: demo_runs_def client_ok_def demo_client_def demo_valid_def pause_law_def)
  moreover have "je_filter demo_room (order_filter ''@u'' ''!r'') = Inr ''F''" "demo_pos (saved (\<lambda>w. w) ''!r'' Map.empty) \<le> length (demo_events Map.empty)"
    "demo_pos '''' \<le> length (demo_events Map.empty)"
    by (simp_all add: demo_room_def saved_def texts_def demo_pos_def demo_events_def)
  moreover obtain w' where w': "runs demo_room ''!r'' 0 demo_runs Map.empty
      = (w', [\<lparr>oc_from = '''', oc_orders = [], oc_lost = [bytes_of ''x'', bytes_of ''y'']\<rparr>, \<lparr>oc_from = ''p2'', oc_orders = [bytes_of ''z''], oc_lost = []\<rparr>])"
    using demo_runs_outcomes by (metis prod.collapse)
  ultimately show ?thesis
    using matrix_sessions_deliver [OF demo_room_law, of "''@u''" demo_runs Map.empty 0] by (fastforce simp: Let_def)
qed

text \<open>Claim C20: a run of the process in which the server answers delivers every order that is in the room when it starts: as many calls of \<open>Next\<close> as there are orders behind the
  saved position are enough, and what is delivered begins with them.\<close>

theorem matrix_session_complete:
  assumes "room_law env srv db events pos valid hs room filt" "je_filter env (order_filter u room) = Inr filt"
    "room_answers env events pos valid hs room filt" "0 < polls"
    "client_ok valid hs u c" "pos (saved db room w) \<le> length (events w)" "length (events w) \<le> pos (saved db room w) + n"
    "session env room ttl c polls n w = (s, from, ds)"
  shows "prefix (order_bodies (drop (pos (saved db room w)) (events w))) ds"
proof -
  have "answering_room env srv db events pos valid hs room filt u polls"
    using assms(1-4) by (simp add: answering_room_def matrix_subscriber_def matrix_room_def matrix_subscriber_axioms_def answering_room_axioms_def)
  then show ?thesis using assms(5-8) by (rule answering_room.session_complete)
qed

theorem matrix_session_complete_witness:
  "prefix [bytes_of ''x'', bytes_of ''y'', bytes_of ''z''] (snd (snd (session demo_room ''!r'' 0 demo_client 1 3 Map.empty)))"
  using matrix_session_complete [OF demo_room_law _ demo_room_answers, of "''@u''" 1 demo_client Map.empty 3 0]
  by (cases "session demo_room ''!r'' 0 demo_client 1 3 Map.empty")
    (auto simp: demo_room_def client_ok_def demo_client_def demo_valid_def saved_def texts_def demo_pos_def demo_events_def order_bodies_def demo_event_def)

subsection \<open>The mutex of the client\<close>

text \<open>A request that the transport refuses returns before its lock is released, and every later request that takes the lock waits for it.\<close>

lemma RequestUrl_locked [simp]: "RequestUrl (c\<lparr>mx_locked := b\<rparr>) req = RequestUrl c req"
  by (cases "mx_LoginRes c") (simp_all add: RequestUrl_def Let_def)

lemma Put_transport_error:
  assumes "je_req env req = Inr reqData" "\<not> mx_locked c" "he_NewRequest env (RequestUrl c req) = Inr ()"
    "he_do env ''PUT'' (RequestUrl c req) (Some reqData) w = (w', Inl (Err e))"
  shows "Put env dec req (c, w) = ((c\<lparr>mx_locked := True\<rparr>, w'), Inr (Refused None e))"
  using assms by (simp add: Put_def lock_def sbind_def sget_def stry_def on_snd_def sret_def err_text_def)

lemma Post_transport_error:
  assumes "je_req env req = Inr reqData" "\<not> mx_locked c" "he_do env ''POST'' (RequestUrl c req) (Some reqData) w = (w', Inl (Err e))"
  shows "Post env dec req (c, w) = ((c\<lparr>mx_locked := True\<rparr>, w'), Inr (Refused None e))"
  using assms by (simp add: Post_def lock_def sbind_def sget_def stry_def on_snd_def sret_def err_text_def)

lemma locked_blocks:
  assumes "mx_locked c" "je_req env req = Inr reqData"
  shows "Put env dec req (c, w) = ((c, w), Inl blocks_forever)" "Post env dec req (c, w) = ((c, w), Inl blocks_forever)"
  using assms by (simp_all add: Put_def Post_def lock_def sbind_def)

lemma SendMessages_blocked:
  assumes "mx_locked c" "je_req env (SendMessageReq room ty hash mt body) = Inr reqData"
  shows "SendMessages env room ty hash mt body (c, w) = ((c, w), Inl blocks_forever)"
  using assms by (simp add: SendMessages_def answer_def PutWithErrRecover_def recovering_def sbind_def locked_blocks)

lemma SendMessages_transport_error:
  assumes "je_req env (SendMessageReq room ty hash mt body) = Inr reqData" "\<not> mx_locked c" "\<And>url. he_NewRequest env url = Inr ()"
    "he_do env ''PUT'' (RequestUrl c (SendMessageReq room ty hash mt body)) (Some reqData) w = (w', Inl (Err e))"
  shows "SendMessages env room ty hash mt body (c, w) = ((c\<lparr>mx_locked := True\<rparr>, w'), Inl (Err e))"
  using Put_transport_error [OF assms, of "je_send env"]
  by (simp add: SendMessages_def answer_def PutWithErrRecover_def recovering_def sbind_def sret_def sfail_def)

text \<open>An order that is published to several rooms, when the transport refuses the requests: the publisher does not go on with the other rooms and report the
  errors, as its loop means to, but blocks for ever at the second room, on the mutex that the first request has left locked.\<close>

lemma publisher_blocks:
  assumes "\<And>room. \<exists>d. je_req env (SendMessageReq room LoopringOrderType hash LoopringOrderType (string_of orderData)) = Inr d"
    "\<And>url. he_NewRequest env url = Inr ()" "\<And>url b w. \<exists>w' e. he_do env ''PUT'' url b w = (w', Inl (Err e))"
  shows "\<exists>s'. MatrixPublisher_PubOrder env (room # room' # rooms) hash orderData (c, w) = (s', Inl blocks_forever)"
proof -
  let ?send = "\<lambda>room. SendMessages env room LoopringOrderType hash LoopringOrderType (string_of orderData)"
  have blocked: "?send r (c, w) = ((c, w), Inl blocks_forever)" if "mx_locked c" for r c w
    using assms(1) [of r] by (auto intro: SendMessages_blocked [OF that])
  show ?thesis
  proof (cases "mx_locked c")
    case True
    then show ?thesis using blocked [OF True, of room w]
      by (simp add: MatrixPublisher_PubOrder_def stry_def sbind_def blocks_forever_def)
  next
    case False
    obtain d where d: "je_req env (SendMessageReq room LoopringOrderType hash LoopringOrderType (string_of orderData)) = Inr d" using assms(1) by blast
    obtain w1 e where "?send room (c, w) = ((c\<lparr>mx_locked := True\<rparr>, w1), Inl (Err e))"
      using SendMessages_transport_error [OF d False assms(2)] assms(3) by blast
    moreover have "?send room' (c\<lparr>mx_locked := True\<rparr>, w1) = ((c\<lparr>mx_locked := True\<rparr>, w1), Inl blocks_forever)"
      by (rule blocked) simp
    ultimately show ?thesis by (simp add: MatrixPublisher_PubOrder_def stry_def sbind_def sget_def blocks_forever_def)
  qed
qed

end
