(* ===== verification/Broadcast.thy ===== *)
theory Broadcast
  imports Matrix_Feed Event_Bus
begin

section \<open>The order broadcaster (\<open>broadcast/interface.go\<close>, \<open>default.go\<close>)\<close>

text \<open>
  Publishing one order to all publishers, each in a goroutine of its own, and merging the orders of all subscribers into one unbounded channel. Both are step
  relations over the goroutines: a call of a publisher or subscriber is one step on the shared world, and a step of a goroutine may come at any time. The
  interfaces \<open>Publisher\<close> and \<open>Subscriber\<close> are records of their methods.
\<close>

record 'w Publisher =
  pub_Name :: string
  pub_PubOrder :: "string \<Rightarrow> bytes \<Rightarrow> ('w, string option) st"

text \<open>\<open>Next\<close> with result \<open>None\<close> has not returned: it has done a part of its work and goes on with the next step of its goroutine.\<close>

record 'w Subscriber =
  sub_Name :: string
  sub_Next :: "('w, bytes list option) st"

record 'w Broadcaster =
  bc_publishers :: "'w Publisher list"
  bc_subscribers :: "'w Subscriber list"

definition broadcast_Initialize :: "'w Publisher list \<Rightarrow> 'w Subscriber list \<Rightarrow> 'w Broadcaster option \<Rightarrow> 'w Broadcaster option" where
  "broadcast_Initialize publishers subscribers broadcaster =
    (if length publishers > 0 \<or> length subscribers > 0 then Some \<lparr>bc_publishers = publishers, bc_subscribers = subscribers\<rparr> else broadcaster)"

definition broadcast_IsInit :: "'w Broadcaster option \<Rightarrow> bool" where
  "broadcast_IsInit broadcaster \<longleftrightarrow> broadcaster \<noteq> None"

definition DefaultPublisher :: "'w Publisher" where
  "DefaultPublisher = \<lparr>pub_Name = ''defaultPublisher'', pub_PubOrder = (\<lambda>hash orderData. sret None)\<rparr>"

text \<open>\<open>PubOrderError.Error\<close>: the marshalled map where the map itself is nil, and otherwise the text of the error of the marshaller, whose absence is a nil pointer.\<close>

definition PubOrderError_Error :: "((string \<rightharpoonup> string) option \<Rightarrow> string res) \<Rightarrow> (string \<rightharpoonup> string) option \<Rightarrow> string res" where
  "PubOrderError_Error marshal err =
    (case err of
       None \<Rightarrow> Inr (case marshal err of Inr data \<Rightarrow> data | Inl e \<Rightarrow> '''')
     | Some m \<Rightarrow> (case marshal err of Inl (Err e) \<Rightarrow> Inr e | Inl (Panic p) \<Rightarrow> Inl (Panic p) | Inr data \<Rightarrow> Inl (Panic NilDeref)))"

subsection \<open>Publishing\<close>

text \<open>A goroutine of \<open>PubOrder\<close> is in the call of its publisher, has an error to report, holds the mutex, has written the error, or is done.
  \<open>pr_results\<close> records what the calls returned.\<close>

datatype pub_go = Calling | Failed string | Locked string | Written string | Done

record 'w pub_run =
  pr_world :: 'w
  pr_gos :: "pub_go list"
  pr_mutex :: "nat option"
  pr_errs :: "(string \<rightharpoonup> string) option"
  pr_results :: "nat \<rightharpoonup> string option"

definition PubOrder_start :: "'w Publisher list \<Rightarrow> 'w \<Rightarrow> 'w pub_run" where
  "PubOrder_start publishers w =
     \<lparr>pr_world = w, pr_gos = map (\<lambda>_. Calling) publishers, pr_mutex = None, pr_errs = None, pr_results = Map.empty\<rparr>"

definition put_err :: "string \<Rightarrow> string \<Rightarrow> (string \<rightharpoonup> string) option \<Rightarrow> (string \<rightharpoonup> string) option" where
  "put_err name err errs = Some ((case errs of None \<Rightarrow> Map.empty | Some m \<Rightarrow> m)(name \<mapsto> err))"

inductive PubOrder_step :: "'w Publisher list \<Rightarrow> string \<Rightarrow> bytes \<Rightarrow> 'w pub_run \<Rightarrow> 'w pub_run \<Rightarrow> bool" for publishers hash orderData where
  pub_call: "i < length publishers \<Longrightarrow> pr_gos s ! i = Calling \<Longrightarrow>
     pub_PubOrder (publishers ! i) hash orderData (pr_world s) = (w', Inr r) \<Longrightarrow>
     PubOrder_step publishers hash orderData s
       (s\<lparr>pr_world := w', pr_gos := (pr_gos s)[i := (case r of None \<Rightarrow> Done | Some err \<Rightarrow> Failed err)], pr_results := (pr_results s)(i \<mapsto> r)\<rparr>)"
| pub_lock: "i < length publishers \<Longrightarrow> pr_gos s ! i = Failed err \<Longrightarrow> pr_mutex s = None \<Longrightarrow>
     PubOrder_step publishers hash orderData s (s\<lparr>pr_gos := (pr_gos s)[i := Locked err], pr_mutex := Some i\<rparr>)"
| pub_write: "i < length publishers \<Longrightarrow> pr_gos s ! i = Locked err \<Longrightarrow>
     PubOrder_step publishers hash orderData s
       (s\<lparr>pr_gos := (pr_gos s)[i := Written err], pr_errs := put_err (pub_Name (publishers ! i)) err (pr_errs s)\<rparr>)"
| pub_unlock: "i < length publishers \<Longrightarrow> pr_gos s ! i = Written err \<Longrightarrow>
     PubOrder_step publishers hash orderData s (s\<lparr>pr_gos := (pr_gos s)[i := Done], pr_mutex := None\<rparr>)"

definition PubOrder_returns :: "'w pub_run \<Rightarrow> bool" where
  "PubOrder_returns s \<longleftrightarrow> (\<forall>g \<in> set (pr_gos s). g = Done)"

text \<open>The errors that have reached the map: those of the goroutines that have written.\<close>

definition reported :: "'w Publisher list \<Rightarrow> 'w pub_run \<Rightarrow> string \<Rightarrow> string \<Rightarrow> bool" where
  "reported publishers s name err \<longleftrightarrow>
     (\<exists>i < length publishers. pub_Name (publishers ! i) = name \<and> pr_results s i = Some (Some err) \<and> pr_gos s ! i \<in> {Written err, Done})"

definition go_ok :: "'w pub_run \<Rightarrow> nat \<Rightarrow> bool" where
  "go_ok s i = (case pr_gos s ! i of
      Calling \<Rightarrow> pr_results s i = None
    | Failed err \<Rightarrow> pr_results s i = Some (Some err)
    | Locked err \<Rightarrow> pr_results s i = Some (Some err) \<and> pr_mutex s = Some i
    | Written err \<Rightarrow> pr_results s i = Some (Some err) \<and> pr_mutex s = Some i
    | Done \<Rightarrow> pr_results s i \<noteq> None)"

definition errs_ok :: "'w Publisher list \<Rightarrow> 'w pub_run \<Rightarrow> bool" where
  "errs_ok publishers s = (case pr_errs s of
      None \<Rightarrow> \<forall>name err. \<not> reported publishers s name err
    | Some m \<Rightarrow> m \<noteq> Map.empty \<and> (\<forall>name. name \<in> dom m \<longleftrightarrow> (\<exists>err. reported publishers s name err))
        \<and> (\<forall>name err. m name = Some err \<longrightarrow> reported publishers s name err))"

definition pub_inv :: "'w Publisher list \<Rightarrow> 'w pub_run \<Rightarrow> bool" where
  "pub_inv publishers s \<longleftrightarrow> length (pr_gos s) = length publishers \<and> (\<forall>i < length publishers. go_ok s i)
     \<and> (\<forall>i. pr_mutex s = Some i \<longrightarrow> i < length publishers \<and> (\<exists>err. pr_gos s ! i \<in> {Locked err, Written err})) \<and> errs_ok publishers s"

lemma reported_upd:
  assumes "length (pr_gos s) = length publishers" "i < length publishers" "pr_gos s' = (pr_gos s)[i := g]" "\<And>j. j \<noteq> i \<Longrightarrow> pr_results s' j = pr_results s j"
    "\<And>err. pr_results s' i = Some (Some err) \<and> g \<in> {Written err, Done} \<longleftrightarrow>
       pr_results s i = Some (Some err) \<and> pr_gos s ! i \<in> {Written err, Done} \<or> P err"
  shows "reported publishers s' name err \<longleftrightarrow> reported publishers s name err \<or> pub_Name (publishers ! i) = name \<and> P err"
proof -
  have "(pr_results s' j = Some (Some err) \<and> pr_gos s' ! j \<in> {Written err, Done}) \<longleftrightarrow>
      (pr_results s j = Some (Some err) \<and> pr_gos s ! j \<in> {Written err, Done} \<or> j = i \<and> P err)" if "j < length publishers" for j
    using assms(1,3,4) assms(5) [of err] that by (cases "j = i") auto
  then show ?thesis unfolding reported_def using assms(2) by auto
qed

lemma errs_ok_upd:
  assumes "errs_ok publishers s" "\<And>name err. reported publishers s' name err \<longleftrightarrow> reported publishers s name err" "pr_errs s' = pr_errs s"
  shows "errs_ok publishers s'"
proof -
  have "reported publishers s' = reported publishers s" using assms(2) by (simp add: fun_eq_iff)
  then show ?thesis using assms(1,3) by (cases "pr_errs s") (simp_all add: errs_ok_def)
qed

lemma errs_ok_put:
  assumes "errs_ok publishers s" "\<And>name' err'. reported publishers s' name' err' \<longleftrightarrow> reported publishers s name' err' \<or> n = name' \<and> err' = e"
    "pr_errs s' = put_err n e (pr_errs s)"
  shows "errs_ok publishers s'"
  using assms by (cases "pr_errs s") (auto simp: errs_ok_def put_err_def fun_eq_iff split: if_splits)

lemma pub_inv_upd:
  assumes "pub_inv publishers s" "i < length publishers" "pr_gos s' = (pr_gos s)[i := g]" "\<And>j. j \<noteq> i \<Longrightarrow> pr_results s' j = pr_results s j"
    "go_ok s' i" "\<And>j. j \<noteq> i \<Longrightarrow> pr_mutex s' = Some j \<longleftrightarrow> pr_mutex s = Some j" "pr_mutex s' = Some i \<Longrightarrow> \<exists>err. g \<in> {Locked err, Written err}"
    "errs_ok publishers s'"
  shows "pub_inv publishers s'"
proof -
  have len: "length (pr_gos s) = length publishers" and ok: "\<And>j. j < length publishers \<Longrightarrow> go_ok s j"
    and mx: "\<And>j. pr_mutex s = Some j \<Longrightarrow> j < length publishers \<and> (\<exists>err. pr_gos s ! j \<in> {Locked err, Written err})"
    using assms(1) by (auto simp: pub_inv_def)
  have "go_ok s' j" if "j < length publishers" for j
    using assms(3-6) ok [OF that] by (cases "j = i") (auto simp: go_ok_def split: pub_go.splits)
  moreover have "j < length publishers \<and> (\<exists>err. pr_gos s' ! j \<in> {Locked err, Written err})" if "pr_mutex s' = Some j" for j
    using assms(2,3,6,7) mx [of j] that len by (cases "j = i") auto
  ultimately show ?thesis using assms(3,8) len by (simp add: pub_inv_def)
qed

lemma pub_inv_start: "pub_inv publishers (PubOrder_start publishers w)"
  by (simp add: pub_inv_def PubOrder_start_def go_ok_def errs_ok_def reported_def)

lemma pub_inv_step:
  assumes "pub_inv publishers s" "PubOrder_step publishers hash orderData s s'"
  shows "pub_inv publishers s'"
proof -
  have inv: "length (pr_gos s) = length publishers" "errs_ok publishers s" and ok: "\<And>i. i < length publishers \<Longrightarrow> go_ok s i"
    and mx: "\<And>j. pr_mutex s = Some j \<Longrightarrow> (\<exists>err. pr_gos s ! j \<in> {Locked err, Written err})"
    using assms(1) by (auto simp: pub_inv_def)
  from assms(2) show ?thesis
  proof cases
    case (pub_call i w' r)
    have r0: "pr_results s i = None" using ok [OF pub_call(2)] pub_call(3) by (simp add: go_ok_def)
    have "errs_ok publishers s'"
    proof (rule errs_ok_upd [OF inv(2)])
      show "reported publishers s' name err \<longleftrightarrow> reported publishers s name err" for name err
        using reported_upd [OF inv(1) pub_call(2), of s' "case r of None \<Rightarrow> Done | Some err \<Rightarrow> Failed err" "\<lambda>_. False"] pub_call(1) r0
        by (simp split: option.split)
    qed (simp add: pub_call(1))
    then show ?thesis
      using pub_call(1,3) inv(1) pub_call(2) mx [of i]
      by (intro pub_inv_upd [OF assms(1) pub_call(2), of s' "case r of None \<Rightarrow> Done | Some err \<Rightarrow> Failed err"]) (auto simp: go_ok_def split: option.split)
  next
    case (pub_lock i err)
    have "errs_ok publishers s'"
    proof (rule errs_ok_upd [OF inv(2)])
      show "reported publishers s' name e \<longleftrightarrow> reported publishers s name e" for name e
        using reported_upd [OF inv(1) pub_lock(2), of s' "Locked err" "\<lambda>_. False"] pub_lock(1,3) by simp
    qed (simp add: pub_lock(1))
    then show ?thesis
      using pub_lock ok [OF pub_lock(2)] inv(1)
      by (intro pub_inv_upd [OF assms(1) pub_lock(2), of s' "Locked err"]) (auto simp: go_ok_def)
  next
    case (pub_write i err)
    have r0: "pr_results s i = Some (Some err)" "pr_mutex s = Some i" using ok [OF pub_write(2)] pub_write(3) by (simp_all add: go_ok_def)
    have "errs_ok publishers s'"
    proof (rule errs_ok_put [OF inv(2)])
      show "reported publishers s' name e \<longleftrightarrow> reported publishers s name e \<or> pub_Name (publishers ! i) = name \<and> e = err" for name e
        using reported_upd [OF inv(1) pub_write(2), of s' "Written err" "\<lambda>e. e = err"] pub_write(1,3) r0 by auto
    qed (simp add: pub_write(1))
    then show ?thesis
      using pub_write r0 inv(1) by (intro pub_inv_upd [OF assms(1) pub_write(2), of s' "Written err"]) (auto simp: go_ok_def)
  next
    case (pub_unlock i err)
    have r0: "pr_results s i = Some (Some err)" "pr_mutex s = Some i" using ok [OF pub_unlock(2)] pub_unlock(3) by (simp_all add: go_ok_def)
    have "errs_ok publishers s'"
    proof (rule errs_ok_upd [OF inv(2)])
      show "reported publishers s' name e \<longleftrightarrow> reported publishers s name e" for name e
        using reported_upd [OF inv(1) pub_unlock(2), of s' Done "\<lambda>_. False"] pub_unlock(1,3) r0 by auto
    qed (simp add: pub_unlock(1))
    then show ?thesis
      using pub_unlock r0 inv(1) by (intro pub_inv_upd [OF assms(1) pub_unlock(2), of s' Done]) (auto simp: go_ok_def)
  qed
qed

interpretation publishing: transition_system "\<lambda>s. \<exists>w. s = PubOrder_start publishers w" "PubOrder_step publishers hash orderData" "pub_inv publishers"
  by unfold_locales (auto simp: pub_inv_start elim: pub_inv_step)

definition failed :: "'w Publisher list \<Rightarrow> 'w pub_run \<Rightarrow> string \<Rightarrow> string \<Rightarrow> bool" where
  "failed publishers s name err \<longleftrightarrow> (\<exists>i < length publishers. pub_Name (publishers ! i) = name \<and> pr_results s i = Some (Some err))"

lemma returned_reported:
  assumes "pub_inv publishers s" "PubOrder_returns s"
  shows "reported publishers s = failed publishers s" "i < length publishers \<Longrightarrow> pr_results s i \<noteq> None"
proof -
  have "pr_gos s ! i = Done" if "i < length publishers" for i
    using assms that unfolding pub_inv_def PubOrder_returns_def by (metis nth_mem)
  moreover have "go_ok s i" if "i < length publishers" for i using assms(1) that by (simp add: pub_inv_def)
  ultimately show "reported publishers s = failed publishers s" "i < length publishers \<Longrightarrow> pr_results s i \<noteq> None"
    by (auto simp: reported_def failed_def fun_eq_iff go_ok_def)
qed

lemma failed_unique:
  assumes "distinct (map pub_Name publishers)" "failed publishers s name err" "failed publishers s name err'"
  shows "err = err'"
proof -
  obtain i j where "i < length publishers" "pub_Name (publishers ! i) = name" "pr_results s i = Some (Some err)"
    "j < length publishers" "pub_Name (publishers ! j) = name" "pr_results s j = Some (Some err')"
    using assms(2,3) by (auto simp: failed_def)
  moreover from this assms(1) have "i = j" by (metis length_map nth_eq_iff_index_eq nth_map)
  ultimately show ?thesis by simp
qed

text \<open>What a goroutine has recorded is what its publisher answered.\<close>

lemma results_answered:
  assumes "(PubOrder_step publishers hash orderData)\<^sup>*\<^sup>* (PubOrder_start publishers w) s"
  shows "pr_results s i = Some r \<Longrightarrow> \<exists>w w'. pub_PubOrder (publishers ! i) hash orderData w = (w', Inr r)"
  using assms
proof (induction arbitrary: i r rule: rtranclp_induct)
  case base
  then show ?case by (simp add: PubOrder_start_def)
next
  case (step s s')
  from step.hyps(2) step.prems step.IH show ?case by cases (auto split: if_splits)
qed

definition err_of :: "'w pub_run \<Rightarrow> string \<Rightarrow> string option" where
  "err_of s name = (case pr_errs s of None \<Rightarrow> None | Some m \<Rightarrow> m name)"

lemma errs_ok_lookup:
  assumes "errs_ok publishers s"
  shows "pr_errs s = None \<longleftrightarrow> (\<forall>name err. \<not> reported publishers s name err)"
    "err_of s name = None \<longleftrightarrow> (\<forall>err. \<not> reported publishers s name err)" "err_of s name = Some err \<Longrightarrow> reported publishers s name err"
proof -
  show "pr_errs s = None \<longleftrightarrow> (\<forall>name err. \<not> reported publishers s name err)"
  proof (cases "pr_errs s")
    case (Some m)
    then obtain n e where "m n = Some e" using assms by (auto simp: errs_ok_def fun_eq_iff)
    then show ?thesis using Some assms unfolding errs_ok_def by auto
  qed (use assms in \<open>simp add: errs_ok_def\<close>)
  have "name \<in> dom m \<longleftrightarrow> (\<exists>err. reported publishers s name err)" "\<And>err. m name = Some err \<Longrightarrow> reported publishers s name err" if "pr_errs s = Some m" for m
    using assms that by (simp_all add: errs_ok_def)
  moreover have "\<not> reported publishers s name err" if "pr_errs s = None" for err using assms that by (simp add: errs_ok_def)
  ultimately show "err_of s name = None \<longleftrightarrow> (\<forall>err. \<not> reported publishers s name err)" "err_of s name = Some err \<Longrightarrow> reported publishers s name err"
    by (auto simp: err_of_def split: option.splits)
qed

text \<open>Claim C15: when \<open>PubOrder\<close> returns, in whatever order its goroutines ran, every publisher has been called and has answered, and the errors it returns are those of the
  publishers that failed: the result is nil exactly when none failed, it has an entry for a name exactly when a publisher of that name failed, the entry is an error of such a
  publisher, and where the names differ it is the error of that publisher.\<close>

theorem PubOrder_reports_failures:
  assumes "(PubOrder_step publishers hash orderData)\<^sup>*\<^sup>* (PubOrder_start publishers w) s" "PubOrder_returns s"
  shows "(\<forall>i < length publishers. \<exists>r w w'. pr_results s i = Some r \<and> pub_PubOrder (publishers ! i) hash orderData w = (w', Inr r))
    \<and> (pr_errs s = None \<longleftrightarrow> (\<forall>name err. \<not> failed publishers s name err))
    \<and> (\<forall>name. err_of s name = None \<longleftrightarrow> (\<forall>err. \<not> failed publishers s name err))
    \<and> (\<forall>name err. err_of s name = Some err \<longrightarrow> failed publishers s name err)
    \<and> (\<forall>name err. distinct (map pub_Name publishers) \<longrightarrow> failed publishers s name err \<longrightarrow> err_of s name = Some err)"
proof -
  have inv: "pub_inv publishers s" using publishing.reachable_inv [OF assms(1)] by blast
  have res: "\<forall>i < length publishers. \<exists>r w w'. pr_results s i = Some r \<and> pub_PubOrder (publishers ! i) hash orderData w = (w', Inr r)"
    using returned_reported(2) [OF inv assms(2)] results_answered [OF assms(1)] by blast
  have "errs_ok publishers s" using inv by (simp add: pub_inv_def)
  note errs = errs_ok_lookup [OF this, unfolded returned_reported(1) [OF inv assms(2)]]
  have "err_of s name = Some err" if "distinct (map pub_Name publishers)" "failed publishers s name err" for name err
    using failed_unique [OF that] errs(2,3) [of name] that(2) by (cases "err_of s name") auto
  then show ?thesis using res errs by blast
qed

text \<open>The work that is left: each goroutine takes at most four steps.\<close>

fun go_work :: "pub_go \<Rightarrow> nat" where
  "go_work Calling = 4"
| "go_work (Failed err) = 3"
| "go_work (Locked err) = 2"
| "go_work (Written err) = 1"
| "go_work Done = 0"

definition pub_work :: "'w pub_run \<Rightarrow> nat" where
  "pub_work s = sum_list (map go_work (pr_gos s))"

lemma sum_list_upd_less:
  "i < length xs \<Longrightarrow> f x < f (xs ! i) \<Longrightarrow> sum_list (map f (xs[i := x])) < (sum_list (map f xs) :: nat)"
proof (induction xs arbitrary: i)
  case (Cons y ys)
  then show ?case by (cases i) auto
qed simp

lemma pub_step_work:
  assumes "length (pr_gos s) = length publishers" "PubOrder_step publishers hash orderData s s'"
  shows "pub_work s' < pub_work s"
  using assms(2) by cases (auto simp: pub_work_def assms(1) intro!: sum_list_upd_less split: option.split)

lemma pub_step_exists:
  assumes "pub_inv publishers s" "\<And>p w. p \<in> set publishers \<Longrightarrow> \<exists>w' r. pub_PubOrder p hash orderData w = (w', Inr r)" "\<not> PubOrder_returns s"
  shows "\<exists>s'. PubOrder_step publishers hash orderData s s'"
proof (cases "pr_mutex s")
  case (Some i)
  then obtain err where "i < length publishers" "pr_gos s ! i \<in> {Locked err, Written err}" using assms(1) unfolding pub_inv_def by blast
  then show ?thesis using pub_write pub_unlock by (metis insertE singletonD)
next
  case None
  have len: "length (pr_gos s) = length publishers" using assms(1) by (simp add: pub_inv_def)
  obtain i where i: "i < length publishers" "pr_gos s ! i \<noteq> Done" using assms(3) len unfolding PubOrder_returns_def by (metis in_set_conv_nth)
  have ok: "go_ok s i" using assms(1) i(1) by (simp add: pub_inv_def)
  show ?thesis
  proof (cases "pr_gos s ! i")
    case Calling
    then show ?thesis using pub_call [OF i(1) Calling] assms(2) [of "publishers ! i"] i(1) by (metis nth_mem)
  next
    case (Failed err)
    then show ?thesis using pub_lock [OF i(1) Failed None] by blast
  qed (use ok None i(2) in \<open>simp_all add: go_ok_def\<close>)
qed

lemma pub_can_return:
  assumes "\<And>p w. p \<in> set publishers \<Longrightarrow> \<exists>w' r. pub_PubOrder p hash orderData w = (w', Inr r)" "pub_inv publishers s"
  shows "\<exists>s'. (PubOrder_step publishers hash orderData)\<^sup>*\<^sup>* s s' \<and> PubOrder_returns s'"
  using assms(2)
proof (induction "pub_work s" arbitrary: s rule: less_induct)
  case less
  show ?case
  proof (cases "PubOrder_returns s")
    case False
    then obtain s1 where s1: "PubOrder_step publishers hash orderData s s1" using pub_step_exists [OF less.prems assms(1)] by blast
    have "pub_work s1 < pub_work s" using pub_step_work [OF _ s1] less.prems by (simp add: pub_inv_def)
    then show ?thesis using less.hyps pub_inv_step [OF less.prems s1] s1 by (meson converse_rtranclp_into_rtranclp)
  qed auto
qed

text \<open>Claim C16: \<open>PubOrder\<close> returns on every schedule, provided that the calls of the publishers return: no state it reaches is stuck before the return, and every step
  uses up a part of the work, of which there is at most four units for each publisher.\<close>

theorem PubOrder_terminates:
  assumes "\<And>p w. p \<in> set publishers \<Longrightarrow> \<exists>w' r. pub_PubOrder p hash orderData w = (w', Inr r)"
    "(PubOrder_step publishers hash orderData)\<^sup>*\<^sup>* (PubOrder_start publishers w) s"
  shows "(PubOrder_returns s \<or> (\<exists>s'. PubOrder_step publishers hash orderData s s'))
    \<and> (\<forall>s'. PubOrder_step publishers hash orderData s s' \<longrightarrow> pub_work s' < pub_work s) \<and> pub_work s \<le> 4 * length publishers
    \<and> (\<exists>s'. (PubOrder_step publishers hash orderData)\<^sup>*\<^sup>* s s' \<and> PubOrder_returns s')"
proof -
  have inv: "pub_inv publishers s" using publishing.reachable_inv [OF assms(2)] by blast
  then have len: "length (pr_gos s) = length publishers" by (simp add: pub_inv_def)
  have "go_work g \<le> 4" for g by (cases g) simp_all
  then have "pub_work s \<le> 4 * length publishers"
    using sum_list_mono [of "pr_gos s" go_work "\<lambda>_. 4"] len by (simp add: pub_work_def sum_list_triv mult.commute)
  then show ?thesis using pub_step_exists [OF inv assms(1)] pub_step_work [OF len] pub_can_return [OF assms(1) inv] by blast
qed

definition demo_publisher :: "string \<Rightarrow> string option \<Rightarrow> unit Publisher" where
  "demo_publisher name r = \<lparr>pub_Name = name, pub_PubOrder = (\<lambda>hash orderData w. (w, Inr r))\<rparr>"

definition demo_publishers :: "unit Publisher list" where
  "demo_publishers = [demo_publisher ''a'' (Some ''e''), DefaultPublisher, demo_publisher ''b'' (Some ''f'')]"

lemma demo_publishers_return: "p \<in> set demo_publishers \<Longrightarrow> \<exists>w' r. pub_PubOrder p hash orderData w = (w', Inr r)"
  by (auto simp: demo_publishers_def demo_publisher_def DefaultPublisher_def sret_def)

theorem PubOrder_terminates_witness:
  "\<exists>s. (PubOrder_step demo_publishers ''h'' [1])\<^sup>*\<^sup>* (PubOrder_start demo_publishers ()) s \<and> PubOrder_returns s"
  using PubOrder_terminates [OF demo_publishers_return] by blast

theorem PubOrder_reports_failures_witness:
  "\<exists>s. (PubOrder_step demo_publishers ''h'' [1])\<^sup>*\<^sup>* (PubOrder_start demo_publishers ()) s \<and> PubOrder_returns s
     \<and> err_of s ''a'' = Some ''e'' \<and> err_of s ''b'' = Some ''f'' \<and> err_of s ''defaultPublisher'' = None"
proof -
  obtain s where s: "(PubOrder_step demo_publishers ''h'' [1])\<^sup>*\<^sup>* (PubOrder_start demo_publishers ()) s" "PubOrder_returns s"
    using pub_can_return [OF demo_publishers_return pub_inv_start] by blast
  note th = PubOrder_reports_failures [OF s]
  have res: "pr_results s 0 = Some (Some ''e'')" "pr_results s 1 = Some None" "pr_results s 2 = Some (Some ''f'')"
    using th [THEN conjunct1] by (auto simp: demo_publishers_def demo_publisher_def DefaultPublisher_def sret_def less_Suc_eq numeral_2_eq_2)
  then have "failed demo_publishers s name err \<longleftrightarrow> name = ''a'' \<and> err = ''e'' \<or> name = ''b'' \<and> err = ''f''" for name err
    unfolding failed_def demo_publishers_def by (auto simp: demo_publisher_def DefaultPublisher_def less_Suc_eq numeral_2_eq_2)
  moreover have "distinct (map pub_Name demo_publishers)" by (simp add: demo_publishers_def demo_publisher_def DefaultPublisher_def)
  ultimately have "err_of s ''a'' = Some ''e''" "err_of s ''b'' = Some ''f''" "err_of s ''defaultPublisher'' = None"
    using th [THEN conjunct2, THEN conjunct2, THEN conjunct2, THEN conjunct2] th [THEN conjunct2, THEN conjunct2, THEN conjunct1] by simp_all
  then show ?thesis using s by (intro exI [of _ s]) simp
qed

subsection \<open>Matrix publishers\<close>

text \<open>The Matrix publishers of a process: the \<open>k\<close>-th has the \<open>k\<close>-th client of the shared world.\<close>

definition at_client :: "nat \<Rightarrow> ('w, 'a) mx \<Rightarrow> ((nat \<Rightarrow> MatrixClient) \<times> 'w, 'a) st" where
  "at_client k f = (\<lambda>(cs, w). case f (cs k, w) of ((c, w'), r) \<Rightarrow> ((cs(k := c), w'), r))"

definition matrix_Publisher :: "'w matrix_env \<Rightarrow> nat \<Rightarrow> string list \<Rightarrow> ((nat \<Rightarrow> MatrixClient) \<times> 'w) Publisher" where
  "matrix_Publisher env k Rooms =
     \<lparr>pub_Name = ''matrixPublisher'', pub_PubOrder = (\<lambda>hash orderData. at_client k (MatrixPublisher_PubOrder env Rooms hash orderData))\<rparr>"

lemma stuck_publisher:
  assumes "(PubOrder_step publishers hash orderData)\<^sup>*\<^sup>* (PubOrder_start publishers w) s" "i < length publishers"
    "\<And>w r. snd (pub_PubOrder (publishers ! i) hash orderData w) \<noteq> Inr r"
  shows "pr_gos s ! i = Calling \<and> length (pr_gos s) = length publishers"
  using assms(1)
proof (induction rule: rtranclp_induct)
  case base
  then show ?case using assms(2) by (simp add: PubOrder_start_def)
next
  case (step s s')
  from step.hyps(2) step.IH assms(2) assms(3) show ?case
  proof cases
    case (pub_call j w' r)
    then have "j \<noteq> i" using assms(3) [of "pr_world s" r] by auto
    then show ?thesis using pub_call step.IH by simp
  qed (auto simp: nth_list_update)
qed

text \<open>Claim C21: publishing an order while a Matrix home server cannot be reached: \<open>PubOrder\<close> never returns, on any schedule and whatever the other publishers do, as soon as one
  Matrix publisher has at least two rooms. Its first failed request leaves the mutex of the client locked, and the request for the second room waits for it for ever.\<close>

theorem PubOrder_hangs_when_unreachable:
  assumes "i < length publishers" "publishers ! i = matrix_Publisher env k (room # room' # rooms)"
    "\<And>room. \<exists>d. je_req env (SendMessageReq room LoopringOrderType hash LoopringOrderType (string_of orderData)) = Inr d"
    "\<And>url. he_NewRequest env url = Inr ()" "\<And>url b w. \<exists>w' e. he_do env ''PUT'' url b w = (w', Inl (Err e))"
    "(PubOrder_step publishers hash orderData)\<^sup>*\<^sup>* (PubOrder_start publishers w) s"
  shows "\<not> PubOrder_returns s"
proof -
  have "snd (pub_PubOrder (publishers ! i) hash orderData (cs, w)) \<noteq> Inr r" for cs w r
    using publisher_blocks [OF assms(3-5), of room room' rooms "cs k" w] assms(2)
    by (auto simp: matrix_Publisher_def at_client_def split: prod.splits)
  then have "pr_gos s ! i = Calling \<and> length (pr_gos s) = length publishers" using stuck_publisher [OF assms(6,1)] by (metis surj_pair)
  then show ?thesis using assms(1) unfolding PubOrder_returns_def by (metis nth_mem pub_go.distinct(7))
qed

definition demo_unreachable :: "(string \<rightharpoonup> rval) matrix_env" where
  "demo_unreachable = demo_room\<lparr>he_do := (\<lambda>_ _ _ w. (w, Inl (Err ''unreachable'')))\<rparr>"

definition demo_stuck :: "((nat \<Rightarrow> MatrixClient) \<times> (string \<rightharpoonup> rval)) Publisher list" where
  "demo_stuck = [DefaultPublisher, matrix_Publisher demo_unreachable 0 [''!r'', ''!s'']]"

theorem PubOrder_hangs_when_unreachable_witness:
  "\<exists>s. (PubOrder_step demo_stuck ''0x1'' [1])\<^sup>*\<^sup>* (PubOrder_start demo_stuck ((\<lambda>_. demo_client), Map.empty)) s \<and> pr_gos s ! 0 = Done
     \<and> \<not> PubOrder_returns s"
proof -
  let ?s = "PubOrder_start demo_stuck ((\<lambda>_. demo_client), Map.empty)"
  have "PubOrder_step demo_stuck ''0x1'' [1] ?s (?s\<lparr>pr_world := pr_world ?s, pr_gos := (pr_gos ?s)[0 := Done], pr_results := (pr_results ?s)(0 \<mapsto> None)\<rparr>)"
    using pub_call [of 0 demo_stuck ?s "''0x1''" "[1]" "pr_world ?s" None] by (simp add: demo_stuck_def PubOrder_start_def DefaultPublisher_def sret_def)
  then have run: "(PubOrder_step demo_stuck ''0x1'' [1])\<^sup>*\<^sup>* ?s (?s\<lparr>pr_world := pr_world ?s, pr_gos := (pr_gos ?s)[0 := Done], pr_results := (pr_results ?s)(0 \<mapsto> None)\<rparr>)"
    by blast
  then show ?thesis
    using PubOrder_hangs_when_unreachable [OF _ _ _ _ _ run, of 1 demo_unreachable 0 "''!r''" "''!s''" "[]"]
    by (intro exI conjI) (simp_all add: demo_stuck_def demo_unreachable_def demo_room_def PubOrder_start_def)
qed

subsection \<open>Subscribing\<close>

text \<open>
  The goroutines of \<open>SubOrderNext\<close>: each calls \<open>Next\<close> of its subscriber, sends the orders it got into the unbounded channel one by one, and calls
  again. An error is logged and the call repeated. \<open>sr_got\<close> records what the calls of each subscriber returned; an order in the channel
  carries the number of the subscriber it came from, which the code does not have.
\<close>

record 'w sub_run =
  sr_world :: 'w
  sr_pending :: "bytes list list"
  sr_got :: "bytes list list"
  sr_chan :: "(nat \<times> bytes) infinite"

definition SubOrderNext_start :: "'w Subscriber list \<Rightarrow> 'w \<Rightarrow> 'w sub_run" where
  "SubOrderNext_start subscribers w =
     \<lparr>sr_world = w, sr_pending = map (\<lambda>_. []) subscribers, sr_got = map (\<lambda>_. []) subscribers, sr_chan = MakeInfinite\<rparr>"

inductive SubOrderNext_step :: "'w Subscriber list \<Rightarrow> 'w sub_run \<Rightarrow> 'w sub_run \<Rightarrow> bool" for subscribers where
  sub_next: "i < length subscribers \<Longrightarrow> sr_pending s ! i = [] \<Longrightarrow> sub_Next (subscribers ! i) (sr_world s) = (w', Inr (Some ordersData)) \<Longrightarrow>
     SubOrderNext_step subscribers s
       (s\<lparr>sr_world := w', sr_pending := (sr_pending s)[i := ordersData], sr_got := (sr_got s)[i := sr_got s ! i @ ordersData]\<rparr>)"
| sub_wait: "i < length subscribers \<Longrightarrow> sr_pending s ! i = [] \<Longrightarrow> sub_Next (subscribers ! i) (sr_world s) = (w', Inr None) \<Longrightarrow>
     SubOrderNext_step subscribers s (s\<lparr>sr_world := w'\<rparr>)"
| sub_err: "i < length subscribers \<Longrightarrow> sr_pending s ! i = [] \<Longrightarrow> sub_Next (subscribers ! i) (sr_world s) = (w', Inl (Err e)) \<Longrightarrow>
     SubOrderNext_step subscribers s (s\<lparr>sr_world := w'\<rparr>)"
| sub_send: "i < length subscribers \<Longrightarrow> sr_pending s ! i = data # ordersData \<Longrightarrow>
     infinite_step (sr_chan s) ch' \<Longrightarrow> uc_sent ch' = uc_sent (sr_chan s) @ [(i, data)] \<Longrightarrow>
     SubOrderNext_step subscribers s (s\<lparr>sr_pending := (sr_pending s)[i := ordersData], sr_chan := ch'\<rparr>)"
| sub_receive: "infinite_step (sr_chan s) ch' \<Longrightarrow> uc_sent ch' = uc_sent (sr_chan s) \<Longrightarrow> uc_closed ch' = uc_closed (sr_chan s) \<Longrightarrow>
     SubOrderNext_step subscribers s (s\<lparr>sr_chan := ch'\<rparr>)"

definition sent_by :: "nat \<Rightarrow> (nat \<times> bytes) list \<Rightarrow> bytes list" where
  "sent_by i xs = map snd (filter (\<lambda>x. fst x = i) xs)"

lemma sent_by_append [simp]: "sent_by i (xs @ ys) = sent_by i xs @ sent_by i ys"
  by (simp add: sent_by_def)

lemma sent_by_single [simp]: "sent_by i [(j, d)] = (if j = i then [d] else [])"
  by (simp add: sent_by_def)

definition merge_inv :: "'w Subscriber list \<Rightarrow> 'w sub_run \<Rightarrow> bool" where
  "merge_inv subscribers s \<longleftrightarrow> length (sr_pending s) = length subscribers \<and> length (sr_got s) = length subscribers
     \<and> infinite_inv (sr_chan s) \<and> \<not> uc_closed (sr_chan s) \<and> (\<forall>x \<in> set (uc_sent (sr_chan s)). fst x < length subscribers)
     \<and> (\<forall>i < length subscribers. sr_got s ! i = sent_by i (uc_sent (sr_chan s)) @ sr_pending s ! i)"

lemma infinite_step_closed: "infinite_step ch ch' \<Longrightarrow> uc_sent ch' \<noteq> uc_sent ch \<Longrightarrow> uc_closed ch' = uc_closed ch"
  by (auto elim: infinite_step.cases)

lemma merge_inv_start: "merge_inv subscribers (SubOrderNext_start subscribers w)"
  by (simp add: merge_inv_def SubOrderNext_start_def sent_by_def infinite_inv_def MakeInfinite_def)

lemma merge_inv_step:
  assumes "merge_inv subscribers s" "SubOrderNext_step subscribers s s'"
  shows "merge_inv subscribers s'"
  using assms(2,1)
proof cases
  case (sub_send i data ordersData ch')
  then have "infinite_inv ch'" "\<not> uc_closed ch'"
    using assms(1) infinite_sys.step_inv [of "sr_chan s" ch'] infinite_step_closed [of "sr_chan s" ch'] by (auto simp: merge_inv_def)
  then show ?thesis using sub_send assms(1) by (auto simp: merge_inv_def nth_list_update)
next
  case (sub_receive ch')
  then show ?thesis using assms(1) infinite_sys.step_inv [of "sr_chan s" ch'] by (auto simp: merge_inv_def)
qed (auto simp: merge_inv_def nth_list_update)

interpretation merging: transition_system "\<lambda>s. \<exists>w. s = SubOrderNext_start subscribers w" "SubOrderNext_step subscribers" "merge_inv subscribers"
  by unfold_locales (auto simp: merge_inv_start elim: merge_inv_step)

text \<open>Claim C30: merging the subscribers loses, doubles and reorders nothing within a subscriber, on any schedule: what the consumer has received from a subscriber, then what waits in
  the channel, then what its goroutine still has to send, is exactly what its calls of \<open>Next\<close> returned; the consumer receives nothing else, and the channel is never closed.\<close>

theorem SubOrderNext_merges:
  assumes "(SubOrderNext_step subscribers)\<^sup>*\<^sup>* (SubOrderNext_start subscribers w) s"
  shows "(\<forall>i < length subscribers. sr_got s ! i = sent_by i (uc_received (sr_chan s)) @ sent_by i (uc_buffer (sr_chan s)) @ sr_pending s ! i)
    \<and> (\<forall>x \<in> set (uc_received (sr_chan s)). fst x < length subscribers) \<and> \<not> uc_ended (sr_chan s)"
proof -
  have "merge_inv subscribers s" using merging.reachable_inv [OF assms] by blast
  then show ?thesis by (auto simp: merge_inv_def infinite_inv_def)
qed

definition matrix_Subscriber :: "'w matrix_env \<Rightarrow> nat \<Rightarrow> (MatrixSubscriber \<times> MatrixClient \<times> 'w) Subscriber" where
  "matrix_Subscriber env polls = \<lparr>sub_Name = ''matrixSubscriber'', sub_Next = MatrixSubscriber_Next env polls\<rparr>"

definition demo_subscription :: "MatrixSubscriber \<times> MatrixClient \<times> (string \<rightharpoonup> rval)" where
  "demo_subscription = (\<lparr>ms_Room = ''!r'', ms_From = '''', ms_CacheFrom = True, ms_CacheTtl = 0\<rparr>, demo_client, Map.empty)"

definition demo_subscribers :: "(MatrixSubscriber \<times> MatrixClient \<times> (string \<rightharpoonup> rval)) Subscriber list" where
  "demo_subscribers = [matrix_Subscriber demo_room 1]"

text \<open>A run in which the consumer has the first of two orders.\<close>

lemma demo_merge_run:
  "\<exists>s. (SubOrderNext_step demo_subscribers)\<^sup>*\<^sup>* (SubOrderNext_start demo_subscribers demo_subscription) s
     \<and> uc_received (sr_chan s) = [(0, bytes_of ''x'')] \<and> sr_pending s = [[bytes_of ''y'']]"
proof -
  let ?x = "bytes_of ''x''" and ?y = "bytes_of ''y''"
  let ?s = "SubOrderNext_start demo_subscribers demo_subscription" and ?w = "fst (MatrixSubscriber_Next demo_room 1 demo_subscription)"
  let ?s1 = "?s\<lparr>sr_world := ?w, sr_pending := [[?x, ?y]], sr_got := [[?x, ?y]]\<rparr>"
  let ?c2 = "MakeInfinite\<lparr>uc_sent := [(0, ?x)], uc_buffer := [(0, ?x)]\<rparr>"
  let ?s2 = "?s1\<lparr>sr_pending := [[?y]], sr_chan := ?c2\<rparr>"
  let ?s3 = "?s2\<lparr>sr_chan := ?c2\<lparr>uc_buffer := [], uc_received := [(0, ?x)]\<rparr>\<rparr>"
  have "snd (MatrixSubscriber_Next demo_room 1 demo_subscription) = Inr (Some [?x, ?y])" by code_simp
  then have 1: "SubOrderNext_step demo_subscribers ?s ?s1"
    using sub_next [of 0 demo_subscribers ?s ?w "[?x, ?y]"] by (simp add: SubOrderNext_start_def demo_subscribers_def matrix_Subscriber_def prod_eq_iff)
  have "infinite_step MakeInfinite ?c2" using uc_take [of MakeInfinite "(0, ?x)"] by (simp add: MakeInfinite_def infinite_loops_def)
  then have 2: "SubOrderNext_step demo_subscribers ?s1 ?s2"
    using sub_send [of 0 demo_subscribers ?s1 ?x "[?y]" ?c2] by (simp add: SubOrderNext_start_def demo_subscribers_def MakeInfinite_def)
  have "infinite_step ?c2 (?c2\<lparr>uc_buffer := [], uc_received := [(0, ?x)]\<rparr>)"
    using uc_give [of ?c2 "(0, ?x)" "[]"] by (simp add: MakeInfinite_def infinite_loops_def)
  then have "SubOrderNext_step demo_subscribers ?s2 ?s3"
    using sub_receive [of ?s2 "?c2\<lparr>uc_buffer := [], uc_received := [(0, ?x)]\<rparr>" demo_subscribers] by (simp add: MakeInfinite_def)
  then have "(SubOrderNext_step demo_subscribers)\<^sup>*\<^sup>* ?s ?s3" using 1 2 by (meson converse_rtranclp_into_rtranclp r_into_rtranclp)
  then show ?thesis by (intro exI [of _ ?s3] conjI) simp_all
qed

theorem SubOrderNext_merges_witness:
  "\<exists>s. (SubOrderNext_step demo_subscribers)\<^sup>*\<^sup>* (SubOrderNext_start demo_subscribers demo_subscription) s
     \<and> sr_got s ! 0 = [bytes_of ''x''] @ sent_by 0 (uc_buffer (sr_chan s)) @ [bytes_of ''y'']"
proof -
  obtain s where s: "(SubOrderNext_step demo_subscribers)\<^sup>*\<^sup>* (SubOrderNext_start demo_subscribers demo_subscription) s"
     "uc_received (sr_chan s) = [(0, bytes_of ''x'')]" "sr_pending s = [[bytes_of ''y'']]"
    using demo_merge_run by blast
  then show ?thesis using SubOrderNext_merges [OF s(1)] by (intro exI [of _ s]) (simp add: demo_subscribers_def)
qed

subsection \<open>Matrix orders at the consumer\<close>

context feed
begin

text \<open>One of the subscribers is the feed, and the others do not disturb it.\<close>

lemma merged:
  assumes "i < length subscribers" "sub_Next (subscribers ! i) = nx"
    "\<And>j w w' r. j < length subscribers \<Longrightarrow> j \<noteq> i \<Longrightarrow> inv w \<Longrightarrow> sub_Next (subscribers ! j) w = (w', r) \<Longrightarrow>
       inv w' \<and> prefix (events w) (events w') \<and> reached w' = reached w"
    "inv w" "(SubOrderNext_step subscribers)\<^sup>*\<^sup>* (SubOrderNext_start subscribers w) s"
  shows "length (sr_got s) = length subscribers \<and> inv (sr_world s)
    \<and> piece (reached w) (sr_got s ! i) (events (sr_world s)) \<and> reached (sr_world s) = reached w + length (sr_got s ! i)"
  using assms(5)
proof (induction rule: rtranclp_induct)
  case base
  then show ?case using assms(1,4) at_bound by (simp add: SubOrderNext_start_def)
next
  case (step s s')
  let ?ws = "sr_world s" and ?got = "sr_got s ! i"
  have ih: "inv ?ws" "piece (reached w) ?got (events ?ws)" "reached ?ws = reached w + length ?got" "length (sr_got s) = length subscribers"
    using step.IH by simp_all
  have own: "inv w' \<and> piece (reached w) ?got (events w')
      \<and> (case r of Inr (Some ds) \<Rightarrow> piece (reached w) (?got @ ds) (events w') \<and> reached w' = reached w + length (?got @ ds) | _ \<Rightarrow> reached w' = reached w + length ?got)"
    if "sub_Next (subscribers ! i) ?ws = (w', r)" for w' r
    using next_step [OF ih(1), of w' r] that assms(2) ih(2,3) piece_prefix [OF ih(2), of "events w'"] piece_append [of "reached w" ?got "events w'"]
    by (auto split: sum.splits option.splits)
  have other: "inv w' \<and> piece (reached w) ?got (events w') \<and> reached w' = reached w + length ?got"
    if "j < length subscribers" "j \<noteq> i" "sub_Next (subscribers ! j) ?ws = (w', r)" for j w' r
    using assms(3) [OF that(1,2) ih(1) that(3)] ih(2,3) piece_prefix [OF ih(2)] by auto
  from step.hyps(2) show ?case
  proof cases
    case (sub_next j w' ds)
    then show ?thesis using own [of w' "Inr (Some ds)"] other [of j] ih(4) by (cases "j = i") auto
  next
    case (sub_wait j w')
    then show ?thesis using own [of w' "Inr None"] other [of j] ih(4) by (cases "j = i") auto
  next
    case (sub_err j w' e)
    then show ?thesis using own [of w' "Inl (Err e)"] other [of j] ih(4) by (cases "j = i") auto
  qed (use ih in auto)
qed

end

context matrix_subscriber
begin

lemmas calls_merged = merged

end

lemma prefix_order_bodies: "piece k ds es \<Longrightarrow> prefix ds (order_bodies (drop k es))"
  unfolding piece_def order_bodies_def by (metis append_take_drop_id map_append prefixI)

text \<open>Claim C4: the orders that a consumer of \<open>SubOrderNext\<close> receives from a Matrix room are, at any time and on any schedule, the first orders of the room behind the position at
  which the subscriber began, in the order of the server, without gaps and repetitions. Failed requests, empty answers and renewed logins do not change that; this is the composition of
  the client, the subscriber, the goroutine and the unbounded channel.\<close>

theorem matrix_orders_received:
  assumes "room_law env srv db events pos valid hs room filt" "je_filter env (order_filter u room) = Inr filt" "sub_inv db events pos valid hs u room (b, c, w)"
    "(SubOrderNext_step [matrix_Subscriber env polls])\<^sup>*\<^sup>* (SubOrderNext_start [matrix_Subscriber env polls] (b, c, w)) s"
  shows "prefix (map snd (uc_received (sr_chan s))) (order_bodies (drop (pos (ms_From b)) (events (snd (snd (sr_world s))))))"
proof -
  have "matrix_subscriber env srv db events pos valid hs room filt u"
    using assms(1,2) by (simp add: matrix_subscriber_def matrix_room_def matrix_subscriber_axioms_def)
  note got = matrix_subscriber.calls_merged [OF this, of 0, OF _ _ _ assms(3,4)]
  have "piece (pos (ms_From b)) (sr_got s ! 0) (events (snd (snd (sr_world s))))"
    using got by (simp add: matrix_Subscriber_def sub_events_def sub_at_def)
  moreover have "merge_inv [matrix_Subscriber env polls] s" using merging.reachable_inv [OF assms(4)] by blast
  then have "prefix (map snd (uc_received (sr_chan s))) (sr_got s ! 0)"
    by (auto simp: merge_inv_def infinite_inv_def sent_by_def prefix_def)
  ultimately show ?thesis using prefix_order_bodies prefix_order.trans by blast
qed

theorem matrix_orders_received_witness:
  "\<exists>s. (SubOrderNext_step [matrix_Subscriber demo_room 1])\<^sup>*\<^sup>* (SubOrderNext_start [matrix_Subscriber demo_room 1] demo_subscription) s
     \<and> uc_received (sr_chan s) \<noteq> [] \<and> prefix (map snd (uc_received (sr_chan s))) [bytes_of ''x'', bytes_of ''y'', bytes_of ''z'']"
proof -
  obtain s where s: "(SubOrderNext_step [matrix_Subscriber demo_room 1])\<^sup>*\<^sup>* (SubOrderNext_start [matrix_Subscriber demo_room 1] demo_subscription) s"
     "uc_received (sr_chan s) = [(0, bytes_of ''x'')]"
    using demo_merge_run unfolding demo_subscribers_def by blast
  have "sub_inv (\<lambda>w. w) demo_events demo_pos demo_valid ''h'' ''@u'' ''!r'' demo_subscription"
    by (simp add: demo_subscription_def sub_inv_def client_ok_def demo_client_def demo_valid_def saved_def texts_def demo_pos_def)
  then have "prefix (map snd (uc_received (sr_chan s))) [bytes_of ''x'', bytes_of ''y'', bytes_of ''z'']"
    using matrix_orders_received [OF demo_room_law, of "''@u''" "fst demo_subscription" "fst (snd demo_subscription)" "snd (snd demo_subscription)" 1 s] s(1)
    by (simp add: demo_room_def demo_subscription_def demo_pos_def demo_events_def order_bodies_def demo_event_def)
  then show ?thesis using s by auto
qed

end
