(* ===== verification/Metrics.thy ===== *)
theory Metrics
  imports Event_Bus Go_State
begin

section \<open>Metrics for CloudWatch (\<open>cloudwatch/metric_producer.go\<close>, \<open>utils/network.go\<close>)\<close>

text \<open>
  The functions that put data into the unbounded channel, the goroutine that takes them out, drops the obsolete ones and
  collects the others in a buffer, and the requests of at most twenty data in which a buffer is sent. Times are nanoseconds. Parameters: the
  clock, the addresses of the host, and the session of the service.
\<close>

subsection \<open>The address of the host\<close>

text \<open>An address of an interface: an \<open>IPNet\<close>, with whether it is the loopback and its text as an IPv4 address, or another kind.\<close>

datatype net_addr = IPNet bool "string option" | OtherAddr

definition GetLocalIp :: "net_addr list res \<Rightarrow> string" where
  "GetLocalIp addrs = (case addrs of
      Inl err \<Rightarrow> ''unknown''
    | Inr addrs \<Rightarrow> fold (\<lambda>a res. case a of IPNet False (Some ip) \<Rightarrow> ip | _ \<Rightarrow> res) addrs ''unknown'')"

fun Split :: "char \<Rightarrow> string \<Rightarrow> string list" where
  "Split sep [] = [[]]"
| "Split sep (x # xs) = (if x = sep then [] # Split sep xs else (x # hd (Split sep xs)) # tl (Split sep xs))"

definition local_ip :: "string \<Rightarrow> string \<Rightarrow> string option" where
  "local_ip prefix v =
    (if length (Split CHR '':'' v) > 1 then None
     else let parts = Split CHR ''/'' v in
       if length parts = 2 \<and> take (length prefix) (parts ! 0) = prefix then Some (parts ! 0) else None)"

fun first_ip :: "string \<Rightarrow> string list \<Rightarrow> string option" where
  "first_ip prefix [] = None"
| "first_ip prefix (v # addresses) = (case local_ip prefix v of Some ip \<Rightarrow> Some ip | None \<Rightarrow> first_ip prefix addresses)"

fun first_interface :: "string \<Rightarrow> string list res list \<Rightarrow> string option" where
  "first_interface prefix [] = None"
| "first_interface prefix (Inl err # interfaces) = first_interface prefix interfaces"
| "first_interface prefix (Inr addresses # interfaces) =
    (case first_ip prefix addresses of Some ip \<Rightarrow> Some ip | None \<Rightarrow> first_interface prefix interfaces)"

definition GetLocalIpByPrefix :: "string \<Rightarrow> string list res list res \<Rightarrow> string" where
  "GetLocalIpByPrefix prefix interfaces = (case interfaces of
      Inl err \<Rightarrow> ''unknown''
    | Inr interfaces \<Rightarrow> (case first_interface prefix interfaces of Some ip \<Rightarrow> ip | None \<Rightarrow> ''unknown''))"

text \<open>Splitting is the inverse of joining, and no part has the separator in it.\<close>

lemma Split_not_Nil [simp]: "Split sep xs \<noteq> []"
  by (cases xs) simp_all

lemma Split_parts: "p \<in> set (Split sep xs) \<Longrightarrow> sep \<notin> set p"
proof (induction xs arbitrary: p)
  case (Cons x xs)
  then show ?case by (cases "Split sep xs") (auto split: if_splits)
qed simp

lemma Split_length: "length (Split sep xs) = Suc (length (filter ((=) sep) xs))"
  by (induction xs) auto

lemma Split_one: "length (Split sep xs) = 1 \<longleftrightarrow> sep \<notin> set xs"
  by (auto simp: Split_length filter_empty_conv)

lemma Split_two:
  "length (Split sep xs) = 2 \<Longrightarrow> xs = Split sep xs ! 0 @ sep # Split sep xs ! 1"
proof (induction xs)
  case (Cons x xs)
  show ?case
  proof (cases "x = sep")
    case True
    then have one: "length (Split sep xs) = 1" using Cons.prems by simp
    then have "Split sep xs = [xs]"
    proof -
      have "sep \<notin> set xs" using one Split_one by metis
      then show ?thesis by (induction xs) auto
    qed
    then show ?thesis using True by simp
  next
    case False
    then have "length (Split sep xs) = 2" using Cons.prems by simp
    then show ?thesis using Cons.IH False by (cases "Split sep xs") (auto simp: nth_Cons')
  qed
qed simp

lemma local_ip_Some:
  assumes "local_ip prefix v = Some ip"
  shows "\<exists>bits. v = ip @ CHR ''/'' # bits" "CHR '':'' \<notin> set ip" "CHR ''/'' \<notin> set ip" "take (length prefix) ip = prefix"
proof -
  from assms have n: "\<not> length (Split CHR '':'' v) > 1" "length (Split CHR ''/'' v) = 2" "ip = Split CHR ''/'' v ! 0" "take (length prefix) ip = prefix"
    by (auto simp: local_ip_def Let_def split: if_splits)
  have v: "v = ip @ CHR ''/'' # Split CHR ''/'' v ! 1" using Split_two [OF n(2)] n(3) by simp
  then show "\<exists>bits. v = ip @ CHR ''/'' # bits" by blast
  have "length (Split CHR '':'' v) = 1" using n(1) by (simp add: Split_length)
  then have "CHR '':'' \<notin> set v" using Split_one by metis
  then show "CHR '':'' \<notin> set ip" using v by (metis Un_iff set_append)
  have "ip \<in> set (Split CHR ''/'' v)" using n(2,3) by simp
  then show "CHR ''/'' \<notin> set ip" by (rule Split_parts)
qed (use assms in \<open>auto simp: local_ip_def Let_def split: if_splits\<close>)

lemma first_ip_Some: "first_ip prefix addresses = Some ip \<Longrightarrow> \<exists>v \<in> set addresses. local_ip prefix v = Some ip"
  by (induction addresses) (auto split: option.splits)

lemma first_interface_Some:
  "first_interface prefix interfaces = Some ip \<Longrightarrow> \<exists>addresses v. Inr addresses \<in> set interfaces \<and> v \<in> set addresses \<and> local_ip prefix v = Some ip"
  by (induction prefix interfaces rule: first_interface.induct) (fastforce dest: first_ip_Some split: option.splits)+

text \<open>The address by which a worker registers: one of the host, as IPv4 and with the prefix, or the word \<open>unknown\<close>.\<close>

lemma GetLocalIpByPrefix_ip:
  assumes "GetLocalIpByPrefix prefix (Inr interfaces) \<noteq> ''unknown''"
  shows "\<exists>addresses bits. Inr addresses \<in> set interfaces \<and> GetLocalIpByPrefix prefix (Inr interfaces) @ CHR ''/'' # bits \<in> set addresses
    \<and> take (length prefix) (GetLocalIpByPrefix prefix (Inr interfaces)) = prefix"
proof -
  obtain ip where ip: "first_interface prefix interfaces = Some ip" "GetLocalIpByPrefix prefix (Inr interfaces) = ip"
    using assms by (auto simp: GetLocalIpByPrefix_def split: option.splits)
  show ?thesis using first_interface_Some [OF ip(1)] local_ip_Some(1,4) ip(2) by metis
qed

subsection \<open>Putting metrics\<close>

record 'f MetricDatum =
  md_MetricName :: string
  md_Value :: 'f
  md_Unit :: string
  md_Timestamp :: int
  md_Dimensions :: "(string \<times> string) list"

text \<open>The variables of the package: the client, nil or with its flag, whether the channel has been closed, and what was sent into it.\<close>

record 'f metric_state =
  mt_enabled :: "bool option"
  mt_closed :: bool
  mt_sent :: "'f MetricDatum list"

definition cloudwatch_Initialize :: "bool \<Rightarrow> string \<Rightarrow> unit res \<Rightarrow> ('f metric_state, unit) st" where
  "cloudwatch_Initialize Enabled Region session =
    (if \<not> Enabled then smod (\<lambda>s. s\<lparr>mt_enabled := Some False\<rparr>)
     else if length Region = 0 then sfail (Err ''CloudWatchConfig.Region is empty'')
     else (case session of
         Inl err \<Rightarrow> sfail err
       | Inr _ \<Rightarrow> smod (\<lambda>s. s\<lparr>mt_enabled := Some True, mt_closed := False, mt_sent := []\<rparr>)))"

definition IsValid :: "'f metric_state \<Rightarrow> bool" where
  "IsValid s \<longleftrightarrow> mt_enabled s = Some True"

definition cloudwatch_Close :: "('f metric_state, unit) st" where
  "cloudwatch_Close =
    sbind (sget (\<lambda>s. s)) (\<lambda>s.
    if IsValid s then (if mt_closed s then sfail (Panic (Fatal ''close of closed channel'')) else smod (\<lambda>s. s\<lparr>mt_closed := True\<rparr>)) else sret ())"

definition storeMetricLocal :: "'f MetricDatum \<Rightarrow> ('f metric_state, unit) st" where
  "storeMetricLocal datum =
    sbind (sget mt_closed) (\<lambda>closed.
    if closed then sfail (Panic (Fatal ''send on closed channel'')) else smod (\<lambda>s. s\<lparr>mt_sent := mt_sent s @ [datum]\<rparr>))"

definition cloneDatum :: "'f MetricDatum \<Rightarrow> 'f MetricDatum" where
  "cloneDatum datum = \<lparr>md_MetricName = md_MetricName datum, md_Value = md_Value datum, md_Unit = md_Unit datum,
     md_Timestamp = md_Timestamp datum, md_Dimensions = []\<rparr>"

definition hostDimension :: "net_addr list res \<Rightarrow> string \<times> string" where
  "hostDimension addrs = (''host'', GetLocalIp addrs)"

definition innerPutMetricData :: "net_addr list res \<Rightarrow> 'f MetricDatum \<Rightarrow> ('f metric_state, unit) st" where
  "innerPutMetricData addrs datum =
    sbind (storeMetricLocal datum) (\<lambda>_. storeMetricLocal ((cloneDatum datum)\<lparr>md_Dimensions := [hostDimension addrs]\<rparr>))"

definition PutResponseTimeMetric :: "net_addr list res \<Rightarrow> int \<Rightarrow> string \<Rightarrow> 'f \<Rightarrow> ('f metric_state, unit) st" where
  "PutResponseTimeMetric addrs now methodName costTime =
    sbind (sget IsValid) (\<lambda>valid.
    if \<not> valid then sret ()
    else innerPutMetricData addrs \<lparr>md_MetricName = ''response_'' @ methodName, md_Value = costTime, md_Unit = ''Milliseconds'',
           md_Timestamp = now, md_Dimensions = []\<rparr>)"

definition PutHeartBeatMetric :: "net_addr list res \<Rightarrow> int \<Rightarrow> 'f \<Rightarrow> string \<Rightarrow> ('f metric_state, unit) st" where
  "PutHeartBeatMetric addrs now one metricName =
    sbind (sget IsValid) (\<lambda>valid.
    if \<not> valid then sret ()
    else innerPutMetricData addrs \<lparr>md_MetricName = metricName, md_Value = one, md_Unit = ''Count'', md_Timestamp = now, md_Dimensions = []\<rparr>)"

lemma innerPutMetricData_open:
  "\<not> mt_closed s \<Longrightarrow> innerPutMetricData addrs datum s =
     (s\<lparr>mt_sent := mt_sent s @ [datum, (cloneDatum datum)\<lparr>md_Dimensions := [(''host'', GetLocalIp addrs)]\<rparr>]\<rparr>, Inr ())"
  by (simp add: innerPutMetricData_def storeMetricLocal_def sget_def smod_def sbind_def hostDimension_def)

text \<open>The client stays valid when its channel is closed, so a metric that is put afterwards ends the process.\<close>

lemma put_after_Close:
  assumes "IsValid s" "\<not> mt_closed s"
  shows "\<exists>s'. cloudwatch_Close s = (s', Inr ()) \<and> PutHeartBeatMetric addrs now one name s' = (s', Inl (Panic (Fatal ''send on closed channel'')))"
  using assms by (simp add: cloudwatch_Close_def PutHeartBeatMetric_def innerPutMetricData_def storeMetricLocal_def IsValid_def sget_def smod_def sfail_def sbind_def)

subsection \<open>Collecting and sending\<close>

definition batchSendSize :: nat where
  "batchSendSize = 20"

definition batchDatumBufferSize :: nat where
  "batchDatumBufferSize = 400"

definition obsoleteCountThreshold :: nat where
  "obsoleteCountThreshold = 200"

text \<open>\<open>batchSendMetricData\<close>: the requests it starts, from the \<open>i\<close>-th on.\<close>

function batch_loop :: "'f MetricDatum list \<Rightarrow> nat \<Rightarrow> 'f MetricDatum list list" where
  "batch_loop datums i =
    (if i * batchSendSize \<ge> length datums then []
     else let endIndex = (i + 1) * batchSendSize;
              endIndex = (if endIndex > length datums then length datums else endIndex)
          in drop (i * batchSendSize) (take endIndex datums) # batch_loop datums (i + 1))"
  by pat_completeness auto
termination
  by (relation "measure (\<lambda>(datums, i). length datums - i * batchSendSize)") (auto simp: batchSendSize_def)

definition batchSendMetricData :: "'f MetricDatum list \<Rightarrow> 'f MetricDatum list list" where
  "batchSendMetricData datums = batch_loop datums 0"

definition checkObsolete :: "int \<Rightarrow> 'f MetricDatum \<Rightarrow> bool" where
  "checkObsolete now datum \<longleftrightarrow> now - md_Timestamp datum > 1000 * 1000 * 1000 * 4"

definition checkTimeout :: "'f MetricDatum \<Rightarrow> int \<Rightarrow> bool" where
  "checkTimeout datum startTime \<longleftrightarrow> md_Timestamp datum - startTime > 1000 * 1000 * 1000 * 2"

record 'f collector =
  mc_obsolete :: nat
  mc_buffer :: "'f MetricDatum list"
  mc_start :: int
  mc_requests :: "'f MetricDatum list list"

definition new_collector :: "int \<Rightarrow> 'f collector" where
  "new_collector now = \<lparr>mc_obsolete = 0, mc_buffer = [], mc_start = now, mc_requests = []\<rparr>"

definition admit :: "int \<Rightarrow> 'f MetricDatum \<Rightarrow> 'f collector \<Rightarrow> 'f collector" where
  "admit now datum s =
    (if checkObsolete now datum
     then s\<lparr>mc_obsolete := (if mc_obsolete s + 1 \<ge> obsoleteCountThreshold then 0 else mc_obsolete s + 1)\<rparr>
     else s\<lparr>mc_buffer := mc_buffer s @ [datum], mc_obsolete := 0\<rparr>)"

definition flush :: "'f MetricDatum \<Rightarrow> 'f collector \<Rightarrow> 'f collector" where
  "flush datum s =
    (if checkTimeout datum (mc_start s) \<and> length (mc_buffer s) > 0 \<or> length (mc_buffer s) \<ge> batchDatumBufferSize
     then s\<lparr>mc_requests := mc_requests s @ batchSendMetricData (mc_buffer s), mc_buffer := [], mc_start := md_Timestamp datum\<rparr>
     else s)"

text \<open>What the goroutine receives: a datum, with the time at which it is looked at, another value, or that the channel is closed.\<close>

datatype 'f received = Datum int "'f MetricDatum" | OtherValue | Closed

fun collect :: "'f received \<Rightarrow> 'f collector \<Rightarrow> 'f collector" where
  "collect (Datum now datum) s = flush datum (admit now datum s)"
| "collect OtherValue s = s"
| "collect Closed s = s"

definition collector_loop :: "'f received list \<Rightarrow> 'f collector \<Rightarrow> 'f collector" where
  "collector_loop items s = fold collect items s"

subsection \<open>No metric is lost\<close>

declare batch_loop.simps [simp del]

lemma batch_loop_step:
  "\<not> i * batchSendSize \<ge> length datums \<Longrightarrow>
   batch_loop datums i = drop (i * batchSendSize) (take (min (length datums) ((i + 1) * batchSendSize)) datums) # batch_loop datums (i + 1)"
  by (subst batch_loop.simps) (simp add: Let_def min_def)

lemma batch_loop_concat: "concat (batch_loop datums i) = drop (i * batchSendSize) datums"
proof (induction datums i rule: batch_loop.induct)
  case (1 datums i)
  show ?case
  proof (cases "i * batchSendSize \<ge> length datums")
    case False
    let ?e = "min (length datums) ((i + 1) * batchSendSize)"
    have "concat (batch_loop datums i) = drop (i * batchSendSize) (take ?e datums) @ drop ((i + 1) * batchSendSize) datums"
      using 1 False by (simp add: batch_loop_step)
    also have "drop ((i + 1) * batchSendSize) datums = drop ?e datums" by (simp add: min_def)
    also have "drop (i * batchSendSize) (take ?e datums) @ drop ?e datums = drop (i * batchSendSize) (take ?e datums @ drop ?e datums)"
      using False by (subst drop_append) simp
    finally show ?thesis by simp
  qed (subst batch_loop.simps, simp)
qed

lemma batch_loop_sizes: "b \<in> set (batch_loop datums i) \<Longrightarrow> 0 < length b \<and> length b \<le> batchSendSize"
proof (induction datums i rule: batch_loop.induct)
  case (1 datums i)
  show ?case
  proof (cases "i * batchSendSize \<ge> length datums")
    case True
    then show ?thesis using 1(2) by (subst (asm) batch_loop.simps) simp
  next
    case False
    let ?e = "min (length datums) ((i + 1) * batchSendSize)"
    have "b = drop (i * batchSendSize) (take ?e datums) \<or> b \<in> set (batch_loop datums (i + 1))"
      using 1(2) unfolding batch_loop_step [OF False] by simp
    moreover have "0 < length (drop (i * batchSendSize) (take ?e datums))" "length (drop (i * batchSendSize) (take ?e datums)) \<le> batchSendSize"
      using False by (auto simp: batchSendSize_def)
    ultimately show ?thesis using 1(1) [OF False refl refl] by auto
  qed
qed

definition fresh :: "'f received list \<Rightarrow> 'f MetricDatum list" where
  "fresh items = concat (map (\<lambda>r. case r of Datum now datum \<Rightarrow> if checkObsolete now datum then [] else [datum] | _ \<Rightarrow> []) items)"

lemma fresh_simps [simp]:
  "fresh [] = []" "fresh (Datum now datum # items) = (if checkObsolete now datum then fresh items else datum # fresh items)"
  "fresh (OtherValue # items) = fresh items" "fresh (Closed # items) = fresh items"
  by (simp_all add: fresh_def)

definition collector_inv :: "'f collector \<Rightarrow> bool" where
  "collector_inv s \<longleftrightarrow> length (mc_buffer s) < batchDatumBufferSize \<and> mc_obsolete s < obsoleteCountThreshold
     \<and> (\<forall>b \<in> set (mc_requests s). 0 < length b \<and> length b \<le> batchSendSize)"

lemmas collector_defs = collector_inv_def admit_def flush_def batchDatumBufferSize_def obsoleteCountThreshold_def

lemma collect_inv: "collector_inv s \<Longrightarrow> collector_inv (collect item s)"
  by (cases item) (auto simp: collector_defs batchSendMetricData_def dest: batch_loop_sizes)

lemma collect_content:
  "concat (mc_requests (collect item s)) @ mc_buffer (collect item s) = concat (mc_requests s) @ mc_buffer s @ fresh [item]"
  by (cases item) (simp_all add: admit_def flush_def batchSendMetricData_def batch_loop_concat)

lemma collector_loop_spec:
  "collector_inv s \<Longrightarrow> collector_inv (collector_loop items s)
     \<and> concat (mc_requests (collector_loop items s)) @ mc_buffer (collector_loop items s) = concat (mc_requests s) @ mc_buffer s @ fresh items"
proof (induction items arbitrary: s)
  case (Cons item items)
  have "fresh (item # items) = fresh [item] @ fresh items" by (simp add: fresh_def)
  then show ?case using Cons.IH [OF collect_inv [OF Cons.prems, of item]] collect_content [of item s] by (simp add: collector_loop_def)
qed (simp add: collector_loop_def)

text \<open>Claim C28: the collecting goroutine loses, doubles and reorders no metric: whatever it has received, the data of the requests it has started, one request after the other,
  followed by its buffer, are exactly the data that were not older than four seconds when it looked at them, in the order in which they came. Every request
  has between one and twenty data, which is what the service accepts, and the buffer stays below its size of four hundred.\<close>

theorem metrics_accounted:
  fixes items :: "'f received list"
  shows "concat (mc_requests (collector_loop items (new_collector now))) @ mc_buffer (collector_loop items (new_collector now)) = fresh items
    \<and> list_all (\<lambda>b. 0 < length b \<and> length b \<le> 20) (mc_requests (collector_loop items (new_collector now)))
    \<and> length (mc_buffer (collector_loop items (new_collector now))) < 400 \<and> mc_obsolete (collector_loop items (new_collector now)) < 200"
proof -
  have "collector_inv (new_collector now :: 'f collector)" by (simp add: collector_defs new_collector_def)
  from collector_loop_spec [OF this, of items] show ?thesis
    by (simp add: collector_defs batchSendSize_def new_collector_def list_all_iff)
qed

text \<open>After the channel is closed the goroutine goes on receiving that it is closed, without end, and what its buffer holds is never sent.\<close>

lemma closed_collector_spins: "collector_loop (replicate n Closed) s = s"
  by (induction n) (simp_all add: collector_loop_def)

end
