(* ===== verification/Zk_Config.thy ===== *)
theory Zk_Config
  imports Zk_Balancer "HOL-Library.Sublist"
begin

section \<open>Shared configuration in ZooKeeper (\<open>zklock/zk_config.go\<close>)\<close>

text \<open>
  A handler that is registered for a key of the shared configuration gets the value of the key, and the new value when the node
  changes. ZooKeeper reports the first change after \<open>GetW\<close> on a channel that the call returns; the channel carries one
  event and is closed then, and a receive from a closed channel gives the zero event at once. \<open>GetW\<close> reads the value and sets the watch
  in one step.
\<close>

definition configShareBasePath :: string where
  "configShareBasePath = ''/loopring_config''"

text \<open>Registration: the paths are made, and the value is read and handed to the handler. The result is the value, or \<open>None\<close> when the
  read failed, which is only logged: the registration succeeds without a handler in place.\<close>

definition RegisterConfigHandler ::
  "'z zk_ops \<Rightarrow> ('z \<Rightarrow> string \<Rightarrow> bytes res) \<Rightarrow> 'l zk_locks \<Rightarrow> string \<Rightarrow> string \<Rightarrow> 'z \<Rightarrow> 'z \<times> bytes option res" where
  "RegisterConfigHandler Z GetW zl namespace key z =
    (if \<not> IsLockInitialed zl then (z, Inl (Err ''zkClient is not intiliazed''))
     else case CreatePath Z z configShareBasePath of
       (z, Inl e) \<Rightarrow> (z, Inl (Err ''create config base path failed''))
     | (z, Inr _) \<Rightarrow>
     let ns = path_of configShareBasePath namespace
     in case CreatePath Z z ns of
       (z, Inl e) \<Rightarrow> (z, Inl (Err ''create config namespace path failed''))
     | (z, Inr _) \<Rightarrow>
     let keyPath = path_of ns key
     in case CreatePath Z z keyPath of
       (z, Inl e) \<Rightarrow> (z, Inl (Err ''create config key path failed''))
     | (z, Inr _) \<Rightarrow> (case GetW z keyPath of Inl e \<Rightarrow> (z, Inr None) | Inr data \<Rightarrow> (z, Inr (Some data))))"

subsection \<open>The watching goroutine\<close>

datatype zk_event = EventNodeDataChanged | EventNodeDeleted | EventNotWatching | NoEvent

text \<open>The channel the goroutine waits on: nothing has happened yet, it carries an event, or it is used up and closed. \<open>cw_values\<close> are all values the
  node has had since the registration, the current one last, and \<open>cw_handled\<close> what the handler was called with.\<close>

datatype watch = Armed | Fired zk_event | Spent

record config_watch =
  cw_exists :: bool
  cw_values :: "bytes list"
  cw_watch :: watch
  cw_handled :: "bytes list"

definition config_start :: "bytes \<Rightarrow> config_watch" where
  "config_start data = \<lparr>cw_exists = True, cw_values = [data], cw_watch = Armed, cw_handled = [data]\<rparr>"

definition fire :: "zk_event \<Rightarrow> watch \<Rightarrow> watch" where
  "fire evt w = (if w = Armed then Fired evt else w)"

inductive config_env :: "config_watch \<Rightarrow> config_watch \<Rightarrow> bool" where
  node_changed: "cw_exists s \<Longrightarrow> config_env s (s\<lparr>cw_values := cw_values s @ [v], cw_watch := fire EventNodeDataChanged (cw_watch s)\<rparr>)"
| node_deleted: "cw_exists s \<Longrightarrow> config_env s (s\<lparr>cw_exists := False, cw_watch := fire EventNodeDeleted (cw_watch s)\<rparr>)"
| node_created: "\<not> cw_exists s \<Longrightarrow> config_env s (s\<lparr>cw_exists := True, cw_values := cw_values s @ [v]\<rparr>)"
| watch_lost: "config_env s (s\<lparr>cw_watch := fire EventNotWatching (cw_watch s)\<rparr>)"

text \<open>One turn of the loop, with whether \<open>GetW\<close> succeeds; it fails when the node is gone.\<close>

definition watch_turn :: "bool \<Rightarrow> config_watch \<Rightarrow> config_watch" where
  "watch_turn reachable s =
    (case cw_watch s of
       Armed \<Rightarrow> s
     | Fired evt \<Rightarrow>
         if evt = EventNodeDataChanged \<and> reachable \<and> cw_exists s
         then s\<lparr>cw_watch := Armed, cw_handled := cw_handled s @ [last (cw_values s)]\<rparr>
         else s\<lparr>cw_watch := Spent\<rparr>
     | Spent \<Rightarrow> s)"

inductive config_step :: "config_watch \<Rightarrow> config_watch \<Rightarrow> bool" where
  env: "config_env s s' \<Longrightarrow> config_step s s'"
| turn: "config_step s (watch_turn reachable s)"

subsection \<open>What the handler sees\<close>

definition config_inv :: "config_watch \<Rightarrow> bool" where
  "config_inv s \<longleftrightarrow> cw_values s \<noteq> [] \<and> cw_handled s \<noteq> [] \<and> subseq (cw_handled s) (cw_values s)
     \<and> (cw_watch s = Armed \<longrightarrow> cw_exists s \<and> last (cw_handled s) = last (cw_values s))
     \<and> (cw_watch s = Fired EventNodeDataChanged \<longrightarrow> subseq (cw_handled s) (butlast (cw_values s)))"

lemma config_env_inv: "config_inv s \<Longrightarrow> config_env s s' \<Longrightarrow> config_inv s'"
  by (erule config_env.cases) (auto simp: config_inv_def fire_def subseq_append)

lemma watch_turn_inv:
  assumes "config_inv s"
  shows "config_inv (watch_turn reachable s)"
proof (cases "cw_watch s = Fired EventNodeDataChanged \<and> reachable \<and> cw_exists s")
  case True
  have "butlast (cw_values s) @ [last (cw_values s)] = cw_values s" using assms by (simp add: config_inv_def)
  moreover have "subseq (cw_handled s @ [last (cw_values s)]) (butlast (cw_values s) @ [last (cw_values s)])"
    using assms True by (intro list_emb_append_mono) (simp_all add: config_inv_def)
  ultimately have "subseq (cw_handled s @ [last (cw_values s)]) (cw_values s)" by (simp only:)
  then show ?thesis using assms True by (simp add: config_inv_def watch_turn_def)
qed (use assms in \<open>auto simp: config_inv_def watch_turn_def split: watch.splits\<close>)

interpretation config_watching: transition_system "\<lambda>s. \<exists>data. s = config_start data" config_step config_inv
proof unfold_locales
  fix s s' :: config_watch
  show "\<exists>data. s = config_start data \<Longrightarrow> config_inv s" by (auto simp: config_inv_def config_start_def)
  assume "config_inv s" "config_step s s'"
  then show "config_inv s'" by (auto elim!: config_step.cases intro: config_env_inv watch_turn_inv)
qed

text \<open>Claim C29: whatever happens to the node and to the connection, the handler is called with values of the node in the order in which the node had them, none of them twice for one change;
  as long as the watch is in place the handler has the current value, and when it has reported a change the next turn of the loop that can read the node
  hands over the value that is current then.\<close>

theorem config_handler_current:
  assumes "config_step\<^sup>*\<^sup>* (config_start data) s"
  shows "subseq (cw_handled s) (cw_values s) \<and> (cw_watch s = Armed \<longrightarrow> last (cw_handled s) = last (cw_values s))
    \<and> (cw_watch s = Fired EventNodeDataChanged \<and> cw_exists s \<longrightarrow>
         cw_watch (watch_turn True s) = Armed \<and> cw_handled (watch_turn True s) = cw_handled s @ [last (cw_values s)])"
proof -
  have "config_inv s" using config_watching.reachable_inv [OF assms] by blast
  then show ?thesis by (simp add: config_inv_def watch_turn_def)
qed

theorem config_handler_current_witness:
  "\<exists>s. config_step\<^sup>*\<^sup>* (config_start [1]) s \<and> cw_values s = [[1], [2], [3]] \<and> cw_handled (watch_turn True s) = [[1], [3]]"
proof -
  let ?s1 = "(config_start [1])\<lparr>cw_values := [[1], [2]], cw_watch := Fired EventNodeDataChanged\<rparr>"
  let ?s2 = "?s1\<lparr>cw_values := [[1], [2], [3]]\<rparr>"
  have "config_step (config_start [1]) ?s1"
    using env [OF node_changed [of "config_start [1]" "[2]"]] by (simp add: config_start_def fire_def)
  moreover have "config_step ?s1 ?s2" using env [OF node_changed [of ?s1 "[3]"]] by (simp add: config_start_def fire_def)
  ultimately have run: "config_step\<^sup>*\<^sup>* (config_start [1]) ?s2" by (meson converse_rtranclp_into_rtranclp r_into_rtranclp)
  then show ?thesis using config_handler_current [OF run] by (intro exI [of _ ?s2]) (simp add: config_start_def)
qed

text \<open>A watch that was lost with the connection, or whose value could not be read, is not set again: from then on the handler is never called, whatever
  changes, and every turn of the loop receives the zero event of the closed channel at once.\<close>

lemma config_deaf:
  assumes "config_step\<^sup>*\<^sup>* s s'" "cw_watch s = Spent"
  shows "cw_watch s' = Spent \<and> cw_handled s' = cw_handled s"
  using assms
proof (induction rule: rtranclp_induct)
  case (step s' s'')
  from step.hyps(2) step.IH [OF step.prems] show ?case
    by (auto simp: watch_turn_def fire_def elim!: config_step.cases config_env.cases)
qed simp

lemma config_lost_connection:
  assumes "cw_watch s = Armed" "config_step\<^sup>*\<^sup>* (watch_turn reachable (s\<lparr>cw_watch := fire EventNotWatching (cw_watch s)\<rparr>)) s'"
  shows "config_step s (s\<lparr>cw_watch := fire EventNotWatching (cw_watch s)\<rparr>)" "cw_handled s' = cw_handled s"
proof -
  show "config_step s (s\<lparr>cw_watch := fire EventNotWatching (cw_watch s)\<rparr>)" by (rule env) (rule watch_lost)
  show "cw_handled s' = cw_handled s" using config_deaf [OF assms(2)] assms(1) by (simp add: watch_turn_def fire_def)
qed

end
