(* ===== verification/Order_Json.thy ===== *)
theory Order_Json
  imports Orders Go_State
begin

section \<open>Orders as JSON (\<open>types/gen_order_json.go\<close>, \<open>gen_order_request_json.go\<close>, \<open>gen_p2pOrder_request_json.go\<close>)\<close>

text \<open>
  The generated codecs of the order and of the two order requests, on JSON objects: a list of members, name and value, in their order. The
  syntax of JSON is not modelled. A member belongs to a field when the names agree up to case, as \<open>encoding/json\<close> has it; a member that
  cannot be decoded fails the whole object; of several members for a field the last one counts, decoded into what the one before it left; a null
  resets the field. Parameters: the text form of fractions and the base point multiplication that keys need.
\<close>

subsection \<open>Members and fields\<close>

datatype jval = JNull | JBool bool | JNum int | JText string | JOther

type_synonym jobj = "(string \<times> jval) list"

text \<open>Names are compared without case; \<open>fold_key\<close> also maps the two letters outside of ASCII that fold to \<open>s\<close> and \<open>k\<close>, in their UTF-8 form.\<close>

definition lower :: "char \<Rightarrow> char" where
  "lower c = (if 65 \<le> (of_char c :: nat) \<and> of_char c \<le> (90 :: nat) then char_of (of_char c + 32 :: nat) else c)"

fun fold_key :: "string \<Rightarrow> string" where
  "fold_key [] = []"
| "fold_key (a # b # c # s) =
    (if of_char a = (0xE2 :: nat) \<and> of_char b = (0x84 :: nat) \<and> of_char c = (0xAA :: nat) then CHR ''k'' # fold_key s
     else if of_char a = (0xC5 :: nat) \<and> of_char b = (0xBF :: nat) then CHR ''s'' # fold_key (c # s)
     else lower a # fold_key (b # c # s))"
| "fold_key (a # b # s) =
    (if of_char a = (0xC5 :: nat) \<and> of_char b = (0xBF :: nat) then CHR ''s'' # fold_key s else lower a # fold_key (b # s))"
| "fold_key (a # s) = lower a # fold_key s"

definition members :: "string \<Rightarrow> jobj \<Rightarrow> jval list" where
  "members name obj = map snd (filter (\<lambda>(k, v). fold_key k = fold_key name) obj)"

text \<open>Decoding the members of a field one after the other, into a pointer that is nil at first.\<close>

fun pointer :: "('a \<Rightarrow> jval \<Rightarrow> 'a res) \<Rightarrow> 'a \<Rightarrow> 'a option \<Rightarrow> jval list \<Rightarrow> 'a option res" where
  "pointer dec zero p [] = Inr p"
| "pointer dec zero p (JNull # vs) = pointer dec zero None vs"
| "pointer dec zero p (v # vs) =
    (case dec (case p of None \<Rightarrow> zero | Some x \<Rightarrow> x) v of Inl e \<Rightarrow> Inl e | Inr x \<Rightarrow> pointer dec zero (Some x) vs)"

definition decodes :: "('a \<Rightarrow> jval \<Rightarrow> 'a res) \<Rightarrow> 'a \<Rightarrow> string \<Rightarrow> jobj \<Rightarrow> bool" where
  "decodes dec zero name obj = (case pointer dec zero None (members name obj) of Inl _ \<Rightarrow> False | Inr _ \<Rightarrow> True)"

definition ptr :: "('a \<Rightarrow> jval \<Rightarrow> 'a res) \<Rightarrow> 'a \<Rightarrow> string \<Rightarrow> jobj \<Rightarrow> 'a option" where
  "ptr dec zero name obj = (case pointer dec zero None (members name obj) of Inl _ \<Rightarrow> None | Inr p \<Rightarrow> p)"

subsection \<open>The kinds of fields\<close>

definition text_dec :: "('a \<Rightarrow> string \<Rightarrow> 'a res) \<Rightarrow> 'a \<Rightarrow> jval \<Rightarrow> 'a res" where
  "text_dec f x v = (case v of JText s \<Rightarrow> f x s | _ \<Rightarrow> Inl (Err ''json: cannot unmarshal''))"

definition num_dec :: "int \<Rightarrow> int \<Rightarrow> int \<Rightarrow> jval \<Rightarrow> int res" where
  "num_dec lo hi x v = (case v of JNum n \<Rightarrow> if lo \<le> n \<and> n \<le> hi then Inr n else Inl (Err ''json: cannot unmarshal'')
     | _ \<Rightarrow> Inl (Err ''json: cannot unmarshal''))"

definition addr_dec :: "address \<Rightarrow> jval \<Rightarrow> address res" where
  "addr_dec = text_dec (\<lambda>_. UnmarshalFixedText 20)"

definition hash_dec :: "hash \<Rightarrow> jval \<Rightarrow> hash res" where
  "hash_dec = text_dec (\<lambda>_. UnmarshalFixedText 32)"

definition b32_dec :: "bytes32 \<Rightarrow> jval \<Rightarrow> bytes32 res" where
  "b32_dec = text_dec (\<lambda>x s. Inr (Bytes32_UnmarshalText x s))"

definition big_dec :: "int \<Rightarrow> jval \<Rightarrow> int res" where
  "big_dec = text_dec (\<lambda>_ s. Inr (Big_UnmarshalText s))"

definition string_dec :: "string \<Rightarrow> jval \<Rightarrow> string res" where
  "string_dec = text_dec (\<lambda>_ s. Inr s)"

definition key_dec :: "(bytes \<Rightarrow> 'pub option) \<Rightarrow> 'pub EthPrivateKeyCrypto \<Rightarrow> jval \<Rightarrow> 'pub EthPrivateKeyCrypto res" where
  "key_dec ec_base = text_dec (PrivateKey_UnmarshalText ec_base)"

definition bool_dec :: "bool \<Rightarrow> jval \<Rightarrow> bool res" where
  "bool_dec x v = (case v of JBool b \<Rightarrow> Inr b | _ \<Rightarrow> Inl (Err ''json: cannot unmarshal''))"

definition uint8_dec :: "byte \<Rightarrow> jval \<Rightarrow> byte res" where
  "uint8_dec x v = rbind (num_dec 0 255 0 v) (\<lambda>n. Inr (word_of_int n))"

definition int64_dec :: "int \<Rightarrow> jval \<Rightarrow> int res" where
  "int64_dec = num_dec (- (2 ^ 63)) (2 ^ 63 - 1)"

definition uint64_dec :: "int \<Rightarrow> jval \<Rightarrow> int res" where
  "uint64_dec = num_dec 0 (2 ^ 64 - 1)"

definition rat_dec :: "(string \<Rightarrow> rat res) \<Rightarrow> rat \<Rightarrow> jval \<Rightarrow> rat res" where
  "rat_dec rat_SetString = text_dec (\<lambda>_. rat_SetString)"

definition zero_key :: "'pub EthPrivateKeyCrypto" where
  "zero_key = \<lparr>homestead = False, privateKey = None\<rparr>"

definition opt_enc :: "('a \<Rightarrow> string) \<Rightarrow> 'a option \<Rightarrow> jval" where
  "opt_enc marshal x = (case x of None \<Rightarrow> JNull | Some x \<Rightarrow> JText (marshal x))"

subsection \<open>Storing the fields\<close>

definition required :: "string \<Rightarrow> string \<Rightarrow> 'a option \<Rightarrow> ('a \<Rightarrow> 'o \<Rightarrow> 'o) \<Rightarrow> ('o, unit) st" where
  "required ty name p set_field =
    (case p of
       None \<Rightarrow> sfail (Err (''missing required field '' @ [CHR 0x27] @ name @ [CHR 0x27] @ '' for '' @ ty))
     | Some x \<Rightarrow> smod (set_field x))"

definition optional :: "'a option \<Rightarrow> ('a \<Rightarrow> 'o \<Rightarrow> 'o) \<Rightarrow> ('o, unit) st" where
  "optional p set_field = (case p of None \<Rightarrow> sret () | Some x \<Rightarrow> smod (set_field x))"

fun steps :: "('o, unit) st list \<Rightarrow> ('o, unit) st" where
  "steps [] = sret ()"
| "steps (m # ms) = sbind m (\<lambda>_. steps ms)"

subsection \<open>The order\<close>

definition Order_MarshalJSON :: "(rat \<Rightarrow> string) \<Rightarrow> 'pub Order \<Rightarrow> jobj" where
  "Order_MarshalJSON rat_String order =
    [(''protocol'', JText (hexutil_Encode (ord_Protocol order))),
     (''delegateAddress'', JText (hexutil_Encode (ord_DelegateAddress order))),
     (''authAddr'', JText (hexutil_Encode (ord_AuthAddr order))),
     (''authPrivateKey'', JText (PrivateKey_MarshalText (ord_AuthPrivateKey order))),
     (''walletAddress'', JText (hexutil_Encode (ord_WalletAddress order))),
     (''tokenS'', JText (hexutil_Encode (ord_TokenS order))),
     (''tokenB'', JText (hexutil_Encode (ord_TokenB order))),
     (''amountS'', opt_enc Big_MarshalText (ord_AmountS order)),
     (''amountB'', opt_enc Big_MarshalText (ord_AmountB order)),
     (''validSince'', opt_enc Big_MarshalText (ord_ValidSince order)),
     (''validUntil'', opt_enc Big_MarshalText (ord_ValidUntil order)),
     (''lrcFee'', opt_enc Big_MarshalText (ord_LrcFee order)),
     (''buyNoMoreThanAmountB'', JBool (ord_BuyNoMoreThanAmountB order)),
     (''marginSplitPercentage'', JNum (uint (ord_MarginSplitPercentage order))),
     (''v'', JNum (uint (ord_V order))),
     (''r'', JText (Bytes32_MarshalText (ord_R order))),
     (''s'', JText (Bytes32_MarshalText (ord_S order))),
     (''price'', opt_enc rat_String (ord_Price order)),
     (''owner'', JText (hexutil_Encode (ord_Owner order))),
     (''hash'', JText (hexutil_Encode (ord_Hash order))),
     (''market'', JText (ord_Market order)),
     (''createTime'', JNum (ord_CreateTime order)),
     (''powNonce'', JNum (ord_PowNonce order)),
     (''side'', JText (ord_Side order)),
     (''orderType'', JText (ord_OrderType order)),
     (''p2pSide'', JText (ord_P2PSide order)),
     (''sourceId'', JText (ord_SourceId order))]"

definition Order_decodes :: "(bytes \<Rightarrow> 'pub option) \<Rightarrow> (string \<Rightarrow> rat res) \<Rightarrow> jobj \<Rightarrow> bool" where
  "Order_decodes ec_base rat_SetString obj \<longleftrightarrow>
     decodes addr_dec zero_address ''protocol'' obj
   \<and> decodes addr_dec zero_address ''delegateAddress'' obj
   \<and> decodes addr_dec zero_address ''authAddr'' obj
   \<and> decodes (key_dec ec_base) zero_key ''authPrivateKey'' obj
   \<and> decodes addr_dec zero_address ''walletAddress'' obj
   \<and> decodes addr_dec zero_address ''tokenS'' obj
   \<and> decodes addr_dec zero_address ''tokenB'' obj
   \<and> decodes big_dec 0 ''amountS'' obj
   \<and> decodes big_dec 0 ''amountB'' obj
   \<and> decodes big_dec 0 ''validSince'' obj
   \<and> decodes big_dec 0 ''validUntil'' obj
   \<and> decodes big_dec 0 ''lrcFee'' obj
   \<and> decodes bool_dec False ''buyNoMoreThanAmountB'' obj
   \<and> decodes uint8_dec 0 ''marginSplitPercentage'' obj
   \<and> decodes uint8_dec 0 ''v'' obj
   \<and> decodes b32_dec zero_hash ''r'' obj
   \<and> decodes b32_dec zero_hash ''s'' obj
   \<and> decodes (rat_dec rat_SetString) 0 ''price'' obj
   \<and> decodes addr_dec zero_address ''owner'' obj
   \<and> decodes hash_dec zero_hash ''hash'' obj
   \<and> decodes string_dec '''' ''market'' obj
   \<and> decodes int64_dec 0 ''createTime'' obj
   \<and> decodes uint64_dec 0 ''powNonce'' obj
   \<and> decodes string_dec '''' ''side'' obj
   \<and> decodes string_dec '''' ''orderType'' obj
   \<and> decodes string_dec '''' ''p2pSide'' obj
   \<and> decodes string_dec '''' ''sourceId'' obj"

definition Order_UnmarshalJSON :: "(bytes \<Rightarrow> 'pub option) \<Rightarrow> (string \<Rightarrow> rat res) \<Rightarrow> jobj \<Rightarrow> ('pub Order, unit) st" where
  "Order_UnmarshalJSON ec_base rat_SetString obj =
    (if \<not> Order_decodes ec_base rat_SetString obj then sfail (Err ''json: cannot unmarshal'')
     else steps
    [required ''Order'' ''protocol'' (ptr addr_dec zero_address ''protocol'' obj) (\<lambda>v x. x\<lparr>ord_Protocol := v\<rparr>),
     required ''Order'' ''delegateAddress'' (ptr addr_dec zero_address ''delegateAddress'' obj) (\<lambda>v x. x\<lparr>ord_DelegateAddress := v\<rparr>),
     required ''Order'' ''authAddr'' (ptr addr_dec zero_address ''authAddr'' obj) (\<lambda>v x. x\<lparr>ord_AuthAddr := v\<rparr>),
     required ''Order'' ''authPrivateKey'' (ptr (key_dec ec_base) zero_key ''authPrivateKey'' obj) (\<lambda>v x. x\<lparr>ord_AuthPrivateKey := v\<rparr>),
     required ''Order'' ''walletAddress'' (ptr addr_dec zero_address ''walletAddress'' obj) (\<lambda>v x. x\<lparr>ord_WalletAddress := v\<rparr>),
     required ''Order'' ''tokenS'' (ptr addr_dec zero_address ''tokenS'' obj) (\<lambda>v x. x\<lparr>ord_TokenS := v\<rparr>),
     required ''Order'' ''tokenB'' (ptr addr_dec zero_address ''tokenB'' obj) (\<lambda>v x. x\<lparr>ord_TokenB := v\<rparr>),
     required ''Order'' ''amountS'' (ptr big_dec 0 ''amountS'' obj) (\<lambda>v x. x\<lparr>ord_AmountS := Some v\<rparr>),
     required ''Order'' ''amountB'' (ptr big_dec 0 ''amountB'' obj) (\<lambda>v x. x\<lparr>ord_AmountB := Some v\<rparr>),
     required ''Order'' ''validSince'' (ptr big_dec 0 ''validSince'' obj) (\<lambda>v x. x\<lparr>ord_ValidSince := Some v\<rparr>),
     required ''Order'' ''validUntil'' (ptr big_dec 0 ''validUntil'' obj) (\<lambda>v x. x\<lparr>ord_ValidUntil := Some v\<rparr>),
     optional (ptr big_dec 0 ''lrcFee'' obj) (\<lambda>v x. x\<lparr>ord_LrcFee := Some v\<rparr>),
     required ''Order'' ''buyNoMoreThanAmountB'' (ptr bool_dec False ''buyNoMoreThanAmountB'' obj) (\<lambda>v x. x\<lparr>ord_BuyNoMoreThanAmountB := v\<rparr>),
     required ''Order'' ''marginSplitPercentage'' (ptr uint8_dec 0 ''marginSplitPercentage'' obj) (\<lambda>v x. x\<lparr>ord_MarginSplitPercentage := v\<rparr>),
     required ''Order'' ''v'' (ptr uint8_dec 0 ''v'' obj) (\<lambda>v x. x\<lparr>ord_V := v\<rparr>),
     required ''Order'' ''r'' (ptr b32_dec zero_hash ''r'' obj) (\<lambda>v x. x\<lparr>ord_R := v\<rparr>),
     required ''Order'' ''s'' (ptr b32_dec zero_hash ''s'' obj) (\<lambda>v x. x\<lparr>ord_S := v\<rparr>),
     optional (ptr (rat_dec rat_SetString) 0 ''price'' obj) (\<lambda>v x. x\<lparr>ord_Price := Some v\<rparr>),
     optional (ptr addr_dec zero_address ''owner'' obj) (\<lambda>v x. x\<lparr>ord_Owner := v\<rparr>),
     optional (ptr hash_dec zero_hash ''hash'' obj) (\<lambda>v x. x\<lparr>ord_Hash := v\<rparr>),
     optional (ptr string_dec '''' ''market'' obj) (\<lambda>v x. x\<lparr>ord_Market := v\<rparr>),
     optional (ptr int64_dec 0 ''createTime'' obj) (\<lambda>v x. x\<lparr>ord_CreateTime := v\<rparr>),
     optional (ptr uint64_dec 0 ''powNonce'' obj) (\<lambda>v x. x\<lparr>ord_PowNonce := v\<rparr>),
     optional (ptr string_dec '''' ''side'' obj) (\<lambda>v x. x\<lparr>ord_Side := v\<rparr>),
     optional (ptr string_dec '''' ''orderType'' obj) (\<lambda>v x. x\<lparr>ord_OrderType := v\<rparr>),
     optional (ptr string_dec '''' ''p2pSide'' obj) (\<lambda>v x. x\<lparr>ord_P2PSide := v\<rparr>),
     optional (ptr string_dec '''' ''sourceId'' obj) (\<lambda>v x. x\<lparr>ord_SourceId := v\<rparr>)])"

subsection \<open>The order requests\<close>

text \<open>The peer-to-peer request has one more field, before the last two.\<close>

definition request_members :: "(rat \<Rightarrow> string) \<Rightarrow> ('pub, 'x) OrderJsonRequest_scheme \<Rightarrow> jobj" where
  "request_members rat_String order =
    [(''protocol'', JText (hexutil_Encode (req_Protocol order))),
     (''delegateAddress'', JText (hexutil_Encode (req_DelegateAddress order))),
     (''tokenS'', JText (hexutil_Encode (req_TokenS order))),
     (''tokenB'', JText (hexutil_Encode (req_TokenB order))),
     (''authAddr'', JText (hexutil_Encode (req_AuthAddr order))),
     (''authPrivateKey'', JText (PrivateKey_MarshalText (req_AuthPrivateKey order))),
     (''walletAddress'', JText (hexutil_Encode (req_WalletAddress order))),
     (''amountS'', opt_enc Big_MarshalText (req_AmountS order)),
     (''amountB'', opt_enc Big_MarshalText (req_AmountB order)),
     (''validSince'', opt_enc Big_MarshalText (req_ValidSince order)),
     (''validUntil'', opt_enc Big_MarshalText (req_ValidUntil order)),
     (''lrcFee'', opt_enc Big_MarshalText (req_LrcFee order)),
     (''buyNoMoreThanAmountB'', JBool (req_BuyNoMoreThanAmountB order)),
     (''marginSplitPercentage'', JNum (uint (req_MarginSplitPercentage order))),
     (''v'', JNum (uint (req_V order))),
     (''r'', JText (Bytes32_MarshalText (req_R order))),
     (''s'', JText (Bytes32_MarshalText (req_S order))),
     (''price'', opt_enc rat_String (req_Price order)),
     (''owner'', JText (hexutil_Encode (req_Owner order))),
     (''hash'', JText (hexutil_Encode (req_Hash order))),
     (''createTime'', JNum (req_CreateTime order)),
     (''powNonce'', JNum (req_PowNonce order)),
     (''side'', JText (req_Side order)),
     (''orderType'', JText (req_OrderType order))]"

definition request_members_last :: "('pub, 'x) OrderJsonRequest_scheme \<Rightarrow> jobj" where
  "request_members_last order =
    [(''p2pSide'', JText (req_P2PSide order)),
     (''sourceId'', JText (req_SourceId order))]"

definition OrderJsonRequest_MarshalJSON :: "(rat \<Rightarrow> string) \<Rightarrow> 'pub OrderJsonRequest \<Rightarrow> jobj" where
  "OrderJsonRequest_MarshalJSON rat_String order = request_members rat_String order @ request_members_last order"

definition P2POrderJsonRequest_MarshalJSON :: "(rat \<Rightarrow> string) \<Rightarrow> 'pub P2POrderJsonRequest \<Rightarrow> jobj" where
  "P2POrderJsonRequest_MarshalJSON rat_String order =
    request_members rat_String order @ [(''makerOrderHash'', JText (hexutil_Encode (req_MakerOrderHash order)))] @ request_members_last order"

definition request_decodes :: "(bytes \<Rightarrow> 'pub option) \<Rightarrow> (string \<Rightarrow> rat res) \<Rightarrow> jobj \<Rightarrow> bool" where
  "request_decodes ec_base rat_SetString obj \<longleftrightarrow>
     decodes addr_dec zero_address ''protocol'' obj
   \<and> decodes addr_dec zero_address ''delegateAddress'' obj
   \<and> decodes addr_dec zero_address ''tokenS'' obj
   \<and> decodes addr_dec zero_address ''tokenB'' obj
   \<and> decodes addr_dec zero_address ''authAddr'' obj
   \<and> decodes (key_dec ec_base) zero_key ''authPrivateKey'' obj
   \<and> decodes addr_dec zero_address ''walletAddress'' obj
   \<and> decodes big_dec 0 ''amountS'' obj
   \<and> decodes big_dec 0 ''amountB'' obj
   \<and> decodes big_dec 0 ''validSince'' obj
   \<and> decodes big_dec 0 ''validUntil'' obj
   \<and> decodes big_dec 0 ''lrcFee'' obj
   \<and> decodes bool_dec False ''buyNoMoreThanAmountB'' obj
   \<and> decodes uint8_dec 0 ''marginSplitPercentage'' obj
   \<and> decodes uint8_dec 0 ''v'' obj
   \<and> decodes b32_dec zero_hash ''r'' obj
   \<and> decodes b32_dec zero_hash ''s'' obj
   \<and> decodes (rat_dec rat_SetString) 0 ''price'' obj
   \<and> decodes addr_dec zero_address ''owner'' obj
   \<and> decodes hash_dec zero_hash ''hash'' obj
   \<and> decodes int64_dec 0 ''createTime'' obj
   \<and> decodes uint64_dec 0 ''powNonce'' obj
   \<and> decodes string_dec '''' ''side'' obj
   \<and> decodes string_dec '''' ''orderType'' obj
   \<and> decodes string_dec '''' ''p2pSide'' obj
   \<and> decodes string_dec '''' ''sourceId'' obj"

definition request_steps :: "string \<Rightarrow> (bytes \<Rightarrow> 'pub option) \<Rightarrow> (string \<Rightarrow> rat res) \<Rightarrow> jobj \<Rightarrow> (('pub, 'x) OrderJsonRequest_scheme, unit) st list" where
  "request_steps ty ec_base rat_SetString obj =
    [required ty ''protocol'' (ptr addr_dec zero_address ''protocol'' obj) (\<lambda>v x. x\<lparr>req_Protocol := v\<rparr>),
     required ty ''delegateAddress'' (ptr addr_dec zero_address ''delegateAddress'' obj) (\<lambda>v x. x\<lparr>req_DelegateAddress := v\<rparr>),
     required ty ''tokenS'' (ptr addr_dec zero_address ''tokenS'' obj) (\<lambda>v x. x\<lparr>req_TokenS := v\<rparr>),
     required ty ''tokenB'' (ptr addr_dec zero_address ''tokenB'' obj) (\<lambda>v x. x\<lparr>req_TokenB := v\<rparr>),
     required ty ''authAddr'' (ptr addr_dec zero_address ''authAddr'' obj) (\<lambda>v x. x\<lparr>req_AuthAddr := v\<rparr>),
     optional (ptr (key_dec ec_base) zero_key ''authPrivateKey'' obj) (\<lambda>v x. x\<lparr>req_AuthPrivateKey := v\<rparr>),
     required ty ''walletAddress'' (ptr addr_dec zero_address ''walletAddress'' obj) (\<lambda>v x. x\<lparr>req_WalletAddress := v\<rparr>),
     required ty ''amountS'' (ptr big_dec 0 ''amountS'' obj) (\<lambda>v x. x\<lparr>req_AmountS := Some v\<rparr>),
     required ty ''amountB'' (ptr big_dec 0 ''amountB'' obj) (\<lambda>v x. x\<lparr>req_AmountB := Some v\<rparr>),
     required ty ''validSince'' (ptr big_dec 0 ''validSince'' obj) (\<lambda>v x. x\<lparr>req_ValidSince := Some v\<rparr>),
     required ty ''validUntil'' (ptr big_dec 0 ''validUntil'' obj) (\<lambda>v x. x\<lparr>req_ValidUntil := Some v\<rparr>),
     optional (ptr big_dec 0 ''lrcFee'' obj) (\<lambda>v x. x\<lparr>req_LrcFee := Some v\<rparr>),
     required ty ''buyNoMoreThanAmountB'' (ptr bool_dec False ''buyNoMoreThanAmountB'' obj) (\<lambda>v x. x\<lparr>req_BuyNoMoreThanAmountB := v\<rparr>),
     required ty ''marginSplitPercentage'' (ptr uint8_dec 0 ''marginSplitPercentage'' obj) (\<lambda>v x. x\<lparr>req_MarginSplitPercentage := v\<rparr>),
     required ty ''v'' (ptr uint8_dec 0 ''v'' obj) (\<lambda>v x. x\<lparr>req_V := v\<rparr>),
     required ty ''r'' (ptr b32_dec zero_hash ''r'' obj) (\<lambda>v x. x\<lparr>req_R := v\<rparr>),
     required ty ''s'' (ptr b32_dec zero_hash ''s'' obj) (\<lambda>v x. x\<lparr>req_S := v\<rparr>),
     optional (ptr (rat_dec rat_SetString) 0 ''price'' obj) (\<lambda>v x. x\<lparr>req_Price := Some v\<rparr>),
     optional (ptr addr_dec zero_address ''owner'' obj) (\<lambda>v x. x\<lparr>req_Owner := v\<rparr>),
     optional (ptr hash_dec zero_hash ''hash'' obj) (\<lambda>v x. x\<lparr>req_Hash := v\<rparr>),
     optional (ptr int64_dec 0 ''createTime'' obj) (\<lambda>v x. x\<lparr>req_CreateTime := v\<rparr>),
     optional (ptr uint64_dec 0 ''powNonce'' obj) (\<lambda>v x. x\<lparr>req_PowNonce := v\<rparr>),
     optional (ptr string_dec '''' ''side'' obj) (\<lambda>v x. x\<lparr>req_Side := v\<rparr>),
     optional (ptr string_dec '''' ''orderType'' obj) (\<lambda>v x. x\<lparr>req_OrderType := v\<rparr>)]"

definition request_steps_last :: "jobj \<Rightarrow> (('pub, 'x) OrderJsonRequest_scheme, unit) st list" where
  "request_steps_last obj =
    [optional (ptr string_dec '''' ''p2pSide'' obj) (\<lambda>v x. x\<lparr>req_P2PSide := v\<rparr>),
     optional (ptr string_dec '''' ''sourceId'' obj) (\<lambda>v x. x\<lparr>req_SourceId := v\<rparr>)]"

definition OrderJsonRequest_UnmarshalJSON :: "(bytes \<Rightarrow> 'pub option) \<Rightarrow> (string \<Rightarrow> rat res) \<Rightarrow> jobj \<Rightarrow> ('pub OrderJsonRequest, unit) st" where
  "OrderJsonRequest_UnmarshalJSON ec_base rat_SetString obj =
    (if \<not> request_decodes ec_base rat_SetString obj then sfail (Err ''json: cannot unmarshal'')
     else steps (request_steps ''OrderJsonRequest'' ec_base rat_SetString obj @ request_steps_last obj))"

definition P2POrderJsonRequest_UnmarshalJSON :: "(bytes \<Rightarrow> 'pub option) \<Rightarrow> (string \<Rightarrow> rat res) \<Rightarrow> jobj \<Rightarrow> ('pub P2POrderJsonRequest, unit) st" where
  "P2POrderJsonRequest_UnmarshalJSON ec_base rat_SetString obj =
    (if \<not> (request_decodes ec_base rat_SetString obj \<and> decodes hash_dec zero_hash ''makerOrderHash'' obj) then sfail (Err ''json: cannot unmarshal'')
     else steps (request_steps ''P2POrderJsonRequest'' ec_base rat_SetString obj
       @ [optional (ptr hash_dec zero_hash ''makerOrderHash'' obj) (\<lambda>v x. x\<lparr>req_MakerOrderHash := v\<rparr>)] @ request_steps_last obj))"

subsection \<open>Reading back what was written\<close>

text \<open>An object has no two members whose names agree up to case.\<close>

definition unique :: "jobj \<Rightarrow> bool" where
  "unique obj \<longleftrightarrow> distinct (map (\<lambda>m. fold_key (fst m)) obj)"

lemma members_one:
  assumes "unique obj" "(name, v) \<in> set obj"
  shows "members name obj = [v]"
  using assms unfolding unique_def
proof (induction obj)
  case (Cons m obj)
  show ?case
  proof (cases "m = (name, v)")
    case True
    then have "fold_key name \<notin> (\<lambda>m. fold_key (fst m)) ` set obj" using Cons.prems(1) by simp
    then have "\<forall>x \<in> set obj. fold_key (fst x) \<noteq> fold_key name" by (metis image_eqI)
    then have "filter (\<lambda>(k, v). fold_key k = fold_key name) obj = []" by (auto simp: filter_empty_conv)
    then show ?thesis using True by (simp add: members_def)
  next
    case False
    then have "(name, v) \<in> set obj" using Cons.prems(2) by auto
    then have "fold_key (fst m) \<noteq> fold_key name" using Cons.prems(1) by force
    then show ?thesis using Cons.IH Cons.prems(1) \<open>(name, v) \<in> set obj\<close> by (auto simp: members_def split: prod.splits)
  qed
qed simp

text \<open>The members of a field can be decoded and leave this pointer.\<close>

definition reads :: "('a \<Rightarrow> jval \<Rightarrow> 'a res) \<Rightarrow> 'a \<Rightarrow> string \<Rightarrow> jobj \<Rightarrow> 'a option \<Rightarrow> bool" where
  "reads dec zero name obj p \<longleftrightarrow> decodes dec zero name obj \<and> ptr dec zero name obj = p"

text \<open>A kind of field: how its values are written and read, and which of them it is for.\<close>

locale json_field =
  fixes dec :: "'a \<Rightarrow> jval \<Rightarrow> 'a res" and zero :: 'a and enc :: "'a \<Rightarrow> jval" and valid :: "'a \<Rightarrow> bool"
  assumes read_back: "valid x \<Longrightarrow> dec zero (enc x) = Inr x" and not_null: "enc x \<noteq> JNull"
begin

lemma pointer_one: "valid x \<Longrightarrow> pointer dec zero None [enc x] = Inr (Some x)"
  using read_back [of x] not_null [of x] by (cases "enc x") simp_all

lemma reads_field: "unique obj \<Longrightarrow> (name, enc x) \<in> set obj \<Longrightarrow> valid x \<Longrightarrow> reads dec zero name obj (Some x)"
  by (simp add: reads_def decodes_def ptr_def pointer_one members_one)

lemma reads_option:
  assumes "unique obj" "(name, case p of None \<Rightarrow> JNull | Some x \<Rightarrow> enc x) \<in> set obj" "\<And>x. p = Some x \<Longrightarrow> valid x"
  shows "reads dec zero name obj p"
proof (cases p)
  case None
  then show ?thesis using members_one [OF assms(1,2)] by (simp add: reads_def decodes_def ptr_def)
next
  case (Some x)
  then show ?thesis using reads_field [of obj name x] assms by simp
qed

end

interpretation addr_field: json_field addr_dec zero_address "\<lambda>a. JText (hexutil_Encode a)" "\<lambda>a. length a = 20"
  by unfold_locales (simp_all add: addr_dec_def text_dec_def addr.roundtrip)

interpretation hash_field: json_field hash_dec zero_hash "\<lambda>h. JText (hexutil_Encode h)" "\<lambda>h. length h = 32"
  by unfold_locales (simp_all add: hash_dec_def text_dec_def hash.roundtrip)

interpretation b32_field: json_field b32_dec zero_hash "\<lambda>b. JText (Bytes32_MarshalText b)" "\<lambda>b. length b = 32"
  by unfold_locales (simp_all add: b32_dec_def text_dec_def zero_hash_def Bytes32_text_roundtrip)

interpretation big_field: json_field big_dec 0 "\<lambda>x. JText (Big_MarshalText x)" "\<lambda>x. 0 \<le> x"
  by unfold_locales (simp_all add: big_dec_def text_dec_def Big_text)

interpretation string_field: json_field string_dec "''''" JText "\<lambda>_. True"
  by unfold_locales (simp_all add: string_dec_def text_dec_def)

interpretation bool_field: json_field bool_dec False JBool "\<lambda>_. True"
  by unfold_locales (simp_all add: bool_dec_def)

interpretation uint8_field: json_field uint8_dec 0 "\<lambda>w. JNum (uint w)" "\<lambda>_. True"
proof
  fix w :: byte
  have "uint w \<le> 255" using uint_bounded [of w] by simp
  then show "uint8_dec 0 (JNum (uint w)) = Inr w" by (simp add: uint8_dec_def num_dec_def)
qed simp

interpretation int64_field: json_field int64_dec 0 JNum "\<lambda>x. - (2 ^ 63) \<le> x \<and> x < 2 ^ 63"
  by unfold_locales (simp_all add: int64_dec_def num_dec_def)

interpretation uint64_field: json_field uint64_dec 0 JNum "\<lambda>x. 0 \<le> x \<and> x < 2 ^ 64"
  by unfold_locales (simp_all add: uint64_dec_def num_dec_def)

interpretation key_field: json_field "key_dec ec_base" zero_key "\<lambda>k. JText (PrivateKey_MarshalText k)" "\<lambda>k. wf_key ec_base k \<and> homestead k"
proof
  fix k :: "'a EthPrivateKeyCrypto"
  assume k: "wf_key ec_base k \<and> homestead k"
  then show "key_dec ec_base zero_key (JText (PrivateKey_MarshalText k)) = Inr k"
    using key_text_roundtrip [of ec_base k zero_key] by (simp add: key_dec_def text_dec_def zero_key_def)
qed simp

text \<open>The text form of fractions, which is not part of the repository: reading gives back what was written.\<close>

definition rat_text :: "(rat \<Rightarrow> string) \<Rightarrow> (string \<Rightarrow> rat res) \<Rightarrow> bool" where
  "rat_text rat_String rat_SetString \<longleftrightarrow> (\<forall>q. rat_SetString (rat_String q) = Inr q)"

lemma rat_field: "rat_text rat_String rat_SetString \<Longrightarrow> json_field (rat_dec rat_SetString) 0 (\<lambda>q. JText (rat_String q)) (\<lambda>_. True)"
  by unfold_locales (simp_all add: rat_dec_def text_dec_def rat_text_def)

lemmas field_rules = addr_field.reads_field hash_field.reads_field b32_field.reads_field string_field.reads_field bool_field.reads_field
  uint8_field.reads_field int64_field.reads_field uint64_field.reads_field key_field.reads_field big_field.reads_option

definition order_keys :: "string list" where
  "order_keys = [''protocol'', ''delegateAddress'', ''authAddr'', ''authPrivateKey'', ''walletAddress'', ''tokenS'', ''tokenB'', ''amountS'', ''amountB'',
     ''validSince'', ''validUntil'', ''lrcFee'', ''buyNoMoreThanAmountB'', ''marginSplitPercentage'', ''v'', ''r'', ''s'', ''price'', ''owner'', ''hash'',
     ''market'', ''createTime'', ''powNonce'', ''side'', ''orderType'', ''p2pSide'', ''sourceId'']"

lemma order_keys_distinct: "distinct (map fold_key order_keys)"
  by code_simp

lemma unique_keys: "distinct (map fold_key (map fst obj)) \<Longrightarrow> unique obj"
  by (simp add: unique_def comp_def)

lemma Order_unique: "unique (Order_MarshalJSON rat_String order)"
proof (rule unique_keys)
  have "map fst (Order_MarshalJSON rat_String order) = order_keys" by (simp add: Order_MarshalJSON_def order_keys_def)
  then show "distinct (map fold_key (map fst (Order_MarshalJSON rat_String order)))" using order_keys_distinct by simp
qed

text \<open>The orders that the text forms of their fields can carry: addresses and hashes of their sizes, numbers in range, a usable key, and the
  required amounts present.\<close>

definition order_valid :: "(bytes \<Rightarrow> 'pub option) \<Rightarrow> 'pub Order \<Rightarrow> bool" where
  "order_valid ec_base order \<longleftrightarrow>
     (\<forall>a \<in> {ord_Protocol order, ord_DelegateAddress order, ord_AuthAddr order, ord_WalletAddress order, ord_TokenS order, ord_TokenB order, ord_Owner order}. length a = 20)
   \<and> (\<forall>b \<in> {ord_R order, ord_S order, ord_Hash order}. length b = 32) \<and> wf_key ec_base (ord_AuthPrivateKey order) \<and> homestead (ord_AuthPrivateKey order)
   \<and> (\<forall>x \<in> {ord_AmountS order, ord_AmountB order, ord_ValidSince order, ord_ValidUntil order}. \<exists>n. x = Some n \<and> 0 \<le> n)
   \<and> (\<forall>n. ord_LrcFee order = Some n \<longrightarrow> 0 \<le> n)
   \<and> - (2 ^ 63) \<le> ord_CreateTime order \<and> ord_CreateTime order < 2 ^ 63 \<and> 0 \<le> ord_PowNonce order \<and> ord_PowNonce order < 2 ^ 64"

lemma Order_reads:
  assumes "order_valid ec_base order" "rat_text rat_String rat_SetString"
  defines "obj \<equiv> Order_MarshalJSON rat_String order"
  shows "reads addr_dec zero_address ''protocol'' obj (Some (ord_Protocol order))"
    "reads addr_dec zero_address ''delegateAddress'' obj (Some (ord_DelegateAddress order))"
    "reads addr_dec zero_address ''authAddr'' obj (Some (ord_AuthAddr order))"
    "reads (key_dec ec_base) zero_key ''authPrivateKey'' obj (Some (ord_AuthPrivateKey order))"
    "reads addr_dec zero_address ''walletAddress'' obj (Some (ord_WalletAddress order))"
    "reads addr_dec zero_address ''tokenS'' obj (Some (ord_TokenS order))"
    "reads addr_dec zero_address ''tokenB'' obj (Some (ord_TokenB order))"
    "reads big_dec 0 ''amountS'' obj (ord_AmountS order)"
    "reads big_dec 0 ''amountB'' obj (ord_AmountB order)"
    "reads big_dec 0 ''validSince'' obj (ord_ValidSince order)"
    "reads big_dec 0 ''validUntil'' obj (ord_ValidUntil order)"
    "reads big_dec 0 ''lrcFee'' obj (ord_LrcFee order)"
    "reads bool_dec False ''buyNoMoreThanAmountB'' obj (Some (ord_BuyNoMoreThanAmountB order))"
    "reads uint8_dec 0 ''marginSplitPercentage'' obj (Some (ord_MarginSplitPercentage order))"
    "reads uint8_dec 0 ''v'' obj (Some (ord_V order))"
    "reads b32_dec zero_hash ''r'' obj (Some (ord_R order))"
    "reads b32_dec zero_hash ''s'' obj (Some (ord_S order))"
    "reads (rat_dec rat_SetString) 0 ''price'' obj (ord_Price order)"
    "reads addr_dec zero_address ''owner'' obj (Some (ord_Owner order))"
    "reads hash_dec zero_hash ''hash'' obj (Some (ord_Hash order))"
    "reads string_dec '''' ''market'' obj (Some (ord_Market order))"
    "reads int64_dec 0 ''createTime'' obj (Some (ord_CreateTime order))"
    "reads uint64_dec 0 ''powNonce'' obj (Some (ord_PowNonce order))"
    "reads string_dec '''' ''side'' obj (Some (ord_Side order))"
    "reads string_dec '''' ''orderType'' obj (Some (ord_OrderType order))"
    "reads string_dec '''' ''p2pSide'' obj (Some (ord_P2PSide order))"
    "reads string_dec '''' ''sourceId'' obj (Some (ord_SourceId order))"
  unfolding obj_def
  by (rule field_rules [OF Order_unique] json_field.reads_option [OF rat_field [OF assms(2)] Order_unique];
      ((simp add: Order_MarshalJSON_def opt_enc_def; fail) | (use assms(1) in \<open>auto simp: order_valid_def\<close>; fail)))+

declare steps.simps(2) [simp del]

lemma steps_simps [simp]:
  "steps (required ty name (Some v) f # ms) x = steps ms (f v x)" "steps (optional p f # ms) x = steps ms (case p of None \<Rightarrow> x | Some v \<Rightarrow> f v x)"
  by (simp_all add: steps.simps(2) required_def optional_def smod_def sret_def sbind_def split: option.split)

lemma Order_read_back:
  assumes "order_valid ec_base order" "rat_text rat_String rat_SetString"
  shows "Order_UnmarshalJSON ec_base rat_SetString (Order_MarshalJSON rat_String order) old
    = (order\<lparr>ord_LrcFee := (case ord_LrcFee order of None \<Rightarrow> ord_LrcFee old | fee \<Rightarrow> fee),
             ord_Price := (case ord_Price order of None \<Rightarrow> ord_Price old | price \<Rightarrow> price)\<rparr>, Inr ())"
proof -
  note reads = Order_reads [OF assms, unfolded reads_def]
  have dec: "Order_decodes ec_base rat_SetString (Order_MarshalJSON rat_String order)"
    unfolding Order_decodes_def using reads by (intro conjI) (simp_all only:)
  obtain a b c d where amounts: "ord_AmountS order = Some a" "ord_AmountB order = Some b" "ord_ValidSince order = Some c" "ord_ValidUntil order = Some d"
    using assms(1) by (auto simp: order_valid_def)
  show ?thesis
    using dec unfolding Order_UnmarshalJSON_def
    by (simp add: reads amounts sret_def) (rule Order.equality, simp_all add: amounts split: option.split)
qed

text \<open>Claim C14: an order written as JSON and read back is the same order, into whatever order it is read: for every order whose fields are in range and whose required amounts are
  present. The fee and the price are not required; where the written order has none, the one of the order that is read into stays.\<close>

theorem order_json_roundtrip:
  assumes "order_valid ec_base order" "rat_text rat_String rat_SetString"
  shows "Order_UnmarshalJSON ec_base rat_SetString (Order_MarshalJSON rat_String order) old
    = (order\<lparr>ord_LrcFee := (case ord_LrcFee order of None \<Rightarrow> ord_LrcFee old | fee \<Rightarrow> fee),
             ord_Price := (case ord_Price order of None \<Rightarrow> ord_Price old | price \<Rightarrow> price)\<rparr>, Inr ())"
  using assms by (rule Order_read_back)

text \<open>The text form of \<open>big.Rat\<close>: the numerator, and the denominator behind a slash unless it is one.\<close>

definition rat_MarshalText :: "rat \<Rightarrow> string" where
  "rat_MarshalText q = (case quotient_of q of (a, b) \<Rightarrow>
     (if a < 0 then ''-'' else []) @ dec_of_nat (nat \<bar>a\<bar>) @ (if b = 1 then [] else CHR ''/'' # dec_of_nat (nat b)))"

definition rat_read :: "string \<Rightarrow> rat res" where
  "rat_read s =
    (let neg = (take 1 s = ''-''); t = (if neg then drop 1 s else s);
         a = of_nat (dec_val (takeWhile (\<lambda>c. c \<noteq> CHR ''/'') t)); d = drop 1 (dropWhile (\<lambda>c. c \<noteq> CHR ''/'') t)
     in Inr ((if neg then - a else a) / (if d = [] then 1 else of_nat (dec_val d))))"

lemma dec_of_nat_plain: "c \<in> set (dec_of_nat n) \<Longrightarrow> c \<noteq> CHR ''/'' \<and> c \<noteq> CHR ''-''"
  using dec_of_nat_digits [of c n] by (auto simp: digit_of_def)

lemma take_dec_of_nat: "take 1 (dec_of_nat n @ s) \<noteq> ''-''"
  using dec_of_nat_plain [of "hd (dec_of_nat n)" n] by (cases "dec_of_nat n") auto

lemma rat_MarshalText_read: "rat_text rat_MarshalText rat_read"
  unfolding rat_text_def
proof
  fix q :: rat
  obtain a b where ab: "quotient_of q = (a, b)" by fastforce
  then have q: "q = of_int a / of_int b" "0 < b" using quotient_of_div quotient_of_denom_pos by blast+
  let ?n = "dec_of_nat (nat \<bar>a\<bar>)" and ?d = "if b = 1 then [] else CHR ''/'' # dec_of_nat (nat b)"
  have t: "takeWhile (\<lambda>c. c \<noteq> CHR ''/'') (?n @ ?d) = ?n" "dropWhile (\<lambda>c. c \<noteq> CHR ''/'') (?n @ ?d) = ?d"
    using dec_of_nat_plain by (simp_all add: takeWhile_append dropWhile_append)
  have "rat_read (?n @ ?d) = Inr (of_int \<bar>a\<bar> / of_int b)"
    using take_dec_of_nat [of "nat \<bar>a\<bar>" ?d] q(2) t by (simp add: rat_read_def Let_def)
  moreover have "rat_read (CHR ''-'' # ?n @ ?d) = Inr (- of_int \<bar>a\<bar> / of_int b)"
    using q(2) t by (simp add: rat_read_def Let_def)
  ultimately show "rat_read (rat_MarshalText q) = Inr q" using ab q(1)
    by (cases "a < 0"; cases "b = 1") (simp_all add: rat_MarshalText_def abs_if)
qed

definition demo_sent_order :: "unit Order" where
  "demo_sent_order = (demo_order 10)\<lparr>ord_AuthPrivateKey := demo_key, ord_Price := Some (1 / 2)\<rparr>"

lemma demo_sent_order_valid: "order_valid (\<lambda>_. Some ()) demo_sent_order"
  using demo_key_wf demo_key_homestead by (simp add: demo_sent_order_def order_valid_def demo_order_def zero_Order_def zero_address_def zero_hash_def)

theorem order_json_roundtrip_witness:
  "Order_UnmarshalJSON (\<lambda>_. Some ()) rat_read (Order_MarshalJSON rat_MarshalText demo_sent_order) (zero_Order\<lparr>ord_LrcFee := Some 3\<rparr>) = (demo_sent_order, Inr ())"
  using order_json_roundtrip [OF demo_sent_order_valid rat_MarshalText_read, of "zero_Order\<lparr>ord_LrcFee := Some 3\<rparr>"]
  by (simp add: demo_sent_order_def demo_order_def zero_Order_def)

subsection \<open>The requests\<close>

definition request_valid :: "(bytes \<Rightarrow> 'pub option) \<Rightarrow> ('pub, 'x) OrderJsonRequest_scheme \<Rightarrow> bool" where
  "request_valid ec_base order \<longleftrightarrow>
     (\<forall>a \<in> {req_Protocol order, req_DelegateAddress order, req_AuthAddr order, req_WalletAddress order, req_TokenS order, req_TokenB order, req_Owner order}. length a = 20)
   \<and> (\<forall>b \<in> {req_R order, req_S order, req_Hash order}. length b = 32) \<and> wf_key ec_base (req_AuthPrivateKey order) \<and> homestead (req_AuthPrivateKey order)
   \<and> (\<forall>x \<in> {req_AmountS order, req_AmountB order, req_ValidSince order, req_ValidUntil order}. \<exists>n. x = Some n \<and> 0 \<le> n)
   \<and> (\<forall>n. req_LrcFee order = Some n \<longrightarrow> 0 \<le> n)
   \<and> - (2 ^ 63) \<le> req_CreateTime order \<and> req_CreateTime order < 2 ^ 63 \<and> 0 \<le> req_PowNonce order \<and> req_PowNonce order < 2 ^ 64"

lemma request_reads:
  assumes "request_valid ec_base order" "rat_text rat_String rat_SetString" "unique obj"
    "set (request_members rat_String order) \<subseteq> set obj" "set (request_members_last order) \<subseteq> set obj"
  shows "reads addr_dec zero_address ''protocol'' obj (Some (req_Protocol order))"
    "reads addr_dec zero_address ''delegateAddress'' obj (Some (req_DelegateAddress order))"
    "reads addr_dec zero_address ''tokenS'' obj (Some (req_TokenS order))"
    "reads addr_dec zero_address ''tokenB'' obj (Some (req_TokenB order))"
    "reads addr_dec zero_address ''authAddr'' obj (Some (req_AuthAddr order))"
    "reads (key_dec ec_base) zero_key ''authPrivateKey'' obj (Some (req_AuthPrivateKey order))"
    "reads addr_dec zero_address ''walletAddress'' obj (Some (req_WalletAddress order))"
    "reads big_dec 0 ''amountS'' obj (req_AmountS order)"
    "reads big_dec 0 ''amountB'' obj (req_AmountB order)"
    "reads big_dec 0 ''validSince'' obj (req_ValidSince order)"
    "reads big_dec 0 ''validUntil'' obj (req_ValidUntil order)"
    "reads big_dec 0 ''lrcFee'' obj (req_LrcFee order)"
    "reads bool_dec False ''buyNoMoreThanAmountB'' obj (Some (req_BuyNoMoreThanAmountB order))"
    "reads uint8_dec 0 ''marginSplitPercentage'' obj (Some (req_MarginSplitPercentage order))"
    "reads uint8_dec 0 ''v'' obj (Some (req_V order))"
    "reads b32_dec zero_hash ''r'' obj (Some (req_R order))"
    "reads b32_dec zero_hash ''s'' obj (Some (req_S order))"
    "reads (rat_dec rat_SetString) 0 ''price'' obj (req_Price order)"
    "reads addr_dec zero_address ''owner'' obj (Some (req_Owner order))"
    "reads hash_dec zero_hash ''hash'' obj (Some (req_Hash order))"
    "reads int64_dec 0 ''createTime'' obj (Some (req_CreateTime order))"
    "reads uint64_dec 0 ''powNonce'' obj (Some (req_PowNonce order))"
    "reads string_dec '''' ''side'' obj (Some (req_Side order))"
    "reads string_dec '''' ''orderType'' obj (Some (req_OrderType order))"
    "reads string_dec '''' ''p2pSide'' obj (Some (req_P2PSide order))"
    "reads string_dec '''' ''sourceId'' obj (Some (req_SourceId order))"
  by (rule field_rules [OF assms(3)] json_field.reads_option [OF rat_field [OF assms(2)] assms(3)];
      ((rule subsetD [OF assms(4)], simp add: request_members_def opt_enc_def; fail) | (rule subsetD [OF assms(5)], simp add: request_members_last_def; fail)
       | (use assms(1) in \<open>auto simp: request_valid_def\<close>; fail)))+

lemma steps_append: "steps (ms @ ns) x = (case steps ms x of (y, Inl e) \<Rightarrow> (y, Inl e) | (y, Inr _) \<Rightarrow> steps ns y)"
  by (induction ms arbitrary: x) (auto simp: steps.simps(2) sret_def sbind_def split: prod.splits sum.splits)

text \<open>The request after the fields that both kinds of request have were stored.\<close>

definition request_stored :: "('pub, 'x) OrderJsonRequest_scheme \<Rightarrow> ('pub, 'y) OrderJsonRequest_scheme \<Rightarrow> ('pub, 'y) OrderJsonRequest_scheme" where
  "request_stored order old = OrderJsonRequest.extend (OrderJsonRequest.truncate (order\<lparr>
     req_LrcFee := (case req_LrcFee order of None \<Rightarrow> req_LrcFee old | fee \<Rightarrow> fee),
     req_Price := (case req_Price order of None \<Rightarrow> req_Price old | price \<Rightarrow> price)\<rparr>)) (OrderJsonRequest.more old)"

lemma request_roundtrip:
  assumes "request_valid ec_base order" "rat_text rat_String rat_SetString" "unique obj"
    "set (request_members rat_String order) \<subseteq> set obj" "set (request_members_last order) \<subseteq> set obj"
  shows "request_decodes ec_base rat_SetString obj"
    "steps (request_steps ty ec_base rat_SetString obj @ request_steps_last obj) old = (request_stored order old, Inr ())"
proof -
  note reads = request_reads [OF assms, unfolded reads_def]
  show "request_decodes ec_base rat_SetString obj"
    unfolding request_decodes_def using reads by (intro conjI) (simp_all only:)
  obtain a b c d where amounts: "req_AmountS order = Some a" "req_AmountB order = Some b" "req_ValidSince order = Some c" "req_ValidUntil order = Some d"
    using assms(1) by (auto simp: request_valid_def)
  show "steps (request_steps ty ec_base rat_SetString obj @ request_steps_last obj) old = (request_stored order old, Inr ())"
    unfolding request_steps_def request_steps_last_def
    by (simp add: reads amounts sret_def)
      (rule OrderJsonRequest.equality, simp_all add: request_stored_def OrderJsonRequest.defs amounts split: option.split)
qed

definition request_keys :: "string list" where
  "request_keys = [''protocol'', ''delegateAddress'', ''tokenS'', ''tokenB'', ''authAddr'', ''authPrivateKey'', ''walletAddress'', ''amountS'', ''amountB'',
     ''validSince'', ''validUntil'', ''lrcFee'', ''buyNoMoreThanAmountB'', ''marginSplitPercentage'', ''v'', ''r'', ''s'', ''price'', ''owner'', ''hash'',
     ''createTime'', ''powNonce'', ''side'', ''orderType'']"

lemma request_keys_distinct: "distinct (map fold_key (request_keys @ [''makerOrderHash''] @ [''p2pSide'', ''sourceId'']))"
  by code_simp

lemma request_member_keys:
  "map fst (request_members rat_String order) = request_keys" "map fst (request_members_last order) = [''p2pSide'', ''sourceId'']"
  by (simp_all add: request_members_def request_members_last_def request_keys_def)

lemma OrderJsonRequest_unique: "unique (OrderJsonRequest_MarshalJSON rat_String order)"
proof (rule unique_keys)
  have "map fst (OrderJsonRequest_MarshalJSON rat_String order) = request_keys @ [''p2pSide'', ''sourceId'']"
    by (simp add: OrderJsonRequest_MarshalJSON_def request_member_keys)
  then show "distinct (map fold_key (map fst (OrderJsonRequest_MarshalJSON rat_String order)))"
    using request_keys_distinct by (simp only:) simp
qed

lemma P2POrderJsonRequest_unique: "unique (P2POrderJsonRequest_MarshalJSON rat_String order)"
proof (rule unique_keys)
  have "map fst (P2POrderJsonRequest_MarshalJSON rat_String order) = request_keys @ [''makerOrderHash''] @ [''p2pSide'', ''sourceId'']"
    by (simp add: P2POrderJsonRequest_MarshalJSON_def request_member_keys)
  then show "distinct (map fold_key (map fst (P2POrderJsonRequest_MarshalJSON rat_String order)))"
    using request_keys_distinct by (simp only:)
qed

text \<open>A request, and a peer-to-peer request, written as JSON and read back.\<close>

lemma OrderJsonRequest_roundtrip:
  assumes "request_valid ec_base order" "rat_text rat_String rat_SetString"
  shows "OrderJsonRequest_UnmarshalJSON ec_base rat_SetString (OrderJsonRequest_MarshalJSON rat_String order) old = (request_stored order old, Inr ())"
  using request_roundtrip [OF assms OrderJsonRequest_unique [of rat_String order]]
  by (simp add: OrderJsonRequest_UnmarshalJSON_def OrderJsonRequest_MarshalJSON_def)

lemma P2POrderJsonRequest_roundtrip:
  assumes "request_valid ec_base order" "rat_text rat_String rat_SetString" "length (req_MakerOrderHash order) = 32"
  shows "P2POrderJsonRequest_UnmarshalJSON ec_base rat_SetString (P2POrderJsonRequest_MarshalJSON rat_String order) old
    = ((request_stored order old)\<lparr>req_MakerOrderHash := req_MakerOrderHash order\<rparr>, Inr ())"
proof -
  let ?obj = "P2POrderJsonRequest_MarshalJSON rat_String order"
  have sub: "set (request_members rat_String order) \<subseteq> set ?obj" "set (request_members_last order) \<subseteq> set ?obj"
    by (auto simp: P2POrderJsonRequest_MarshalJSON_def)
  note reads = request_reads [OF assms(1,2) P2POrderJsonRequest_unique sub, unfolded reads_def]
  have maker: "decodes hash_dec zero_hash ''makerOrderHash'' ?obj" "ptr hash_dec zero_hash ''makerOrderHash'' ?obj = Some (req_MakerOrderHash order)"
    using hash_field.reads_field [OF P2POrderJsonRequest_unique [of rat_String order], of "''makerOrderHash''" "req_MakerOrderHash order"] assms(3)
    by (simp_all add: reads_def P2POrderJsonRequest_MarshalJSON_def)
  have dec: "request_decodes ec_base rat_SetString ?obj"
    using request_roundtrip(1) [OF assms(1,2) P2POrderJsonRequest_unique sub] .
  obtain a b c d where amounts: "req_AmountS order = Some a" "req_AmountB order = Some b" "req_ValidSince order = Some c" "req_ValidUntil order = Some d"
    using assms(1) by (auto simp: request_valid_def)
  show ?thesis
    unfolding P2POrderJsonRequest_UnmarshalJSON_def request_steps_def request_steps_last_def
    by (simp add: dec maker reads amounts sret_def)
      (rule P2POrderJsonRequest.equality, simp_all add: request_stored_def OrderJsonRequest.defs amounts split: option.split)
qed

subsection \<open>Required fields\<close>

lemma pointer_Some: "pointer dec zero p vs = Inr (Some x) \<Longrightarrow> vs \<noteq> [] \<Longrightarrow> last vs \<noteq> JNull"
  by (induction dec zero p vs rule: pointer.induct) (auto split: sum.splits if_splits)

lemma ptr_Some: "ptr dec zero name obj = Some x \<Longrightarrow> members name obj \<noteq> [] \<and> last (members name obj) \<noteq> JNull"
  by (cases "members name obj = []") (auto simp: ptr_def dest: pointer_Some split: sum.splits)

lemma steps_required:
  "steps (required ty name p f # ms) x = (y, Inr ()) \<longleftrightarrow> (\<exists>v. p = Some v \<and> steps ms (f v x) = (y, Inr ()))"
  by (cases p) (simp_all add: steps.simps(2) required_def sfail_def smod_def sbind_def)

definition order_required :: "string list" where
  "order_required = [''protocol'', ''delegateAddress'', ''authAddr'', ''authPrivateKey'', ''walletAddress'', ''tokenS'', ''tokenB'', ''amountS'', ''amountB'',
     ''validSince'', ''validUntil'', ''buyNoMoreThanAmountB'', ''marginSplitPercentage'', ''v'', ''r'', ''s'']"

text \<open>An object is read as an order only when each of the sixteen required fields has a member that is not null; otherwise it is refused.\<close>

lemma order_json_required:
  assumes "Order_UnmarshalJSON ec_base rat_SetString obj old = (new, Inr ())" "name \<in> set order_required"
  shows "members name obj \<noteq> [] \<and> last (members name obj) \<noteq> JNull"
proof -
  from assms(1) have "list_all (\<lambda>name. members name obj \<noteq> [] \<and> last (members name obj) \<noteq> JNull) order_required"
    unfolding Order_UnmarshalJSON_def order_required_def
    by (auto simp: steps_required sfail_def split: if_splits dest!: ptr_Some simp del: steps_simps(1))
  then show ?thesis using assms(2) by (simp add: list_all_iff)
qed

lemma order_json_required_witness:
  "members ''amountS'' (Order_MarshalJSON rat_MarshalText demo_sent_order) \<noteq> [] \<and> last (members ''amountS'' (Order_MarshalJSON rat_MarshalText demo_sent_order)) \<noteq> JNull"
  using order_json_required [OF Order_read_back [OF demo_sent_order_valid rat_MarshalText_read]] by (simp add: order_required_def)

end
