(* ===== verification/Ipfs.thy ===== *)
theory Ipfs
  imports Order_Json
begin

section \<open>Orders over IPFS (\<open>broadcast/ipfs\<close>)\<close>

text \<open>
  The publisher of orders on a topic and the service that listens on topics: the reader that cuts the answer of the IPFS node into lines, the
  goroutine of a topic, which decodes the records and emits the orders, and the table of topics. The stream of a topic is the bytes
  that have arrived so far and whether it has ended. Parameters: the shell of IPFS, the JSON codec, \<open>bytes.TrimSpace\<close>.
\<close>

subsection \<open>Options (\<open>ipfs_pub.go\<close>)\<close>

record IpfsOptions =
  io_Server :: string
  io_Port :: int
  io_ListenTopics :: "string list"
  io_BroadcastTopics :: "string list"

definition IpfsOptions_Url :: "IpfsOptions \<Rightarrow> string" where
  "IpfsOptions_Url opts =
    (let url = io_Server opts;
         url = (if \<not> (url \<noteq> [] \<and> last url = CHR '':'') then url @ '':'' else url)
     in url @ big_String (io_Port opts))"

text \<open>\<open>PublishOrder\<close>: the first of the broadcast topics is indexed, so a configuration without one panics.\<close>

definition PublishOrder ::
  "('pub Order \<Rightarrow> bytes res) \<Rightarrow> (string \<Rightarrow> bytes \<Rightarrow> ('w, unit) st) \<Rightarrow> IpfsOptions \<Rightarrow> 'pub Order \<Rightarrow> ('w, unit) st" where
  "PublishOrder MarshalJSON PubSubPublish options order =
    sbind (slift (MarshalJSON order)) (\<lambda>orderJson.
    case io_BroadcastTopics options of
      [] \<Rightarrow> sfail (Panic IndexOutOfRange)
    | topic # _ \<Rightarrow> PubSubPublish topic orderJson)"

subsection \<open>Lines of a stream (\<open>chunked.go\<close>)\<close>

text \<open>\<open>bufio.Reader.ReadSlice\<close> with the default buffer of 4096 bytes: the bytes up to the delimiter, a full buffer without one, the end of the stream, or
  nothing yet.\<close>

datatype read_result = Slice bytes bytes | BufferFull bytes | AtEOF | NeedMore

definition ReadSlice :: "bool \<Rightarrow> byte \<Rightarrow> bytes \<Rightarrow> read_result" where
  "ReadSlice ended delim s =
    (let w = take 4096 s; line = takeWhile (\<lambda>b. b \<noteq> delim) w in
     if length line < length w then Slice (line @ [delim]) (drop (length line + 1) s)
     else if 4096 \<le> length s then BufferFull (drop 4096 s)
     else if ended then AtEOF else NeedMore)"

datatype chunk = Chunk bytes bytes | ChunkErr string | ChunkWait

definition NextChunk :: "(bytes \<Rightarrow> bytes) \<Rightarrow> bool \<Rightarrow> bytes \<Rightarrow> chunk" where
  "NextChunk TrimSpace ended s =
    (case ReadSlice ended 10 s of
       Slice line rest \<Rightarrow> Chunk (TrimSpace line) rest
     | BufferFull rest \<Rightarrow> ChunkErr ''bufio: buffer full''
     | AtEOF \<Rightarrow> ChunkErr ''unexpected EOF''
     | NeedMore \<Rightarrow> ChunkWait)"

lemma NextChunk_shorter: "NextChunk TrimSpace ended s = Chunk c rest \<Longrightarrow> length rest < length s"
  by (auto simp: NextChunk_def ReadSlice_def Let_def split: if_splits read_result.splits)

subsection \<open>Records (\<open>ipfs.go\<close>)\<close>

record Record =
  rec_From :: bytes
  rec_Data :: bytes
  rec_Seqno :: bytes
  rec_TopicIDs :: "string list"

definition SeqNo :: "Record \<Rightarrow> int res" where
  "SeqNo r = (if length (rec_Seqno r) < 8 then Inl (Panic IndexOutOfRange) else Inr (big_Int64 (big_SetBytes (take 8 (rec_Seqno r)))))"

text \<open>\<open>PubSubSubscription.Next\<close>: the next record, an error of the stream or of the record, or nothing yet.\<close>

datatype next_record = NextRecord Record bytes | NextErr string | NextWait

definition PubSub_Next :: "(bytes \<Rightarrow> bytes) \<Rightarrow> (bytes \<Rightarrow> Record res) \<Rightarrow> bool \<Rightarrow> bytes \<Rightarrow> next_record" where
  "PubSub_Next TrimSpace record_dec ended s =
    (case NextChunk TrimSpace ended s of
       ChunkWait \<Rightarrow> NextWait
     | ChunkErr e \<Rightarrow> NextErr e
     | Chunk msgData rest \<Rightarrow> (case record_dec msgData of Inl e \<Rightarrow> NextErr ''json'' | Inr record \<Rightarrow> NextRecord record rest))"

lemma PubSub_Next_shorter: "PubSub_Next TrimSpace record_dec ended s = NextRecord r rest \<Longrightarrow> length rest < length s"
  by (auto simp: PubSub_Next_def split: chunk.splits sum.splits dest: NextChunk_shorter)

definition PubSubSubscribe :: "(string \<Rightarrow> string \<Rightarrow> 'w \<Rightarrow> 'w \<times> bool res) \<Rightarrow> string \<Rightarrow> string \<Rightarrow> ('w, unit) st" where
  "PubSubSubscribe Send url topic =
    sbind (Send url topic) (\<lambda>hasOutput. if hasOutput then sret () else sfail (Err (''can'' @ [CHR 0x27] @ ''t connect to ipfs client'')))"

subsection \<open>The goroutine of a topic (\<open>ipfs_sub.go\<close>)\<close>

text \<open>What the goroutine has come to: it waits for more of the stream, or it has ended the process.\<close>

datatype listening = Listening bytes | Died string

function listen_loop ::
  "(bytes \<Rightarrow> bytes) \<Rightarrow> (bytes \<Rightarrow> Record res) \<Rightarrow> (bytes \<Rightarrow> 'o res) \<Rightarrow> bool \<Rightarrow> bytes \<Rightarrow> 'o list \<Rightarrow> 'o list \<times> listening" where
  "listen_loop TrimSpace record_dec order_dec ended s emitted =
    (case PubSub_Next TrimSpace record_dec ended s of
       NextWait \<Rightarrow> (emitted, Listening s)
     | NextErr e \<Rightarrow> (emitted, Died e)
     | NextRecord record rest \<Rightarrow>
         if length (rec_Data record) > 2
         then (case order_dec (rec_Data record) of
                 Inl e \<Rightarrow> listen_loop TrimSpace record_dec order_dec ended rest emitted
               | Inr ord \<Rightarrow> listen_loop TrimSpace record_dec order_dec ended rest (emitted @ [ord]))
         else listen_loop TrimSpace record_dec order_dec ended rest emitted)"
  by pat_completeness auto
termination
  by (relation "measure (\<lambda>(t, r, d, e, s, l). length s)") (auto dest: PubSub_Next_shorter)

declare listen_loop.simps [simp del]

subsection \<open>The table of topics\<close>

text \<open>The channel of a proxy is nil until it listens, then open or closed. \<open>ls_goroutines\<close> counts the goroutines that read the topic; none of them looks at the
  channel.\<close>

record subProxy =
  sp_topic :: string
  sp_stop :: "bool option"

record IPFSSubService =
  ls_options :: IpfsOptions
  ls_subs :: "string \<rightharpoonup> subProxy"
  ls_goroutines :: "string \<Rightarrow> nat"

definition newSubProxy :: "(string \<Rightarrow> string \<Rightarrow> 'w \<Rightarrow> 'w \<times> bool res) \<Rightarrow> string \<Rightarrow> string \<Rightarrow> ('w, subProxy) st" where
  "newSubProxy Send url topic = sbind (PubSubSubscribe Send url topic) (\<lambda>_. sret \<lparr>sp_topic = topic, sp_stop = None\<rparr>)"

definition proxy_listen :: "subProxy \<Rightarrow> IPFSSubService \<Rightarrow> subProxy \<times> IPFSSubService" where
  "proxy_listen p l = (p\<lparr>sp_stop := Some False\<rparr>, l\<lparr>ls_goroutines := (ls_goroutines l)(sp_topic p := ls_goroutines l (sp_topic p) + 1)\<rparr>)"

definition proxy_quit :: "subProxy \<Rightarrow> subProxy res" where
  "proxy_quit p = (case sp_stop p of
      None \<Rightarrow> Inl (Panic (Fatal ''close of nil channel''))
    | Some True \<Rightarrow> Inl (Panic (Fatal ''close of closed channel''))
    | Some False \<Rightarrow> Inr (p\<lparr>sp_stop := Some True\<rparr>))"

fun subscribe_topics :: "(string \<Rightarrow> string \<Rightarrow> 'w \<Rightarrow> 'w \<times> bool res) \<Rightarrow> string \<Rightarrow> string list \<Rightarrow> (string \<rightharpoonup> subProxy) \<Rightarrow> ('w, string \<rightharpoonup> subProxy) st" where
  "subscribe_topics Send url [] subs = sret subs"
| "subscribe_topics Send url (topic # topics) subs =
    sbind (stry (newSubProxy Send url topic)) (\<lambda>r. case r of
        Inl e \<Rightarrow> sfail (Panic (Fatal ''ipfs impl create sub scribe error''))
      | Inr proxy \<Rightarrow> subscribe_topics Send url topics (subs(topic \<mapsto> proxy)))"

definition NewIPFSSubService :: "(string \<Rightarrow> string \<Rightarrow> 'w \<Rightarrow> 'w \<times> bool res) \<Rightarrow> IpfsOptions \<Rightarrow> ('w, IPFSSubService) st" where
  "NewIPFSSubService Send options =
    sbind (subscribe_topics Send (IpfsOptions_Url options) (io_ListenTopics options) Map.empty) (\<lambda>subs.
    sret \<lparr>ls_options = options, ls_subs = subs, ls_goroutines = (\<lambda>_. 0)\<rparr>)"

definition Register :: "(string \<Rightarrow> string \<Rightarrow> 'w \<Rightarrow> 'w \<times> bool res) \<Rightarrow> string \<Rightarrow> (IPFSSubService \<times> 'w, unit) st" where
  "Register Send topic =
    sbind (sget fst) (\<lambda>l.
    if ls_subs l topic \<noteq> None then sfail (Err (''ipfs sub,topic '' @ topic @ '' already exist''))
    else sbind (stry (on_snd (newSubProxy Send (IpfsOptions_Url (ls_options l)) topic))) (\<lambda>r. case r of
        Inl e \<Rightarrow> sfail (Err (''ipfs sub,register new topic '' @ topic @ '' error''))
      | Inr proxy \<Rightarrow> smod (\<lambda>(l, w). case proxy_listen proxy l of (proxy, l) \<Rightarrow> (l\<lparr>ls_subs := (ls_subs l)(topic \<mapsto> proxy)\<rparr>, w))))"

definition Unregister :: "string \<Rightarrow> (IPFSSubService, unit) st" where
  "Unregister topic =
    sbind (sget (\<lambda>l. ls_subs l topic)) (\<lambda>p. case p of
        None \<Rightarrow> sfail (Err (''ipfs sub, topic '' @ topic @ '' do not exist''))
      | Some proxy \<Rightarrow> sbind (slift (proxy_quit proxy)) (\<lambda>_. smod (\<lambda>l. l\<lparr>ls_subs := (ls_subs l)(topic := None)\<rparr>)))"

text \<open>\<open>Start\<close>, \<open>Stop\<close> and \<open>Restart\<close> go over the table in the order \<open>topics\<close> of its visit, without the mutex.\<close>

definition on_proxy :: "(subProxy \<Rightarrow> (IPFSSubService, subProxy) st) \<Rightarrow> string \<Rightarrow> (IPFSSubService, unit) st" where
  "on_proxy f topic =
    sbind (sget (\<lambda>l. ls_subs l topic)) (\<lambda>p. case p of
        None \<Rightarrow> sret ()
      | Some proxy \<Rightarrow> sbind (f proxy) (\<lambda>proxy. smod (\<lambda>l. l\<lparr>ls_subs := (ls_subs l)(topic \<mapsto> proxy)\<rparr>)))"

definition do_listen :: "subProxy \<Rightarrow> (IPFSSubService, subProxy) st" where
  "do_listen p l = (case proxy_listen p l of (p, l) \<Rightarrow> (l, Inr p))"

definition ipfs_Start :: "string list \<Rightarrow> (IPFSSubService, unit) st" where
  "ipfs_Start topics = sfor (on_proxy do_listen) topics"

definition ipfs_Stop :: "string list \<Rightarrow> (IPFSSubService, unit) st" where
  "ipfs_Stop topics = sfor (on_proxy (\<lambda>p. slift (proxy_quit p))) topics"

definition ipfs_Restart :: "string list \<Rightarrow> (IPFSSubService, unit) st" where
  "ipfs_Restart topics = sfor (on_proxy (\<lambda>p. sbind (slift (proxy_quit p)) do_listen)) topics"

subsection \<open>What is emitted\<close>

text \<open>A line of the stream that fits into the buffer.\<close>

definition line_ok :: "(bytes \<Rightarrow> bytes) \<Rightarrow> (bytes \<Rightarrow> Record res) \<Rightarrow> bytes \<Rightarrow> Record \<Rightarrow> bool" where
  "line_ok TrimSpace record_dec l r \<longleftrightarrow> 10 \<notin> set l \<and> length l < 4096 \<and> record_dec (TrimSpace (l @ [10])) = Inr r"

definition accepted :: "(bytes \<Rightarrow> 'o res) \<Rightarrow> Record list \<Rightarrow> 'o list" where
  "accepted order_dec rs =
     List.map_filter (\<lambda>r. if length (rec_Data r) > 2 then (case order_dec (rec_Data r) of Inr ord \<Rightarrow> Some ord | Inl _ \<Rightarrow> None) else None) rs"

lemma ReadSlice_line:
  assumes "10 \<notin> set l" "length l < 4096"
  shows "ReadSlice ended 10 (l @ 10 # rest) = Slice (l @ [10]) rest"
proof -
  have "take 4096 (l @ 10 # rest) = l @ 10 # take (4095 - length l) rest"
    using assms(2) by (simp add: take_Cons' Suc_diff_Suc)
  moreover have "takeWhile (\<lambda>b. b \<noteq> 10) (l @ 10 # xs) = l" for xs
    using assms(1) by (induction l) auto
  ultimately show ?thesis by (simp add: ReadSlice_def Let_def)
qed

lemma listen_line:
  assumes "line_ok TrimSpace record_dec l r"
  shows "listen_loop TrimSpace record_dec order_dec ended (l @ 10 # rest) emitted
    = listen_loop TrimSpace record_dec order_dec ended rest (emitted @ accepted order_dec [r])"
  using assms unfolding line_ok_def
  by (subst listen_loop.simps) (simp add: PubSub_Next_def NextChunk_def ReadSlice_line accepted_def map_filter_simps split: sum.split)

lemma listen_lines:
  assumes "list_all2 (line_ok TrimSpace record_dec) ls rs"
  shows "listen_loop TrimSpace record_dec order_dec ended (concat (map (\<lambda>l. l @ [10]) ls) @ rest) emitted
    = listen_loop TrimSpace record_dec order_dec ended rest (emitted @ accepted order_dec rs)"
  using assms
proof (induction arbitrary: emitted rule: list_all2_induct)
  case Nil
  then show ?case by (simp add: accepted_def map_filter_simps)
next
  case (Cons l ls r rs)
  have "accepted order_dec (r # rs) = accepted order_dec [r] @ accepted order_dec rs"
    by (simp add: accepted_def map_filter_simps split: option.split)
  then show ?case using Cons.IH Cons.hyps(1) by (simp add: listen_line)
qed


lemma listen_stops:
  assumes "list_all2 (line_ok TrimSpace record_dec) ls rs"
  shows "10 \<notin> set rest \<Longrightarrow> length rest < 4096 \<Longrightarrow>
      listen_loop TrimSpace record_dec order_dec ended (concat (map (\<lambda>l. l @ [10]) ls) @ rest) emitted
      = (emitted @ accepted order_dec rs, if ended then Died ''unexpected EOF'' else Listening rest)"
    and "10 \<notin> set (take 4096 rest) \<Longrightarrow> 4096 \<le> length rest \<Longrightarrow>
      listen_loop TrimSpace record_dec order_dec ended (concat (map (\<lambda>l. l @ [10]) ls) @ rest) emitted
      = (emitted @ accepted order_dec rs, Died ''bufio: buffer full'')"
proof -
  have whole: "takeWhile (\<lambda>b. b \<noteq> 10) xs = xs" if "(10 :: byte) \<notin> set xs" for xs
    using that by (auto simp: takeWhile_eq_all_conv)
  { assume "10 \<notin> set rest" "length rest < 4096"
    then show "listen_loop TrimSpace record_dec order_dec ended (concat (map (\<lambda>l. l @ [10]) ls) @ rest) emitted
      = (emitted @ accepted order_dec rs, if ended then Died ''unexpected EOF'' else Listening rest)"
      by (subst listen_lines [OF assms], subst listen_loop.simps) (simp add: PubSub_Next_def NextChunk_def ReadSlice_def whole) }
  { assume "10 \<notin> set (take 4096 rest)" "4096 \<le> length rest"
    then show "listen_loop TrimSpace record_dec order_dec ended (concat (map (\<lambda>l. l @ [10]) ls) @ rest) emitted
      = (emitted @ accepted order_dec rs, Died ''bufio: buffer full'')"
      by (subst listen_lines [OF assms], subst listen_loop.simps) (simp add: PubSub_Next_def NextChunk_def ReadSlice_def whole) }
qed

text \<open>The order of a record: \<open>UnmarshalJSON\<close> into a fresh order; and what \<open>PublishOrder\<close> hands to the node.\<close>

definition order_of_record :: "(bytes \<Rightarrow> jobj res) \<Rightarrow> (bytes \<Rightarrow> 'pub option) \<Rightarrow> (string \<Rightarrow> rat res) \<Rightarrow> bytes \<Rightarrow> 'pub Order res" where
  "order_of_record json_parse ec_base rat_SetString data =
    (case json_parse data of
       Inl e \<Rightarrow> Inl e
     | Inr obj \<Rightarrow> (case Order_UnmarshalJSON ec_base rat_SetString obj zero_Order of (ord, Inl e) \<Rightarrow> Inl e | (ord, Inr _) \<Rightarrow> Inr ord))"

definition order_wire :: "(jobj \<Rightarrow> bytes) \<Rightarrow> (rat \<Rightarrow> string) \<Rightarrow> 'pub Order \<Rightarrow> bytes" where
  "order_wire json_print rat_String order = json_print (Order_MarshalJSON rat_String order)"

definition line_carries :: "(bytes \<Rightarrow> bytes) \<Rightarrow> (bytes \<Rightarrow> Record res) \<Rightarrow> bytes \<Rightarrow> bytes \<Rightarrow> bool" where
  "line_carries TrimSpace record_dec l data \<longleftrightarrow>
     10 \<notin> set l \<and> length l < 4096 \<and> (case record_dec (TrimSpace (l @ [10])) of Inr r \<Rightarrow> rec_Data r = data | Inl _ \<Rightarrow> False)"

lemma lines_carried:
  assumes "list_all2 (line_carries TrimSpace record_dec) ls ds"
  obtains rs where "list_all2 (line_ok TrimSpace record_dec) ls rs" "map rec_Data rs = ds"
  using assms
proof (induction arbitrary: thesis rule: list_all2_induct)
  case Nil
  then show ?case by simp
next
  case (Cons l ls d ds)
  then obtain rs where "list_all2 (line_ok TrimSpace record_dec) ls rs" "map rec_Data rs = ds" by blast
  moreover obtain r where "line_ok TrimSpace record_dec l r" "rec_Data r = d"
    using Cons.hyps(1) by (auto simp: line_carries_def line_ok_def split: sum.splits)
  ultimately show ?case using Cons.prems [of "r # rs"] by simp
qed

lemma order_of_wire:
  assumes "order_valid ec_base order" "rat_text rat_String rat_SetString"
    "json_parse (order_wire json_print rat_String order) = Inr (Order_MarshalJSON rat_String order)"
  shows "order_of_record json_parse ec_base rat_SetString (order_wire json_print rat_String order) = Inr order"
proof -
  have "order\<lparr>ord_LrcFee := (case ord_LrcFee order of None \<Rightarrow> ord_LrcFee zero_Order | fee \<Rightarrow> fee),
      ord_Price := (case ord_Price order of None \<Rightarrow> ord_Price zero_Order | price \<Rightarrow> price)\<rparr> = order"
    by (rule Order.equality) (simp_all add: zero_Order_def split: option.split)
  then show ?thesis using Order_read_back [OF assms(1,2), of zero_Order] assms(3) by (simp add: order_of_record_def)
qed




text \<open>Claim C31: the orders of a topic are emitted, every one once and in the order of their records: for valid orders, published as their JSON text, whose records arrive as lines that fit
  into the buffer of the reader, the goroutine emits exactly these orders and waits with what has arrived of the next line.\<close>

theorem ipfs_orders_delivered:
  assumes "rat_text rat_String rat_SetString"
    and "\<forall>ord \<in> set os. order_valid ec_base ord \<and> 2 < length (order_wire json_print rat_String ord)
      \<and> json_parse (order_wire json_print rat_String ord) = Inr (Order_MarshalJSON rat_String ord)"
    and "list_all2 (line_carries TrimSpace record_dec) ls (map (order_wire json_print rat_String) os)"
    and "10 \<notin> set rest" "length rest < 4096"
  shows "listen_loop TrimSpace record_dec (order_of_record json_parse ec_base rat_SetString) False (concat (map (\<lambda>l. l @ [10]) ls) @ rest) [] = (os, Listening rest)"
proof -
  let ?wire = "order_wire json_print rat_String" and ?dec = "order_of_record json_parse ec_base rat_SetString"
  obtain rs where rs: "list_all2 (line_ok TrimSpace record_dec) ls rs" "map rec_Data rs = map ?wire os"
    using assms(3) by (rule lines_carried)
  have dec: "2 < length (?wire ord) \<and> ?dec (?wire ord) = Inr ord" if "ord \<in> set os" for ord
    using that assms(1,2) by (simp add: order_of_wire)
  have "accepted ?dec rs = os"
    using rs(2) dec
  proof (induction os arbitrary: rs)
    case Nil
    then show ?case by (simp add: accepted_def map_filter_simps)
  next
    case (Cons ord os)
    then obtain r rs' where "rs = r # rs'" "rec_Data r = ?wire ord" "map rec_Data rs' = map ?wire os" by (auto simp: map_eq_Cons_conv)
    then show ?case using Cons.IH [of rs'] Cons.prems(2) by (simp add: accepted_def map_filter_simps)
  qed
  then show ?thesis using listen_stops(1) [OF rs(1) assms(4,5), of ?dec False "[]"] by simp
qed

definition demo_other_order :: "unit Order" where
  "demo_other_order = demo_sent_order\<lparr>ord_V := 28\<rparr>"

lemma demo_other_order_valid: "order_valid (\<lambda>_. Some ()) demo_other_order"
  using demo_sent_order_valid by (simp add: demo_other_order_def order_valid_def)

definition demo_print :: "jobj \<Rightarrow> bytes" where
  "demo_print obj = (if obj = Order_MarshalJSON rat_MarshalText demo_sent_order then [123, 1, 125] else [123, 2, 125])"

definition demo_parse :: "bytes \<Rightarrow> jobj res" where
  "demo_parse d = Inr (Order_MarshalJSON rat_MarshalText (if d = [123, 1, 125] then demo_sent_order else demo_other_order))"

definition demo_record :: "bytes \<Rightarrow> Record res" where
  "demo_record d = Inr \<lparr>rec_From = [7], rec_Data = drop 1 d, rec_Seqno = replicate 8 0, rec_TopicIDs = [''orders'']\<rparr>"

theorem ipfs_orders_delivered_witness:
  "listen_loop (filter (\<lambda>b. b \<noteq> 10)) demo_record (order_of_record demo_parse (\<lambda>_. Some ()) rat_read) False
     (concat (map (\<lambda>l. l @ [10]) (map (\<lambda>ord. 32 # order_wire demo_print rat_MarshalText ord) [demo_sent_order, demo_other_order])) @ [32, 123]) []
   = ([demo_sent_order, demo_other_order], Listening [32, 123])"
proof (rule ipfs_orders_delivered)
  show "rat_text rat_MarshalText rat_read" by (rule rat_MarshalText_read)
  show "\<forall>ord \<in> set [demo_sent_order, demo_other_order]. order_valid (\<lambda>_. Some ()) ord \<and> 2 < length (order_wire demo_print rat_MarshalText ord)
      \<and> demo_parse (order_wire demo_print rat_MarshalText ord) = Inr (Order_MarshalJSON rat_MarshalText ord)"
    by (simp add: demo_sent_order_valid demo_other_order_valid order_wire_def demo_print_def demo_parse_def)
  show "list_all2 (line_carries (filter (\<lambda>b. b \<noteq> 10)) demo_record) (map (\<lambda>ord. 32 # order_wire demo_print rat_MarshalText ord) [demo_sent_order, demo_other_order])
      (map (order_wire demo_print rat_MarshalText) [demo_sent_order, demo_other_order])"
    by (simp add: line_carries_def demo_record_def order_wire_def demo_print_def)
qed simp_all

text \<open>One line that is too long, or one end of the stream, ends the process, whatever was emitted before it; so does one record that is no JSON.\<close>

lemma listen_long_line:
  assumes "list_all2 (line_ok TrimSpace record_dec) ls rs" "10 \<notin> set (take 4096 rest)" "4096 \<le> length rest"
  shows "snd (listen_loop TrimSpace record_dec order_dec ended (concat (map (\<lambda>l. l @ [10]) ls) @ rest) emitted) = Died ''bufio: buffer full''"
  by (subst listen_stops(2) [OF assms]) simp

lemma listen_malformed:
  assumes "list_all2 (line_ok TrimSpace record_dec) ls rs" "10 \<notin> set l" "length l < 4096" "record_dec (TrimSpace (l @ [10])) = Inl e"
  shows "listen_loop TrimSpace record_dec order_dec ended (concat (map (\<lambda>l. l @ [10]) ls) @ l @ 10 # rest) emitted
    = (emitted @ accepted order_dec rs, Died ''json'')"
  using assms(2-4) by (subst listen_lines [OF assms(1)], subst listen_loop.simps) (simp add: PubSub_Next_def NextChunk_def ReadSlice_line)

subsection \<open>Topics\<close>

text \<open>The states the service can be in once it is started: every proxy listens, so \<open>Unregister\<close> cannot close a channel twice.\<close>

definition all_listening :: "IPFSSubService \<Rightarrow> bool" where
  "all_listening l \<longleftrightarrow> (\<forall>topic p. ls_subs l topic = Some p \<longrightarrow> sp_topic p = topic \<and> sp_stop p = Some False)"

lemma Register_cases:
  assumes "Register Send topic (l, w) = ((l', w'), r)"
  shows "(r \<noteq> Inr () \<and> l' = l)
    \<or> (r = Inr () \<and> ls_subs l topic = None \<and> ls_subs l' = (ls_subs l)(topic \<mapsto> \<lparr>sp_topic = topic, sp_stop = Some False\<rparr>)
       \<and> ls_goroutines l' = (ls_goroutines l)(topic := ls_goroutines l topic + 1) \<and> ls_options l' = ls_options l)"
  using assms
  by (cases "Send (IpfsOptions_Url (ls_options l)) topic w")
    (auto simp: Register_def newSubProxy_def PubSubSubscribe_def sbind_def stry_def on_snd_def sget_def sfail_def sret_def smod_def proxy_listen_def
      split: if_splits sum.splits prod.splits go_error.splits)

lemma Unregister_listening:
  assumes "all_listening l"
  shows "Unregister topic l = (if ls_subs l topic = None then (l, Inl (Err (''ipfs sub, topic '' @ topic @ '' do not exist'')))
    else (l\<lparr>ls_subs := (ls_subs l)(topic := None)\<rparr>, Inr ()))"
  using assms by (auto simp: Unregister_def all_listening_def proxy_quit_def sbind_def sget_def slift_def smod_def sfail_def split: option.split)


lemma Register_listening: "Register Send topic (l, w) = ((l', w'), r) \<Longrightarrow> all_listening l \<Longrightarrow> all_listening l'"
  by (drule Register_cases) (auto simp: all_listening_def split: if_splits)

lemma Unregister_keeps_listening: "Unregister topic l = (l', r) \<Longrightarrow> all_listening l \<Longrightarrow> all_listening l' \<and> ls_goroutines l' = ls_goroutines l"
  by (auto simp: Unregister_listening all_listening_def split: if_splits)

text \<open>\<open>Unregister\<close> closes a channel that no goroutine reads, so the goroutine of the topic goes on; a topic that is registered again is read twice.\<close>

lemma Unregister_leaks:
  assumes "all_listening l" "Register Send topic (l, w) = ((l1, w1), Inr ())" "Unregister topic l1 = (l2, Inr ())"
    and "Register Send topic (l2, w1) = ((l3, w3), Inr ())"
  shows "ls_subs l3 = ls_subs l1 \<and> ls_goroutines l3 topic = ls_goroutines l topic + 2"
  using Register_cases [OF assms(2)] Register_cases [OF assms(4)] Register_listening [OF assms(2,1)] assms(3)
  by (auto simp: Unregister_listening split: if_splits)

lemma Unregister_again:
  assumes "all_listening l" "Unregister topic l = (l', Inr ())"
  shows "\<exists>e. Unregister topic l' = (l', Inl (Err e))"
  using assms Unregister_keeps_listening [OF assms(2,1)] by (auto simp: Unregister_listening split: if_splits)

lemma Unregister_before_Start:
  "ls_subs l topic = Some p \<Longrightarrow> sp_stop p = None \<Longrightarrow> Unregister topic l = (l, Inl (Panic (Fatal ''close of nil channel'')))"
  by (simp add: Unregister_def proxy_quit_def sbind_def sget_def slift_def)

text \<open>\<open>Start\<close> brings the service from the table it was created with into a state where every proxy listens.\<close>

lemma Start_run:
  "\<exists>l'. ipfs_Start topics l = (l', Inr ()) \<and> ls_options l' = ls_options l
    \<and> ls_subs l' = (\<lambda>t. if t \<in> set topics then map_option (\<lambda>p. p\<lparr>sp_stop := Some False\<rparr>) (ls_subs l t) else ls_subs l t)"
proof (induction topics arbitrary: l)
  case Nil
  then show ?case by (simp add: ipfs_Start_def sret_def)
next
  case (Cons t ts)
  let ?step = "on_proxy do_listen t l"
  have step: "snd ?step = Inr () \<and> ls_options (fst ?step) = ls_options l
    \<and> ls_subs (fst ?step) = (ls_subs l)(t := map_option (\<lambda>p. p\<lparr>sp_stop := Some False\<rparr>) (ls_subs l t))"
    by (auto simp: on_proxy_def do_listen_def proxy_listen_def sbind_def sget_def smod_def sret_def split: option.split)
  obtain l' where l': "ipfs_Start ts (fst ?step) = (l', Inr ())" "ls_options l' = ls_options (fst ?step)"
    "ls_subs l' = (\<lambda>t'. if t' \<in> set ts then map_option (\<lambda>p. p\<lparr>sp_stop := Some False\<rparr>) (ls_subs (fst ?step) t') else ls_subs (fst ?step) t')"
    using Cons.IH by blast
  have "ipfs_Start (t # ts) l = ipfs_Start ts (fst ?step)"
    using step by (cases ?step) (simp add: ipfs_Start_def sbind_def)
  moreover have "ls_subs l' = (\<lambda>t'. if t' \<in> set (t # ts) then map_option (\<lambda>p. p\<lparr>sp_stop := Some False\<rparr>) (ls_subs l t') else ls_subs l t')"
    using l'(3) step by (auto simp: fun_eq_iff option.map_comp comp_def)
  ultimately show ?case using l'(1,2) step by auto
qed

lemma Start_all_listening:
  assumes "dom (ls_subs l) \<subseteq> set topics" "\<And>t p. ls_subs l t = Some p \<Longrightarrow> sp_topic p = t"
  shows "\<exists>l'. ipfs_Start topics l = (l', Inr ()) \<and> all_listening l' \<and> dom (ls_subs l') = dom (ls_subs l)"
proof -
  obtain l' where l': "ipfs_Start topics l = (l', Inr ())"
    "ls_subs l' = (\<lambda>t. if t \<in> set topics then map_option (\<lambda>p. p\<lparr>sp_stop := Some False\<rparr>) (ls_subs l t) else ls_subs l t)"
    using Start_run [of topics l] by blast
  then show ?thesis using assms by (auto simp: all_listening_def dom_def split: if_splits)
qed

lemma subscribe_topics_table:
  assumes "subscribe_topics Send url topics subs w = (w', Inr subs')" "\<forall>t p. subs t = Some p \<longrightarrow> p = \<lparr>sp_topic = t, sp_stop = None\<rparr>"
  shows "dom subs' = dom subs \<union> set topics \<and> (\<forall>t p. subs' t = Some p \<longrightarrow> p = \<lparr>sp_topic = t, sp_stop = None\<rparr>)"
  using assms
proof (induction topics arbitrary: subs w)
  case Nil
  then show ?case by (simp add: sret_def)
next
  case (Cons t ts)
  obtain w1 where "newSubProxy Send url t w = (w1, Inr \<lparr>sp_topic = t, sp_stop = None\<rparr>)"
    "subscribe_topics Send url ts (subs(t \<mapsto> \<lparr>sp_topic = t, sp_stop = None\<rparr>)) w1 = (w', Inr subs')"
    using Cons.prems(1)
    by (auto simp: newSubProxy_def sbind_def stry_def sfail_def sret_def split: prod.splits sum.splits go_error.splits)
  moreover have "\<forall>t' p. (subs(t \<mapsto> \<lparr>sp_topic = t, sp_stop = None\<rparr>)) t' = Some p \<longrightarrow> p = \<lparr>sp_topic = t', sp_stop = None\<rparr>"
    using Cons.prems(2) by simp
  ultimately have "dom subs' = dom (subs(t \<mapsto> \<lparr>sp_topic = t, sp_stop = None\<rparr>)) \<union> set ts \<and> (\<forall>t p. subs' t = Some p \<longrightarrow> p = \<lparr>sp_topic = t, sp_stop = None\<rparr>)"
    by (intro Cons.IH)
  then show ?case by simp
qed

text \<open>A service that is created and started listens on exactly the configured topics.\<close>

lemma ipfs_service_starts:
  assumes "NewIPFSSubService Send options w = (w', Inr l)" "set (io_ListenTopics options) \<subseteq> set topics"
  shows "\<exists>l'. ipfs_Start topics l = (l', Inr ()) \<and> all_listening l' \<and> dom (ls_subs l') = set (io_ListenTopics options)"
proof -
  have new: "subscribe_topics Send (IpfsOptions_Url options) (io_ListenTopics options) Map.empty w = (w', Inr (ls_subs l))"
    using assms(1) by (auto simp: NewIPFSSubService_def sbind_def sret_def split: prod.splits sum.splits)
  have "dom (ls_subs l) = set (io_ListenTopics options)" "\<forall>t p. ls_subs l t = Some p \<longrightarrow> p = \<lparr>sp_topic = t, sp_stop = None\<rparr>"
    using subscribe_topics_table [OF new] by simp_all
  then show ?thesis using Start_all_listening [of l topics] assms(2) by fastforce
qed

lemma Stop_twice_panics:
  assumes "ls_subs l topic = Some p" "sp_stop p = Some False"
  shows "ipfs_Stop [topic] (fst (ipfs_Stop [topic] l)) = (fst (ipfs_Stop [topic] l), Inl (Panic (Fatal ''close of closed channel'')))"
  using assms by (simp add: ipfs_Stop_def on_proxy_def proxy_quit_def sbind_def sget_def smod_def slift_def sret_def)

lemma PublishOrder_without_topic:
  "io_BroadcastTopics options = [] \<Longrightarrow> MarshalJSON order = Inr data \<Longrightarrow> PublishOrder MarshalJSON PubSubPublish options order w = (w, Inl (Panic IndexOutOfRange))"
  by (simp add: PublishOrder_def sbind_def slift_def sfail_def)

end
