(* ===== verification/Market_Cap.thy ===== *)
theory Market_Cap
  imports Market_Util Go_State Redis_Cache
begin

section \<open>Market capitalisation (\<open>marketcap\<close>)\<close>

text \<open>
  Prices of tokens in currencies, kept per token and currency and refreshed from Redis, and the values of amounts
  computed from them. A floating point number is its exact rational value, \<open>None\<close> when it is not finite; all
  arithmetic is on rationals. The tickers of different tokens and currencies are different objects, so the update in
  place is an update of the table. Parameters: the cache, and the JSON decoder of a ticker.
\<close>

subsection \<open>Currencies (\<open>capprovider.go\<close>)\<close>

datatype LegalCurrency = CNY | USD | EUR | BTC

definition StringToLegalCurrency :: "string \<Rightarrow> LegalCurrency" where
  "StringToLegalCurrency currency = (let c = ToUpper currency in
     if c = ''CNY'' then CNY else if c = ''USD'' then USD else if c = ''BTC'' then BTC else CNY)"

definition LegalCurrencyToString :: "LegalCurrency \<Rightarrow> string" where
  "LegalCurrencyToString c = (case c of CNY \<Rightarrow> ''CNY'' | USD \<Rightarrow> ''USD'' | BTC \<Rightarrow> ''BTC'' | EUR \<Rightarrow> ''CNY'')"

lemma legal_currency_roundtrip: "StringToLegalCurrency (LegalCurrencyToString c) = c \<longleftrightarrow> c \<noteq> EUR"
  by (cases c) (simp_all add: StringToLegalCurrency_def LegalCurrencyToString_def ToUpper_def upper_char_def)

subsection \<open>State\<close>

type_synonym float64 = "rat option"

record CMCTicker =
  cm_TokenId :: int
  cm_Address :: address
  cm_TokenName :: string
  cm_Symbol :: string
  cm_WebsiteSlug :: string
  cm_Market :: string
  cm_CmcRank :: int
  cm_CirculatingSupply :: float64
  cm_TotalSupply :: float64
  cm_MaxSupply :: float64
  cm_Price :: float64
  cm_Volume24H :: float64
  cm_MarketCap :: float64
  cm_PercentChange1H :: float64
  cm_PercentChange24H :: float64
  cm_PercentChange7D :: float64
  cm_LastUpdated :: int
  cm_Decimals :: "int option"

record CapProvider_CoinMarketCap =
  cp_baseUrl :: string
  cp_tokenMarketCaps :: "address \<rightharpoonup> (string \<rightharpoonup> CMCTicker)"
  cp_icoTokens :: "address list"
  cp_notSupportTokens :: "address \<rightharpoonup> bool"
  cp_slugToAddress :: "string \<rightharpoonup> address"
  cp_currency :: string
  cp_duration :: int
  cp_dustValue :: "rat option"

record MarketCapOptions =
  mo_BaseUrl :: string
  mo_Currency :: string
  mo_Duration :: int
  mo_DustValue :: "rat option"

record 'w cap_env =
  cv_cache :: "'w Cache option"
  cv_dec :: "bytes \<Rightarrow> CMCTicker res"
  cv_market :: market_env

subsection \<open>Tickers in Redis\<close>

text \<open>The fields and values of the hash alternate; a field without a value is beyond the end of the slice. A ticker that does not
  decode leaves no table at all.\<close>

fun read_tickers :: "(bytes \<Rightarrow> CMCTicker res) \<Rightarrow> bytes list \<Rightarrow> (string \<rightharpoonup> CMCTicker) \<Rightarrow> (string \<rightharpoonup> CMCTicker) res" where
  "read_tickers dec (k # v # rest) m = rbind (dec v) (\<lambda>ticker. read_tickers dec rest (m(string_of k \<mapsto> ticker)))"
| "read_tickers dec [k] m = Inl (Panic IndexOutOfRange)"
| "read_tickers dec [] m = Inr m"

definition getTickersFromRedis :: "'w cap_env \<Rightarrow> string \<Rightarrow> ('w, string \<rightharpoonup> CMCTicker) st" where
  "getTickersFromRedis E market =
     sbind (cache_call (\<lambda>c. c_HGetAll c (''COINMARKETCAP_TICKER_NEW_'' @ market)) (cv_cache E)) (\<lambda>ticketData.
       slift (read_tickers (cv_dec E) ticketData Map.empty))"

text \<open>Both callers drop the error: the table is then empty.\<close>

definition tickers_or_none :: "'w cap_env \<Rightarrow> string \<Rightarrow> ('w, string \<rightharpoonup> CMCTicker) st" where
  "tickers_or_none E market = sbind (stry (getTickersFromRedis E market)) (\<lambda>r. sret (case r of Inr m \<Rightarrow> m | Inl err \<Rightarrow> Map.empty))"

definition refreshed :: "CMCTicker \<Rightarrow> CMCTicker \<Rightarrow> CMCTicker" where
  "refreshed t cmc = t\<lparr>cm_Price := cm_Price cmc, cm_CmcRank := cm_CmcRank cmc, cm_TokenName := cm_TokenName cmc,
     cm_LastUpdated := cm_LastUpdated cmc, cm_PercentChange7D := cm_PercentChange7D cmc, cm_PercentChange24H := cm_PercentChange24H cmc,
     cm_PercentChange1H := cm_PercentChange1H cmc, cm_MarketCap := cm_MarketCap cmc, cm_Market := cm_Market cmc,
     cm_MaxSupply := cm_MaxSupply cmc, cm_CirculatingSupply := cm_CirculatingSupply cmc, cm_TotalSupply := cm_TotalSupply cmc,
     cm_Volume24H := cm_Volume24H cmc\<rparr>"

definition sync_token :: "(string \<rightharpoonup> CMCTicker) \<Rightarrow> string \<Rightarrow> (string \<rightharpoonup> CMCTicker) \<Rightarrow> (string \<rightharpoonup> CMCTicker)" where
  "sync_token tickerMap currency c1 = (case c1 currency of
      None \<Rightarrow> c1
    | Some ticker \<Rightarrow> (case tickerMap (cm_WebsiteSlug ticker) of Some cmc \<Rightarrow> c1(currency \<mapsto> refreshed ticker cmc) | None \<Rightarrow> c1))"

definition sync_missing :: "(string \<rightharpoonup> CMCTicker) \<Rightarrow> string \<Rightarrow> (string \<rightharpoonup> CMCTicker) \<Rightarrow> bool" where
  "sync_missing tickerMap currency c1 = (case c1 currency of None \<Rightarrow> False | Some ticker \<Rightarrow> tickerMap (cm_WebsiteSlug ticker) = None)"

definition syncMarketCapFromRedis :: "'w cap_env \<Rightarrow> string \<Rightarrow> CapProvider_CoinMarketCap \<Rightarrow> ('w, CapProvider_CoinMarketCap) st" where
  "syncMarketCapFromRedis E currency p =
     sbind (tickers_or_none E currency) (\<lambda>tickerMap. sret (p\<lparr>
       cp_tokenMarketCaps := (\<lambda>a. map_option (sync_token tickerMap currency) (cp_tokenMarketCaps p a)),
       cp_notSupportTokens := (\<lambda>a. case cp_tokenMarketCaps p a of
           Some c1 \<Rightarrow> if sync_missing tickerMap currency c1 then Some True else None | None \<Rightarrow> None)\<rparr>))"

text \<open>One turn of the goroutine that \<open>Start\<close> starts.\<close>

definition sync_tick :: "'w cap_env \<Rightarrow> CapProvider_CoinMarketCap \<Rightarrow> ('w, CapProvider_CoinMarketCap) st" where
  "sync_tick E p = sbind (syncMarketCapFromRedis E ''CNY'' p) (syncMarketCapFromRedis E ''USD'')"

subsection \<open>Creation\<close>

definition icoPriceTokens :: "'w cap_env \<Rightarrow> market \<Rightarrow> address list" where
  "icoPriceTokens E st = map tk_Protocol (filter (\<lambda>t. case tk_IcoPrice t of Some r \<Rightarrow> 0 < r | None \<Rightarrow> False)
     (map (get_token (mk_AllTokens st)) (me_tokens (cv_market E) (mk_AllTokens st))))"

definition zero_ticker :: CMCTicker where
  "zero_ticker = \<lparr>cm_TokenId = 0, cm_Address = replicate 20 0, cm_TokenName = [], cm_Symbol = [], cm_WebsiteSlug = [], cm_Market = [],
     cm_CmcRank = 0, cm_CirculatingSupply = Some 0, cm_TotalSupply = Some 0, cm_MaxSupply = Some 0, cm_Price = Some 0, cm_Volume24H = Some 0,
     cm_MarketCap = Some 0, cm_PercentChange1H = Some 0, cm_PercentChange24H = Some 0, cm_PercentChange7D = Some 0, cm_LastUpdated = 0,
     cm_Decimals = None\<rparr>"

definition new_ticker :: "Token \<Rightarrow> CMCTicker" where
  "new_ticker v = zero_ticker\<lparr>cm_Address := tk_Protocol v, cm_WebsiteSlug := tk_Source v, cm_Symbol := tk_Symbol v, cm_Decimals := tk_Decimals v\<rparr>"

definition cap_table :: "'w cap_env \<Rightarrow> market \<Rightarrow> address \<rightharpoonup> (string \<rightharpoonup> CMCTicker)" where
  "cap_table E st = fold (\<lambda>k m. let v = get_token (mk_AllTokens st) k in m(tk_Protocol v \<mapsto> [''USD'' \<mapsto> new_ticker v, ''CNY'' \<mapsto> new_ticker v]))
     (me_tokens (cv_market E) (mk_AllTokens st)) Map.empty"

definition slug_table :: "'w cap_env \<Rightarrow> market \<Rightarrow> string \<rightharpoonup> address" where
  "slug_table E st = fold (\<lambda>k m. let v = get_token (mk_AllTokens st) k in m(ToUpper (tk_Source v) \<mapsto> tk_Protocol v))
     (me_tokens (cv_market E) (mk_AllTokens st)) Map.empty"

definition NewMarketCapProvider :: "'w cap_env \<Rightarrow> market \<Rightarrow> MarketCapOptions \<Rightarrow> ('w, CapProvider_CoinMarketCap) st" where
  "NewMarketCapProvider E st options =
    sbind (slift (deref (mo_DustValue options))) (\<lambda>dust.
    let provider = \<lparr>cp_baseUrl = mo_BaseUrl options, cp_tokenMarketCaps = cap_table E st, cp_icoTokens = icoPriceTokens E st,
          cp_notSupportTokens = Map.empty, cp_slugToAddress = slug_table E st, cp_currency = mo_Currency options,
          cp_duration = (if mo_Duration options \<le> 0 then 5 else mo_Duration options),
          cp_dustValue = Some (if dust \<le> 0 then 1 else dust)\<rparr> in
    sbind (syncMarketCapFromRedis E ''USD'' provider) (syncMarketCapFromRedis E ''CNY''))"

subsection \<open>Prices and values\<close>

definition IsSupport :: "CapProvider_CoinMarketCap \<Rightarrow> address \<Rightarrow> bool" where
  "IsSupport p token \<longleftrightarrow> cp_notSupportTokens p token = None"

definition ticker_of :: "CapProvider_CoinMarketCap \<Rightarrow> address \<Rightarrow> string \<Rightarrow> CMCTicker option" where
  "ticker_of p tokenAddress currencyStr = (case cp_tokenMarketCaps p tokenAddress of Some c \<Rightarrow> c currencyStr | None \<Rightarrow> None)"

definition cap_price :: "float64 \<Rightarrow> rat res" where
  "cap_price f = (case f of Some r \<Rightarrow> Inr r | None \<Rightarrow> Inl (Err ''tokenCap is nil''))"

definition GetMarketCapByCurrency :: "'w cap_env \<Rightarrow> market \<Rightarrow> CapProvider_CoinMarketCap \<Rightarrow> address \<Rightarrow> string \<Rightarrow> ('w, rat) st" where
  "GetMarketCapByCurrency E st p tokenAddress currencyStr =
    (if \<not> IsSupport p tokenAddress then sret 0
     else case ticker_of p tokenAddress currencyStr of
       Some ticker \<Rightarrow> slift (cap_price (cm_Price ticker))
     | None \<Rightarrow> sbind (tickers_or_none E currencyStr) (\<lambda>tickerMap.
         slift (case tickerMap (AddressToSource (cv_market E) st (Address_Hex (me_K (cv_market E)) tokenAddress)) of
           Some c \<Rightarrow> cap_price (cm_Price c) | None \<Rightarrow> Inl (Err ''tokenCap is nil''))))"

definition LegalCurrencyValueByCurrency :: "'w cap_env \<Rightarrow> market \<Rightarrow> CapProvider_CoinMarketCap \<Rightarrow> address \<Rightarrow> rat \<Rightarrow> string \<Rightarrow> ('w, rat) st" where
  "LegalCurrencyValueByCurrency E st p tokenAddress amount currencyStr =
    (if \<not> IsSupport p tokenAddress then sret 0
     else case ticker_of p tokenAddress currencyStr of
       None \<Rightarrow> sfail (Err (''not found tokenCap:'' @ Address_Hex (me_K (cv_market E)) tokenAddress))
     | Some ticker \<Rightarrow> sbind (slift (rbind (rat_SetInt (cm_Decimals ticker)) (rat_Quo amount))) (\<lambda>v.
         sbind (GetMarketCapByCurrency E st p tokenAddress currencyStr) (\<lambda>price. sret (price * v))))"

definition LegalCurrencyValue :: "'w cap_env \<Rightarrow> market \<Rightarrow> CapProvider_CoinMarketCap \<Rightarrow> address \<Rightarrow> rat \<Rightarrow> ('w, rat) st" where
  "LegalCurrencyValue E st p tokenAddress amount = LegalCurrencyValueByCurrency E st p tokenAddress amount (cp_currency p)"

definition LegalCurrencyValueOfEth :: "'w cap_env \<Rightarrow> market \<Rightarrow> CapProvider_CoinMarketCap \<Rightarrow> rat \<Rightarrow> ('w, rat) st" where
  "LegalCurrencyValueOfEth E st p amount = LegalCurrencyValueByCurrency E st p (AliasToAddress st ''WETH'') amount (cp_currency p)"

definition GetMarketCap :: "'w cap_env \<Rightarrow> market \<Rightarrow> CapProvider_CoinMarketCap \<Rightarrow> address \<Rightarrow> ('w, rat) st" where
  "GetMarketCap E st p tokenAddress = GetMarketCapByCurrency E st p tokenAddress (cp_currency p)"

definition GetEthCap :: "'w cap_env \<Rightarrow> market \<Rightarrow> CapProvider_CoinMarketCap \<Rightarrow> ('w, rat) st" where
  "GetEthCap E st p = GetMarketCapByCurrency E st p (AliasToAddress st ''WETH'') (cp_currency p)"

text \<open>The comparison with a nil value panics.\<close>

definition IsValueDusted :: "CapProvider_CoinMarketCap \<Rightarrow> rat option \<Rightarrow> bool res" where
  "IsValueDusted p value = rbind (deref (cp_dustValue p)) (\<lambda>dust. rbind (deref value) (\<lambda>v. Inr (v < dust)))"

definition IsOrderValueDust :: "'w cap_env \<Rightarrow> market \<Rightarrow> CapProvider_CoinMarketCap \<Rightarrow> 'pub OrderState \<Rightarrow> ('w, bool) st" where
  "IsOrderValueDust E st p state =
    sbind (slift (RemainedAmount state)) (\<lambda>(remainedAmountS, remainedAmountB).
    sbind (stry (if IsSupport p (ord_TokenS (st_RawOrder state))
        then LegalCurrencyValue E st p (ord_TokenS (st_RawOrder state)) remainedAmountS
        else LegalCurrencyValue E st p (ord_TokenB (st_RawOrder state)) remainedAmountB)) (\<lambda>r.
    slift (IsValueDusted p (case r of Inr v \<Rightarrow> Some v | Inl err \<Rightarrow> None))))"

subsection \<open>The local provider\<close>

record CurrencyMarketCap =
  cc_Id :: string
  cc_Name :: string
  cc_Symbol :: string
  cc_Address :: address
  cc_PriceUsd :: "rat option"
  cc_PriceBtc :: "rat option"
  cc_PriceCny :: "rat option"
  cc_Volume24HCNY :: "rat option"
  cc_Volume24HUSD :: "rat option"
  cc_LastUpdated :: int
  cc_Decimals :: "int option"

text \<open>A market whose token is not in the table of tokens leaves a nil token, which is dereferenced.\<close>

definition LocalCap_Start :: "market_env \<Rightarrow> market \<Rightarrow> (address \<rightharpoonup> CurrencyMarketCap) \<Rightarrow> (address \<rightharpoonup> CurrencyMarketCap) res" where
  "LocalCap_Start E st caps =
    foldl (\<lambda>r marketStr. rbind r (\<lambda>m. let tokenAddress = fst (UnWrapToAddress st marketStr) in
      case AddressToToken E st tokenAddress of
        Inl err \<Rightarrow> Inl (Panic NilDeref)
      | Inr token \<Rightarrow> rbind (deref (tk_Decimals token)) (\<lambda>d. Inr (m(tokenAddress \<mapsto>
          \<lparr>cc_Id = tk_Source token, cc_Name = tk_Symbol token, cc_Symbol = tk_Symbol token, cc_Address = tk_Protocol token,
           cc_PriceUsd = None, cc_PriceBtc = None, cc_PriceCny = None, cc_Volume24HCNY = None, cc_Volume24HUSD = None, cc_LastUpdated = 0, cc_Decimals = Some d\<rparr>)))))
    (Inr caps) (mk_AllMarkets st)"


subsection \<open>What a refresh does\<close>

lemma sync_iff:
  "syncMarketCapFromRedis E c p w = (w', Inr p') \<longleftrightarrow> (\<exists>T. tickers_or_none E c w = (w', Inr T) \<and> p' = p\<lparr>
       cp_tokenMarketCaps := (\<lambda>a. map_option (sync_token T c) (cp_tokenMarketCaps p a)),
       cp_notSupportTokens := (\<lambda>a. case cp_tokenMarketCaps p a of
           Some c1 \<Rightarrow> if sync_missing T c c1 then Some True else None | None \<Rightarrow> None)\<rparr>)"
  by (auto simp: syncMarketCapFromRedis_def sbind_Inr_iff sret_def)

text \<open>
  Claim C40: after a refresh for a currency, a token with a ticker in that currency is supported exactly when the tickers of the currency could be read from Redis and decoded, and one of them is
  for its slug; a refresh that could not read or decode them leaves no such token supported. The price of a supported token in that currency is then the one in Redis, and an amount is worth the price times the
  amount over the token's unit. A token that is not supported is worth nothing, in this and in every other currency, although its tickers in the other currencies are as they were.
\<close>

theorem synced_values:
  assumes "syncMarketCapFromRedis E c p w = (w', Inr p')" "getTickersFromRedis E c w = (w1, r)" "ticker_of p a c = Some t"
  shows "(IsSupport p' a \<longleftrightarrow> (\<exists>T cmc. r = Inr T \<and> T (cm_WebsiteSlug t) = Some cmc))
    \<and> (\<forall>T cmc price d. r = Inr T \<longrightarrow> T (cm_WebsiteSlug t) = Some cmc \<longrightarrow> cm_Price cmc = Some price \<longrightarrow> cm_Decimals t = Some d \<longrightarrow> d \<noteq> 0 \<longrightarrow>
         GetMarketCapByCurrency E st p' a c v = (v, Inr price)
         \<and> LegalCurrencyValueByCurrency E st p' a amount c v = (v, Inr (price * (amount / of_int d))))
    \<and> (\<not> IsSupport p' a \<longrightarrow> (\<forall>c'. GetMarketCapByCurrency E st p' a c' v = (v, Inr 0) \<and> LegalCurrencyValueByCurrency E st p' a amount c' v = (v, Inr 0)))
    \<and> (\<forall>c'. c' \<noteq> c \<longrightarrow> ticker_of p' a c' = ticker_of p a c')"
proof -
  let ?T = "case r of Inr T \<Rightarrow> T | Inl _ \<Rightarrow> Map.empty"
  obtain c1 where c1: "cp_tokenMarketCaps p a = Some c1" "c1 c = Some t" using assms(3) by (auto simp: ticker_of_def split: option.splits)
  obtain T where T: "tickers_or_none E c w = (w', Inr T)" using assms(1) by (auto simp: sync_iff)
  then have "T = ?T" using assms(2) by (auto simp: tickers_or_none_def sbind_Inr_iff stry_Inr_iff sret_def split: sum.splits)
  then have p': "cp_tokenMarketCaps p' a = Some (sync_token ?T c c1)" "cp_notSupportTokens p' a = (if sync_missing ?T c c1 then Some True else None)"
    using assms(1) T c1 by (auto simp: sync_iff)
  have "\<forall>c'. c' \<noteq> c \<longrightarrow> ticker_of p' a c' = ticker_of p a c'"
    using p'(1) c1 by (auto simp: ticker_of_def sync_token_def split: option.splits)
  moreover have sup: "IsSupport p' a \<longleftrightarrow> (\<exists>T cmc. r = Inr T \<and> T (cm_WebsiteSlug t) = Some cmc)"
    using p'(2) c1 by (cases r) (auto simp: IsSupport_def sync_missing_def)
  moreover have "GetMarketCapByCurrency E st p' a c v = (v, Inr price)
         \<and> LegalCurrencyValueByCurrency E st p' a amount c v = (v, Inr (price * (amount / of_int d)))"
    if "r = Inr T" "T (cm_WebsiteSlug t) = Some cmc" "cm_Price cmc = Some price" "cm_Decimals t = Some d" "d \<noteq> 0" for T cmc price d
  proof -
    have tk: "ticker_of p' a c = Some (refreshed t cmc)" using p'(1) c1 that(1,2) by (simp add: ticker_of_def sync_token_def)
    have s: "IsSupport p' a" using sup that(1,2) by blast
    have "GetMarketCapByCurrency E st p' a c v = (v, Inr price)"
      using tk s that by (simp add: GetMarketCapByCurrency_def refreshed_def cap_price_def slift_def)
    then show ?thesis using tk s that
      by (simp add: LegalCurrencyValueByCurrency_def refreshed_def rat_Quo_def slift_def sret_def)
  qed
  moreover have "GetMarketCapByCurrency E st p' a c' v = (v, Inr 0) \<and> LegalCurrencyValueByCurrency E st p' a amount c' v = (v, Inr 0)"
    if "\<not> IsSupport p' a" for c'
    using that by (simp add: GetMarketCapByCurrency_def LegalCurrencyValueByCurrency_def sret_def)
  ultimately show ?thesis by blast
qed

text \<open>
  A refresh that cannot read Redis makes every order dust: all tokens with a ticker in the currency count as not
  supported, their amounts are worth nothing, and whatever remains of an order is below a positive dust value.
\<close>

theorem failed_refresh_all_dust:
  assumes "getTickersFromRedis E (cp_currency p) w = (w1, Inl (Err e))" "syncMarketCapFromRedis E (cp_currency p) p w = (w', Inr p')"
    "ticker_of p (ord_TokenS (st_RawOrder state)) (cp_currency p) \<noteq> None" "ticker_of p (ord_TokenB (st_RawOrder state)) (cp_currency p) \<noteq> None"
    "wf_state state" "cp_dustValue p = Some d" "0 < d"
  shows "IsOrderValueDust E st p' state v = (v, Inr True)"
proof -
  have T: "tickers_or_none E (cp_currency p) w = (w1, Inr Map.empty)" using assms(1) by (simp add: tickers_or_none_def sret_def)
  have "\<not> IsSupport p' a" if "ticker_of p a (cp_currency p) \<noteq> None" for a
    using that assms(2) T by (auto simp: sync_iff IsSupport_def sync_missing_def ticker_of_def split: option.splits)
  then have "\<not> IsSupport p' (ord_TokenS (st_RawOrder state))" "\<not> IsSupport p' (ord_TokenB (st_RawOrder state))" using assms(3,4) by auto
  moreover have "cp_dustValue p' = Some d" using assms(2,6) by (auto simp: sync_iff)
  moreover obtain rs rb where "RemainedAmount state = Inr (rs, rb)" using RemainedAmount_wf [OF assms(5)] by (metis surj_pair)
  ultimately show ?thesis using assms(7)
    by (simp add: IsOrderValueDust_def LegalCurrencyValue_def LegalCurrencyValueByCurrency_def IsValueDusted_def slift_def sret_def)
qed

text \<open>A provider in a currency for which there are no tickers cannot tell dust at all: the nil value is compared.\<close>

lemma unknown_currency_panics:
  assumes "wf_state state" "\<And>a. IsSupport p a" "\<And>a. ticker_of p a (cp_currency p) = None" "cp_dustValue p = Some d"
  shows "IsOrderValueDust E st p state v = (v, Inl (Panic NilDeref))"
proof -
  obtain rs rb where "RemainedAmount state = Inr (rs, rb)" using RemainedAmount_wf [OF assms(1)] by (metis surj_pair)
  then show ?thesis using assms(2-4)
    by (simp add: IsOrderValueDust_def LegalCurrencyValue_def LegalCurrencyValueByCurrency_def IsValueDusted_def slift_def sfail_def)
qed


subsection \<open>Trying it\<close>

definition demo_slug :: bytes where
  "demo_slug = bytes_of ''ethereum''"

definition demo_cap_env :: "reply res \<Rightarrow> nat cap_env" where
  "demo_cap_env answer = \<lparr>cv_cache = Some (NewCache (\<lambda>r cmd args. (r, answer))),
     cv_dec = (\<lambda>b. Inr (zero_ticker\<lparr>cm_Price := Some 300\<rparr>)), cv_market = demo_menv\<rparr>"

definition demo_provider :: CapProvider_CoinMarketCap where
  "demo_provider = \<lparr>cp_baseUrl = [], cp_tokenMarketCaps = [zero_address \<mapsto> [''USD'' \<mapsto> zero_ticker\<lparr>cm_WebsiteSlug := ''ethereum'', cm_Decimals := Some 1000\<rparr>]],
     cp_icoTokens = [], cp_notSupportTokens = Map.empty, cp_slugToAddress = Map.empty, cp_currency = ''USD'', cp_duration = 5, cp_dustValue = Some 1\<rparr>"

lemma demo_getTickers:
  "getTickersFromRedis (demo_cap_env (Inr (RArr [RBytes demo_slug, RBytes [1]]))) c w = (w, Inr [''ethereum'' \<mapsto> zero_ticker\<lparr>cm_Price := Some 300\<rparr>])"
  "getTickersFromRedis (demo_cap_env (Inl (Err ''down''))) c w = (w, Inl (Err ''down''))"
proof -
  have a: "cache_call (\<lambda>cc. c_HGetAll cc k) (cv_cache (demo_cap_env (Inr (RArr [RBytes demo_slug, RBytes [1]])))) w = (w, Inr [demo_slug, [1]])" for k
    by (simp add: demo_cap_env_def cache_call_def NewCache_def Let_def Redis_HGetAll_def pool_do_def strict_list_def)
  have b: "cache_call (\<lambda>cc. c_HGetAll cc k) (cv_cache (demo_cap_env (Inl (Err ''down'')))) w = (w, Inl (Err ''down''))" for k
    by (simp add: demo_cap_env_def cache_call_def NewCache_def Let_def Redis_HGetAll_def pool_do_def)
  show "getTickersFromRedis (demo_cap_env (Inr (RArr [RBytes demo_slug, RBytes [1]]))) c w = (w, Inr [''ethereum'' \<mapsto> zero_ticker\<lparr>cm_Price := Some 300\<rparr>])"
    by (simp add: getTickersFromRedis_def a slift_def) (simp add: demo_cap_env_def demo_slug_def)
  show "getTickersFromRedis (demo_cap_env (Inl (Err ''down''))) c w = (w, Inl (Err ''down''))"
    by (simp add: getTickersFromRedis_def b)
qed

theorem synced_values_witness:
  "\<exists>p'. syncMarketCapFromRedis (demo_cap_env (Inr (RArr [RBytes demo_slug, RBytes [1]]))) ''USD'' demo_provider 0 = (0, Inr p')
     \<and> LegalCurrencyValueByCurrency (demo_cap_env (Inr (RArr [RBytes demo_slug, RBytes [1]]))) demo_market p' zero_address 2000 ''USD'' 0 = (0, Inr 600)"
proof -
  let ?E = "demo_cap_env (Inr (RArr [RBytes demo_slug, RBytes [1]]))"
  have T: "getTickersFromRedis ?E ''USD'' 0 = (0, Inr [''ethereum'' \<mapsto> zero_ticker\<lparr>cm_Price := Some 300\<rparr>])" by (rule demo_getTickers(1))
  then have "tickers_or_none ?E ''USD'' 0 = (0, Inr [''ethereum'' \<mapsto> zero_ticker\<lparr>cm_Price := Some 300\<rparr>])" by (simp add: tickers_or_none_def sret_def)
  then obtain p' where p': "syncMarketCapFromRedis ?E ''USD'' demo_provider 0 = (0, Inr p')" by (simp add: sync_iff)
  have t: "ticker_of demo_provider zero_address ''USD'' = Some (zero_ticker\<lparr>cm_WebsiteSlug := ''ethereum'', cm_Decimals := Some 1000\<rparr>)"
    by (simp add: ticker_of_def demo_provider_def)
  have "LegalCurrencyValueByCurrency ?E demo_market p' zero_address 2000 ''USD'' 0 = (0, Inr 600)"
    using synced_values [OF p' T t, of demo_market 0 2000] by auto
  then show ?thesis using p' by blast
qed

theorem failed_refresh_all_dust_witness:
  "\<exists>p'. syncMarketCapFromRedis (demo_cap_env (Inl (Err ''down''))) ''USD'' demo_provider 0 = (0, Inr p')
     \<and> IsOrderValueDust (demo_cap_env (Inl (Err ''down''))) demo_market p' demo_state 0 = (0, Inr True)"
proof -
  let ?E = "demo_cap_env (Inl (Err ''down''))"
  have c: "cp_currency demo_provider = ''USD''" "cp_dustValue demo_provider = Some 1" by (simp_all add: demo_provider_def)
  have "tickers_or_none ?E ''USD'' 0 = (0, Inr Map.empty)" by (simp add: tickers_or_none_def demo_getTickers sret_def)
  then obtain p' where p': "syncMarketCapFromRedis ?E ''USD'' demo_provider 0 = (0, Inr p')" by (simp add: sync_iff)
  have "IsOrderValueDust ?E demo_market p' demo_state 0 = (0, Inr True)"
    using failed_refresh_all_dust [of ?E demo_provider 0 0 "''down''" 0 p' demo_state 1 demo_market 0] p' demo_getTickers(2) demo_state_wf c
    by (simp add: ticker_of_def demo_provider_def demo_state_def demo_order_def zero_Order_def)
  then show ?thesis using p' by blast
qed

end
