(* ===== verification/Record_Json.thy ===== *)
theory Record_Json
  imports Order_Json Market_Cap
begin

section \<open>Other records as JSON (\<open>types/gen_orderTxRecord_json.go\<close>, \<open>gen_white_list_user_json.go\<close>, \<open>gen_ringSubmitInfoEvent_json.go\<close>, \<open>types/token.go\<close>)\<close>

text \<open>
  The generated codecs of the three other records, all of whose fields are optional, and the reader of the values of a currency, on the objects of
  \<open>Order_Json\<close>. What is written is read back; a currency that has no price is read with the price zero. Parameter:
  \<open>strconv.ParseFloat\<close> with \<open>big.Rat.SetFloat64\<close>, which gives nil for a value that is not finite.
\<close>

subsection \<open>The records\<close>

record OrderTxRecord =
  otx_Owner :: address
  otx_TxHash :: hash
  otx_OrderHash :: hash
  otx_OrderStatus :: byte
  otx_Nonce :: int

record WhiteListUser =
  wl_Owner :: address
  wl_CreateTime :: int

record RingSubmitInfoEvent =
  rsi_SubmitInfoId :: int
  rsi_Miner :: address
  rsi_ProtocolAddress :: address
  rsi_Ringhash :: hash
  rsi_UniqueId :: hash
  rsi_ProtocolData :: string
  rsi_ProtocolGas :: "int option"
  rsi_ProtocolUsedGas :: "int option"
  rsi_ProtocolGasPrice :: "int option"
  rsi_ValidSinceTime :: int

definition OrderTxRecord_MarshalJSON :: "OrderTxRecord \<Rightarrow> jobj" where
  "OrderTxRecord_MarshalJSON r =
    [(''owner'', JText (hexutil_Encode (otx_Owner r))),
     (''tx_hash'', JText (hexutil_Encode (otx_TxHash r))),
     (''order_hash'', JText (hexutil_Encode (otx_OrderHash r))),
     (''order_status'', JNum (uint (otx_OrderStatus r))),
     (''nonce'', JNum (otx_Nonce r))]"

definition OrderTxRecord_UnmarshalJSON :: "jobj \<Rightarrow> (OrderTxRecord, unit) st" where
  "OrderTxRecord_UnmarshalJSON obj =
    (if \<not> (decodes addr_dec zero_address ''owner'' obj \<and> decodes hash_dec zero_hash ''tx_hash'' obj \<and> decodes hash_dec zero_hash ''order_hash'' obj
         \<and> decodes uint8_dec 0 ''order_status'' obj \<and> decodes int64_dec 0 ''nonce'' obj)
     then sfail (Err ''json: cannot unmarshal'')
     else steps
      [optional (ptr addr_dec zero_address ''owner'' obj) (\<lambda>v x. x\<lparr>otx_Owner := v\<rparr>),
       optional (ptr hash_dec zero_hash ''tx_hash'' obj) (\<lambda>v x. x\<lparr>otx_TxHash := v\<rparr>),
       optional (ptr hash_dec zero_hash ''order_hash'' obj) (\<lambda>v x. x\<lparr>otx_OrderHash := v\<rparr>),
       optional (ptr uint8_dec 0 ''order_status'' obj) (\<lambda>v x. x\<lparr>otx_OrderStatus := v\<rparr>),
       optional (ptr int64_dec 0 ''nonce'' obj) (\<lambda>v x. x\<lparr>otx_Nonce := v\<rparr>)])"

definition WhiteListUser_MarshalJSON :: "WhiteListUser \<Rightarrow> jobj" where
  "WhiteListUser_MarshalJSON w =
    [(''owner'', JText (hexutil_Encode (wl_Owner w))),
     (''create_time'', JNum (wl_CreateTime w))]"

definition WhiteListUser_UnmarshalJSON :: "jobj \<Rightarrow> (WhiteListUser, unit) st" where
  "WhiteListUser_UnmarshalJSON obj =
    (if \<not> (decodes addr_dec zero_address ''owner'' obj \<and> decodes int64_dec 0 ''create_time'' obj) then sfail (Err ''json: cannot unmarshal'')
     else steps
      [optional (ptr addr_dec zero_address ''owner'' obj) (\<lambda>v x. x\<lparr>wl_Owner := v\<rparr>),
       optional (ptr int64_dec 0 ''create_time'' obj) (\<lambda>v x. x\<lparr>wl_CreateTime := v\<rparr>)])"

definition RingSubmitInfoEvent_MarshalJSON :: "RingSubmitInfoEvent \<Rightarrow> jobj" where
  "RingSubmitInfoEvent_MarshalJSON r =
    [(''SubmitInfoId'', JNum (rsi_SubmitInfoId r)),
     (''Miner'', JText (hexutil_Encode (rsi_Miner r))),
     (''ProtocolAddress'', JText (hexutil_Encode (rsi_ProtocolAddress r))),
     (''Ringhash'', JText (hexutil_Encode (rsi_Ringhash r))),
     (''UniqueId'', JText (hexutil_Encode (rsi_UniqueId r))),
     (''ProtocolData'', JText (rsi_ProtocolData r)),
     (''ProtocolGas'', opt_enc Big_MarshalText (rsi_ProtocolGas r)),
     (''ProtocolUsedGas'', opt_enc Big_MarshalText (rsi_ProtocolUsedGas r)),
     (''ProtocolGasPrice'', opt_enc Big_MarshalText (rsi_ProtocolGasPrice r)),
     (''ValidSinceTime'', JNum (rsi_ValidSinceTime r))]"

definition RingSubmitInfoEvent_UnmarshalJSON :: "jobj \<Rightarrow> (RingSubmitInfoEvent, unit) st" where
  "RingSubmitInfoEvent_UnmarshalJSON obj =
    (if \<not> (decodes int64_dec 0 ''SubmitInfoId'' obj \<and> decodes addr_dec zero_address ''Miner'' obj \<and> decodes addr_dec zero_address ''ProtocolAddress'' obj
         \<and> decodes hash_dec zero_hash ''Ringhash'' obj \<and> decodes hash_dec zero_hash ''UniqueId'' obj \<and> decodes string_dec '''' ''ProtocolData'' obj
         \<and> decodes big_dec 0 ''ProtocolGas'' obj \<and> decodes big_dec 0 ''ProtocolUsedGas'' obj \<and> decodes big_dec 0 ''ProtocolGasPrice'' obj
         \<and> decodes int64_dec 0 ''ValidSinceTime'' obj)
     then sfail (Err ''json: cannot unmarshal'')
     else steps
      [optional (ptr int64_dec 0 ''SubmitInfoId'' obj) (\<lambda>v x. x\<lparr>rsi_SubmitInfoId := v\<rparr>),
       optional (ptr addr_dec zero_address ''Miner'' obj) (\<lambda>v x. x\<lparr>rsi_Miner := v\<rparr>),
       optional (ptr addr_dec zero_address ''ProtocolAddress'' obj) (\<lambda>v x. x\<lparr>rsi_ProtocolAddress := v\<rparr>),
       optional (ptr hash_dec zero_hash ''Ringhash'' obj) (\<lambda>v x. x\<lparr>rsi_Ringhash := v\<rparr>),
       optional (ptr hash_dec zero_hash ''UniqueId'' obj) (\<lambda>v x. x\<lparr>rsi_UniqueId := v\<rparr>),
       optional (ptr string_dec '''' ''ProtocolData'' obj) (\<lambda>v x. x\<lparr>rsi_ProtocolData := v\<rparr>),
       optional (ptr big_dec 0 ''ProtocolGas'' obj) (\<lambda>v x. x\<lparr>rsi_ProtocolGas := Some v\<rparr>),
       optional (ptr big_dec 0 ''ProtocolUsedGas'' obj) (\<lambda>v x. x\<lparr>rsi_ProtocolUsedGas := Some v\<rparr>),
       optional (ptr big_dec 0 ''ProtocolGasPrice'' obj) (\<lambda>v x. x\<lparr>rsi_ProtocolGasPrice := Some v\<rparr>),
       optional (ptr int64_dec 0 ''ValidSinceTime'' obj) (\<lambda>v x. x\<lparr>rsi_ValidSinceTime := v\<rparr>)])"

subsection \<open>The values of a currency\<close>

text \<open>\<open>strconv.ParseInt\<close> with base 0 and the size of \<open>int\<close>: a sign, then hexadecimal digits behind \<open>0x\<close>, octal digits behind \<open>0\<close>, or decimal digits.\<close>

definition digit36 :: "char \<Rightarrow> nat option" where
  "digit36 c = (let n = (of_char c :: nat) in
    if 48 \<le> n \<and> n \<le> 57 then Some (n - 48) else if 97 \<le> n \<and> n \<le> 122 then Some (n - 87) else if 65 \<le> n \<and> n \<le> 90 then Some (n - 55) else None)"

fun base_val :: "nat \<Rightarrow> nat \<Rightarrow> string \<Rightarrow> nat option" where
  "base_val b n [] = Some n"
| "base_val b n (c # s) = (case digit36 c of None \<Rightarrow> None | Some d \<Rightarrow> if d < b then base_val b (n * b + d) s else None)"

definition ParseUint0 :: "string \<Rightarrow> nat option" where
  "ParseUint0 s =
    (case s of
       [] \<Rightarrow> None
     | c # t \<Rightarrow>
         if c = CHR ''0'' \<and> t \<noteq> [] \<and> (hd t = CHR ''x'' \<or> hd t = CHR ''X'') then (if tl t = [] then None else base_val 16 0 (tl t))
         else if c = CHR ''0'' then base_val 8 0 t else base_val 10 0 s)"

definition ParseInt0 :: "string \<Rightarrow> int res" where
  "ParseInt0 s =
    (let neg = (take 1 s = ''-''); t = (if neg \<or> take 1 s = ''+'' then drop 1 s else s) in
     case ParseUint0 t of
       None \<Rightarrow> Inl (Err ''strconv.ParseInt'')
     | Some n \<Rightarrow> if (if neg then n \<le> 2 ^ 63 else n < 2 ^ 63) then Inr (if neg then - int n else int n) else Inl (Err ''strconv.ParseInt''))"

text \<open>A field that is a string and not a pointer: a null leaves it as it is.\<close>

fun text_field :: "string \<Rightarrow> jval list \<Rightarrow> string res" where
  "text_field s [] = Inr s"
| "text_field s (JNull # vs) = text_field s vs"
| "text_field s (JText t # vs) = text_field t vs"
| "text_field s (v # vs) = Inl (Err ''json: cannot unmarshal'')"

definition text_of :: "string \<Rightarrow> jobj \<Rightarrow> string" where
  "text_of name obj = (case text_field '''' (members name obj) of Inl _ \<Rightarrow> '''' | Inr s \<Rightarrow> s)"

definition text_decodes :: "string \<Rightarrow> jobj \<Rightarrow> bool" where
  "text_decodes name obj = (case text_field '''' (members name obj) of Inl _ \<Rightarrow> False | Inr _ \<Rightarrow> True)"

definition cap_fields :: "string list" where
  "cap_fields = [''id'', ''name'', ''symbol'', ''price_usd'', ''price_btc'', ''price_cny'', ''24h_volume_cny'', ''24h_volume_usd'', ''last_updated'']"

definition cap_value :: "(string \<Rightarrow> rat option res) \<Rightarrow> string \<Rightarrow> (rat option \<Rightarrow> CurrencyMarketCap \<Rightarrow> CurrencyMarketCap) \<Rightarrow> (CurrencyMarketCap, unit) st" where
  "cap_value ParseFloat s set_field =
    (case ParseFloat (if s = '''' then ''0.0'' else s) of Inl err1 \<Rightarrow> sfail err1 | Inr price \<Rightarrow> smod (set_field price))"

definition CurrencyMarketCap_UnmarshalJSON :: "(string \<Rightarrow> rat option res) \<Rightarrow> jobj \<Rightarrow> (CurrencyMarketCap, unit) st" where
  "CurrencyMarketCap_UnmarshalJSON ParseFloat obj =
    (if \<not> list_all (\<lambda>name. text_decodes name obj) cap_fields then sfail (Err ''json: cannot unmarshal'')
     else steps
      [smod (\<lambda>x. x\<lparr>cc_Id := text_of ''id'' obj, cc_Symbol := text_of ''symbol'' obj, cc_Name := text_of ''name'' obj\<rparr>),
       cap_value ParseFloat (text_of ''price_usd'' obj) (\<lambda>v x. x\<lparr>cc_PriceUsd := v\<rparr>),
       cap_value ParseFloat (text_of ''price_btc'' obj) (\<lambda>v x. x\<lparr>cc_PriceBtc := v\<rparr>),
       cap_value ParseFloat (text_of ''price_cny'' obj) (\<lambda>v x. x\<lparr>cc_PriceCny := v\<rparr>),
       cap_value ParseFloat (text_of ''24h_volume_cny'' obj) (\<lambda>v x. x\<lparr>cc_Volume24HCNY := v\<rparr>),
       cap_value ParseFloat (text_of ''24h_volume_usd'' obj) (\<lambda>v x. x\<lparr>cc_Volume24HUSD := v\<rparr>),
       (case ParseInt0 (if text_of ''last_updated'' obj = '''' then ''0'' else text_of ''last_updated'' obj) of
          Inl err1 \<Rightarrow> sfail err1
        | Inr lastUpdated \<Rightarrow> smod (\<lambda>x. x\<lparr>cc_LastUpdated := lastUpdated\<rparr>))])"

subsection \<open>Reading back what was written\<close>

lemma OrderTxRecord_unique: "unique (OrderTxRecord_MarshalJSON r)"
proof (rule unique_keys)
  have keys: "map fst (OrderTxRecord_MarshalJSON r) = [''owner'', ''tx_hash'', ''order_hash'', ''order_status'', ''nonce'']"
    by (simp add: OrderTxRecord_MarshalJSON_def)
  show "distinct (map fold_key (map fst (OrderTxRecord_MarshalJSON r)))" unfolding keys by code_simp
qed

lemma WhiteListUser_unique: "unique (WhiteListUser_MarshalJSON r)"
proof (rule unique_keys)
  have keys: "map fst (WhiteListUser_MarshalJSON r) = [''owner'', ''create_time'']"
    by (simp add: WhiteListUser_MarshalJSON_def)
  show "distinct (map fold_key (map fst (WhiteListUser_MarshalJSON r)))" unfolding keys by code_simp
qed

lemma RingSubmitInfoEvent_unique: "unique (RingSubmitInfoEvent_MarshalJSON r)"
proof (rule unique_keys)
  have keys: "map fst (RingSubmitInfoEvent_MarshalJSON r) = [''SubmitInfoId'', ''Miner'', ''ProtocolAddress'', ''Ringhash'', ''UniqueId'', ''ProtocolData'',
      ''ProtocolGas'', ''ProtocolUsedGas'', ''ProtocolGasPrice'', ''ValidSinceTime'']"
    by (simp add: RingSubmitInfoEvent_MarshalJSON_def)
  show "distinct (map fold_key (map fst (RingSubmitInfoEvent_MarshalJSON r)))" unfolding keys by code_simp
qed

lemma OrderTxRecord_roundtrip:
  assumes "length (otx_Owner r) = 20" "length (otx_TxHash r) = 32" "length (otx_OrderHash r) = 32" "- (2 ^ 63) \<le> otx_Nonce r" "otx_Nonce r < 2 ^ 63"
  shows "OrderTxRecord_UnmarshalJSON (OrderTxRecord_MarshalJSON r) old = (r, Inr ())"
proof -
  let ?obj = "OrderTxRecord_MarshalJSON r"
  have "reads addr_dec zero_address ''owner'' ?obj (Some (otx_Owner r))" "reads hash_dec zero_hash ''tx_hash'' ?obj (Some (otx_TxHash r))"
    "reads hash_dec zero_hash ''order_hash'' ?obj (Some (otx_OrderHash r))" "reads uint8_dec 0 ''order_status'' ?obj (Some (otx_OrderStatus r))"
    "reads int64_dec 0 ''nonce'' ?obj (Some (otx_Nonce r))"
    by (rule field_rules [OF OrderTxRecord_unique]; ((simp add: OrderTxRecord_MarshalJSON_def; fail) | (use assms in simp; fail)))+
  then show ?thesis by (simp add: OrderTxRecord_UnmarshalJSON_def reads_def sret_def)
qed

lemma WhiteListUser_roundtrip:
  assumes "length (wl_Owner r) = 20" "- (2 ^ 63) \<le> wl_CreateTime r" "wl_CreateTime r < 2 ^ 63"
  shows "WhiteListUser_UnmarshalJSON (WhiteListUser_MarshalJSON r) old = (r, Inr ())"
proof -
  let ?obj = "WhiteListUser_MarshalJSON r"
  have "reads addr_dec zero_address ''owner'' ?obj (Some (wl_Owner r))" "reads int64_dec 0 ''create_time'' ?obj (Some (wl_CreateTime r))"
    by (rule field_rules [OF WhiteListUser_unique]; ((simp add: WhiteListUser_MarshalJSON_def; fail) | (use assms in simp; fail)))+
  then show ?thesis by (simp add: WhiteListUser_UnmarshalJSON_def reads_def sret_def)
qed

definition ring_info_valid :: "RingSubmitInfoEvent \<Rightarrow> bool" where
  "ring_info_valid r \<longleftrightarrow> length (rsi_Miner r) = 20 \<and> length (rsi_ProtocolAddress r) = 20 \<and> length (rsi_Ringhash r) = 32 \<and> length (rsi_UniqueId r) = 32
   \<and> - (2 ^ 63) \<le> rsi_SubmitInfoId r \<and> rsi_SubmitInfoId r < 2 ^ 63 \<and> - (2 ^ 63) \<le> rsi_ValidSinceTime r \<and> rsi_ValidSinceTime r < 2 ^ 63
   \<and> (\<forall>x \<in> {rsi_ProtocolGas r, rsi_ProtocolUsedGas r, rsi_ProtocolGasPrice r}. \<forall>n. x = Some n \<longrightarrow> 0 \<le> n)"

lemma RingSubmitInfoEvent_roundtrip:
  assumes "ring_info_valid r"
  shows "RingSubmitInfoEvent_UnmarshalJSON (RingSubmitInfoEvent_MarshalJSON r) old
    = (r\<lparr>rsi_ProtocolGas := (case rsi_ProtocolGas r of None \<Rightarrow> rsi_ProtocolGas old | g \<Rightarrow> g),
         rsi_ProtocolUsedGas := (case rsi_ProtocolUsedGas r of None \<Rightarrow> rsi_ProtocolUsedGas old | g \<Rightarrow> g),
         rsi_ProtocolGasPrice := (case rsi_ProtocolGasPrice r of None \<Rightarrow> rsi_ProtocolGasPrice old | g \<Rightarrow> g)\<rparr>, Inr ())"
proof -
  let ?obj = "RingSubmitInfoEvent_MarshalJSON r"
  have "reads int64_dec 0 ''SubmitInfoId'' ?obj (Some (rsi_SubmitInfoId r))" "reads addr_dec zero_address ''Miner'' ?obj (Some (rsi_Miner r))"
    "reads addr_dec zero_address ''ProtocolAddress'' ?obj (Some (rsi_ProtocolAddress r))" "reads hash_dec zero_hash ''Ringhash'' ?obj (Some (rsi_Ringhash r))"
    "reads hash_dec zero_hash ''UniqueId'' ?obj (Some (rsi_UniqueId r))" "reads string_dec '''' ''ProtocolData'' ?obj (Some (rsi_ProtocolData r))"
    "reads big_dec 0 ''ProtocolGas'' ?obj (rsi_ProtocolGas r)" "reads big_dec 0 ''ProtocolUsedGas'' ?obj (rsi_ProtocolUsedGas r)"
    "reads big_dec 0 ''ProtocolGasPrice'' ?obj (rsi_ProtocolGasPrice r)" "reads int64_dec 0 ''ValidSinceTime'' ?obj (Some (rsi_ValidSinceTime r))"
    by (rule field_rules [OF RingSubmitInfoEvent_unique];
        ((simp add: RingSubmitInfoEvent_MarshalJSON_def opt_enc_def; fail) | (use assms in \<open>auto simp: ring_info_valid_def\<close>; fail)))+
  then show ?thesis
    unfolding RingSubmitInfoEvent_UnmarshalJSON_def reads_def
    by (simp add: sret_def) (rule RingSubmitInfoEvent.equality, simp_all split: option.split)
qed

subsection \<open>Currencies\<close>

lemma steps_smod [simp]: "steps (smod f # ms) x = steps ms (f x)"
  by (simp add: steps.simps(2) sbind_def smod_def)

lemma steps_cap_value:
  "steps (cap_value ParseFloat s f # ms) x = (y, Inr ())
    \<longleftrightarrow> (\<exists>q. ParseFloat (if s = '''' then ''0.0'' else s) = Inr q \<and> steps ms (f q x) = (y, Inr ()))"
  by (auto simp: steps.simps(2) cap_value_def sbind_def sfail_def smod_def split: sum.splits)

lemma steps_parsed:
  "steps ((case r of Inl e \<Rightarrow> sfail e | Inr v \<Rightarrow> smod (f v)) # ms) x = (y, Inr ()) \<longleftrightarrow> (\<exists>v. r = Inr v \<and> steps ms (f v x) = (y, Inr ()))"
  by (cases r) (simp_all add: steps.simps(2) sbind_def sfail_def smod_def)

text \<open>A currency that is read has the value of every text, zero where a text is missing, null or empty; the address and the decimals stay as they were.\<close>

lemma CurrencyMarketCap_read:
  assumes "CurrencyMarketCap_UnmarshalJSON ParseFloat obj old = (cap, Inr ())"
  defines "price \<equiv> \<lambda>name. ParseFloat (if text_of name obj = '''' then ''0.0'' else text_of name obj)"
  shows "price ''price_usd'' = Inr (cc_PriceUsd cap) \<and> price ''price_btc'' = Inr (cc_PriceBtc cap) \<and> price ''price_cny'' = Inr (cc_PriceCny cap)
    \<and> price ''24h_volume_cny'' = Inr (cc_Volume24HCNY cap) \<and> price ''24h_volume_usd'' = Inr (cc_Volume24HUSD cap)
    \<and> cc_Id cap = text_of ''id'' obj \<and> cc_Name cap = text_of ''name'' obj \<and> cc_Symbol cap = text_of ''symbol'' obj
    \<and> cc_Address cap = cc_Address old \<and> cc_Decimals cap = cc_Decimals old"
proof -
  have "list_all (\<lambda>name. text_decodes name obj) cap_fields"
    using assms(1) by (auto simp: CurrencyMarketCap_UnmarshalJSON_def sfail_def split: if_splits)
  then show ?thesis
    using assms(1) unfolding price_def CurrencyMarketCap_UnmarshalJSON_def
    by (simp only: not_not if_False simp_thms steps_smod steps_cap_value steps_parsed steps.simps(1) sret_def prod.inject) force
qed

text \<open>An object that fails at a price leaves the currency with the fields before it stored.\<close>

lemma CurrencyMarketCap_partial:
  assumes "list_all (\<lambda>name. text_decodes name obj) cap_fields" "text_of ''price_usd'' obj \<noteq> ''''" "ParseFloat (text_of ''price_usd'' obj) = Inl e"
  shows "CurrencyMarketCap_UnmarshalJSON ParseFloat obj old
    = (old\<lparr>cc_Id := text_of ''id'' obj, cc_Symbol := text_of ''symbol'' obj, cc_Name := text_of ''name'' obj\<rparr>, Inl e)"
  using assms by (simp add: CurrencyMarketCap_UnmarshalJSON_def) (simp add: steps.simps(2) cap_value_def sbind_def sfail_def)

text \<open>Decimal numbers without leading zeros are read as they are; a leading zero makes the text octal.\<close>

lemma base_val_append: "base_val b n (s @ t) = (case base_val b n s of None \<Rightarrow> None | Some m \<Rightarrow> base_val b m t)"
  by (induction s arbitrary: n) (auto split: option.split)

lemma base_val_dec_of_nat: "base_val 10 0 (dec_of_nat n) = Some n"
proof (induction n rule: dec_of_nat.induct)
  case (1 n)
  have digit: "base_val 10 m [decdig d] = Some (m * 10 + d)" if "d < 10" for m d :: nat
    using that by (simp add: digit36_def Let_def decdig_def)
  show ?case
    using 1 digit [of _ 0] digit [of "n mod 10" "n div 10"] by (subst dec_of_nat.simps) (simp add: base_val_append del: base_val.simps(2))
qed


lemma ParseInt0_dec_of_nat:
  assumes "0 < n" "n < 2 ^ 63"
  shows "ParseInt0 (dec_of_nat n) = Inr (int n)"
proof -
  have "dec_of_nat n \<noteq> []" by (subst dec_of_nat.simps) simp
  then obtain c s where cs: "dec_of_nat n = c # s" by (cases "dec_of_nat n") simp_all
  have lead: "hd (dec_of_nat m) \<noteq> CHR ''0''" if "0 < m" for m
    using that
  proof (induction m rule: dec_of_nat.induct)
    case (1 m)
    have "decdig d \<noteq> CHR ''0''" if "0 < d" "d < 10" for d
      using that by (auto simp: decdig_def dest: arg_cong [where f = "of_char :: char \<Rightarrow> nat"])
    moreover have "dec_of_nat (m div 10) \<noteq> []" by (subst dec_of_nat.simps) simp
    ultimately show ?case using 1 by (subst dec_of_nat.simps) auto
  qed
  have "c \<noteq> CHR ''0''" "c \<noteq> CHR ''-''" "c \<noteq> CHR ''+''"
    using lead [OF assms(1)] dec_of_nat_digits [of c n] cs by (auto simp: digit_of_def)
  then show ?thesis
    using base_val_dec_of_nat [of n] assms(2) cs by (simp add: ParseInt0_def ParseUint0_def Let_def)
qed

lemma ParseInt0_octal: "ParseInt0 ''010'' = Inr 8" "ParseInt0 ''08'' = Inl (Err ''strconv.ParseInt'')"
  by (simp_all add: ParseInt0_def ParseUint0_def digit36_def)

end
