(* ===== verification/Tx_Sign.thy ===== *)
theory Tx_Sign
  imports Eth_Accessor Crypto_Sig
begin

section \<open>Signed transactions (\<open>crypto/crypto.go\<close>, \<open>crypto/method.go\<close>, \<open>core/types\<close> and \<open>rlp\<close> of go-ethereum)\<close>

text \<open>
  Signing of a transaction with a private key or the key store, the signers of go-ethereum with the RLP text that they hash, the
  recovery of the sender, and the choice between the two kinds of crypto that the package holds. The RLP code is prefix-free, so the
  signed text says what is signed. Parameters: Keccak-256, the curve, the key store.
\<close>

subsection \<open>RLP (\<open>rlp/encode.go\<close>)\<close>

definition putint :: "nat \<Rightarrow> bytes" where
  "putint i = (if i = 0 then [0] else be_bytes i)"

definition puthead :: "byte \<Rightarrow> byte \<Rightarrow> nat \<Rightarrow> bytes" where
  "puthead smalltag largetag sz =
    (if sz < 56 then [smalltag + word_of_nat sz] else (largetag + word_of_nat (length (putint sz))) # putint sz)"

definition encodeString :: "bytes \<Rightarrow> bytes" where
  "encodeString b = (if length b = 1 \<and> hd b \<le> 0x7F then b else puthead 0x80 0xB7 (length b) @ b)"

definition encodeList :: "bytes list \<Rightarrow> bytes" where
  "encodeList items = puthead 0xC0 0xF7 (length (concat items)) @ concat items"

definition writeUint :: "nat \<Rightarrow> bytes" where
  "writeUint i = (if i = 0 then [0x80] else if i < 128 then [word_of_nat i] else (0x80 + word_of_nat (length (putint i))) # putint i)"

definition writeBigInt :: "int \<Rightarrow> bytes res" where
  "writeBigInt i =
    (if i < 0 then Inl (Err ''rlp: cannot encode negative *big.Int'') else if i = 0 then Inr [0x80] else Inr (encodeString (big_Bytes i)))"

text \<open>What a string of the code begins with tells its length; the first string of a text and the rest of it.\<close>

fun rlp_split :: "bytes \<Rightarrow> (bytes \<times> bytes) option" where
  "rlp_split [] = None"
| "rlp_split (b # s) =
    (let t = unat b in
     if t < 128 then Some ([b], s)
     else if t < 184 then Some (take (t - 128) s, drop (t - 128) s)
     else if t < 192 then let k = t - 183; n = be_val (take k s) in Some (take n (drop k s), drop n (drop k s))
     else None)"

lemma unat_tag: "n < 256 \<Longrightarrow> unat (word_of_nat n :: byte) = n"
  by (simp add: unat_of_nat)

lemma unat_tag_plus:
  assumes "unat (t :: byte) + n < 256"
  shows "unat (t + word_of_nat n) = unat t + n"
proof -
  have "t + word_of_nat n = word_of_nat (unat t + n)" by simp
  then show ?thesis using assms by (simp only: unat_tag)
qed

lemma length_putint: "56 \<le> n \<Longrightarrow> n < 2 ^ 64 \<Longrightarrow> 0 < length (putint n) \<and> length (putint n) \<le> 8"
  using length_be_bytes [of n 8] length_be_bytes [of n 0] by (auto simp: putint_def)

lemma rlp_split_string:
  assumes "length b < 2 ^ 64"
  shows "rlp_split (encodeString b @ rest) = Some (b, rest)"
proof (cases "length b = 1 \<and> hd b \<le> 0x7F")
  case True
  then obtain c where c: "b = [c]" by (cases b) simp_all
  then have "unat c < 128" using True by (simp add: word_le_nat_alt)
  then show ?thesis using True c by (simp add: encodeString_def)
next
  case False
  show ?thesis
  proof (cases "length b < 56")
    case True
    then have "unat (0x80 + word_of_nat (length b) :: byte) = 128 + length b" by (subst unat_tag_plus) simp_all
    then show ?thesis using False True by (auto simp: encodeString_def puthead_def)
  next
    case long: False
    let ?p = "putint (length b)"
    have p: "0 < length ?p" "length ?p \<le> 8" using length_putint [of "length b"] long assms by simp_all
    then have tag: "unat (0xB7 + word_of_nat (length ?p) :: byte) = 183 + length ?p" by (subst unat_tag_plus) simp_all
    have val: "be_val ?p = length b" using long by (auto simp: putint_def)
    show ?thesis using False long p tag val by (simp add: encodeString_def puthead_def Let_def)
  qed
qed

lemma encodeString_nonempty: "encodeString b \<noteq> []"
  by (auto simp: encodeString_def puthead_def)

lemma encodeStrings_inj:
  assumes "concat (map encodeString xs) = concat (map encodeString ys)" "\<forall>x \<in> set xs \<union> set ys. length x < 2 ^ 64"
  shows "xs = ys"
  using assms
proof (induction xs arbitrary: ys)
  case Nil
  then show ?case by (cases ys) (simp_all add: encodeString_nonempty)
next
  case (Cons x xs)
  then obtain y ys' where ys: "ys = y # ys'" by (cases ys) (auto simp: encodeString_nonempty)
  have "rlp_split (encodeString x @ concat (map encodeString xs)) = rlp_split (encodeString y @ concat (map encodeString ys'))"
    using Cons.prems(1) ys by simp
  then have "x = y" "concat (map encodeString xs) = concat (map encodeString ys')"
    using Cons.prems(2) ys by (simp_all add: rlp_split_string)
  then show ?case using Cons.IH [of ys'] Cons.prems(2) ys by simp
qed

lemma puthead_list:
  assumes "puthead 0xC0 0xF7 (length xs) @ xs = puthead 0xC0 0xF7 (length ys) @ ys" "length xs < 2 ^ 64" "length ys < 2 ^ 64"
  shows "xs = ys"
proof -
  have tag: "unat (hd (puthead 0xC0 0xF7 n)) = (if n < 56 then 192 + n else 247 + length (putint n))" if "n < 2 ^ 64" for n
    using length_putint [of n] that by (auto simp: puthead_def intro!: trans [OF unat_tag_plus])
  have "hd (puthead 0xC0 0xF7 (length xs)) = hd (puthead 0xC0 0xF7 (length ys))"
    using assms(1) by (metis hd_append2 list.distinct(1) puthead_def)
  then have same: "(if length xs < 56 then 192 + length xs else 247 + length (putint (length xs)))
      = (if length ys < 56 then 192 + length ys else 247 + length (putint (length ys)))"
    using tag [OF assms(2)] tag [OF assms(3)] by simp
  have pos: "0 < length (putint n)" for n using length_be_bytes [of n 0] by (auto simp: putint_def)
  have "length (puthead 0xC0 0xF7 (length xs)) = length (puthead 0xC0 0xF7 (length ys))"
    using same pos [of "length xs"] pos [of "length ys"]
    by (cases "length xs < 56"; cases "length ys < 56") (simp_all add: puthead_def del: length_greater_0_conv)
  then show ?thesis using assms(1) by (simp add: append_eq_append_conv)
qed

lemma encodeList_inj:
  assumes "encodeList (map encodeString xs) = encodeList (map encodeString ys)"
    "length (concat (map encodeString xs)) < 2 ^ 64" "length (concat (map encodeString ys)) < 2 ^ 64" "\<forall>x \<in> set xs \<union> set ys. length x < 2 ^ 64"
  shows "xs = ys"
  using puthead_list [OF assms(1) [unfolded encodeList_def] assms(2,3)] assms(4) by (rule encodeStrings_inj)

lemma writeUint_string: "i < 2 ^ 64 \<Longrightarrow> writeUint i = encodeString (be_bytes i)"
proof -
  assume i: "i < 2 ^ 64"
  show "writeUint i = encodeString (be_bytes i)"
  proof (cases "i < 256")
    case True
    then have "be_bytes i = (if i = 0 then [] else [word_of_nat i])" by (simp add: be_bytes_pos)
    moreover have "(word_of_nat i :: byte) \<le> 0x7F \<longleftrightarrow> i < 128" using True by (auto simp: word_le_nat_alt unat_tag)
    ultimately show ?thesis by (simp add: writeUint_def encodeString_def puthead_def putint_def)
  next
    case False
    then have "\<not> length (be_bytes i) \<le> 1" "length (be_bytes i) \<le> 8" using i by (simp_all only: length_be_bytes) simp_all
    then show ?thesis using False by (simp add: writeUint_def encodeString_def puthead_def putint_def)
  qed
qed

lemma writeBigInt_string: "0 \<le> i \<Longrightarrow> writeBigInt i = Inr (encodeString (big_Bytes i))"
  by (simp add: writeBigInt_def encodeString_def puthead_def big_Bytes_def)


subsection \<open>Transactions and signers (\<open>core/types/transaction.go\<close>, \<open>transaction_signing.go\<close>)\<close>

record txdata = RawTx +
  td_V :: int
  td_R :: int
  td_S :: int

datatype Signer = HomesteadSigner | EIP155Signer int

text \<open>The fields of a transaction without its signature. The gas and the nonce are unsigned words, the price and the amount are big.\<close>

definition tx_items :: "('x) RawTx_scheme \<Rightarrow> bytes list res" where
  "tx_items tx =
    rbind (writeBigInt (rt_GasPrice tx)) (\<lambda>price.
    rbind (writeBigInt (rt_Value tx)) (\<lambda>amount.
    Inr [writeUint (nat (rt_Nonce tx)), price, writeUint (nat (rt_Gas tx)), encodeString (rt_To tx), amount, encodeString (rt_Data tx)]))"

definition signed_items :: "Signer \<Rightarrow> ('x) RawTx_scheme \<Rightarrow> bytes list res" where
  "signed_items signer tx =
    (case signer of
       HomesteadSigner \<Rightarrow> tx_items tx
     | EIP155Signer chainId \<Rightarrow>
         rbind (tx_items tx) (\<lambda>items. rbind (writeBigInt chainId) (\<lambda>c. Inr (items @ [c, writeUint 0, writeUint 0]))))"

text \<open>\<open>rlpHash\<close> ignores the error of the encoder, which has then written nothing.\<close>

definition signer_text :: "Signer \<Rightarrow> ('x) RawTx_scheme \<Rightarrow> bytes" where
  "signer_text signer tx = (case signed_items signer tx of Inl _ \<Rightarrow> [] | Inr items \<Rightarrow> encodeList items)"

definition signer_Hash :: "keccak \<Rightarrow> Signer \<Rightarrow> ('x) RawTx_scheme \<Rightarrow> hash" where
  "signer_Hash K signer tx = K (signer_text signer tx)"

definition tx_rlp :: "txdata \<Rightarrow> bytes res" where
  "tx_rlp tx =
    rbind (tx_items tx) (\<lambda>items.
    rbind (writeBigInt (td_V tx)) (\<lambda>v.
    rbind (writeBigInt (td_R tx)) (\<lambda>r.
    rbind (writeBigInt (td_S tx)) (\<lambda>s. Inr (encodeList (items @ [v, r, s]))))))"

definition Homestead_SignatureValues :: "bytes \<Rightarrow> (int \<times> int \<times> int) res" where
  "Homestead_SignatureValues sig =
    (if length sig \<noteq> 65 then Inl (Panic (Fatal ''wrong size for signature''))
     else Inr (big_SetBytes (take 32 sig), big_SetBytes (take 32 (drop 32 sig)), big_SetBytes [sig ! 64 + 27]))"

definition SignatureValues :: "Signer \<Rightarrow> bytes \<Rightarrow> (int \<times> int \<times> int) res" where
  "SignatureValues signer sig =
    (case signer of
       HomesteadSigner \<Rightarrow> Homestead_SignatureValues sig
     | EIP155Signer chainId \<Rightarrow>
         rbind (Homestead_SignatureValues sig) (\<lambda>(r, s, v). Inr (r, s, if chainId \<noteq> 0 then uint (sig ! 64 + 35) + 2 * chainId else v)))"

definition WithSignature :: "Signer \<Rightarrow> bytes \<Rightarrow> RawTx \<Rightarrow> txdata res" where
  "WithSignature signer sig tx =
    rbind (SignatureValues signer sig) (\<lambda>(r, s, v). Inr (RawTx.extend tx \<lparr>td_V = v, td_R = r, td_S = s\<rparr>))"

definition isProtectedV :: "int \<Rightarrow> bool" where
  "isProtectedV V \<longleftrightarrow> (if \<bar>V\<bar> < 2 ^ 8 then big_Uint64 V \<noteq> 27 \<and> big_Uint64 V \<noteq> 28 else True)"

definition deriveChainId :: "int \<Rightarrow> int" where
  "deriveChainId v =
    (if \<bar>v\<bar> < 2 ^ 64
     then (let v = big_Uint64 v in if v = 27 \<or> v = 28 then 0 else ((v - 35) mod 2 ^ 64) div 2)
     else (v - 35) div 2)"

text \<open>\<open>recoverPlain\<close>: the public key is checked to be an uncompressed point, which is what the curve code returns.\<close>

definition recoverPlain :: "(bytes \<Rightarrow> bytes \<Rightarrow> 'pub res) \<Rightarrow> ('pub \<Rightarrow> address) \<Rightarrow> hash \<Rightarrow> int \<Rightarrow> int \<Rightarrow> int \<Rightarrow> bool \<Rightarrow> address res" where
  "recoverPlain ec_recover pub_addr sighash R S Vb hs =
    (if \<not> \<bar>Vb\<bar> < 2 ^ 8 then Inl (Err ''invalid transaction v, r, s values'')
     else let V = word_of_int (big_Uint64 Vb - 27) :: byte in
       if \<not> ethCrypto_ValidateSignatureValues V R S hs then Inl (Err ''invalid transaction v, r, s values'')
       else rbind (ec_recover sighash (LeftPadBytes (big_Bytes R) 32 @ LeftPadBytes (big_Bytes S) 32 @ [V])) (\<lambda>pub. Inr (pub_addr pub)))"

definition signer_Sender :: "keccak \<Rightarrow> (bytes \<Rightarrow> bytes \<Rightarrow> 'pub res) \<Rightarrow> ('pub \<Rightarrow> address) \<Rightarrow> Signer \<Rightarrow> txdata \<Rightarrow> address res" where
  "signer_Sender K ec_recover pub_addr signer tx =
    (let homestead_sender = recoverPlain ec_recover pub_addr (signer_Hash K HomesteadSigner tx) (td_R tx) (td_S tx) (td_V tx) True in
     case signer of
       HomesteadSigner \<Rightarrow> homestead_sender
     | EIP155Signer chainId \<Rightarrow>
         if \<not> isProtectedV (td_V tx) then homestead_sender
         else if deriveChainId (td_V tx) \<noteq> chainId then Inl (Err ''invalid chain id for signer'')
         else recoverPlain ec_recover pub_addr (signer_Hash K signer tx) (td_R tx) (td_S tx) (td_V tx - 2 * chainId - 8) True)"

subsection \<open>Signing (\<open>crypto/crypto.go\<close>)\<close>

text \<open>The address that is asked for plays no part when a private key signs.\<close>

definition PrivateKey_SignTx ::
  "keccak \<Rightarrow> (bytes \<Rightarrow> bytes \<Rightarrow> bytes res) \<Rightarrow> 'pub EthPrivateKeyCrypto \<Rightarrow> address \<Rightarrow> RawTx \<Rightarrow> int option \<Rightarrow> txdata res" where
  "PrivateKey_SignTx K ec_sign c addr tx chainID =
    (let signer = (case chainID of Some i \<Rightarrow> EIP155Signer i | None \<Rightarrow> HomesteadSigner) in
     rbind (ethCrypto_Sign ec_sign (signer_Hash K signer tx) (privateKey c)) (\<lambda>signature. WithSignature signer signature tx))"

definition KS_SignTx :: "(address \<Rightarrow> RawTx \<Rightarrow> int option \<Rightarrow> txdata res) \<Rightarrow> EthKSCrypto \<Rightarrow> address \<Rightarrow> RawTx \<Rightarrow> int option \<Rightarrow> txdata res" where
  "KS_SignTx ks_SignTx c addr tx chainID = ks_SignTx addr tx chainID"

subsection \<open>The installed crypto (\<open>crypto/method.go\<close>)\<close>

datatype 'pub Crypto = KSCrypto EthKSCrypto | PrivateKeyCrypto "'pub EthPrivateKeyCrypto"

definition crypto_Initialize :: "'pub Crypto \<Rightarrow> ('pub Crypto option, unit) st" where
  "crypto_Initialize c = smod (\<lambda>_. Some c)"

text \<open>The package function is its own copy of the code of the signer.\<close>

definition crypto_SigToVRS :: "bytes \<Rightarrow> (byte \<times> bytes \<times> bytes) res" where
  "crypto_SigToVRS sig =
    (if length sig \<le> 64 then Inl (Panic IndexOutOfRange)
     else Inr (sig ! 64 + 27, take 32 sig, take 32 (drop 32 sig)))"

lemma crypto_SigToVRS_eq: "crypto_SigToVRS = SigToVRS"
  by (auto simp: crypto_SigToVRS_def SigToVRS_def nth_res_def fun_eq_iff)

definition UnlockKSAccount :: "(address \<Rightarrow> string \<Rightarrow> string option) \<Rightarrow> address \<Rightarrow> string \<Rightarrow> ('pub Crypto option, unit) st" where
  "UnlockKSAccount ks_unlock acc passphrase crypto =
    (case crypto of
       Some (KSCrypto c) \<Rightarrow>
         (case KS_UnlockAccount ks_unlock c acc passphrase of (c, e) \<Rightarrow> (Some (KSCrypto c), case e of None \<Rightarrow> Inr () | Some e \<Rightarrow> Inl (Err e)))
     | _ \<Rightarrow> (crypto, Inl (Err (''can'' @ [CHR 0x27] @ ''t unlock ''))))"

definition IsKSAccountUnlocked :: "'pub Crypto option \<Rightarrow> address \<Rightarrow> bool" where
  "IsKSAccountUnlocked crypto addr = (case crypto of Some (KSCrypto c) \<Rightarrow> KS_IsUnlocked c addr | _ \<Rightarrow> False)"

definition crypto_SignTx ::
  "keccak \<Rightarrow> (bytes \<Rightarrow> bytes \<Rightarrow> bytes res) \<Rightarrow> (address \<Rightarrow> RawTx \<Rightarrow> int option \<Rightarrow> txdata res) \<Rightarrow> 'pub Crypto option
    \<Rightarrow> address \<Rightarrow> RawTx \<Rightarrow> int option \<Rightarrow> txdata res" where
  "crypto_SignTx K ec_sign ks_SignTx crypto a tx chainID =
    (case crypto of
       None \<Rightarrow> Inl (Panic NilDeref)
     | Some (KSCrypto c) \<Rightarrow> KS_SignTx ks_SignTx c a tx chainID
     | Some (PrivateKeyCrypto c) \<Rightarrow> PrivateKey_SignTx K ec_sign c a tx chainID)"


subsection \<open>What is signed\<close>

definition tx_wf :: "('x) RawTx_scheme \<Rightarrow> bool" where
  "tx_wf tx \<longleftrightarrow> 0 \<le> rt_Nonce tx \<and> rt_Nonce tx < 2 ^ 64 \<and> 0 \<le> rt_Gas tx \<and> rt_Gas tx < 2 ^ 64
   \<and> 0 \<le> rt_GasPrice tx \<and> rt_GasPrice tx < 2 ^ 256 \<and> 0 \<le> rt_Value tx \<and> rt_Value tx < 2 ^ 256 \<and> length (rt_To tx) = 20 \<and> length (rt_Data tx) < 2 ^ 63"

definition signer_wf :: "Signer \<Rightarrow> bool" where
  "signer_wf signer = (case signer of HomesteadSigner \<Rightarrow> True | EIP155Signer c \<Rightarrow> 0 \<le> c \<and> c < 2 ^ 256)"

definition tx_strings :: "('x) RawTx_scheme \<Rightarrow> bytes list" where
  "tx_strings tx = [be_bytes (nat (rt_Nonce tx)), big_Bytes (rt_GasPrice tx), be_bytes (nat (rt_Gas tx)), rt_To tx, big_Bytes (rt_Value tx), rt_Data tx]"

definition signer_strings :: "Signer \<Rightarrow> bytes list" where
  "signer_strings signer = (case signer of HomesteadSigner \<Rightarrow> [] | EIP155Signer c \<Rightarrow> [big_Bytes c, [], []])"

lemma tx_items_strings: "tx_wf tx \<Longrightarrow> tx_items tx = Inr (map encodeString (tx_strings tx))"
  by (simp add: tx_items_def tx_wf_def tx_strings_def writeBigInt_string writeUint_string nat_less_iff)

lemma signed_items_strings:
  "tx_wf tx \<Longrightarrow> signer_wf signer \<Longrightarrow> signed_items signer tx = Inr (map encodeString (tx_strings tx @ signer_strings signer))"
  by (auto simp: signed_items_def tx_items_strings signer_wf_def signer_strings_def writeBigInt_string writeUint_string [of 0] split: Signer.split)

lemma length_big_Bytes_32: "0 \<le> x \<Longrightarrow> x < 2 ^ 256 \<Longrightarrow> length (big_Bytes x) \<le> 32"
  using length_be_bytes [of "nat \<bar>x\<bar>" 32] by (simp add: big_Bytes_def nat_less_iff)

lemma length_uint_8: "0 \<le> x \<Longrightarrow> x < 2 ^ 64 \<Longrightarrow> length (be_bytes (nat x)) \<le> 8"
  using length_be_bytes [of "nat x" 8] by (simp add: nat_less_iff)

lemma length_encodeString: "length b < 2 ^ 64 \<Longrightarrow> length (encodeString b) \<le> length b + 9"
  using length_putint [of "length b"] by (auto simp: encodeString_def puthead_def)

lemma length_strings:
  assumes "\<And>b. b \<in> set bs \<Longrightarrow> length b < 2 ^ 63 + 1"
  shows "length (concat (map encodeString bs)) \<le> sum_list (map length bs) + 9 * length bs"
  using assms
proof (induction bs)
  case (Cons b bs)
  then have "length b < 2 ^ 63 + 1" by simp
  then have "length (encodeString b) \<le> length b + 9" using length_encodeString [of b] by simp
  then show ?case using Cons by simp
qed simp

lemma tx_strings_sizes:
  assumes "tx_wf tx" "list_all (\<lambda>b. length b \<le> 32) bs" "length bs \<le> 3"
  shows "length (concat (map encodeString (tx_strings tx @ bs))) < 2 ^ 64" "\<forall>b \<in> set (tx_strings tx @ bs). length b < 2 ^ 63 + 1"
proof -
  have tx: "length (be_bytes (nat (rt_Nonce tx))) \<le> 8" "length (big_Bytes (rt_GasPrice tx)) \<le> 32" "length (be_bytes (nat (rt_Gas tx))) \<le> 8"
    "length (rt_To tx) = 20" "length (big_Bytes (rt_Value tx)) \<le> 32" "length (rt_Data tx) < 2 ^ 63"
    using assms(1) by (simp_all add: tx_wf_def length_uint_8 length_big_Bytes_32)
  show all: "\<forall>b \<in> set (tx_strings tx @ bs). length b < 2 ^ 63 + 1"
    using tx assms(2) by (auto simp: tx_strings_def list_all_iff dest!: bspec)
  have "sum_list (map length bs) \<le> 32 * length bs" using assms(2) by (induction bs) auto
  then have "sum_list (map length (tx_strings tx @ bs)) + 9 * length (tx_strings tx @ bs) < 2 ^ 64"
    using tx assms(3) by (simp add: tx_strings_def)
  then show "length (concat (map encodeString (tx_strings tx @ bs))) < 2 ^ 64"
    using length_strings [of "tx_strings tx @ bs"] all by (meson le_less_trans)
qed

lemma tx_strings_inj:
  assumes "tx_wf t1" "tx_wf t2" "tx_strings t1 = tx_strings t2"
  shows "RawTx.truncate t1 = RawTx.truncate t2"
proof -
  have big: "x = y" if "big_Bytes x = big_Bytes y" "0 \<le> x" "0 \<le> y" for x y
    using that by (metis big_SetBytes_Bytes)
  have num: "x = y" if "be_bytes (nat x) = be_bytes (nat y)" "0 \<le> x" "0 \<le> y" for x y
    using that by (metis be_val_be_bytes eq_nat_nat_iff)
  show ?thesis
    using assms num [of "rt_Nonce t1" "rt_Nonce t2"] num [of "rt_Gas t1" "rt_Gas t2"]
      big [of "rt_GasPrice t1" "rt_GasPrice t2"] big [of "rt_Value t1" "rt_Value t2"]
    by (simp add: tx_strings_def tx_wf_def RawTx.defs)
qed

lemma signer_strings_inj: "signer_wf s1 \<Longrightarrow> signer_wf s2 \<Longrightarrow> signer_strings s1 = signer_strings s2 \<Longrightarrow> s1 = s2"
  by (auto simp: signer_strings_def signer_wf_def split: Signer.splits dest: arg_cong [where f = big_SetBytes] simp: big_SetBytes_Bytes)

lemma signer_strings_sizes: "signer_wf s \<Longrightarrow> list_all (\<lambda>b. length b \<le> 32) (signer_strings s) \<and> length (signer_strings s) \<le> 3"
  by (auto simp: signer_strings_def signer_wf_def length_big_Bytes_32 split: Signer.split)

lemma encoded_strings_inj:
  assumes "tx_wf t1" "tx_wf t2" "list_all (\<lambda>b. length b \<le> 32) bs1" "length bs1 \<le> 3" "list_all (\<lambda>b. length b \<le> 32) bs2" "length bs2 \<le> 3"
    and "encodeList (map encodeString (tx_strings t1 @ bs1)) = encodeList (map encodeString (tx_strings t2 @ bs2))"
  shows "RawTx.truncate t1 = RawTx.truncate t2 \<and> bs1 = bs2"
proof -
  have "tx_strings t1 @ bs1 = tx_strings t2 @ bs2"
    using encodeList_inj [OF assms(7)] tx_strings_sizes [OF assms(1,3,4)] tx_strings_sizes [OF assms(2,5,6)] by fastforce
  moreover have "length (tx_strings t1) = length (tx_strings t2)" by (simp add: tx_strings_def)
  ultimately show ?thesis using tx_strings_inj [OF assms(1,2)] by simp
qed

lemma signer_text_inj:
  assumes "tx_wf t1" "tx_wf t2" "signer_wf s1" "signer_wf s2" "signer_text s1 t1 = signer_text s2 t2"
  shows "s1 = s2 \<and> RawTx.truncate t1 = RawTx.truncate t2"
  using assms encoded_strings_inj [OF assms(1,2), of "signer_strings s1" "signer_strings s2"]
    signer_strings_sizes [OF assms(3)] signer_strings_sizes [OF assms(4)] signer_strings_inj [OF assms(3,4)]
  by (simp add: signer_text_def signed_items_strings)

definition sig_wf :: "txdata \<Rightarrow> bool" where
  "sig_wf tx \<longleftrightarrow> (\<forall>x \<in> {td_V tx, td_R tx, td_S tx}. 0 \<le> x \<and> x < 2 ^ 256)"

lemma tx_rlp_strings:
  "tx_wf tx \<Longrightarrow> sig_wf tx \<Longrightarrow> tx_rlp tx = Inr (encodeList (map encodeString (tx_strings tx @ [big_Bytes (td_V tx), big_Bytes (td_R tx), big_Bytes (td_S tx)])))"
  by (simp add: tx_rlp_def tx_items_strings sig_wf_def writeBigInt_string)

lemma tx_rlp_inj:
  assumes "tx_wf t1" "tx_wf t2" "sig_wf t1" "sig_wf t2" "tx_rlp t1 = tx_rlp t2"
  shows "t1 = t2"
proof -
  let ?sig = "\<lambda>t. [big_Bytes (td_V t), big_Bytes (td_R t), big_Bytes (td_S t)]"
  have "RawTx.truncate t1 = RawTx.truncate t2 \<and> ?sig t1 = ?sig t2"
    using encoded_strings_inj [OF assms(1,2), of "?sig t1" "?sig t2"] assms(3-5)
    by (simp add: tx_rlp_strings assms(1,2) sig_wf_def length_big_Bytes_32)
  moreover have "x = y" if "big_Bytes x = big_Bytes y" "0 \<le> x" "0 \<le> y" for x y
    using that by (metis big_SetBytes_Bytes)
  ultimately show ?thesis using assms(3,4) by (simp add: sig_wf_def RawTx.defs)
qed


subsection \<open>Who has signed\<close>

text \<open>What the documentation of \<open>secp256k1\<close> says of the numbers of a signature: in range, and the second in the lower half.\<close>

definition ecdsa_canonical :: "(bytes \<Rightarrow> bytes \<Rightarrow> bytes res) \<Rightarrow> bool" where
  "ecdsa_canonical ec_sign \<longleftrightarrow>
     (\<forall>h d sig. ec_sign h d = Inr sig \<longrightarrow>
        1 \<le> big_SetBytes (take 32 sig) \<and> big_SetBytes (take 32 sig) < secp256k1_N
      \<and> 1 \<le> big_SetBytes (take 32 (drop 32 sig)) \<and> big_SetBytes (take 32 (drop 32 sig)) \<le> secp256k1_halfN)"

lemma signature_parts:
  assumes "length sig = 65"
  shows "LeftPadBytes (big_Bytes (big_SetBytes (take 32 sig))) 32 @ LeftPadBytes (big_Bytes (big_SetBytes (take 32 (drop 32 sig)))) 32 @ [sig ! 64] = sig"
proof -
  have pad: "LeftPadBytes (big_Bytes (big_SetBytes b)) 32 = b" if "length b = 32" for b
    using LeftPad_be_bytes [of b] that by (simp add: big_Bytes_def big_SetBytes_def)
  have "drop 64 sig = [sig ! 64]" using assms by (simp add: Cons_nth_drop_Suc [symmetric])
  then have "take 32 sig @ take 32 (drop 32 sig) @ [sig ! 64] = sig"
    by (metis append_take_drop_id drop_drop numeral_Bit0)
  then show ?thesis using assms by (simp add: pad)
qed

lemma recoverPlain_signature:
  assumes "length sig = 65" "sig ! 64 = 0 \<or> sig ! 64 = 1" "ec_recover h sig = Inr pub"
    and "1 \<le> big_SetBytes (take 32 sig)" "big_SetBytes (take 32 sig) < secp256k1_N"
      "1 \<le> big_SetBytes (take 32 (drop 32 sig))" "big_SetBytes (take 32 (drop 32 sig)) \<le> secp256k1_halfN"
  shows "recoverPlain ec_recover pub_addr h (big_SetBytes (take 32 sig)) (big_SetBytes (take 32 (drop 32 sig))) (27 + uint (sig ! 64)) True = Inr (pub_addr pub)"
proof -
  have "(word_of_int (big_Uint64 (27 + uint (sig ! 64)) - 27) :: byte) = sig ! 64" "\<bar>27 + uint (sig ! 64)\<bar> < 2 ^ 8"
    using assms(2) by (auto simp: big_Uint64_def)
  moreover have "secp256k1_halfN < secp256k1_N" by (simp add: secp256k1_halfN_def secp256k1_N_def)
  ultimately show ?thesis
    using assms signature_parts [OF assms(1)] by (auto simp: recoverPlain_def Let_def ethCrypto_ValidateSignatureValues_def)
qed

lemma deriveChainId_signed:
  assumes "0 < c" "b = 0 \<or> b = (1 :: int)"
  shows "deriveChainId (b + 35 + 2 * c) = c"
proof -
  have "(b + 2 * c) div 2 = c" using assms by auto
  moreover have "b + 35 + 2 * c - 35 = b + 2 * c" by simp
  ultimately show ?thesis using assms by (auto simp: deriveChainId_def big_Uint64_def Let_def)
qed

lemma signer_Hash_extend: "signer_Hash K signer (RawTx.extend tx m) = signer_Hash K signer tx"
  by (simp add: signer_Hash_def signer_text_def signed_items_def tx_items_def RawTx.defs split: Signer.split)

lemma PrivateKey_SignTx_sender:
  assumes "ecdsa_spec ec_sign ec_recover ec_base" "ecdsa_canonical ec_sign" "wf_key ec_base c" "\<And>i. chainID = Some i \<Longrightarrow> 0 < i"
    and "PrivateKey_SignTx K ec_sign c addr tx chainID = Inr stx"
  shows "signer_Sender K ec_recover pub_addr (case chainID of Some i \<Rightarrow> EIP155Signer i | None \<Rightarrow> HomesteadSigner) stx = PrivateKey_Address pub_addr c"
    "RawTx.truncate stx = tx"
proof -
  let ?signer = "case chainID of Some i \<Rightarrow> EIP155Signer i | None \<Rightarrow> HomesteadSigner"
  let ?h = "signer_Hash K ?signer tx"
  from assms(3) obtain d pub where d: "privateKey c = Some \<lparr>pk_D = Some d, pk_Public = Some pub\<rparr>" "ec_base (LeftPadBytes (big_Bytes d) 32) = Some pub"
    by (auto simp: wf_key_def)
  from assms(5) d(1) obtain sig where sig: "ec_sign ?h (LeftPadBytes (big_Bytes d) 32) = Inr sig" "WithSignature ?signer sig tx = Inr stx"
    by (auto simp: PrivateKey_SignTx_def ethCrypto_Sign_def PaddedBigBytes_def Let_def split: if_splits)
  have spec: "length sig = 65" "sig ! 64 = 0 \<or> sig ! 64 = 1" "ec_recover ?h sig = Inr pub"
    using assms(1) sig(1) d(2) unfolding ecdsa_spec_def by blast+
  have rec: "recoverPlain ec_recover pub_addr ?h (big_SetBytes (take 32 sig)) (big_SetBytes (take 32 (drop 32 sig))) (27 + uint (sig ! 64)) True = Inr (pub_addr pub)"
    using assms(2) sig(1) by (intro recoverPlain_signature spec) (simp_all add: ecdsa_canonical_def)
  have v: "big_SetBytes [sig ! 64 + 27] = 27 + uint (sig ! 64)" "uint (sig ! 64 + 35) = uint (sig ! 64) + 35"
    using spec(2) by (auto simp: big_SetBytes_def be_val_def)
  show "RawTx.truncate stx = tx"
    using sig(2) by (auto simp: WithSignature_def RawTx.defs split: prod.splits)
  show "signer_Sender K ec_recover pub_addr ?signer stx = PrivateKey_Address pub_addr c"
  proof (cases chainID)
    case None
    then have "stx = RawTx.extend tx \<lparr>td_V = 27 + uint (sig ! 64), td_R = big_SetBytes (take 32 sig), td_S = big_SetBytes (take 32 (drop 32 sig))\<rparr>"
      using sig(2) spec(1) v by (simp add: WithSignature_def SignatureValues_def Homestead_SignatureValues_def)
    then show ?thesis using rec None d by (simp add: signer_Sender_def signer_Hash_extend PrivateKey_Address_def) (simp add: RawTx.defs)
  next
    case (Some i)
    then have i: "0 < i" using assms(4) by simp
    then have stx: "stx = RawTx.extend tx \<lparr>td_V = uint (sig ! 64) + 35 + 2 * i, td_R = big_SetBytes (take 32 sig), td_S = big_SetBytes (take 32 (drop 32 sig))\<rparr>"
      using sig(2) spec(1) v Some by (simp add: WithSignature_def SignatureValues_def Homestead_SignatureValues_def)
    have "isProtectedV (uint (sig ! 64) + 35 + 2 * i)" "deriveChainId (uint (sig ! 64) + 35 + 2 * i) = i"
      using i spec(2) by (auto simp: isProtectedV_def big_Uint64_def deriveChainId_signed [of i 0, simplified] deriveChainId_signed [of i 1, simplified])
    then show ?thesis using rec Some d stx
      by (simp add: signer_Sender_def signer_Hash_extend PrivateKey_Address_def Let_def) (simp add: RawTx.defs add.commute)
  qed
qed


subsection \<open>Properties\<close>

text \<open>Claim C9: the text that is signed says which transaction is signed, and for which chain: for transactions whose fields fit, two texts agree exactly when
  the signers and all six fields agree, so a signature for one chain, or for no chain, is none for another. The raw transaction that is sent determines all its fields.\<close>

theorem transaction_text_unambiguous:
  assumes "tx_wf t1" "tx_wf t2" "signer_wf s1" "signer_wf s2"
  shows "(signer_text s1 t1 = signer_text s2 t2 \<longleftrightarrow> s1 = s2 \<and> RawTx.truncate t1 = RawTx.truncate t2)
    \<and> (sig_wf t1 \<longrightarrow> sig_wf t2 \<longrightarrow> (tx_rlp t1 = tx_rlp t2 \<longleftrightarrow> t1 = t2))"
proof -
  have "signer_text s t = signer_text s (RawTx.truncate t)" for s t
    by (simp add: signer_text_def signed_items_def tx_items_def RawTx.defs split: Signer.split)
  then show ?thesis using signer_text_inj [OF assms] tx_rlp_inj [OF assms(1,2)] by metis
qed

definition demo_tx :: txdata where
  "demo_tx = \<lparr>rt_Nonce = 7, rt_To = replicate 20 6, rt_Value = 0, rt_Gas = 21000, rt_GasPrice = 1, rt_Data = [], td_V = 27, td_R = 1, td_S = 1\<rparr>"

theorem transaction_text_unambiguous_witness:
  "signer_text HomesteadSigner demo_tx \<noteq> signer_text (EIP155Signer 1) demo_tx \<and> tx_rlp demo_tx \<noteq> tx_rlp (demo_tx\<lparr>rt_Value := 5\<rparr>)"
  using transaction_text_unambiguous [of demo_tx demo_tx HomesteadSigner "EIP155Signer 1"]
    transaction_text_unambiguous [of demo_tx "demo_tx\<lparr>rt_Value := 5\<rparr>" HomesteadSigner HomesteadSigner]
  by (simp add: demo_tx_def tx_wf_def sig_wf_def signer_wf_def)

text \<open>The accessor signs with the installed crypto and without a chain id.\<close>

definition installed_signer ::
  "keccak \<Rightarrow> (bytes \<Rightarrow> bytes \<Rightarrow> bytes res) \<Rightarrow> (address \<Rightarrow> RawTx \<Rightarrow> int option \<Rightarrow> txdata res) \<Rightarrow> 'pub Crypto option \<Rightarrow> ('w, txdata) signer" where
  "installed_signer K ec_sign ks_SignTx crypto = \<lparr>sg_SignTx = (\<lambda>a raw. slift (crypto_SignTx K ec_sign ks_SignTx crypto a raw None)), sg_rlp = tx_rlp\<rparr>"

text \<open>Claim C8: a transaction that is sent while a private key is installed carries the fields it was made with, under the nonce \<open>n\<close> that the table then counts on from, and is
  signed by that key: every node recovers the key's address as its sender. This is so whatever sender was asked for; the nonce is the one of the sender that was asked for.\<close>

theorem sent_transaction_signed_by_key:
  assumes "ecdsa_spec ec_sign ec_recover ec_base" "ecdsa_canonical ec_sign" "wf_key ec_base c"
    and "send_with_nonce env (installed_signer K ec_sign ks_SignTx (Some (PrivateKeyCrypto c))) sender mk s = (s', Inr (h, tx))"
  shows "\<exists>n. RawTx.truncate tx = mk n \<and> signer_Sender K ec_recover pub_addr HomesteadSigner tx = PrivateKey_Address pub_addr c
    \<and> ea_AddressNonce (fst s') = (ea_AddressNonce (fst s))(sender \<mapsto> n + 1)"
proof -
  obtain n where n: "PrivateKey_SignTx K ec_sign c sender (mk n) None = Inr tx" "ea_AddressNonce (fst s') = (ea_AddressNonce (fst s))(sender \<mapsto> n + 1)"
    using send_with_nonce_outcome [OF assms(4)] by (auto simp: installed_signer_def slift_def crypto_SignTx_def)
  then show ?thesis using PrivateKey_SignTx_sender(1) [OF assms(1-3) _ n(1), of pub_addr] PrivateKey_SignTx_sender(2) [OF assms(1-3) _ n(1)] by auto
qed

definition demo_ec_sign :: "bytes \<Rightarrow> bytes \<Rightarrow> bytes res" where
  "demo_ec_sign h d = Inr (LeftPadBytes [1] 32 @ LeftPadBytes [1] 32 @ [0])"

lemma demo_ec: "ecdsa_spec demo_ec_sign (\<lambda>_ _. Inr ()) (\<lambda>_. Some ())" "ecdsa_canonical demo_ec_sign"
proof -
  have "(LeftPadBytes [1] 32 @ LeftPadBytes [1] 32 @ [0]) ! 64 = (0 :: byte)" by (simp add: nth_append)
  then show "ecdsa_spec demo_ec_sign (\<lambda>_ _. Inr ()) (\<lambda>_. Some ())" by (simp add: ecdsa_spec_def demo_ec_sign_def)
  have "be_val [1] = 1" by (simp add: be_val_Cons)
  then show "ecdsa_canonical demo_ec_sign"
    by (simp add: ecdsa_canonical_def demo_ec_sign_def big_SetBytes_def secp256k1_N_def secp256k1_halfN_def)
qed

theorem sent_transaction_signed_by_key_witness:
  "\<exists>s' h tx. send_with_nonce demo_node (installed_signer (\<lambda>_. replicate 32 0) demo_ec_sign (\<lambda>_ _ _. Inl (Err ''locked'')) (Some (PrivateKeyCrypto demo_key)))
      [5] (\<lambda>n. NewTransaction n (replicate 20 6) 0 21000 1 []) (demo_acc [[5] \<mapsto> 7], 0) = (s', Inr (h, tx))
    \<and> signer_Sender (\<lambda>_. replicate 32 0) (\<lambda>_ _. Inr ()) (\<lambda>_. replicate 20 9) HomesteadSigner tx = Inr (replicate 20 9)"
proof -
  let ?mk = "\<lambda>n. NewTransaction n (replicate 20 6) 0 21000 1 []" and ?K = "\<lambda>_. replicate 32 (0 :: byte)"
  let ?sg = "installed_signer ?K demo_ec_sign (\<lambda>_ _ _. Inl (Err ''locked'')) (Some (PrivateKeyCrypto demo_key))"
  obtain tx where tx: "PrivateKey_SignTx ?K demo_ec_sign demo_key [5] (?mk 7) None = Inr tx"
    by (simp add: PrivateKey_SignTx_def demo_ec_sign_def signer_Hash_def ethCrypto_Sign_def demo_key_def WithSignature_def SignatureValues_def Homestead_SignatureValues_def)
  have "\<exists>b. tx_rlp tx = Inr b"
    using tx by (auto simp: PrivateKey_SignTx_def demo_ec_sign_def signer_Hash_def ethCrypto_Sign_def demo_key_def WithSignature_def SignatureValues_def
        Homestead_SignatureValues_def tx_rlp_def tx_items_def writeBigInt_def NewTransaction_def RawTx.defs big_SetBytes_def)
  then have "SignAndSendTransaction demo_node ?sg [5] (?mk 7) (demo_acc N, w) = ((demo_acc N, w), Inr (''0xab'', tx))" for N w
    using tx by (auto simp: SignAndSendTransaction_def installed_signer_def crypto_SignTx_def demo_send_raw sret_def slift_def)
  then obtain s' where s': "send_with_nonce demo_node ?sg [5] ?mk (demo_acc [[5] \<mapsto> 7], 0) = (s', Inr (''0xab'', tx))"
    using demo_nonces by (auto simp: send_with_nonce_def sret_def)
  moreover have "signer_Sender ?K (\<lambda>_ _. Inr ()) (\<lambda>_. replicate 20 9) HomesteadSigner tx = Inr (replicate 20 9)"
    using sent_transaction_signed_by_key [OF demo_ec demo_key_wf s', of "\<lambda>_. replicate 20 9"] by (auto simp: PrivateKey_Address_def demo_key_def)
  ultimately show ?thesis by blast
qed

end
