(* ===== verification/Cap_Lifecycle.thy ===== *)
theory Cap_Lifecycle
  imports Market_Cap
begin

section \<open>Starting and stopping the market values (\<open>marketcap\<close>)\<close>

text \<open>
  The goroutines that refresh the tickers and the call that stops them, as a step relation: every \<open>Start\<close> adds a goroutine and a function that sends on its
  unbuffered channel; \<open>Stop\<close> calls these functions one after the other, each of which returns when its goroutine receives. The mixed provider hands
  every question to the first of its two providers and stops both.
\<close>

subsection \<open>State\<close>

text \<open>\<open>cs_refreshers\<close> has an entry for every \<open>Start\<close>, whether its goroutine still runs. \<open>Sending i\<close> is a \<open>Stop\<close> that sends on the channel of the \<open>i\<close>th; \<open>LocalSending\<close> is
  the send of the local provider, on a channel that no goroutine receives from.\<close>

datatype stopper = NotCalled | Sending nat | LocalSending | Returned

record 'w cap_sys =
  cs_provider :: CapProvider_CoinMarketCap
  cs_world :: 'w
  cs_refreshers :: "bool list"
  cs_stop :: stopper

record MixMarketCap =
  mx_coinMarketProvider :: CapProvider_CoinMarketCap
  mx_localCap :: "address \<rightharpoonup> CurrencyMarketCap"

definition NewLocalCap :: "address \<rightharpoonup> CurrencyMarketCap" where
  "NewLocalCap = Map.empty"

definition coin_Start :: "'w cap_sys \<Rightarrow> 'w cap_sys" where
  "coin_Start s = s\<lparr>cs_refreshers := cs_refreshers s @ [True]\<rparr>"

definition coin_Stop :: "'w cap_sys \<Rightarrow> 'w cap_sys" where
  "coin_Stop s = s\<lparr>cs_stop := Sending 0\<rparr>"

text \<open>What follows the last of the functions: the return of \<open>Stop\<close>, or, in the mixed provider, \<open>Stop\<close> of the local one, which has no functions to call.\<close>

definition after_coin_Stop :: "bool \<Rightarrow> stopper" where
  "after_coin_Stop mixed = (if mixed then LocalSending else Returned)"

definition icoTokens_contains :: "address list \<Rightarrow> address \<Rightarrow> bool" where
  "icoTokens_contains tokens addr \<longleftrightarrow> list_ex (\<lambda>token. token = addr) tokens"

subsection \<open>The mixed provider\<close>

definition mix_Start :: "market_env \<Rightarrow> market \<Rightarrow> MixMarketCap \<times> 'w cap_sys \<Rightarrow> (MixMarketCap \<times> 'w cap_sys) res" where
  "mix_Start E st = (\<lambda>(m, s). rbind (LocalCap_Start E st (mx_localCap m)) (\<lambda>caps. Inr (m\<lparr>mx_localCap := caps\<rparr>, coin_Start s)))"

definition selectCap :: "MixMarketCap \<Rightarrow> address \<Rightarrow> CapProvider_CoinMarketCap" where
  "selectCap m tokenAddress = mx_coinMarketProvider m"

definition mix_LegalCurrencyValue :: "'w cap_env \<Rightarrow> market \<Rightarrow> MixMarketCap \<Rightarrow> address \<Rightarrow> rat \<Rightarrow> ('w, rat) st" where
  "mix_LegalCurrencyValue E st m tokenAddress amount = LegalCurrencyValue E st (selectCap m tokenAddress) tokenAddress amount"

definition mix_LegalCurrencyValueOfEth :: "'w cap_env \<Rightarrow> market \<Rightarrow> MixMarketCap \<Rightarrow> rat \<Rightarrow> ('w, rat) st" where
  "mix_LegalCurrencyValueOfEth E st m amount = LegalCurrencyValueOfEth E st (selectCap m zero_address) amount"

definition mix_LegalCurrencyValueByCurrency :: "'w cap_env \<Rightarrow> market \<Rightarrow> MixMarketCap \<Rightarrow> address \<Rightarrow> rat \<Rightarrow> string \<Rightarrow> ('w, rat) st" where
  "mix_LegalCurrencyValueByCurrency E st m tokenAddress amount currencyStr =
     LegalCurrencyValueByCurrency E st (selectCap m tokenAddress) tokenAddress amount currencyStr"

definition mix_GetMarketCap :: "'w cap_env \<Rightarrow> market \<Rightarrow> MixMarketCap \<Rightarrow> address \<Rightarrow> ('w, rat) st" where
  "mix_GetMarketCap E st m tokenAddress = GetMarketCap E st (selectCap m tokenAddress) tokenAddress"

definition mix_GetEthCap :: "'w cap_env \<Rightarrow> market \<Rightarrow> MixMarketCap \<Rightarrow> ('w, rat) st" where
  "mix_GetEthCap E st m = GetEthCap E st (selectCap m zero_address)"

definition mix_GetMarketCapByCurrency :: "'w cap_env \<Rightarrow> market \<Rightarrow> MixMarketCap \<Rightarrow> address \<Rightarrow> string \<Rightarrow> ('w, rat) st" where
  "mix_GetMarketCapByCurrency E st m tokenAddress currencyStr = GetMarketCapByCurrency E st (selectCap m tokenAddress) tokenAddress currencyStr"

subsection \<open>Steps\<close>

inductive cap_step :: "'w cap_env \<Rightarrow> bool \<Rightarrow> 'w cap_sys \<Rightarrow> 'w cap_sys \<Rightarrow> bool" for E mixed where
  refresh: "i < length (cs_refreshers s) \<Longrightarrow> cs_refreshers s ! i \<Longrightarrow> sync_tick E (cs_provider s) (cs_world s) = (w, Inr p)
    \<Longrightarrow> cap_step E mixed s (s\<lparr>cs_provider := p, cs_world := w\<rparr>)"
| received: "cs_stop s = Sending i \<Longrightarrow> i < length (cs_refreshers s) \<Longrightarrow> cs_refreshers s ! i
    \<Longrightarrow> cap_step E mixed s (s\<lparr>cs_refreshers := (cs_refreshers s)[i := False], cs_stop := Sending (i + 1)\<rparr>)"
| finished: "cs_stop s = Sending (length (cs_refreshers s)) \<Longrightarrow> cap_step E mixed s (s\<lparr>cs_stop := after_coin_Stop mixed\<rparr>)"

inductive_cases cap_stepE: "cap_step E mixed s s'"

text \<open>While \<open>Stop\<close> runs, exactly the goroutines it has not reached yet run.\<close>

definition stop_inv :: "nat \<Rightarrow> bool \<Rightarrow> 'w cap_sys \<Rightarrow> bool" where
  "stop_inv n mixed s \<longleftrightarrow> length (cs_refreshers s) = n
   \<and> ((\<exists>i \<le> n. cs_stop s = Sending i \<and> (\<forall>j < n. cs_refreshers s ! j \<longleftrightarrow> i \<le> j)) \<or> cs_stop s = after_coin_Stop mixed \<and> (\<forall>j < n. \<not> cs_refreshers s ! j))"

lemma stop_inv_step:
  assumes "cap_step E mixed s s'" "stop_inv n mixed s"
  shows "stop_inv n mixed s'"
  using assms(1)
proof cases
  case (received i)
  have "\<forall>j < n. (cs_refreshers s)[i := False] ! j \<longleftrightarrow> i + 1 \<le> j"
    using assms(2) received by (auto simp: stop_inv_def nth_list_update after_coin_Stop_def split: if_splits)
  then show ?thesis using assms(2) received by (auto simp: stop_inv_def)
next
  case (refresh i w p)
  then show ?thesis using assms(2) by (simp add: stop_inv_def)
next
  case finished
  then show ?thesis using assms(2) by (auto simp: stop_inv_def after_coin_Stop_def split: if_splits)
qed

interpretation stopping: transition_system
  "\<lambda>s'. \<exists>s. s' = coin_Stop s \<and> list_all id (cs_refreshers s) \<and> length (cs_refreshers s) = n" "cap_step E mixed" "stop_inv n mixed"
proof unfold_locales
  fix s s' :: "'a cap_sys"
  show "\<exists>s0. s = coin_Stop s0 \<and> list_all id (cs_refreshers s0) \<and> length (cs_refreshers s0) = n \<Longrightarrow> stop_inv n mixed s"
    by (auto simp: stop_inv_def coin_Stop_def list_all_length)
  show "stop_inv n mixed s \<Longrightarrow> cap_step E mixed s s' \<Longrightarrow> stop_inv n mixed s'" by (rule stop_inv_step)
qed

lemma stop_inv_reachable:
  assumes "(cap_step E mixed)\<^sup>*\<^sup>* (coin_Stop s) s'" "list_all id (cs_refreshers s)"
  shows "stop_inv (length (cs_refreshers s)) mixed s'"
  using assms by (intro stopping.reachable_inv) auto

subsection \<open>What \<open>Stop\<close> does\<close>

text \<open>As long as \<open>Stop\<close> has not come to its end, it can take a step; each of its steps is one of as many as there were starts, and one more. When it has returned nothing
  is refreshed any more.\<close>

definition stop_left :: "'w cap_sys \<Rightarrow> nat" where
  "stop_left s = (case cs_stop s of Sending i \<Rightarrow> length (cs_refreshers s) + 1 - i | _ \<Rightarrow> 0)"

lemma Stop_progress:
  assumes "(cap_step E mixed)\<^sup>*\<^sup>* (coin_Stop s) s'" "list_all id (cs_refreshers s)" "cs_stop s' = Sending i"
  shows "\<exists>s''. cap_step E mixed s' s'' \<and> stop_left s'' < stop_left s'"
proof -
  have inv: "stop_inv (length (cs_refreshers s)) mixed s'" by (rule stop_inv_reachable [OF assms(1,2)])
  then have len: "length (cs_refreshers s') = length (cs_refreshers s)" and "i \<le> length (cs_refreshers s')"
    using assms(3) by (auto simp: stop_inv_def after_coin_Stop_def split: if_splits)
  then consider "i < length (cs_refreshers s')" | "i = length (cs_refreshers s')" by linarith
  then show ?thesis
  proof cases
    case 1
    then have "cs_refreshers s' ! i" using inv assms(3) len by (auto simp: stop_inv_def after_coin_Stop_def split: if_splits)
    from cap_step.received [OF assms(3) 1 this, of E mixed] 1 show ?thesis using assms(3) by (intro exI conjI) (auto simp: stop_left_def)
  next
    case 2
    then show ?thesis using cap_step.finished [of s' E mixed] assms(3)
      by (intro exI conjI) (auto simp: stop_left_def after_coin_Stop_def)
  qed
qed

lemma Stop_bounded: "cap_step E mixed s s' \<Longrightarrow> stop_left s' \<le> stop_left s"
  by (erule cap_stepE) (auto simp: stop_left_def after_coin_Stop_def split: stopper.split)

lemma Stop_quiet:
  assumes "(cap_step E mixed)\<^sup>*\<^sup>* (coin_Stop s) s'" "list_all id (cs_refreshers s)" "cs_stop s' = after_coin_Stop mixed"
  shows "\<not> cap_step E mixed s' s''"
proof
  assume "cap_step E mixed s' s''"
  then show False using stop_inv_reachable [OF assms(1,2)] assms(3)
    by cases (auto simp: stop_inv_def after_coin_Stop_def split: if_splits)
qed

text \<open>A second \<open>Stop\<close> waits for ever on the first channel.\<close>

lemma second_Stop_hangs:
  assumes "cs_refreshers s \<noteq> []" "list_all Not (cs_refreshers s)" "(cap_step E mixed)\<^sup>*\<^sup>* (coin_Stop s) s'"
  shows "s' = coin_Stop s"
proof -
  have "\<not> cap_step E mixed (coin_Stop s) s''" for s''
    using assms(1,2) by (auto simp: coin_Stop_def list_all_length elim!: cap_stepE)
  then show ?thesis using assms(3) by (metis converse_rtranclpE)
qed

text \<open>\<open>Stop\<close> of the mixed provider never returns, whatever was started.\<close>

lemma mix_Stop_never_returns:
  assumes "(cap_step E True)\<^sup>*\<^sup>* (coin_Stop s) s'"
  shows "cs_stop s' \<noteq> Returned"
proof -
  have "cs_stop s' = LocalSending \<or> (\<exists>i. cs_stop s' = Sending i)"
    using assms
  proof (induction rule: rtranclp_induct)
    case base
    then show ?case by (simp add: coin_Stop_def)
  next
    case (step s1 s2)
    from step.hyps(2) show ?case using step.IH by cases (auto simp: after_coin_Stop_def)
  qed
  then show ?thesis by auto
qed

end
