(* ===== verification/Services.thy ===== *)
theory Services
  imports Go_State
begin

section \<open>Database and notifications (\<open>dao\<close>, \<open>sns\<close>)\<close>

text \<open>
  The database service over the object-relational library and the notification client over the cloud library, both of which are parameters: what they are
  asked for, in which order, and what the callers get back.
\<close>

subsection \<open>The database service (\<open>dao/service.go\<close>, \<open>dao/interface.go\<close>)\<close>

record MysqlOptions =
  my_Hostname :: string
  my_Port :: string
  my_User :: string
  my_Password :: string
  my_DbName :: string
  my_TablePrefix :: string
  my_MaxOpenConnections :: int
  my_MaxIdleConnections :: int
  my_ConnMaxLifetime :: int
  my_Debug :: bool

text \<open>The library: whether there is a table for a type, creating one, bringing the tables up to date, and the five statements on an item. \<open>gorm_Find\<close> has the name of the table, the
  text of the condition and its arguments.\<close>

record ('d, 't, 'i) gorm =
  gorm_HasTable :: "'t \<Rightarrow> 'd \<Rightarrow> bool"
  gorm_CreateTable :: "'t \<Rightarrow> ('d, unit) st"
  gorm_AutoMigrate :: "'t list \<Rightarrow> ('d, unit) st"
  gorm_Create :: "'i \<Rightarrow> ('d, 'i) st"
  gorm_Delete :: "'i \<Rightarrow> ('d, 'i) st"
  gorm_First :: "'i \<Rightarrow> ('d, 'i) st"
  gorm_Last :: "'i \<Rightarrow> ('d, 'i) st"
  gorm_Save :: "'i \<Rightarrow> ('d, 'i) st"
  gorm_Find :: "string \<Rightarrow> string \<Rightarrow> int list \<Rightarrow> 'i \<Rightarrow> ('d, 'i) st"

record 't RdsServiceImpl =
  rds_options :: MysqlOptions
  rds_tables :: "'t list"

definition mysql_url :: "MysqlOptions \<Rightarrow> string" where
  "mysql_url options = my_User options @ '':'' @ my_Password options @ ''@tcp('' @ my_Hostname options @ '':'' @ my_Port options @ '')/'' @ my_DbName options
     @ ''?charset=utf8&parseTime=True''"

definition table_name :: "MysqlOptions \<Rightarrow> string \<Rightarrow> string" where
  "table_name options defaultTableName = my_TablePrefix options @ defaultTableName"

definition NewRdsService :: "(string \<Rightarrow> ('d, unit) st) \<Rightarrow> MysqlOptions \<Rightarrow> ('d, 't RdsServiceImpl) st" where
  "NewRdsService Open options =
    sbind (stry (Open (mysql_url options))) (\<lambda>r. case r of
        Inl err \<Rightarrow> sfail (Panic (Fatal ''mysql connection error''))
      | Inr _ \<Rightarrow> sret \<lparr>rds_options = options, rds_tables = []\<rparr>)"

definition SetTables :: "'t list \<Rightarrow> 't RdsServiceImpl \<Rightarrow> 't RdsServiceImpl" where
  "SetTables tables s = s\<lparr>rds_tables := tables\<rparr>"

fun create_missing :: "('d, 't, 'i) gorm \<Rightarrow> 't list \<Rightarrow> ('d, unit) st" where
  "create_missing G [] = sret ()"
| "create_missing G (t # ts) =
    sbind (sget (gorm_HasTable G t)) (\<lambda>ok.
    sbind (if \<not> ok then sbind (stry (gorm_CreateTable G t)) (\<lambda>r. case r of
               Inl err \<Rightarrow> sfail (Err ''create mysql table error'')
             | Inr _ \<Rightarrow> sret ())
           else sret ()) (\<lambda>_.
    create_missing G ts))"

definition CreateTables :: "('d, 't, 'i) gorm \<Rightarrow> 't RdsServiceImpl \<Rightarrow> ('d, unit) st" where
  "CreateTables G s = sbind (create_missing G (rds_tables s)) (\<lambda>_. gorm_AutoMigrate G (rds_tables s))"

definition dao_Add :: "('d, 't, 'i) gorm \<Rightarrow> 'i \<Rightarrow> ('d, 'i) st" where
  "dao_Add G item = gorm_Create G item"

definition dao_Del :: "('d, 't, 'i) gorm \<Rightarrow> 'i \<Rightarrow> ('d, 'i) st" where
  "dao_Del G item = gorm_Delete G item"

definition dao_First :: "('d, 't, 'i) gorm \<Rightarrow> 'i \<Rightarrow> ('d, 'i) st" where
  "dao_First G item = gorm_First G item"

definition dao_Last :: "('d, 't, 'i) gorm \<Rightarrow> 'i \<Rightarrow> ('d, 'i) st" where
  "dao_Last G item = gorm_Last G item"

definition dao_Save :: "('d, 't, 'i) gorm \<Rightarrow> 'i \<Rightarrow> ('d, 'i) st" where
  "dao_Save G item = gorm_Save G item"

text \<open>The table is the one of the orders, whatever the item is, and the condition has no place for its argument.\<close>

definition dao_FindAll :: "('d, 't, 'i) gorm \<Rightarrow> 'i \<Rightarrow> ('d, 'i) st" where
  "dao_FindAll G item = gorm_Find G ''lpr_orders'' ''id > '' [0] item"

subsection \<open>Creating tables\<close>

text \<open>What the library documents of its tables: a table that is created is there with those that were there before, and bringing tables up to date drops none.\<close>

definition tables_law :: "('d, 't, 'i) gorm \<Rightarrow> ('d \<Rightarrow> 't set) \<Rightarrow> bool" where
  "tables_law G tables \<longleftrightarrow>
     (\<forall>t d. gorm_HasTable G t d \<longleftrightarrow> t \<in> tables d)
   \<and> (\<forall>t d d'. gorm_CreateTable G t d = (d', Inr ()) \<longrightarrow> tables d' = insert t (tables d))
   \<and> (\<forall>t d d' e. gorm_CreateTable G t d = (d', Inl e) \<longrightarrow> tables d' = tables d)
   \<and> (\<forall>ts d d' r. gorm_AutoMigrate G ts d = (d', r) \<longrightarrow> tables d \<subseteq> tables d')"

lemma create_missing_tables:
  assumes "tables_law G tables" "create_missing G ts d = (d', r)"
  shows "tables d \<subseteq> tables d'" "r = Inr () \<Longrightarrow> tables d' = tables d \<union> set ts"
proof -
  have "tables d \<subseteq> tables d' \<and> (r = Inr () \<longrightarrow> tables d' = tables d \<union> set ts)"
    using assms(2)
  proof (induction ts arbitrary: d)
    case Nil
    then show ?case by (simp add: sret_def)
  next
    case (Cons t ts)
    have has: "gorm_HasTable G t d \<longleftrightarrow> t \<in> tables d" using assms(1) unfolding tables_law_def by blast
    show ?case
    proof (cases "gorm_HasTable G t d")
      case True
      then have "create_missing G ts d = (d', r)" using Cons.prems by (simp add: sbind_def sret_def sget_def)
      then show ?thesis using Cons.IH has True by auto
    next
      case False
      obtain d1 c where c: "gorm_CreateTable G t d = (d1, c)" by fastforce
      have created: "\<And>d'. gorm_CreateTable G t d = (d', Inr ()) \<Longrightarrow> tables d' = insert t (tables d)"
        and refused: "\<And>d' e. gorm_CreateTable G t d = (d', Inl e) \<Longrightarrow> tables d' = tables d"
        using assms(1) unfolding tables_law_def by blast+
      have keep: "tables d \<subseteq> tables d1" and new: "c = Inr () \<Longrightarrow> tables d1 = insert t (tables d)"
        using c created [of d1] refused [of d1] by (cases c; auto)+
      from Cons.prems False c have
        "(c = Inr () \<and> create_missing G ts d1 = (d', r)) \<or> ((\<exists>e. c = Inl e) \<and> d' = d1 \<and> (\<exists>e. r = Inl e))"
        by (cases c) (auto simp: sbind_def stry_def sret_def sfail_def sget_def split: go_error.splits)
      then show ?thesis using Cons.IH [of d1] new keep by auto
    qed
  qed
  then show "tables d \<subseteq> tables d'" "r = Inr () \<Longrightarrow> tables d' = tables d \<union> set ts" by auto
qed

text \<open>No table is lost by \<open>CreateTables\<close>, and when it succeeds there is one for every type that was set.\<close>

lemma CreateTables_complete:
  assumes "tables_law G tables" "CreateTables G (SetTables ts s) d = (d', r)"
  shows "tables d \<subseteq> tables d' \<and> (r = Inr () \<longrightarrow> set ts \<subseteq> tables d')"
proof -
  obtain d1 c where c: "create_missing G ts d = (d1, c)" by fastforce
  have migrate: "tables d1 \<subseteq> tables d2" if "gorm_AutoMigrate G ts d1 = (d2, r')" for d2 r'
    using assms(1) that unfolding tables_law_def by blast
  from c assms(2) show ?thesis
    using create_missing_tables [OF assms(1) c] migrate
    by (cases c) (auto simp: CreateTables_def SetTables_def sbind_def)
qed

subsection \<open>Notifications (\<open>sns/sns_client.go\<close>)\<close>

record SnsConfig =
  sc_Enabled :: bool
  sc_SNSTopicArn :: string
  sc_Region :: string

text \<open>The client holds the session where it is enabled.\<close>

record 'i SnsClient =
  sn_innerClient :: "'i option"
  sn_topicArn :: string
  sn_Enabled :: bool

definition sns_Initialize :: "(string \<Rightarrow> 'i res) \<Rightarrow> SnsConfig \<Rightarrow> ('i SnsClient option, unit) st" where
  "sns_Initialize NewSession config =
    (if \<not> sc_Enabled config then smod (\<lambda>_. Some \<lparr>sn_innerClient = None, sn_topicArn = [], sn_Enabled = False\<rparr>)
     else if sc_SNSTopicArn config = [] \<or> sc_Region config = [] then sfail (Err ''SnsConfig invalid'')
     else case NewSession (sc_Region config) of
       Inl err \<Rightarrow> sfail err
     | Inr sess \<Rightarrow> smod (\<lambda>_. Some \<lparr>sn_innerClient = Some sess, sn_topicArn = sc_SNSTopicArn config, sn_Enabled = True\<rparr>))"

text \<open>The messages that were published are the state; the time of day is an argument.\<close>

definition PublishSns ::
  "('i \<Rightarrow> string \<times> string \<times> string \<Rightarrow> unit res) \<Rightarrow> string \<Rightarrow> 'i SnsClient option \<Rightarrow> string \<Rightarrow> string
    \<Rightarrow> ((string \<times> string \<times> string) list, unit) st" where
  "PublishSns Publish time sc subject message =
    (case sc of
       None \<Rightarrow> sfail (Err ''SnsClient not initialized, will not send message'')
     | Some c \<Rightarrow>
         if \<not> sn_Enabled c then sret ()
         else (case sn_innerClient c of
             None \<Rightarrow> sfail (Panic NilDeref)
           | Some client \<Rightarrow>
               let input = (sn_topicArn c, subject, time @ ''|'' @ message) in
               sbind (smod (\<lambda>sent. sent @ [input])) (\<lambda>_.
               case Publish client input of
                 Inl err \<Rightarrow> sfail (Err ''Failed send sns message with error'')
               | Inr _ \<Rightarrow> sret ())))"

text \<open>A client that was initialized never panics; it asks for one message exactly when it is enabled, and without one it reports no error.\<close>

definition client_ok :: "'i SnsClient option \<Rightarrow> bool" where
  "client_ok sc \<longleftrightarrow> (\<forall>c. sc = Some c \<longrightarrow> sn_Enabled c \<longrightarrow> sn_innerClient c \<noteq> None \<and> sn_topicArn c \<noteq> [])"

lemma sns_Initialize_ok:
  assumes "client_ok sc" "sns_Initialize NewSession config sc = (sc', r)"
  shows "client_ok sc' \<and> (r \<noteq> Inr () \<longrightarrow> sc' = sc) \<and> (r = Inr () \<longrightarrow> (\<exists>c. sc' = Some c \<and> sn_Enabled c = sc_Enabled config))"
  using assms
  by (auto simp: sns_Initialize_def smod_def sfail_def client_ok_def split: if_splits sum.splits)

lemma PublishSns_once:
  assumes "client_ok (Some c)"
  shows "fst (PublishSns Publish time (Some c) subject message sent)
      = sent @ (if sn_Enabled c then [(sn_topicArn c, subject, time @ ''|'' @ message)] else [])"
    "\<forall>p. snd (PublishSns Publish time (Some c) subject message sent) \<noteq> Inl (Panic p)"
  using assms by (auto simp: PublishSns_def client_ok_def Let_def sret_def sfail_def smod_def sbind_def split: sum.splits)

end
