(* ===== verification/Spec2Isabelle.thy ===== *)
theory Spec2Isabelle
  imports Method_Calls Zk_Concurrent Redis_Cache Kafka_Stream Gas_Price Custom_Tokens Broadcast Metrics Zk_Config Ipfs Record_Json Tx_Sign Cap_Lifecycle Services
begin

text \<open>
  This library verifies relay-lib, the Go library that the Loopring relays, miners and extractors share: orders
  and rings with their hashes and signatures, the arguments and events of the Loopring contracts, the ABI codec, access to Ethereum
  nodes, gas prices, token tables and market values, the cache, the task balancer over ZooKeeper and the
  message plumbing between the processes. Paths below are relative to \<open>src/\<close>.

  \<^bold>\<open>How the code is modelled.\<close>
  A Go function is a HOL function. A struct is a \<open>record\<close> with the fields of the source, prefixed; a pointer that may be
  nil is an option, and following nil is a panic. Results are values of \<open>'a res\<close>, the sum of an error and
  a result, where an error is \<open>Err\<close> (a returned \<open>error\<close>) or \<open>Panic\<close> (nil pointer, index, division, type assertion,
  \<open>log.Fatal\<close>, or a call that never returns). Code with effects on servers is state passing: \<open>('s, 'a) st\<close> of \<open>Go_State\<close> takes a state and returns the new state and a
  result. Bytes are 8-bit words; \<open>big.Int\<close> is \<open>int\<close>, \<open>big.Rat\<close> is \<open>rat\<close>; where the code narrows a number to 64 bits or to a
  word of the contract the reduction is written out. A map is a partial function, and the order in which a
  \<open>range\<close> visits it is an argument (\<open>range_order\<close>), so that theorems hold for every order. Goroutines are step relations. Texts of errors are kept where a caller looks at them.

  \<^bold>\<open>Parts and theories.\<close>
  \<^item> \<open>Relay_Prelude\<close>: results, byte strings, decimal and hexadecimal texts. \<open>Go_State\<close>: the state monad. \<open>Go_Common\<close>: the helpers of
    go-ethereum that the code calls (vendored under \<open>vendor/\<close>): padding, \<open>Address\<close>, \<open>Hash\<close>, \<open>hexutil\<close>, 256-bit numbers.
  \<^item> \<open>Types_Basic\<close> (\<open>types/types.go\<close>, \<open>numbers.go\<close>, \<open>bytes.go\<close>): words, big numbers and their texts.
    \<open>Crypto_Sig\<close> (\<open>crypto/\<close>): signature formats, keys, recovery, over the curve as a parameter with the law \<open>ecdsa_spec\<close>.
  \<^item> \<open>Orders\<close> (\<open>types/order.go\<close>, \<open>p2p_order.go\<close>) and \<open>Order_Rings\<close> (\<open>types/ring.go\<close>): the hash preimage is unambiguous, a signed order yields its signer,
    amounts are conserved, a filled order offers what is available, the ring id does not depend on the listing.
  \<^item> \<open>Contract_Conv\<close> (\<open>eth/contract/\<close>, \<open>types/event.go\<close>): arguments of \<open>submitRing\<close>, converters of all events and methods.
    \<open>Abi_Codec\<close>, \<open>Abi_Roundtrip\<close>, \<open>Abi_Unpack\<close> (\<open>eth/abi/\<close>): types, packing, reading, unpacking into structs.
    \<open>Contract_Calls\<close> joins the two: the bytes of a \<open>submitRing\<close> transaction give back the orders of the ring. \<open>Method_Calls\<close>: the calls of the other methods, cancelling, cutoffs, allowances, transfers and withdrawals.
  \<^item> \<open>Eth_Types\<close> (\<open>eth/types/\<close>), \<open>Eth_Clients\<close> and \<open>Eth_Accessor\<close> (\<open>eth/accessor/\<close>): the table of nodes and its routing, retries, batches, blocks with
    receipts, the block iterator, nonces. \<open>Loopring_Accessor\<close> (\<open>eth/loopringaccessor/\<close>): contract calls and the registry of protocols.
    \<open>Gas_Price\<close> (\<open>eth/gasprice_evaluator/\<close>).
  \<^item> \<open>Market_Util\<close>, \<open>Custom_Tokens\<close> (\<open>marketutil/\<close>), \<open>Market_Cap\<close> (\<open>marketcap/\<close>): token tables, names and sides of markets, prices, tokens of
    users in the cache, values in currencies.
  \<^item> \<open>Redis_Cache\<close> (\<open>cache/\<close>): the pooled and the cluster cache over a Redis server with the law \<open>redis_spec\<close>.
  \<^item> \<open>Zk_Balancer\<close>, \<open>Zk_Safety\<close>, \<open>Zk_Behaviour\<close>, \<open>Zk_Concurrent\<close> (\<open>zklock/\<close>): the operations of the balancer, the invariant that each handler keeps on its own, and what each operation
    achieves. \<open>Zk_Concurrent\<close> interleaves the goroutines of a master at every access to the store and every mutex section, over a store that may fail: no task is published to two workers as long as no goroutine
    acts on an overtaken view and no write under the mutex is lost; the sequential handlers are the runs without interruption.
  \<^item> \<open>Event_Bus\<close> (\<open>eventemitter/\<close>, \<open>utils/unbounded_channel.go\<close>), \<open>Extractor\<close> (\<open>extractor/\<close>, \<open>kafka/consumer_register.go\<close>): emission to watchers, the unbounded
    channel, the way of an event from the extractor over Kafka to the watchers.
    \<open>Kafka_Stream\<close> (\<open>kafka/producer.go\<close>): the producer, and events from the producer over a partition to the emitter of the consumer, at least once and in order.
  \<^item> \<open>Order_Json\<close> (\<open>types/gen_order_json.go\<close>, \<open>gen_order_request_json.go\<close>, \<open>gen_p2pOrder_request_json.go\<close>): the JSON codecs of orders and order requests on
    JSON objects; what is written is read back, and what lacks a required field is refused.
  \<^item> \<open>Cache_Store\<close>: the cache as a store of texts, the interface that its clients rely on. \<open>Matrix_Client\<close> and \<open>Matrix_Feed\<close> (\<open>broadcast/matrix/\<close>): the client of a Matrix home server with its login and
    mutex, publishers and subscribers; the orders of a room are delivered once and in order over failed requests and renewed logins; across restarts
    at most the page of an interrupted call is lost, and orders come again only when the saved position has expired.
    \<open>Broadcast\<close> (\<open>broadcast/interface.go\<close>, \<open>default.go\<close>): publishing in goroutines, merging subscribers, and their composition with Matrix.
  \<^item> \<open>Zk_Config\<close> (\<open>zklock/zk_config.go\<close>): configuration handlers and their watch. \<open>Metrics\<close> (\<open>cloudwatch/\<close>, \<open>utils/network.go\<close>): collecting and batching of metrics,
    addresses of the host.
  \<^item> \<open>Ipfs\<close> (\<open>broadcast/ipfs/\<close>): publishing on a topic, the reader of records, the goroutine of a topic and the table of topics; the orders of the records are emitted once and in order.
    \<open>Record_Json\<close> (the other \<open>types/gen_*.go\<close>, \<open>types/token.go\<close>): codecs of the remaining records.
  \<^item> \<open>Tx_Sign\<close> (\<open>crypto/\<close>, with \<open>rlp\<close> and \<open>core/types\<close> of go-ethereum): signing of transactions; the signed text is unambiguous and the sender that nodes recover is the owner of the key.
    \<open>Cap_Lifecycle\<close> (\<open>marketcap/\<close>): starting and stopping of the providers. \<open>Services\<close> (\<open>dao/\<close>, \<open>sns/\<close>): tables and statements, notifications.
  The locales are the interfaces. \<open>transition_system\<close> (an invariant of a step relation) is interpreted on the emission, the unbounded channel, the balancer, the stopping of the market values, the
  broadcaster, the merging of subscribers and the configuration watch; \<open>text_codec\<close> and \<open>json_field\<close> on the text forms and JSON fields of numbers, words, hashes, addresses and keys;
  \<open>string_store\<close> and \<open>redis_server\<close> say what clients of the cache rely on; \<open>feed\<close> and \<open>live_feed\<close> say what a source of orders promises, and the Matrix subscriber
  is one (\<open>matrix_room\<close>, \<open>matrix_subscriber\<close>, \<open>answering_room\<close>); \<open>kafka_topic\<close> is a partition of the brokers.

  \<^bold>\<open>Parameters and their laws.\<close>
  Code outside \<open>src/\<close> is an argument: the secp256k1 library, Keccak, ZooKeeper, Redis, Kafka, Matrix home servers, the JSON codec, RPC nodes, the clock, the key store,
  and the random choice of a node. Theorems that need something of them say so as a hypothesis (\<open>ecdsa_spec\<close>, \<open>redis_spec\<close>, \<open>zk_reliable\<close>, \<open>zk_sound\<close>, \<open>runtime_laws\<close>,
  \<open>batch_laws\<close>, \<open>codec_ok\<close>, \<open>room_law\<close>, \<open>kafka_law\<close>, \<open>rat_text\<close>), and the witness of the theorem instantiates it. In RPC arguments the texts of addresses stand for themselves.

  \<^bold>\<open>Bounds.\<close>
  Loops of the code that always end are structural recursion or have a termination proof. The wait of the block iterator has no end in
  the code; \<open>polls\<close> is the number of polls that are observed, \<open>iterator_Next_returns\<close> shows that once a poll sees
  the height any larger number gives the same result. The Matrix subscriber polls without end in the same way; a call that still polls is
  continued by the next one. The retry loops have the counts of the code.

  \<^bold>\<open>What does not hold.\<close>
  Where the code does not do what it means to, the theory states what it does, next to the theorem that holds: weights that double and worker lists that are
  stale in the balancer, signatures that never validate, expiry times read as negative, cluster connections closed after
  one operation, prices averaged with the wrong count, arguments that panic the codec, token lists lost by a failed read, orders that
  become dust when a refresh fails, locks that are never released after a failed request.

  \<^bold>\<open>Not modelled.\<close>
  Logging (\<open>log/\<close>), the start of remote procedure clients and servers (\<open>motan/\<close>), constants (\<open>params/\<close>, topic names) and structures that nothing uses: they only call a library or hold
  data. The demonstration program \<open>zklock/main\<close>. The syntax of JSON is not modelled: codecs work on objects or are parameters.
  Sleeping, logging and the timing of retries are left out everywhere.
\<close>

end
